(* ===== verification/Go_Prelude.thy ===== *)
theory Go_Prelude
  imports Main "HOL-Library.Word" "HOL-Library.Sublist" "HOL-Library.Code_Target_Nat"
begin

text \<open>
  What every component of the development shares: the value domain of Go (bytes, strings,
  slices, run-time panics, errors), the functions of the packages \<open>strings\<close>, \<open>strconv\<close> and
  \<open>math/rand\<close> that gyip and its DNS library call, and generic lemmas on them.

  \<^item> A Go \<open>string\<close> is a sequence of bytes; it is a \<^typ>\<open>string\<close> (a character list, a HOL
    character being one of 256 byte values).  A \<open>[]byte\<close> is a list of 8-bit words; the
    conversions are \<open>bytes_of\<close> and \<open>string_of\<close>.
  \<^item> A computation that can panic, return a Go error or run forever is an \<open>outcome\<close>.
  \<^item> Go's \<open>int\<close> is a 64-bit integer; the values computed here are lengths and offsets of
    byte strings in memory and stay far below \<open>2 ^ 63\<close>, so they are \<^typ>\<open>int\<close> or
    \<^typ>\<open>nat\<close>. Unsigned integers of a fixed width are words of that width.
\<close>

section \<open>Outcomes of Go computations\<close>

type_synonym byte = "8 word"
type_synonym uint16 = "16 word"
type_synonym uint32 = "32 word"
type_synonym uint64 = "64 word"

text \<open>Run-time panics of the code, and the errors it returns as values.\<close>

datatype panic =
    SliceBoundsOutOfRange
  | IndexOutOfRange
  | ExplicitPanic string

datatype go_error =
    Error string
  | ExternalError

datatype 'a outcome =
    Ok 'a
  | Err go_error
  | Panic panic
  | Loops

primrec obind :: "'a outcome \<Rightarrow> ('a \<Rightarrow> 'b outcome) \<Rightarrow> 'b outcome" where
  "obind (Ok x) f = f x"
| "obind (Err e) f = Err e"
| "obind (Panic p) f = Panic p"
| "obind Loops f = Loops"

primrec map_ok :: "('a \<Rightarrow> 'b) \<Rightarrow> 'a outcome \<Rightarrow> 'b outcome" where
  "map_ok f (Ok x) = Ok (f x)"
| "map_ok f (Err e) = Err e"
| "map_ok f (Panic p) = Panic p"
| "map_ok f Loops = Loops"

primrec is_panic :: "'a outcome \<Rightarrow> bool" where
  "is_panic (Ok x) = False"
| "is_panic (Err e) = False"
| "is_panic (Panic p) = True"
| "is_panic Loops = False"

primrec is_ok :: "'a outcome \<Rightarrow> bool" where
  "is_ok (Ok x) = True"
| "is_ok (Err e) = False"
| "is_ok (Panic p) = False"
| "is_ok Loops = False"

text \<open>A computation is safe when it comes back with a value or with an error value.\<close>

definition safe :: "'a outcome \<Rightarrow> bool" where
  "safe m \<longleftrightarrow> (case m of Ok _ \<Rightarrow> True | Err _ \<Rightarrow> True | Panic _ \<Rightarrow> False | Loops \<Rightarrow> False)"

named_theorems safe_rules "introduction rules for computations that neither panic nor loop"
named_theorems wire_simps "equations of the wire-format readers and writers"

lemma safe_simps [simp]:
  "safe (Ok x)" "safe (Err e)" "\<not> safe (Panic p)" "\<not> safe Loops"
  by (simp_all add: safe_def)

lemma obind_eq_Ok [simp]: "obind m f = Ok y \<longleftrightarrow> (\<exists>x. m = Ok x \<and> f x = Ok y)"
  by (cases m) auto

lemma obind_eq_Loops: "obind m f = Loops \<longleftrightarrow> m = Loops \<or> (\<exists>x. m = Ok x \<and> f x = Loops)"
  by (cases m) auto

lemma obind_eq_Err: "obind m f = Err e \<longleftrightarrow> m = Err e \<or> (\<exists>x. m = Ok x \<and> f x = Err e)"
  by (cases m) auto

lemma obind_eq_Panic: "obind m f = Panic p \<longleftrightarrow> m = Panic p \<or> (\<exists>x. m = Ok x \<and> f x = Panic p)"
  by (cases m) auto

lemma obind_assoc: "obind (obind m f) g = obind m (\<lambda>x. obind (f x) g)"
  by (cases m) auto

lemma obind_Ok_right [simp]: "obind m Ok = m"
  by (cases m) auto

lemma obind_cong [fundef_cong]:
  "m = m' \<Longrightarrow> (\<And>x. m' = Ok x \<Longrightarrow> f x = g x) \<Longrightarrow> obind m f = obind m' g"
  by (cases m') auto

lemma map_ok_eq_Ok [simp]: "map_ok f m = Ok y \<longleftrightarrow> (\<exists>x. m = Ok x \<and> y = f x)"
  by (cases m) auto

lemma map_ok_eq_Panic [simp]: "map_ok f m = Panic p \<longleftrightarrow> m = Panic p"
  by (cases m) auto

lemma map_ok_eq_Loops [simp]: "map_ok f m = Loops \<longleftrightarrow> m = Loops"
  by (cases m) auto

lemma map_ok_map_ok [simp]: "map_ok f (map_ok g m) = map_ok (\<lambda>x. f (g x)) m"
  by (cases m) auto

lemma map_ok_id [simp]: "map_ok (\<lambda>x. x) m = m"
  by (cases m) auto

lemma safe_obind [safe_rules]:
  "safe m \<Longrightarrow> (\<And>x. m = Ok x \<Longrightarrow> safe (f x)) \<Longrightarrow> safe (obind m f)"
  by (cases m) auto

lemma safe_if [safe_rules]:
  "(c \<Longrightarrow> safe m) \<Longrightarrow> (\<not> c \<Longrightarrow> safe m') \<Longrightarrow> safe (if c then m else m')"
  by simp

lemma safe_map_ok [simp]: "safe (map_ok f m) = safe m"
  by (cases m) auto

section \<open>Bytes, strings and slices\<close>

definition ord :: "char \<Rightarrow> nat" where
  "ord c = of_char c"

definition byte_of :: "char \<Rightarrow> byte" where
  "byte_of c = of_nat (ord c)"

definition char_of_byte :: "byte \<Rightarrow> char" where
  "char_of_byte b = char_of (unat b)"

definition bytes_of :: "string \<Rightarrow> byte list" where
  "bytes_of s = map byte_of s"

definition string_of :: "byte list \<Rightarrow> string" where
  "string_of bs = map char_of_byte bs"

lemma ord_less_256 [simp]: "ord c < 256"
  by (simp add: ord_def)

lemma char_of_ord [simp]: "char_of (ord c) = c"
  by (simp add: ord_def)

lemma ord_char_of [simp]: "n < 256 \<Longrightarrow> ord (char_of n) = n"
  by (simp add: ord_def)

lemma ord_inj [simp]: "ord c = ord d \<longleftrightarrow> c = d"
  by (metis char_of_ord)

lemma unat_byte_less [simp]: "unat (b :: byte) < 256"
  using unsigned_less [of b] by simp

lemma unat_of_nat_byte [simp]: "n < 256 \<Longrightarrow> unat (of_nat n :: byte) = n"
  by (simp add: unsigned_of_nat take_bit_nat_eq_self)

lemma char_of_byte_of [simp]: "char_of_byte (byte_of c) = c"
  by (simp add: byte_of_def char_of_byte_def)

lemma byte_of_char_of_byte [simp]: "byte_of (char_of_byte b) = b"
  by (simp add: byte_of_def char_of_byte_def)

lemma string_of_bytes_of [simp]: "string_of (bytes_of s) = s"
  by (simp add: string_of_def bytes_of_def comp_def)

lemma bytes_of_string_of [simp]: "bytes_of (string_of b) = b"
  by (simp add: string_of_def bytes_of_def comp_def)

lemma length_bytes_of [simp]: "length (bytes_of s) = length s"
  by (simp add: bytes_of_def)

lemma length_string_of [simp]: "length (string_of b) = length b"
  by (simp add: string_of_def)

lemma bytes_of_append [simp]: "bytes_of (s @ t) = bytes_of s @ bytes_of t"
  by (simp add: bytes_of_def)

lemma string_of_append [simp]: "string_of (s @ t) = string_of s @ string_of t"
  by (simp add: string_of_def)

lemma bytes_of_Nil [simp]: "bytes_of [] = []"
  by (simp add: bytes_of_def)

lemma string_of_Nil [simp]: "string_of [] = []"
  by (simp add: string_of_def)

text \<open>The slice expression \<open>s[lo:hi]\<close>: a run-time panic when the bounds do not fit.\<close>

definition go_slice :: "'a list \<Rightarrow> int \<Rightarrow> int \<Rightarrow> 'a list outcome" where
  "go_slice s lo hi =
     (if 0 \<le> lo \<and> lo \<le> hi \<and> hi \<le> int (length s)
      then Ok (take (nat hi - nat lo) (drop (nat lo) s))
      else Panic SliceBoundsOutOfRange)"

text \<open>The index expression \<open>s[i]\<close>.\<close>

definition go_index :: "'a list \<Rightarrow> int \<Rightarrow> 'a outcome" where
  "go_index s i =
     (if 0 \<le> i \<and> i < int (length s) then Ok (s ! nat i) else Panic IndexOutOfRange)"

lemma go_slice_prefix:
  "go_slice s 0 (int n) = (if n \<le> length s then Ok (take n s) else Panic SliceBoundsOutOfRange)"
  by (simp add: go_slice_def)

lemma go_slice_nat:
  "lo \<le> hi \<Longrightarrow> hi \<le> length s \<Longrightarrow>
   go_slice s (int lo) (int hi) = Ok (take (hi - lo) (drop lo s))"
  by (simp add: go_slice_def)

lemma go_slice_neg: "hi < 0 \<Longrightarrow> go_slice s 0 hi = Panic SliceBoundsOutOfRange"
  by (simp add: go_slice_def)

lemma go_index_nat: "i < length s \<Longrightarrow> go_index s (int i) = Ok (s ! i)"
  by (simp add: go_index_def)

section \<open>Package strings\<close>

definition LastIndex :: "string \<Rightarrow> string \<Rightarrow> int" where
  "LastIndex s sep =
     (let is = filter (\<lambda>i. take (length sep) (drop i s) = sep)
                 [0 ..< length s + 1 - length sep]
      in if is = [] then -1 else int (last is))"

definition HasSuffix :: "string \<Rightarrow> string \<Rightarrow> bool" where
  "HasSuffix s suf \<longleftrightarrow>
     length suf \<le> length s \<and> drop (length s - length suf) s = suf"

text \<open>\<open>strings.Split\<close> with a one-byte separator.\<close>

fun split_on :: "char \<Rightarrow> string \<Rightarrow> string list" where
  "split_on c [] = [[]]"
| "split_on c (x # xs) =
     (if x = c then [] # split_on c xs
      else (case split_on c xs of [] \<Rightarrow> [[x]] | w # ws \<Rightarrow> (x # w) # ws))"

text \<open>\<open>strings.Join\<close> with a one-byte separator.\<close>

fun join_with :: "char \<Rightarrow> string list \<Rightarrow> string" where
  "join_with c [] = []"
| "join_with c [w] = w"
| "join_with c (w # ws) = w @ c # join_with c ws"

text \<open>
  \<open>strings.ToUpper\<close>, \<open>strings.ToLower\<close> on ASCII bytes; other bytes are left alone. The code
  compares the results with ASCII keywords only, and no non-ASCII code point maps to a letter
  of those keywords.
\<close>

definition upper_char :: "char \<Rightarrow> char" where
  "upper_char c = (if ord CHR ''a'' \<le> ord c \<and> ord c \<le> ord CHR ''z''
                   then char_of (ord c - 32) else c)"

definition lower_char :: "char \<Rightarrow> char" where
  "lower_char c = (if ord CHR ''A'' \<le> ord c \<and> ord c \<le> ord CHR ''Z''
                   then char_of (ord c + 32) else c)"

definition ToUpper :: "string \<Rightarrow> string" where
  "ToUpper s = map upper_char s"

definition ToLower :: "string \<Rightarrow> string" where
  "ToLower s = map lower_char s"

definition is_space :: "char \<Rightarrow> bool" where
  "is_space c \<longleftrightarrow> c = CHR '' '' \<or> (9 \<le> ord c \<and> ord c \<le> 13)"

definition TrimSpace :: "string \<Rightarrow> string" where
  "TrimSpace s = rev (dropWhile is_space (rev (dropWhile is_space s)))"

lemma length_ToLower [simp]: "length (ToLower s) = length s"
  by (simp add: ToLower_def)

lemma length_ToUpper [simp]: "length (ToUpper s) = length s"
  by (simp add: ToUpper_def)

lemma ToLower_append [simp]: "ToLower (s @ t) = ToLower s @ ToLower t"
  by (simp add: ToLower_def)

lemma ToLower_Nil [simp]: "ToLower [] = []"
  by (simp add: ToLower_def)

lemma ToLower_eq_Nil [simp]: "ToLower s = [] \<longleftrightarrow> s = []" "[] = ToLower s \<longleftrightarrow> s = []"
  by (auto simp: ToLower_def)

lemma HasSuffix_append [simp]: "HasSuffix (s @ t) t"
  by (simp add: HasSuffix_def)

lemma HasSuffix_iff: "HasSuffix s t \<longleftrightarrow> (\<exists>p. s = p @ t)"
proof
  assume "HasSuffix s t"
  then have "s = take (length s - length t) s @ t"
    by (metis HasSuffix_def append_take_drop_id)
  then show "\<exists>p. s = p @ t" ..
qed auto

lemma HasSuffix_suffix: "HasSuffix s t \<longleftrightarrow> suffix t s"
  by (auto simp: HasSuffix_iff suffix_def)

lemma filter_last_upt:
  assumes "k < n" "P k" "\<And>i. k < i \<Longrightarrow> i < n \<Longrightarrow> \<not> P i"
  shows "filter P [0 ..< n] \<noteq> [] \<and> last (filter P [0 ..< n]) = k"
proof -
  have "[0 ..< n] = [0 ..< k] @ k # [Suc k ..< n]"
    using assms(1) upt_add_eq_append [of 0 k "n - k"] by (simp add: upt_conv_Cons)
  moreover have "filter P [Suc k ..< n] = []"
    using assms(3) by (auto simp: filter_empty_conv)
  ultimately show ?thesis using assms(2) by simp
qed

lemma LastIndex_single:
  "LastIndex s [c] =
     (let is = filter (\<lambda>i. s ! i = c) [0 ..< length s] in if is = [] then -1 else int (last is))"
proof -
  have "filter (\<lambda>i. take (length [c]) (drop i s) = [c]) [0 ..< length s] =
        filter (\<lambda>i. s ! i = c) [0 ..< length s]"
    by (rule filter_cong) (auto simp: take_Suc_conv_app_nth hd_drop_conv_nth take_Suc)
  then show ?thesis by (simp add: LastIndex_def)
qed

lemma LastIndex_absent [simp]: "c \<notin> set s \<Longrightarrow> LastIndex s [c] = -1"
  by (auto simp: LastIndex_single Let_def filter_empty_conv in_set_conv_nth)

lemma LastIndex_found:
  assumes "c \<notin> set w"
  shows "LastIndex (p @ c # w) [c] = int (length p)"
proof -
  have "filter (\<lambda>i. (p @ c # w) ! i = c) [0 ..< length (p @ c # w)] \<noteq> [] \<and>
        last (filter (\<lambda>i. (p @ c # w) ! i = c) [0 ..< length (p @ c # w)]) = length p"
    by (rule filter_last_upt) (use assms in \<open>auto simp: nth_append nth_Cons' in_set_conv_nth\<close>)
  then show ?thesis by (simp add: LastIndex_single Let_def)
qed

lemma LastIndex_neg_iff: "LastIndex s [c] < 0 \<longleftrightarrow> c \<notin> set s"
proof
  assume "LastIndex s [c] < 0"
  then show "c \<notin> set s"
    by (metis LastIndex_found of_nat_0_le_iff not_le split_list_last)
qed simp

lemma LastIndex_bounds: "-1 \<le> LastIndex s [c] \<and> LastIndex s [c] < int (length s)"
proof (cases "c \<in> set s")
  case True
  then obtain p w where "s = p @ c # w" "c \<notin> set w" by (metis split_list_last)
  then show ?thesis by (simp add: LastIndex_found)
qed simp

lemma LastIndex_empty [simp]: "LastIndex s [] = int (length s)"
  by (simp add: LastIndex_def)

lemma LastIndex_suffix: "LastIndex (p @ t) t \<ge> 0"
proof -
  have "length p \<in> set (filter (\<lambda>i. take (length t) (drop i (p @ t)) = t)
          [0 ..< length (p @ t) + 1 - length t])"
    by simp
  then show ?thesis by (auto simp: LastIndex_def Let_def)
qed

lemma split_on_nonempty [simp]: "split_on c s \<noteq> []"
  by (induction s) (auto split: list.splits)

lemma join_split [simp]: "join_with c (split_on c s) = s"
proof (induction s)
  case (Cons x xs)
  obtain w ws where w: "split_on c xs = w # ws"
    by (cases "split_on c xs") auto
  with Cons show ?case by (cases ws) auto
qed simp

lemma split_on_absent [simp]: "c \<notin> set w \<Longrightarrow> split_on c w = [w]"
  by (induction w) auto

lemma split_on_append [simp]: "c \<notin> set w \<Longrightarrow> split_on c (w @ c # s) = w # split_on c s"
  by (induction w) auto

lemma split_join:
  "ws \<noteq> [] \<Longrightarrow> \<forall>w \<in> set ws. c \<notin> set w \<Longrightarrow> split_on c (join_with c ws) = ws"
  by (induction c ws rule: join_with.induct) auto

lemma split_on_parts: "w \<in> set (split_on c s) \<Longrightarrow> c \<notin> set w"
  by (induction s arbitrary: w) (auto split: list.splits if_splits)

lemma join_with_Cons: "ws \<noteq> [] \<Longrightarrow> join_with c (w # ws) = w @ c # join_with c ws"
  by (cases ws) auto

lemma join_with_snoc: "ws \<noteq> [] \<Longrightarrow> join_with c (ws @ [w]) = join_with c ws @ c # w"
  by (induction ws rule: induct_list012) auto

lemma join_with_append:
  "us \<noteq> [] \<Longrightarrow> ws \<noteq> [] \<Longrightarrow> join_with c (us @ ws) = join_with c us @ c # join_with c ws"
  by (induction us rule: induct_list012) (auto simp: join_with_Cons)

section \<open>Package strconv\<close>

definition is_digit :: "char \<Rightarrow> bool" where
  "is_digit c \<longleftrightarrow> ord CHR ''0'' \<le> ord c \<and> ord c \<le> ord CHR ''9''"

definition digit_val :: "char \<Rightarrow> nat" where
  "digit_val c = ord c - ord CHR ''0''"

definition digit_char :: "nat \<Rightarrow> char" where
  "digit_char d = char_of (48 + d)"

text \<open>\<open>strconv.Itoa\<close> on non-negative integers.\<close>

fun Itoa :: "nat \<Rightarrow> string" where
  "Itoa n = (if n < 10 then [digit_char n] else Itoa (n div 10) @ [digit_char (n mod 10)])"

declare Itoa.simps [simp del]

fun dec_val_from :: "nat \<Rightarrow> string \<Rightarrow> nat" where
  "dec_val_from n [] = n"
| "dec_val_from n (c # cs) = dec_val_from (n * 10 + digit_val c) cs"

text \<open>
  \<open>strconv.ParseInt(s, 10, bitSize)\<close>: an optional sign, at least one digit, digits only, and
  a value in the range of a signed integer of \<open>bitSize\<close> bits; \<open>None\<close> is a non-nil error.
\<close>

definition ParseInt10 :: "string \<Rightarrow> nat \<Rightarrow> int option" where
  "ParseInt10 s bitSize =
     (let neg = (s \<noteq> [] \<and> hd s = CHR ''-'');
          ds = (if s \<noteq> [] \<and> (hd s = CHR ''+'' \<or> hd s = CHR ''-'') then tl s else s);
          n = dec_val_from 0 ds
      in if ds = [] \<or> \<not> list_all is_digit ds then None
         else if \<not> neg \<and> n \<ge> 2 ^ (bitSize - 1) then None
         else if neg \<and> n > 2 ^ (bitSize - 1) then None
         else Some (if neg then - int n else int n))"

lemma ord_zero [simp]: "ord CHR ''0'' = 48" and ord_nine [simp]: "ord CHR ''9'' = 57"
  by (simp_all add: ord_def)

lemma is_digit_digit_char [simp]: "d < 10 \<Longrightarrow> is_digit (digit_char d)"
  by (simp add: is_digit_def digit_char_def)

lemma digit_val_digit_char [simp]: "d < 10 \<Longrightarrow> digit_val (digit_char d) = d"
  by (simp add: digit_val_def digit_char_def)

lemma Itoa_nonempty [simp]: "Itoa n \<noteq> []"
  by (subst Itoa.simps) simp

lemma Itoa_digits: "list_all is_digit (Itoa n)"
proof (induction n rule: Itoa.induct)
  case (1 n)
  then show ?case by (subst Itoa.simps) auto
qed

lemma dec_val_from_append: "dec_val_from n (s @ t) = dec_val_from (dec_val_from n s) t"
  by (induction s arbitrary: n) auto

lemma dec_val_Itoa [simp]: "dec_val_from 0 (Itoa n) = n"
proof (induction n rule: Itoa.induct)
  case (1 n)
  show ?case
  proof (cases "n < 10")
    case True
    then show ?thesis by (subst Itoa.simps) simp
  next
    case False
    then show ?thesis using "1.IH" by (subst Itoa.simps) (simp add: dec_val_from_append)
  qed
qed

section \<open>Package math/rand\<close>

text \<open>
  \<open>rand.Intn(n)\<close> returns a value of \<open>[0, n)\<close> and panics for \<open>n \<le> 0\<close>.  The generator is an
  argument: a raw draw \<open>r\<close>, any natural number, of which \<open>Intn\<close> keeps the remainder; every
  value below \<open>n\<close> is the result of some draw.
\<close>

definition Intn :: "nat \<Rightarrow> nat \<Rightarrow> nat outcome" where
  "Intn r n = (if n = 0 then Panic (ExplicitPanic ''invalid argument to Intn'') else Ok (r mod n))"

end
