(* ===== verification/Go_Net.thy ===== *)
theory Go_Net
  imports Go_Prelude
begin

text \<open>
  The part of Go's package \<open>net\<close> the program relies on, at the version the repository builds
  with (Go 1.10: \<open>.travis.yml\<close>, \<open>build.sh\<close>): \<open>ParseIP\<close> with its IPv4 and IPv6 parsers,
  \<open>To4\<close>, \<open>To16\<close> and \<open>String\<close>.  A non-nil \<open>net.IP\<close> is a list of bytes (4 or 16 of them
  in every value built here); nil is \<open>None\<close>.

  Lemmas: what \<open>ParseIP\<close> returns has 16 bytes; a string of at most one byte, or with no
  separator, is no address; printing and reparsing an IPv4 address gives it back; and which
  joins of decimal labels are addresses.
\<close>

section \<open>Numbers in addresses\<close>

type_synonym IP = "byte list"

definition big :: nat where
  "big = 0xFFFFFF"

text \<open>\<open>dtoi\<close>: decimal number, characters consumed, success.\<close>

fun dtoi_from :: "nat \<Rightarrow> nat \<Rightarrow> string \<Rightarrow> nat \<times> nat \<times> bool" where
  "dtoi_from n i [] = (if i = 0 then (0, 0, False) else (n, i, True))"
| "dtoi_from n i (c # cs) =
     (if is_digit c then
        (let n' = n * 10 + digit_val c
         in if n' \<ge> big then (big, i, False) else dtoi_from n' (Suc i) cs)
      else if i = 0 then (0, 0, False) else (n, i, True))"

definition dtoi :: "string \<Rightarrow> nat \<times> nat \<times> bool" where
  "dtoi s = dtoi_from 0 0 s"

text \<open>\<open>xtoi\<close>: the same for hexadecimal digits of either case.\<close>

definition hex_val :: "char \<Rightarrow> nat option" where
  "hex_val c =
     (if is_digit c then Some (digit_val c)
      else if ord CHR ''a'' \<le> ord c \<and> ord c \<le> ord CHR ''f'' then Some (ord c - ord CHR ''a'' + 10)
      else if ord CHR ''A'' \<le> ord c \<and> ord c \<le> ord CHR ''F'' then Some (ord c - ord CHR ''A'' + 10)
      else None)"

fun xtoi_from :: "nat \<Rightarrow> nat \<Rightarrow> string \<Rightarrow> nat \<times> nat \<times> bool" where
  "xtoi_from n i [] = (if i = 0 then (0, 0, False) else (n, i, True))"
| "xtoi_from n i (c # cs) =
     (case hex_val c of
        Some d \<Rightarrow> (let n' = n * 16 + d
                  in if n' \<ge> big then (0, i, False) else xtoi_from n' (Suc i) cs)
      | None \<Rightarrow> if i = 0 then (0, 0, False) else (n, i, True))"

definition xtoi :: "string \<Rightarrow> nat \<times> nat \<times> bool" where
  "xtoi s = xtoi_from 0 0 s"

section \<open>Addresses\<close>

definition v4InV6Prefix :: "byte list" where
  "v4InV6Prefix = [0, 0, 0, 0, 0, 0, 0, 0, 0, 0, 0xff, 0xff]"

text \<open>\<open>net.IPv4(a, b, c, d)\<close>: the 16-byte form.\<close>

definition IPv4 :: "byte \<Rightarrow> byte \<Rightarrow> byte \<Rightarrow> byte \<Rightarrow> IP" where
  "IPv4 a b c d = v4InV6Prefix @ [a, b, c, d]"

definition To4 :: "IP \<Rightarrow> IP option" where
  "To4 ip =
     (if length ip = 4 then Some ip
      else if length ip = 16 \<and> take 12 ip = v4InV6Prefix then Some (drop 12 ip)
      else None)"

definition To16 :: "IP \<Rightarrow> IP option" where
  "To16 ip =
     (if length ip = 4 then Some (v4InV6Prefix @ ip)
      else if length ip = 16 then Some ip
      else None)"

text \<open>
  The loop of \<open>parseIPv4\<close>: \<open>k\<close> octets are still to be read, \<open>p\<close> are the octets read
  so far (the loop index \<open>i\<close> is \<open>length p\<close>).
\<close>

fun parseIPv4_loop :: "nat \<Rightarrow> byte list \<Rightarrow> string \<Rightarrow> byte list option" where
  "parseIPv4_loop 0 p s = (if s = [] then Some p else None)"
| "parseIPv4_loop (Suc k) p s =
     (if s = [] then None
      else if p \<noteq> [] \<and> hd s \<noteq> CHR ''.'' then None
      else
        (let s1 = (if p \<noteq> [] then tl s else s)
         in case dtoi s1 of (n, c, ok) \<Rightarrow>
              if \<not> ok \<or> n > 0xFF then None
              else parseIPv4_loop k (p @ [of_nat n]) (drop c s1)))"

definition parseIPv4 :: "string \<Rightarrow> IP option" where
  "parseIPv4 s = map_option (\<lambda>p. v4InV6Prefix @ p) (parseIPv4_loop 4 [] s)"

text \<open>
  The loop of \<open>parseIPv6\<close>: at most \<open>k\<close> groups are still to be read, \<open>ip\<close> are the bytes
  read so far (the loop index \<open>i\<close> is \<open>length ip\<close>), \<open>ell\<close> is the position of the
  ellipsis.  The result holds the bytes, the ellipsis and the rest of the string.
\<close>

fun parseIPv6_loop :: "nat \<Rightarrow> byte list \<Rightarrow> nat option \<Rightarrow> string \<Rightarrow>
    (byte list \<times> nat option \<times> string) option" where
  "parseIPv6_loop 0 ip ell s = Some (ip, ell, s)"
| "parseIPv6_loop (Suc k) ip ell s =
     (case xtoi s of (n, c, ok) \<Rightarrow>
        if \<not> ok \<or> n > 0xFFFF then None
        else if c < length s \<and> s ! c = CHR ''.'' then
          (if ell = None \<and> length ip \<noteq> 12 then None
           else if length ip + 4 > 16 then None
           else (case parseIPv4 s of
                   None \<Rightarrow> None
                 | Some ip4 \<Rightarrow> Some (ip @ drop 12 ip4, ell, [])))
        else
          (let ip' = ip @ [of_nat (n div 256), of_nat n]; s1 = drop c s
           in if s1 = [] then Some (ip', ell, [])
              else if hd s1 \<noteq> CHR '':'' \<or> length s1 = 1 then None
              else
                (let s2 = tl s1
                 in if hd s2 = CHR '':'' then
                      (if ell \<noteq> None then None
                       else
                         (let s3 = tl s2
                          in if s3 = [] then Some (ip', Some (length ip'), [])
                             else parseIPv6_loop k ip' (Some (length ip')) s3))
                    else parseIPv6_loop k ip' ell s2)))"

definition parseIPv6 :: "string \<Rightarrow> IP option" where
  "parseIPv6 s =
     (let lead = (length s \<ge> 2 \<and> s ! 0 = CHR '':'' \<and> s ! 1 = CHR '':'');
          ell = (if lead then Some 0 else None);
          s0 = (if lead then drop 2 s else s)
      in if lead \<and> s0 = [] then Some (replicate 16 0)
         else (case parseIPv6_loop 8 [] ell s0 of
                 None \<Rightarrow> None
               | Some (ip, ell', s') \<Rightarrow>
                   if s' \<noteq> [] then None
                   else if length ip < 16 then
                     (case ell' of
                        None \<Rightarrow> None
                      | Some e \<Rightarrow> Some (take e ip @ replicate (16 - length ip) 0 @ drop e ip))
                   else if ell' \<noteq> None then None
                   else Some ip))"

text \<open>\<open>ParseIP\<close> looks for the first separator and picks the parser by it.\<close>

fun first_sep :: "string \<Rightarrow> char option" where
  "first_sep [] = None"
| "first_sep (c # cs) = (if c = CHR ''.'' \<or> c = CHR '':'' then Some c else first_sep cs)"

definition ParseIP :: "string \<Rightarrow> IP option" where
  "ParseIP s =
     (case first_sep s of
        None \<Rightarrow> None
      | Some c \<Rightarrow> if c = CHR ''.'' then parseIPv4 s else parseIPv6 s)"

section \<open>Printing addresses\<close>

definition dotted :: "byte list \<Rightarrow> string" where
  "dotted ip = join_with CHR ''.'' (map (\<lambda>b. Itoa (unat b)) ip)"

definition hex_digit :: "nat \<Rightarrow> char" where
  "hex_digit d = (if d < 10 then char_of (48 + d) else char_of (87 + d))"

fun appendHex :: "nat \<Rightarrow> string" where
  "appendHex n = (if n < 16 then [hex_digit n] else appendHex (n div 16) @ [hex_digit (n mod 16)])"

declare appendHex.simps [simp del]

text \<open>The 16-bit groups of an address.\<close>

fun ip_groups :: "byte list \<Rightarrow> nat list" where
  "ip_groups (a # b # ip) = (unat a * 256 + unat b) # ip_groups ip"
| "ip_groups _ = []"

text \<open>
  The longest run of zero groups: the loop of \<open>IP.String\<close> keeps the first longest run
  \<open>[e0, e1)\<close> and, after a run that is longer than the best one, goes on behind it.
  Positions count groups (the code counts bytes, two per group).
\<close>

function longest_run :: "nat list \<Rightarrow> nat \<Rightarrow> nat \<times> nat \<Rightarrow> nat \<times> nat" where
  "longest_run gs i (e0, e1) =
     (if i \<ge> length gs then (e0, e1)
      else (let j = i + length (takeWhile (\<lambda>g. g = 0) (drop i gs))
            in if j > i \<and> j - i > e1 - e0 then longest_run gs (Suc j) (i, j)
               else longest_run gs (Suc i) (e0, e1)))"
  by pat_completeness auto
termination
  by (relation "measure (\<lambda>(gs, i, e). Suc (length gs) - i)") auto

declare longest_run.simps [simp del]

text \<open>\<open>e0 = e1 = -1\<close> in the code: no run; here an empty run behind the last group.\<close>

definition zero_run :: "nat list \<Rightarrow> nat \<times> nat" where
  "zero_run gs =
     (case longest_run gs 0 (length gs, length gs) of
        (e0, e1) \<Rightarrow> if e1 - e0 \<le> 1 then (length gs, length gs) else (e0, e1))"

definition hex_groups :: "nat list \<Rightarrow> string" where
  "hex_groups gs = join_with CHR '':'' (map appendHex gs)"

definition IP_String6 :: "byte list \<Rightarrow> string" where
  "IP_String6 ip =
     (let gs = ip_groups ip
      in case zero_run gs of (e0, e1) \<Rightarrow>
           if e0 < e1 then hex_groups (take e0 gs) @ ''::'' @ hex_groups (drop e1 gs)
           else hex_groups gs)"

text \<open>
  \<open>IP.String\<close> for a nil address and for the two lengths addresses have here; any other
  length prints as a question mark and the raw bytes in the code, which never happens.
\<close>

definition IP_String :: "IP option \<Rightarrow> string" where
  "IP_String oip =
     (case oip of
        None \<Rightarrow> ''<nil>''
      | Some ip \<Rightarrow>
          (case To4 ip of
             Some p4 \<Rightarrow> dotted p4
           | None \<Rightarrow> if length ip = 16 then IP_String6 ip else ''?''))"

section \<open>What ParseIP returns\<close>

lemma parseIPv4_loop_length: "parseIPv4_loop k p s = Some q \<Longrightarrow> length q = length p + k"
  by (induction k p s rule: parseIPv4_loop.induct)
    (auto split: if_splits prod.splits simp: Let_def)

lemma parseIPv4_length: "parseIPv4 s = Some ip \<Longrightarrow> length ip = 16"
  by (auto simp: parseIPv4_def v4InV6Prefix_def dest: parseIPv4_loop_length)

lemma parseIPv6_loop_length:
  "parseIPv6_loop k ip ell s = Some (ip', ell', s') \<Longrightarrow> length ip + 2 * k \<le> 16 \<Longrightarrow>
   pred_option (\<lambda>e. e \<le> length ip) ell \<Longrightarrow>
   length ip' \<le> 16 \<and> pred_option (\<lambda>e. e \<le> length ip') ell'"
proof (induction k arbitrary: ip ell s)
  case (Suc k)
  obtain n c ok where x: "xtoi s = (n, c, ok)" by (cases "xtoi s")
  have len4: "length a = 16" if "parseIPv4 s = Some a" for a
    using parseIPv4_length [OF that] .
  have le2: "pred_option (\<lambda>e. e \<le> Suc (Suc (length ip))) ell"
    "pred_option (\<lambda>e. e \<le> 4 + length ip) ell"
    using Suc.prems(3) by (cases ell; simp)+
  show ?case
    using Suc.prems x le2
    by (auto simp: Let_def len4 split: if_splits option.splits dest: Suc.IH)
qed auto

lemma parseIPv6_length:
  assumes "parseIPv6 s = Some ip"
  shows "length ip = 16"
proof -
  have *: "length ip' \<le> 16 \<and> pred_option (\<lambda>e. e \<le> length ip') ell'"
    if "parseIPv6_loop 8 [] ell t = Some (ip', ell', t')" "ell = None \<or> ell = Some 0"
    for ell t ip' ell' t'
    by (rule parseIPv6_loop_length [OF that(1)]) (use that(2) in auto)
  show ?thesis
    using assms by (auto simp: parseIPv6_def Let_def split: if_splits option.splits dest!: *)
qed

lemma ParseIP_length: "ParseIP s = Some ip \<Longrightarrow> length ip = 16"
  by (auto simp: ParseIP_def parseIPv4_length parseIPv6_length split: option.splits if_splits)

section \<open>Strings that are no address\<close>

lemma first_sep_None_iff: "first_sep s = None \<longleftrightarrow> CHR ''.'' \<notin> set s \<and> CHR '':'' \<notin> set s"
  by (induction s) auto

lemma ParseIP_no_sep: "CHR ''.'' \<notin> set s \<Longrightarrow> CHR '':'' \<notin> set s \<Longrightarrow> ParseIP s = None"
  by (simp add: ParseIP_def first_sep_None_iff [THEN iffD2])

lemma ParseIP_Nil [simp]: "ParseIP [] = None"
  by (simp add: ParseIP_def)

lemma ParseIP_single [simp]: "ParseIP [c] = None"
proof (cases "c = CHR ''.'' \<or> c = CHR '':''")
  case True
  then show ?thesis
  proof
    assume "c = CHR ''.''"
    then show ?thesis
      by simp code_simp
  next
    assume "c = CHR '':''"
    then show ?thesis
      by simp code_simp
  qed
qed (simp add: ParseIP_def)

lemma ParseIP_short: "length s \<le> 1 \<Longrightarrow> ParseIP s = None"
  by (cases s) (auto simp: le_Suc_eq)

section \<open>Decimal octets\<close>

lemma dec_val_from_ge: "n \<le> dec_val_from n ds"
proof (induction ds arbitrary: n)
  case (Cons d ds)
  have "n \<le> n * 10 + digit_val d" by simp
  also have "\<dots> \<le> dec_val_from (n * 10 + digit_val d) ds" by (rule Cons.IH)
  finally show ?case by simp
qed simp

lemma dtoi_from_digits:
  assumes "list_all is_digit ds" "dec_val_from n ds < big" "0 < i + length ds"
    and "rest = [] \<or> \<not> is_digit (hd rest)"
  shows "dtoi_from n i (ds @ rest) = (dec_val_from n ds, i + length ds, True)"
  using assms
proof (induction ds arbitrary: n i)
  case Nil
  then show ?case by (cases rest) auto
next
  case (Cons d ds)
  have "n * 10 + digit_val d \<le> dec_val_from (n * 10 + digit_val d) ds"
    by (rule dec_val_from_ge)
  with Cons.prems have "n * 10 + digit_val d < big" by simp
  with Cons show ?case by (simp add: Let_def)
qed

lemma dtoi_Itoa:
  assumes "n < big" "rest = [] \<or> \<not> is_digit (hd rest)"
  shows "dtoi (Itoa n @ rest) = (n, length (Itoa n), True)"
proof -
  have "dtoi_from 0 0 (Itoa n @ rest) = (dec_val_from 0 (Itoa n), 0 + length (Itoa n), True)"
    by (rule dtoi_from_digits) (use assms in \<open>simp_all add: Itoa_digits\<close>)
  then show ?thesis by (simp add: dtoi_def)
qed

lemma not_digit_dot [simp]: "\<not> is_digit CHR ''.''"
  by (simp add: is_digit_def ord_def)

lemma not_digit_colon [simp]: "\<not> is_digit CHR '':''"
  by (simp add: is_digit_def ord_def)

lemma Itoa_no_sep [simp]: "CHR ''.'' \<notin> set (Itoa n)" "CHR '':'' \<notin> set (Itoa n)"
  using Itoa_digits [of n] by (auto simp: list_all_iff)

definition dot_octets :: "nat list \<Rightarrow> string" where
  "dot_octets ns = concat (map (\<lambda>n. CHR ''.'' # Itoa n) ns)"

lemma dot_octets_simps [simp]:
  "dot_octets [] = []" "dot_octets (n # ns) = CHR ''.'' # Itoa n @ dot_octets ns"
  by (simp_all add: dot_octets_def)

lemma join_octets: "join_with CHR ''.'' (map Itoa (n # ns)) = Itoa n @ dot_octets ns"
  by (induction ns arbitrary: n) auto

lemma dot_octets_head: "dot_octets ns = [] \<or> \<not> is_digit (hd (dot_octets ns))"
  by (cases ns) auto

lemma parseIPv4_loop_octets:
  assumes "p \<noteq> []" "list_all (\<lambda>n. n \<le> 255) ns"
  shows "parseIPv4_loop k p (dot_octets ns) =
           (if length ns = k then Some (p @ map of_nat ns) else None)"
  using assms
proof (induction ns arbitrary: k p)
  case Nil
  then show ?case by (cases k) auto
next
  case (Cons n ns)
  have "dtoi (Itoa n @ dot_octets ns) = (n, length (Itoa n), True)"
    by (rule dtoi_Itoa) (use Cons.prems dot_octets_head in \<open>auto simp: big_def\<close>)
  with Cons show ?case by (cases k) (auto simp: Let_def)
qed

lemma parseIPv4_loop_first:
  "dtoi s = (n, c, True) \<Longrightarrow> n \<le> 255 \<Longrightarrow> s \<noteq> [] \<Longrightarrow>
   parseIPv4_loop 4 [] s = parseIPv4_loop 3 [of_nat n] (drop c s)"
proof -
  have four: "(4::nat) = Suc 3" by simp
  show "dtoi s = (n, c, True) \<Longrightarrow> n \<le> 255 \<Longrightarrow> s \<noteq> [] \<Longrightarrow>
    parseIPv4_loop 4 [] s = parseIPv4_loop 3 [of_nat n] (drop c s)"
    unfolding four by (subst parseIPv4_loop.simps(2)) (simp add: Let_def)
qed

lemma parseIPv4_octets:
  assumes "list_all (\<lambda>n. n \<le> 255) (n # ns)"
  shows "parseIPv4 (join_with CHR ''.'' (map Itoa (n # ns))) =
           (if length ns = 3 then Some (v4InV6Prefix @ map of_nat (n # ns)) else None)"
proof -
  have d: "dtoi (Itoa n @ dot_octets ns) = (n, length (Itoa n), True)"
    by (rule dtoi_Itoa) (use assms dot_octets_head in \<open>auto simp: big_def\<close>)
  show ?thesis
    unfolding join_octets parseIPv4_def
    using assms parseIPv4_loop_first [OF d] by (simp add: parseIPv4_loop_octets)
qed

lemma first_sep_octets:
  "first_sep (join_with CHR ''.'' (map Itoa (n # ns))) = (if ns = [] then None else Some CHR ''.'')"
proof -
  have "first_sep (w @ s) = first_sep s" if "CHR ''.'' \<notin> set w" "CHR '':'' \<notin> set w" for w s
    using that by (induction w) auto
  from this [of "Itoa n"] show ?thesis unfolding join_octets
    by (cases ns) (simp_all add: first_sep_None_iff)
qed

text \<open>The dotted decimal octets are an address exactly when there are four of them.\<close>

lemma ParseIP_octets:
  assumes "list_all (\<lambda>n. n \<le> 255) ns"
  shows "ParseIP (join_with CHR ''.'' (map Itoa ns)) =
           (if length ns = 4 then Some (v4InV6Prefix @ map of_nat ns) else None)"
proof (cases ns)
  case (Cons n ms)
  then show ?thesis using assms
    unfolding ParseIP_def Cons first_sep_octets
    by (simp only: parseIPv4_octets) (cases ms, auto)
qed simp

section \<open>IPv4 addresses print and parse back\<close>

lemma To4_v4 [simp]: "length p = 4 \<Longrightarrow> To4 (v4InV6Prefix @ p) = Some p"
  by (simp add: To4_def v4InV6Prefix_def)

lemma To4_SomeD: "To4 ip = Some p \<Longrightarrow> length p = 4 \<and> (ip = p \<or> ip = v4InV6Prefix @ p)"
  unfolding To4_def by (auto split: if_splits) (metis append_take_drop_id)

lemma To16_To4: "length ip = 16 \<Longrightarrow> To16 ip = Some ip"
  by (simp add: To16_def)

lemma dotted_octets: "dotted p = join_with CHR ''.'' (map Itoa (map unat p))"
  by (simp add: dotted_def comp_def)

lemma octets_bound: "list_all (\<lambda>n. n \<le> 255) (map unat (p :: byte list))"
  by (auto simp: list_all_iff less_Suc_eq_le [symmetric])

lemma ParseIP_dotted:
  assumes "length p = 4"
  shows "ParseIP (dotted p) = Some (v4InV6Prefix @ p)"
  unfolding dotted_octets
  using assms by (subst ParseIP_octets [OF octets_bound]) (simp add: comp_def)

section \<open>IPv6 addresses print and parse back\<close>

text \<open>Hexadecimal numbers.\<close>

lemma hex_val_hex_digit [simp]: "d < 16 \<Longrightarrow> hex_val (hex_digit d) = Some d"
  by (auto simp: hex_val_def hex_digit_def is_digit_def digit_val_def ord_def)

lemma hex_val_sep [simp]: "hex_val CHR '':'' = None" "hex_val CHR ''.'' = None"
  by (simp_all add: hex_val_def ord_def)

fun hex_from :: "nat \<Rightarrow> string \<Rightarrow> nat" where
  "hex_from n [] = n"
| "hex_from n (c # cs) = hex_from (n * 16 + the (hex_val c)) cs"

definition is_hex :: "char \<Rightarrow> bool" where
  "is_hex c \<longleftrightarrow> hex_val c \<noteq> None"

lemma is_hex_hex_digit: "d < 16 \<Longrightarrow> is_hex (hex_digit d)"
  by (simp add: is_hex_def)

lemma hex_from_append: "hex_from n (s @ t) = hex_from (hex_from n s) t"
  by (induction s arbitrary: n) auto

lemma hex_from_ge: "n \<le> hex_from n ds"
proof (induction ds arbitrary: n)
  case (Cons d ds)
  have "n \<le> n * 16 + the (hex_val d)" by simp
  also have "\<dots> \<le> hex_from (n * 16 + the (hex_val d)) ds" by (rule Cons.IH)
  finally show ?case by simp
qed simp

lemma appendHex_hex: "list_all is_hex (appendHex n)"
proof (induction n rule: appendHex.induct)
  case (1 n)
  then show ?case by (subst appendHex.simps) (auto simp: is_hex_hex_digit)
qed

lemma hex_from_appendHex [simp]: "hex_from 0 (appendHex n) = n"
proof (induction n rule: appendHex.induct)
  case (1 n)
  then show ?case by (subst appendHex.simps) (auto simp: hex_from_append)
qed

lemma appendHex_nonempty [simp]: "appendHex n \<noteq> []"
  by (subst appendHex.simps) simp

lemma xtoi_from_digits:
  assumes "list_all is_hex ds" "hex_from n ds < big" "0 < i + length ds"
    and "rest = [] \<or> \<not> is_hex (hd rest)"
  shows "xtoi_from n i (ds @ rest) = (hex_from n ds, i + length ds, True)"
  using assms
proof (induction ds arbitrary: n i)
  case Nil
  then show ?case by (cases rest) (auto simp: is_hex_def)
next
  case (Cons d ds)
  obtain v where v: "hex_val d = Some v" using Cons.prems by (auto simp: is_hex_def)
  have "n * 16 + v \<le> hex_from (n * 16 + v) ds" by (rule hex_from_ge)
  with Cons.prems v have "n * 16 + v < big" by simp
  with Cons v show ?case by (simp add: Let_def)
qed

lemma xtoi_appendHex:
  assumes "n < big" "rest = [] \<or> \<not> is_hex (hd rest)"
  shows "xtoi (appendHex n @ rest) = (n, length (appendHex n), True)"
proof -
  have "xtoi_from 0 0 (appendHex n @ rest) =
          (hex_from 0 (appendHex n), 0 + length (appendHex n), True)"
    by (rule xtoi_from_digits) (use assms in \<open>simp_all add: appendHex_hex\<close>)
  then show ?thesis by (simp add: xtoi_def)
qed

lemma appendHex_no_sep [simp]: "CHR '':'' \<notin> set (appendHex n)" "CHR ''.'' \<notin> set (appendHex n)"
  using appendHex_hex [of n] by (auto simp: list_all_iff is_hex_def)

lemma hd_appendHex [simp]: "hd (appendHex n) \<noteq> CHR '':''"
  by (metis appendHex_no_sep(1) appendHex_nonempty list.set_sel(1))

text \<open>Groups of an address and their bytes.\<close>

definition group_bytes :: "nat list \<Rightarrow> byte list" where
  "group_bytes gs = concat (map (\<lambda>g. [of_nat (g div 256), of_nat g]) gs)"

lemma group_bytes_simps [simp]:
  "group_bytes [] = []"
  "group_bytes (g # gs) = of_nat (g div 256) # of_nat g # group_bytes gs"
  "group_bytes (gs @ hs) = group_bytes gs @ group_bytes hs"
  by (simp_all add: group_bytes_def)

lemma length_group_bytes [simp]: "length (group_bytes gs) = 2 * length gs"
  by (induction gs) auto

lemma group_bytes_zeros [simp]: "group_bytes (replicate n 0) = replicate (2 * n) 0"
  by (induction n) auto

lemma byte_256 [simp]: "(a :: byte) * 256 = 0"
proof -
  have "(256 :: byte) = 0" by simp
  then show ?thesis by (simp only: mult_zero_right)
qed

lemma div_byte_pair: "(unat a * 256 + unat b) div 256 = unat a" for a b :: byte
  using unat_byte_less [of b] by (simp add: div_mult_self3)

lemma ip_groups_bytes: "even (length ip) \<Longrightarrow> group_bytes (ip_groups ip) = ip"
proof (induction ip rule: ip_groups.induct)
  case (1 a b ip)
  then show ?case by (simp add: div_byte_pair)
qed auto

lemma ip_groups_length: "length (ip_groups ip) = length ip div 2"
  by (induction ip rule: ip_groups.induct) auto

lemma ip_groups_bound: "list_all (\<lambda>g. g \<le> 0xFFFF) (ip_groups ip)"
proof (induction ip rule: ip_groups.induct)
  case (1 a b ip)
  have "unat a \<le> 255" "unat b \<le> 255" using unat_byte_less [of a] unat_byte_less [of b] by linarith+
  with 1 show ?case by simp
qed auto

text \<open>The loop of the parser on printed groups.\<close>

lemma hex_groups_simps [simp]:
  "hex_groups [] = []" "hex_groups [g] = appendHex g"
  "hex_groups (g # h # gs) = appendHex g @ CHR '':'' # hex_groups (h # gs)"
  by (simp_all add: hex_groups_def)

lemma hd_hex_groups [simp]: "gs \<noteq> [] \<Longrightarrow> hd (hex_groups gs @ s) \<noteq> CHR '':''"
  by (cases gs; cases "tl gs") auto

lemma hex_groups_nonempty [simp]: "hex_groups gs = [] \<longleftrightarrow> gs = []"
  by (cases gs; cases "tl gs") auto

lemma parseIPv6_loop_group:
  assumes "g \<le> 0xFFFF" "hd rest \<noteq> CHR '':''" "rest \<noteq> []"
  shows "parseIPv6_loop (Suc k) ip ell (appendHex g @ CHR '':'' # rest) =
           parseIPv6_loop k (ip @ [of_nat (g div 256), of_nat g]) ell rest"
proof -
  have "xtoi (appendHex g @ CHR '':'' # rest) = (g, length (appendHex g), True)"
    by (rule xtoi_appendHex) (use assms in \<open>auto simp: big_def is_hex_def\<close>)
  then show ?thesis using assms by (simp add: Let_def)
qed

lemma parseIPv6_loop_last:
  assumes "g \<le> 0xFFFF"
  shows "parseIPv6_loop (Suc k) ip ell (appendHex g) =
           Some (ip @ [of_nat (g div 256), of_nat g], ell, [])"
proof -
  have "xtoi (appendHex g @ []) = (g, length (appendHex g), True)"
    by (rule xtoi_appendHex) (use assms in \<open>auto simp: big_def\<close>)
  then show ?thesis using assms by (simp add: Let_def)
qed

lemma parseIPv6_loop_ellipsis:
  assumes "g \<le> 0xFFFF"
  shows "parseIPv6_loop (Suc k) ip None (appendHex g @ CHR '':'' # CHR '':'' # rest) =
           (let ip' = ip @ [of_nat (g div 256), of_nat g]
            in if rest = [] then Some (ip', Some (length ip'), [])
               else parseIPv6_loop k ip' (Some (length ip')) rest)"
proof -
  have "xtoi (appendHex g @ CHR '':'' # CHR '':'' # rest) = (g, length (appendHex g), True)"
    by (rule xtoi_appendHex) (use assms in \<open>auto simp: big_def is_hex_def\<close>)
  then show ?thesis using assms by (simp add: Let_def)
qed

lemma parseIPv6_loop_groups:
  "gs \<noteq> [] \<Longrightarrow> length gs \<le> k \<Longrightarrow> list_all (\<lambda>g. g \<le> 0xFFFF) gs \<Longrightarrow>
   parseIPv6_loop k ip ell (hex_groups gs) = Some (ip @ group_bytes gs, ell, [])"
proof (induction gs arbitrary: k ip)
  case (Cons g gs)
  then obtain k' where k: "k = Suc k'" by (cases k) auto
  show ?case
  proof (cases gs)
    case Nil
    then show ?thesis using Cons.prems k by (simp add: parseIPv6_loop_last del: parseIPv6_loop.simps)
  next
    case (Cons h hs)
    have "hd (hex_groups (h # hs) @ []) \<noteq> CHR '':''" by (rule hd_hex_groups) simp
    then have "parseIPv6_loop k ip ell (hex_groups (g # gs)) =
        parseIPv6_loop k' (ip @ [of_nat (g div 256), of_nat g]) ell (hex_groups gs)"
      using Cons \<open>list_all _ (g # gs)\<close> k by (simp add: parseIPv6_loop_group del: parseIPv6_loop.simps)
    then show ?thesis using Cons Cons.IH [of k'] Cons.prems k by simp
  qed
qed simp

lemma parseIPv6_loop_run:
  "gs \<noteq> [] \<Longrightarrow> length gs + length hs \<le> k \<Longrightarrow> list_all (\<lambda>g. g \<le> 0xFFFF) (gs @ hs) \<Longrightarrow>
   parseIPv6_loop k ip None (hex_groups gs @ ''::'' @ hex_groups hs) =
     Some (ip @ group_bytes (gs @ hs), Some (length ip + 2 * length gs), [])"
proof (induction gs arbitrary: k ip)
  case (Cons g gs)
  then obtain k' where k: "k = Suc k'" by (cases k) auto
  show ?case
  proof (cases gs)
    case Nil
    then show ?thesis using Cons.prems k
      by (simp add: parseIPv6_loop_ellipsis parseIPv6_loop_groups Let_def
          del: parseIPv6_loop.simps)
  next
    case (Cons h hs')
    have "hd (hex_groups (h # hs') @ ''::'' @ hex_groups hs) \<noteq> CHR '':''"
      by (rule hd_hex_groups) simp
    then have "parseIPv6_loop k ip None (hex_groups (g # gs) @ ''::'' @ hex_groups hs) =
        parseIPv6_loop k' (ip @ [of_nat (g div 256), of_nat g]) None
          (hex_groups gs @ ''::'' @ hex_groups hs)"
      using Cons \<open>list_all _ ((g # gs) @ hs)\<close> k
      by (simp add: parseIPv6_loop_group del: parseIPv6_loop.simps)
    then show ?thesis using Cons Cons.IH [of k'] Cons.prems k by simp
  qed
qed simp

text \<open>The run of zero groups that \<open>IP.String\<close> abbreviates.\<close>

lemma takeWhile_zero_run:
  "i \<le> k \<Longrightarrow> k < i + length (takeWhile (\<lambda>g. g = 0) (drop i gs)) \<Longrightarrow> gs ! k = 0"
proof -
  assume k: "i \<le> k" "k < i + length (takeWhile (\<lambda>g. g = 0) (drop i gs))"
  let ?t = "takeWhile (\<lambda>g. g = 0) (drop i gs)"
  have lt: "k - i < length ?t" using k by simp
  then have "?t ! (k - i) \<in> set ?t" by (rule nth_mem)
  then have "?t ! (k - i) = 0" by (rule set_takeWhileD [THEN conjunct2])
  moreover have "?t ! (k - i) = drop i gs ! (k - i)" using lt by (rule takeWhile_nth)
  moreover have "i \<le> length gs" using lt by (cases "i \<le> length gs") auto
  ultimately show "gs ! k = 0" using k(1) by simp
qed

lemma longest_run_zeros:
  "longest_run gs i (e0, e1) = (f0, f1) \<Longrightarrow> e0 \<le> e1 \<Longrightarrow> e1 \<le> length gs \<Longrightarrow>
   (\<forall>k. e0 \<le> k \<longrightarrow> k < e1 \<longrightarrow> gs ! k = 0) \<Longrightarrow>
   f0 \<le> f1 \<and> f1 \<le> length gs \<and> (\<forall>k. f0 \<le> k \<longrightarrow> k < f1 \<longrightarrow> gs ! k = 0)"
proof (induction gs i "(e0, e1)" arbitrary: e0 e1 rule: longest_run.induct)
  case (1 gs i e0 e1)
  let ?j = "i + length (takeWhile (\<lambda>g. g = 0) (drop i gs))"
  have j: "?j \<le> length gs" if "i < length gs"
    using that length_takeWhile_le [of "\<lambda>g. g = 0" "drop i gs"] by simp
  show ?case
  proof (cases "i \<ge> length gs")
    case True
    then show ?thesis using 1(3-) by (subst (asm) longest_run.simps) auto
  next
    case False
    show ?thesis
    proof (cases "?j > i \<and> ?j - i > e1 - e0")
      case True
      then have eq: "longest_run gs (Suc ?j) (i, ?j) = (f0, f1)"
        using 1(3) False by (subst (asm) longest_run.simps) (simp add: Let_def)
      show ?thesis
        by (rule 1(1) [OF False refl True eq]) (use j False takeWhile_zero_run in auto)
    next
      case no: False
      then have eq: "longest_run gs (Suc i) (e0, e1) = (f0, f1)"
        using 1(3) False by (subst (asm) longest_run.simps) (auto simp: Let_def split: if_splits)
      show ?thesis by (rule 1(2) [OF False refl no eq 1(4-6)])
    qed
  qed
qed

lemma zero_run_zeros:
  assumes "zero_run gs = (e0, e1)"
  shows "e0 \<le> e1 \<and> e1 \<le> length gs \<and> take (e1 - e0) (drop e0 gs) = replicate (e1 - e0) 0"
proof -
  obtain f0 f1 where f: "longest_run gs 0 (length gs, length gs) = (f0, f1)"
    by (cases "longest_run gs 0 (length gs, length gs)")
  have "f0 \<le> f1 \<and> f1 \<le> length gs \<and> (\<forall>k. f0 \<le> k \<longrightarrow> k < f1 \<longrightarrow> gs ! k = 0)"
    by (rule longest_run_zeros [OF f]) auto
  then have "e0 \<le> e1 \<and> e1 \<le> length gs \<and> (\<forall>k. e0 \<le> k \<longrightarrow> k < e1 \<longrightarrow> gs ! k = 0)"
    using assms f by (auto simp: zero_run_def split: if_splits)
  then show ?thesis by (auto intro!: nth_equalityI)
qed

lemma run_split:
  assumes "e0 \<le> e1" "e1 \<le> length gs" "take (e1 - e0) (drop e0 gs) = replicate (e1 - e0) 0"
  shows "gs = take e0 gs @ replicate (e1 - e0) 0 @ drop e1 gs"
proof -
  have "gs = take e0 gs @ drop e0 gs" by simp
  also have "drop e0 gs = take (e1 - e0) (drop e0 gs) @ drop (e1 - e0) (drop e0 gs)"
    by (rule append_take_drop_id [symmetric])
  also have "drop (e1 - e0) (drop e0 gs) = drop e1 gs" using assms(1) by simp
  finally show ?thesis using assms(3) by simp
qed

lemma parseIPv6_plain:
  assumes "length gs = 8" "list_all (\<lambda>g. g \<le> 0xFFFF) gs"
  shows "parseIPv6 (hex_groups gs) = Some (group_bytes gs)"
proof -
  have ne: "gs \<noteq> []" using assms(1) by auto
  have hd0: "hd (hex_groups gs @ []) \<noteq> CHR '':''" by (rule hd_hex_groups [OF ne])
  have no_lead: "\<not> (length (hex_groups gs) \<ge> 2 \<and> hex_groups gs ! 0 = CHR '':'' \<and>
      hex_groups gs ! 1 = CHR '':'')"
    using hd0 ne by (auto simp: hd_conv_nth)
  have "parseIPv6_loop 8 [] None (hex_groups gs) = Some (group_bytes gs, None, [])"
    using parseIPv6_loop_groups [OF ne _ assms(2), of 8 "[]" None] assms(1) by simp
  then show ?thesis using assms(1) no_lead unfolding parseIPv6_def by (simp only: Let_def) simp
qed

lemma parseIPv6_run:
  assumes "length gs + length hs < 8" "list_all (\<lambda>g. g \<le> 0xFFFF) (gs @ hs)"
  shows "parseIPv6 (hex_groups gs @ ''::'' @ hex_groups hs) =
           Some (group_bytes (gs @ replicate (8 - length gs - length hs) 0 @ hs))"
proof (cases "gs = []")
  case True
  show ?thesis
  proof (cases "hs = []")
    case hs: False
    have "parseIPv6_loop 8 [] (Some 0) (hex_groups hs) = Some (group_bytes hs, Some 0, [])"
      using parseIPv6_loop_groups [OF hs, of 8 "[]" "Some 0"] assms by simp
    then show ?thesis using True hs assms(1)
      by (simp add: parseIPv6_def Let_def algebra_simps numeral_2_eq_2 [symmetric] diff_mult_distrib2
          flip: mult_2)
  qed (use True in \<open>simp add: parseIPv6_def\<close>)
next
  case ne: False
  let ?s = "hex_groups gs @ ''::'' @ hex_groups hs"
  have hd0: "hd ?s \<noteq> CHR '':''" by (rule hd_hex_groups [OF ne])
  have no_lead: "\<not> (length ?s \<ge> 2 \<and> ?s ! 0 = CHR '':'' \<and> ?s ! 1 = CHR '':'')"
    using hd0 ne by (auto simp: hd_conv_nth nth_append)
  have "parseIPv6_loop 8 [] None ?s =
      Some ([] @ group_bytes (gs @ hs), Some (length ([] :: byte list) + 2 * length gs), [])"
    by (rule parseIPv6_loop_run) (use ne assms in auto)
  moreover have "16 - (2 * length gs + 2 * length hs) = 2 * (8 - length gs - length hs)"
    using assms(1) by simp
  ultimately show ?thesis using assms(1) no_lead
    unfolding parseIPv6_def by (simp only: Let_def) simp
qed

lemma first_sep_app: "CHR ''.'' \<notin> set w \<Longrightarrow> CHR '':'' \<notin> set w \<Longrightarrow> first_sep (w @ s) = first_sep s"
  by (induction w) auto

lemma first_sep_groups:
  "2 \<le> length gs \<Longrightarrow> first_sep (hex_groups gs @ s) = Some CHR '':''"
  by (cases gs; cases "tl gs") (auto simp: first_sep_app)

lemma first_sep_run: "first_sep (hex_groups gs @ CHR '':'' # s) = Some CHR '':''"
  by (cases gs; cases "tl gs") (auto simp: first_sep_app)

text \<open>Printing a 16-byte address in the IPv6 notation and parsing it gives it back.\<close>

lemma ParseIP_String6:
  assumes "length ip = 16"
  shows "ParseIP (IP_String6 ip) = Some ip"
proof -
  let ?gs = "ip_groups ip"
  obtain e0 e1 where z: "zero_run ?gs = (e0, e1)" by (cases "zero_run ?gs")
  note run = zero_run_zeros [OF z]
  have len: "length ?gs = 8" using assms by (simp add: ip_groups_length)
  have bound: "list_all (\<lambda>g. g \<le> 0xFFFF) ?gs" by (rule ip_groups_bound)
  have bytes: "group_bytes ?gs = ip" using assms by (simp add: ip_groups_bytes)
  show ?thesis
  proof (cases "e0 < e1")
    case True
    let ?pre = "take e0 ?gs" and ?post = "drop e1 ?gs"
    have eq: "8 - length ?pre - length ?post = e1 - e0" using run len by simp
    have split: "?gs = ?pre @ replicate (e1 - e0) 0 @ ?post"
      by (rule run_split) (use run in auto)
    have "list_all (\<lambda>g. g \<le> 0xFFFF) (?pre @ ?post)"
      using bound by (auto simp: list_all_iff dest: in_set_takeD in_set_dropD)
    then have "parseIPv6 (hex_groups ?pre @ ''::'' @ hex_groups ?post) = Some ip"
      using parseIPv6_run [of ?pre ?post] run len True eq split bytes by simp
    then show ?thesis using True z
      by (simp add: IP_String6_def ParseIP_def first_sep_run Let_def)
  next
    case False
    then show ?thesis using z parseIPv6_plain [OF len bound] bytes first_sep_groups [of ?gs "[]"] len
      by (simp add: IP_String6_def ParseIP_def Let_def)
  qed
qed

text \<open>An address of 16 bytes prints and parses back, in whichever notation it prints.\<close>

lemma ParseIP_String:
  assumes "length ip = 16"
  shows "ParseIP (IP_String (Some ip)) = Some ip"
proof (cases "To4 ip")
  case None
  then show ?thesis using assms by (simp add: IP_String_def ParseIP_String6)
next
  case (Some p)
  then have "length p = 4" "ip = v4InV6Prefix @ p" using To4_SomeD [OF Some] assms by auto
  then show ?thesis using Some by (simp add: IP_String_def ParseIP_dotted)
qed

section \<open>What an address is made of\<close>

lemma dtoi_from_digits_only:
  "dtoi_from n i s = (m, c, True) \<Longrightarrow> i \<le> c \<and> list_all is_digit (take (c - i) s)"
proof (induction n i s rule: dtoi_from.induct)
  case (2 n i a s)
  show ?case
  proof (cases "is_digit a")
    case True
    then have "Suc i \<le> c \<and> list_all is_digit (take (c - Suc i) s)"
      using 2 by (auto simp: Let_def split: if_splits)
    moreover from this have "c - i = Suc (c - Suc i)" by linarith
    ultimately show ?thesis using True by simp
  qed (use 2 in \<open>auto split: if_splits\<close>)
qed (auto split: if_splits)

lemma xtoi_from_digits_only:
  "xtoi_from n i s = (m, c, True) \<Longrightarrow> i \<le> c \<and> list_all is_hex (take (c - i) s)"
proof (induction n i s rule: xtoi_from.induct)
  case (2 n i a s)
  show ?case
  proof (cases "hex_val a")
    case None
    then show ?thesis using 2 by (auto split: if_splits)
  next
    case (Some d)
    then have "Suc i \<le> c \<and> list_all is_hex (take (c - Suc i) s)"
      using 2 by (auto simp: Let_def split: if_splits)
    moreover from this have "c - i = Suc (c - Suc i)" by linarith
    ultimately show ?thesis using Some by (simp add: is_hex_def [of a])
  qed
qed (auto split: if_splits)

definition num_or_dot :: "char \<Rightarrow> bool" where
  "num_or_dot c \<longleftrightarrow> is_digit c \<or> c = CHR ''.''"

lemma parseIPv4_loop_chars: "parseIPv4_loop k p s = Some q \<Longrightarrow> list_all num_or_dot s"
proof (induction k p s rule: parseIPv4_loop.induct)
  case (2 k p s)
  let ?s1 = "if p \<noteq> [] then tl s else s"
  obtain n c ok where d: "dtoi ?s1 = (n, c, ok)" by (cases "dtoi ?s1")
  have "ok" and rec: "parseIPv4_loop k (p @ [of_nat n]) (drop c ?s1) = Some q"
    using 2(2) d by (auto simp: Let_def split: if_splits)
  then have "list_all num_or_dot (take c ?s1)"
    using d dtoi_from_digits_only [of 0 0 ?s1 n c]
    by (auto simp: dtoi_def num_or_dot_def list_all_iff)
  moreover have "list_all num_or_dot (drop c ?s1)"
    using 2 d rec \<open>ok\<close> by (auto simp: Let_def split: if_splits)
  ultimately have all1: "list_all num_or_dot ?s1"
    using list_all_append [of num_or_dot "take c ?s1" "drop c ?s1"] by simp
  have "s = ?s1 \<or> s = CHR ''.'' # ?s1"
    using 2(2) by (cases s) (auto split: if_splits)
  then show ?case
  proof
    assume e: "s = ?s1"
    show ?case by (subst e) (rule all1)
  next
    assume e: "s = CHR ''.'' # ?s1"
    show ?case by (subst e) (use all1 in \<open>simp add: num_or_dot_def [of "CHR ''.''"]\<close>)
  qed
qed (auto split: if_splits)

lemma parseIPv4_chars: "parseIPv4 s = Some ip \<Longrightarrow> list_all num_or_dot s"
  by (auto simp: parseIPv4_def dest: parseIPv4_loop_chars)

lemma dot_behind:
  assumes "u @ v = x @ CHR ''.'' # h" "CHR ''.'' \<notin> set u"
  shows "\<exists>x'. v = x' @ CHR ''.'' # h"
  using assms by (auto simp: append_eq_append_conv2 append_eq_Cons_conv)

lemma parseIPv6_loop_chars:
  "parseIPv6_loop k ip ell s = Some (ip', ell', []) \<Longrightarrow> s = x @ CHR ''.'' # h \<Longrightarrow>
   list_all num_or_dot h"
proof (induction k arbitrary: ip ell s x)
  case (Suc k)
  obtain n c ok where xt: "xtoi s = (n, c, ok)" by (cases "xtoi s")
  have ok: "ok" using Suc.prems(1) xt by (auto split: if_splits)
  have hex: "list_all is_hex (take c s)"
    using xt ok xtoi_from_digits_only [of 0 0 s n c] by (simp add: xtoi_def)
  then have nodot: "CHR ''.'' \<notin> set (take c s)" by (auto simp: list_all_iff is_hex_def)
  show ?case
  proof (cases "c < length s \<and> s ! c = CHR ''.''")
    case True
    then obtain ip4 where "parseIPv4 s = Some ip4"
      using Suc.prems(1) xt by (auto split: if_splits option.splits)
    then show ?thesis using Suc.prems(2) parseIPv4_chars by fastforce
  next
    case False
    have ne: "drop c s \<noteq> []"
      using nodot Suc.prems(2) by (metis append_Nil2 append_take_drop_id in_set_conv_decomp)
    then obtain d t where t: "drop c s = d # t" by (cases "drop c s") auto
    then have d: "d = CHR '':''" "t \<noteq> []"
      using Suc.prems(1) xt False ok by (auto simp: Let_def split: if_splits)
    have s: "(take c s @ [d]) @ t = x @ CHR ''.'' # h" using t Suc.prems(2)
      by (metis append.assoc append_Cons append_Nil append_take_drop_id)
    obtain x' where x': "t = x' @ CHR ''.'' # h"
      using dot_behind [OF s] nodot d by auto
    show ?thesis
    proof (cases "hd t = CHR '':''")
      case True
      then obtain t' where t': "t = CHR '':'' # t'" using d(2) by (cases t) auto
      obtain x'' where x'': "t' = x'' @ CHR ''.'' # h"
        using dot_behind [of "'':''" t' x' h] x' t' by auto
      then show ?thesis
        using Suc.prems(1) xt False ok t t' d x''
        by (auto simp: Let_def split: if_splits intro: Suc.IH)
    next
      case hd: False
      then show ?thesis
        using Suc.prems(1) xt False ok t d x'
        by (auto simp: Let_def split: if_splits intro: Suc.IH)
    qed
  qed
qed simp

text \<open>What follows the last dot of an address is a decimal number.\<close>

lemma ParseIP_last_label:
  assumes "ParseIP (x @ CHR ''.'' # h) = Some ip"
  shows "list_all num_or_dot h"
proof -
  let ?s = "x @ CHR ''.'' # h"
  have "list_all num_or_dot ?s \<or> parseIPv6 ?s = Some ip"
    using assms by (auto simp: ParseIP_def split: option.splits if_splits dest: parseIPv4_chars)
  then show ?thesis
  proof
    assume v6: "parseIPv6 ?s = Some ip"
    let ?lead = "length ?s \<ge> 2 \<and> ?s ! 0 = CHR '':'' \<and> ?s ! 1 = CHR '':''"
    show ?thesis
    proof (cases ?lead)
      case True
      obtain a b r where abr: "?s = a # b # r"
        using True by (cases ?s; cases "tl ?s") auto
      then have "''::'' @ drop 2 ?s = x @ CHR ''.'' # h"
        using True unfolding abr by simp
      from dot_behind [OF this] obtain x' where x': "drop 2 ?s = x' @ CHR ''.'' # h" by auto
      then obtain r where "parseIPv6_loop 8 [] (Some 0) (drop 2 ?s) = Some r" "snd (snd r) = []"
        using v6 True unfolding parseIPv6_def Let_def
        by (auto split: option.splits if_splits)
      then show ?thesis using parseIPv6_loop_chars x' by (cases r) auto
    next
      case False
      then obtain r where "parseIPv6_loop 8 [] None ?s = Some r" "snd (snd r) = []"
        using v6 unfolding parseIPv6_def Let_def
        by (auto split: option.splits if_splits)
      then show ?thesis using parseIPv6_loop_chars by (cases r) auto
    qed
  qed simp
qed

end
