(* ===== verification/Gyip_Command.thy ===== *)
theory Gyip_Command
  imports Go_Net
begin

text \<open>
  Package \<open>command\<close> (\<open>src/command\<close>): the commands a query can carry in its last label, their
  factory \<open>New\<close> and the transformation \<open>Execute\<close> each of them makes on the list of addresses.

  The Go interface \<open>Command\<close> is the datatype of the structs that implement it; its contract,
  on which \<open>frameResponse\<close> relies, is the locale \<open>command_contract\<close>, interpreted on every
  command.  A draw of the random number generator is an argument of \<open>Execute\<close>, which calls
  \<open>rand.Intn\<close> at most once.
\<close>

section \<open>The model\<close>

definition defaultTTL :: uint32 where
  "defaultTTL = 43200"

definition defaultShortTTL :: uint32 where
  "defaultShortTTL = 10"

datatype Type = NOOP | RR | FAIL

datatype Command = Noop | RoundRobin | Fail (failPercent: int)

fun Command_Type :: "Command \<Rightarrow> Type" where
  "Command_Type Noop = NOOP"
| "Command_Type RoundRobin = RR"
| "Command_Type (Fail _) = FAIL"

definition Noop_Execute :: "nat \<Rightarrow> 'a list \<Rightarrow> ('a list \<times> uint32) outcome" where
  "Noop_Execute r input = Ok (input, defaultTTL)"

definition RoundRobin_Execute :: "nat \<Rightarrow> 'a list \<Rightarrow> ('a list \<times> uint32) outcome" where
  "RoundRobin_Execute r input =
     (if length input > 1 then
        obind (Intn r (length input)) (\<lambda>chosenRecordIndex.
        obind (go_slice input (int chosenRecordIndex) (int chosenRecordIndex + 1)) (\<lambda>out.
        Ok (out, defaultShortTTL)))
      else Ok (input, defaultTTL))"

definition Fail_Execute :: "int \<Rightarrow> nat \<Rightarrow> 'a list \<Rightarrow> ('a list \<times> uint32) outcome" where
  "Fail_Execute percent r input =
     (if percent > 0 then
        obind (Intn r 100) (\<lambda>roll.
        if int roll \<le> percent then Ok ([], defaultShortTTL) else Ok (input, defaultTTL))
      else Ok (input, defaultTTL))"

fun Execute :: "Command \<Rightarrow> nat \<Rightarrow> 'a list \<Rightarrow> ('a list \<times> uint32) outcome" where
  "Execute Noop r input = Noop_Execute r input"
| "Execute RoundRobin r input = RoundRobin_Execute r input"
| "Execute (Fail p) r input = Fail_Execute p r input"

definition New :: "string \<Rightarrow> Command" where
  "New commandString =
     (if commandString = '''' then Noop
      else
        (let commandString = ToUpper commandString
         in if commandString = ''RR'' then RoundRobin
            else if take 1 commandString = ''F'' \<and>
                    (length commandString = 2 \<or> length commandString = 3) then
              (case ParseInt10 (drop 1 commandString) 32 of
                 Some i \<Rightarrow> Fail i
               | None \<Rightarrow> Noop)
            else Noop))"

section \<open>The contract of a command\<close>

text \<open>
  Every command returns some of the addresses it is given, in their order, with the default
  time to live when it returns all of them and the short one when it drops some.
\<close>

locale command_contract =
  fixes execute :: "nat \<Rightarrow> 'a list \<Rightarrow> ('a list \<times> uint32) outcome"
  assumes total: "\<exists>out ttl. execute r input = Ok (out, ttl)"
    and keeps: "execute r input = Ok (out, ttl) \<Longrightarrow> subseq out input"
    and ttl: "input \<noteq> [] \<Longrightarrow> execute r input = Ok (out, ttl) \<Longrightarrow>
      ttl = (if out = input then defaultTTL else defaultShortTTL)"
begin

lemma no_panic: "safe (execute r input)"
  using total [of r input] by auto

lemma subset: "execute r input = Ok (out, ttl) \<Longrightarrow> set out \<subseteq> set input"
  by (auto dest!: keeps elim: list_emb_set)

lemma not_longer: "execute r input = Ok (out, ttl) \<Longrightarrow> length out \<le> length input"
  by (rule list_emb_length [OF keeps])

lemma filtered:
  "execute r input = Ok (out, ttl) \<Longrightarrow> subseq (map f (filter P out)) (map f (filter P input))"
  by (intro subseq_map subseq_filter keeps)

lemma ttl_cases:
  "input \<noteq> [] \<Longrightarrow> execute r input = Ok (out, t) \<Longrightarrow> t \<in> {defaultTTL, defaultShortTTL}"
  using ttl by fastforce

end

lemma Intn_pos: "0 < n \<Longrightarrow> Intn r n = Ok (r mod n)"
  by (simp add: Intn_def)

lemma RoundRobin_Execute_eq:
  "RoundRobin_Execute r input =
     (if length input > 1 then Ok ([input ! (r mod length input)], defaultShortTTL)
      else Ok (input, defaultTTL))"
proof (cases "length input > 1")
  case True
  then have "r mod length input < length input" by (intro mod_less_divisor) auto
  then have "go_slice input (int (r mod length input)) (int (Suc (r mod length input))) =
      Ok [input ! (r mod length input)]"
    by (subst go_slice_nat) (auto simp: take_Suc_conv_app_nth hd_drop_conv_nth take_Suc)
  moreover have "Intn r (length input) = Ok (r mod length input)"
    by (rule Intn_pos) (use True in auto)
  ultimately show ?thesis using True by (simp add: RoundRobin_Execute_def add.commute)
qed (simp add: RoundRobin_Execute_def)

lemma Fail_Execute_eq:
  "Fail_Execute p r input =
     (if p > 0 \<and> int (r mod 100) \<le> p then Ok ([], defaultShortTTL) else Ok (input, defaultTTL))"
  by (simp add: Fail_Execute_def Intn_pos)

interpretation cmd: command_contract "Execute c" for c
proof (unfold_locales, goal_cases)
  case (1 r input)
  show ?case
    by (cases c) (auto simp: Noop_Execute_def RoundRobin_Execute_eq Fail_Execute_eq)
next
  case (2 r input out ttl)
  then show ?case
    by (cases c)
      (auto simp: Noop_Execute_def RoundRobin_Execute_eq Fail_Execute_eq subseq_singleton_left
        split: if_splits intro!: nth_mem mod_less_divisor)
next
  case (3 input r out ttl)
  have "[x] \<noteq> input" if "length input > 1" for x
    using that by auto
  with 3 show ?case
    by (cases c)
      (auto simp: Noop_Execute_def RoundRobin_Execute_eq Fail_Execute_eq split: if_splits)
qed

section \<open>Properties\<close>

lemma ToUpper_digits: "list_all is_digit s \<Longrightarrow> ToUpper s = s"
  by (induction s) (auto simp: ToUpper_def upper_char_def is_digit_def ord_def)

lemma Itoa_length_le_2: "n < 100 \<Longrightarrow> 1 \<le> length (Itoa n) \<and> length (Itoa n) \<le> 2"
  by (simp add: Itoa.simps [of n] Itoa.simps [of "n div 10"]) arith

lemma ParseInt10_Itoa: "n < 2 ^ (b - 1) \<Longrightarrow> ParseInt10 (Itoa n) b = Some (int n)"
proof -
  assume n: "n < 2 ^ (b - 1)"
  have "is_digit (hd (Itoa n))"
    using Itoa_digits [of n] by (cases "Itoa n") auto
  then have "hd (Itoa n) \<noteq> CHR ''-''" "hd (Itoa n) \<noteq> CHR ''+''"
    by (auto simp: is_digit_def ord_def)
  then show ?thesis using n by (simp add: ParseInt10_def Itoa_digits Let_def)
qed

lemma dec_val_bound: "list_all is_digit ds \<Longrightarrow> dec_val_from n ds < (n + 1) * 10 ^ length ds"
proof (induction ds arbitrary: n)
  case (Cons d ds)
  have "digit_val d \<le> 9" using Cons.prems by (auto simp: is_digit_def digit_val_def)
  then have "(n * 10 + digit_val d + 1) * 10 ^ length ds \<le> (n + 1) * 10 * 10 ^ length ds"
    by (intro mult_right_mono) auto
  moreover have "dec_val_from (n * 10 + digit_val d) ds < (n * 10 + digit_val d + 1) * 10 ^ length ds"
    by (rule Cons.IH) (use Cons.prems in simp)
  ultimately have "dec_val_from (n * 10 + digit_val d) ds < (n + 1) * 10 * 10 ^ length ds"
    by (rule less_le_trans [rotated])
  then show ?case by (simp add: algebra_simps)
qed simp

lemma ParseInt10_bounds:
  assumes "ParseInt10 s b = Some i" "length s \<le> 2"
  shows "-9 \<le> i \<and> i \<le> 99"
proof (cases "s \<noteq> [] \<and> (hd s = CHR ''+'' \<or> hd s = CHR ''-'')")
  case True
  then have "length (tl s) \<le> 1" using assms(2) by simp
  then have "dec_val_from 0 (tl s) < 10" if "list_all is_digit (tl s)"
    using dec_val_bound [OF that, of 0] power_increasing [of "length (tl s)" 1 "10::nat"] by simp
  then show ?thesis using True assms(1)
    by (auto simp: ParseInt10_def Let_def split: if_splits)
next
  case False
  have "dec_val_from 0 s < 100" if "list_all is_digit s"
    using dec_val_bound [OF that, of 0] power_increasing [of "length s" 2 "10::nat"] assms(2)
    by simp
  then show ?thesis using False assms(1)
    by (auto simp: ParseInt10_def Let_def split: if_splits)
qed

lemma New_Fail_iff:
  "New s = Fail p \<longleftrightarrow>
     (\<exists>d. ToUpper s = CHR ''F'' # d \<and> length d \<in> {1, 2} \<and> ParseInt10 d 32 = Some p)"
proof (cases "ToUpper s")
  case Nil
  then have "s = []" by (simp add: ToUpper_def)
  then show ?thesis by (simp add: New_def ToUpper_def)
next
  case (Cons c d)
  then have "s \<noteq> []" by (auto simp: ToUpper_def)
  then show ?thesis using Cons
    by (auto simp: New_def Let_def split: option.splits)
qed

lemma New_RoundRobin_iff: "New s = RoundRobin \<longleftrightarrow> ToUpper s = ''RR''"
  by (auto simp: New_def Let_def ToUpper_def split: option.splits)

text \<open>
  C38: every command obeys the contract its callers rely on: \<open>Execute\<close> always returns, keeps
  a subsequence of the addresses it is given, and sets the default time to live exactly when
  it returned all of them.
\<close>
theorem Execute_contract:
  "\<exists>out ttl. Execute c r ips = Ok (out, ttl) \<and> subseq out ips \<and>
     ttl \<in> (if ips = [] then {defaultTTL, defaultShortTTL}
            else if out = ips then {defaultTTL} else {defaultShortTTL})"
proof -
  obtain out ttl where e: "Execute c r ips = Ok (out, ttl)" using cmd.total by blast
  have "ttl \<in> {defaultTTL, defaultShortTTL}"
    using e by (cases c) (auto simp: Noop_Execute_def RoundRobin_Execute_eq Fail_Execute_eq
        split: if_splits)
  then show ?thesis using e cmd.keeps [OF e] cmd.ttl [OF _ e] by auto
qed

text \<open>
  C35: \<open>Fail\<close> refuses to answer for \<open>failPercent + 1\<close> of the 100 possible rolls (all of them
  from 99 on) and for none of them when \<open>failPercent\<close> is not positive.
\<close>
theorem Fail_rolls:
  assumes "ips \<noteq> []"
  shows "card {r. r < 100 \<and> Execute (Fail p) r ips = Ok ([], defaultShortTTL)} =
           (if p \<le> 0 then 0 else min 100 (nat p + 1))"
proof (cases "p \<le> 0")
  case False
  have "defaultShortTTL \<noteq> defaultTTL" by (simp add: defaultTTL_def defaultShortTTL_def)
  then have "{r. r < 100 \<and> Execute (Fail p) r ips = Ok ([], defaultShortTTL)} =
      {r. r < min 100 (nat p + 1)}"
    using False assms by (auto simp: Fail_Execute_eq)
  then show ?thesis using False by simp
qed (use assms in \<open>simp add: Fail_Execute_eq\<close>)

theorem Fail_rolls_witness:
  "card {r. r < 100 \<and> Execute (Fail 25) r [1 :: nat] = Ok ([], defaultShortTTL)} = 26"
proof -
  have "[1 :: nat] \<noteq> []" by simp
  from Fail_rolls [OF this, of 25] show ?thesis by simp
qed

text \<open>
  C36: with at least two addresses \<open>RoundRobin\<close> answers with exactly one of them, and every
  one of them is the answer to some draw.
\<close>
theorem RoundRobin_choices:
  assumes "length ips > 1"
  shows "{out. \<exists>r. Execute RoundRobin r ips = Ok (out, defaultShortTTL)} = (\<lambda>ip. [ip]) ` set ips"
proof -
  have "\<exists>r. ip = ips ! (r mod length ips)" if "ip \<in> set ips" for ip
    using that by (metis in_set_conv_nth mod_less)
  moreover have "ips ! (r mod length ips) \<in> set ips" for r
    by (intro nth_mem mod_less_divisor) (use assms in auto)
  ultimately show ?thesis using assms by (auto simp: RoundRobin_Execute_eq)
qed

theorem RoundRobin_choices_witness:
  "{out. \<exists>r. Execute RoundRobin r [1, 2 :: nat] = Ok (out, defaultShortTTL)} = {[1], [2]}"
proof -
  have "length [1, 2 :: nat] > 1" by simp
  from RoundRobin_choices [OF this] show ?thesis by simp
qed

lemma New_Itoa: "n < 100 \<Longrightarrow> New (CHR ''f'' # Itoa n) = Fail (int n)"
proof -
  assume n: "n < 100"
  have "ToUpper (CHR ''f'' # Itoa n) = ToUpper ''f'' @ ToUpper (Itoa n)"
    by (simp add: ToUpper_def)
  also have "ToUpper ''f'' = ''F''" by code_simp
  finally have "ToUpper (CHR ''f'' # Itoa n) = CHR ''F'' # Itoa n"
    by (simp add: ToUpper_digits [OF Itoa_digits])
  then show ?thesis unfolding New_Fail_iff
    using Itoa_length_le_2 [OF n] n by (auto simp: ParseInt10_Itoa)
qed

lemma New_negative:
  assumes "n < 10"
  shows "New (CHR ''F'' # CHR ''-'' # Itoa n) = Fail (- int n)"
proof -
  have len: "length (Itoa n) = 1" using assms by (simp add: Itoa.simps [of n])
  have "ToUpper (CHR ''F'' # CHR ''-'' # Itoa n) = ToUpper ''F-'' @ ToUpper (Itoa n)"
    by (simp add: ToUpper_def)
  also have "ToUpper ''F-'' = ''F-''" by code_simp
  finally have up: "ToUpper (CHR ''F'' # CHR ''-'' # Itoa n) = CHR ''F'' # CHR ''-'' # Itoa n"
    by (simp add: ToUpper_digits [OF Itoa_digits])
  have "ParseInt10 (CHR ''-'' # Itoa n) 32 = Some (- int n)"
    using assms by (simp add: ParseInt10_def Itoa_digits)
  with up len show ?thesis by (simp add: New_Fail_iff)
qed

text \<open>
  C35: the factory: a command string is the round-robin command exactly when it spells RR in
  any case; it is a failure command exactly when it is an F (in any case) and one or two more
  bytes that read as a decimal number; the percentages it can carry are exactly those of
  \<open>[-9, 99]\<close>; everything else is the command without effect.
\<close>
theorem New_commands:
  "(New s = RoundRobin \<longleftrightarrow> ToUpper s = ''RR'') \<and>
   (New s = Fail p \<longleftrightarrow>
     (\<exists>d. ToUpper s = CHR ''F'' # d \<and> length d \<in> {1, 2} \<and> ParseInt10 d 32 = Some p)) \<and>
   {q. \<exists>t. New t = Fail q} = {-9 .. 99}"
proof (intro conjI)
  show "New s = RoundRobin \<longleftrightarrow> ToUpper s = ''RR''" by (rule New_RoundRobin_iff)
  show "New s = Fail p \<longleftrightarrow>
    (\<exists>d. ToUpper s = CHR ''F'' # d \<and> length d \<in> {1, 2} \<and> ParseInt10 d 32 = Some p)"
    by (rule New_Fail_iff)
  have "\<exists>t. New t = Fail q" if "-9 \<le> q" "q \<le> 99" for q
  proof (cases "0 \<le> q")
    case True
    with that have "New (CHR ''f'' # Itoa (nat q)) = Fail q"
      using New_Itoa [of "nat q"] by simp
    then show ?thesis ..
  next
    case False
    with that have "New (CHR ''F'' # CHR ''-'' # Itoa (nat (- q))) = Fail q"
      using New_negative [of "nat (- q)"] by simp
    then show ?thesis ..
  qed
  moreover have "-9 \<le> q \<and> q \<le> 99" if "New t = Fail q" for t q
    using that unfolding New_Fail_iff by (auto dest: ParseInt10_bounds)
  ultimately show "{q. \<exists>t. New t = Fail q} = {-9 .. 99}" by auto
qed

end
