(* ===== verification/Gyip_ParseIPs.thy ===== *)
theory Gyip_ParseIPs
  imports Gyip_Command
begin

text \<open>
  \<open>parseIPs\<close> and \<open>reverse\<close> of \<open>src/gyip.go\<close>: the scanner that finds the addresses written
  in the labels of a query.

  The loop of the code moves two indices over the bytes of the string and may panic (a slice
  with bound \<open>-1\<close>) or never end.  It is a partial function whose result \<open>None\<close> is an endless
  loop; one pass of its body is \<open>parseIPs_body\<close>.

  The abstract specification is \<open>scan_labels\<close>, which works on whole labels.  It is stated for
  any address parser that refuses one-byte strings (locale \<open>address_parser\<close>) and refined by
  the code for every string of non-empty labels.
\<close>

section \<open>The model\<close>

text \<open>
  \<open>reverse\<close>: the loop swaps the elements at \<open>i\<close> and \<open>j\<close> while \<open>i < j\<close>, in place.
\<close>

function reverse_loop :: "'a list \<Rightarrow> nat \<Rightarrow> int \<Rightarrow> 'a list" where
  "reverse_loop ips i j =
     (if int i < j then
        reverse_loop (ips[i := ips ! nat j, nat j := ips ! i]) (i + 1) (j - 1)
      else ips)"
  by pat_completeness auto
termination
  by (relation "measure (\<lambda>(ips, i, j). nat (j - int i))") auto

declare reverse_loop.simps [simp del]

definition reverse :: "'a list \<Rightarrow> 'a list" where
  "reverse ips = reverse_loop ips 0 (int (length ips) - 1)"

text \<open>What a pass of the loop does next: stop, or go on with new indices and responses.\<close>

datatype control = Break | Next int int "IP list"

text \<open>
  The test that nothing is left to try: no \<open>.\<close> before the last byte of the window and no \<open>:\<close>
  before its left end.  The second slice is taken only when the first search fails.
\<close>

definition no_way_on :: "string \<Rightarrow> int \<Rightarrow> int \<Rightarrow> bool outcome" where
  "no_way_on addressString leftIndex rightIndex =
     obind (go_slice addressString 0 (rightIndex - 1)) (\<lambda>before.
     if LastIndex before ''.'' < 0 then
       obind (go_slice addressString 0 (leftIndex - 1)) (\<lambda>before.
       Ok (LastIndex before '':'' < 0))
     else Ok False)"

definition parseIPs_body :: "string \<Rightarrow> int \<Rightarrow> int \<Rightarrow> IP list \<Rightarrow> control outcome" where
  "parseIPs_body addressString leftIndex rightIndex responses =
     obind (go_slice addressString leftIndex rightIndex) (\<lambda>checkString.
     case ParseIP checkString of
       Some checkIP \<Rightarrow>
         (let rightIndex = leftIndex - 1
          in Ok (Next (rightIndex - 1) rightIndex (responses @ [checkIP])))
     | None \<Rightarrow>
         obind (no_way_on addressString leftIndex rightIndex) (\<lambda>stop.
         if stop then Ok Break
         else if leftIndex \<le> 0 then
           (if rightIndex > 2 then
              obind (go_slice addressString 0 (rightIndex - 1)) (\<lambda>before.
              let rightIndex = LastIndex before ''.''
              in Ok (Next (rightIndex - 1) rightIndex responses))
            else Ok (Next leftIndex rightIndex responses))
         else
           obind (go_slice addressString 0 (leftIndex - 1)) (\<lambda>before.
           let leftIndex = LastIndex before ''.''
           in Ok (Next (if leftIndex < 0 then 0 else leftIndex + 1) rightIndex responses))))"

partial_function (option) parseIPs_loop ::
    "string \<Rightarrow> int \<Rightarrow> int \<Rightarrow> IP list \<Rightarrow> IP list outcome option" where
  "parseIPs_loop addressString leftIndex rightIndex responses =
     (if leftIndex \<ge> 0 then
        (case parseIPs_body addressString leftIndex rightIndex responses of
           Ok Break \<Rightarrow> Some (Ok responses)
         | Ok (Next l r rs) \<Rightarrow> parseIPs_loop addressString l r rs
         | Err e \<Rightarrow> Some (Err e)
         | Panic p \<Rightarrow> Some (Panic p)
         | Loops \<Rightarrow> None)
      else Some (Ok responses))"

declare parseIPs_loop.simps [code]

definition parseIPs :: "string \<Rightarrow> IP list outcome" where
  "parseIPs addressString =
     (case parseIPs_loop addressString (int (length addressString) - 1)
             (int (length addressString)) [] of
        None \<Rightarrow> Loops
      | Some res \<Rightarrow>
          map_ok (\<lambda>responses. if length responses > 0 then reverse responses else responses) res)"

section \<open>reverse\<close>

lemma reverse_loop_segment:
  "reverse_loop (xs @ mid @ zs) (length xs) (int (length xs + length mid) - 1) = xs @ rev mid @ zs"
proof (induction mid arbitrary: xs zs rule: length_induct)
  case (1 mid)
  consider (short) "length mid \<le> 1" | (long) a ms b where "mid = a # ms @ [b]"
    by (metis One_nat_def le_cases length_append_singleton length_Cons list.size(3)
        not_less_eq_eq rev_exhaust list.exhaust le_zero_eq append.simps(1) le0)
  then show ?case
  proof cases
    case short
    then have "rev mid = mid" by (cases mid) auto
    with short show ?thesis by (subst reverse_loop.simps) simp
  next
    case long
    have j: "nat (int (length xs + length mid) - 1) = length (xs @ a # ms)"
      using long by simp
    have swap: "(xs @ mid @ zs)[length xs := (xs @ mid @ zs) ! length (xs @ a # ms),
          length (xs @ a # ms) := (xs @ mid @ zs) ! length xs] = (xs @ [b]) @ ms @ (a # zs)"
      using long by (simp add: nth_append list_update_append)
    have "reverse_loop (xs @ mid @ zs) (length xs) (int (length xs + length mid) - 1) =
        reverse_loop ((xs @ [b]) @ ms @ (a # zs)) (length (xs @ [b]))
          (int (length (xs @ [b]) + length ms) - 1)"
      using long by (subst reverse_loop.simps, unfold j swap) simp
    also have "\<dots> = (xs @ [b]) @ rev ms @ (a # zs)"
      by (rule "1.IH" [rule_format]) (use long in simp)
    finally show ?thesis using long by simp
  qed
qed

lemma reverse_rev [simp]: "reverse ips = rev ips"
  using reverse_loop_segment [of "[]" ips "[]"] by (simp add: reverse_def)

section \<open>The specification on labels\<close>

text \<open>
  The labels come rightmost first.  \<open>try_window\<close> widens a window to the left until it parses;
  the first (shortest) window wins.  When no window that ends in a label parses, the scan drops
  that label.  The leftmost label on its own is special: the code looks at it only when it
  has a colon before its last two bytes, and panics when such a label is no address or when
  the label is one byte long.
\<close>

fun try_window :: "(string \<Rightarrow> IP option) \<Rightarrow> string \<Rightarrow> string list \<Rightarrow> (IP \<times> string list) option" where
  "try_window parse cand [] =
     (case parse cand of Some ip \<Rightarrow> Some (ip, []) | None \<Rightarrow> None)"
| "try_window parse cand (w # rest) =
     (case parse cand of
        Some ip \<Rightarrow> Some (ip, w # rest)
      | None \<Rightarrow> try_window parse (w @ CHR ''.'' # cand) rest)"

definition scan_last :: "(string \<Rightarrow> IP option) \<Rightarrow> string \<Rightarrow> IP list outcome" where
  "scan_last parse w =
     (if length w = 1 then Panic SliceBoundsOutOfRange
      else if CHR '':'' \<notin> set (take (length w - 2) w) then Ok []
      else (case parse w of Some ip \<Rightarrow> Ok [ip] | None \<Rightarrow> Panic SliceBoundsOutOfRange))"

lemma try_window_shorter:
  "try_window parse cand rest = Some (ip, rest') \<Longrightarrow> length rest' \<le> length rest"
  by (induction parse cand rest rule: try_window.induct) (auto split: option.splits)

function scan_labels :: "(string \<Rightarrow> IP option) \<Rightarrow> string list \<Rightarrow> IP list outcome" where
  "scan_labels parse [] = Ok []"
| "scan_labels parse [w] = scan_last parse w"
| "scan_labels parse (w # v # rest) =
     (case try_window parse w (v # rest) of
        Some (ip, rest') \<Rightarrow> map_ok (\<lambda>ips. ip # ips) (scan_labels parse rest')
      | None \<Rightarrow> scan_labels parse (v # rest))"
  by pat_completeness auto
termination
  by (relation "measure (\<lambda>(parse, ws). length ws)")
    (auto dest!: try_window_shorter simp del: try_window.simps)

text \<open>A token: labels (rightmost first) that parse together, and none of whose right parts does.\<close>

definition token :: "(string \<Rightarrow> IP option) \<Rightarrow> string list \<Rightarrow> IP \<Rightarrow> bool" where
  "token parse t ip \<longleftrightarrow>
     t \<noteq> [] \<and> parse (join_with CHR ''.'' (rev t)) = Some ip \<and>
     list_all (\<lambda>k. parse (join_with CHR ''.'' (rev (take k t))) = None) [1 ..< length t]"

text \<open>A token the scanner finds in the leftmost position as well.\<close>

definition leading_token :: "string list \<Rightarrow> bool" where
  "leading_token t \<longleftrightarrow>
     (case t of [] \<Rightarrow> False
      | [w] \<Rightarrow> CHR '':'' \<in> set (take (length w - 2) w)
      | _ \<Rightarrow> True)"

text \<open>Labels no part of which is an address.\<close>

definition no_address :: "(string \<Rightarrow> IP option) \<Rightarrow> string list \<Rightarrow> bool" where
  "no_address parse ws \<longleftrightarrow>
     (\<forall>us vs xs. ws = us @ vs @ xs \<longrightarrow> vs \<noteq> [] \<longrightarrow> parse (join_with CHR ''.'' (rev vs)) = None)"

locale address_parser =
  fixes parse :: "string \<Rightarrow> IP option"
  assumes parse_short: "length s \<le> 1 \<Longrightarrow> parse s = None"
begin

lemma try_window_token:
  assumes "parse (join_with CHR ''.'' (rev (us @ vs))) = Some ip" "us \<noteq> []"
    and "\<And>k. k < length vs \<Longrightarrow> parse (join_with CHR ''.'' (rev (us @ take k vs))) = None"
  shows "try_window parse (join_with CHR ''.'' (rev us)) (vs @ rest) = Some (ip, rest)"
  using assms
proof (induction vs arbitrary: us)
  case Nil
  then show ?case by (cases rest) auto
next
  case (Cons v vs)
  have none: "parse (join_with CHR ''.'' (rev us)) = None" using Cons.prems(3) [of 0] by simp
  have step: "try_window parse (join_with CHR ''.'' (rev (us @ [v]))) (vs @ rest) = Some (ip, rest)"
  proof (rule Cons.IH)
    show "parse (join_with CHR ''.'' (rev ((us @ [v]) @ take k vs))) = None" if "k < length vs" for k
      using Cons.prems(3) [of "Suc k"] that by simp
  qed (use Cons.prems in auto)
  have "join_with CHR ''.'' (rev (us @ [v])) = v @ CHR ''.'' # join_with CHR ''.'' (rev us)"
    using Cons.prems(2) by (simp add: join_with_Cons)
  then show ?case using none step by simp
qed

lemma scan_token:
  assumes "token parse t ip" "t @ rest = w # v # ws"
  shows "scan_labels parse (t @ rest) = map_ok (\<lambda>ips. ip # ips) (scan_labels parse rest)"
proof -
  obtain vs where t: "t = w # vs" "vs @ rest = v # ws"
    using assms by (cases t) (auto simp: token_def)
  have "try_window parse (join_with CHR ''.'' (rev [w])) (vs @ rest) = Some (ip, rest)"
  proof (rule try_window_token)
    show "parse (join_with CHR ''.'' (rev ([w] @ take k vs))) = None" if "k < length vs" for k
    proof -
      have "Suc k \<in> set [1 ..< length t]" using that t by auto
      with assms(1) have "parse (join_with CHR ''.'' (rev (take (Suc k) t))) = None"
        unfolding token_def list_all_iff by blast
      then show ?thesis using t by simp
    qed
  qed (use assms t in \<open>auto simp: token_def\<close>)
  then show ?thesis using t by simp
qed

lemma scan_tokens:
  assumes "list_all2 (token parse) ts ips" "rest \<noteq> [] \<or> ts = [] \<or> leading_token (last ts)"
  shows "scan_labels parse (concat ts @ rest) = map_ok (\<lambda>js. ips @ js) (scan_labels parse rest)"
  using assms
proof (induction ts ips rule: list_all2_induct)
  case (Cons t ts ip ips)
  have tne: "t \<noteq> []" using Cons.hyps by (simp add: token_def)
  have IH: "scan_labels parse (concat ts @ rest) = map_ok (\<lambda>js. ips @ js) (scan_labels parse rest)"
    using Cons.IH Cons.prems by (auto split: if_splits)
  show ?case
  proof (cases "t @ concat ts @ rest")
    case (Cons w us)
    show ?thesis
    proof (cases us)
      case (Cons v ws)
      then show ?thesis
        using scan_token [of t ip "concat ts @ rest" w v ws]
          IH \<open>t @ concat ts @ rest = w # us\<close> \<open>token parse t ip\<close> by simp
    next
      case Nil
      then have single: "t = [w]" "concat ts @ rest = []"
        using \<open>t @ concat ts @ rest = w # us\<close> tne by (auto simp: append_eq_Cons_conv)
      have "ts = []"
        using single(2) Cons.hyps(2) by (cases ts) (auto simp: token_def list_all2_Cons1)
      then have lead: "CHR '':'' \<in> set (take (length w - 2) w)" and ips: "ips = []"
        using single Cons.prems Cons.hyps(2) by (auto simp: leading_token_def)
      have "parse w = Some ip" using single \<open>token parse t ip\<close> by (simp add: token_def)
      moreover have "length w \<noteq> 1" using lead by auto
      ultimately show ?thesis using single lead ips \<open>ts = []\<close> by (simp add: scan_last_def)
    qed
  qed (use tne in simp)
next
  case Nil
  then show ?case by (cases "scan_labels parse rest") auto
qed

lemma try_window_none:
  assumes "\<And>k. k \<le> length rest \<Longrightarrow> parse (join_with CHR ''.'' (rev (us @ take k rest))) = None"
    and "us \<noteq> []"
  shows "try_window parse (join_with CHR ''.'' (rev us)) rest = None"
  using assms
proof (induction rest arbitrary: us)
  case Nil
  then show ?case by simp
next
  case (Cons v vs)
  have "try_window parse (join_with CHR ''.'' (rev (us @ [v]))) vs = None"
  proof (rule Cons.IH)
    show "parse (join_with CHR ''.'' (rev ((us @ [v]) @ take k vs))) = None" if "k \<le> length vs" for k
      using Cons.prems(1) [of "Suc k"] that by simp
  qed simp
  moreover have "join_with CHR ''.'' (rev (us @ [v])) = v @ CHR ''.'' # join_with CHR ''.'' (rev us)"
    using Cons.prems(2) by (simp add: join_with_Cons)
  ultimately show ?case using Cons.prems(1) [of 0] by simp
qed

lemma no_address_Cons: "no_address parse (w # ws) \<Longrightarrow> no_address parse ws"
  unfolding no_address_def by (metis append_Cons)

lemma scan_no_address:
  assumes "no_address parse ws" "ws \<noteq> []"
  shows "scan_labels parse ws = scan_last parse (last ws)"
  using assms
proof (induction ws)
  case (Cons w ws)
  show ?case
  proof (cases ws)
    case (Cons v vs)
    have "try_window parse (join_with CHR ''.'' (rev [w])) ws = None"
    proof (rule try_window_none)
      show "parse (join_with CHR ''.'' (rev ([w] @ take k ws))) = None" for k
      proof -
        have "w # ws = [] @ (w # take k ws) @ drop k ws" by simp
        then show ?thesis using Cons.prems(1) unfolding no_address_def
          by (metis append_Cons append_Nil list.distinct(1))
      qed
    qed simp
    then show ?thesis using Cons Cons.IH no_address_Cons [OF Cons.prems(1)] by simp
  qed simp
qed simp

lemma try_window_junk:
  assumes "\<And>x. parse (x @ CHR ''.'' # h) = None"
  shows "try_window parse (x @ CHR ''.'' # h) rest = None"
proof (induction rest arbitrary: x)
  case (Cons v rest)
  then show ?case using assms Cons.IH [of "v @ CHR ''.'' # x"] by simp
qed (simp add: assms)

lemma scan_junk:
  assumes "parse h = None" "\<And>x. parse (x @ CHR ''.'' # h) = None" "rest \<noteq> []"
  shows "scan_labels parse (h # rest) = scan_labels parse rest"
  using assms try_window_junk [OF assms(2)] by (cases rest) auto

end

interpretation ip: address_parser ParseIP
  by unfold_locales (rule ParseIP_short)

section \<open>The code refines the specification\<close>

text \<open>Positions: \<open>J ws\<close> is the string of the labels \<open>ws\<close> (rightmost first).\<close>

definition J :: "string list \<Rightarrow> string" where
  "J ws = join_with CHR ''.'' (rev ws)"

lemma J_simps [simp]: "J [] = []" "J [w] = w"
  by (simp_all add: J_def)

definition pre :: "string list \<Rightarrow> string" where
  "pre ws = (if ws = [] then [] else J ws @ ''.'')"

definition labels :: "string list \<Rightarrow> bool" where
  "labels ws \<longleftrightarrow> list_all (\<lambda>w. w \<noteq> [] \<and> CHR ''.'' \<notin> set w) ws"

lemma labels_simps [simp]:
  "labels []" "labels (w # ws) \<longleftrightarrow> w \<noteq> [] \<and> CHR ''.'' \<notin> set w \<and> labels ws"
  "labels (us @ ws) \<longleftrightarrow> labels us \<and> labels ws"
  by (auto simp: labels_def)

lemma pre_Nil [simp]: "pre [] = []"
  by (simp add: pre_def)

lemma J_snoc: "us \<noteq> [] \<Longrightarrow> J (us @ [v]) = v @ CHR ''.'' # J us"
  by (simp add: J_def join_with_Cons)

lemma J_append: "us \<noteq> [] \<Longrightarrow> J (us @ ws) = pre ws @ J us"
  by (simp add: pre_def J_def join_with_append)

lemma J_Cons: "J (w # ws) = pre ws @ w"
  using J_append [of "[w]" ws] by simp

lemma J_nonempty: "labels ws \<Longrightarrow> ws \<noteq> [] \<Longrightarrow> J ws \<noteq> []"
  by (cases ws) (auto simp: J_Cons)

lemma length_pre: "ws \<noteq> [] \<Longrightarrow> length (pre ws) = Suc (length (J ws))"
  by (simp add: pre_def)

lemma butlast_pre: "butlast (pre ws) = J ws"
  by (simp add: pre_def)

lemma dot_in_pre: "ws \<noteq> [] \<Longrightarrow> CHR ''.'' \<in> set (pre ws)"
  by (simp add: pre_def)

lemma LastIndex_pre:
  assumes "CHR ''.'' \<notin> set w"
  shows "LastIndex (pre ws @ w) ''.'' = int (length (pre ws)) - 1"
  using assms LastIndex_found [of "CHR ''.''" w "J ws"] by (simp add: pre_def)

text \<open>One pass of the loop on a window \<open>cand\<close> that starts behind \<open>p\<close>.\<close>

lemma window_slices:
  assumes "A = p @ cand @ tail" "cand \<noteq> []"
  shows "go_slice A (int (length p)) (int (length p + length cand)) = Ok cand"
    and "go_slice A 0 (int (length p + length cand) - 1) = Ok (butlast (p @ cand))"
    and "p \<noteq> [] \<Longrightarrow> go_slice A 0 (int (length p) - 1) = Ok (butlast p)"
    and "p = [] \<Longrightarrow> go_slice A 0 (int (length p) - 1) = Panic SliceBoundsOutOfRange"
proof -
  have "0 < int (length cand)" using assms(2) by simp
  then have "0 < int (length p) + int (length cand)" by linarith
  then show "go_slice A 0 (int (length p + length cand) - 1) = Ok (butlast (p @ cand))"
    using assms(1) by (simp add: go_slice_def butlast_conv_take nat_diff_distrib' nat_add_distrib
      take_append)
qed (use assms in \<open>auto simp: go_slice_def butlast_conv_take nat_diff_distrib' nat_add_distrib
      Suc_le_eq take_append\<close>)

lemma body_hit:
  assumes "A = p @ cand @ tail" "cand \<noteq> []" "ParseIP cand = Some ip"
  shows "parseIPs_body A (int (length p)) (int (length p + length cand)) acc =
           Ok (Next (int (length p) - 1 - 1) (int (length p) - 1) (acc @ [ip]))"
  using assms window_slices(1) [OF assms(1,2)] by (simp add: parseIPs_body_def)

lemma body_miss_left:
  assumes "A = p @ cand @ tail" "cand \<noteq> []" "ParseIP cand = None" "p \<noteq> []"
    and "CHR ''.'' \<in> set (butlast (p @ cand))"
  shows "parseIPs_body A (int (length p)) (int (length p + length cand)) acc =
           (let l = LastIndex (butlast p) ''.''
            in Ok (Next (if l < 0 then 0 else l + 1) (int (length p + length cand)) acc))"
  using assms(3-) window_slices(1,2) [OF assms(1,2)] window_slices(3) [OF assms(1,2,4)]
  by (simp add: parseIPs_body_def no_way_on_def LastIndex_neg_iff Let_def)

lemma body_miss_start:
  assumes "A = cand @ tail" "cand \<noteq> []" "ParseIP cand = None"
    and "CHR ''.'' \<in> set (butlast cand)" "length cand > 2"
  shows "parseIPs_body A 0 (int (length cand)) acc =
           (let r = LastIndex (butlast cand) ''.'' in Ok (Next (r - 1) r acc))"
  using assms(3-) window_slices(1,2) [of A "[]" cand tail] assms(1,2)
  by (simp add: parseIPs_body_def no_way_on_def LastIndex_neg_iff Let_def)

lemma loop_done: "l < 0 \<Longrightarrow> parseIPs_loop A l r acc = Some (Ok acc)"
  by (simp add: parseIPs_loop.simps)

lemma loop_next:
  "0 \<le> l \<Longrightarrow> parseIPs_body A l r acc = Ok (Next l' r' acc') \<Longrightarrow>
   parseIPs_loop A l r acc = parseIPs_loop A l' r' acc'"
  by (simp add: parseIPs_loop.simps [of A l r])

lemma loop_break:
  "0 \<le> l \<Longrightarrow> parseIPs_body A l r acc = Ok Break \<Longrightarrow> parseIPs_loop A l r acc = Some (Ok acc)"
  by (simp add: parseIPs_loop.simps)

lemma loop_panic:
  "0 \<le> l \<Longrightarrow> parseIPs_body A l r acc = Panic p \<Longrightarrow> parseIPs_loop A l r acc = Some (Panic p)"
  by (simp add: parseIPs_loop.simps)

text \<open>The state in which the loop takes up the remaining labels \<open>ws\<close>.\<close>

definition loop_at :: "string \<Rightarrow> string list \<Rightarrow> IP list \<Rightarrow> IP list outcome option" where
  "loop_at A ws acc = parseIPs_loop A (int (length (J ws)) - 1) (int (length (J ws))) acc"

lemma loop_at_Nil [simp]: "loop_at A [] acc = Some (Ok acc)"
  by (simp add: loop_at_def loop_done)

lemma loop_hit:
  assumes "A = J (us @ rest) @ tail" "labels (us @ rest)" "us \<noteq> []" "ParseIP (J us) = Some ip"
  shows "parseIPs_loop A (int (length (pre rest))) (int (length (J (us @ rest)))) acc =
           loop_at A rest (acc @ [ip])"
proof -
  have A: "A = pre rest @ J us @ tail" using assms(1,3) by (simp add: J_append)
  have "J us \<noteq> []" using assms(2,3) J_nonempty [of us] by simp
  note hit = body_hit [OF A this assms(4), of acc]
  have len: "length (J (us @ rest)) = length (pre rest) + length (J us)"
    using assms(3) by (simp add: J_append)
  show ?thesis
  proof (cases "rest = []")
    case True
    then show ?thesis using loop_next [OF _ hit] len by (simp add: loop_done)
  next
    case False
    then show ?thesis using loop_next [OF _ hit] len by (simp add: loop_at_def length_pre)
  qed
qed

lemma loop_window:
  assumes "A = J (us @ rest) @ tail" "labels (us @ rest)" "us \<noteq> []" "tl (us @ rest) \<noteq> []"
  shows "parseIPs_loop A (int (length (pre rest))) (int (length (J (us @ rest)))) acc =
           (case try_window ParseIP (J us) rest of
              Some (ip, rest') \<Rightarrow> loop_at A rest' (acc @ [ip])
            | None \<Rightarrow> loop_at A (tl (us @ rest)) acc)"
  using assms
proof (induction rest arbitrary: us)
  case Nil
  show ?case
  proof (cases "ParseIP (J us)")
    case None
    obtain w v vs where us: "us = w # v # vs" using Nil.prems by (cases us; cases "tl us") auto
    have w: "w \<noteq> []" "CHR ''.'' \<notin> set w" "labels (v # vs)" using Nil.prems us by auto
    have Jus: "J us = pre (v # vs) @ w" using us by (simp add: J_Cons)
    have bl: "butlast (J us) = pre (v # vs) @ butlast w" using Jus w(1) by (simp add: butlast_append)
    have dot: "CHR ''.'' \<in> set (butlast (J us))" using bl dot_in_pre [of "v # vs"] by simp
    have "length (J (v # vs)) \<ge> 1" using J_nonempty [OF w(3)] by (simp add: Suc_le_eq)
    then have long: "length (J us) > 2"
      using Jus w(1) length_pre [of "v # vs"] by (simp add: length_greater_0_conv [symmetric] Suc_le_eq del: length_greater_0_conv)
    have "LastIndex (butlast (J us)) ''.'' = int (length (J (v # vs)))"
      unfolding bl using LastIndex_pre [of "butlast w" "v # vs"] w(2) length_pre [of "v # vs"]
      by (auto dest: in_set_butlastD)
    moreover have "A = J us @ tail" "J us \<noteq> []" using Nil.prems long by auto
    ultimately have "parseIPs_body A 0 (int (length (J us))) acc =
        Ok (Next (int (length (J (v # vs))) - 1) (int (length (J (v # vs)))) acc)"
      using body_miss_start [OF _ _ None dot long] by (simp add: Let_def)
    then show ?thesis using None us
      by (simp add: loop_next loop_at_def)
  next
    case (Some ip)
    then show ?thesis using loop_hit [of A us "[]" tail] Nil.prems by simp
  qed
next
  case (Cons v rest)
  show ?case
  proof (cases "ParseIP (J us)")
    case None
    have Jus: "J us \<noteq> []" using Cons.prems J_nonempty [of us] by simp
    have A: "A = pre (v # rest) @ J us @ tail"
      using Cons.prems(1,3) by (simp add: J_append)
    have ne: "pre (v # rest) \<noteq> []" by (simp add: pre_def)
    have dot: "CHR ''.'' \<in> set (butlast (pre (v # rest) @ J us))"
      using Jus dot_in_pre [of "v # rest"] by (simp add: butlast_append)
    have v: "CHR ''.'' \<notin> set v" using Cons.prems(2) by simp
    have li: "LastIndex (butlast (pre (v # rest))) ''.'' = int (length (pre rest)) - 1"
      unfolding butlast_pre J_Cons by (rule LastIndex_pre [OF v])
    have len: "length (J (us @ v # rest)) = length (pre (v # rest)) + length (J us)"
      using Cons.prems(3) by (simp add: J_append)
    have "parseIPs_loop A (int (length (pre (v # rest)))) (int (length (J (us @ v # rest)))) acc =
        parseIPs_loop A (int (length (pre rest))) (int (length (J ((us @ [v]) @ rest)))) acc"
      unfolding len
      by (subst loop_next [OF _ body_miss_left [OF A Jus None ne dot, unfolded li Let_def]])
        (use len in auto)
    also have "\<dots> = (case try_window ParseIP (J (us @ [v])) rest of
              Some (ip, rest') \<Rightarrow> loop_at A rest' (acc @ [ip])
            | None \<Rightarrow> loop_at A (tl ((us @ [v]) @ rest)) acc)"
      by (rule Cons.IH) (use Cons.prems in auto)
    also have "J (us @ [v]) = v @ CHR ''.'' # J us"
      using Cons.prems(3) by (rule J_snoc)
    also have "(us @ [v]) @ rest = us @ v # rest" by simp
    finally show ?thesis using None by simp
  next
    case (Some ip)
    then show ?thesis using loop_hit [of A us "v # rest" tail] Cons.prems by simp
  qed
qed

text \<open>The first pass over a label looks at its last byte only, which is never an address.\<close>

lemma loop_first:
  assumes "A = J (w # rest) @ tail" "labels (w # rest)" "rest \<noteq> []"
  shows "loop_at A (w # rest) acc =
           (case try_window ParseIP w rest of
              Some (ip, rest') \<Rightarrow> loop_at A rest' (acc @ [ip])
            | None \<Rightarrow> loop_at A rest acc)"
proof -
  let ?p = "pre rest @ butlast w"
  have w: "w \<noteq> []" "CHR ''.'' \<notin> set w" using assms(2) by auto
  have A: "A = ?p @ [last w] @ tail" using assms(1) w(1) by (simp add: J_Cons)
  have ne: "?p \<noteq> []" using dot_in_pre [OF assms(3)] by auto
  have dot: "CHR ''.'' \<in> set (butlast (?p @ [last w]))"
    using dot_in_pre [OF assms(3)] by (simp only: butlast_snoc) simp
  have len: "length (J (w # rest)) = length ?p + length [last w]"
    using w(1) by (simp add: J_Cons)
  note miss = body_miss_left [OF A list.distinct(2) ParseIP_single ne dot, of acc, folded len]
  have at: "loop_at A (w # rest) acc =
      parseIPs_loop A (int (length ?p)) (int (length (J (w # rest)))) acc"
    using w(1) by (simp add: loop_at_def J_Cons of_nat_diff Suc_le_eq)
  have window: "parseIPs_loop A (int (length (pre rest))) (int (length (J (w # rest)))) acc =
      (case try_window ParseIP w rest of
         Some (ip, rest') \<Rightarrow> loop_at A rest' (acc @ [ip]) | None \<Rightarrow> loop_at A rest acc)"
    using loop_window [of A "[w]" rest tail acc, unfolded append_Cons append_Nil list.sel J_simps]
      assms by simp
  show ?thesis
  proof (cases "length w = 1")
    case False
    then have li: "LastIndex (butlast ?p) ''.'' = int (length (pre rest)) - 1"
      using LastIndex_pre [of "butlast (butlast w)" rest] w
      by (cases w rule: rev_cases) (auto simp: butlast_append dest: in_set_butlastD)
    have "loop_at A (w # rest) acc =
        parseIPs_loop A (int (length (pre rest))) (int (length (J (w # rest)))) acc"
      unfolding at by (subst loop_next [OF _ miss [unfolded li Let_def]])
        (auto simp: length_pre [OF assms(3)] add.commute)
    with window show ?thesis by simp
  next
    case True
    obtain v vs where rest: "rest = v # vs" using assms(3) by (cases rest) auto
    have v: "CHR ''.'' \<notin> set v" using assms(2) rest by simp
    have single: "w = [hd w]" using True by (cases w) auto
    then have none: "ParseIP w = None" by (metis ParseIP_single)
    have "butlast ?p = J rest" using single butlast_pre [of rest] by (cases w) auto
    then have li: "LastIndex (butlast ?p) ''.'' = int (length (pre vs)) - 1"
      using LastIndex_pre [OF v, of vs] rest by (simp add: J_Cons)
    have "loop_at A (w # rest) acc =
        parseIPs_loop A (int (length (pre vs))) (int (length (J (w # rest)))) acc"
      unfolding at by (subst loop_next [OF _ miss [unfolded li Let_def]]) auto
    also have "\<dots> = (case try_window ParseIP (J [w, v]) vs of
         Some (ip, rest') \<Rightarrow> loop_at A rest' (acc @ [ip]) | None \<Rightarrow> loop_at A rest acc)"
      using loop_window [of A "[w, v]" vs tail acc, unfolded append_Cons append_Nil list.sel]
        assms rest by (simp cong: option.case_cong)
    finally show ?thesis using none rest J_snoc [of "[w]" v] by (simp cong: option.case_cong)
  qed
qed

text \<open>The leftmost label on its own.\<close>

lemma loop_last:
  assumes "A = w @ tail" "labels [w]"
  shows "loop_at A [w] acc = Some (map_ok (\<lambda>ips. acc @ ips) (scan_last ParseIP w))"
proof -
  have w: "w \<noteq> []" "CHR ''.'' \<notin> set w" using assms(2) by auto
  let ?p = "butlast w"
  have A: "A = ?p @ [last w] @ tail" using assms(1) w(1) by simp
  have len: "length w = length ?p + length [last w]" using w(1) by simp
  have nodot: "LastIndex (butlast w) ''.'' = -1" "LastIndex (butlast (butlast w)) ''.'' = -1"
    by (rule LastIndex_absent, use w(2) in \<open>auto dest!: in_set_butlastD\<close>)+
  have at: "loop_at A [w] acc = parseIPs_loop A (int (length ?p)) (int (length w)) acc"
    using w(1) by (simp add: loop_at_def of_nat_diff Suc_le_eq)
  show ?thesis
  proof (cases "length w = 1")
    case True
    then obtain c where c: "w = [c]" by (cases w) auto
    then have "parseIPs_body A (int (length ?p)) (int (length w)) acc = Panic SliceBoundsOutOfRange"
      using window_slices [of A "[]" "[c]" tail] assms(1)
      by (simp add: parseIPs_body_def no_way_on_def)
    then show ?thesis unfolding at using True by (simp add: loop_panic scan_last_def)
  next
    case False
    then have p: "?p \<noteq> []" using w(1) by (cases w rule: rev_cases) auto
    have bb: "butlast ?p = take (length w - 2) w"
      by (simp add: butlast_conv_take numeral_2_eq_2)
    have first: "parseIPs_body A (int (length ?p)) (int (length w)) acc =
        (if CHR '':'' \<notin> set (take (length w - 2) w) then Ok Break
         else Ok (Next 0 (int (length w)) acc))"
    proof -
      have "parseIPs_body A (int (length ?p)) (int (length w)) acc =
          (if LastIndex (butlast ?p) '':'' < 0 then Ok Break
           else Ok (Next 0 (int (length w)) acc))"
      proof -
        have two: "2 \<le> length w" using False w(1) by (cases w; cases "tl w") auto
        then have i2: "int (length ?p) - 1 = int (length w) - 2" by (simp add: of_nat_diff)
        have sl3: "go_slice A 0 (int (length ?p) - 1) = Ok (butlast ?p)"
          by (rule window_slices(3) [OF A list.distinct(2) p])
        have sl1: "go_slice A (int (length ?p)) (int (length w)) = Ok [last w]"
          and sl2: "go_slice A 0 (int (length w) - 1) = Ok ?p"
          using window_slices(1,2) [OF A list.distinct(2)] len w(1) by (simp_all only: butlast_snoc)
        show ?thesis
          unfolding parseIPs_body_def no_way_on_def sl1 sl2 sl3 obind.simps ParseIP_single
            option.case nodot using two by (simp add: nodot)
      qed
      then show ?thesis unfolding bb LastIndex_neg_iff .
    qed
    show ?thesis
    proof (cases "CHR '':'' \<in> set (take (length w - 2) w)")
      case colon: True
      have second: "parseIPs_body A 0 (int (length w)) acc =
          (case ParseIP w of Some ip \<Rightarrow> Ok (Next (- 2) (- 1) (acc @ [ip]))
           | None \<Rightarrow> Panic SliceBoundsOutOfRange)"
      proof -
        have "go_slice A 0 (int (length w)) = Ok w" "go_slice A 0 (int (length w) - 1) = Ok ?p"
          "go_slice A 0 (- 1) = Panic SliceBoundsOutOfRange"
          using window_slices [of A "[]" w tail] assms(1) w(1) by simp_all
        then show ?thesis
          using nodot by (cases "ParseIP w") (simp_all add: parseIPs_body_def no_way_on_def)
      qed
      have "loop_at A [w] acc = parseIPs_loop A 0 (int (length w)) acc"
        unfolding at using first colon by (simp add: loop_next)
      also have "\<dots> = Some (map_ok (\<lambda>ips. acc @ ips) (scan_last ParseIP w))"
        using second False colon
        by (cases "ParseIP w") (simp_all add: loop_panic loop_next loop_done scan_last_def)
      finally show ?thesis .
    next
      case no: False
      then show ?thesis unfolding at using first False by (simp add: loop_break scan_last_def)
    qed
  qed
qed

lemma try_window_rest:
  "try_window parse cand rest = Some (ip, rest') \<Longrightarrow> \<exists>us. rest = us @ rest'"
  by (induction parse cand rest rule: try_window.induct) (auto split: option.splits)

lemma J_rest: "\<exists>t. J (us @ rest) = J rest @ t"
  by (cases "us = []") (auto simp: J_append pre_def)

lemma loop_scan:
  "labels ws \<Longrightarrow> A = J ws @ tail \<Longrightarrow>
   loop_at A ws acc = Some (map_ok (\<lambda>ips. acc @ ips) (scan_labels ParseIP ws))"
proof (induction "length ws" arbitrary: ws tail acc rule: less_induct)
  case less
  consider (nil) "ws = []" | (one) w where "ws = [w]" | (more) w rest where "ws = w # rest" "rest \<noteq> []"
    by (metis neq_Nil_conv)
  then show ?case
  proof cases
    case nil
    then show ?thesis by simp
  next
    case one
    then show ?thesis using loop_last [of A w tail acc] less.prems by simp
  next
    case more
    obtain v vs where rest: "rest = v # vs" using more(2) by (cases rest) auto
    have IH: "loop_at A ws' acc' = Some (map_ok (\<lambda>ips. acc' @ ips) (scan_labels ParseIP ws'))"
      if "w # rest = us @ ws'" "us \<noteq> []" for us ws' acc'
    proof -
      obtain t where "J (us @ ws') = J ws' @ t" using J_rest by blast
      then show ?thesis
        by (intro less.hyps [of ws' "t @ tail"])
          (use that more less.prems in \<open>auto simp: neq_Nil_conv\<close>)
    qed
    have step: "loop_at A ws acc =
        (case try_window ParseIP w rest of
           Some (ip, rest') \<Rightarrow> loop_at A rest' (acc @ [ip]) | None \<Rightarrow> loop_at A rest acc)"
      unfolding more(1) by (rule loop_first) (use less.prems more in auto)
    show ?thesis
    proof (cases "try_window ParseIP w rest")
      case None
      then show ?thesis using step IH [of "[w]" rest] more rest by simp
    next
      case (Some r)
      obtain ip rest' where r: "r = (ip, rest')" by (cases r)
      obtain us where us: "rest = us @ rest'" using try_window_rest Some r by blast
      have "scan_labels ParseIP ws = map_ok (\<lambda>ips. ip # ips) (scan_labels ParseIP rest')"
        using Some r more rest by simp
      then show ?thesis using step Some r IH [of "w # us" rest' "acc @ [ip]"] us by simp
    qed
  qed
qed

lemma labels_rev [simp]: "labels (rev ws) \<longleftrightarrow> labels ws"
  by (simp add: labels_def)

lemma parseIPs_scan:
  assumes "labels ws"
  shows "parseIPs (join_with CHR ''.'' ws) = map_ok rev (scan_labels ParseIP (rev ws))"
proof -
  have "J (rev ws) = join_with CHR ''.'' ws" by (simp add: J_def)
  then have "parseIPs_loop (join_with CHR ''.'' ws) (int (length (join_with CHR ''.'' ws)) - 1)
      (int (length (join_with CHR ''.'' ws))) [] = Some (scan_labels ParseIP (rev ws))"
    using loop_scan [of "rev ws" "join_with CHR ''.'' ws" "[]" "[]"] assms
    by (simp add: loop_at_def)
  moreover have "(\<lambda>rs. if length rs > 0 then reverse rs else rs) = (rev :: IP list \<Rightarrow> IP list)"
    by auto
  ultimately show ?thesis by (simp add: parseIPs_def)
qed

section \<open>Queries made of words and addresses\<close>

text \<open>
  A query is a list of items: an address in the notation \<open>IP.String\<close> prints, or a word, a
  non-empty label without separators that is not a number.
\<close>

datatype item = Addr IP | Word string

definition word_label :: "string \<Rightarrow> bool" where
  "word_label h \<longleftrightarrow>
     CHR ''.'' \<notin> set h \<and> CHR '':'' \<notin> set h \<and> list_ex (\<lambda>c. \<not> is_digit c) h"

fun valid_item :: "item \<Rightarrow> bool" where
  "valid_item (Addr ip) \<longleftrightarrow> length ip = 16"
| "valid_item (Word h) \<longleftrightarrow> word_label h"

fun item_string :: "item \<Rightarrow> string" where
  "item_string (Addr ip) = IP_String (Some ip)"
| "item_string (Word h) = h"

definition query :: "item list \<Rightarrow> string" where
  "query its = join_with CHR ''.'' (map item_string its)"

fun addresses :: "item list \<Rightarrow> IP list" where
  "addresses [] = []"
| "addresses (Addr ip # its) = ip # addresses its"
| "addresses (Word h # its) = addresses its"

text \<open>Addresses that print as one group and a final \<open>::\<close> (or as \<open>::\<close> alone).\<close>

definition only_first_group :: "IP \<Rightarrow> bool" where
  "only_first_group ip \<longleftrightarrow> drop 2 ip = replicate 14 0"

text \<open>What the scanner makes of a query.\<close>

definition scan_result :: "item list \<Rightarrow> IP list outcome" where
  "scan_result its =
     (case its of
        [] \<Rightarrow> Ok []
      | Word h # rest \<Rightarrow>
          if length h = 1 then Panic SliceBoundsOutOfRange else Ok (addresses rest)
      | Addr ip # rest \<Rightarrow>
          if only_first_group ip then Ok (addresses rest) else Ok (ip # addresses rest))"

definition item_labels :: "item \<Rightarrow> string list" where
  "item_labels it = split_on CHR ''.'' (item_string it)"

lemma join_concat_split:
  "join_with c (concat (map (split_on c) ss)) = join_with c ss"
proof (induction ss)
  case (Cons s ss)
  show ?case
  proof (cases "ss = []")
    case False
    then have "concat (map (split_on c) ss) \<noteq> []" by (cases ss) auto
    then show ?thesis using Cons False by (simp add: join_with_append join_with_Cons)
  qed simp
qed simp

lemma query_labels: "query its = join_with CHR ''.'' (concat (map item_labels its))"
  using join_concat_split [of "CHR ''.''" "map item_string its"]
  by (simp add: query_def item_labels_def [abs_def] comp_def)

subsection \<open>Printed addresses are tokens\<close>

lemma hex_groups_chars: "CHR ''.'' \<notin> set (hex_groups gs)"
  by (induction gs rule: induct_list012) auto

lemma IP_String6_no_dot: "CHR ''.'' \<notin> set (IP_String6 ip)"
  by (auto simp: IP_String6_def Let_def hex_groups_chars split: prod.splits)

lemma IP_String6_nonempty: "length ip = 16 \<Longrightarrow> IP_String6 ip \<noteq> []"
  using ParseIP_String6 [of ip] by auto

lemma item_labels_v6:
  "To4 ip = None \<Longrightarrow> length ip = 16 \<Longrightarrow> item_labels (Addr ip) = [IP_String6 ip]"
  by (simp add: item_labels_def IP_String_def IP_String6_no_dot)

lemma item_labels_v4:
  "To4 ip = Some p \<Longrightarrow> item_labels (Addr ip) = map Itoa (map unat p)"
proof -
  assume "To4 ip = Some p"
  moreover from this have "p \<noteq> []" using To4_SomeD by fastforce
  ultimately show ?thesis
    by (simp add: item_labels_def IP_String_def dotted_octets) (subst split_join, auto)
qed

lemma item_labels_word: "word_label h \<Longrightarrow> item_labels (Word h) = [h]"
  by (simp add: item_labels_def word_label_def)

lemma labels_item: "valid_item it \<Longrightarrow> labels (item_labels it)"
proof (cases it)
  case (Addr ip)
  assume "valid_item it"
  with Addr have "length ip = 16" by simp
  then show ?thesis unfolding Addr
    using IP_String6_no_dot IP_String6_nonempty
    by (cases "To4 ip") (auto simp: item_labels_v6 item_labels_v4 labels_def list_all_iff)
next
  case (Word h)
  assume "valid_item it"
  with Word show ?thesis by (cases h) (auto simp: item_labels_word word_label_def)
qed

lemma token_addr:
  assumes "length ip = 16"
  shows "token ParseIP (rev (item_labels (Addr ip))) ip"
proof -
  have all: "join_with CHR ''.'' (item_labels (Addr ip)) = IP_String (Some ip)"
    by (simp add: item_labels_def)
  have part: "ParseIP (join_with CHR ''.'' (rev (take k (rev (item_labels (Addr ip)))))) = None"
    if "k \<in> set [1 ..< length (rev (item_labels (Addr ip)))]" for k
  proof (cases "To4 ip")
    case None
    then show ?thesis using that assms by (simp add: item_labels_v6)
  next
    case (Some p)
    let ?ns = "rev (take k (rev (map unat p)))"
    have "list_all (\<lambda>n. n \<le> 255) ?ns"
      using octets_bound [of p] by (auto simp: list_all_iff dest!: in_set_takeD)
    moreover have "length ?ns \<noteq> 4"
      using that To4_SomeD [OF Some] by (simp add: item_labels_v4 [OF Some])
    ultimately have "ParseIP (join_with CHR ''.'' (map Itoa ?ns)) = None"
      by (simp only: ParseIP_octets if_False)
    then show ?thesis by (simp add: item_labels_v4 [OF Some] rev_map take_map)
  qed
  have "item_labels (Addr ip) \<noteq> []" by (simp add: item_labels_def)
  then show ?thesis
    unfolding token_def using all part ParseIP_String [OF assms]
    by (simp add: list_all_iff)
qed

subsection \<open>An address as the leftmost label\<close>

lemma colon_early:
  assumes "2 \<le> length y"
  shows "CHR '':'' \<in> set (take (length (x @ CHR '':'' # y) - 2) (x @ CHR '':'' # y))"
proof -
  have "length (x @ CHR '':'' # y) - 2 = length (x @ [CHR '':'']) + (length y - 2)"
    using assms by simp
  moreover have "take (length (x @ [c]) + k) (x @ c # y) = x @ c # take k y" for c k
    using take_append [of "length (x @ [c]) + k" "x @ [c]" y] by simp
  ultimately have "take (length (x @ CHR '':'' # y) - 2) (x @ CHR '':'' # y) =
      x @ CHR '':'' # take (length y - 2) y" by (simp only:)
  then show ?thesis by (simp only:) simp
qed

lemma hex_groups_length: "length gs \<le> length (hex_groups gs)"
proof (induction gs rule: induct_list012)
  case (3 g h gs)
  have "1 \<le> length (appendHex g)" by (simp add: Suc_le_eq)
  with 3 show ?case by simp
qed (simp_all add: Suc_le_eq)

lemma hex_groups_early:
  assumes "2 \<le> length gs" "3 \<le> length gs \<or> 2 \<le> length s"
  shows "CHR '':'' \<in> set (take (length (hex_groups gs @ s) - 2) (hex_groups gs @ s))"
proof -
  obtain g h hs where gs: "gs = g # h # hs" using assms(1) by (cases gs; cases "tl gs") auto
  have "2 \<le> length (hex_groups (h # hs) @ s)"
    using hex_groups_length [of "h # hs"] assms gs by auto
  from colon_early [OF this, of "appendHex g"] show ?thesis by (simp add: gs)
qed

lemma only_first_group_groups:
  assumes "length ip = 16"
  shows "only_first_group ip \<longleftrightarrow> tl (ip_groups ip) = replicate 7 0"
proof -
  obtain a b r where ip: "ip = a # b # r" using assms by (cases ip; cases "tl ip") auto
  have r: "length r = 14" using assms ip by simp
  have "r = replicate 14 0 \<longleftrightarrow> ip_groups r = replicate 7 0"
  proof
    assume "ip_groups r = replicate 7 0"
    then have "group_bytes (ip_groups r) = replicate 14 0" by simp
    then show "r = replicate 14 0" using ip_groups_bytes [of r] r by simp
  next
    assume "r = replicate 14 0"
    then show "ip_groups r = replicate 7 0" by (simp add: numeral_eq_Suc)
  qed
  then show ?thesis by (simp add: only_first_group_def ip)
qed

lemma zero_run_first: "zero_run (g # replicate 7 0) = (if g = 0 then (0, 8) else (1, 8))"
proof -
  have rep: "replicate 7 (0::nat) = [0, 0, 0, 0, 0, 0, 0]" by (simp add: numeral_eq_Suc)
  show ?thesis unfolding rep zero_run_def
    by (simp add: longest_run.simps Let_def)
qed

lemma IP_String6_early:
  assumes "length ip = 16"
  shows "CHR '':'' \<in> set (take (length (IP_String6 ip) - 2) (IP_String6 ip)) \<longleftrightarrow>
           \<not> only_first_group ip"
proof -
  let ?gs = "ip_groups ip"
  have len: "length ?gs = 8" using assms by (simp add: ip_groups_length)
  obtain e0 e1 where z: "zero_run ?gs = (e0, e1)" by (cases "zero_run ?gs")
  note run = zero_run_zeros [OF z]
  show ?thesis
  proof (cases "only_first_group ip")
    case True
    then obtain g where gs: "?gs = g # replicate 7 0"
      using only_first_group_groups [OF assms] len by (cases ?gs) auto
    have "IP_String6 ip = (if g = 0 then [] else appendHex g) @ ''::''"
      using zero_run_first [of g] by (auto simp: IP_String6_def gs Let_def)
    then show ?thesis using True by auto
  next
    case False
    let ?pre = "take e0 ?gs" and ?post = "drop e1 ?gs"
    have split: "?gs = ?pre @ replicate (e1 - e0) 0 @ ?post" by (rule run_split) (use run in auto)
    have "CHR '':'' \<in> set (take (length (IP_String6 ip) - 2) (IP_String6 ip))"
    proof (cases "e0 < e1")
      case no: False
      then show ?thesis using hex_groups_early [of ?gs "[]"] len z
        by (simp add: IP_String6_def Let_def)
    next
      case yes: True
      then have str: "IP_String6 ip = hex_groups ?pre @ ''::'' @ hex_groups ?post"
        using z by (simp add: IP_String6_def Let_def)
      show ?thesis
      proof (cases "e0 \<ge> 2")
        case True
        then show ?thesis unfolding str by (intro hex_groups_early) (use run len in auto)
      next
        case small: False
        have "?post \<noteq> []"
        proof
          assume "?post = []"
          then have "?gs = ?pre @ replicate (8 - e0) 0" using split run len by simp
          then have "tl ?gs = replicate 7 0" using small len
            by (cases ?gs; cases "e0 = 0") (auto simp: take_Cons' less_2_cases_iff not_le)
          then show False using False only_first_group_groups [OF assms] by simp
        qed
        then have "1 \<le> length (hex_groups ?post)" by (simp add: Suc_le_eq)
        then have two: "2 \<le> length ('':'' @ hex_groups ?post)" by simp
        have "str": "IP_String6 ip = hex_groups ?pre @ CHR '':'' # '':'' @ hex_groups ?post"
          unfolding str by simp
        show ?thesis unfolding "str" by (rule colon_early [OF two])
      qed
    qed
    with False show ?thesis by simp
  qed
qed

lemma only_first_group_v4: "To4 ip = Some p \<Longrightarrow> length ip = 16 \<Longrightarrow> \<not> only_first_group ip"
proof
  assume p: "To4 ip = Some p" and len: "length ip = 16" and "only_first_group ip"
  then have "drop 2 ip ! 8 = 0" by (simp only: only_first_group_def) simp
  then have "ip ! 10 = 0" using len by simp
  moreover have "ip ! 10 = 255" using To4_SomeD [OF p] len by (auto simp: v4InV6Prefix_def)
  ultimately show False by simp
qed

subsection \<open>The scan of a query\<close>

lemma scan_last_item:
  assumes "valid_item it"
  shows "scan_labels ParseIP (rev (item_labels it)) = map_ok rev (scan_result [it])"
proof (cases it)
  case (Word h)
  then have "word_label h" using assms by simp
  then show ?thesis using Word
    by (auto simp: item_labels_word scan_last_def scan_result_def word_label_def
        dest: in_set_takeD)
next
  case (Addr ip)
  then have len: "length ip = 16" using assms by simp
  show ?thesis
  proof (cases "To4 ip")
    case None
    have "IP_String6 ip \<noteq> [c]" for c
      using ParseIP_String6 [OF len] by auto
    then have "length (IP_String6 ip) \<noteq> 1" by (simp add: length_Suc_conv)
    then show ?thesis using Addr None len IP_String6_early [OF len] ParseIP_String6 [OF len]
      by (simp add: item_labels_v6 scan_last_def scan_result_def)
  next
    case (Some p)
    have "length (rev (item_labels (Addr ip))) = 4"
      using To4_SomeD [OF Some] by (simp add: item_labels_v4 [OF Some])
    moreover have "length xs = 4 \<Longrightarrow> \<exists>w v ws. xs @ [] = w # v # ws" for xs :: "string list"
      by (cases xs; cases "tl xs") auto
    ultimately obtain w v ws where "rev (item_labels (Addr ip)) @ [] = w # v # ws" by blast
    from ip.scan_token [OF token_addr [OF len] this] show ?thesis
      using Addr only_first_group_v4 [OF Some len] by (simp add: scan_result_def)
  qed
qed

lemma scan_result_snoc:
  "its \<noteq> [] \<Longrightarrow> scan_result (its @ [it]) =
     map_ok (\<lambda>ips. ips @ addresses [it]) (scan_result its)"
proof -
  have app: "addresses (xs @ ys) = addresses xs @ addresses ys" for xs ys
    by (induction xs rule: addresses.induct) auto
  show "its \<noteq> [] \<Longrightarrow> ?thesis"
    by (cases its) (auto simp: scan_result_def app split: item.splits)
qed

lemma word_label_junk:
  assumes "word_label h"
  shows "ParseIP h = None" "ParseIP (x @ CHR ''.'' # h) = None"
proof -
  show "ParseIP h = None" using assms by (simp add: ParseIP_no_sep word_label_def)
  have "\<not> list_all num_or_dot h"
    using assms by (auto simp: word_label_def num_or_dot_def list_all_iff list_ex_iff)
  then show "ParseIP (x @ CHR ''.'' # h) = None"
    using ParseIP_last_label [of x h] by (cases "ParseIP (x @ CHR ''.'' # h)") auto
qed

lemma scan_items:
  "list_all valid_item its \<Longrightarrow>
   scan_labels ParseIP (rev (concat (map item_labels its))) = map_ok rev (scan_result its)"
proof (induction its rule: rev_induct)
  case (snoc it its)
  let ?rest = "rev (concat (map item_labels its))"
  have IH: "scan_labels ParseIP ?rest = map_ok rev (scan_result its)" using snoc by simp
  have it: "valid_item it" using snoc.prems by simp
  show ?case
  proof (cases "its = []")
    case True
    then show ?thesis using scan_last_item [OF it] by simp
  next
    case False
    then have rest: "?rest \<noteq> []" by (cases its) (auto simp: item_labels_def)
    show ?thesis
    proof (cases it)
      case (Word h)
      have junk: "word_label h" using it Word by simp
      have "scan_labels ParseIP (h # ?rest) = scan_labels ParseIP ?rest"
        by (rule ip.scan_junk) (use junk rest in \<open>auto simp: word_label_junk\<close>)
      then show ?thesis using IH False Word junk
        by (simp add: item_labels_word scan_result_snoc)
    next
      case (Addr ip)
      have tok: "token ParseIP (rev (item_labels it)) ip" using it Addr by (simp add: token_addr)
      then have "rev (item_labels it) \<noteq> []" by (simp add: token_def)
      then obtain w v ws where "rev (item_labels it) @ ?rest = w # v # ws"
        using rest by (cases "rev (item_labels it)"; cases ?rest; cases "tl (rev (item_labels it))") auto
      from ip.scan_token [OF tok this] show ?thesis using IH False Addr
        by (simp add: scan_result_snoc)
    qed
  qed
qed (simp add: scan_result_def)

section \<open>Termination and soundness of the loop\<close>

lemma go_slice_not_Loops [simp]: "go_slice s a b \<noteq> Loops" "go_slice s a b \<noteq> Err e"
  by (simp_all add: go_slice_def)

lemma go_slice_Ok_iff:
  "go_slice s a b = Ok t \<longleftrightarrow>
     0 \<le> a \<and> a \<le> b \<and> b \<le> int (length s) \<and> t = take (nat b - nat a) (drop (nat a) s)"
  by (auto simp: go_slice_def)

lemma body_returns: "parseIPs_body A l r acc \<noteq> Loops"
  unfolding parseIPs_body_def no_way_on_def
  by (auto simp: obind_eq_Loops Let_def split: option.splits if_splits)

text \<open>
  A pass that goes on moves the right end to the left, or keeps it and moves the left end to
  the left, unless the two remaining bytes start with a separator.
\<close>

lemma body_progress:
  assumes "0 \<le> l" "parseIPs_body A l r acc = Ok (Next l' r' acc')"
  shows "0 < r \<and> (r' < r \<or> r' = r \<and> 0 < l \<and> l' < l) \<or> (A \<noteq> [] \<and> hd A = CHR ''.'')"
proof -
  obtain w where w: "go_slice A l r = Ok w" using assms(2) by (auto simp: parseIPs_body_def)
  have lr: "l \<le> r" "r \<le> int (length A)" using w by (auto simp: go_slice_Ok_iff)
  show ?thesis
  proof (cases "ParseIP w")
    case (Some ip)
    then have "2 \<le> length w" using ParseIP_short [of w] by (cases "length w \<le> 1") auto
    then have "l < r" using w lr by (auto simp: go_slice_Ok_iff)
    then show ?thesis using assms w Some by (auto simp: parseIPs_body_def Let_def)
  next
    case None
    then obtain b where b: "go_slice A 0 (r - 1) = Ok b" and
        way: "no_way_on A l r = Ok False"
      using assms(2) w by (auto simp: parseIPs_body_def no_way_on_def split: if_splits)
    have r: "1 \<le> r" using b by (simp add: go_slice_Ok_iff)
    consider (left) "0 < l" | (right) "l = 0" "r > 2" | (stuck) "l = 0" "r \<le> 2"
      using assms(1) by linarith
    then show ?thesis
    proof cases
      case left
      then obtain c where c: "go_slice A 0 (l - 1) = Ok c"
        and l': "l' = (if LastIndex c ''.'' < 0 then 0 else LastIndex c ''.'' + 1)" "r' = r"
        using assms(2) w None way by (auto simp: parseIPs_body_def Let_def)
      have "int (length c) \<le> l - 1" using c by (auto simp: go_slice_Ok_iff)
      then have "l' < l" using l' left LastIndex_bounds [of c "CHR ''.''"] by auto
      then show ?thesis using left r l' by simp
    next
      case right
      then have "r' = LastIndex b ''.''"
        using assms(2) w None way b by (auto simp: parseIPs_body_def Let_def)
      moreover have "int (length b) \<le> r - 1" using b by (auto simp: go_slice_Ok_iff)
      ultimately have "r' < r" using LastIndex_bounds [of b "CHR ''.''"] by linarith
      then show ?thesis using r by simp
    next
      case stuck
      then have "\<not> LastIndex b ''.'' < 0"
        using way b by (auto simp: no_way_on_def go_slice_def split: if_splits)
      then have dot: "CHR ''.'' \<in> set b" by (simp add: LastIndex_neg_iff)
      have "b = take (nat (r - 1)) A" using b by (auto simp: go_slice_Ok_iff)
      moreover have "nat (r - 1) \<le> 1" using stuck by simp
      ultimately have "b = [] \<or> b = take 1 A"
        by (cases "nat (r - 1) = 0") (auto simp: le_Suc_eq)
      with dot show ?thesis by (cases A) auto
    qed
  qed
qed

lemma loop_ends:
  "\<not> (A \<noteq> [] \<and> hd A = CHR ''.'') \<Longrightarrow> parseIPs_loop A l r acc \<noteq> None"
proof (induction "(nat r, nat l)" arbitrary: l r acc rule: wf_induct_rule [OF wf_lex_prod [OF wf_less wf_less]])
  case (1 l r acc)
  show ?case
  proof (cases "0 \<le> l \<and> (\<exists>l' r' acc'. parseIPs_body A l r acc = Ok (Next l' r' acc'))")
    case True
    then obtain l' r' acc' where n: "0 \<le> l" "parseIPs_body A l r acc = Ok (Next l' r' acc')"
      by blast
    have "((nat r', nat l'), (nat r, nat l)) \<in> less_than <*lex*> less_than"
      using body_progress [OF n] "1.prems" by auto
    then show ?thesis using "1.hyps" "1.prems" loop_next [OF n] by simp
  next
    case False
    then show ?thesis using body_returns [of A l r acc]
      by (subst parseIPs_loop.simps) (auto split: outcome.splits control.splits)
  qed
qed


text \<open>Every address that is returned stands in the string.\<close>

lemma body_sound:
  "parseIPs_body A l r acc = Ok (Next l' r' acc') \<Longrightarrow>
   acc' = acc \<or> (\<exists>x w y ip. A = x @ w @ y \<and> ParseIP w = Some ip \<and> acc' = acc @ [ip])"
proof -
  assume b: "parseIPs_body A l r acc = Ok (Next l' r' acc')"
  then obtain w where w: "go_slice A l r = Ok w" by (auto simp: parseIPs_body_def)
  show ?thesis
  proof (cases "ParseIP w")
    case None
    then show ?thesis using b w by (auto simp: parseIPs_body_def Let_def split: if_splits)
  next
    case (Some ip)
    have "A = take (nat l) A @ w @ drop (nat r - nat l) (drop (nat l) A)"
      using w by (auto simp: go_slice_Ok_iff simp del: drop_drop)
    then show ?thesis using Some b w by (auto simp: parseIPs_body_def Let_def)
  qed
qed

lemmas loop_induct = parseIPs_loop.raw_induct [rotated, consumes 1, case_names 1]

lemma loop_sound:
  assumes "parseIPs_loop A l r acc = Some (Ok ips)"
  shows "\<forall>ip \<in> set ips. ip \<in> set acc \<or> (\<exists>x w y. A = x @ w @ y \<and> ParseIP w = Some ip)"
  using assms
proof (induction A l r acc "Ok ips :: IP list outcome" rule: loop_induct)
  case (1 loop A l r acc)
  show ?case
  proof (cases "0 \<le> l \<and> (\<exists>l' r' acc'. parseIPs_body A l r acc = Ok (Next l' r' acc'))")
    case True
    then obtain l' r' acc' where n: "0 \<le> l" "parseIPs_body A l r acc = Ok (Next l' r' acc')"
      by blast
    then have "loop A l' r' acc' = Some (Ok ips)" using 1(2) by simp
    from 1(1) [OF this] body_sound [OF n(2)] show ?thesis by fastforce
  next
    case False
    then have "ips = acc" using 1(2) by (auto split: if_splits outcome.splits control.splits)
    then show ?thesis by simp
  qed
qed

lemma stuck_body: "parseIPs_body ''.a'' 0 2 [] = Ok (Next 0 2 [])"
  by code_simp

lemma stuck_loop:
  assumes "parseIPs_loop A l r acc = Some y"
  shows "\<not> (A = ''.a'' \<and> l = 0 \<and> r = 2 \<and> acc = [])"
  using assms
proof (induction A l r acc y rule: loop_induct)
  case (1 loop A l r acc y)
  then show ?case using stuck_body "1" (1) [of "''.a''" 0 2 "[]" y] by auto
qed

lemma loop_not_Loops:
  assumes "parseIPs_loop A l r acc = Some res"
  shows "res \<noteq> Loops"
  using assms
proof (induction A l r acc res rule: loop_induct)
  case (1 loop A l r acc res)
  then show ?case by (auto split: if_splits outcome.splits control.splits)
qed

lemma scan_labels_ok:
  "ws \<noteq> [] \<Longrightarrow> 2 \<le> length (last ws) \<Longrightarrow> CHR '':'' \<notin> set (last ws) \<Longrightarrow>
   \<exists>ips. scan_labels parse ws = Ok ips"
proof (induction parse ws rule: scan_labels.induct)
  case (2 parse w)
  then show ?case by (auto simp: scan_last_def dest: in_set_takeD)
next
  case (3 parse w v rest)
  show ?case
  proof (cases "try_window parse w (v # rest)")
    case None
    then show ?thesis using 3 by simp
  next
    case (Some r)
    obtain ip rest' where r: "r = (ip, rest')" by (cases r)
    obtain us where us: "v # rest = us @ rest'" using Some r try_window_rest by blast
    show ?thesis
    proof (cases "rest' = []")
      case False
      then have "last rest' = last (w # v # rest)" using us by simp
      then show ?thesis using "3.IH"(2) [OF Some r [symmetric]] "3.prems" False Some r by auto
    qed (use Some r in simp)
  qed
qed simp

lemma first_pass: "parseIPs_body ''.a'' 1 2 [] = Ok (Next 0 2 [])"
  by code_simp

lemma parseIPs_items:
  assumes "list_all valid_item its"
  shows "parseIPs (query its) = scan_result its"
proof -
  have "labels (concat (map item_labels its))"
    using assms by (induction its) (auto simp: labels_item simp del: valid_item.simps)
  then show ?thesis using parseIPs_scan scan_items [OF assms] by (simp add: query_labels)
qed

section \<open>Properties\<close>

text \<open>C4: \<open>parseIPs\<close> refines the label scanner: on a string of non-empty labels joined by dots
  the index arithmetic of the loop returns exactly the addresses the scanner finds in the labels
  (taken rightmost first), in left-to-right order, panics exactly when the scanner does, and
  terminates.\<close>

theorem parseIPs_refines_scan:
  assumes "ws \<noteq> []" "\<forall>w \<in> set ws. w \<noteq> [] \<and> CHR ''.'' \<notin> set w"
  shows "parseIPs (join_with CHR ''.'' ws) = map_ok rev (scan_labels ParseIP (rev ws))"
  by (rule parseIPs_scan) (use assms in \<open>simp add: labels_def list_all_iff\<close>)

theorem parseIPs_refines_scan_witness:
  "parseIPs (join_with CHR ''.'' [''x'', ''y'']) = map_ok rev (scan_labels ParseIP [''y'', ''x''])"
  using parseIPs_refines_scan [of "[''x'', ''y'']"] by simp

text \<open>C2: Parsing a query: for any list of words and IPv4 or IPv6 addresses, each printed the
  way \<open>net.IP.String\<close> prints it and joined by dots, \<open>parseIPs\<close> returns exactly the addresses,
  in order, unless the leftmost item is a one-byte word (a panic) or an address that prints as
  one group followed by \<open>::\<close> (which is then not recognised).\<close>

theorem parseIPs_query:
  assumes "list_all valid_item its"
  shows "parseIPs (query its) = scan_result its"
  by (rule parseIPs_items [OF assms])

theorem parseIPs_query_witness:
  "let its = [Word ''ab'', Addr (replicate 16 7), Word ''and'', Addr (v4InV6Prefix @ [10, 0, 0, 1])] in
   list_all valid_item its \<and> parseIPs (query its) =
     Ok [replicate 16 7, v4InV6Prefix @ [10, 0, 0, 1]]"
proof -
  have "list_all valid_item
    [Word ''ab'', Addr (replicate 16 7), Word ''and'', Addr (v4InV6Prefix @ [10, 0, 0, 1])]"
    by code_simp
  from parseIPs_query [OF this] this show ?thesis
    unfolding Let_def by (simp add: scan_result_def)
qed

text \<open>C6: \<open>parseIPs\<close> terminates on every string that does not begin with a dot: the loop moves
  its right index to the left, or keeps it and moves its left index to the left.\<close>

theorem parseIPs_terminates:
  assumes "A = [] \<or> hd A \<noteq> CHR ''.''"
  shows "parseIPs A \<noteq> Loops"
proof -
  obtain res where "parseIPs_loop A (int (length A) - 1) (int (length A)) [] = Some res"
    using loop_ends [of A "int (length A) - 1" "int (length A)" "[]"] assms by blast
  moreover from this have "res \<noteq> Loops" by (rule loop_not_Loops)
  ultimately show ?thesis by (simp add: parseIPs_def)
qed

theorem parseIPs_terminates_witness: "parseIPs ''a..b'' \<noteq> Loops"
  by (rule parseIPs_terminates) simp

text \<open>C24: The loop of \<open>parseIPs\<close> never ends on the string \<open>.a\<close>: the left index is 0, the right
  index is 2 and no branch moves either.  (No name that is read from the wire begins with a dot, so
  the handlers do not reach this.)\<close>

theorem parseIPs_loops: "parseIPs ''.a'' = Loops"
proof -
  have "parseIPs_loop ''.a'' 0 2 [] = None"
    using stuck_loop [of "''.a''" 0 2 "[]"] by (cases "parseIPs_loop ''.a'' 0 2 []") auto
  then have "parseIPs_loop ''.a'' 1 2 [] = None"
    using loop_next [OF _ first_pass] by simp
  then show ?thesis by (simp add: parseIPs_def)
qed

text \<open>C27: Soundness of \<open>parseIPs\<close> on every string whatever: each address of the result is what
  \<open>net.ParseIP\<close> makes of some contiguous part of the string.\<close>

theorem parseIPs_sound:
  assumes "parseIPs A = Ok ips" "ip \<in> set ips"
  shows "\<exists>x w y. A = x @ w @ y \<and> ParseIP w = Some ip"
proof -
  from assms(1) obtain rs where
    "parseIPs_loop A (int (length A) - 1) (int (length A)) [] = Some (Ok rs)" "set ips = set rs"
    by (auto simp: parseIPs_def split: option.splits)
  then show ?thesis using loop_sound assms(2) by fastforce
qed

theorem parseIPs_sound_witness:
  "\<exists>x w y. ''1.2.3.4'' = x @ w @ y \<and> ParseIP w = Some (v4InV6Prefix @ [1, 2, 3, 4])"
proof (rule parseIPs_sound)
  show "parseIPs ''1.2.3.4'' = Ok [v4InV6Prefix @ [1, 2, 3, 4]]" by code_simp
qed simp

text \<open>No panic when the leftmost label has at least two bytes and no colon (as every
  leftmost word or dotted number of more than one digit has): the scan of a string of non-empty
  labels then returns a list of addresses.\<close>

theorem parseIPs_safe:
  assumes "\<forall>w \<in> set (u # ws). w \<noteq> [] \<and> CHR ''.'' \<notin> set w"
    and "2 \<le> length u" "CHR '':'' \<notin> set u"
  shows "\<exists>ips. parseIPs (join_with CHR ''.'' (u # ws)) = Ok ips"
proof -
  have "\<exists>ips. scan_labels ParseIP (rev (u # ws)) = Ok ips"
    by (rule scan_labels_ok) (use assms in auto)
  moreover have "labels (u # ws)" using assms(1) by (simp add: labels_def list_all_iff)
  ultimately show ?thesis using parseIPs_scan [of "u # ws"] by auto
qed

theorem parseIPs_safe_witness:
  "\<exists>ips. parseIPs (join_with CHR ''.'' [''ab'', ''1'', ''c'']) = Ok ips"
  by (rule parseIPs_safe) auto

text \<open>C32: A one-byte word as the leftmost label makes \<open>parseIPs\<close> panic, whatever addresses and
  words follow: the test for a colon slices the string to \<open>-1\<close>.\<close>

theorem parseIPs_panics:
  assumes "word_label [c]" "list_all valid_item its"
  shows "parseIPs (query (Word [c] # its)) = Panic SliceBoundsOutOfRange"
  using parseIPs_items [of "Word [c] # its"] assms by (simp add: scan_result_def)

theorem parseIPs_panics_witness:
  "parseIPs (query [Word ''a'', Addr (v4InV6Prefix @ [127, 0, 0, 1])]) = Panic SliceBoundsOutOfRange"
  by (rule parseIPs_panics) code_simp+

end
