(* ===== verification/Dns_Types.thy ===== *)
theory Dns_Types
  imports Go_Net
begin

text \<open>
  The data of package dns: the constants of \<open>types.go\<close>, \<open>Question\<close>, \<open>RR_Header\<close> (\<open>dns.go\<close>),
  the resource records (the structs of \<open>types.go\<close>, \<open>OPT\<close> and the options of \<open>edns.go\<close>, \<open>TSIG\<close>
  of \<open>tsig.go\<close>), \<open>MsgHdr\<close> and \<open>Msg\<close> (\<open>msg.go\<close>).

  A Go \<open>RR\<close> is a pointer to one of 69 structs, each of which begins with a header; here it is a
  record of the header and the rest of the struct, a constructor \<open>RR_T\<close> for the struct \<open>T\<close> with
  the fields of the struct in their order.  The constructors are in three groups, in the order
  of the file, because a datatype of 69 constructors is slow to define.  A nil \<open>RR\<close> is not
  modelled: no code of the repository puts one into a message.
\<close>

section \<open>Constants\<close>

text \<open>Resource record types, classes, response codes and operation codes.\<close>

abbreviation (input) TypeNone :: uint16 where "TypeNone \<equiv> 0"
abbreviation (input) TypeA :: uint16 where "TypeA \<equiv> 1"
abbreviation (input) TypeNS :: uint16 where "TypeNS \<equiv> 2"
abbreviation (input) TypeMD :: uint16 where "TypeMD \<equiv> 3"
abbreviation (input) TypeMF :: uint16 where "TypeMF \<equiv> 4"
abbreviation (input) TypeCNAME :: uint16 where "TypeCNAME \<equiv> 5"
abbreviation (input) TypeSOA :: uint16 where "TypeSOA \<equiv> 6"
abbreviation (input) TypeMB :: uint16 where "TypeMB \<equiv> 7"
abbreviation (input) TypeMG :: uint16 where "TypeMG \<equiv> 8"
abbreviation (input) TypeMR :: uint16 where "TypeMR \<equiv> 9"
abbreviation (input) TypeNULL :: uint16 where "TypeNULL \<equiv> 10"
abbreviation (input) TypePTR :: uint16 where "TypePTR \<equiv> 12"
abbreviation (input) TypeHINFO :: uint16 where "TypeHINFO \<equiv> 13"
abbreviation (input) TypeMINFO :: uint16 where "TypeMINFO \<equiv> 14"
abbreviation (input) TypeMX :: uint16 where "TypeMX \<equiv> 15"
abbreviation (input) TypeTXT :: uint16 where "TypeTXT \<equiv> 16"
abbreviation (input) TypeRP :: uint16 where "TypeRP \<equiv> 17"
abbreviation (input) TypeAFSDB :: uint16 where "TypeAFSDB \<equiv> 18"
abbreviation (input) TypeX25 :: uint16 where "TypeX25 \<equiv> 19"
abbreviation (input) TypeISDN :: uint16 where "TypeISDN \<equiv> 20"
abbreviation (input) TypeRT :: uint16 where "TypeRT \<equiv> 21"
abbreviation (input) TypeNSAPPTR :: uint16 where "TypeNSAPPTR \<equiv> 23"
abbreviation (input) TypeSIG :: uint16 where "TypeSIG \<equiv> 24"
abbreviation (input) TypeKEY :: uint16 where "TypeKEY \<equiv> 25"
abbreviation (input) TypePX :: uint16 where "TypePX \<equiv> 26"
abbreviation (input) TypeGPOS :: uint16 where "TypeGPOS \<equiv> 27"
abbreviation (input) TypeAAAA :: uint16 where "TypeAAAA \<equiv> 28"
abbreviation (input) TypeLOC :: uint16 where "TypeLOC \<equiv> 29"
abbreviation (input) TypeNXT :: uint16 where "TypeNXT \<equiv> 30"
abbreviation (input) TypeEID :: uint16 where "TypeEID \<equiv> 31"
abbreviation (input) TypeNIMLOC :: uint16 where "TypeNIMLOC \<equiv> 32"
abbreviation (input) TypeSRV :: uint16 where "TypeSRV \<equiv> 33"
abbreviation (input) TypeATMA :: uint16 where "TypeATMA \<equiv> 34"
abbreviation (input) TypeNAPTR :: uint16 where "TypeNAPTR \<equiv> 35"
abbreviation (input) TypeKX :: uint16 where "TypeKX \<equiv> 36"
abbreviation (input) TypeCERT :: uint16 where "TypeCERT \<equiv> 37"
abbreviation (input) TypeDNAME :: uint16 where "TypeDNAME \<equiv> 39"
abbreviation (input) TypeOPT :: uint16 where "TypeOPT \<equiv> 41"
abbreviation (input) TypeDS :: uint16 where "TypeDS \<equiv> 43"
abbreviation (input) TypeSSHFP :: uint16 where "TypeSSHFP \<equiv> 44"
abbreviation (input) TypeRRSIG :: uint16 where "TypeRRSIG \<equiv> 46"
abbreviation (input) TypeNSEC :: uint16 where "TypeNSEC \<equiv> 47"
abbreviation (input) TypeDNSKEY :: uint16 where "TypeDNSKEY \<equiv> 48"
abbreviation (input) TypeDHCID :: uint16 where "TypeDHCID \<equiv> 49"
abbreviation (input) TypeNSEC3 :: uint16 where "TypeNSEC3 \<equiv> 50"
abbreviation (input) TypeNSEC3PARAM :: uint16 where "TypeNSEC3PARAM \<equiv> 51"
abbreviation (input) TypeTLSA :: uint16 where "TypeTLSA \<equiv> 52"
abbreviation (input) TypeSMIMEA :: uint16 where "TypeSMIMEA \<equiv> 53"
abbreviation (input) TypeHIP :: uint16 where "TypeHIP \<equiv> 55"
abbreviation (input) TypeNINFO :: uint16 where "TypeNINFO \<equiv> 56"
abbreviation (input) TypeRKEY :: uint16 where "TypeRKEY \<equiv> 57"
abbreviation (input) TypeTALINK :: uint16 where "TypeTALINK \<equiv> 58"
abbreviation (input) TypeCDS :: uint16 where "TypeCDS \<equiv> 59"
abbreviation (input) TypeCDNSKEY :: uint16 where "TypeCDNSKEY \<equiv> 60"
abbreviation (input) TypeOPENPGPKEY :: uint16 where "TypeOPENPGPKEY \<equiv> 61"
abbreviation (input) TypeSPF :: uint16 where "TypeSPF \<equiv> 99"
abbreviation (input) TypeUINFO :: uint16 where "TypeUINFO \<equiv> 100"
abbreviation (input) TypeUID :: uint16 where "TypeUID \<equiv> 101"
abbreviation (input) TypeGID :: uint16 where "TypeGID \<equiv> 102"
abbreviation (input) TypeUNSPEC :: uint16 where "TypeUNSPEC \<equiv> 103"
abbreviation (input) TypeNID :: uint16 where "TypeNID \<equiv> 104"
abbreviation (input) TypeL32 :: uint16 where "TypeL32 \<equiv> 105"
abbreviation (input) TypeL64 :: uint16 where "TypeL64 \<equiv> 106"
abbreviation (input) TypeLP :: uint16 where "TypeLP \<equiv> 107"
abbreviation (input) TypeEUI48 :: uint16 where "TypeEUI48 \<equiv> 108"
abbreviation (input) TypeEUI64 :: uint16 where "TypeEUI64 \<equiv> 109"
abbreviation (input) TypeURI :: uint16 where "TypeURI \<equiv> 256"
abbreviation (input) TypeCAA :: uint16 where "TypeCAA \<equiv> 257"
abbreviation (input) TypeAVC :: uint16 where "TypeAVC \<equiv> 258"
abbreviation (input) TypeTKEY :: uint16 where "TypeTKEY \<equiv> 249"
abbreviation (input) TypeTSIG :: uint16 where "TypeTSIG \<equiv> 250"
abbreviation (input) TypeIXFR :: uint16 where "TypeIXFR \<equiv> 251"
abbreviation (input) TypeAXFR :: uint16 where "TypeAXFR \<equiv> 252"
abbreviation (input) TypeMAILB :: uint16 where "TypeMAILB \<equiv> 253"
abbreviation (input) TypeMAILA :: uint16 where "TypeMAILA \<equiv> 254"
abbreviation (input) TypeANY :: uint16 where "TypeANY \<equiv> 255"
abbreviation (input) TypeTA :: uint16 where "TypeTA \<equiv> 32768"
abbreviation (input) TypeDLV :: uint16 where "TypeDLV \<equiv> 32769"
abbreviation (input) TypeReserved :: uint16 where "TypeReserved \<equiv> 65535"
abbreviation (input) ClassINET :: uint16 where "ClassINET \<equiv> 1"
abbreviation (input) ClassCSNET :: uint16 where "ClassCSNET \<equiv> 2"
abbreviation (input) ClassCHAOS :: uint16 where "ClassCHAOS \<equiv> 3"
abbreviation (input) ClassHESIOD :: uint16 where "ClassHESIOD \<equiv> 4"
abbreviation (input) ClassNONE :: uint16 where "ClassNONE \<equiv> 254"
abbreviation (input) ClassANY :: uint16 where "ClassANY \<equiv> 255"
abbreviation (input) RcodeSuccess :: int where "RcodeSuccess \<equiv> 0"
abbreviation (input) RcodeFormatError :: int where "RcodeFormatError \<equiv> 1"
abbreviation (input) RcodeServerFailure :: int where "RcodeServerFailure \<equiv> 2"
abbreviation (input) RcodeNameError :: int where "RcodeNameError \<equiv> 3"
abbreviation (input) RcodeNotImplemented :: int where "RcodeNotImplemented \<equiv> 4"
abbreviation (input) RcodeRefused :: int where "RcodeRefused \<equiv> 5"
abbreviation (input) RcodeYXDomain :: int where "RcodeYXDomain \<equiv> 6"
abbreviation (input) RcodeYXRrset :: int where "RcodeYXRrset \<equiv> 7"
abbreviation (input) RcodeNXRrset :: int where "RcodeNXRrset \<equiv> 8"
abbreviation (input) RcodeNotAuth :: int where "RcodeNotAuth \<equiv> 9"
abbreviation (input) RcodeNotZone :: int where "RcodeNotZone \<equiv> 10"
abbreviation (input) RcodeBadSig :: int where "RcodeBadSig \<equiv> 16"
abbreviation (input) RcodeBadVers :: int where "RcodeBadVers \<equiv> 16"
abbreviation (input) RcodeBadKey :: int where "RcodeBadKey \<equiv> 17"
abbreviation (input) RcodeBadTime :: int where "RcodeBadTime \<equiv> 18"
abbreviation (input) RcodeBadMode :: int where "RcodeBadMode \<equiv> 19"
abbreviation (input) RcodeBadName :: int where "RcodeBadName \<equiv> 20"
abbreviation (input) RcodeBadAlg :: int where "RcodeBadAlg \<equiv> 21"
abbreviation (input) RcodeBadTrunc :: int where "RcodeBadTrunc \<equiv> 22"
abbreviation (input) RcodeBadCookie :: int where "RcodeBadCookie \<equiv> 23"
abbreviation (input) OpcodeQuery :: int where "OpcodeQuery \<equiv> 0"
abbreviation (input) OpcodeIQuery :: int where "OpcodeIQuery \<equiv> 1"
abbreviation (input) OpcodeStatus :: int where "OpcodeStatus \<equiv> 2"
abbreviation (input) OpcodeNotify :: int where "OpcodeNotify \<equiv> 4"
abbreviation (input) OpcodeUpdate :: int where "OpcodeUpdate \<equiv> 5"

abbreviation (input) headerSize :: nat where "headerSize \<equiv> 12"
abbreviation (input) MinMsgSize :: nat where "MinMsgSize \<equiv> 512"
abbreviation (input) MaxMsgSize :: nat where "MaxMsgSize \<equiv> 65535"
abbreviation (input) DefaultMsgSize :: nat where "DefaultMsgSize \<equiv> 4096"

abbreviation (input) maxCompressionOffset :: nat where "maxCompressionOffset \<equiv> 16384"

abbreviation (input) maxDomainNameWireOctets :: nat where "maxDomainNameWireOctets \<equiv> 255"

text \<open>The bits of the header word.\<close>

abbreviation (input) bit_QR :: uint16 where "bit_QR \<equiv> 32768"
abbreviation (input) bit_AA :: uint16 where "bit_AA \<equiv> 1024"
abbreviation (input) bit_TC :: uint16 where "bit_TC \<equiv> 512"
abbreviation (input) bit_RD :: uint16 where "bit_RD \<equiv> 256"
abbreviation (input) bit_RA :: uint16 where "bit_RA \<equiv> 128"
abbreviation (input) bit_Z :: uint16 where "bit_Z \<equiv> 64"
abbreviation (input) bit_AD :: uint16 where "bit_AD \<equiv> 32"
abbreviation (input) bit_CD :: uint16 where "bit_CD \<equiv> 16"

section \<open>Resource records\<close>

record RR_Header =
  Name :: string
  Rrtype :: uint16
  Class :: uint16
  Ttl :: uint32
  Rdlength :: uint16

datatype (plugins only: code size) EDNS0 =
    EDNS0_NSID uint16 string
  | EDNS0_SUBNET uint16 uint16 byte byte IP bool
  | EDNS0_COOKIE uint16 string
  | EDNS0_UL uint16 uint32
  | EDNS0_LLQ uint16 uint16 uint16 uint16 uint64 uint32
  | EDNS0_DAU uint16 "byte list"
  | EDNS0_DHU uint16 "byte list"
  | EDNS0_N3U uint16 "byte list"
  | EDNS0_EXPIRE uint16 uint32
  | EDNS0_LOCAL uint16 "byte list"
  | EDNS0_TCP_KEEPALIVE uint16 uint16 uint16

datatype (plugins only: code size) std_rdata =
    RR_ANY
  | RR_CNAME string
  | RR_HINFO string string
  | RR_MB string
  | RR_MG string
  | RR_MINFO string string
  | RR_MR string
  | RR_MF string
  | RR_MD string
  | RR_MX uint16 string
  | RR_AFSDB uint16 string
  | RR_X25 string
  | RR_RT uint16 string
  | RR_NS string
  | RR_PTR string
  | RR_RP string string
  | RR_SOA string string uint32 uint32 uint32 uint32 uint32
  | RR_TXT "string list"
  | RR_SPF "string list"
  | RR_AVC "string list"
  | RR_SRV uint16 uint16 uint16 string
  | RR_NAPTR uint16 uint16 string string string string
  | RR_CERT uint16 uint16 byte string
  | RR_DNAME string
  | RR_A IP
  | RR_AAAA IP

datatype (plugins only: code size) sec_rdata =
    RR_PX uint16 string string
  | RR_GPOS string string string
  | RR_LOC byte byte byte byte uint32 uint32 uint32
  | RR_SIG uint16 byte byte uint32 uint32 uint32 uint16 string string
  | RR_RRSIG uint16 byte byte uint32 uint32 uint32 uint16 string string
  | RR_NSEC string "uint16 list"
  | RR_DLV uint16 byte byte string
  | RR_CDS uint16 byte byte string
  | RR_DS uint16 byte byte string
  | RR_KX uint16 string
  | RR_TA uint16 byte byte string
  | RR_TALINK string string
  | RR_SSHFP byte byte string
  | RR_KEY uint16 byte byte string
  | RR_CDNSKEY uint16 byte byte string
  | RR_DNSKEY uint16 byte byte string
  | RR_RKEY uint16 byte byte string
  | RR_NSAPPTR string
  | RR_NSEC3 byte byte uint16 byte string byte string "uint16 list"
  | RR_NSEC3PARAM byte byte uint16 byte string

datatype (plugins only: code size) ext_rdata =
    RR_TKEY string uint32 uint32 uint16 uint16 uint16 string uint16 string
  | RR_RFC3597 string
  | RR_URI uint16 uint16 string
  | RR_DHCID string
  | RR_TLSA byte byte byte string
  | RR_SMIMEA byte byte byte string
  | RR_HIP byte byte uint16 string string "string list"
  | RR_NINFO "string list"
  | RR_NID uint16 uint64
  | RR_L32 uint16 IP
  | RR_L64 uint16 uint64
  | RR_LP uint16 string
  | RR_EUI48 uint64
  | RR_EUI64 uint64
  | RR_CAA byte string string
  | RR_UID uint32
  | RR_GID uint32
  | RR_UINFO string
  | RR_EID string
  | RR_NIMLOC string
  | RR_OPENPGPKEY string
  | RR_OPT "EDNS0 list"
  | RR_TSIG string uint64 uint16 uint16 string uint16 uint16 uint16 string

datatype rdata = Std std_rdata | Sec sec_rdata | Ext ext_rdata

record RR =
  Hdr :: RR_Header
  Rdata :: rdata

section \<open>Messages\<close>

record Question =
  QName :: string
  Qtype :: uint16
  Qclass :: uint16

text \<open>\<open>MsgHdr\<close>, which \<open>Msg\<close> embeds.\<close>

record MsgHdr =
  MsgId :: uint16
  Response :: bool
  Opcode :: int
  Authoritative :: bool
  Truncated :: bool
  RecursionDesired :: bool
  RecursionAvailable :: bool
  Zero :: bool
  AuthenticatedData :: bool
  CheckingDisabled :: bool
  Rcode :: int

record Msg = MsgHdr +
  Compress :: bool
  Questions :: "Question list"
  Answer :: "RR list"
  Ns :: "RR list"
  Extra :: "RR list"

text \<open>\<open>new(Msg)\<close>: every field has its zero value.\<close>

definition new_Msg :: Msg where
  "new_Msg = \<lparr>MsgId = 0, Response = False, Opcode = 0, Authoritative = False, Truncated = False,
     RecursionDesired = False, RecursionAvailable = False, Zero = False, AuthenticatedData = False,
     CheckingDisabled = False, Rcode = 0, Compress = False, Questions = [], Answer = [], Ns = [],
     Extra = []\<rparr>"

section \<open>Replies\<close>

text \<open>\<open>SetReply\<close>, \<open>SetRcode\<close> and \<open>SetRcodeFormatError\<close> of \<open>defaults.go\<close>.\<close>

definition SetReply :: "Msg \<Rightarrow> Msg \<Rightarrow> Msg" where
  "SetReply dns request =
     (let dns = dns\<lparr>MsgId := MsgId request, RecursionDesired := RecursionDesired request,
                    Response := True, Opcode := OpcodeQuery, Rcode := RcodeSuccess\<rparr>
      in if length (Questions request) > 0 then dns\<lparr>Questions := [Questions request ! 0]\<rparr> else dns)"

definition SetRcode :: "Msg \<Rightarrow> Msg \<Rightarrow> int \<Rightarrow> Msg" where
  "SetRcode dns request rcode = (SetReply dns request)\<lparr>Rcode := rcode\<rparr>"

definition SetRcodeFormatError :: "Msg \<Rightarrow> Msg \<Rightarrow> Msg" where
  "SetRcodeFormatError dns request =
     dns\<lparr>Rcode := RcodeFormatError, Opcode := OpcodeQuery, Response := True,
         Authoritative := False, MsgId := MsgId request\<rparr>"

end
