(* ===== verification/Gyip_Frame.thy ===== *)
theory Gyip_Frame
  imports Gyip_ParseIPs Dns_Types
begin

text \<open>
  From a question to a reply: \<open>frameResponse\<close>, \<open>respondToQuestion\<close>, \<open>handleQuestions\<close> of
  \<open>src/gyip.go\<close> and the handler \<open>main\<close> registers for every other domain.

  What the code reads from its environment is an argument: the served domains, the \<open>compress\<close>
  flag, the address of the client (\<open>RemoteAddr\<close>) and the raw draws of the random number
  generator, one for each question.  A handler returns the message it hands to \<open>WriteMsg\<close>, whose
  result the code ignores; the log line is not modelled.
\<close>

section \<open>The model\<close>

text \<open>The record the loop creates for an address; \<open>ipV4\<close> and \<open>ipV6\<close> keep the values of the
  previous address when the address is nil.\<close>

definition A_record :: "string \<Rightarrow> uint32 \<Rightarrow> IP \<Rightarrow> RR" where
  "A_record name ttl ip =
     \<lparr>Hdr = \<lparr>Name = name, Rrtype = TypeA, Class = ClassINET, Ttl = ttl, Rdlength = 0\<rparr>,
      Rdata = Std (RR_A ip)\<rparr>"

definition AAAA_record :: "string \<Rightarrow> uint32 \<Rightarrow> IP \<Rightarrow> RR" where
  "AAAA_record name ttl ip =
     \<lparr>Hdr = \<lparr>Name = name, Rrtype = TypeAAAA, Class = ClassINET, Ttl = ttl, Rdlength = 0\<rparr>,
      Rdata = Std (RR_AAAA ip)\<rparr>"

fun frame_records :: "uint16 \<Rightarrow> string \<Rightarrow> uint32 \<Rightarrow> IP option \<Rightarrow> IP option \<Rightarrow> IP option list \<Rightarrow> RR list" where
  "frame_records questionType questionName ttl ipV4 ipV6 [] = []"
| "frame_records questionType questionName ttl ipV4 ipV6 (ip # ips) =
     (let ipV4 = (case ip of Some ip \<Rightarrow> To4 ip | None \<Rightarrow> ipV4);
          ipV6 = (case ip of Some ip \<Rightarrow> To16 ip | None \<Rightarrow> ipV6)
      in (if questionType = TypeA
          then (case ipV4 of Some v4 \<Rightarrow> [A_record questionName ttl v4] | None \<Rightarrow> []) else []) @
         (if questionType = TypeAAAA
          then (case ipV6 of Some v6 \<Rightarrow> [AAAA_record questionName ttl v6] | None \<Rightarrow> []) else []) @
         frame_records questionType questionName ttl ipV4 ipV6 ips)"

text \<open>The command in the last label of the remainder, if any, and the rest.\<close>

definition find_command :: "string \<Rightarrow> (Command \<times> string) outcome" where
  "find_command remainder =
     (let lastDotIndex = LastIndex remainder ''.''
      in if lastDotIndex > -1 then
           obind (go_slice remainder (lastDotIndex + 1) (int (length remainder))) (\<lambda>label.
           let cmd = New (ToUpper label)
           in if Command_Type cmd \<noteq> NOOP then
                obind (go_slice remainder 0 lastDotIndex) (\<lambda>rest. Ok (cmd, rest))
              else Ok (cmd, remainder))
         else Ok (Noop, remainder))"

definition frameResponse :: "IP option \<Rightarrow> uint16 \<Rightarrow> string \<Rightarrow> string \<Rightarrow> nat \<Rightarrow> RR list outcome" where
  "frameResponse ip questionType questionName currentQuestionDomain draw =
     (if questionName = '''' \<or> LastIndex questionName currentQuestionDomain < 0 then Ok []
      else
        obind (go_slice questionName 0
                 (int (length questionName) - int (length currentQuestionDomain) - 1)) (\<lambda>remainder.
        if ToLower remainder = ''echo'' \<or> ToLower remainder = ''reflect'' then
          Ok (frame_records questionType questionName 0 None None [ip])
        else
          obind (find_command remainder) (\<lambda>(cmd, remainder).
          obind (parseIPs remainder) (\<lambda>ips.
          if length ips < 1 then Ok []
          else
            obind (Execute cmd draw ips) (\<lambda>(ips, ttl).
            Ok (frame_records questionType questionName ttl None None (map Some ips)))))))"

text \<open>The concrete types of \<open>net.Addr\<close> the code tells apart.\<close>

datatype Addr = UDPAddr "IP option" | TCPAddr "IP option" | OtherAddr

definition remote_ip :: "Addr \<Rightarrow> IP option" where
  "remote_ip addr = (case addr of UDPAddr ip \<Rightarrow> ip | TCPAddr ip \<Rightarrow> ip | OtherAddr \<Rightarrow> None)"

fun find_domain :: "string list \<Rightarrow> string \<Rightarrow> string" where
  "find_domain [] questionName = ''''"
| "find_domain (servedDomain # rest) questionName =
     (if HasSuffix questionName servedDomain then servedDomain else find_domain rest questionName)"

definition respondToQuestion :: "string list \<Rightarrow> Addr \<Rightarrow> Msg \<Rightarrow> Question \<Rightarrow> nat \<Rightarrow> Msg outcome" where
  "respondToQuestion servingDomains addr message q draw =
     (let questionName = QName q;
          currentQuestionDomain = find_domain servingDomains questionName
      in obind (frameResponse (remote_ip addr) (Qtype q) questionName currentQuestionDomain draw)
           (\<lambda>response. Ok (message\<lparr>Answer := Answer message @ response\<rparr>)))"

fun handle_each :: "string list \<Rightarrow> Addr \<Rightarrow> (nat \<Rightarrow> nat) \<Rightarrow> nat \<Rightarrow> Question list \<Rightarrow> Msg \<Rightarrow> Msg outcome" where
  "handle_each servingDomains addr draws k [] m = Ok m"
| "handle_each servingDomains addr draws k (q # qs) m =
     (if Qtype q = TypeA \<or> Qtype q = TypeAAAA then
        obind (respondToQuestion servingDomains addr m q (draws k))
          (\<lambda>m. handle_each servingDomains addr draws (k + 1) qs m)
      else handle_each servingDomains addr draws (k + 1) qs m)"

definition handleQuestions :: "string list \<Rightarrow> bool \<Rightarrow> (nat \<Rightarrow> nat) \<Rightarrow> Addr \<Rightarrow> Msg \<Rightarrow> Msg outcome" where
  "handleQuestions servingDomains compress draws addr r =
     (let m = (SetReply new_Msg r)\<lparr>Compress := compress, Authoritative := True\<rparr>
      in obind (handle_each servingDomains addr draws 0 (Questions m) m) (\<lambda>m.
         Ok (if length (Answer m) < 1 then m\<lparr>Rcode := RcodeNameError\<rparr> else m)))"

definition notzone_handler :: "bool \<Rightarrow> Msg \<Rightarrow> Msg" where
  "notzone_handler compress r = (SetReply new_Msg r)\<lparr>Compress := compress, Rcode := RcodeNotZone\<rparr>"

section \<open>Records\<close>

text \<open>The answer section the addresses stand for.\<close>

definition address_records :: "uint16 \<Rightarrow> string \<Rightarrow> uint32 \<Rightarrow> IP list \<Rightarrow> RR list" where
  "address_records qtype name ttl ips =
     (if qtype = TypeA then concat (map (\<lambda>ip. case To4 ip of Some p \<Rightarrow> [A_record name ttl p] | None \<Rightarrow> []) ips)
      else if qtype = TypeAAAA then concat (map (\<lambda>ip. case To16 ip of Some p \<Rightarrow> [AAAA_record name ttl p] | None \<Rightarrow> []) ips)
      else [])"

lemma frame_records_addresses:
  "frame_records qt name ttl v4 v6 (map Some ips) = address_records qt name ttl ips"
  by (induction ips arbitrary: v4 v6) (auto simp: address_records_def Let_def split: option.splits)

lemma To16_16: "length ip = 16 \<Longrightarrow> To16 ip = Some ip"
  by (rule To16_To4)

lemma AAAA_all:
  "list_all (\<lambda>ip. length ip = 16) ips \<Longrightarrow>
   address_records TypeAAAA name ttl ips = map (AAAA_record name ttl) ips"
  by (induction ips) (simp_all add: address_records_def To16_16)


lemma address_records_Nil [simp]: "address_records qt name ttl [] = []"
  by (simp add: address_records_def)

section \<open>Remainder and command\<close>

lemma ToLower_dot: "CHR ''.'' \<in> set s \<Longrightarrow> ToLower s \<noteq> ''echo'' \<and> ToLower s \<noteq> ''reflect''"
proof -
  assume "CHR ''.'' \<in> set s"
  then have "lower_char CHR ''.'' \<in> set (ToLower s)" by (simp add: ToLower_def)
  moreover have "lower_char CHR ''.'' = CHR ''.''" by code_simp
  ultimately have "CHR ''.'' \<in> set (ToLower s)" by simp
  then show ?thesis by auto
qed

lemma find_command_none: "CHR ''.'' \<notin> set s \<Longrightarrow> find_command s = Ok (Noop, s)"
  by (simp add: find_command_def)

lemma find_command_label:
  assumes "CHR ''.'' \<notin> set w"
  shows "find_command (p @ CHR ''.'' # w) =
           (if Command_Type (New (ToUpper w)) = NOOP
            then Ok (New (ToUpper w), p @ CHR ''.'' # w) else Ok (New (ToUpper w), p))"
proof -
  have "go_slice (p @ CHR ''.'' # w) (int (length p) + 1) (int (length (p @ CHR ''.'' # w))) = Ok w"
    by (simp add: go_slice_def nat_add_distrib)
  moreover have "go_slice (p @ CHR ''.'' # w) 0 (int (length p)) = Ok p"
    by (simp add: go_slice_def)
  ultimately show ?thesis using LastIndex_found [OF assms, of p]
    by (simp add: find_command_def Let_def)
qed

lemma frameResponse_remainder:
  "frameResponse ip qt (remainder @ CHR ''.'' # zone) zone draw =
     (if ToLower remainder = ''echo'' \<or> ToLower remainder = ''reflect'' then
        Ok (frame_records qt (remainder @ CHR ''.'' # zone) 0 None None [ip])
      else
        obind (find_command remainder) (\<lambda>(cmd, rest).
        obind (parseIPs rest) (\<lambda>ips.
        if length ips < 1 then Ok []
        else obind (Execute cmd draw ips) (\<lambda>(out, ttl).
          Ok (address_records qt (remainder @ CHR ''.'' # zone) ttl out)))))"
proof -
  have "0 \<le> LastIndex (remainder @ CHR ''.'' # zone) zone"
    using LastIndex_suffix [of "remainder @ ''.''" zone] by simp
  moreover have "go_slice (remainder @ CHR ''.'' # zone) 0
      (int (length (remainder @ CHR ''.'' # zone)) - int (length zone) - 1) = Ok remainder"
    by (simp add: go_slice_def)
  ultimately show ?thesis unfolding frameResponse_def frame_records_addresses by simp
qed

section \<open>Requests\<close>

text \<open>A request is a query of items and, optionally, the label of a command behind it.\<close>

definition command_of :: "string option \<Rightarrow> Command" where
  "command_of c = (case c of None \<Rightarrow> Noop | Some w \<Rightarrow> New (ToUpper w))"

definition request :: "item list \<Rightarrow> string option \<Rightarrow> string" where
  "request its c = query its @ (case c of None \<Rightarrow> [] | Some w \<Rightarrow> CHR ''.'' # w)"

fun plain_item :: "item \<Rightarrow> bool" where
  "plain_item (Addr ip) \<longleftrightarrow> True"
| "plain_item (Word h) \<longleftrightarrow> Command_Type (New (ToUpper h)) = NOOP"

definition valid_request :: "item list \<Rightarrow> string option \<Rightarrow> bool" where
  "valid_request its c \<longleftrightarrow>
     its \<noteq> [] \<and> list_all valid_item its \<and>
     (case c of
        None \<Rightarrow> plain_item (last its) \<and> ToLower (query its) \<noteq> ''echo'' \<and> ToLower (query its) \<noteq> ''reflect''
      | Some w \<Rightarrow> CHR ''.'' \<notin> set w \<and> Command_Type (New (ToUpper w)) \<noteq> NOOP)"

lemma Command_Type_NOOP: "Command_Type c = NOOP \<longleftrightarrow> c = Noop"
  by (cases c) auto

lemma ParseInt10_chars: "ParseInt10 d b = Some p \<Longrightarrow> c \<in> set d \<Longrightarrow> is_digit c \<or> c = CHR ''+'' \<or> c = CHR ''-''"
  by (cases d) (auto simp: ParseInt10_def list_all_iff Let_def split: if_splits)

lemma New_colon:
  assumes "CHR '':'' \<in> set w"
  shows "New w = Noop"
proof -
  have "upper_char CHR '':'' \<in> set (ToUpper w)" using assms by (simp add: ToUpper_def)
  moreover have up: "upper_char CHR '':'' = CHR '':''" by code_simp
  ultimately have colon: "CHR '':'' \<in> set (ToUpper w)" by simp
  have "New w \<noteq> Fail p" for p
  proof
    assume "New w = Fail p"
    then obtain d where d: "ToUpper w = CHR ''F'' # d" "ParseInt10 d 32 = Some p"
      by (auto simp: New_Fail_iff)
    then have "CHR '':'' \<in> set d" using colon by simp
    from ParseInt10_chars [OF d(2) this] show False by simp
  qed
  moreover have "New w \<noteq> RoundRobin" using colon by (auto simp: New_RoundRobin_iff)
  ultimately show ?thesis by (cases "New w") auto
qed

lemma New_digits:
  assumes "list_all is_digit w"
  shows "New w = Noop"
proof -
  have "\<not> is_digit CHR ''F''" "\<not> is_digit CHR ''R''" by code_simp+
  moreover have "ToUpper w = w" using assms by (rule ToUpper_digits)
  ultimately have "New w \<noteq> Fail p" "New w \<noteq> RoundRobin" for p
    using assms by (auto simp: New_Fail_iff New_RoundRobin_iff)
  then show ?thesis by (cases "New w") auto
qed

lemma ToUpper_colon: "CHR '':'' \<in> set w \<Longrightarrow> CHR '':'' \<in> set (ToUpper w)"
proof -
  assume "CHR '':'' \<in> set w"
  then have "upper_char CHR '':'' \<in> set (ToUpper w)" by (simp add: ToUpper_def)
  moreover have "upper_char CHR '':'' = CHR '':''" by code_simp
  ultimately show ?thesis by simp
qed

text \<open>The last label of a printed address is never a command.\<close>

lemma address_last_label:
  assumes "length ip = 16"
  shows "New (ToUpper (last (item_labels (Addr ip)))) = Noop"
proof (cases "To4 ip")
  case None
  have "CHR '':'' \<in> set (IP_String6 ip)"
  proof (rule ccontr)
    assume "CHR '':'' \<notin> set (IP_String6 ip)"
    then have "ParseIP (IP_String6 ip) = None"
      using ParseIP_no_sep IP_String6_no_dot by blast
    then show False using ParseIP_String6 [OF assms] by simp
  qed
  then show ?thesis using None assms by (simp add: item_labels_v6 New_colon ToUpper_colon)
next
  case (Some p)
  then have "p \<noteq> []" using To4_SomeD by fastforce
  then have "last (item_labels (Addr ip)) = Itoa (unat (last p))"
    using Some by (simp add: item_labels_v4 last_map)
  then show ?thesis using Itoa_digits by (simp add: ToUpper_digits New_digits)
qed

lemma item_labels_ne [simp]: "item_labels it \<noteq> []"
  by (simp add: item_labels_def)

lemma labels_last: "labels ws \<Longrightarrow> ws \<noteq> [] \<Longrightarrow> CHR ''.'' \<notin> set (last ws)"
  by (cases ws rule: rev_cases) auto

lemma query_no_command:
  assumes "its \<noteq> []" "list_all valid_item its" "plain_item (last its)"
  shows "find_command (query its) = Ok (Noop, query its)"
proof -
  let ?ws = "concat (map item_labels its)"
  have ws: "?ws \<noteq> []" "last ?ws = last (item_labels (last its))"
    using assms(1) by (cases its rule: rev_cases; simp)+
  have last: "New (ToUpper (last ?ws)) = Noop"
  proof (cases "last its")
    case (Addr ip)
    have "last its \<in> set its" using assms(1) by simp
    with assms(2) Addr have "length ip = 16" by (auto simp: list_all_iff)
    then show ?thesis unfolding ws(2) Addr by (rule address_last_label)
  next
    case (Word h)
    have "last its \<in> set its" using assms(1) by simp
    with assms(2) Word have "word_label h" by (fastforce simp: list_all_iff)
    then show ?thesis using assms(3) Word by (simp add: ws(2) item_labels_word Command_Type_NOOP)
  qed
  have labels: "labels ?ws"
    using assms(2) by (induction its) (auto simp: labels_item simp del: valid_item.simps)
  show ?thesis
  proof (cases "butlast ?ws = []")
    case True
    then have "?ws = [last ?ws]" using append_butlast_last_id [OF ws(1)] by simp
    then have "join_with CHR ''.'' ?ws = last ?ws" by (metis join_with.simps(2))
    then have "query its = last ?ws" unfolding query_labels .
    moreover have "CHR ''.'' \<notin> set (last ?ws)"
      using labels ws(1) by (rule labels_last)
    ultimately show ?thesis using find_command_none [of "last ?ws"] by simp
  next
    case False
    have "query its = join_with CHR ''.'' (butlast ?ws) @ CHR ''.'' # last ?ws"
      using join_with_snoc [OF False, of "CHR ''.''" "last ?ws"] append_butlast_last_id [OF ws(1)]
      unfolding query_labels by simp
    moreover have "CHR ''.'' \<notin> set (last ?ws)"
      using labels ws(1) by (rule labels_last)
    ultimately show ?thesis
      using last find_command_label [of "last ?ws" "join_with CHR ''.'' (butlast ?ws)"] by simp
  qed
qed

lemma request_command:
  assumes "valid_request its c"
  shows "find_command (request its c) = Ok (command_of c, query its)"
  using assms query_no_command [of its] find_command_label [of "the c" "query its"]
  by (auto simp: valid_request_def request_def command_of_def split: option.splits)

lemma request_not_echo: "valid_request its c \<Longrightarrow>
   ToLower (request its c) \<noteq> ''echo'' \<and> ToLower (request its c) \<noteq> ''reflect''"
  using ToLower_dot [of "request its c"]
  by (auto simp: valid_request_def request_def split: option.splits)

lemma frameResponse_request:
  assumes "valid_request its c"
  shows "frameResponse ip qt (request its c @ CHR ''.'' # zone) zone draw =
    obind (scan_result its) (\<lambda>ips.
      if ips = [] then Ok []
      else obind (Execute (command_of c) draw ips) (\<lambda>(out, ttl).
        Ok (address_records qt (request its c @ CHR ''.'' # zone) ttl out)))"
proof -
  have "list_all valid_item its" using assms by (simp add: valid_request_def)
  then show ?thesis
    using frameResponse_remainder [of ip qt "request its c" zone draw]
      request_command [OF assms] request_not_echo [OF assms] parseIPs_items
    by (simp add: Suc_le_eq not_less_eq_eq)
qed

section \<open>The reply\<close>

text \<open>The reply \<open>handleQuestions\<close> sends with the answers \<open>rrs\<close>.\<close>

definition reply_with :: "bool \<Rightarrow> Msg \<Rightarrow> RR list \<Rightarrow> Msg" where
  "reply_with compress r rrs =
     \<lparr>MsgId = MsgId r, Response = True, Opcode = OpcodeQuery, Authoritative = True, Truncated = False,
      RecursionDesired = RecursionDesired r, RecursionAvailable = False, Zero = False,
      AuthenticatedData = False, CheckingDisabled = False,
      Rcode = (if rrs = [] then RcodeNameError else RcodeSuccess), Compress = compress,
      Questions = take 1 (Questions r), Answer = rrs, Ns = [], Extra = []\<rparr>"

definition address_type :: "uint16 \<Rightarrow> bool" where
  "address_type t \<longleftrightarrow> t = TypeA \<or> t = TypeAAAA"

lemma handleQuestions_none:
  "Questions r = [] \<Longrightarrow> handleQuestions doms compress draws addr r = Ok (reply_with compress r [])"
  by (simp add: handleQuestions_def SetReply_def new_Msg_def reply_with_def)

lemma handleQuestions_first:
  assumes "Questions r = q # qs"
  shows "handleQuestions doms compress draws addr r =
    (if address_type (Qtype q) then
       obind (frameResponse (remote_ip addr) (Qtype q) (QName q) (find_domain doms (QName q)) (draws 0))
         (\<lambda>rrs. Ok (reply_with compress r rrs))
     else Ok (reply_with compress r []))"
  using assms
  by (auto simp: handleQuestions_def SetReply_def new_Msg_def reply_with_def address_type_def
      respondToQuestion_def Let_def obind_assoc Suc_le_eq not_less_eq_eq intro!: obind_cong)

lemma To4_length: "To4 ip = Some p \<Longrightarrow> length p = 4"
  using To4_SomeD by blast

lemma address_records_shape:
  assumes "rr \<in> set (address_records qt name ttl ips)"
  shows "Hdr rr = \<lparr>Name = name, Rrtype = qt, Class = ClassINET, Ttl = ttl, Rdlength = 0\<rparr> \<and>
    ((qt = TypeA \<and> (\<exists>p. length p = 4 \<and> Rdata rr = Std (RR_A p))) \<or>
     (qt = TypeAAAA \<and> (\<exists>p. length p = 16 \<and> Rdata rr = Std (RR_AAAA p))))"
  using assms
  by (auto simp: address_records_def A_record_def AAAA_record_def To16_def v4InV6Prefix_def
      dest: To4_length [OF sym] split: if_splits option.splits)

lemma echo_records: "frame_records qt name ttl None None [ip] =
    (case ip of None \<Rightarrow> [] | Some ip \<Rightarrow> address_records qt name ttl [ip])"
  by (auto simp: address_records_def split: option.splits)

lemma Execute_ttl:
  "Execute c r ips = Ok (out, ttl) \<Longrightarrow> ttl = defaultTTL \<or> ttl = defaultShortTTL"
  by (cases c) (auto simp: Noop_Execute_def RoundRobin_Execute_def Fail_Execute_def split: if_splits)

lemma frameResponse_cases:
  assumes "frameResponse ip qt name zone draw = Ok rrs"
  shows "rrs = [] \<or> rrs = frame_records qt name 0 None None [ip] \<or>
    (\<exists>cmd ips out ttl. Execute cmd draw ips = Ok (out, ttl) \<and> rrs = address_records qt name ttl out)"
proof (cases "name = [] \<or> LastIndex name zone < 0")
  case True
  then show ?thesis using assms by (simp add: frameResponse_def)
next
  case False
  with assms obtain s where s: "(if ToLower s = ''echo'' \<or> ToLower s = ''reflect'' then
      Ok (frame_records qt name 0 None None [ip])
    else obind (find_command s) (\<lambda>(cmd, rest). obind (parseIPs rest) (\<lambda>ips.
      if length ips < 1 then Ok [] else obind (Execute cmd draw ips) (\<lambda>(ips, ttl).
        Ok (address_records qt name ttl ips))))) = Ok rrs"
    unfolding frameResponse_def frame_records_addresses if_not_P [OF False] obind_eq_Ok by blast
  show ?thesis
  proof (cases "ToLower s = ''echo'' \<or> ToLower s = ''reflect''")
    case False
    with s obtain cmd rest ips where "(if length ips < 1 then Ok []
        else obind (Execute cmd draw ips) (\<lambda>(ips, ttl). Ok (address_records qt name ttl ips))) = Ok rrs"
      by (simp only: if_False obind_eq_Ok split_paired_Ex prod.case) blast
    then show ?thesis by (cases "length ips < 1") auto
  qed (use s in simp)
qed

lemma frameResponse_shape:
  assumes "frameResponse ip qt name zone draw = Ok rrs"
  shows "rrs = [] \<or> (\<exists>ttl ips. ttl \<in> {0, defaultTTL, defaultShortTTL} \<and>
    rrs = address_records qt name ttl ips)"
  using frameResponse_cases [OF assms]
proof (elim disjE exE conjE)
  assume "rrs = frame_records qt name 0 None None [ip]"
  then show ?thesis unfolding echo_records by (cases ip) auto
next
  fix cmd ips out ttl
  assume e: "Execute cmd draw ips = Ok (out, ttl)" and rrs: "rrs = address_records qt name ttl out"
  have "ttl \<in> {0, defaultTTL, defaultShortTTL}" using Execute_ttl [OF e] by simp
  with rrs show ?thesis by (intro disjI2 exI conjI)
qed simp

lemma handleQuestions_other:
  "handleQuestions doms compress draws addr r = Ok m \<Longrightarrow>
   \<exists>rrs. m = reply_with compress r rrs \<and>
     (\<forall>rr \<in> set rrs. \<exists>q qs ttl ips. Questions r = q # qs \<and> address_type (Qtype q) \<and>
       ttl \<in> {0, defaultTTL, defaultShortTTL} \<and>
       rr \<in> set (address_records (Qtype q) (QName q) ttl ips))"
proof (cases "Questions r")
  case (Cons q qs)
  assume "handleQuestions doms compress draws addr r = Ok m"
  with Cons show ?thesis
    by (fastforce simp: handleQuestions_first split: if_splits dest: frameResponse_shape)
qed (auto simp: handleQuestions_none)

section \<open>Safety\<close>

text \<open>A domain followed by nothing: the query for the served domain itself.\<close>

lemma frameResponse_apex:
  "zone \<noteq> '''' \<Longrightarrow> frameResponse ip qt zone zone draw = Panic SliceBoundsOutOfRange"
  using LastIndex_suffix [of "[]" zone] by (simp add: frameResponse_def go_slice_neg)

lemma Execute_ok: "\<exists>out ttl. Execute c draw ips = Ok (out, ttl)"
  using cmd.total by blast

text \<open>The labels of a name that \<open>parseIPs\<close> cannot panic on.\<close>

definition safe_labels :: "string list \<Rightarrow> bool" where
  "safe_labels ws \<longleftrightarrow> labels ws \<and> ws \<noteq> [] \<and> 2 \<le> length (hd ws) \<and> CHR '':'' \<notin> set (hd ws)"

lemma parseIPs_labels_ok:
  assumes "safe_labels ws"
  shows "\<exists>ips. parseIPs (join_with CHR ''.'' ws) = Ok ips"
proof -
  have "last (rev ws) = hd ws" using assms by (simp add: safe_labels_def last_rev)
  then have "\<exists>ips. scan_labels ParseIP (rev ws) = Ok ips"
    using assms by (intro scan_labels_ok) (auto simp: safe_labels_def)
  then show ?thesis using parseIPs_scan [of ws] assms by (auto simp: safe_labels_def)
qed

lemma safe_butlast: "safe_labels ws \<Longrightarrow> length ws \<noteq> 1 \<Longrightarrow> safe_labels (butlast ws)"
  by (cases ws rule: rev_cases) (auto simp: safe_labels_def hd_append)

lemma find_command_labels:
  assumes "safe_labels ws"
  obtains cmd ws' where "find_command (join_with CHR ''.'' ws) = Ok (cmd, join_with CHR ''.'' ws')"
    "safe_labels ws'"
proof (cases ws rule: rev_cases)
  case Nil
  then show ?thesis using assms by (simp add: safe_labels_def)
next
  case (snoc vs w)
  have w: "CHR ''.'' \<notin> set w" using assms snoc by (simp add: safe_labels_def)
  show ?thesis
  proof (cases "vs = []")
    case True
    then show ?thesis using that [of Noop ws] find_command_none [OF w] snoc assms by simp
  next
    case False
    have "safe_labels vs" using safe_butlast [OF assms] snoc False by simp
    then show ?thesis
      using that [of "New (ToUpper w)" ws] that [of "New (ToUpper w)" vs] assms snoc
        find_command_label [OF w, of "join_with CHR ''.'' vs"]
        join_with_snoc [OF False, of "CHR ''.''" w]
      by (cases "Command_Type (New (ToUpper w)) = NOOP") auto
  qed
qed

lemma frameResponse_ok:
  assumes "safe_labels ws"
  shows "\<exists>rrs. frameResponse ip qt (join_with CHR ''.'' ws @ CHR ''.'' # zone) zone draw = Ok rrs"
proof -
  obtain cmd ws' where c: "find_command (join_with CHR ''.'' ws) = Ok (cmd, join_with CHR ''.'' ws')"
    "safe_labels ws'" by (rule find_command_labels [OF assms])
  obtain ips where p: "parseIPs (join_with CHR ''.'' ws') = Ok ips"
    using parseIPs_labels_ok [OF c(2)] by blast
  obtain out ttl where "Execute cmd draw ips = Ok (out, ttl)" using Execute_ok by blast
  then show ?thesis
    using frameResponse_remainder [of ip qt "join_with CHR ''.'' ws" zone draw] c p
    by (cases "ToLower (join_with CHR ''.'' ws) = ''echo'' \<or> ToLower (join_with CHR ''.'' ws) = ''reflect''";
        cases "ips = []") auto
qed

section \<open>Properties\<close>

text \<open>C8: A query of addresses is answered with those addresses.  When the first question asks for
  A or AAAA records of a request (words and printed addresses, then possibly a command label)
  below a served domain, the reply carries, under the name of the question, one A record for
  each IPv4 address (for AAAA: one AAAA record for each address, IPv4-mapped ones included) among
  those the command keeps, in the order of the query, with the time to live the command sets;
  with no address it is a name error.\<close>

theorem handleQuestions_request:
  assumes "valid_request its c" "Questions r = q # qs" "address_type (Qtype q)"
    and "QName q = request its c @ CHR ''.'' # zone" "find_domain doms (QName q) = zone"
  shows "handleQuestions doms compress draws addr r =
    obind (scan_result its) (\<lambda>ips.
      if ips = [] then Ok (reply_with compress r [])
      else obind (Execute (command_of c) (draws 0) ips) (\<lambda>(out, ttl).
        Ok (reply_with compress r (address_records (Qtype q) (QName q) ttl out))))"
  using handleQuestions_first [OF assms(2), of doms compress draws addr] assms(3-)
    frameResponse_request [OF assms(1), of "remote_ip addr" "Qtype q" zone "draws 0"]
  by (auto simp: obind_assoc intro!: obind_cong split: prod.splits)

theorem handleQuestions_request_witness:
  "handleQuestions [''gyip.io.''] False (\<lambda>_. 0) OtherAddr
     (new_Msg\<lparr>Questions := [\<lparr>QName = ''10.0.0.1.f0.gyip.io.'', Qtype = TypeA, Qclass = ClassINET\<rparr>]\<rparr>) =
   Ok (reply_with False
     (new_Msg\<lparr>Questions := [\<lparr>QName = ''10.0.0.1.f0.gyip.io.'', Qtype = TypeA, Qclass = ClassINET\<rparr>]\<rparr>)
     [A_record ''10.0.0.1.f0.gyip.io.'' defaultTTL [10, 0, 0, 1]])"
proof -
  let ?its = "[Addr (v4InV6Prefix @ [10, 0, 0, 1])]"
  let ?q = "\<lparr>QName = ''10.0.0.1.f0.gyip.io.'', Qtype = TypeA, Qclass = ClassINET\<rparr>"
  have "valid_request ?its (Some ''f0'')" by code_simp
  moreover have "Questions (new_Msg\<lparr>Questions := [?q]\<rparr>) = [?q]" by simp
  moreover have "address_type (Qtype ?q)" by code_simp
  moreover have "QName ?q = request ?its (Some ''f0'') @ CHR ''.'' # ''gyip.io.''" by code_simp
  moreover have "find_domain [''gyip.io.''] (QName ?q) = ''gyip.io.''" by code_simp
  ultimately have "handleQuestions [''gyip.io.''] False (\<lambda>_. 0) OtherAddr (new_Msg\<lparr>Questions := [?q]\<rparr>) =
    obind (scan_result ?its) (\<lambda>ips.
      if ips = [] then Ok (reply_with False (new_Msg\<lparr>Questions := [?q]\<rparr>) [])
      else obind (Execute (command_of (Some ''f0'')) 0 ips) (\<lambda>(out, ttl).
        Ok (reply_with False (new_Msg\<lparr>Questions := [?q]\<rparr>)
          (address_records (Qtype ?q) (QName ?q) ttl out))))"
    by (rule handleQuestions_request)
  also have "\<dots> = Ok (reply_with False (new_Msg\<lparr>Questions := [?q]\<rparr>)
     [A_record ''10.0.0.1.f0.gyip.io.'' defaultTTL [10, 0, 0, 1]])"
    by code_simp
  finally show ?thesis .
qed

text \<open>C15: The echo and reflect queries (in any case) are answered with the address of the client
  and the time to live 0: an A record when it is an IPv4 address and A was asked for, an AAAA
  record for AAAA; with no address known the reply is a name error.\<close>

theorem handleQuestions_echo:
  assumes "ToLower w = ''echo'' \<or> ToLower w = ''reflect''" "Questions r = q # qs"
    and "address_type (Qtype q)" "QName q = w @ CHR ''.'' # zone" "find_domain doms (QName q) = zone"
  shows "handleQuestions doms compress draws addr r =
    Ok (reply_with compress r (case remote_ip addr of None \<Rightarrow> []
          | Some ip \<Rightarrow> address_records (Qtype q) (QName q) 0 [ip]))"
  using handleQuestions_first [OF assms(2), of doms compress draws addr] assms
    frameResponse_remainder [of "remote_ip addr" "Qtype q" w zone "draws 0"]
  unfolding echo_records assms(4) by simp

theorem handleQuestions_echo_witness:
  "handleQuestions [''gyip.io.''] False (\<lambda>_. 0) (UDPAddr (Some [127, 0, 0, 1]))
     (new_Msg\<lparr>Questions := [\<lparr>QName = ''Echo.gyip.io.'', Qtype = TypeA, Qclass = ClassINET\<rparr>]\<rparr>) =
   Ok (reply_with False
     (new_Msg\<lparr>Questions := [\<lparr>QName = ''Echo.gyip.io.'', Qtype = TypeA, Qclass = ClassINET\<rparr>]\<rparr>)
     [A_record ''Echo.gyip.io.'' 0 [127, 0, 0, 1]])"
proof -
  let ?q = "\<lparr>QName = ''Echo.gyip.io.'', Qtype = TypeA, Qclass = ClassINET\<rparr>"
  have "ToLower ''Echo'' = ''echo'' \<or> ToLower ''Echo'' = ''reflect''" by code_simp
  moreover have "Questions (new_Msg\<lparr>Questions := [?q]\<rparr>) = [?q]" by simp
  moreover have "address_type (Qtype ?q)" by code_simp
  moreover have "QName ?q = ''Echo'' @ CHR ''.'' # ''gyip.io.''" by simp
  moreover have "find_domain [''gyip.io.''] (QName ?q) = ''gyip.io.''" by code_simp
  ultimately have "handleQuestions [''gyip.io.''] False (\<lambda>_. 0) (UDPAddr (Some [127, 0, 0, 1]))
     (new_Msg\<lparr>Questions := [?q]\<rparr>) =
    Ok (reply_with False (new_Msg\<lparr>Questions := [?q]\<rparr>)
      (case remote_ip (UDPAddr (Some [127, 0, 0, 1])) of None \<Rightarrow> []
       | Some ip \<Rightarrow> address_records (Qtype ?q) (QName ?q) 0 [ip]))"
    by (rule handleQuestions_echo)
  also have "\<dots> = Ok (reply_with False (new_Msg\<lparr>Questions := [?q]\<rparr>)
      [A_record ''Echo.gyip.io.'' 0 [127, 0, 0, 1]])" by code_simp
  finally show ?thesis .
qed

text \<open>C11: Whatever the request, a reply echoes its id and first question, is authoritative, has
  the name error code exactly when it has no answer, and every answer is an A record of four
  bytes or an AAAA record of sixteen, of the type asked for, under the name of the question, in
  class IN, with a time to live of 0, 10 or 43200 seconds.\<close>

theorem handleQuestions_reply:
  assumes "handleQuestions doms compress draws addr r = Ok m"
  shows "MsgId m = MsgId r \<and> Response m \<and> Authoritative m \<and> Opcode m = OpcodeQuery \<and>
    Compress m = compress \<and> Questions m = take 1 (Questions r) \<and> Ns m = [] \<and> Extra m = [] \<and>
    (Rcode m = RcodeNameError \<longleftrightarrow> Answer m = []) \<and> (Rcode m = RcodeSuccess \<longleftrightarrow> Answer m \<noteq> []) \<and>
    (\<forall>rr \<in> set (Answer m). \<exists>q. Questions m = [q] \<and> Name (Hdr rr) = QName q \<and>
      Rrtype (Hdr rr) = Qtype q \<and> Class (Hdr rr) = ClassINET \<and> Ttl (Hdr rr) \<in> {0, 10, 43200} \<and>
      ((Qtype q = TypeA \<and> (\<exists>p. length p = 4 \<and> Rdata rr = Std (RR_A p))) \<or>
       (Qtype q = TypeAAAA \<and> (\<exists>p. length p = 16 \<and> Rdata rr = Std (RR_AAAA p)))))"
proof -
  obtain rrs where m: "m = reply_with compress r rrs" and
    rrs: "\<And>rr. rr \<in> set rrs \<Longrightarrow> \<exists>q qs ttl ips. Questions r = q # qs \<and> address_type (Qtype q) \<and>
       ttl \<in> {0, defaultTTL, defaultShortTTL} \<and>
       rr \<in> set (address_records (Qtype q) (QName q) ttl ips)"
    using handleQuestions_other [OF assms] by blast
  have "\<exists>q. take 1 (Questions r) = [q] \<and> Name (Hdr rr) = QName q \<and>
      Rrtype (Hdr rr) = Qtype q \<and> Class (Hdr rr) = ClassINET \<and> Ttl (Hdr rr) \<in> {0, 10, 43200} \<and>
      ((Qtype q = TypeA \<and> (\<exists>p. length p = 4 \<and> Rdata rr = Std (RR_A p))) \<or>
       (Qtype q = TypeAAAA \<and> (\<exists>p. length p = 16 \<and> Rdata rr = Std (RR_AAAA p))))"
    if mem: "rr \<in> set rrs" for rr
  proof -
    obtain q qs ttl ips where q: "Questions r = q # qs" "ttl \<in> {0, defaultTTL, defaultShortTTL}"
      and rr: "rr \<in> set (address_records (Qtype q) (QName q) ttl ips)"
      using rrs [OF mem] by blast
    show ?thesis
      using address_records_shape [OF rr] q
      by (intro exI [of _ q]) (auto simp: defaultTTL_def defaultShortTTL_def)
  qed
  then show ?thesis unfolding m by (simp add: reply_with_def)
qed

text \<open>C12: A query for a served domain itself (the apex, such as \<open>gyip.io.\<close>) makes the handler
  panic: \<open>frameResponse\<close> slices the name to the bound \<open>-1\<close>.\<close>

theorem handleQuestions_apex:
  assumes "Questions r = q # qs" "address_type (Qtype q)" "QName q \<noteq> ''''"
    and "find_domain doms (QName q) = QName q"
  shows "handleQuestions doms compress draws addr r = Panic SliceBoundsOutOfRange"
  using handleQuestions_first [OF assms(1), of doms compress draws addr] assms
  by (simp add: frameResponse_apex)

theorem handleQuestions_apex_witness:
  "handleQuestions [''gyip.io.''] False (\<lambda>_. 0) OtherAddr
     (new_Msg\<lparr>Questions := [\<lparr>QName = ''gyip.io.'', Qtype = TypeA, Qclass = ClassINET\<rparr>]\<rparr>) =
   Panic SliceBoundsOutOfRange"
  by (rule handleQuestions_apex [where q = "\<lparr>QName = ''gyip.io.'', Qtype = TypeA, Qclass = ClassINET\<rparr>" and qs = "[]"])
    (simp_all add: address_type_def HasSuffix_def)

text \<open>C17: The handler returns a reply, without panic or endless loop, for every name whose labels
  in front of the served domain are not empty and whose leftmost label has at least two bytes
  and no colon.\<close>

theorem handleQuestions_safe:
  assumes "Questions r = q # qs" "find_domain doms (QName q) = zone"
    and "QName q = join_with CHR ''.'' (u # ws) @ CHR ''.'' # zone"
    and "\<forall>w \<in> set (u # ws). w \<noteq> [] \<and> CHR ''.'' \<notin> set w" "2 \<le> length u" "CHR '':'' \<notin> set u"
  shows "\<exists>rrs. handleQuestions doms compress draws addr r = Ok (reply_with compress r rrs)"
proof -
  have "safe_labels (u # ws)" using assms(4-) by (simp add: safe_labels_def labels_def list_all_iff)
  then obtain rrs where "frameResponse (remote_ip addr) (Qtype q) (QName q) zone (draws 0) = Ok rrs"
    using frameResponse_ok [of "u # ws"] assms(3) by metis
  then show ?thesis using handleQuestions_first [OF assms(1), of doms compress draws addr] assms(2)
    by auto
qed

theorem handleQuestions_safe_witness:
  "\<exists>rrs. handleQuestions [''gyip.io.''] False (\<lambda>_. 0) OtherAddr
     (new_Msg\<lparr>Questions := [\<lparr>QName = ''ab.c.gyip.io.'', Qtype = TypeA, Qclass = ClassINET\<rparr>]\<rparr>) =
   Ok (reply_with False
     (new_Msg\<lparr>Questions := [\<lparr>QName = ''ab.c.gyip.io.'', Qtype = TypeA, Qclass = ClassINET\<rparr>]\<rparr>) rrs)"
proof (rule handleQuestions_safe)
  let ?q = "\<lparr>QName = ''ab.c.gyip.io.'', Qtype = TypeA, Qclass = ClassINET\<rparr>"
  show "Questions (new_Msg\<lparr>Questions := [?q]\<rparr>) = [?q]" by simp
  show "find_domain [''gyip.io.''] (QName ?q) = ''gyip.io.''" by code_simp
  show "QName ?q = join_with CHR ''.'' [''ab'', ''c''] @ CHR ''.'' # ''gyip.io.''" by simp
qed simp_all

theorem handleQuestions_reply_witness:
  "\<exists>m. handleQuestions [''gyip.io.''] False (\<lambda>_. 0) OtherAddr
     (new_Msg\<lparr>MsgId := 7, Questions := [\<lparr>QName = ''1.2.3.44.gyip.io.'', Qtype = TypeA, Qclass = ClassINET\<rparr>]\<rparr>) =
   Ok m \<and> MsgId m = 7"
proof -
  let ?r = "new_Msg\<lparr>MsgId := 7, Questions := [\<lparr>QName = ''1.2.3.44.gyip.io.'', Qtype = TypeA, Qclass = ClassINET\<rparr>]\<rparr>"
  let ?m = "reply_with False ?r [A_record ''1.2.3.44.gyip.io.'' defaultTTL [1, 2, 3, 44]]"
  have "handleQuestions [''gyip.io.''] False (\<lambda>_. 0) OtherAddr ?r = Ok ?m" by code_simp
  from handleQuestions_reply [OF this] this show ?thesis by auto
qed

end
