(* ===== verification/Gyip_Tests.thy ===== *)
theory Gyip_Tests
  imports Gyip_Frame
begin

text \<open>
  Evaluations of the model: the rows of the repository's own tests (\<open>src/gyip_test.go\<close>), on
  which the model gives what the tests expect of the code, and queries in other cases.
\<close>

section \<open>The test table of the repository\<close>

text \<open>The rows of \<open>TestIPResponses\<close> (\<open>src/gyip_test.go\<close>): domain, question, expected addresses.\<close>

definition answers :: "IP option \<Rightarrow> uint16 \<Rightarrow> string \<Rightarrow> string \<Rightarrow> string list outcome" where
  "answers ip qt zone name =
     map_ok (map (\<lambda>rr. case Rdata rr of
         Std (RR_A p) \<Rightarrow> IP_String (Some p) | Std (RR_AAAA p) \<Rightarrow> IP_String (Some p) | _ \<Rightarrow> ''''))
       (frameResponse ip qt name zone 0)"

lemma TestIPResponses_A:
  "map (\<lambda>(zone, name). answers None TypeA zone name)
     [(''gyip.io'', ''127.0.0.1.gyip.io''),
      (''wrong.io'', ''127.0.0.1.gyip.io''),
      (''wrong.io'', ''''), ('''', ''wrong.io''), ('''', ''''),
      (''gyip.io'', ''alpha.domain.127.0.0.1.gyip.io''),
      (''gyip.io'', ''alpha.domain.127.0.0.1.10.0.0.24.gyip.io''),
      (''gyip.io'', ''domain.127.0.0.gyip.io''),
      (''gyip.io'', ''virthost10.10.1.1.1.gyip.io''),
      (''gyip.io'', ''virthost.10.10.1.1.gyip.io''),
      (''gyip.io'', ''()())()).10.0.0.1.).gyip.io''),
      (''gyip.io'', ''.gyip.io''),
      (''gyip.io'', ''10.27.14.34.45.337.0.1.gyip.io''),
      (''gyip.io'', ''10.0.0.1.rr.gyip.io'')] =
   map Ok [[''127.0.0.1''], [], [], [], [], [''127.0.0.1''], [''127.0.0.1'', ''10.0.0.24''], [],
     [''10.1.1.1''], [''10.10.1.1''], [''10.0.0.1''], [], [''27.14.34.45''], [''10.0.0.1'']]"
  by code_simp

lemma TestIPResponses_AAAA:
  "map (\<lambda>(zone, name). answers None TypeAAAA zone name)
     [(''gyip.io'', ''::1.gyip.io''), (''wrong.io'', ''::1.gyip.io''),
      (''domain.tld'', ''10.0.0.1.2134:0000:1234:4567:2468:1236:2444:2106.domain.tld'')] =
   map Ok [[''::1''], [], [''10.0.0.1'', ''2134:0:1234:4567:2468:1236:2444:2106'']]"
  by code_simp

lemma TestIPResponses_echo:
  "answers (Some (v4InV6Prefix @ [45, 13, 12, 90])) TypeA ''gyip.io'' ''reflect.gyip.io'' = Ok [''45.13.12.90''] \<and>
   answers (Some (replicate 15 0 @ [1])) TypeAAAA ''gyip.io'' ''echo.gyip.io'' = Ok [''::1''] \<and>
   answers (Some (replicate 15 0 @ [1])) TypeA ''gyip.io'' ''echo.gyip.io'' = Ok []"
  by code_simp

text \<open>Names in other cases than the served domain: the domain is not found, so the label in front of
  it is not seen as a command (here \<open>f99\<close>, which fails every query) and echo is not recognised.\<close>

lemma upper_case_domain:
  "handleQuestions [''gyip.io.''] False (\<lambda>_. 0) OtherAddr
     (new_Msg\<lparr>Questions := [\<lparr>QName = ''10.0.0.1.f99.GYIP.IO.'', Qtype = TypeA, Qclass = ClassINET\<rparr>]\<rparr>) =
   Ok (reply_with False
     (new_Msg\<lparr>Questions := [\<lparr>QName = ''10.0.0.1.f99.GYIP.IO.'', Qtype = TypeA, Qclass = ClassINET\<rparr>]\<rparr>)
     [A_record ''10.0.0.1.f99.GYIP.IO.'' defaultTTL [10, 0, 0, 1]])"
  by code_simp

end
