(* ===== verification/Dns_Labels.thy ===== *)
theory Dns_Labels
  imports Go_Prelude
begin

text \<open>
  Names and labels: \<open>labels.go\<close> and the name helpers of \<open>defaults.go\<close> of package dns
  (\<open>NextLabel\<close>, \<open>PrevLabel\<close>, \<open>Split\<close>, \<open>SplitDomainName\<close>, \<open>CountLabel\<close>, \<open>CompareDomainName\<close>,
  \<open>Fqdn\<close>, \<open>IsFqdn\<close>, \<open>IsSubDomain\<close>).

  The specification is the list of labels of a name: \<open>fqdn ls\<close> writes the labels \<open>ls\<close> one after
  the other, each followed by a dot, and \<open>label_ok\<close> says that a label has no unescaped dot and
  no open escape at its end.  \<open>strings.ToLower\<close> is modelled on ASCII (the names the library
  unpacks are ASCII, other bytes being escaped).
\<close>

section \<open>The model\<close>

function NextLabel_loop :: "string \<Rightarrow> nat \<Rightarrow> bool \<Rightarrow> nat \<times> bool" where
  "NextLabel_loop s i quote =
     (if int i < int (length s) - 1 then
        (if s ! i = CHR 0x5C then NextLabel_loop s (i + 1) (\<not> quote)
         else if s ! i = CHR ''.'' then
           (if quote then NextLabel_loop s (i + 1) (\<not> quote) else (i + 1, False))
         else NextLabel_loop s (i + 1) False)
      else (i + 1, True))"
  by pat_completeness auto
termination by (relation "measure (\<lambda>(s, i, quote). length s - i)") auto

declare NextLabel_loop.simps [simp del]

definition NextLabel :: "string \<Rightarrow> nat \<Rightarrow> nat \<times> bool" where
  "NextLabel s offset = NextLabel_loop s offset False"

lemma NextLabel_loop_bounds:
  "NextLabel_loop s i quote = (j, end) \<Longrightarrow> i < j \<and> (\<not> end \<longrightarrow> j < length s)"
proof (induction s i quote rule: NextLabel_loop.induct)
  case (1 s i quote)
  then show ?case
    by (subst (asm) (3) NextLabel_loop.simps) (fastforce split: if_splits)
qed

lemma NextLabel_bounds: "NextLabel s off = (j, False) \<Longrightarrow> off < j \<and> j < length s"
  using NextLabel_loop_bounds by (fastforce simp: NextLabel_def)

function Split_loop :: "string \<Rightarrow> nat \<Rightarrow> nat list \<Rightarrow> nat list" where
  "Split_loop s off idx =
     (let (off', end) = NextLabel s off
      in if end then idx else Split_loop s off' (idx @ [off']))"
  by pat_completeness auto
termination
  by (relation "measure (\<lambda>(s, off, idx). length s - off)") (auto dest!: NextLabel_bounds[OF sym])

declare Split_loop.simps [simp del]

definition Split :: "string \<Rightarrow> nat list" where
  "Split s = (if s = ''.'' then [] else Split_loop s 0 [0])"

function CountLabel_loop :: "string \<Rightarrow> nat \<Rightarrow> nat \<Rightarrow> nat" where
  "CountLabel_loop s off labels =
     (let (off', end) = NextLabel s off
      in if end then labels + 1 else CountLabel_loop s off' (labels + 1))"
  by pat_completeness auto
termination
  by (relation "measure (\<lambda>(s, off, n). length s - off)") (auto dest!: NextLabel_bounds[OF sym])

declare CountLabel_loop.simps [simp del]

definition CountLabel :: "string \<Rightarrow> nat" where
  "CountLabel s = (if s = ''.'' then 0 else CountLabel_loop s 0 0)"

definition PrevLabel :: "string \<Rightarrow> nat \<Rightarrow> nat \<times> bool" where
  "PrevLabel s n =
     (if n = 0 then (length s, False)
      else
        (let lab = Split s
         in if lab = [] then (0, True)
            else if n > length lab then (0, True)
            else (lab ! (length lab - n), False)))"

definition IsFqdn :: "string \<Rightarrow> bool" where
  "IsFqdn s = (if s = [] then False else s ! (length s - 1) = CHR ''.'')"

definition Fqdn :: "string \<Rightarrow> string" where
  "Fqdn s = (if IsFqdn s then s else s @ ''.'')"

text \<open>The slices between the label starts, then the rest up to \<open>fqdnEnd\<close>.\<close>

fun SplitDomainName_loop :: "string \<Rightarrow> nat list \<Rightarrow> nat \<Rightarrow> nat \<Rightarrow> string list \<Rightarrow> string list outcome" where
  "SplitDomainName_loop s [] begin fqdnEnd labels =
     obind (go_slice s (int begin) (int fqdnEnd)) (\<lambda>w. Ok (labels @ [w]))"
| "SplitDomainName_loop s (end # idx) begin fqdnEnd labels =
     obind (go_slice s (int begin) (int end - 1)) (\<lambda>w.
     SplitDomainName_loop s idx end fqdnEnd (labels @ [w]))"

definition SplitDomainName :: "string \<Rightarrow> string list outcome" where
  "SplitDomainName s =
     (if length s = 0 then Ok []
      else
        (let idx = Split s;
             fqdnEnd = (if s ! (length s - 1) = CHR ''.'' then length s - 1 else length s)
         in if length idx = 0 then Ok []
            else SplitDomainName_loop s (tl idx) 0 fqdnEnd []))"

function CompareDomainName_loop ::
    "string \<Rightarrow> string \<Rightarrow> nat list \<Rightarrow> nat list \<Rightarrow> int \<Rightarrow> int \<Rightarrow> int \<Rightarrow> int \<Rightarrow> nat \<Rightarrow> nat outcome" where
  "CompareDomainName_loop s1 s2 l1 l2 i1 j1 i2 j2 n =
     (if i1 < 0 \<or> i2 < 0 then Ok n
      else
        obind (go_slice s1 (int (l1 ! nat i1)) (int (l1 ! nat j1))) (\<lambda>w1.
        obind (go_slice s2 (int (l2 ! nat i2)) (int (l2 ! nat j2))) (\<lambda>w2.
        if w1 = w2 then
          CompareDomainName_loop s1 s2 l1 l2 (i1 - 1) (j1 - 1) (i2 - 1) (j2 - 1) (n + 1)
        else Ok n)))"
  by pat_completeness auto
termination
  by (relation "measure (\<lambda>(s1, s2, l1, l2, i1, j1, i2, j2, n). nat (i1 + 1))") auto

declare CompareDomainName_loop.simps [simp del]

definition CompareDomainName :: "string \<Rightarrow> string \<Rightarrow> nat outcome" where
  "CompareDomainName a b =
     (let s1 = Fqdn (ToLower a); s2 = Fqdn (ToLower b);
          l1 = Split s1; l2 = Split s2
      in if l1 = [] \<or> l2 = [] then Ok 0
         else
           (let j1 = int (length l1) - 1; i1 = int (length l1) - 2;
                j2 = int (length l2) - 1; i2 = int (length l2) - 2
            in obind (go_slice s1 (int (l1 ! nat j1)) (int (length s1))) (\<lambda>w1.
               obind (go_slice s2 (int (l2 ! nat j2)) (int (length s2))) (\<lambda>w2.
               if w1 = w2 then CompareDomainName_loop s1 s2 l1 l2 i1 j1 i2 j2 1
               else Ok 0))))"

definition IsSubDomain :: "string \<Rightarrow> string \<Rightarrow> bool outcome" where
  "IsSubDomain parent child = map_ok (\<lambda>n. n = CountLabel parent) (CompareDomainName parent child)"

section \<open>Names as lists of labels\<close>

fun label_from :: "bool \<Rightarrow> string \<Rightarrow> bool" where
  "label_from quote [] \<longleftrightarrow> \<not> quote"
| "label_from quote (c # cs) \<longleftrightarrow>
     (if c = CHR 0x5C then label_from (\<not> quote) cs
      else if c = CHR ''.'' then quote \<and> label_from False cs
      else label_from False cs)"

abbreviation label_ok :: "string \<Rightarrow> bool" where
  "label_ok \<equiv> label_from False"

definition wire_labels :: "string list \<Rightarrow> string" where
  "wire_labels ls = concat (map (\<lambda>l. l @ ''.'') ls)"

definition fqdn :: "string list \<Rightarrow> string" where
  "fqdn ls = (if ls = [] then ''.'' else wire_labels ls)"

text \<open>Lists of labels that are a name: every label is closed, and the root is the empty list.\<close>

definition name_labels :: "string list \<Rightarrow> bool" where
  "name_labels ls \<longleftrightarrow> list_all label_ok ls \<and> ls \<noteq> [[]]"

lemma wire_labels_simps [simp]:
  "wire_labels [] = []" "wire_labels (l # ls) = l @ CHR ''.'' # wire_labels ls"
  "wire_labels (ls @ ms) = wire_labels ls @ wire_labels ms"
  by (simp_all add: wire_labels_def)

lemma wire_labels_Nil_iff [simp]: "wire_labels ls = [] \<longleftrightarrow> ls = []"
  by (cases ls) auto

lemma NextLabel_loop_inside:
  "label_from q l \<Longrightarrow> rest \<noteq> [] \<Longrightarrow>
   NextLabel_loop (p @ l @ CHR ''.'' # rest) (length p) q = (length p + length l + 1, False)"
proof (induction l arbitrary: p q)
  case Nil
  then show ?case by (subst NextLabel_loop.simps) (simp add: nth_append)
next
  case (Cons c l)
  have eq: "p @ (c # l) @ CHR ''.'' # rest = (p @ [c]) @ l @ CHR ''.'' # rest" by simp
  have "NextLabel_loop (p @ (c # l) @ CHR ''.'' # rest) (length p) q =
      NextLabel_loop ((p @ [c]) @ l @ CHR ''.'' # rest) (length (p @ [c]))
        (if c = CHR 0x5C then \<not> q else False)"
    using Cons.prems by (subst NextLabel_loop.simps) (auto simp: nth_append split: if_splits)
  also have "\<dots> = (length (p @ [c]) + length l + 1, False)"
    by (rule Cons.IH) (use Cons.prems in \<open>auto split: if_splits\<close>)
  finally show ?case by simp
qed

lemma NextLabel_loop_last:
  "label_from q l \<Longrightarrow> snd (NextLabel_loop (p @ l @ ''.'') (length p) q)"
proof (induction l arbitrary: p q)
  case Nil
  then show ?case by (subst NextLabel_loop.simps) simp
next
  case (Cons c l)
  have "NextLabel_loop (p @ (c # l) @ ''.'') (length p) q =
      NextLabel_loop ((p @ [c]) @ l @ ''.'') (length (p @ [c]))
        (if c = CHR 0x5C then \<not> q else False)"
    using Cons.prems by (subst NextLabel_loop.simps) (auto simp: nth_append split: if_splits)
  moreover have "snd (NextLabel_loop ((p @ [c]) @ l @ ''.'') (length (p @ [c]))
      (if c = CHR 0x5C then \<not> q else False))"
    by (rule Cons.IH) (use Cons.prems in \<open>auto split: if_splits\<close>)
  ultimately show ?case by simp
qed

lemma NextLabel_step:
  assumes "label_ok l" "ls \<noteq> []"
  shows "NextLabel (p @ wire_labels (l # ls)) (length p) = (length p + length l + 1, False)"
  using NextLabel_loop_inside [OF assms(1), of "wire_labels ls" p] assms(2) by (simp add: NextLabel_def)

lemma NextLabel_end: "label_ok l \<Longrightarrow> snd (NextLabel (p @ wire_labels [l]) (length p))"
  using NextLabel_loop_last [of False l p] by (simp add: NextLabel_def)

text \<open>The positions at which the labels start.\<close>

fun starts :: "nat \<Rightarrow> string list \<Rightarrow> nat list" where
  "starts k [] = []"
| "starts k (l # ls) = k # starts (k + length l + 1) ls"

lemma length_starts [simp]: "length (starts k ls) = length ls"
  by (induction k ls rule: starts.induct) auto

lemma starts_nth: "i < length ls \<Longrightarrow> starts k ls ! i = k + length (wire_labels (take i ls))"
proof (induction k ls arbitrary: i rule: starts.induct)
  case (2 k l ls)
  then show ?case by (cases i) auto
qed simp

lemma Split_loop_starts:
  "list_all label_ok (l # ls) \<Longrightarrow>
   Split_loop (p @ wire_labels (l # ls)) (length p) idx =
     idx @ starts (length p + length l + 1) ls"
proof (induction ls arbitrary: l p idx)
  case Nil
  then show ?case using NextLabel_end [of l p]
    by (subst Split_loop.simps) (auto split: prod.splits)
next
  case (Cons m ls)
  have "Split_loop (p @ wire_labels (l # m # ls)) (length p) idx =
      Split_loop ((p @ l @ ''.'') @ wire_labels (m # ls)) (length (p @ l @ ''.''))
        (idx @ [length p + length l + 1])"
    using NextLabel_step [of l "m # ls" p] Cons.prems by (subst Split_loop.simps) simp
  also have "\<dots> = (idx @ [length p + length l + 1]) @
      starts (length (p @ l @ ''.'') + length m + 1) ls"
    by (rule Cons.IH) (use Cons.prems in simp)
  finally show ?case by simp
qed

lemma name_dot_iff: "name_labels ls \<Longrightarrow> ls \<noteq> [] \<Longrightarrow> fqdn ls \<noteq> ''.''"
  by (cases ls; cases "hd ls") (auto simp: name_labels_def fqdn_def split: if_splits)

lemma Split_fqdn:
  assumes "name_labels ls"
  shows "Split (fqdn ls) = starts 0 ls"
proof (cases ls)
  case Nil
  then show ?thesis by (simp add: Split_def fqdn_def)
next
  case (Cons l ms)
  then have "Split_loop (fqdn ls) 0 [0] = starts 0 ls"
    using Split_loop_starts [of l ms "[]" "[0]"] assms
    by (simp add: name_labels_def fqdn_def)
  then show ?thesis using name_dot_iff [OF assms] Cons by (simp add: Split_def)
qed

lemma CountLabel_loop_length:
  "list_all label_ok (l # ls) \<Longrightarrow>
   CountLabel_loop (p @ wire_labels (l # ls)) (length p) n = n + length (l # ls)"
proof (induction ls arbitrary: l p n)
  case Nil
  then show ?case using NextLabel_end [of l p]
    by (subst CountLabel_loop.simps) (auto split: prod.splits)
next
  case (Cons m ls)
  have "CountLabel_loop (p @ wire_labels (l # m # ls)) (length p) n =
      CountLabel_loop ((p @ l @ ''.'') @ wire_labels (m # ls)) (length (p @ l @ ''.'')) (n + 1)"
    using NextLabel_step [of l "m # ls" p] Cons.prems by (subst CountLabel_loop.simps) simp
  also have "\<dots> = (n + 1) + length (m # ls)"
    by (rule Cons.IH) (use Cons.prems in simp)
  finally show ?case by simp
qed

lemma CountLabel_fqdn:
  assumes "name_labels ls"
  shows "CountLabel (fqdn ls) = length ls"
proof (cases ls)
  case Nil
  then show ?thesis by (simp add: CountLabel_def fqdn_def)
next
  case (Cons l ms)
  then show ?thesis
    using CountLabel_loop_length [of l ms "[]" 0] name_dot_iff [OF assms] assms
    by (simp add: name_labels_def fqdn_def CountLabel_def)
qed


section \<open>Splitting and comparing names\<close>

lemma SplitDomainName_loop_labels:
  "SplitDomainName_loop (p @ wire_labels (l # ls)) (starts (length p + length l + 1) ls)
     (length p) (length (p @ wire_labels (l # ls)) - 1) acc = Ok (acc @ l # ls)"
proof (induction ls arbitrary: p l acc)
  case Nil
  then show ?case by (simp add: go_slice_def nat_add_distrib)
next
  case (Cons m ls)
  have IH: "SplitDomainName_loop ((p @ l @ ''.'') @ wire_labels (m # ls))
      (starts (length (p @ l @ ''.'') + length m + 1) ls)
     (length (p @ l @ ''.'')) (length ((p @ l @ ''.'') @ wire_labels (m # ls)) - 1) (acc @ [l]) =
     Ok ((acc @ [l]) @ m # ls)"
    by (rule Cons.IH)
  have "go_slice (p @ wire_labels (l # m # ls)) (int (length p)) (int (length p + length l + 1) - 1) =
      Ok l"
    by (simp add: go_slice_def nat_add_distrib)
  with IH show ?case by simp
qed

lemma last_wire_labels: "ls \<noteq> [] \<Longrightarrow> wire_labels ls ! (length (wire_labels ls) - 1) = CHR ''.''"
proof -
  assume "ls \<noteq> []"
  then obtain ms l where "ls = ms @ [l]" by (metis rev_exhaust)
  then have "wire_labels ls = (wire_labels ms @ l) @ ''.''" by simp
  then show ?thesis by (simp only: nth_append) simp
qed

lemma SplitDomainName_labels:
  assumes "name_labels ls"
  shows "SplitDomainName (fqdn ls) = Ok ls"
proof (cases ls)
  case Nil
  then show ?thesis by (simp add: SplitDomainName_def Split_def fqdn_def)
next
  case (Cons l ms)
  then have f: "fqdn ls = wire_labels (l # ms)" by (simp add: fqdn_def)
  have "wire_labels (l # ms) \<noteq> []" by simp
  then show ?thesis
    using SplitDomainName_loop_labels [of "[]" l ms "[]"] Split_fqdn [OF assms]
      last_wire_labels [of "l # ms"] Cons
    unfolding f SplitDomainName_def by (simp add: Let_def del: wire_labels_simps)
qed

text \<open>The number of labels two lists have in common at their right end.\<close>

fun common_prefix :: "'a list \<Rightarrow> 'a list \<Rightarrow> nat" where
  "common_prefix (x # xs) (y # ys) = (if x = y then Suc (common_prefix xs ys) else 0)"
| "common_prefix _ _ = 0"

definition common_labels :: "string list \<Rightarrow> string list \<Rightarrow> nat" where
  "common_labels ls ms = common_prefix (rev ls) (rev ms)"

lemma common_prefix_le: "common_prefix xs ys \<le> length xs"
  by (induction xs ys rule: common_prefix.induct) auto

lemma common_prefix_all: "common_prefix xs ys = length xs \<longleftrightarrow> prefix xs ys"
  by (induction xs ys rule: common_prefix.induct) auto

lemma common_prefix_maximal:
  "take (common_prefix xs ys) xs = take (common_prefix xs ys) ys \<and>
   (\<forall>k. take k xs = take k ys \<longrightarrow> k \<le> length xs \<longrightarrow> k \<le> length ys \<longrightarrow> k \<le> common_prefix xs ys)"
proof (induction xs ys rule: common_prefix.induct)
  case (1 x xs y ys)
  show ?case
  proof (intro conjI allI impI)
    show "take (common_prefix (x # xs) (y # ys)) (x # xs) =
        take (common_prefix (x # xs) (y # ys)) (y # ys)"
      using 1 by simp
    fix k assume "take k (x # xs) = take k (y # ys)" "k \<le> length (x # xs)" "k \<le> length (y # ys)"
    then show "k \<le> common_prefix (x # xs) (y # ys)" using 1 by (cases k) auto
  qed
qed auto

lemma label_from_ToLower [simp]: "label_from q (ToLower l) = label_from q l"
proof -
  have "lower_char c = CHR 0x5C \<longleftrightarrow> c = CHR 0x5C" "lower_char c = CHR ''.'' \<longleftrightarrow> c = CHR ''.''" for c
  proof -
    have "lower_char c = d \<longleftrightarrow> c = d" if "ord d < 65 \<or> 90 < ord d \<and> ord d < 97" for d
    proof (cases "ord CHR ''A'' \<le> ord c \<and> ord c \<le> ord CHR ''Z''")
      case True
      have "ord (lower_char c) = ord c + 32" using True by (simp add: lower_char_def ord_def)
      moreover have "65 \<le> ord c" "ord c \<le> 90" using True by (simp_all add: ord_def)
      ultimately have "ord (lower_char c) \<noteq> ord d" "ord c \<noteq> ord d" using that by linarith+
      then show ?thesis by auto
    qed (auto simp: lower_char_def)
    from this [of "CHR 0x5C"] this [of "CHR ''.''"] show
      "lower_char c = CHR 0x5C \<longleftrightarrow> c = CHR 0x5C" "lower_char c = CHR ''.'' \<longleftrightarrow> c = CHR ''.''"
      by (simp_all add: ord_def)
  qed
  then show ?thesis by (induction l arbitrary: q) (auto simp: ToLower_def)
qed

lemma wire_labels_ToLower: "ToLower (wire_labels ls) = wire_labels (map ToLower ls)"
proof (induction ls)
  case (Cons l ls)
  have "ToLower ''.'' = ''.''" by code_simp
  then have "ToLower (CHR ''.'' # xs) = CHR ''.'' # ToLower xs" for xs
    by (simp add: ToLower_def)
  then show ?case using Cons by simp
qed simp

lemma fqdn_ToLower: "ToLower (fqdn ls) = fqdn (map ToLower ls)"
proof -
  have "ToLower ''.'' = ''.''" by code_simp
  then show ?thesis by (simp add: fqdn_def wire_labels_ToLower)
qed

lemma name_labels_ToLower: "name_labels ls \<Longrightarrow> name_labels (map ToLower ls)"
  by (auto simp: name_labels_def list_all_iff map_eq_Cons_conv)

lemma Fqdn_fqdn [simp]: "Fqdn (fqdn ls) = fqdn ls"
proof (cases "ls = []")
  case False
  then show ?thesis using last_wire_labels [of ls] by (simp add: Fqdn_def IsFqdn_def fqdn_def)
qed (simp add: Fqdn_def IsFqdn_def fqdn_def)

lemma slice_label:
  assumes "i < length ls"
  shows "Suc i < length ls \<Longrightarrow>
      go_slice (wire_labels ls) (int (starts 0 ls ! i)) (int (starts 0 ls ! Suc i)) = Ok (ls ! i @ ''.'')"
    and "Suc i = length ls \<Longrightarrow>
      go_slice (wire_labels ls) (int (starts 0 ls ! i)) (int (length (wire_labels ls))) = Ok (ls ! i @ ''.'')"
proof -
  have all: "wire_labels ls = wire_labels (take i ls) @ (ls ! i @ ''.'') @ wire_labels (drop (Suc i) ls)"
    by (subst (1) id_take_nth_drop [OF assms]) simp
  have s: "starts 0 ls ! i = length (wire_labels (take i ls))" using assms by (simp add: starts_nth)
  { assume "Suc i < length ls"
    then have "starts 0 ls ! Suc i = length (wire_labels (take i ls)) + length (ls ! i) + 1"
      by (simp add: starts_nth take_Suc_conv_app_nth)
    with s show "go_slice (wire_labels ls) (int (starts 0 ls ! i)) (int (starts 0 ls ! Suc i)) =
        Ok (ls ! i @ ''.'')"
      by (subst all) (simp add: go_slice_def nat_add_distrib) }
  assume "Suc i = length ls"
  then have "wire_labels ls = wire_labels (take i ls) @ (ls ! i @ ''.'')" using all by simp
  with s show "go_slice (wire_labels ls) (int (starts 0 ls ! i)) (int (length (wire_labels ls))) =
      Ok (ls ! i @ ''.'')"
    by (simp add: go_slice_def nat_add_distrib)
qed

lemma Compare_loop:
  assumes "k1 < length ls" "k2 < length ms"
  shows "CompareDomainName_loop (wire_labels ls) (wire_labels ms) (starts 0 ls) (starts 0 ms)
           (int k1 - 1) (int k1) (int k2 - 1) (int k2) n =
         Ok (n + common_labels (take k1 ls) (take k2 ms))"
  using assms
proof (induction k1 arbitrary: k2 n)
  case 0
  then show ?case by (subst CompareDomainName_loop.simps) (simp add: common_labels_def)
next
  case (Suc k1)
  show ?case
  proof (cases k2)
    case 0
    then show ?thesis
      by (subst CompareDomainName_loop.simps) (cases "rev (take (Suc k1) ls)"; simp add: common_labels_def)
  next
    case (Suc j)
    have "rev (take (Suc k1) ls) = ls ! k1 # rev (take k1 ls)"
      "rev (take (Suc j) ms) = ms ! j # rev (take j ms)"
      using \<open>Suc k1 < length ls\<close> \<open>k2 < length ms\<close> Suc by (simp_all add: take_Suc_conv_app_nth)
    then show ?thesis
      using Suc.IH [of j "n + 1"] Suc.prems Suc slice_label(1) [of k1 ls] slice_label(1) [of j ms]
      by (subst CompareDomainName_loop.simps) (simp add: common_labels_def nat_add_distrib)
  qed
qed

lemma CompareDomainName_cases:
  assumes "Fqdn (ToLower a) = s1" "Fqdn (ToLower b) = s2" "Split s1 = l1" "Split s2 = l2"
  shows "l1 = [] \<or> l2 = [] \<Longrightarrow> CompareDomainName a b = Ok 0"
    and "length l1 = Suc n1 \<Longrightarrow> length l2 = Suc n2 \<Longrightarrow>
      go_slice s1 (int (l1 ! n1)) (int (length s1)) = Ok w1 \<Longrightarrow>
      go_slice s2 (int (l2 ! n2)) (int (length s2)) = Ok w2 \<Longrightarrow>
      CompareDomainName a b =
        (if w1 = w2 then
           CompareDomainName_loop s1 s2 l1 l2 (int n1 - 1) (int n1) (int n2 - 1) (int n2) 1
         else Ok 0)"
  using assms by (auto simp: CompareDomainName_def Let_def)

lemma CompareDomainName_labels:
  assumes "name_labels ls" "name_labels ms"
  shows "CompareDomainName (fqdn ls) (fqdn ms) =
           Ok (common_labels (map ToLower ls) (map ToLower ms))"
proof -
  define us where "us = map ToLower ls"
  define vs where "vs = map ToLower ms"
  have f: "Fqdn (ToLower (fqdn ls)) = fqdn us" "Fqdn (ToLower (fqdn ms)) = fqdn vs"
    by (simp_all add: fqdn_ToLower us_def vs_def)
  have sp: "Split (fqdn us) = starts 0 us" "Split (fqdn vs) = starts 0 vs"
    using assms by (simp_all add: Split_fqdn name_labels_ToLower us_def vs_def)
  note step = CompareDomainName_cases [OF f sp]
  have "CompareDomainName (fqdn ls) (fqdn ms) = Ok (common_labels us vs)"
  proof (cases "us = [] \<or> vs = []")
    case True
    then have "common_labels us vs = 0" by (cases "rev us") (auto simp: common_labels_def)
    with True show ?thesis using step(1) by auto
  next
    case False
    then obtain us' u vs' v where uv: "us = us' @ [u]" "vs = vs' @ [v]" by (metis rev_exhaust)
    have w: "fqdn us = wire_labels us" "fqdn vs = wire_labels vs" using False by (simp_all add: fqdn_def)
    have k: "length us' < length us" "length vs' < length vs"
      "Suc (length us') = length us" "Suc (length vs') = length vs" using uv by simp_all
    have at: "us ! length us' = u" "vs ! length vs' = v" "take (length us') us = us'"
      "take (length vs') vs = vs'" using uv by simp_all
    have "common_labels us vs = (if u = v then Suc (common_labels us' vs') else 0)"
      unfolding uv common_labels_def by simp
    moreover note step(2) [unfolded w, OF _ _ slice_label(2) [OF k(1) k(3)] slice_label(2) [OF k(2) k(4)]]
    moreover note Compare_loop [OF k(1,2), of 1, unfolded at]
    ultimately show ?thesis using k at by simp
  qed
  then show ?thesis by (simp add: us_def vs_def)
qed

section \<open>Properties\<close>

text \<open>C40: Splitting a name and writing its labels back are inverse: for every list of closed
  labels, empty labels and escaped dots included, \<open>SplitDomainName\<close> of the fully qualified name
  gives exactly the labels, \<open>Split\<close> gives where each one starts and \<open>CountLabel\<close> how many
  there are.\<close>

theorem SplitDomainName_fqdn:
  assumes "name_labels ls"
  shows "SplitDomainName (fqdn ls) = Ok ls \<and> CountLabel (fqdn ls) = length ls \<and>
    Split (fqdn ls) = map (\<lambda>k. length (wire_labels (take k ls))) [0 ..< length ls]"
proof -
  have "starts 0 ls = map (\<lambda>k. length (wire_labels (take k ls))) [0 ..< length ls]"
    by (rule nth_equalityI) (simp_all add: starts_nth)
  then show ?thesis using assms by (simp add: SplitDomainName_labels CountLabel_fqdn Split_fqdn)
qed

theorem SplitDomainName_fqdn_witness:
  "SplitDomainName (fqdn [[CHR ''a'', CHR 0x5C, CHR ''.'', CHR ''b''], [], ''io'']) = Ok [[CHR ''a'', CHR 0x5C, CHR ''.'', CHR ''b''], [], ''io'']"
proof -
  have "name_labels [[CHR ''a'', CHR 0x5C, CHR ''.'', CHR ''b''], [], ''io'']" by code_simp
  from SplitDomainName_fqdn [OF this] show ?thesis by simp
qed

text \<open>C36: \<open>CompareDomainName\<close> counts the labels two names share at their right end, up to
  ASCII case: the count is the length of the longest common suffix of the label lists.\<close>

theorem CompareDomainName_common:
  assumes "name_labels ls" "name_labels ms"
  shows "\<exists>n. CompareDomainName (fqdn ls) (fqdn ms) = Ok n \<and>
    take n (rev (map ToLower ls)) = take n (rev (map ToLower ms)) \<and>
    n \<le> length ls \<and> n \<le> length ms \<and>
    (\<forall>k. take k (rev (map ToLower ls)) = take k (rev (map ToLower ms)) \<longrightarrow>
      k \<le> length ls \<longrightarrow> k \<le> length ms \<longrightarrow> k \<le> n)"
proof -
  have sym: "common_prefix xs ys = common_prefix ys xs" for xs ys :: "string list"
    by (induction xs ys rule: common_prefix.induct) auto
  let ?ls = "rev (map ToLower ls)" and ?ms = "rev (map ToLower ms)"
  have "common_prefix ?ls ?ms \<le> length ls" "common_prefix ?ls ?ms \<le> length ms"
    using common_prefix_le [of ?ls ?ms] common_prefix_le [of ?ms ?ls] sym [of ?ls ?ms] by simp_all
  then show ?thesis
    using CompareDomainName_labels [OF assms] common_prefix_maximal [of ?ls ?ms]
    by (simp add: common_labels_def)
qed

theorem CompareDomainName_common_witness:
  "CompareDomainName (fqdn [''www'', ''Miek'', ''nl'']) (fqdn [''miek'', ''nl'']) = Ok 2"
proof -
  have "name_labels [''www'', ''Miek'', ''nl'']" "name_labels [''miek'', ''nl'']" by code_simp+
  from CompareDomainName_common [OF this]
  obtain n where n: "CompareDomainName (fqdn [''www'', ''Miek'', ''nl'']) (fqdn [''miek'', ''nl'']) = Ok n"
    "n \<le> length [''miek'', ''nl'']"
    "\<forall>k. take k (rev (map ToLower [''www'', ''Miek'', ''nl''])) =
        take k (rev (map ToLower [''miek'', ''nl''])) \<longrightarrow>
      k \<le> length [''www'', ''Miek'', ''nl''] \<longrightarrow> k \<le> length [''miek'', ''nl''] \<longrightarrow> k \<le> n"
    by blast
  have "take 2 (rev (map ToLower [''www'', ''Miek'', ''nl''])) = take 2 (rev (map ToLower [''miek'', ''nl'']))"
    by code_simp
  then have "2 \<le> n" using n(3) [rule_format, of 2] by simp
  with n(1,2) show ?thesis by simp
qed

text \<open>C37: \<open>IsSubDomain\<close> decides subdomains: it holds exactly when the labels of the parent are
  the last labels of the child, up to ASCII case; the root is a parent of every name.\<close>

theorem IsSubDomain_iff:
  assumes "name_labels ps" "name_labels cs"
  shows "IsSubDomain (fqdn ps) (fqdn cs) = Ok (suffix (map ToLower ps) (map ToLower cs))"
proof -
  have "common_labels (map ToLower ps) (map ToLower cs) = length ps \<longleftrightarrow>
      suffix (map ToLower ps) (map ToLower cs)"
    using common_prefix_all [of "rev (map ToLower ps)" "rev (map ToLower cs)"]
    by (simp add: common_labels_def suffix_to_prefix)
  then show ?thesis
    by (simp add: IsSubDomain_def CompareDomainName_labels [OF assms] CountLabel_fqdn [OF assms(1)])
qed

theorem IsSubDomain_iff_witness: "IsSubDomain (fqdn [''gyip'', ''io'']) (fqdn [''a'', ''GYIP'', ''io'']) = Ok True"
proof -
  have "name_labels [''gyip'', ''io'']" "name_labels [''a'', ''GYIP'', ''io'']" by code_simp+
  from IsSubDomain_iff [OF this] have
    "IsSubDomain (fqdn [''gyip'', ''io'']) (fqdn [''a'', ''GYIP'', ''io'']) =
       Ok (suffix (map ToLower [''gyip'', ''io'']) (map ToLower [''a'', ''GYIP'', ''io'']))" .
  moreover have "map ToLower [''a'', ''GYIP'', ''io''] = [''a''] @ map ToLower [''gyip'', ''io'']"
    by code_simp
  then have "suffix (map ToLower [''gyip'', ''io'']) (map ToLower [''a'', ''GYIP'', ''io''])"
    unfolding suffix_def by blast
  ultimately show ?thesis by simp
qed

end
