(* ===== verification/Serve_Mux.thy ===== *)
theory Serve_Mux
  imports Dns_Labels Dns_Types
begin

text \<open>
  The request multiplexer of \<open>server.go\<close>: the registry of handlers (\<open>Handle\<close>, \<open>HandleFunc\<close>,
  \<open>HandleRemove\<close>), the search for the handler of a name (\<open>match\<close>) and \<open>ServeDNS\<close>.

  Handlers are values of an arbitrary type; \<open>ServeDNS\<close> returns the handler it calls, with \<open>None\<close>
  for the handler \<open>failedHandler\<close> returns.  The lock of the multiplexer is not modelled: each
  operation is one atomic step.  The registry the clients rely on is the locale
  \<open>handler_registry\<close>, interpreted on the operations of the multiplexer.
\<close>

section \<open>The model\<close>

record 'h ServeMux =
  mux_z :: "string \<Rightarrow> 'h option"

definition NewServeMux :: "'h ServeMux" where
  "NewServeMux = \<lparr>mux_z = Map.empty\<rparr>"

definition mux_Handle :: "string \<Rightarrow> 'h \<Rightarrow> 'h ServeMux \<Rightarrow> 'h ServeMux outcome" where
  "mux_Handle pattern handler mux =
     (if pattern = '''' then Panic (ExplicitPanic ''dns: invalid pattern '')
      else Ok (mux\<lparr>mux_z := (mux_z mux)(Fqdn pattern \<mapsto> handler)\<rparr>))"

definition HandleFunc :: "string \<Rightarrow> 'h \<Rightarrow> 'h ServeMux \<Rightarrow> 'h ServeMux outcome" where
  "HandleFunc pattern handler mux = mux_Handle pattern handler mux"

definition HandleRemove :: "string \<Rightarrow> 'h ServeMux \<Rightarrow> 'h ServeMux outcome" where
  "HandleRemove pattern mux =
     (if pattern = '''' then Panic (ExplicitPanic ''dns: invalid pattern '')
      else Ok (mux\<lparr>mux_z := (mux_z mux)(Fqdn pattern := None)\<rparr>))"

text \<open>The loop of \<open>match\<close>: \<open>handler\<close> is what a DS query found so far.\<close>

function match_loop :: "(string \<Rightarrow> 'h option) \<Rightarrow> string \<Rightarrow> uint16 \<Rightarrow> nat \<Rightarrow> 'h option \<Rightarrow> 'h option" where
  "match_loop z q t off handler =
     (let found = z (ToLower (drop off q))
      in if found \<noteq> None \<and> t \<noteq> TypeDS then found
         else
           (let handler = (if found \<noteq> None then found else handler);
                (off', end) = NextLabel q off
            in if end then (case z ''.'' of Some h \<Rightarrow> Some h | None \<Rightarrow> handler)
               else match_loop z q t off' handler))"
  by pat_completeness auto
termination
  by (relation "measure (\<lambda>(z, q, t, off, h). length q - off)") (auto dest!: NextLabel_bounds[OF sym])

declare match_loop.simps [simp del]

definition mux_match :: "'h ServeMux \<Rightarrow> string \<Rightarrow> uint16 \<Rightarrow> 'h option" where
  "mux_match mux q t = match_loop (mux_z mux) q t 0 None"

definition mux_ServeDNS :: "'h ServeMux \<Rightarrow> Msg \<Rightarrow> 'h option" where
  "mux_ServeDNS mux request =
     (if length (Questions request) < 1 then None
      else mux_match mux (QName (Questions request ! 0)) (Qtype (Questions request ! 0)))"

text \<open>\<open>HandleFailed\<close>: the reply of the handler \<open>failedHandler\<close> returns.\<close>

definition HandleFailed :: "Msg \<Rightarrow> Msg" where
  "HandleFailed r = SetRcode new_Msg r RcodeServerFailure"

section \<open>The registry contract\<close>

text \<open>
  What a client may rely on: a handler is found under the fully qualified form of the pattern it
  was registered for, and no other name is affected.
\<close>

locale handler_registry =
  fixes empty :: "'r" and find :: "'r \<Rightarrow> string \<Rightarrow> 'h option"
    and add :: "string \<Rightarrow> 'h \<Rightarrow> 'r \<Rightarrow> 'r outcome" and remove :: "string \<Rightarrow> 'r \<Rightarrow> 'r outcome"
  assumes find_empty: "find empty q = None"
    and add_ok: "p \<noteq> '''' \<Longrightarrow> \<exists>reg'. add p h reg = Ok reg'"
    and find_add: "add p h reg = Ok reg' \<Longrightarrow> find reg' q = (if q = Fqdn p then Some h else find reg q)"
    and remove_ok: "p \<noteq> '''' \<Longrightarrow> \<exists>reg'. remove p reg = Ok reg'"
    and find_remove: "remove p reg = Ok reg' \<Longrightarrow> find reg' q = (if q = Fqdn p then None else find reg q)"
begin

text \<open>Registering a list of patterns for one handler.\<close>

fun add_all :: "string list \<Rightarrow> 'h \<Rightarrow> 'r \<Rightarrow> 'r outcome" where
  "add_all [] h reg = Ok reg"
| "add_all (p # ps) h reg = obind (add p h reg) (add_all ps h)"

lemma add_all_ok: "'''' \<notin> set ps \<Longrightarrow> \<exists>reg'. add_all ps h reg = Ok reg'"
proof (induction ps arbitrary: reg)
  case (Cons p ps)
  then obtain reg1 where "add p h reg = Ok reg1" using add_ok [of p h reg] by auto
  with Cons show ?case by simp
qed simp

lemma find_add_all:
  "add_all ps h reg = Ok reg' \<Longrightarrow>
   find reg' q = (if q \<in> Fqdn ` set ps then Some h else find reg q)"
  by (induction ps arbitrary: reg) (auto simp: find_add)

lemma add_remove: "add p h reg = Ok reg1 \<Longrightarrow> remove p reg1 = Ok reg2 \<Longrightarrow> find reg p' = None \<or> p' \<noteq> Fqdn p \<Longrightarrow>
   find reg2 p' = find reg p'"
  by (auto simp: find_add find_remove)

end

interpretation mux: handler_registry NewServeMux mux_z mux_Handle HandleRemove
  by unfold_locales (auto simp: NewServeMux_def mux_Handle_def HandleRemove_def split: if_splits)

section \<open>The search\<close>

text \<open>The most specific of the registered parent names, or the handler of the root.\<close>

fun first_hit :: "(string \<Rightarrow> 'h option) \<Rightarrow> string list \<Rightarrow> 'h option" where
  "first_hit z [] = z ''.''"
| "first_hit z (l # ls) =
     (case z (ToLower (fqdn (l # ls))) of Some h \<Rightarrow> Some h | None \<Rightarrow> first_hit z ls)"

text \<open>For DS queries: the root handler when there is one, else the least specific hit.\<close>

fun last_hit :: "(string \<Rightarrow> 'h option) \<Rightarrow> string list \<Rightarrow> 'h option \<Rightarrow> 'h option" where
  "last_hit z [] found = (case z ''.'' of Some h \<Rightarrow> Some h | None \<Rightarrow> found)"
| "last_hit z (l # ls) found =
     last_hit z ls (case z (ToLower (fqdn (l # ls))) of Some h \<Rightarrow> Some h | None \<Rightarrow> found)"

lemma match_loop_labels:
  "list_all label_ok (l # ls) \<Longrightarrow>
   match_loop z (p @ wire_labels (l # ls)) t (length p) handler =
     (if t = TypeDS then last_hit z (l # ls) handler
      else case first_hit z (l # ls) of Some h \<Rightarrow> Some h | None \<Rightarrow> handler)"
proof (induction ls arbitrary: l p handler)
  case Nil
  then show ?case using NextLabel_end [of l p]
    by (subst match_loop.simps)
      (auto simp: Let_def fqdn_def split: option.splits prod.splits)
next
  case (Cons m ls)
  have IH: "match_loop z ((p @ l @ ''.'') @ wire_labels (m # ls)) t (length (p @ l @ ''.'')) h =
     (if t = TypeDS then last_hit z (m # ls) h
      else case first_hit z (m # ls) of Some h' \<Rightarrow> Some h' | None \<Rightarrow> h)" for h
    by (rule Cons.IH) (use Cons.prems in simp)
  have "NextLabel (p @ wire_labels (l # m # ls)) (length p) = (length p + length l + 1, False)"
    by (rule NextLabel_step) (use Cons.prems in auto)
  then show ?case using IH
    by (subst match_loop.simps) (auto simp: Let_def fqdn_def split: option.splits)
qed

lemma first_hit_Some:
  "first_hit z ls = Some h \<longleftrightarrow>
     (\<exists>k < length ls. z (ToLower (fqdn (drop k ls))) = Some h \<and>
        (\<forall>j < k. z (ToLower (fqdn (drop j ls))) = None)) \<or>
     (\<forall>k < length ls. z (ToLower (fqdn (drop k ls))) = None) \<and> z ''.'' = Some h"
proof (induction z ls rule: first_hit.induct)
  case (2 z l ls)
  show ?case
  proof (cases "z (ToLower (fqdn (l # ls)))")
    case None
    have "P 0 = False \<Longrightarrow> (\<exists>k < Suc n. P k) \<longleftrightarrow> (\<exists>k < n. P (Suc k))" for P n
      by (metis less_Suc_eq_0_disj)
    moreover have "(\<forall>k < Suc n. Q k) \<longleftrightarrow> Q 0 \<and> (\<forall>k < n. Q (Suc k))" for Q n
      by (metis less_Suc_eq_0_disj)
    ultimately show ?thesis using 2 [OF None] None by simp
  next
    case (Some h')
    then show ?thesis by (auto intro: exI [of _ 0]) (metis drop0 not_gr_zero option.distinct(1) option.inject)
  qed
qed simp

lemma mux_match_labels:
  assumes "name_labels ls" "t \<noteq> TypeDS"
  shows "mux_match mux (fqdn ls) t = first_hit (mux_z mux) ls"
proof (cases ls)
  case Nil
  have "ToLower ''.'' = ''.''" by code_simp
  moreover have "snd (NextLabel ''.'' 0)" by code_simp
  ultimately show ?thesis using Nil assms(2)
    by (simp add: mux_match_def fqdn_def, subst match_loop.simps)
      (auto simp: Let_def split: option.splits prod.splits)
next
  case (Cons l ms)
  then show ?thesis
    using match_loop_labels [of l ms "mux_z mux" "[]" t None] assms
    by (simp add: mux_match_def fqdn_def name_labels_def split: option.splits)
qed

lemma last_hit_root: "z ''.'' = Some h \<Longrightarrow> last_hit z ls found = Some h"
  by (induction z ls found rule: last_hit.induct) auto

lemma mux_match_DS:
  assumes "name_labels ls" "mux_z mux ''.'' = Some h"
  shows "mux_match mux (fqdn ls) TypeDS = Some h"
proof (cases ls)
  case Nil
  have "ToLower ''.'' = ''.''" by code_simp
  moreover have "snd (NextLabel ''.'' 0)" by code_simp
  ultimately show ?thesis using Nil assms(2)
    by (simp add: mux_match_def fqdn_def, subst match_loop.simps)
      (auto simp: Let_def split: option.splits prod.splits)
next
  case (Cons l ms)
  then show ?thesis
    using match_loop_labels [of l ms "mux_z mux" "[]" TypeDS None] assms
    by (simp add: mux_match_def fqdn_def name_labels_def last_hit_root)
qed

section \<open>Properties\<close>

text \<open>C36: The multiplexer calls the handler of the most specific registered parent of the name of
  the first question (compared in lower case, for every type but DS): it returns a handler
  exactly when it is the one registered for a suffix of the labels and no longer suffix is
  registered, or the root handler when no suffix is.\<close>

theorem mux_match_most_specific:
  assumes "name_labels ls" "t \<noteq> TypeDS"
  shows "mux_match mux (fqdn ls) t = Some h \<longleftrightarrow>
     (\<exists>k < length ls. mux_z mux (ToLower (fqdn (drop k ls))) = Some h \<and>
        (\<forall>j < k. mux_z mux (ToLower (fqdn (drop j ls))) = None)) \<or>
     (\<forall>k < length ls. mux_z mux (ToLower (fqdn (drop k ls))) = None) \<and> mux_z mux ''.'' = Some h"
  unfolding mux_match_labels [OF assms] by (rule first_hit_Some)

theorem mux_match_most_specific_witness:
  "mux_match \<lparr>mux_z = [''io.'' \<mapsto> (1 :: nat), ''gyip.io.'' \<mapsto> 2]\<rparr> (fqdn [''a'', ''GYIP'', ''io'']) TypeA = Some 2"
proof -
  have "name_labels [''a'', ''GYIP'', ''io'']" by code_simp
  then have iff: "mux_match \<lparr>mux_z = z\<rparr> (fqdn [''a'', ''GYIP'', ''io'']) TypeA = Some 2 \<longleftrightarrow>
     (\<exists>k < length [''a'', ''GYIP'', ''io'']. z (ToLower (fqdn (drop k [''a'', ''GYIP'', ''io'']))) = Some 2 \<and>
        (\<forall>j < k. z (ToLower (fqdn (drop j [''a'', ''GYIP'', ''io'']))) = None)) \<or>
     (\<forall>k < length [''a'', ''GYIP'', ''io'']. z (ToLower (fqdn (drop k [''a'', ''GYIP'', ''io'']))) = None) \<and>
       z ''.'' = Some 2" for z :: "string \<Rightarrow> nat option"
    using mux_match_most_specific [of "[''a'', ''GYIP'', ''io'']" TypeA "\<lparr>mux_z = z\<rparr>" 2] by simp
  have "ToLower (fqdn (drop 1 [''a'', ''GYIP'', ''io''])) = ''gyip.io.''"
    "ToLower (fqdn (drop 0 [''a'', ''GYIP'', ''io''])) = ''a.gyip.io.''" by code_simp+
  then show ?thesis unfolding iff by (intro disjI1 exI [of _ 1]) simp
qed

text \<open>A DS query goes to the handler of the root whenever one is registered, even when the
  name or a parent below the root has a handler of its own.\<close>

theorem mux_match_DS_root:
  assumes "name_labels ls" "mux_z mux ''.'' = Some h"
  shows "mux_match mux (fqdn ls) TypeDS = Some h"
  by (rule mux_match_DS [OF assms])

theorem mux_match_DS_root_witness:
  "mux_match \<lparr>mux_z = [''.'' \<mapsto> (1 :: nat), ''gyip.io.'' \<mapsto> 2]\<rparr> (fqdn [''gyip'', ''io'']) TypeDS = Some 1"
proof (rule mux_match_DS_root)
  show "name_labels [''gyip'', ''io'']" by code_simp
qed simp

end
