(* ===== verification/Gyip_Config.thy ===== *)
theory Gyip_Config
  imports Gyip_Frame Serve_Mux
begin

text \<open>
  Start-up and dispatch of \<open>src/gyip.go\<close>: \<open>checkDomain\<close> with its regular expression,
  \<open>splitDomains\<close>, \<open>splitHosts\<close>, the checks and registrations of \<open>main\<close>, and the reply of the
  running server to a request.

  \<open>regexp\<close> is modelled by the expression itself, a value of the datatype \<open>rx\<close>, matched by
  derivatives; the specification of \<open>checkDomain\<close> is on labels.  \<open>net.LookupIP\<close> is the argument
  \<open>lookup\<close>, an arbitrary function (\<open>None\<close> for an error).  Command-line parsing, the seeding of
  the random number generator and the wait for a signal are not modelled.
\<close>

section \<open>Regular expressions\<close>

datatype rx = Nothing | Empty | Class "char \<Rightarrow> bool" | Alt rx rx | Seq rx rx | Star rx

primrec nullable :: "rx \<Rightarrow> bool" where
  "nullable Nothing = False"
| "nullable Empty = True"
| "nullable (Class p) = False"
| "nullable (Alt r s) = (nullable r \<or> nullable s)"
| "nullable (Seq r s) = (nullable r \<and> nullable s)"
| "nullable (Star r) = True"

primrec deriv :: "char \<Rightarrow> rx \<Rightarrow> rx" where
  "deriv c Nothing = Nothing"
| "deriv c Empty = Nothing"
| "deriv c (Class p) = (if p c then Empty else Nothing)"
| "deriv c (Alt r s) = Alt (deriv c r) (deriv c s)"
| "deriv c (Seq r s) = (if nullable r then Alt (Seq (deriv c r) s) (deriv c s) else Seq (deriv c r) s)"
| "deriv c (Star r) = Seq (deriv c r) (Star r)"

definition MatchString :: "rx \<Rightarrow> string \<Rightarrow> bool" where
  "MatchString r s = nullable (fold deriv s r)"

section \<open>The model\<close>

text \<open>The classes \<open>[a-zA-Z0-9]\<close> and \<open>[a-zA-Z0-9-]\<close>.\<close>

definition alnum :: "char \<Rightarrow> bool" where
  "alnum c \<longleftrightarrow> (48 \<le> ord c \<and> ord c \<le> 57) \<or> (65 \<le> ord c \<and> ord c \<le> 90) \<or> (97 \<le> ord c \<and> ord c \<le> 122)"

definition alnum_hyphen :: "char \<Rightarrow> bool" where
  "alnum_hyphen c \<longleftrightarrow> alnum c \<or> c = CHR ''-''"

definition label_rx :: rx where
  "label_rx = Alt (Class alnum) (Seq (Class alnum) (Seq (Star (Class alnum_hyphen)) (Class alnum)))"

definition validHostnameRegexMatcher :: rx where
  "validHostnameRegexMatcher = Seq (Star (Seq label_rx (Class (\<lambda>c. c = CHR ''.'')))) label_rx"

definition checkDomain :: "string \<Rightarrow> bool" where
  "checkDomain domain =
     (if domain = '''' then False
      else
        (let domain = (if domain ! (length domain - 1) = CHR ''.''
                       then take (length domain - 1) domain else domain)
         in if \<not> MatchString validHostnameRegexMatcher domain then False else True))"

fun splitDomains_loop :: "string list \<Rightarrow> string list \<Rightarrow> string list" where
  "splitDomains_loop [] outputDomains = outputDomains"
| "splitDomains_loop (domainToCheck # rest) outputDomains =
     (let domainToCheck = TrimSpace domainToCheck
      in if domainToCheck = '''' then splitDomains_loop rest outputDomains
         else
           (let domainToCheck = (if domainToCheck ! (length domainToCheck - 1) \<noteq> CHR ''.''
                                 then domainToCheck @ ''.'' else domainToCheck)
            in if checkDomain domainToCheck
               then splitDomains_loop rest (outputDomains @ [domainToCheck])
               else splitDomains_loop rest outputDomains))"

definition splitDomains :: "string \<Rightarrow> string list" where
  "splitDomains domainInput = splitDomains_loop (split_on CHR '','' domainInput) []"

text \<open>The loop of \<open>splitHosts\<close>; \<open>Inl\<close> is its early return.\<close>

fun splitHosts_loop ::
    "(string \<Rightarrow> IP list option) \<Rightarrow> string list \<Rightarrow> string list \<Rightarrow> string list + string list" where
  "splitHosts_loop lookup [] outputHosts = Inr outputHosts"
| "splitHosts_loop lookup (hostToCheck # rest) outputHosts =
     (if hostToCheck = '''' then splitHosts_loop lookup rest outputHosts
      else
        (case ParseIP hostToCheck of
           Some actualIP \<Rightarrow>
             if IP_String (Some actualIP) = ''0.0.0.0'' then Inl [''0.0.0.0'']
             else splitHosts_loop lookup rest (outputHosts @ [IP_String (Some actualIP)])
         | None \<Rightarrow>
             if checkDomain hostToCheck then
               (case lookup hostToCheck of
                  Some resolvedIPs \<Rightarrow>
                    splitHosts_loop lookup rest
                      (outputHosts @ map (\<lambda>rIP. IP_String (Some rIP)) resolvedIPs)
                | None \<Rightarrow> splitHosts_loop lookup rest outputHosts)
             else splitHosts_loop lookup rest outputHosts))"

definition splitHosts :: "(string \<Rightarrow> IP list option) \<Rightarrow> string \<Rightarrow> string list" where
  "splitHosts lookup hostInput =
     (case splitHosts_loop lookup (split_on CHR '','' hostInput) [] of
        Inl hosts \<Rightarrow> hosts
      | Inr outputHosts \<Rightarrow> if length outputHosts < 1 then [''0.0.0.0''] else outputHosts)"

text \<open>The command-line options.\<close>

record options =
  opt_hosts :: string
  opt_domain :: string
  opt_port :: string
  opt_tcpOff :: bool
  opt_udpOff :: bool
  opt_compress :: bool

datatype handler = HandleQuestions | NotZone

record server =
  servingDomains :: "string list"
  server_mux :: "handler ServeMux"
  listeners :: "(string \<times> string) list"
  server_compress :: bool

text \<open>\<open>main\<close> up to the wait for a signal: \<open>Inl\<close> is the message of an exit with status 1.\<close>

fun register :: "string list \<Rightarrow> handler ServeMux \<Rightarrow> handler ServeMux outcome" where
  "register [] mux = Ok mux"
| "register (servingDomain # rest) mux =
     obind (HandleFunc servingDomain HandleQuestions mux) (register rest)"

definition serve_addr :: "string \<Rightarrow> string \<Rightarrow> string" where
  "serve_addr host port = host @ '':'' @ port"

definition bracket :: "string \<Rightarrow> string" where
  "bracket host = (if CHR '':'' \<in> set host then ''['' @ host @ '']'' else host)"

definition start_listeners :: "options \<Rightarrow> string list \<Rightarrow> (string \<times> string) list" where
  "start_listeners opts hostingDomains =
     concat (map (\<lambda>host.
       (if \<not> opt_tcpOff opts then [(''tcp'', serve_addr (bracket host) (opt_port opts))] else []) @
       (if \<not> opt_udpOff opts then [(''udp'', serve_addr (bracket host) (opt_port opts))] else []))
       hostingDomains)"

definition main :: "(string \<Rightarrow> IP list option) \<Rightarrow> options \<Rightarrow> (string + server) outcome" where
  "main lookup opts =
     (if opt_domain opts = '''' then Ok (Inl ''At least one domain to host is required.'')
      else
        (let hostingDomains = splitHosts lookup (opt_hosts opts);
             domains = splitDomains (opt_domain opts)
         in if length domains < 1 then
              Ok (Inl ''No valid domains were given. The server will not start.'')
            else if opt_tcpOff opts \<and> opt_udpOff opts then
              Ok (Inl ''The options tcpOff and udpOff cannot both be set at the same time.'')
            else
              obind (register domains NewServeMux) (\<lambda>mux.
              obind (HandleFunc ''.'' NotZone mux) (\<lambda>mux.
              Ok (Inr \<lparr>servingDomains = domains, server_mux = mux,
                       listeners = start_listeners opts hostingDomains,
                       server_compress = opt_compress opts\<rparr>)))))"

text \<open>The reply of a running server: \<open>ServeDNS\<close> of the multiplexer and the handler it calls.\<close>

definition server_reply :: "server \<Rightarrow> (nat \<Rightarrow> nat) \<Rightarrow> Addr \<Rightarrow> Msg \<Rightarrow> Msg outcome" where
  "server_reply srv draws addr r =
     (case mux_ServeDNS (server_mux srv) r of
        None \<Rightarrow> Ok (HandleFailed r)
      | Some HandleQuestions \<Rightarrow>
          handleQuestions (servingDomains srv) (server_compress srv) draws addr r
      | Some NotZone \<Rightarrow> Ok (notzone_handler (server_compress srv) r))"

section \<open>Languages\<close>

definition star :: "string set \<Rightarrow> string set" where
  "star A = {concat ws | ws. set ws \<subseteq> A}"

primrec lang :: "rx \<Rightarrow> string set" where
  "lang Nothing = {}"
| "lang Empty = {[]}"
| "lang (Class p) = {[c] | c. p c}"
| "lang (Alt r s) = lang r \<union> lang s"
| "lang (Seq r s) = {u @ v | u v. u \<in> lang r \<and> v \<in> lang s}"
| "lang (Star r) = star (lang r)"

lemma star_Nil [simp]: "[] \<in> star A"
  unfolding star_def by (rule CollectI) (rule exI [of _ "[]"], simp)

lemma star_step: "u \<in> A \<Longrightarrow> v \<in> star A \<Longrightarrow> u @ v \<in> star A"
proof -
  assume "u \<in> A" "v \<in> star A"
  then obtain ws where "v = concat ws" "set ws \<subseteq> A" by (auto simp: star_def)
  with \<open>u \<in> A\<close> show ?thesis unfolding star_def by (intro CollectI exI [of _ "u # ws"]) auto
qed

lemma star_Cons: "c # s \<in> star A \<longleftrightarrow> (\<exists>u v. s = u @ v \<and> c # u \<in> A \<and> v \<in> star A)"
proof
  assume "c # s \<in> star A"
  then obtain ws where "c # s = concat ws" "set ws \<subseteq> A" by (auto simp: star_def)
  then show "\<exists>u v. s = u @ v \<and> c # u \<in> A \<and> v \<in> star A"
  proof (induction ws)
    case (Cons w ws)
    show ?case
    proof (cases w)
      case (Cons d u)
      then have "s = u @ concat ws" "c # u \<in> A" "concat ws \<in> star A"
        using Cons.prems unfolding star_def by auto
      then show ?thesis by blast
    qed (use Cons in auto)
  qed simp
qed (metis append_Cons star_step)

lemma nullable_iff: "nullable r \<longleftrightarrow> [] \<in> lang r"
  by (induction r) auto

lemma Cons_append_iff: "c # s = u @ v \<longleftrightarrow> (u = [] \<and> v = c # s) \<or> (\<exists>u'. u = c # u' \<and> s = u' @ v)"
  by (cases u) auto

lemma deriv_iff: "s \<in> lang (deriv c r) \<longleftrightarrow> c # s \<in> lang r"
proof (induction r arbitrary: s)
  case (Seq r1 r2)
  then show ?case by (auto simp: nullable_iff Cons_append_iff)
next
  case (Star r)
  then show ?case by (auto simp: star_Cons)
qed auto

lemma fold_deriv_iff: "t \<in> lang (fold deriv s r) \<longleftrightarrow> s @ t \<in> lang r"
  by (induction s arbitrary: r) (simp_all add: deriv_iff)

lemma MatchString_iff: "MatchString r s \<longleftrightarrow> s \<in> lang r"
  using fold_deriv_iff [of "[]" s r] by (simp add: MatchString_def nullable_iff)

section \<open>Host names\<close>

definition host_label :: "string \<Rightarrow> bool" where
  "host_label l \<longleftrightarrow> l \<noteq> [] \<and> alnum (hd l) \<and> alnum (last l) \<and> list_all alnum_hyphen l"

lemma star_class: "star {[c] | c. p c} = {w. list_all p w}"
proof (intro equalityI subsetI CollectI)
  fix w assume "w \<in> star {[c] | c. p c}"
  then show "list_all p w" by (induction w) (auto simp: star_Cons)
next
  fix w assume "w \<in> {w. list_all p w}"
  then have "concat (map (\<lambda>c. [c]) w) \<in> star {[c] | c. p c}"
    unfolding star_def by (intro CollectI exI [of _ "map (\<lambda>c. [c]) w"]) (auto simp: list_all_iff)
  then show "w \<in> star {[c] | c. p c}" by simp
qed

lemma lang_label: "l \<in> lang label_rx \<longleftrightarrow> host_label l"
proof -
  have "host_label l" if "alnum a" "list_all alnum_hyphen w" "alnum b" "l = a # w @ [b]" for a b w
    using that by (auto simp: host_label_def alnum_hyphen_def)
  moreover have "host_label [a]" if "alnum a" for a
    using that by (simp add: host_label_def alnum_hyphen_def)
  moreover have "\<exists>a. l = [a] \<and> alnum a \<or> (\<exists>w b. l = a # w @ [b] \<and> alnum a \<and> list_all alnum_hyphen w \<and> alnum b)"
    if "host_label l"
    using that by (cases l; cases "tl l" rule: rev_cases) (auto simp: host_label_def)
  ultimately show ?thesis unfolding label_rx_def lang.simps star_class
    by (auto simp: Cons_append_iff) blast+
qed

lemma star_labels: "star {l @ ''.'' | l. host_label l} = {wire_labels ls | ls. list_all host_label ls}"
proof (intro equalityI subsetI)
  fix u assume "u \<in> star {l @ ''.'' | l. host_label l}"
  then obtain ws where ws: "u = concat ws" "set ws \<subseteq> {l @ ''.'' | l. host_label l}"
    by (auto simp: star_def)
  have "\<exists>ls. concat ws = wire_labels ls \<and> list_all host_label ls" using ws(2)
  proof (induction ws)
    case (Cons w ws)
    then obtain ls l where "concat ws = wire_labels ls" "list_all host_label ls"
      "w = l @ ''.''" "host_label l" by auto
    then show ?case by (intro exI [of _ "l # ls"]) simp
  qed (auto intro: exI [of _ "[]"])
  with ws(1) show "u \<in> {wire_labels ls | ls. list_all host_label ls}" by auto
next
  fix u assume "u \<in> {wire_labels ls | ls. list_all host_label ls}"
  then obtain ls where "u = concat (map (\<lambda>l. l @ ''.'') ls)" "list_all host_label ls"
    by (auto simp: wire_labels_def)
  then show "u \<in> star {l @ ''.'' | l. host_label l}"
    unfolding star_def by (intro CollectI exI [of _ "map (\<lambda>l. l @ ''.'') ls"]) (auto simp: list_all_iff)
qed

lemma lang_hostname:
  "s \<in> lang validHostnameRegexMatcher \<longleftrightarrow>
     (\<exists>ls. ls \<noteq> [] \<and> list_all host_label ls \<and> s @ ''.'' = wire_labels ls)"
proof -
  have "lang (Seq label_rx (Class (\<lambda>c. c = CHR ''.''))) = {l @ ''.'' | l. host_label l}"
    by (auto simp: lang_label)
  then have "lang validHostnameRegexMatcher =
      {u @ v | u v. u \<in> {wire_labels ls | ls. list_all host_label ls} \<and> host_label v}"
    unfolding validHostnameRegexMatcher_def lang.simps(5) [of "Star _"] lang.simps(6)
    by (simp add: star_labels lang_label)
  then have "s \<in> lang validHostnameRegexMatcher \<longleftrightarrow>
      (\<exists>ls l. list_all host_label ls \<and> host_label l \<and> s = wire_labels ls @ l)" by auto
  also have "\<dots> \<longleftrightarrow> (\<exists>ls. ls \<noteq> [] \<and> list_all host_label ls \<and> s @ ''.'' = wire_labels ls)"
  proof
    assume "\<exists>ls l. list_all host_label ls \<and> host_label l \<and> s = wire_labels ls @ l"
    then obtain ls l where "list_all host_label ls" "host_label l" "s = wire_labels ls @ l" by blast
    then show "\<exists>ls. ls \<noteq> [] \<and> list_all host_label ls \<and> s @ ''.'' = wire_labels ls"
      by (intro exI [of _ "ls @ [l]"]) simp
  next
    assume "\<exists>ls. ls \<noteq> [] \<and> list_all host_label ls \<and> s @ ''.'' = wire_labels ls"
    then obtain ls l where "list_all host_label (ls @ [l])" "s @ ''.'' = wire_labels (ls @ [l])"
      by (metis rev_exhaust)
    then show "\<exists>ls l. list_all host_label ls \<and> host_label l \<and> s = wire_labels ls @ l"
      by (intro exI [of _ ls] exI [of _ l]) simp
  qed
  finally show ?thesis .
qed

lemma alnum_chars [simp]: "\<not> alnum CHR ''.''" "\<not> alnum_hyphen CHR ''.''" "\<not> alnum_hyphen CHR 0x5C"
  by code_simp+

lemma host_label_ok: "host_label l \<Longrightarrow> label_ok l \<and> l \<noteq> [] \<and> CHR ''.'' \<notin> set l"
proof -
  have "list_all alnum_hyphen l \<Longrightarrow> label_ok l"
  proof (induction l)
    case (Cons c l)
    then have "c \<noteq> CHR ''.''" "c \<noteq> CHR 0x5C" by auto
    with Cons show ?case by simp
  qed simp
  moreover assume "host_label l"
  ultimately show ?thesis by (auto simp: host_label_def list_all_iff)
qed

lemma host_name_labels: "list_all host_label ls \<Longrightarrow> name_labels ls"
  using host_label_ok by (auto simp: name_labels_def list_all_iff host_label_def)

lemma wire_labels_dot: "ls \<noteq> [] \<Longrightarrow> \<exists>s. wire_labels ls = s @ ''.''"
  by (cases ls rule: rev_cases) auto

lemma checkDomain_labels:
  "checkDomain d \<longleftrightarrow>
     (\<exists>ls. ls \<noteq> [] \<and> list_all host_label ls \<and> (d = wire_labels ls \<or> d @ ''.'' = wire_labels ls))"
proof (cases d rule: rev_cases)
  case Nil
  have "wire_labels ls \<noteq> ''.''" if "list_all host_label ls" for ls
  proof (cases ls)
    case (Cons l ms)
    then show ?thesis using that host_label_ok [of l] by (cases l) auto
  qed simp
  moreover have "ls \<noteq> [] \<Longrightarrow> [] \<noteq> wire_labels ls" for ls by (cases ls) auto
  ultimately show ?thesis using Nil by (simp add: checkDomain_def) metis
next
  case (snoc s c)
  show ?thesis
  proof (cases "c = CHR ''.''")
    case True
    have "(s @ ''.'') @ ''.'' \<noteq> wire_labels ls" if "list_all host_label ls" for ls
    proof
      assume eq: "(s @ ''.'') @ ''.'' = wire_labels ls"
      then have "ls \<noteq> []" by auto
      then obtain ms l where ls: "ls = ms @ [l]" by (metis rev_exhaust)
      then have "s @ ''.'' = wire_labels ms @ l" using eq by simp
      moreover have "host_label l" using that ls by simp
      then have "l \<noteq> []" "last l \<noteq> CHR ''.''" by (auto simp: host_label_def)
      ultimately show False by (metis last_appendR last_snoc)
    qed
    with True snoc show ?thesis
      by (simp add: checkDomain_def MatchString_iff lang_hostname nth_append) metis
  next
    case False
    have "s @ [c] \<noteq> wire_labels ls" if "ls \<noteq> []" for ls
      using wire_labels_dot [OF that] False by auto
    with False snoc show ?thesis
      by (simp add: checkDomain_def MatchString_iff lang_hostname nth_append) metis
  qed
qed

lemma splitDomains_loop_eq:
  "splitDomains_loop ds out =
     out @ filter checkDomain (map Fqdn (filter (\<lambda>d. d \<noteq> []) (map TrimSpace ds)))"
proof (induction ds arbitrary: out)
  case (Cons d ds)
  have "(if TrimSpace d ! (length (TrimSpace d) - 1) \<noteq> CHR ''.'' then TrimSpace d @ ''.'' else TrimSpace d) =
      Fqdn (TrimSpace d)" if "TrimSpace d \<noteq> []"
    using that by (simp add: Fqdn_def IsFqdn_def)
  with Cons show ?case by (simp add: Let_def)
qed simp

lemma checkDomain_Fqdn:
  "checkDomain (Fqdn t) \<longleftrightarrow> (\<exists>ls. ls \<noteq> [] \<and> list_all host_label ls \<and> Fqdn t = fqdn ls)"
proof -
  have "\<exists>s. Fqdn t = s @ ''.''"
  proof (cases t rule: rev_cases)
    case (snoc s c)
    then show ?thesis by (auto simp: Fqdn_def IsFqdn_def)
  qed (simp add: Fqdn_def IsFqdn_def)
  then obtain s where s: "Fqdn t = s @ ''.''" ..
  have "Fqdn t @ ''.'' \<noteq> wire_labels ls" if "list_all host_label ls" for ls
  proof
    assume eq: "Fqdn t @ ''.'' = wire_labels ls"
    then have "ls \<noteq> []" by auto
    then obtain ms l where ls: "ls = ms @ [l]" by (metis rev_exhaust)
    then have "s @ ''.'' = wire_labels ms @ l" using eq s by simp
    moreover have "host_label l" using that ls by simp
    then have "l \<noteq> []" "last l \<noteq> CHR ''.''" by (auto simp: host_label_def)
    ultimately show False by (metis last_appendR last_snoc)
  qed
  then show ?thesis unfolding checkDomain_labels by (auto simp: fqdn_def)
qed

lemma splitDomains_host:
  "d \<in> set (splitDomains s) \<Longrightarrow> \<exists>ls. ls \<noteq> [] \<and> list_all host_label ls \<and> d = fqdn ls"
  unfolding splitDomains_def splitDomains_loop_eq by (auto simp: checkDomain_Fqdn)

section \<open>The registered handlers\<close>

lemma register_add_all: "register ds = mux.add_all ds HandleQuestions"
proof (induction ds)
  case (Cons d ds)
  show ?case by (rule ext) (simp add: HandleFunc_def Cons)
qed (simp add: fun_eq_iff)

lemma Fqdn_dot [simp]: "Fqdn ''.'' = ''.''"
  by (simp add: Fqdn_def IsFqdn_def)

definition server_of :: "(string \<Rightarrow> IP list option) \<Rightarrow> options \<Rightarrow> server \<Rightarrow> bool" where
  "server_of lookup opts srv \<longleftrightarrow>
     servingDomains srv = splitDomains (opt_domain opts) \<and>
     listeners srv = start_listeners opts (splitHosts lookup (opt_hosts opts)) \<and>
     server_compress srv = opt_compress opts \<and>
     mux_z (server_mux srv) = (\<lambda>q. if q = ''.'' then Some NotZone
       else if q \<in> set (splitDomains (opt_domain opts)) then Some HandleQuestions else None)"

lemma splitDomains_Fqdn: "d \<in> set (splitDomains s) \<Longrightarrow> Fqdn d = d \<and> d \<noteq> '''' \<and> d \<noteq> ''.''"
proof -
  assume "d \<in> set (splitDomains s)"
  then obtain ls where ls: "ls \<noteq> []" "list_all host_label ls" "d = fqdn ls"
    using splitDomains_host by blast
  moreover have "fqdn ls \<noteq> ''''" using ls(1) by (simp add: fqdn_def)
  ultimately show ?thesis using name_dot_iff [OF host_name_labels [OF ls(2)] ls(1)] by simp
qed

lemma main_serves:
  assumes "opt_domain opts \<noteq> ''''" "splitDomains (opt_domain opts) \<noteq> []"
    and "\<not> (opt_tcpOff opts \<and> opt_udpOff opts)"
  shows "\<exists>srv. main lookup opts = Ok (Inr srv) \<and> server_of lookup opts srv"
proof -
  let ?ds = "splitDomains (opt_domain opts)"
  have ne: "'''' \<notin> set ?ds" using splitDomains_Fqdn by blast
  obtain mux1 where m1: "register ?ds NewServeMux = Ok mux1"
    using mux.add_all_ok [OF ne, of HandleQuestions NewServeMux] by (auto simp: register_add_all)
  obtain mux2 where m2: "mux_Handle ''.'' NotZone mux1 = Ok mux2"
    using mux.add_ok [of "''.''" NotZone mux1] by auto
  have z: "mux_z mux2 = (\<lambda>q. if q = ''.'' then Some NotZone
       else if q \<in> set ?ds then Some HandleQuestions else None)"
  proof
    fix q
    have "Fqdn ` set ?ds = set ?ds" using splitDomains_Fqdn by force
    then show "mux_z mux2 q = (if q = ''.'' then Some NotZone
       else if q \<in> set ?ds then Some HandleQuestions else None)"
      using mux.find_add [OF m2, of q] mux.find_add_all [OF m1 [unfolded register_add_all], of q]
      by (simp add: mux.find_empty)
  qed
  have "main lookup opts = Ok (Inr \<lparr>servingDomains = ?ds, server_mux = mux2,
      listeners = start_listeners opts (splitHosts lookup (opt_hosts opts)),
      server_compress = opt_compress opts\<rparr>)"
    using assms m1 m2 by (auto simp: main_def HandleFunc_def Let_def Suc_le_eq not_less_eq_eq)
  then show ?thesis using z by (intro exI conjI) (auto simp: server_of_def)
qed

text \<open>A label list determines its name.\<close>

lemma fqdn_inj:
  assumes "name_labels ls" "name_labels ms"
  shows "fqdn ls = fqdn ms \<longleftrightarrow> ls = ms"
proof
  assume "fqdn ls = fqdn ms"
  then have "Ok ls = Ok ms" using SplitDomainName_labels assms by metis
  then show "ls = ms" by simp
qed simp

lemma suffix_iff_drop: "suffix ys xs \<longleftrightarrow> (\<exists>k \<le> length xs. ys = drop k xs)"
proof
  assume "suffix ys xs"
  then obtain zs where "xs = zs @ ys" by (auto simp: suffix_def)
  then show "\<exists>k \<le> length xs. ys = drop k xs" by (intro exI [of _ "length zs"]) simp
qed (auto simp: suffix_drop)

lemma served_labels:
  assumes "server_of lookup opts srv" "name_labels ls"
  shows "mux_z (server_mux srv) (ToLower (fqdn ls)) =
    (if ls = [] then Some NotZone
     else if fqdn (map ToLower ls) \<in> set (servingDomains srv) then Some HandleQuestions else None)"
proof -
  have "fqdn (map ToLower ls) \<noteq> ''.''" if "ls \<noteq> []"
    using name_dot_iff [OF name_labels_ToLower [OF assms(2)]] that by simp
  moreover have "ls = [] \<Longrightarrow> fqdn (map ToLower ls) = ''.''" by (simp add: fqdn_def)
  ultimately show ?thesis using assms(1) by (auto simp: server_of_def fqdn_ToLower)
qed

definition served :: "string list \<Rightarrow> string list \<Rightarrow> bool" where
  "served doms ls \<longleftrightarrow> (\<exists>ds. ds \<noteq> [] \<and> fqdn ds \<in> set doms \<and> name_labels ds \<and> suffix ds (map ToLower ls))"

lemma first_hit_uniform:
  assumes "\<And>k. k < length ls \<Longrightarrow> z (ToLower (fqdn (drop k ls))) = (if P k then Some a else None)"
  shows "first_hit z ls = (if \<exists>k < length ls. P k then Some a else z ''.'')"
  using assms
proof (induction ls arbitrary: P)
  case (Cons l ls)
  have "first_hit z ls = (if \<exists>k < length ls. P (Suc k) then Some a else z ''.'')"
  proof (rule Cons.IH)
    show "z (ToLower (fqdn (drop k ls))) = (if P (Suc k) then Some a else None)" if "k < length ls" for k
      using Cons.prems [of "Suc k"] that by simp
  qed
  moreover have "(\<exists>k < Suc (length ls). P k) \<longleftrightarrow> P 0 \<or> (\<exists>k < length ls. P (Suc k))"
    by (metis less_Suc_eq_0_disj)
  ultimately show ?case using Cons.prems [of 0] by auto
qed simp

lemma served_iff_drop:
  assumes "name_labels ls" "[] \<notin> set ls"
  shows "served doms ls \<longleftrightarrow> (\<exists>k < length ls. fqdn (map ToLower (drop k ls)) \<in> set doms)"
proof
  assume "served doms ls"
  then obtain ds where ds: "ds \<noteq> []" "fqdn ds \<in> set doms" "suffix ds (map ToLower ls)"
    by (auto simp: served_def)
  then obtain k where k: "ds = drop k (map ToLower ls)" by (auto simp: suffix_iff_drop)
  then have "k < length ls" using ds(1) by simp
  with k ds(2) show "\<exists>k < length ls. fqdn (map ToLower (drop k ls)) \<in> set doms"
    by (auto simp: drop_map)
next
  assume "\<exists>k < length ls. fqdn (map ToLower (drop k ls)) \<in> set doms"
  then obtain k where k: "k < length ls" "fqdn (map ToLower (drop k ls)) \<in> set doms" by blast
  let ?ds = "drop k (map ToLower ls)"
  have "list_all label_ok ?ds" "[] \<notin> set ?ds"
    using assms by (auto simp: name_labels_def list_all_iff dest!: in_set_dropD)
  then have "name_labels ?ds" by (auto simp: name_labels_def)
  then show "served doms ls" using k unfolding served_def
    by (intro exI [of _ ?ds]) (auto simp: drop_map [symmetric] suffix_iff_drop intro: less_imp_le)
qed

lemma server_dispatch:
  assumes "server_of lookup opts srv" "Questions r = q # qs" "QName q = fqdn ls"
    and "list_all label_ok ls" "[] \<notin> set ls" "Qtype q \<noteq> TypeDS"
  shows "mux_ServeDNS (server_mux srv) r =
    Some (if served (servingDomains srv) ls then HandleQuestions else NotZone)"
proof -
  have ls: "name_labels ls" using assms(4,5) by (auto simp: name_labels_def)
  let ?z = "mux_z (server_mux srv)"
  have z: "?z (ToLower (fqdn (drop k ls))) =
      (if fqdn (map ToLower (drop k ls)) \<in> set (servingDomains srv) then Some HandleQuestions else None)"
    if "k < length ls" for k
  proof -
    have "[] \<notin> set (drop k ls)" "list_all label_ok (drop k ls)"
      using assms(4,5) by (auto simp: list_all_iff dest: in_set_dropD)
    then have "name_labels (drop k ls)" by (auto simp: name_labels_def)
    then show ?thesis using served_labels [OF assms(1), of "drop k ls"] that by simp
  qed
  have "mux_ServeDNS (server_mux srv) r = first_hit ?z ls"
    using assms(2,3,6) mux_match_labels [OF ls] by (simp add: mux_ServeDNS_def)
  also have "\<dots> = (if \<exists>k < length ls. fqdn (map ToLower (drop k ls)) \<in> set (servingDomains srv)
      then Some HandleQuestions else ?z ''.'')"
    by (rule first_hit_uniform [where P = "\<lambda>k. fqdn (map ToLower (drop k ls)) \<in> set (servingDomains srv)"])
      (rule z)
  also have "?z ''.'' = Some NotZone" using assms(1) by (simp add: server_of_def)
  finally show ?thesis using served_iff_drop [OF ls assms(5)] by simp
qed

lemma server_dispatch_DS:
  assumes "server_of lookup opts srv" "Questions r = q # qs" "QName q = fqdn ls" "name_labels ls"
    and "Qtype q = TypeDS"
  shows "mux_ServeDNS (server_mux srv) r = Some NotZone"
  using assms mux_match_DS [OF assms(4), of "server_mux srv" NotZone]
  by (simp add: mux_ServeDNS_def server_of_def)

lemma splitHosts_early: "splitHosts_loop lookup es out = Inl hs \<Longrightarrow> hs = [''0.0.0.0'']"
  by (induction es arbitrary: out) (simp_all split: if_splits option.splits)

lemma splitHosts_any:
  "e \<in> set es \<Longrightarrow> ParseIP e = Some ip \<Longrightarrow> IP_String (Some ip) = ''0.0.0.0'' \<Longrightarrow>
   \<exists>hs. splitHosts_loop lookup es out = Inl hs"
proof (induction es arbitrary: out)
  case (Cons h rest)
  show ?case
  proof (cases "e = h")
    case True
    then have "h \<noteq> []" using Cons.prems(2) by auto
    then show ?thesis using True Cons.prems by simp
  next
    case False
    then have "\<exists>hs. splitHosts_loop lookup rest out = Inl hs" for out
      using Cons.IH Cons.prems by simp
    then show ?thesis by (simp split: option.splits)
  qed
qed simp

lemma splitHosts_none:
  "\<forall>e \<in> set es. ParseIP e = None \<and> lookup e = None \<Longrightarrow> splitHosts_loop lookup es out = Inr out"
  by (induction es) auto

lemma splitHosts_nonempty: "splitHosts lookup s \<noteq> []"
proof (cases "splitHosts_loop lookup (split_on CHR '','' s) []")
  case (Inl hs)
  then show ?thesis using splitHosts_early [OF Inl] by (simp add: splitHosts_def)
qed (auto simp: splitHosts_def)

lemma main_server_of:
  assumes "main lookup opts = Ok (Inr srv)"
  shows "server_of lookup opts srv"
proof -
  have "opt_domain opts \<noteq> ''''" "splitDomains (opt_domain opts) \<noteq> []"
    "\<not> (opt_tcpOff opts \<and> opt_udpOff opts)"
    using assms by (auto simp: main_def Let_def split: if_splits)
  from main_serves [OF this, of lookup] assms show ?thesis by auto
qed

section \<open>Properties\<close>

text \<open>C37: \<open>checkDomain\<close> accepts exactly the host names: one or more labels of letters, digits and
  hyphens that neither begin nor end with a hyphen, joined by dots, with or without a final dot.\<close>

theorem checkDomain_iff:
  "checkDomain d \<longleftrightarrow>
     (\<exists>ls. ls \<noteq> [] \<and>
       list_all (\<lambda>l. l \<noteq> [] \<and> alnum (hd l) \<and> alnum (last l) \<and> list_all alnum_hyphen l) ls \<and>
       (d = join_with CHR ''.'' ls \<or> d = join_with CHR ''.'' ls @ ''.''))"
proof -
  have "wire_labels ls = join_with CHR ''.'' ls @ ''.''" if "ls \<noteq> []" for ls
    using that by (induction ls rule: induct_list012) auto
  then show ?thesis
    unfolding checkDomain_labels by (auto simp: host_label_def list_all_iff)
qed

text \<open>C30: \<open>splitDomains\<close> serves exactly the entries of the comma-separated list that are host
  names once trimmed, each with a final dot, in the order of the list.\<close>

theorem splitDomains_entries:
  "splitDomains s =
     filter (\<lambda>d. \<exists>ls. ls \<noteq> [] \<and> list_all host_label ls \<and> d = fqdn ls)
       (map (\<lambda>e. Fqdn (TrimSpace e)) (filter (\<lambda>e. TrimSpace e \<noteq> '''') (split_on CHR '','' s)))"
proof -
  have "filter checkDomain (map Fqdn ds) =
      filter (\<lambda>d. \<exists>ls. ls \<noteq> [] \<and> list_all host_label ls \<and> d = fqdn ls) (map Fqdn ds)" for ds
  proof (rule filter_cong [OF refl])
    fix d assume "d \<in> set (map Fqdn ds)"
    then obtain t where "d = Fqdn t" by auto
    then show "checkDomain d = (\<exists>ls. ls \<noteq> [] \<and> list_all host_label ls \<and> d = fqdn ls)"
      by (simp only: checkDomain_Fqdn)
  qed
  from this [of "filter (\<lambda>d. d \<noteq> []) (map TrimSpace (split_on CHR '','' s))"]
  show ?thesis unfolding splitDomains_def splitDomains_loop_eq
    by (simp add: filter_map comp_def)
qed

text \<open>C31: \<open>splitHosts\<close> always gives a host to bind to: the list is never empty, an entry that is
  an address printing as 0.0.0.0 replaces the whole list, and with neither such an entry nor
  one that is an address or resolves, the list is 0.0.0.0 alone.\<close>

theorem splitHosts_total:
  "splitHosts lookup s \<noteq> [] \<and>
   ((\<exists>e \<in> set (split_on CHR '','' s). \<exists>ip. ParseIP e = Some ip \<and> IP_String (Some ip) = ''0.0.0.0'') \<longrightarrow>
     splitHosts lookup s = [''0.0.0.0'']) \<and>
   ((\<forall>e \<in> set (split_on CHR '','' s). ParseIP e = None \<and> lookup e = None) \<longrightarrow>
     splitHosts lookup s = [''0.0.0.0''])"
proof (cases "splitHosts_loop lookup (split_on CHR '','' s) []")
  case (Inl hs)
  then show ?thesis using splitHosts_early [OF Inl] splitHosts_none [of "split_on CHR '','' s" lookup "[]"]
    by (auto simp: splitHosts_def)
next
  case (Inr hs)
  then show ?thesis
    using splitHosts_any [of _ "split_on CHR '','' s" _ lookup "[]"]
      splitHosts_none [of "split_on CHR '','' s" lookup "[]"]
    by (auto simp: splitHosts_def)
qed

theorem splitHosts_total_witness:
  "splitHosts (\<lambda>h. None) ''10.0.0.1,0.0.0.0'' = [''0.0.0.0'']"
proof -
  have "\<exists>e \<in> set (split_on CHR '','' ''10.0.0.1,0.0.0.0''). \<exists>ip. ParseIP e = Some ip \<and> IP_String (Some ip) = ''0.0.0.0''"
  proof (rule bexI)
    show "''0.0.0.0'' \<in> set (split_on CHR '','' ''10.0.0.1,0.0.0.0'')" by code_simp
    show "\<exists>ip. ParseIP ''0.0.0.0'' = Some ip \<and> IP_String (Some ip) = ''0.0.0.0''"
      by (rule exI [of _ "v4InV6Prefix @ [0, 0, 0, 0]"]) code_simp
  qed
  then show ?thesis using splitHosts_total [of "\<lambda>h. None" "''10.0.0.1,0.0.0.0''"] by blast
qed

text \<open>C35: \<open>main\<close> starts serving exactly when a domain is given, at least one valid domain is left
  and TCP and UDP are not both off; it never panics.  A started server serves the valid domains,
  listens on at least one address, never on a protocol that is off, and its multiplexer has
  exactly the served domains and the root.\<close>

theorem main_starts:
  "(if opt_domain opts \<noteq> '''' \<and> splitDomains (opt_domain opts) \<noteq> [] \<and> \<not> (opt_tcpOff opts \<and> opt_udpOff opts)
    then \<exists>srv. main lookup opts = Ok (Inr srv) \<and>
      servingDomains srv = splitDomains (opt_domain opts) \<and>
      listeners srv \<noteq> [] \<and>
      (''tcp'' \<in> fst ` set (listeners srv) \<longleftrightarrow> \<not> opt_tcpOff opts) \<and>
      (''udp'' \<in> fst ` set (listeners srv) \<longleftrightarrow> \<not> opt_udpOff opts) \<and>
      dom (mux_z (server_mux srv)) = insert ''.'' (set (splitDomains (opt_domain opts)))
    else \<exists>msg. main lookup opts = Ok (Inl msg))"
proof (cases "opt_domain opts \<noteq> '''' \<and> splitDomains (opt_domain opts) \<noteq> [] \<and> \<not> (opt_tcpOff opts \<and> opt_udpOff opts)")
  case True
  then obtain srv where srv: "main lookup opts = Ok (Inr srv)" "server_of lookup opts srv"
    using main_serves by blast
  obtain h hs where hosts: "splitHosts lookup (opt_hosts opts) = h # hs"
    using splitHosts_nonempty [of lookup "opt_hosts opts"] by (cases "splitHosts lookup (opt_hosts opts)") auto
  have "listeners srv \<noteq> []" "''tcp'' \<in> fst ` set (listeners srv) \<longleftrightarrow> \<not> opt_tcpOff opts"
    "''udp'' \<in> fst ` set (listeners srv) \<longleftrightarrow> \<not> opt_udpOff opts"
    using srv(2) True by (auto simp: server_of_def start_listeners_def hosts)
  moreover have "servingDomains srv = splitDomains (opt_domain opts)"
    "dom (mux_z (server_mux srv)) = insert ''.'' (set (splitDomains (opt_domain opts)))"
    using srv(2) by (auto simp: server_of_def dom_def)
  ultimately show ?thesis using True srv(1) by auto
next
  case False
  then show ?thesis by (auto simp: main_def Let_def)
qed

text \<open>C33: Dispatch: a running server answers a request (of any type but DS) with \<open>handleQuestions\<close>
  exactly when the labels of a served domain end the name of the first question, the name being
  lowered but the domain not, and with the NOTZONE handler otherwise.  So a domain configured
  with an upper-case letter is never served.  A request with several questions is dispatched on the
  first one, too, although the comment of \<open>ServeMux.ServeDNS\<close> promises a SERVFAIL for it.\<close>

theorem server_dispatches:
  assumes "main lookup opts = Ok (Inr srv)" "Questions r = q # qs" "QName q = fqdn ls"
    and "list_all label_ok ls" "[] \<notin> set ls" "Qtype q \<noteq> TypeDS"
  shows "server_reply srv draws addr r =
    (if \<exists>ds. ds \<noteq> [] \<and> fqdn ds \<in> set (splitDomains (opt_domain opts)) \<and> name_labels ds \<and>
          suffix ds (map ToLower ls)
     then handleQuestions (splitDomains (opt_domain opts)) (opt_compress opts) draws addr r
     else Ok (notzone_handler (opt_compress opts) r))"
proof -
  have so: "server_of lookup opts srv" by (rule main_server_of [OF assms(1)])
  then have "servingDomains srv = splitDomains (opt_domain opts)" "server_compress srv = opt_compress opts"
    by (simp_all add: server_of_def)
  then show ?thesis using server_dispatch [OF so assms(2-)]
    by (cases "served (splitDomains (opt_domain opts)) ls") (auto simp: server_reply_def served_def)
qed

text \<open>C39: A DS query is never answered by \<open>handleQuestions\<close>, not even for a name below a served
  domain: the multiplexer gives it to the handler of the root, which says NOTZONE.\<close>

theorem server_DS_notzone:
  assumes "main lookup opts = Ok (Inr srv)" "Questions r = q # qs" "QName q = fqdn ls" "name_labels ls"
    and "Qtype q = TypeDS"
  shows "\<exists>m. server_reply srv draws addr r = Ok m \<and> Rcode m = RcodeNotZone \<and> Answer m = []"
proof -
  have so: "server_of lookup opts srv" by (rule main_server_of [OF assms(1)])
  show ?thesis using server_dispatch_DS [OF so assms(2-)]
    by (auto simp: server_reply_def notzone_handler_def SetReply_def new_Msg_def assms(2))
qed

theorem server_dispatches_witness:
  "\<exists>srv. main (\<lambda>h. None) \<lparr>opt_hosts = '''', opt_domain = ''gyip.io'', opt_port = ''53'',
      opt_tcpOff = False, opt_udpOff = False, opt_compress = False\<rparr> = Ok (Inr srv) \<and>
    server_reply srv (\<lambda>_. 0) OtherAddr
      (new_Msg\<lparr>Questions := [\<lparr>QName = ''x.Gyip.io.'', Qtype = TypeA, Qclass = ClassINET\<rparr>]\<rparr>) =
    handleQuestions [''gyip.io.''] False (\<lambda>_. 0) OtherAddr
      (new_Msg\<lparr>Questions := [\<lparr>QName = ''x.Gyip.io.'', Qtype = TypeA, Qclass = ClassINET\<rparr>]\<rparr>)"
proof -
  let ?opts = "\<lparr>opt_hosts = '''', opt_domain = ''gyip.io'', opt_port = ''53'',
      opt_tcpOff = False, opt_udpOff = False, opt_compress = False\<rparr>"
  let ?q = "\<lparr>QName = ''x.Gyip.io.'', Qtype = TypeA, Qclass = ClassINET\<rparr>"
  let ?ls = "[''x'', ''Gyip'', ''io'']"
  have doms: "splitDomains (opt_domain ?opts) = [''gyip.io.'']" by code_simp
  then obtain srv where srv: "main (\<lambda>h. None) ?opts = Ok (Inr srv)"
    using main_serves [of ?opts "\<lambda>h. None"] by auto
  have "map ToLower ?ls = [''x''] @ [''gyip'', ''io'']" by code_simp
  then have "suffix [''gyip'', ''io''] (map ToLower ?ls)" unfolding suffix_def by blast
  moreover have "fqdn [''gyip'', ''io''] = ''gyip.io.''" "name_labels [''gyip'', ''io'']" by code_simp+
  ultimately have ex: "\<exists>ds. ds \<noteq> [] \<and> fqdn ds \<in> set (splitDomains (opt_domain ?opts)) \<and> name_labels ds \<and>
      suffix ds (map ToLower ?ls)"
    unfolding doms by (intro exI [of _ "[''gyip'', ''io'']"]) simp
  have "Questions (new_Msg\<lparr>Questions := [?q]\<rparr>) = [?q]" by simp
  moreover have "QName ?q = fqdn ?ls" by code_simp
  moreover have "list_all label_ok ?ls" "[] \<notin> set ?ls" "Qtype ?q \<noteq> TypeDS" by code_simp+
  ultimately have "server_reply srv (\<lambda>_. 0) OtherAddr (new_Msg\<lparr>Questions := [?q]\<rparr>) =
      handleQuestions (splitDomains (opt_domain ?opts)) (opt_compress ?opts) (\<lambda>_. 0) OtherAddr (new_Msg\<lparr>Questions := [?q]\<rparr>)"
    using server_dispatches [OF srv, of "new_Msg\<lparr>Questions := [?q]\<rparr>" ?q "[]" ?ls "\<lambda>_. 0" OtherAddr] ex by simp
  with srv show ?thesis unfolding doms by auto
qed

theorem server_DS_notzone_witness:
  "\<exists>srv m. main (\<lambda>h. None) \<lparr>opt_hosts = '''', opt_domain = ''gyip.io'', opt_port = ''53'',
      opt_tcpOff = False, opt_udpOff = False, opt_compress = False\<rparr> = Ok (Inr srv) \<and>
    server_reply srv (\<lambda>_. 0) OtherAddr
      (new_Msg\<lparr>Questions := [\<lparr>QName = ''gyip.io.'', Qtype = TypeDS, Qclass = ClassINET\<rparr>]\<rparr>) = Ok m \<and>
    Rcode m = RcodeNotZone"
proof -
  let ?opts = "\<lparr>opt_hosts = '''', opt_domain = ''gyip.io'', opt_port = ''53'',
      opt_tcpOff = False, opt_udpOff = False, opt_compress = False\<rparr>"
  let ?q = "\<lparr>QName = ''gyip.io.'', Qtype = TypeDS, Qclass = ClassINET\<rparr>"
  have doms: "splitDomains (opt_domain ?opts) = [''gyip.io.'']" by code_simp
  then obtain srv where srv: "main (\<lambda>h. None) ?opts = Ok (Inr srv)"
    using main_serves [of ?opts "\<lambda>h. None"] by auto
  have "Questions (new_Msg\<lparr>Questions := [?q]\<rparr>) = [?q]" by simp
  moreover have "QName ?q = fqdn [''gyip'', ''io'']" "name_labels [''gyip'', ''io'']" by code_simp+
  moreover have "Qtype ?q = TypeDS" by simp
  ultimately have "\<exists>m. server_reply srv (\<lambda>_. 0) OtherAddr (new_Msg\<lparr>Questions := [?q]\<rparr>) = Ok m \<and>
      Rcode m = RcodeNotZone \<and> Answer m = []"
    by (rule server_DS_notzone [OF srv])
  with srv show ?thesis by blast
qed

end
