(* ===== verification/Wire_Fields.thy ===== *)
theory Wire_Fields
  imports Dns_Types
begin

unbundle bit_operations_syntax

text \<open>
  The wire format of fixed-size fields: the packers and unpackers of \<open>msg_helpers.go\<close> for
  unsigned integers and addresses.

  A packer of the code takes \<open>(msg, off)\<close>, writes into \<open>msg\<close> and returns the new offset; here it
  maps a buffer \<open>pbuf\<close> (the bytes, the offset and the compression map, nil being \<open>None\<close>) to a
  buffer.  The offset a failed packer returns is never used and not modelled.  An unpacker maps
  \<open>msg\<close> and \<open>off\<close> to the value and the new offset.

  The locale \<open>wire_format\<close> is the contract between the two: a value has a wire image, the packer
  writes the image or reports an error, the unpacker reads it back.  The round trip and the
  composition of fields are proved from the contract and it is interpreted for every field.
\<close>

section \<open>Buffers\<close>

record pbuf =
  pmsg :: "byte list"
  poff :: nat
  pcomp :: "(string \<Rightarrow> nat option) option"

text \<open>\<open>copy(msg[off:], bs)\<close> when the bytes fit.\<close>

definition put :: "byte list \<Rightarrow> nat \<Rightarrow> byte list \<Rightarrow> byte list" where
  "put bs off msg = take off msg @ bs @ drop (off + length bs) msg"

definition emit :: "byte list \<Rightarrow> pbuf \<Rightarrow> pbuf" where
  "emit bs b = b\<lparr>pmsg := put bs (poff b) (pmsg b), poff := poff b + length bs\<rparr>"

definition bytes_at :: "byte list \<Rightarrow> nat \<Rightarrow> byte list \<Rightarrow> bool" where
  "bytes_at msg off bs \<longleftrightarrow> take (length bs) (drop off msg) = bs \<and> off + length bs \<le> length msg"

lemma length_put [simp]: "off + length bs \<le> length msg \<Longrightarrow> length (put bs off msg) = length msg"
  by (simp add: put_def)

lemma nth_put:
  assumes "off + length bs \<le> length msg" "i < length msg"
  shows "put bs off msg ! i = (if i < off then msg ! i else if i < off + length bs then bs ! (i - off) else msg ! i)"
proof (cases "i < off")
  case True
  then show ?thesis using assms by (simp add: put_def nth_append)
next
  case ge: False
  then have "put bs off msg ! i = (bs @ drop (off + length bs) msg) ! (i - off)"
    using assms by (simp add: put_def nth_append [of "take off msg"] min_absorb2)
  also have "\<dots> = (if i - off < length bs then bs ! (i - off) else msg ! i)"
    using ge assms by (simp add: nth_append)
  finally show ?thesis using ge by auto
qed

lemma put_Nil [simp]: "off \<le> length msg \<Longrightarrow> put [] off msg = msg"
  by (simp add: put_def)

lemma put_put:
  "off + length xs + length ys \<le> length msg \<Longrightarrow>
   put ys (off + length xs) (put xs off msg) = put (xs @ ys) off msg"
  by (cases xs) (auto simp: put_def min_def add.commute add.left_commute)

lemma bytes_at_put: "off + length bs \<le> length msg \<Longrightarrow> bytes_at (put bs off msg) off bs"
  by (simp add: bytes_at_def put_def)

lemma bytes_at_append:
  "bytes_at msg off (xs @ ys) \<longleftrightarrow> bytes_at msg off xs \<and> bytes_at msg (off + length xs) ys"
proof
  assume "bytes_at msg off (xs @ ys)"
  then have a: "take (length xs + length ys) (drop off msg) = xs @ ys"
    "off + length xs + length ys \<le> length msg"
    by (simp_all add: bytes_at_def)
  have "take (length xs) (take (length xs + length ys) (drop off msg)) = xs"
    "drop (length xs) (take (length xs + length ys) (drop off msg)) = ys"
    unfolding a(1) by simp_all
  then show "bytes_at msg off xs \<and> bytes_at msg (off + length xs) ys"
    using a(2) by (simp add: bytes_at_def drop_take add.commute)
next
  assume "bytes_at msg off xs \<and> bytes_at msg (off + length xs) ys"
  then show "bytes_at msg off (xs @ ys)"
    by (simp add: bytes_at_def take_add add.commute)
qed

lemma bytes_at_Nil [simp]: "bytes_at msg off [] \<longleftrightarrow> off \<le> length msg"
  by (simp add: bytes_at_def)

lemma bytes_at_Cons:
  "bytes_at msg off (x # xs) \<longleftrightarrow> off < length msg \<and> msg ! off = x \<and> bytes_at msg (Suc off) xs"
proof -
  have "bytes_at msg off [x] \<longleftrightarrow> off < length msg \<and> msg ! off = x"
    by (auto simp: bytes_at_def take_Suc_conv_app_nth take_Suc hd_drop_conv_nth)
  then show ?thesis using bytes_at_append [of msg off "[x]" xs] by simp
qed

lemma bytes_at_keep:
  "bytes_at msg off bs \<Longrightarrow> off + length bs \<le> n \<Longrightarrow> n + length cs \<le> length msg \<Longrightarrow>
   bytes_at (put cs n msg) off bs"
  by (simp add: bytes_at_def put_def drop_take)

lemma emit_emit:
  "poff b + length xs + length ys \<le> length (pmsg b) \<Longrightarrow> emit ys (emit xs b) = emit (xs @ ys) b"
  by (simp add: emit_def put_put)

lemma emit_Nil [simp]: "poff b \<le> length (pmsg b) \<Longrightarrow> emit [] b = b"
  by (simp add: emit_def)

lemma emit_fields [simp]:
  "poff (emit bs b) = poff b + length bs"
  "pcomp (emit bs b) = pcomp b"
  "poff b + length bs \<le> length (pmsg b) \<Longrightarrow> length (pmsg (emit bs b)) = length (pmsg b)"
  by (simp_all add: emit_def)

section \<open>The contract of a field\<close>

text \<open>
  A packing step writes its image when there is room.  Without room it fails, or (a name whose
  last byte does not fit) it returns an offset behind the end of the buffer, on which every later
  step that writes anything fails.  The contract is about messages without compression map; names
  are the only field for which the map matters.
\<close>

definition overrun :: "pbuf \<Rightarrow> pbuf \<Rightarrow> bool" where
  "overrun b b' \<longleftrightarrow> length (pmsg b') = length (pmsg b) \<and> length (pmsg b) < poff b' \<and> pcomp b' = None"

definition fits :: "byte list \<Rightarrow> pbuf \<Rightarrow> bool" where
  "fits w b \<longleftrightarrow> poff b + length w \<le> length (pmsg b)"

definition writes :: "(pbuf \<Rightarrow> pbuf outcome) \<Rightarrow> byte list \<Rightarrow> bool" where
  "writes pack w \<longleftrightarrow>
     (\<forall>b. pcomp b = None \<longrightarrow>
        (if fits w b then pack b = Ok (emit w b) else \<forall>b'. pack b = Ok b' \<longrightarrow> overrun b b'))"

text \<open>The steps of a packer one after the other.\<close>

fun pack_all :: "(pbuf \<Rightarrow> pbuf outcome) list \<Rightarrow> pbuf \<Rightarrow> pbuf outcome" where
  "pack_all [] b = Ok b"
| "pack_all (f # fs) b = obind (f b) (pack_all fs)"

lemma pack_all_Nil [simp]: "pack_all [] = Ok"
  by (rule ext) simp

lemma writes_fits: "writes pack w \<Longrightarrow> pcomp b = None \<Longrightarrow> fits w b \<Longrightarrow> pack b = Ok (emit w b)"
  by (simp add: writes_def)

lemma writes_OkD:
  "writes pack w \<Longrightarrow> pcomp b = None \<Longrightarrow> pack b = Ok b' \<Longrightarrow>
   fits w b \<and> b' = emit w b \<or> \<not> fits w b \<and> overrun b b'"
  unfolding writes_def by (metis outcome.inject(1))

lemma writesI:
  assumes "\<And>b. pcomp b = None \<Longrightarrow> fits w b \<Longrightarrow> pack b = Ok (emit w b)"
    and "\<And>b b'. pcomp b = None \<Longrightarrow> \<not> fits w b \<Longrightarrow> pack b = Ok b' \<Longrightarrow> overrun b b'"
  shows "writes pack w"
  using assms by (simp add: writes_def)

lemma fits_append: "fits (v @ w) b \<longleftrightarrow> fits v b \<and> fits w (emit v b)"
  by (auto simp: fits_def)

lemma overrun_not_fits: "overrun b b' \<Longrightarrow> \<not> fits w b'"
  by (simp add: overrun_def fits_def)

lemma overrun_trans: "overrun b b' \<Longrightarrow> overrun b' b'' \<Longrightarrow> overrun b b''"
  by (simp add: overrun_def)

lemma overrun_emit: "fits v b \<Longrightarrow> overrun (emit v b) b' \<Longrightarrow> overrun b b'"
  by (simp add: overrun_def fits_def)

lemma writes_Ok: "writes Ok []"
  by (rule writesI) (simp_all add: fits_def overrun_def)

lemma writes_seq:
  assumes f: "writes f v" and g: "writes g w"
  shows "writes (\<lambda>b. obind (f b) g) (v @ w)"
proof (rule writesI)
  fix b :: pbuf
  assume c: "pcomp b = None" and "fits (v @ w) b"
  then have v: "fits v b" and w: "fits w (emit v b)" by (simp_all add: fits_append)
  have "emit w (emit v b) = emit (v @ w) b"
    using v w by (intro emit_emit) (simp add: fits_def)
  then show "obind (f b) g = Ok (emit (v @ w) b)"
    using writes_fits [OF f c v] writes_fits [OF g _ w] c by simp
next
  fix b b' :: pbuf
  assume c: "pcomp b = None" and nf: "\<not> fits (v @ w) b" and "obind (f b) g = Ok b'"
  then obtain b1 where 1: "f b = Ok b1" "g b1 = Ok b'" by auto
  from writes_OkD [OF f c 1(1)] show "overrun b b'"
  proof
    assume "fits v b \<and> b1 = emit v b"
    then show ?thesis
      using writes_OkD [OF g _ 1(2)] c nf by (auto simp: fits_append intro: overrun_emit)
  next
    assume o: "\<not> fits v b \<and> overrun b b1"
    then have "\<not> fits w b1" using overrun_not_fits by blast
    then show ?thesis
      using writes_OkD [OF g _ 1(2)] o by (auto simp: overrun_def)
  qed
qed

lemma writes_all: "list_all2 writes fs ws \<Longrightarrow> writes (pack_all fs) (concat ws)"
proof (induction fs ws rule: list_all2_induct)
  case Nil
  show ?case using writes_Ok by simp
next
  case (Cons f fs w ws)
  have "pack_all (f # fs) = (\<lambda>b. obind (f b) (pack_all fs))" by (rule ext) simp
  then show ?case using writes_seq [OF Cons(1,3)] by simp
qed

definition reads :: "(byte list \<Rightarrow> nat \<Rightarrow> ('a \<times> nat) outcome) \<Rightarrow> 'a \<Rightarrow> byte list \<Rightarrow> bool" where
  "reads unpack x w \<longleftrightarrow> (\<forall>msg off. bytes_at msg off w \<longrightarrow> unpack msg off = Ok (x, off + length w))"

text \<open>An unpacker that comes back on all bytes, with an offset inside the message.\<close>

definition inside :: "byte list \<Rightarrow> nat \<Rightarrow> ('a \<times> nat) outcome \<Rightarrow> bool" where
  "inside msg off m \<longleftrightarrow>
     (case m of
        Ok r \<Rightarrow> off \<le> snd r \<and> snd r \<le> length msg
      | Err e \<Rightarrow> True | Panic p \<Rightarrow> False | Loops \<Rightarrow> False)"

definition stays :: "(byte list \<Rightarrow> nat \<Rightarrow> ('a \<times> nat) outcome) \<Rightarrow> bool" where
  "stays unpack \<longleftrightarrow> (\<forall>msg off. off \<le> length msg \<longrightarrow> inside msg off (unpack msg off))"

named_theorems inside_rules "introduction rules for unpackers that stay inside the message"

lemma inside_simps [simp]:
  "inside msg off (Ok r) \<longleftrightarrow> off \<le> snd r \<and> snd r \<le> length msg"
  "inside msg off (Err e)" "\<not> inside msg off (Panic p)" "\<not> inside msg off Loops"
  by (simp_all add: inside_def)

lemma inside_safe: "inside msg off m \<Longrightarrow> safe m"
  by (cases m) simp_all

lemma inside_OkD: "inside msg off m \<Longrightarrow> m = Ok (x, off') \<Longrightarrow> off \<le> off' \<and> off' \<le> length msg"
  by simp

lemma inside_bind [inside_rules]:
  assumes "inside msg off m"
    and "\<And>x off'. m = Ok (x, off') \<Longrightarrow> off \<le> off' \<Longrightarrow> off' \<le> length msg \<Longrightarrow> inside msg off' (f (x, off'))"
  shows "inside msg off (obind m f)"
proof (cases m)
  case (Ok r)
  then show ?thesis using assms(1) assms(2) [of "fst r" "snd r"]
    by (cases "f r") auto
qed (use assms(1) in simp_all)

lemma inside_Ok [inside_rules]: "off \<le> off' \<Longrightarrow> off' \<le> length msg \<Longrightarrow> inside msg off (Ok (x, off'))"
  by simp

lemma inside_Err [inside_rules]: "inside msg off (Err e)"
  by simp

lemma inside_if [inside_rules]:
  "(c \<Longrightarrow> inside msg off m) \<Longrightarrow> (\<not> c \<Longrightarrow> inside msg off m') \<Longrightarrow> inside msg off (if c then m else m')"
  by simp

lemma inside_case_prod [inside_rules]:
  "inside msg off (f (fst r) (snd r)) \<Longrightarrow> inside msg off (case r of (x, y) \<Rightarrow> f x y)"
  by (simp add: case_prod_beta)

lemma stays_inside: "stays unpack \<Longrightarrow> off \<le> length msg \<Longrightarrow> inside msg off (unpack msg off)"
  by (simp add: stays_def)

locale wire_format =
  fixes pack :: "'a \<Rightarrow> pbuf \<Rightarrow> pbuf outcome"
    and unpack :: "byte list \<Rightarrow> nat \<Rightarrow> ('a \<times> nat) outcome"
    and image :: "'a \<Rightarrow> byte list"
    and valid :: "'a \<Rightarrow> bool"
  assumes pack_image: "valid x \<Longrightarrow> writes (pack x) (image x)"
    and unpack_image: "valid x \<Longrightarrow> reads unpack x (image x)"
    and unpack_stays: "stays unpack"
begin

lemma pack_fits: "valid x \<Longrightarrow> pcomp b = None \<Longrightarrow> fits (image x) b \<Longrightarrow> pack x b = Ok (emit (image x) b)"
  by (rule writes_fits [OF pack_image])

lemma pack_OkD:
  "valid x \<Longrightarrow> pcomp b = None \<Longrightarrow> pack x b = Ok b' \<Longrightarrow> poff b' \<le> length (pmsg b') \<Longrightarrow>
   fits (image x) b \<and> b' = emit (image x) b"
  using writes_OkD [OF pack_image, of x b b'] by (auto simp: overrun_def)

text \<open>What is packed is unpacked again, also after more bytes have been written behind it.\<close>

lemma round_trip:
  assumes "valid x" "pcomp b = None" "pack x b = Ok b'"
    and "poff b' \<le> n" "n + length cs \<le> length (pmsg b')"
  shows "unpack (put cs n (pmsg b')) (poff b) = Ok (x, poff b')"
proof -
  have b': "fits (image x) b" "b' = emit (image x) b"
    using pack_OkD [OF assms(1-3)] assms(4,5) by simp_all
  then have "bytes_at (put cs n (pmsg b')) (poff b) (image x)"
    using assms(4,5) by (intro bytes_at_keep) (simp_all add: emit_def fits_def bytes_at_put)
  with unpack_image [OF assms(1)] b' show ?thesis by (simp add: reads_def)
qed

lemma unpack_inside: "off \<le> length msg \<Longrightarrow> inside msg off (unpack msg off)"
  using unpack_stays by (rule stays_inside)

lemma unpack_safe: "off \<le> length msg \<Longrightarrow> safe (unpack msg off)"
  by (rule inside_safe) (rule unpack_inside)

lemma read_field: "valid x \<Longrightarrow> bytes_at msg off (image x) \<Longrightarrow> unpack msg off = Ok (x, off + length (image x))"
  using unpack_image [of x] by (simp add: reads_def)

end

section \<open>Unsigned integers\<close>

text \<open>\<open>binary.BigEndian\<close>: the \<open>n\<close> low bytes of a word, most significant first, and back.\<close>

definition be_bytes :: "nat \<Rightarrow> 'a :: len word \<Rightarrow> byte list" where
  "be_bytes n w = map (\<lambda>k. ucast (drop_bit (8 * (n - 1 - k)) w)) [0 ..< n]"

definition be_word :: "byte list \<Rightarrow> 'a :: len word" where
  "be_word bs = foldl (\<lambda>w b. push_bit 8 w OR ucast b) 0 bs"

definition overflow :: "string \<Rightarrow> go_error" where
  "overflow what = Error (''overflow '' @ what)"

text \<open>The common shape of the integer packers: a length check, the bytes, the new offset.\<close>

definition pack_uint :: "nat \<Rightarrow> string \<Rightarrow> 'a :: len word \<Rightarrow> pbuf \<Rightarrow> pbuf outcome" where
  "pack_uint n what i b =
     (if poff b + n > length (pmsg b) then Err (overflow what)
      else Ok (emit (be_bytes n i) b))"

definition unpack_uint :: "nat \<Rightarrow> string \<Rightarrow> byte list \<Rightarrow> nat \<Rightarrow> ('a :: len word \<times> nat) outcome" where
  "unpack_uint n what msg off =
     (if off + n > length msg then Err (overflow what)
      else Ok (be_word (take n (drop off msg)), off + n))"

definition packUint8 :: "byte \<Rightarrow> pbuf \<Rightarrow> pbuf outcome" where
  "packUint8 = pack_uint 1 ''packing uint8''"

definition unpackUint8 :: "byte list \<Rightarrow> nat \<Rightarrow> (byte \<times> nat) outcome" where
  "unpackUint8 = unpack_uint 1 ''unpacking uint8''"

definition packUint16 :: "uint16 \<Rightarrow> pbuf \<Rightarrow> pbuf outcome" where
  "packUint16 = pack_uint 2 ''packing uint16''"

definition unpackUint16 :: "byte list \<Rightarrow> nat \<Rightarrow> (uint16 \<times> nat) outcome" where
  "unpackUint16 = unpack_uint 2 ''unpacking uint16''"

definition packUint32 :: "uint32 \<Rightarrow> pbuf \<Rightarrow> pbuf outcome" where
  "packUint32 = pack_uint 4 ''packing uint32''"

definition unpackUint32 :: "byte list \<Rightarrow> nat \<Rightarrow> (uint32 \<times> nat) outcome" where
  "unpackUint32 = unpack_uint 4 ''unpacking uint32''"

definition packUint48 :: "uint64 \<Rightarrow> pbuf \<Rightarrow> pbuf outcome" where
  "packUint48 = pack_uint 6 ''packing uint64 as uint48''"

definition unpackUint48 :: "byte list \<Rightarrow> nat \<Rightarrow> (uint64 \<times> nat) outcome" where
  "unpackUint48 = unpack_uint 6 ''unpacking uint64 as uint48''"

definition packUint64 :: "uint64 \<Rightarrow> pbuf \<Rightarrow> pbuf outcome" where
  "packUint64 = pack_uint 8 ''packing uint64''"

definition unpackUint64 :: "byte list \<Rightarrow> nat \<Rightarrow> (uint64 \<times> nat) outcome" where
  "unpackUint64 = unpack_uint 8 ''unpacking uint64''"

lemma length_be_bytes [simp]: "length (be_bytes n w) = n"
  by (simp add: be_bytes_def)

lemma be_bytes_Suc: "be_bytes (Suc n) w = be_bytes n (drop_bit 8 w) @ [ucast w]"
  by (auto simp: be_bytes_def drop_bit_drop_bit add.commute intro!: arg_cong [of _ _ "\<lambda>k. ucast (drop_bit k w)"])

lemma be_word_snoc: "be_word (bs @ [b]) = push_bit 8 (be_word bs) OR ucast b"
  by (simp add: be_word_def)

lemma be_word_be_bytes: "be_word (be_bytes n w) = (take_bit (8 * n) w :: 'a :: len word)"
proof (induction n arbitrary: w)
  case 0
  show ?case by (simp add: be_word_def be_bytes_def)
next
  case (Suc n)
  have "push_bit 8 (take_bit (8 * n) (drop_bit 8 w)) OR (ucast (ucast w :: byte) :: 'a word) =
      take_bit (8 * Suc n) w"
  proof (rule bit_word_eqI)
    fix k assume "k < LENGTH('a)"
    then show "bit (push_bit 8 (take_bit (8 * n) (drop_bit 8 w)) OR (ucast (ucast w :: byte) :: 'a word)) k =
        bit (take_bit (8 * Suc n) w) k"
      by (cases "k < 8") (auto simp: bit_simps not_less)
  qed
  then show ?case by (simp add: be_bytes_Suc be_word_snoc Suc)
qed

lemma be_word_all:
  "LENGTH('a) \<le> 8 * n \<Longrightarrow> be_word (be_bytes n w) = (w :: 'a :: len word)"
  by (simp add: be_word_be_bytes take_bit_word_eq_self)

lemma uint_writes: "writes (pack_uint n what x) (be_bytes n x)"
  by (rule writesI) (auto simp: fits_def pack_uint_def)

lemma uint_reads: "be_word (be_bytes n x) = x \<Longrightarrow> reads (unpack_uint n what) x (be_bytes n x)"
  by (auto simp: reads_def unpack_uint_def bytes_at_def)

lemma uint_stays: "stays (unpack_uint n what)"
  by (auto simp: stays_def unpack_uint_def)

interpretation u8: wire_format packUint8 unpackUint8 "be_bytes 1" "\<lambda>x. True"
  unfolding packUint8_def unpackUint8_def
  by unfold_locales (simp_all add: uint_writes uint_reads uint_stays be_word_all)

interpretation u16: wire_format packUint16 unpackUint16 "be_bytes 2" "\<lambda>x. True"
  unfolding packUint16_def unpackUint16_def
  by unfold_locales (simp_all add: uint_writes uint_reads uint_stays be_word_all)

interpretation u32: wire_format packUint32 unpackUint32 "be_bytes 4" "\<lambda>x. True"
  unfolding packUint32_def unpackUint32_def
  by unfold_locales (simp_all add: uint_writes uint_reads uint_stays be_word_all)

interpretation u48: wire_format packUint48 unpackUint48 "be_bytes 6" "\<lambda>x. x = take_bit 48 x"
  unfolding packUint48_def unpackUint48_def
  by unfold_locales (simp_all add: uint_writes uint_reads uint_stays be_word_be_bytes)

interpretation u64: wire_format packUint64 unpackUint64 "be_bytes 8" "\<lambda>x. True"
  unfolding packUint64_def unpackUint64_def
  by unfold_locales (simp_all add: uint_writes uint_reads uint_stays be_word_all)

section \<open>Addresses\<close>

definition packDataA :: "IP \<Rightarrow> pbuf \<Rightarrow> pbuf outcome" where
  "packDataA a b =
     (if poff b + 4 > length (pmsg b) then Err (overflow ''packing a'')
      else if length a = 4 \<or> length a = 16 then
        (case To4 a of Some p \<Rightarrow> Ok (emit p b) | None \<Rightarrow> Ok (b\<lparr>poff := poff b + 4\<rparr>))
      else if length a = 0 then Ok b
      else Err (overflow ''packing a''))"

definition unpackDataA :: "byte list \<Rightarrow> nat \<Rightarrow> (IP \<times> nat) outcome" where
  "unpackDataA msg off =
     (if off + 4 > length msg then Err (overflow ''unpacking a'')
      else Ok (take 4 (drop off msg), off + 4))"

definition packDataAAAA :: "IP \<Rightarrow> pbuf \<Rightarrow> pbuf outcome" where
  "packDataAAAA aaaa b =
     (if poff b + 16 > length (pmsg b) then Err (overflow ''packing aaaa'')
      else if length aaaa = 16 then Ok (emit aaaa b)
      else if length aaaa = 0 then Ok b
      else Err (overflow ''packing aaaa''))"

definition unpackDataAAAA :: "byte list \<Rightarrow> nat \<Rightarrow> (IP \<times> nat) outcome" where
  "unpackDataAAAA msg off =
     (if off + 16 > length msg then Err (overflow ''unpacking aaaa'')
      else Ok (take 16 (drop off msg), off + 16))"

interpretation a: wire_format packDataA unpackDataA "\<lambda>p. p" "\<lambda>p. length p = 4"
  by unfold_locales
    (auto simp: writes_def fits_def reads_def stays_def packDataA_def unpackDataA_def To4_def bytes_at_def)

interpretation aaaa: wire_format packDataAAAA unpackDataAAAA "\<lambda>p. p" "\<lambda>p. length p = 16"
  by unfold_locales
    (auto simp: writes_def fits_def reads_def stays_def packDataAAAA_def unpackDataAAAA_def bytes_at_def)

section \<open>Properties\<close>

text \<open>Unsigned integers survive the wire: a 16, 32 or 64 bit value packed into a buffer is
  unpacked again from there whatever is written behind it; of a 48 bit field the low 48 bits
  survive.\<close>

theorem uint_round_trip:
  assumes "n + length cs \<le> length (pmsg b)" "pcomp b = None"
  shows "(packUint16 i b = Ok b' \<longrightarrow> poff b' \<le> n \<longrightarrow>
            unpackUint16 (put cs n (pmsg b')) (poff b) = Ok (i, poff b + 2)) \<and>
    (packUint32 j b = Ok b' \<longrightarrow> poff b' \<le> n \<longrightarrow>
            unpackUint32 (put cs n (pmsg b')) (poff b) = Ok (j, poff b + 4)) \<and>
    (packUint64 k b = Ok b' \<longrightarrow> poff b' \<le> n \<longrightarrow>
            unpackUint64 (put cs n (pmsg b')) (poff b) = Ok (k, poff b + 8)) \<and>
    (packUint48 k b = Ok b' \<longrightarrow> poff b' \<le> n \<longrightarrow>
            unpackUint48 (put cs n (pmsg b')) (poff b) = Ok (take_bit 48 k, poff b + 6))"
proof (intro conjI impI)
  { assume p: "packUint16 i b = Ok b'" "poff b' \<le> n"
    then have b': "b' = emit (be_bytes 2 i) b" "poff b + 2 \<le> length (pmsg b)"
      by (auto simp: packUint16_def pack_uint_def split: if_splits)
    then have "n + length cs \<le> length (pmsg b')" using assms by simp
    with u16.round_trip [OF _ assms(2) p] b'(1) show
      "unpackUint16 (put cs n (pmsg b')) (poff b) = Ok (i, poff b + 2)" by simp }
  { assume p: "packUint32 j b = Ok b'" "poff b' \<le> n"
    then have b': "b' = emit (be_bytes 4 j) b" "poff b + 4 \<le> length (pmsg b)"
      by (auto simp: packUint32_def pack_uint_def split: if_splits)
    then have "n + length cs \<le> length (pmsg b')" using assms by simp
    with u32.round_trip [OF _ assms(2) p] b'(1) show
      "unpackUint32 (put cs n (pmsg b')) (poff b) = Ok (j, poff b + 4)" by simp }
  { assume p: "packUint64 k b = Ok b'" "poff b' \<le> n"
    then have b': "b' = emit (be_bytes 8 k) b" "poff b + 8 \<le> length (pmsg b)"
      by (auto simp: packUint64_def pack_uint_def split: if_splits)
    then have "n + length cs \<le> length (pmsg b')" using assms by simp
    with u64.round_trip [OF _ assms(2) p] b'(1) show
      "unpackUint64 (put cs n (pmsg b')) (poff b) = Ok (k, poff b + 8)" by simp }
  { assume p: "packUint48 k b = Ok b'" "poff b' \<le> n"
    then have b': "b' = emit (be_bytes 6 k) b" "poff b + 6 \<le> length (pmsg b)"
      by (auto simp: packUint48_def pack_uint_def split: if_splits)
    have "bytes_at (put cs n (pmsg b')) (poff b) (be_bytes 6 k)"
      using p(2) b' assms by (intro bytes_at_keep) (simp_all add: emit_def bytes_at_put)
    then show "unpackUint48 (put cs n (pmsg b')) (poff b) = Ok (take_bit 48 k, poff b + 6)"
      by (auto simp: unpackUint48_def unpack_uint_def bytes_at_def be_word_be_bytes) }
qed

theorem uint_round_trip_witness:
  "unpackUint48 (put [] 6 (pmsg (emit (be_bytes 6 (2 ^ 48 + 5 :: uint64))
     \<lparr>pmsg = replicate 6 0, poff = 0, pcomp = None\<rparr>))) 0 = Ok (take_bit 48 (2 ^ 48 + 5), 6)"
proof -
  define b :: pbuf where "b = \<lparr>pmsg = replicate 6 0, poff = 0, pcomp = None\<rparr>"
  define k :: uint64 where "k = 2 ^ 48 + 5"
  have pre: "6 + length [] \<le> length (pmsg b)" "pcomp b = None" by (simp_all add: b_def)
  have "packUint48 k b = Ok (emit (be_bytes 6 k) b)"
    by (simp add: packUint48_def pack_uint_def b_def)
  moreover have "poff (emit (be_bytes 6 k) b) \<le> 6" by (simp add: b_def)
  ultimately have "unpackUint48 (put [] 6 (pmsg (emit (be_bytes 6 k) b))) (poff b) =
      Ok (take_bit 48 k, poff b + 6)"
    using uint_round_trip [OF pre, where k = k and b' = "emit (be_bytes 6 k) b"] by blast
  then show ?thesis unfolding b_def k_def by simp
qed

end
