(* ===== verification/Wire_Name.thy ===== *)
theory Wire_Name
  imports Wire_Fields Dns_Labels
begin

text \<open>
  Domain names on the wire: \<open>packDomainName\<close>, \<open>PackDomainName\<close>, \<open>UnpackDomainName\<close> (\<open>msg.go\<close>) and
  \<open>IsDomainName\<close> (\<open>defaults.go\<close>).

  The packer works on a copy \<open>bs\<close> of the name in which it resolves escapes in place, so that bytes
  of the name are left over behind \<open>ls\<close>; it writes each label when it reaches the dot behind it,
  and records or looks up the rest of the name in the compression map.  The unpacker follows
  pointers, at most ten of them.

  The specification of the wire format is the relation \<open>name_at\<close> (RFC 1035, 4.1.4): the labels
  found at an offset of a message, and how many pointers lead to them.  \<open>present\<close> is the
  presentation format of labels.
\<close>

section \<open>The packer\<close>

definition ErrBuf :: go_error where "ErrBuf = Error ''buffer size too small''"
definition ErrFqdn :: go_error where "ErrFqdn = Error ''domain must be fully qualified''"
definition ErrRdata :: go_error where "ErrRdata = Error ''bad rdata''"
definition ErrLongDomain :: go_error where
  "ErrLongDomain = Error ''domain name exceeded 255 wire-format octets''"

definition dddToByte :: "string \<Rightarrow> byte" where
  "dddToByte s = (byte_of (s ! 0) - 48) * 100 + (byte_of (s ! 1) - 48) * 10 + (byte_of (s ! 2) - 48)"

text \<open>The check for \<open>\DDD\<close> at position \<open>i\<close> of the first \<open>ls\<close> bytes.\<close>

definition is_ddd :: "string \<Rightarrow> nat \<Rightarrow> nat \<Rightarrow> bool" where
  "is_ddd bs i ls \<longleftrightarrow>
     i + 2 < ls \<and> is_digit (bs ! i) \<and> is_digit (bs ! (i + 1)) \<and> is_digit (bs ! (i + 2))"

record name_state =
  ns_bs :: string
  ns_ls :: nat
  ns_begin :: nat
  ns_off :: nat
  ns_labels :: nat
  ns_roBs :: string
  ns_bsFresh :: bool
  ns_escapedDot :: bool
  ns_msg :: "byte list option"
  ns_comp :: "(string \<Rightarrow> nat option) option"

text \<open>Moving the bytes from \<open>i + k\<close> on down by \<open>k\<close> places, up to \<open>ls\<close>; what is behind stays.\<close>

definition shift_down :: "nat \<Rightarrow> nat \<Rightarrow> nat \<Rightarrow> string \<Rightarrow> string" where
  "shift_down k i ls bs = take i bs @ take (ls - i - k) (drop (i + k) bs) @ drop (ls - k) bs"

text \<open>The backslash branch of the loop.\<close>

definition pack_escape :: "nat \<Rightarrow> nat \<Rightarrow> name_state \<Rightarrow> name_state outcome" where
  "pack_escape lenmsg i st =
     (let bs = shift_down 1 i (ns_ls st) (ns_bs st);
          ls = ns_ls st - 1
      in if ns_off st + 1 > lenmsg then Err ErrBuf
         else
           (let (bs, ls) =
              (if is_ddd bs i ls
               then (shift_down 2 (i + 1) ls (bs[i := char_of_byte (dddToByte (drop i bs))]), ls - 2)
               else (bs, ls))
            in Ok (st\<lparr>ns_bs := bs, ns_ls := ls, ns_escapedDot := (bs ! i = CHR ''.''),
                     ns_bsFresh := False\<rparr>)))"

text \<open>The bytes of a label; with a nil \<open>msg\<close> only the offset moves.\<close>

fun emit_label :: "nat \<Rightarrow> string \<Rightarrow> nat \<Rightarrow> byte list option \<Rightarrow> (nat \<times> byte list option) outcome" where
  "emit_label lenmsg [] off msg = Ok (off, msg)"
| "emit_label lenmsg (c # cs) off msg =
     (if off + 1 > lenmsg then Err ErrBuf
      else emit_label lenmsg cs (off + 1) (map_option (\<lambda>m. m[off := byte_of c]) msg))"

text \<open>Looking up a name in the compression map, or recording where it is: the new map, and the
  pointer when the name is to be compressed.\<close>

definition compress_name ::
    "bool \<Rightarrow> string \<Rightarrow> nat \<Rightarrow> (string \<Rightarrow> nat option) option \<Rightarrow>
     (string \<Rightarrow> nat option) option \<times> nat option" where
  "compress_name compress key offset cmap =
     (case cmap of
        None \<Rightarrow> (None, None)
      | Some compression \<Rightarrow>
          if key = ''.'' then (cmap, None)
          else
            (case compression key of
               None \<Rightarrow>
                 if offset < maxCompressionOffset then (Some (compression(key \<mapsto> offset)), None)
                 else (cmap, None)
             | Some p \<Rightarrow> if compress then (cmap, Some p) else (cmap, None)))"

text \<open>The dot branch; the second component is \<open>pointer\<close> and \<open>nameoffset\<close> after a hit.\<close>

definition pack_dot ::
    "bool \<Rightarrow> nat \<Rightarrow> nat \<Rightarrow> name_state \<Rightarrow> (name_state \<times> (nat \<times> nat) option) outcome" where
  "pack_dot compress lenmsg i st =
     (if i > 0 \<and> ns_bs st ! (i - 1) = CHR ''.'' \<and> \<not> ns_escapedDot st then Err ErrRdata
      else if i - ns_begin st \<ge> 64 then Err ErrRdata
      else if ns_off st + 1 > lenmsg then Err ErrBuf
      else
        (let offset = ns_off st;
             msg = map_option (\<lambda>m. m[offset := of_nat (i - ns_begin st)]) (ns_msg st)
         in obind (emit_label lenmsg (take (i - ns_begin st) (drop (ns_begin st) (ns_bs st)))
                     (offset + 1) msg) (\<lambda>(off, msg).
            let roBs = (if compress \<and> \<not> ns_bsFresh st then ns_bs st else ns_roBs st);
                fresh = (compress \<or> ns_bsFresh st);
                hit = compress_name compress (drop (ns_begin st) roBs) offset (ns_comp st);
                st' = st\<lparr>ns_off := off, ns_msg := msg, ns_roBs := roBs, ns_bsFresh := fresh, ns_comp := fst hit\<rparr>
            in case snd hit of
                 Some p \<Rightarrow> Ok (st', Some (p, offset))
               | None \<Rightarrow> Ok (st'\<lparr>ns_labels := ns_labels st + 1, ns_begin := i + 1\<rparr>, None))))"

lemma pack_escape_ls: "pack_escape lenmsg i st = Ok st' \<Longrightarrow> ns_ls st' \<le> ns_ls st - 1"
  by (auto simp: pack_escape_def Let_def split: if_splits)

lemma pack_dot_ls: "pack_dot compress lenmsg i st = Ok r \<Longrightarrow> ns_ls (fst r) = ns_ls st"
  by (auto simp: pack_dot_def Let_def split: if_splits option.splits)

function pack_name_loop ::
    "bool \<Rightarrow> nat \<Rightarrow> nat \<Rightarrow> name_state \<Rightarrow> (name_state \<times> (nat \<times> nat) option) outcome" where
  "pack_name_loop compress lenmsg i st =
     (if i < ns_ls st then
        (if ns_bs st ! i = CHR 0x5C then
           obind (pack_escape lenmsg i st) (\<lambda>st. pack_name_loop compress lenmsg (i + 1) st)
         else if ns_bs st ! i = CHR ''.'' then
           obind (pack_dot compress lenmsg i st) (\<lambda>r.
             if snd r \<noteq> None then Ok r
             else pack_name_loop compress lenmsg (i + 1) ((fst r)\<lparr>ns_escapedDot := False\<rparr>))
         else pack_name_loop compress lenmsg (i + 1) (st\<lparr>ns_escapedDot := False\<rparr>))
      else Ok (st, None))"
  by pat_completeness auto
termination
  by (relation "measure (\<lambda>(compress, lenmsg, i, st). ns_ls st - i)")
    (auto dest: pack_escape_ls pack_dot_ls)

declare pack_name_loop.simps [simp del]

definition packDomainName ::
    "string \<Rightarrow> byte list option \<Rightarrow> nat \<Rightarrow> (string \<Rightarrow> nat option) option \<Rightarrow> bool \<Rightarrow>
     (nat \<times> nat \<times> byte list option \<times> (string \<Rightarrow> nat option) option) outcome" where
  "packDomainName s msg off compression compress =
     (let lenmsg = (case msg of None \<Rightarrow> 256 | Some m \<Rightarrow> length m)
      in if length s = 0 then Ok (off, 0, msg, compression)
         else if msg \<noteq> None \<and> s ! (length s - 1) \<noteq> CHR ''.'' then Err ErrFqdn
         else
           (let s = (if s ! (length s - 1) \<noteq> CHR ''.'' then s @ ''.'' else s)
            in obind (pack_name_loop compress lenmsg 0
                 \<lparr>ns_bs = s, ns_ls = length s, ns_begin = 0, ns_off = off, ns_labels = 0, ns_roBs = s,
                  ns_bsFresh = True, ns_escapedDot = False, ns_msg = msg, ns_comp = compression\<rparr>)
               (\<lambda>(st, hit).
               if length (ns_bs st) = 1 \<and> ns_bs st ! 0 = CHR ''.'' then
                 Ok (ns_off st, ns_labels st, ns_msg st, ns_comp st)
               else
                 (case hit of
                    Some (pointer, nameoffset) \<Rightarrow>
                      (case ns_msg st of
                         None \<Rightarrow> Panic SliceBoundsOutOfRange
                       | Some m \<Rightarrow>
                           if nameoffset + 2 \<le> length m
                           then Ok (nameoffset + 2, ns_labels st,
                                    Some (put (be_bytes 2 ((of_nat pointer :: uint16) XOR 0xC000)) nameoffset m),
                                    ns_comp st)
                           else Panic IndexOutOfRange)
                  | None \<Rightarrow>
                      Ok (ns_off st + 1, ns_labels st,
                          map_option (\<lambda>m. if ns_off st < length m then m[ns_off st := 0] else m) (ns_msg st),
                          ns_comp st)))))"

definition PackDomainName :: "string \<Rightarrow> bool \<Rightarrow> pbuf \<Rightarrow> pbuf outcome" where
  "PackDomainName s compress b =
     obind (packDomainName s (Some (pmsg b)) (poff b) (pcomp b) compress) (\<lambda>(off, labels, msg, cmap).
       Ok (b\<lparr>pmsg := (case msg of Some m \<Rightarrow> m | None \<Rightarrow> []), poff := off, pcomp := cmap\<rparr>))"

definition IsDomainName :: "string \<Rightarrow> (nat \<times> bool) outcome" where
  "IsDomainName s =
     (case packDomainName s None 0 None False of
        Ok (off, labels, rest) \<Rightarrow> Ok (labels, True)
      | Err e \<Rightarrow> Ok (0, False)
      | Panic p \<Rightarrow> Panic p
      | Loops \<Rightarrow> Loops)"

section \<open>The unpacker\<close>

text \<open>Three decimal digits.\<close>

definition ddd :: "byte \<Rightarrow> string" where
  "ddd b = (let s = Itoa (unat b) in replicate (3 - length s) CHR ''0'' @ s)"

definition special_byte :: "byte \<Rightarrow> bool" where
  "special_byte b \<longleftrightarrow> b \<in> set (bytes_of (''.();'' @ '' @'' @ [CHR 0x22, CHR 0x5C]))"

text \<open>The bytes appended to the name for a byte of a label, and by how much \<open>maxLen\<close> grows.\<close>

definition escape_byte :: "byte \<Rightarrow> string \<times> nat" where
  "escape_byte b =
     (if special_byte b then ([CHR 0x5C, char_of_byte b], 1)
      else if unat b < 32 \<or> unat b \<ge> 127 then (CHR 0x5C # ddd b, 3)
      else ([char_of_byte b], 0))"

text \<open>The loop; \<open>ptr\<close> counts the pointers followed.\<close>

function unpack_name_loop ::
    "byte list \<Rightarrow> nat \<Rightarrow> nat \<Rightarrow> nat \<Rightarrow> string \<Rightarrow> nat \<Rightarrow> (string \<times> nat \<times> nat) outcome" where
  "unpack_name_loop msg off off1 ptr s maxLen =
     (if off \<ge> length msg then Err ErrBuf
      else
        (let c = unat (msg ! off); off = off + 1
         in if c AND 0xC0 = 0 then
              (if c = 0 then Ok (s, (if ptr = 0 then off else off1), maxLen)
               else if off + c > length msg then Err ErrBuf
               else
                 (let label = take c (drop off msg)
                  in unpack_name_loop msg (off + c) off1 ptr
                       (s @ concat (map (\<lambda>b. fst (escape_byte b)) label) @ ''.'')
                       (maxLen + sum_list (map (\<lambda>b. snd (escape_byte b)) label))))
            else if c AND 0xC0 = 0xC0 then
              (if off \<ge> length msg then Err ErrBuf
               else
                 (let c1 = unat (msg ! off); off = off + 1;
                      off1 = (if ptr = 0 then off else off1)
                  in if ptr + 1 > 10 then Err (Error ''too many compression pointers'')
                     else unpack_name_loop msg (push_bit 8 (c XOR 0xC0) OR c1) off1 (ptr + 1) s maxLen))
            else Err ErrRdata))"
  by pat_completeness auto
termination
  by (relation "measures [\<lambda>(msg, off, off1, ptr, s, maxLen). 11 - ptr,
        \<lambda>(msg, off, off1, ptr, s, maxLen). length msg - off]") auto

declare unpack_name_loop.simps [simp del]

definition UnpackDomainName :: "byte list \<Rightarrow> nat \<Rightarrow> (string \<times> nat) outcome" where
  "UnpackDomainName msg off =
     obind (unpack_name_loop msg off 0 0 [] maxDomainNameWireOctets) (\<lambda>(s, off1, maxLen).
       if length s = 0 then Ok (''.'', off1)
       else if length s \<ge> maxLen then Err ErrLongDomain
       else Ok (s, off1))"

section \<open>The wire format of names\<close>

text \<open>
  \<open>name_at msg off ls n e\<close>: at \<open>off\<close> the message has the name with the labels \<open>ls\<close>, reached over
  \<open>n\<close> pointers, and \<open>e\<close> is the offset behind the name where it was found first.
\<close>

inductive name_at :: "byte list \<Rightarrow> nat \<Rightarrow> byte list list \<Rightarrow> nat \<Rightarrow> nat \<Rightarrow> bool" for msg where
  name_root: "off < length msg \<Longrightarrow> msg ! off = 0 \<Longrightarrow> name_at msg off [] 0 (off + 1)"
| name_label: "off < length msg \<Longrightarrow> 0 < unat (msg ! off) \<Longrightarrow> unat (msg ! off) < 64 \<Longrightarrow>
    off + 1 + unat (msg ! off) \<le> length msg \<Longrightarrow>
    name_at msg (off + 1 + unat (msg ! off)) ls n e \<Longrightarrow>
    name_at msg off (take (unat (msg ! off)) (drop (off + 1) msg) # ls) n e"
| name_pointer: "off + 1 < length msg \<Longrightarrow> 192 \<le> unat (msg ! off) \<Longrightarrow>
    name_at msg ((unat (msg ! off) - 192) * 256 + unat (msg ! (off + 1))) ls n e \<Longrightarrow>
    name_at msg off ls (Suc n) (off + 2)"

definition present_label :: "byte list \<Rightarrow> string" where
  "present_label l = concat (map (\<lambda>b. fst (escape_byte b)) l)"

definition escapes :: "byte list \<Rightarrow> nat" where
  "escapes l = sum_list (map (\<lambda>b. snd (escape_byte b)) l)"

definition present :: "byte list list \<Rightarrow> string" where
  "present ls = fqdn (map present_label ls)"

text \<open>The number of bytes of a name on the wire, without the final zero.\<close>

definition name_octets :: "byte list list \<Rightarrow> nat" where
  "name_octets ls = sum_list (map (\<lambda>l. length l + 1) ls)"

lemma length_ddd [simp]: "length (ddd b) = 3"
proof -
  have "length (Itoa n) \<le> 3" if "n < 256" for n :: nat
    using that by (simp add: Itoa.simps [of n] Itoa.simps [of "n div 10"] Itoa.simps [of "n div 10 div 10"])
  from this [of "unat b"] show ?thesis by (simp add: ddd_def Let_def)
qed

lemma length_escape_byte: "length (fst (escape_byte b)) = 1 + snd (escape_byte b)"
  by (simp add: escape_byte_def)

lemma length_present_label: "length (present_label l) = length l + escapes l"
  by (induction l) (auto simp: present_label_def escapes_def length_escape_byte)

lemma length_wire_present:
  "length (wire_labels (map present_label ls)) = name_octets ls + sum_list (map escapes ls)"
  by (induction ls) (auto simp: name_octets_def length_present_label)

lemma bit_0xC0: "bit (0xC0 :: nat) n \<longleftrightarrow> n = 6 \<or> n = 7"
proof -
  have "(0xC0 :: nat) = push_bit 6 (mask 2)" by (simp add: push_bit_eq_mult mask_eq_exp_minus_1)
  then have "bit (0xC0 :: nat) n \<longleftrightarrow> bit (push_bit 6 (mask 2 :: nat)) n" by (simp only:)
  then show ?thesis by (auto simp: bit_push_bit_iff bit_mask_iff)
qed

lemma and_0xC0:
  assumes "c < 256"
  shows "c AND 0xC0 = c div 64 * (64 :: nat)"
proof -
  have "take_bit 8 c = c" using assms by (simp add: take_bit_nat_eq_self)
  then have b: "bit c n \<Longrightarrow> n < 8" for n using bit_take_bit_iff [of 8 c n] by simp
  have "c AND 0xC0 = push_bit 6 (drop_bit 6 c)"
  proof (rule bit_eqI)
    fix n
    have "6 \<le> n \<and> bit c n \<longleftrightarrow> (n = 6 \<or> n = 7) \<and> bit c n" using b [of n] by auto
    then show "bit (c AND 0xC0) n = bit (push_bit 6 (drop_bit 6 c)) n"
      by (auto simp: bit_and_iff bit_push_bit_iff bit_drop_bit_eq bit_0xC0)
  qed
  then show ?thesis by (simp add: push_bit_eq_mult drop_bit_eq_div)
qed

lemma top_bits:
  assumes "c < 256"
  shows "c AND 0xC0 = 0 \<longleftrightarrow> c < (64 :: nat)" "c AND 0xC0 = 0xC0 \<longleftrightarrow> 192 \<le> c"
    "192 \<le> c \<Longrightarrow> c XOR 0xC0 = c - 192"
proof -
  show "c AND 0xC0 = 0 \<longleftrightarrow> c < (64 :: nat)" and *: "c AND 0xC0 = 0xC0 \<longleftrightarrow> 192 \<le> c"
    using assms by (auto simp: and_0xC0)
  assume "192 \<le> c"
  with * have "c AND 0xC0 = 0xC0" by simp
  then have "bit c n \<and> bit (0xC0 :: nat) n \<longleftrightarrow> bit (0xC0 :: nat) n" for n
    by (metis bit_and_iff)
  from this [of 6] this [of 7] have b: "bit c 6" "bit c 7" unfolding bit_0xC0 by simp_all
  have "(c XOR 0xC0) + 0xC0 = c"
  proof -
    have "(c XOR 0xC0) + 0xC0 = (c XOR 0xC0) OR 0xC0"
      by (rule disjunctive_add) (use b in \<open>auto simp: bit_simps bit_0xC0\<close>)
    also have "\<dots> = c" by (rule bit_eqI) (use b in \<open>auto simp: bit_simps bit_0xC0\<close>)
    finally show ?thesis .
  qed
  then show "c XOR 0xC0 = c - 192" by simp
qed

lemma or_byte: "c < 256 \<Longrightarrow> push_bit 8 x OR c = x * 256 + (c :: nat)"
proof -
  assume c: "c < 256"
  have "push_bit 8 x OR c = push_bit 8 x + c"
  proof (rule disjunctive_add [symmetric])
    fix n
    have "take_bit 8 c = c" using c by (simp add: take_bit_nat_eq_self)
    then have "bit c n \<Longrightarrow> n < 8" using bit_take_bit_iff [of 8 c n] by simp
    then show "\<not> bit (push_bit 8 x) n \<or> \<not> bit c n" by (auto simp: bit_simps)
  qed
  then show ?thesis by (simp add: push_bit_eq_mult)
qed

text \<open>One step of the loop, with the bit operations resolved.\<close>

lemma unpack_loop_step:
  "unpack_name_loop msg off off1 ptr s maxLen =
     (if off \<ge> length msg then Err ErrBuf
      else if unat (msg ! off) = 0 then Ok (s, (if ptr = 0 then off + 1 else off1), maxLen)
      else if unat (msg ! off) < 64 then
        (if off + 1 + unat (msg ! off) > length msg then Err ErrBuf
         else unpack_name_loop msg (off + 1 + unat (msg ! off)) off1 ptr
                (s @ present_label (take (unat (msg ! off)) (drop (off + 1) msg)) @ ''.'')
                (maxLen + escapes (take (unat (msg ! off)) (drop (off + 1) msg))))
      else if 192 \<le> unat (msg ! off) then
        (if off + 1 \<ge> length msg then Err ErrBuf
         else if ptr + 1 > 10 then Err (Error ''too many compression pointers'')
         else unpack_name_loop msg ((unat (msg ! off) - 192) * 256 + unat (msg ! (off + 1)))
                (if ptr = 0 then off + 2 else off1) (ptr + 1) s maxLen)
      else Err ErrRdata)"
proof -
  have u: "unat (msg ! k) < 256" for k by simp
  have z: "(0 :: nat) AND 0xC0 = 0" by simp
  show ?thesis
    by (subst unpack_name_loop.simps)
      (use top_bits [OF u [of off]] in \<open>simp add: Let_def or_byte present_label_def escapes_def z\<close>)
qed

lemma unpack_loop_name:
  "name_at msg off ls n e \<Longrightarrow> ptr + n \<le> 10 \<Longrightarrow>
   unpack_name_loop msg off off1 ptr s maxLen =
     Ok (s @ wire_labels (map present_label ls), (if ptr = 0 then e else off1),
         maxLen + sum_list (map escapes ls))"
proof (induction arbitrary: off1 ptr s maxLen rule: name_at.induct)
  case (name_root off)
  then show ?case by (subst unpack_loop_step) simp
next
  case (name_label off ls n e)
  then show ?case by (subst unpack_loop_step) simp
next
  case (name_pointer off ls n e)
  then show ?case by (subst unpack_loop_step) simp
qed

lemma name_unpack_loop:
  "unpack_name_loop msg off off1 ptr s maxLen = Ok (s', e', maxLen') \<Longrightarrow>
   \<exists>ls n e. name_at msg off ls n e \<and> (n = 0 \<or> ptr + n \<le> 10)"
proof (induction msg off off1 ptr s maxLen rule: unpack_name_loop.induct)
  case (1 msg off off1 ptr s maxLen)
  let ?c = "unat (msg ! off)"
  have u: "unat (msg ! k) < 256" for k by simp
  note bits = top_bits [OF u [of off]] or_byte [OF u [of "off + 1"]]
  consider "\<not> off < length msg" | (root) "off < length msg" "?c = 0"
    | (label) "off < length msg" "0 < ?c" "?c < 64"
    | (pointer) "off < length msg" "192 \<le> ?c"
    | (bad) "off < length msg" "64 \<le> ?c" "?c < 192"
    by linarith
  then show ?case
  proof cases
    case root
    then have "msg ! off = 0" by (simp add: unat_eq_0)
    then show ?thesis using name_at.name_root [OF root(1)] by blast
  next
    case label
    then have fits: "off + 1 + ?c \<le> length msg"
      using "1.prems" by (subst (asm) unpack_loop_step) (auto split: if_splits)
    have "\<exists>ls n e. name_at msg (off + 1 + ?c) ls n e \<and> (n = 0 \<or> ptr + n \<le> 10)"
      using "1.IH"(1) "1.prems" label fits bits
      by (subst (asm) unpack_loop_step) (auto simp: present_label_def escapes_def)
    then show ?thesis using name_at.name_label [OF label fits] by blast
  next
    case pointer
    then have fits: "off + 1 < length msg" "ptr + 1 \<le> 10"
      using "1.prems" by (subst (asm) unpack_loop_step, auto split: if_splits)+
    have "off + 1 + 1 = off + 2" by simp
    then have step: "unpack_name_loop msg ((?c - 192) * 256 + unat (msg ! (off + 1)))
        (if ptr = 0 then off + 1 + 1 else off1) (ptr + 1) s maxLen = Ok (s', e', maxLen')"
      using "1.prems" pointer fits by (simp only:) (simp add: unpack_loop_step [of msg off off1 ptr s maxLen])
    have v: "push_bit 8 (?c XOR 0xC0) OR unat (msg ! (off + 1)) = (?c - 192) * 256 + unat (msg ! (off + 1))"
      using bits pointer(2) by simp
    have "\<exists>ls n e. name_at msg ((?c - 192) * 256 + unat (msg ! (off + 1))) ls n e \<and>
        (n = 0 \<or> ptr + 1 + n \<le> 10)"
      using "1.IH"(2) [OF _ refl refl _ _ _ refl refl refl] step pointer fits bits v by auto
    then show ?thesis using name_at.name_pointer [OF fits(1) pointer(2)] fits(2) by fastforce
  qed (use "1.prems" in \<open>subst (asm) unpack_loop_step, simp\<close>)+
qed

lemma name_at_bounds: "name_at msg off ls n e \<Longrightarrow> off < e \<and> e \<le> length msg"
  by (induction rule: name_at.induct) auto

lemma name_at_unique:
  "name_at msg off ls n e \<Longrightarrow> name_at msg off ls' n' e' \<Longrightarrow> ls' = ls \<and> n' = n \<and> e' = e"
proof (induction arbitrary: ls' n' e' rule: name_at.induct)
  case (name_root off)
  from name_root(3,1,2) show ?case by (cases rule: name_at.cases) auto
next
  case (name_label off ls n e)
  from name_label(7) show ?case
    by (cases rule: name_at.cases) (use name_label(2,3,6) in auto)
next
  case (name_pointer off ls n e)
  from name_pointer(5) show ?case
    by (cases rule: name_at.cases) (use name_pointer(2,4) in auto)
qed

lemma UnpackDomainName_name_at:
  assumes "name_at msg off ls n e" "n \<le> 10"
  shows "UnpackDomainName msg off =
    (if ls \<noteq> [] \<and> name_octets ls \<ge> 255 then Err ErrLongDomain else Ok (present ls, e))"
proof -
  have "unpack_name_loop msg off 0 0 [] 255 =
      Ok (wire_labels (map present_label ls), e, 255 + sum_list (map escapes ls))"
    using unpack_loop_name [OF assms(1), of 0] assms(2) by simp
  then show ?thesis
    by (simp add: UnpackDomainName_def present_def fqdn_def length_wire_present name_octets_def)
qed

lemma UnpackDomainName_Ok_name:
  assumes "UnpackDomainName msg off = Ok (s, e)"
  obtains ls n where "name_at msg off ls n e" "n \<le> 10"
proof -
  obtain s' e' m' where "unpack_name_loop msg off 0 0 [] 255 = Ok (s', e', m')"
    using assms by (auto simp: UnpackDomainName_def)
  from name_unpack_loop [OF this] obtain ls n e2 where n: "name_at msg off ls n e2" "n \<le> 10"
    by (metis le0 add_0)
  with UnpackDomainName_name_at [OF n] assms have "e2 = e"
    by (auto split: if_splits)
  with n that show thesis by blast
qed

lemma UnpackDomainName_advances: "UnpackDomainName msg off = Ok (s, e) \<Longrightarrow> off < e \<and> e \<le> length msg"
  by (metis UnpackDomainName_Ok_name name_at_bounds)

lemma unpack_loop_returns: "safe (unpack_name_loop msg off off1 ptr s maxLen)"
proof (induction msg off off1 ptr s maxLen rule: unpack_name_loop.induct)
  case (1 msg off off1 ptr s maxLen)
  note IH = 1 [OF _ refl refl]
  show ?case
    by (subst unpack_name_loop.simps, unfold Let_def)
      (intro safe_if safe_simps IH; (assumption | rule refl))
qed

lemma UnpackDomainName_stays: "stays UnpackDomainName"
  unfolding stays_def
proof (intro allI impI)
  fix msg :: "byte list" and off assume "off \<le> length msg"
  show "inside msg off (UnpackDomainName msg off)"
  proof (cases "UnpackDomainName msg off")
    case (Ok r)
    then show ?thesis using UnpackDomainName_advances [of msg off "fst r" "snd r"] by simp
  next
    case (Panic p)
    then show ?thesis
      using unpack_loop_returns [of msg off 0 0 "[]" 255]
      by (auto simp: UnpackDomainName_def obind_eq_Panic split: if_splits)
  next
    case Loops
    then show ?thesis
      using unpack_loop_returns [of msg off 0 0 "[]" 255]
      by (auto simp: UnpackDomainName_def obind_eq_Loops split: if_splits)
  qed simp
qed

end
