(* ===== verification/Wire_Name_Pack.thy ===== *)
theory Wire_Name_Pack
  imports Wire_Name
begin

text \<open>
  Packing a name without compression: \<open>PackDomainName\<close> writes the labels of the name, each behind
  its length, and a zero byte, and \<open>UnpackDomainName\<close> reads the name back.

  The names meant are those in the form \<open>UnpackDomainName\<close> writes, with labels of 1 to 63 bytes
  and less than 255 bytes in all.  \<open>parse_name\<close> finds the labels of such a name again, so that
  the condition and the wire image are executable.
\<close>

section \<open>The labels of a name\<close>

text \<open>The bytes of a name with the escapes resolved, \<open>None\<close> for a dot between labels.\<close>

fun name_tokens :: "string \<Rightarrow> byte option list" where
  "name_tokens [] = []"
| "name_tokens (c # cs) =
     (if c = CHR ''.'' then None # name_tokens cs
      else if c = CHR 0x5C then
        (case cs of
           [] \<Rightarrow> []
         | d # ds \<Rightarrow>
             if is_ddd cs 0 (length cs) then Some (dddToByte cs) # name_tokens (drop 2 ds)
             else Some (byte_of d) # name_tokens ds)
      else Some (byte_of c) # name_tokens cs)"

fun token_labels :: "byte list \<Rightarrow> byte option list \<Rightarrow> byte list list" where
  "token_labels l [] = []"
| "token_labels l (None # ts) = l # token_labels [] ts"
| "token_labels l (Some b # ts) = token_labels (l @ [b]) ts"

definition parse_name :: "string \<Rightarrow> byte list list" where
  "parse_name s = (if s = ''.'' then [] else token_labels [] (name_tokens s))"

definition wire_of_labels :: "byte list list \<Rightarrow> byte list" where
  "wire_of_labels ls = concat (map (\<lambda>l. of_nat (length l) # l) ls)"

definition wire_name :: "string \<Rightarrow> byte list" where
  "wire_name s = wire_of_labels (parse_name s) @ [0]"

definition labels_ok :: "byte list list \<Rightarrow> bool" where
  "labels_ok ls \<longleftrightarrow> list_all (\<lambda>l. l \<noteq> [] \<and> length l < 64) ls \<and> name_octets ls < 255"

definition valid_name :: "string \<Rightarrow> bool" where
  "valid_name s \<longleftrightarrow> present (parse_name s) = s \<and> labels_ok (parse_name s)"

lemma labels_ok_Cons: "labels_ok (l # ls) \<Longrightarrow> l \<noteq> [] \<and> length l < 64 \<and> labels_ok ls"
  by (simp add: labels_ok_def name_octets_def)

lemma length_wire_of_labels [simp]: "length (wire_of_labels ls) = name_octets ls"
  by (induction ls) (auto simp: wire_of_labels_def name_octets_def)

lemma wire_of_labels_simps [simp]:
  "wire_of_labels [] = []" "wire_of_labels (l # ls) = of_nat (length l) # l @ wire_of_labels ls"
  by (simp_all add: wire_of_labels_def)

lemma present_label_simps [simp]:
  "present_label [] = []" "present_label (b # bs) = fst (escape_byte b) @ present_label bs"
  by (simp_all add: present_label_def)

section \<open>Reading a name\<close>

lemma name_at_wire:
  "labels_ok ls \<Longrightarrow> bytes_at msg off (wire_of_labels ls @ [0]) \<Longrightarrow>
   name_at msg off ls 0 (off + name_octets ls + 1)"
proof (induction ls arbitrary: off)
  case Nil
  then show ?case using name_at.name_root [of off msg] by (simp add: bytes_at_Cons name_octets_def)
next
  case (Cons l ls)
  have l: "l \<noteq> []" "length l < 64" "labels_ok ls" using labels_ok_Cons [OF Cons.prems(1)] by simp_all
  have at: "off < length msg" "msg ! off = of_nat (length l)" "bytes_at msg (Suc off) l"
    "bytes_at msg (Suc off + length l) (wire_of_labels ls @ [0])"
    using Cons.prems(2) by (simp_all add: bytes_at_Cons bytes_at_append)
  have u: "unat (msg ! off) = length l" using at(2) l(2) by simp
  have "take (unat (msg ! off)) (drop (off + 1) msg) = l" "off + 1 + unat (msg ! off) \<le> length msg"
    using at(3) u by (simp_all add: bytes_at_def)
  moreover have "name_at msg (off + 1 + unat (msg ! off)) ls 0 (Suc off + length l + name_octets ls + 1)"
    using Cons.IH [OF l(3) at(4)] u by simp
  ultimately show ?case
    using name_at.name_label [of off msg ls 0 "Suc off + length l + name_octets ls + 1"] at(1) u l
    by (simp add: name_octets_def add_ac)
qed

lemma name_reads: "labels_ok ls \<Longrightarrow> reads UnpackDomainName (present ls) (wire_of_labels ls @ [0])"
  unfolding reads_def
  using UnpackDomainName_name_at [OF name_at_wire] by (fastforce simp: labels_ok_def)

section \<open>Packing a name\<close>

lemma emit_label_put:
  "emit_label (length m) cs off (Some m) =
     (if off + length cs \<le> length m then Ok (off + length cs, Some (put (bytes_of cs) off m))
      else if cs = [] then Ok (off, Some m) else Err ErrBuf)"
proof (induction cs arbitrary: off m)
  case Nil
  then show ?case by simp
next
  case (Cons c cs)
  show ?case
  proof (cases "off < length m")
    case True
    have "m[off := byte_of c] = put [byte_of c] off m"
      using True by (simp add: put_def upd_conv_take_nth_drop)
    then show ?thesis using Cons.IH [of "m[off := byte_of c]" "off + 1"] True
        put_put [of off "[byte_of c]" "bytes_of cs" m]
      by (auto simp: bytes_of_def)
  qed simp
qed

lemma shift_down_append:
  "length p = i \<Longrightarrow> length x = k \<Longrightarrow> ls = i + k + length r \<Longrightarrow>
   \<exists>t. shift_down k i ls (p @ x @ r @ s) = p @ r @ t @ s \<and> length t = k"
  by (rule exI [of _ "drop (length r) (x @ r)"]) (auto simp: shift_down_def)

lemma escape_byte_cases:
  obtains (plain) "fst (escape_byte b) = [char_of_byte b]" "char_of_byte b \<noteq> CHR ''.''"
      "char_of_byte b \<noteq> CHR 0x5C"
  | (special) "fst (escape_byte b) = [CHR 0x5C, char_of_byte b]" "\<not> is_digit (char_of_byte b)"
  | (ddd) "fst (escape_byte b) = CHR 0x5C # ddd b" "char_of_byte b \<noteq> CHR ''.''"
proof -
  have dot: "byte_of CHR ''.'' = 46" "byte_of CHR 0x5C = 92" by code_simp+
  have sp: "special_byte 46" "special_byte 92" by code_simp+
  have b: "char_of_byte b = c \<longleftrightarrow> b = byte_of c" for c by auto
  show thesis
  proof (cases "special_byte b")
    case True
    have "list_all (\<lambda>b. \<not> is_digit (char_of_byte b)) [46, 40, 41, 59, 32, 64, 34, 92]" by code_simp
    moreover have "set (bytes_of (''.();'' @ '' @'' @ [CHR 0x22, CHR 0x5C])) = {46, 40, 41, 59, 32, 64, 34, 92}"
      by code_simp
    ultimately have "\<not> is_digit (char_of_byte b)" using True by (auto simp: special_byte_def)
    then show thesis using True special by (simp add: escape_byte_def)
  next
    case False
    then have "b \<noteq> 46" "b \<noteq> 92" using sp by auto
    then have c: "char_of_byte b \<noteq> CHR ''.''" "char_of_byte b \<noteq> CHR 0x5C" by (simp_all add: b dot)
    show thesis
    proof (cases "unat b < 32 \<or> 127 \<le> unat b")
      case True
      then show thesis using False c ddd by (simp add: escape_byte_def)
    next
      case inside: False
      then show thesis using False c plain by (simp add: escape_byte_def)
    qed
  qed
qed

lemma ddd_eq:
  "ddd b = [digit_char (unat b div 100), digit_char (unat b div 10 mod 10), digit_char (unat b mod 10)]"
proof -
  have "replicate (3 - length (Itoa n)) CHR ''0'' @ Itoa n =
      [digit_char (n div 100), digit_char (n div 10 mod 10), digit_char (n mod 10)]"
    if n: "n < 1000" for n
  proof -
    have z: "CHR ''0'' = digit_char 0" by code_simp
    consider "n < 10" | "10 \<le> n" "n < 100" | "100 \<le> n" "n < 1000" using n by linarith
    then show ?thesis
    proof cases
      case 1
      then show ?thesis by (simp add: Itoa.simps [of n] z numeral_2_eq_2)
    next
      case 2
      then have "n div 10 < 10" "n div 100 = 0" by simp_all
      then show ?thesis using 2 by (simp add: Itoa.simps [of n] Itoa.simps [of "n div 10"] z)
    next
      case 3
      then have "n div 100 < 10" "\<not> n div 10 < 10" "\<not> n < 10" by simp_all
      moreover have h: "n div 10 div 10 = n div 100" by (simp add: div_mult2_eq [symmetric])
      ultimately have "Itoa (n div 10) = [digit_char (n div 100), digit_char (n div 10 mod 10)]"
        by (subst Itoa.simps, subst Itoa.simps [of "n div 10 div 10"]) (simp only: h if_True if_False append.simps)
      with \<open>\<not> n < 10\<close> show ?thesis by (simp add: Itoa.simps [of n])
    qed
  qed
  from this [of "unat b"] show ?thesis
    using unat_byte_less [of b] by (simp add: ddd_def Let_def del: unat_byte_less)
qed

lemma byte_of_digit_char: "d < 10 \<Longrightarrow> byte_of (digit_char d) = 48 + of_nat d"
  by (simp add: byte_of_def digit_char_def)

lemma ddd_digits:
  obtains x y z where "ddd b = [x, y, z]" "is_digit x" "is_digit y" "is_digit z" "dddToByte (x # y # z # r) = b"
proof -
  let ?n = "unat b"
  have n: "?n < 256" by simp
  then have d: "?n div 100 < 10" by linarith
  have "?n div 10 * 10 + ?n mod 10 = ?n" "?n div 100 * 10 + ?n div 10 mod 10 = ?n div 10"
    using div_mult_mod_eq [of "?n div 10" 10] by (simp_all add: div_mult2_eq [symmetric])
  then have "?n div 100 * 100 + ?n div 10 mod 10 * 10 + ?n mod 10 = ?n" by linarith
  then have "(of_nat (?n div 100 * 100 + ?n div 10 mod 10 * 10 + ?n mod 10) :: byte) = of_nat ?n"
    by (rule arg_cong)
  then have "of_nat (?n div 100) * 100 + of_nat (?n div 10 mod 10) * 10 + of_nat (?n mod 10) = b"
    unfolding of_nat_add of_nat_mult of_nat_numeral by simp
  then have "dddToByte (digit_char (?n div 100) # digit_char (?n div 10 mod 10) # digit_char (?n mod 10) # r) = b"
    using d by (simp add: dddToByte_def byte_of_digit_char)
  then show thesis using that [OF ddd_eq] d by simp
qed

text \<open>
  The state of the loop at a label: \<open>p\<close> is what has been processed, \<open>x\<close> the rest of the name,
  \<open>t\<close> the bytes left over behind the name.
\<close>

definition at_rest :: "string \<Rightarrow> string \<Rightarrow> string \<Rightarrow> name_state \<Rightarrow> bool" where
  "at_rest p x t st \<longleftrightarrow> ns_bs st = p @ x @ t \<and> ns_ls st = length p + length x"

lemma pack_escape_byte:
  assumes st: "at_rest p (CHR 0x5C # e @ r) t st" and off: "ns_off st < lenmsg"
    and e: "fst (escape_byte b) = CHR 0x5C # e" and r: "r \<noteq> []"
  shows "\<exists>t' fr. pack_escape lenmsg (length p) st =
    Ok (st\<lparr>ns_bs := p @ char_of_byte b # r @ t', ns_ls := length p + 1 + length r,
           ns_escapedDot := (char_of_byte b = CHR ''.''), ns_bsFresh := fr\<rparr>)"
proof -
  obtain t1 where t1: "shift_down 1 (length p) (ns_ls st) (ns_bs st) = p @ e @ r @ t1 @ t"
    using shift_down_append [of p "length p" "[CHR 0x5C]" 1 "ns_ls st" "e @ r" t] st
    by (auto simp: at_rest_def)
  have ls: "ns_ls st - 1 = length p + length e + length r" using st by (simp add: at_rest_def)
  show ?thesis
  proof (cases rule: escape_byte_cases [of b])
    case plain
    then show ?thesis using e by simp
  next
    case special
    then have e1: "e = [char_of_byte b]" using e by simp
    have "\<not> is_ddd (p @ e @ r @ t1 @ t) (length p) (ns_ls st - 1)"
      using special(2) by (simp add: is_ddd_def e1 nth_append)
    then show ?thesis
      using off t1 ls by (intro exI [of _ "t1 @ t"] exI [of _ False])
        (simp add: pack_escape_def Let_def e1 nth_append)
  next
    case ddd
    then have e1: "e = ddd b" using e by simp
    obtain x y z where xyz: "e = [x, y, z]" "is_digit x" "is_digit y" "is_digit z"
      and d: "dddToByte (x # y # z # r @ t1 @ t) = b"
      using ddd_digits [of b "r @ t1 @ t"] e1 by metis
    have 1: "is_ddd (p @ e @ r @ t1 @ t) (length p) (ns_ls st - 1)"
      using xyz r ls by (simp add: is_ddd_def nth_append Suc_lessI)
    obtain t2 where t2: "shift_down 2 (length p + 1) (ns_ls st - 1) (p @ char_of_byte b # y # z # r @ t1 @ t) =
        p @ char_of_byte b # r @ t2 @ t1 @ t"
      using shift_down_append [of "p @ [char_of_byte b]" "length p + 1" "[y, z]" 2 "ns_ls st - 1" r "t1 @ t"] ls xyz
      by auto
    show ?thesis
      using off t1 1 d t2 ls xyz by (intro exI [of _ "t2 @ t1 @ t"] exI [of _ False])
        (simp add: pack_escape_def Let_def nth_append)
  qed
qed

text \<open>Through the bytes of a label.\<close>

definition same_but :: "name_state \<Rightarrow> name_state \<Rightarrow> bool" where
  "same_but st st' \<longleftrightarrow>
     (\<exists>bs ls ed fr. st' = st\<lparr>ns_bs := bs, ns_ls := ls, ns_escapedDot := ed, ns_bsFresh := fr\<rparr>)"

lemma same_but_refl: "same_but st (st\<lparr>ns_escapedDot := ed\<rparr>)"
  unfolding same_but_def by (intro exI [of _ "ns_bs st"] exI [of _ "ns_ls st"] exI [of _ ed] exI [of _ "ns_bsFresh st"]) simp

lemma same_but_trans: "same_but a b \<Longrightarrow> same_but b c \<Longrightarrow> same_but a c"
  unfolding same_but_def by force

lemma same_but_fields:
  "same_but st st' \<Longrightarrow> ns_off st' = ns_off st \<and> ns_msg st' = ns_msg st \<and> ns_begin st' = ns_begin st \<and>
     ns_comp st' = ns_comp st"
  by (auto simp: same_but_def)

lemma label_byte:
  assumes st: "at_rest p (fst (escape_byte b) @ r) t st" and off: "ns_off st < lenmsg" and r: "r \<noteq> []"
  shows "\<exists>st' t'. pack_name_loop compress lenmsg (length p) st =
      pack_name_loop compress lenmsg (length p + 1) st' \<and>
    at_rest (p @ [char_of_byte b]) r t' st' \<and> same_but st st' \<and>
    ns_escapedDot st' = (char_of_byte b = CHR ''.'')"
proof -
  have escaped: ?thesis if e: "fst (escape_byte b) = CHR 0x5C # e" for e
  proof -
    have st': "at_rest p (CHR 0x5C # e @ r) t st" using st e by simp
    obtain t' fr where 1: "pack_escape lenmsg (length p) st =
        Ok (st\<lparr>ns_bs := p @ char_of_byte b # r @ t', ns_ls := length p + 1 + length r,
               ns_escapedDot := (char_of_byte b = CHR ''.''), ns_bsFresh := fr\<rparr>)" (is "_ = Ok ?st")
      using pack_escape_byte [OF st' off e r] by blast
    have "pack_name_loop compress lenmsg (length p) st = pack_name_loop compress lenmsg (length p + 1) ?st"
      using st' 1 by (subst pack_name_loop.simps) (simp add: at_rest_def)
    moreover have "same_but st ?st" unfolding same_but_def by blast
    ultimately show ?thesis by (intro exI [of _ ?st] exI [of _ t']) (simp add: at_rest_def)
  qed
  show ?thesis
  proof (cases rule: escape_byte_cases [of b])
    case plain
    then have "pack_name_loop compress lenmsg (length p) st =
        pack_name_loop compress lenmsg (length p + 1) (st\<lparr>ns_escapedDot := False\<rparr>)"
      using st by (subst pack_name_loop.simps) (simp add: at_rest_def)
    then show ?thesis using st plain same_but_refl [of st False]
      by (intro exI [of _ "st\<lparr>ns_escapedDot := False\<rparr>"] exI [of _ t]) (simp add: at_rest_def)
  next
    case special
    then show ?thesis using escaped [OF special(1)] by simp
  next
    case ddd
    then show ?thesis using escaped [OF ddd(1)] by simp
  qed
qed

lemma label_bytes:
  assumes "at_rest p (present_label l @ r) t st" "ns_off st < lenmsg" "r \<noteq> []"
  shows "\<exists>st' t'. pack_name_loop compress lenmsg (length p) st =
      pack_name_loop compress lenmsg (length p + length l) st' \<and>
    at_rest (p @ string_of l) r t' st' \<and> same_but st st' \<and>
    ns_escapedDot st' = (if l = [] then ns_escapedDot st else last (string_of l) = CHR ''.'')"
  using assms
proof (induction l arbitrary: p t st)
  case Nil
  have "same_but st st" using same_but_refl [of st "ns_escapedDot st"] by simp
  with Nil show ?case by (intro exI [of _ st] exI [of _ t]) simp
next
  case (Cons b l)
  have 0: "at_rest p (fst (escape_byte b) @ (present_label l @ r)) t st" using Cons.prems(1) by simp
  obtain st1 t1 where 1: "pack_name_loop compress lenmsg (length p) st =
      pack_name_loop compress lenmsg (length p + 1) st1" "at_rest (p @ [char_of_byte b]) (present_label l @ r) t1 st1"
    "same_but st st1" "ns_escapedDot st1 = (char_of_byte b = CHR ''.'')"
    using label_byte [OF 0 Cons.prems(2)] Cons.prems(3) by blast
  have "ns_off st1 < lenmsg" using same_but_fields [OF 1(3)] Cons.prems(2) by simp
  from Cons.IH [OF 1(2) this Cons.prems(3)] obtain st2 t2 where 2:
    "pack_name_loop compress lenmsg (length p + 1) st1 = pack_name_loop compress lenmsg (length p + 1 + length l) st2"
    "at_rest (p @ char_of_byte b # string_of l) r t2 st2" "same_but st1 st2"
    "ns_escapedDot st2 = (if l = [] then ns_escapedDot st1 else last (string_of l) = CHR ''.'')"
    by auto
  show ?case
  proof (intro exI [of _ st2] exI [of _ t2] conjI)
    show "pack_name_loop compress lenmsg (length p) st =
      pack_name_loop compress lenmsg (length p + length (b # l)) st2"
      using 1(1) 2(1) by simp
  next
    show "same_but st st2" using 1(3) 2(3) by (rule same_but_trans)
  next
    show "ns_escapedDot st2 =
        (if b # l = [] then ns_escapedDot st else last (string_of (b # l)) = CHR ''.'')"
      using 1(4) 2(4) by (simp add: string_of_def)
  qed (use 2(2) in \<open>simp add: string_of_def\<close>)
qed

text \<open>At the dot behind a label; the name is written without a compression map.\<close>

lemma pack_dot_label:
  assumes st: "at_rest (p @ string_of l) (CHR ''.'' # r) t st" and l: "l \<noteq> []" "length l < 64"
    and b: "ns_begin st = length p" "ns_comp st = None" "ns_msg st = Some m"
    and ed: "ns_escapedDot st = (last (string_of l) = CHR ''.'')"
  shows "if ns_off st + 1 + length l \<le> length m then
      \<exists>st' t'. pack_dot compress (length m) (length p + length l) st = Ok (st', None) \<and>
        at_rest (p @ string_of l @ ''.'') r t' st' \<and> ns_off st' = ns_off st + 1 + length l \<and>
        ns_msg st' = Some (put (of_nat (length l) # l) (ns_off st) m) \<and>
        ns_begin st' = length p + length l + 1 \<and> ns_comp st' = None
    else \<exists>e. pack_dot compress (length m) (length p + length l) st = Err e"
proof -
  have last: "ns_bs st ! (length p + length l - 1) = last (string_of l)"
  proof -
    have "ns_bs st ! (length p + (length l - 1)) = string_of l ! (length l - 1)"
      using st l by (simp add: at_rest_def nth_append)
    moreover have "string_of l \<noteq> []" "length p + length l - 1 = length p + (length l - 1)"
      using l by (simp_all add: string_of_def Suc_leI)
    ultimately show ?thesis by (simp add: last_conv_nth)
  qed
  have tk: "take (length l) (drop (length p) (ns_bs st)) = string_of l"
    using st by (simp add: at_rest_def)
  have nodot: "\<not> (length p + length l > 0 \<and> ns_bs st ! (length p + length l - 1) = CHR ''.'' \<and> \<not> ns_escapedDot st)"
    using ed last by simp
  have dot: "pack_dot compress (length m) (length p + length l) st =
      (if ns_off st + 1 > length m then Err ErrBuf
       else obind (emit_label (length m) (string_of l) (ns_off st + 1) (Some (m[ns_off st := of_nat (length l)])))
         (\<lambda>(off, msg). Ok (st\<lparr>ns_off := off, ns_msg := msg,
              ns_roBs := (if compress \<and> \<not> ns_bsFresh st then ns_bs st else ns_roBs st),
              ns_bsFresh := (compress \<or> ns_bsFresh st), ns_comp := None,
              ns_labels := ns_labels st + 1, ns_begin := length p + length l + 1\<rparr>, None)))"
    unfolding pack_dot_def if_not_P [OF nodot] using l(2) b tk
    by (simp add: Let_def compress_name_def case_prod_beta)
  show ?thesis
  proof (cases "ns_off st + 1 + length l \<le> length m")
    case True
    let ?m = "m[ns_off st := of_nat (length l)]"
    have m1: "?m = put [of_nat (length l)] (ns_off st) m"
      using True by (simp add: put_def upd_conv_take_nth_drop)
    have "put l (ns_off st + 1) ?m = put (of_nat (length l) # l) (ns_off st) m"
      using True put_put [of "ns_off st" "[of_nat (length l)]" l m] by (simp add: m1)
    then have "emit_label (length m) (string_of l) (ns_off st + 1) (Some ?m) =
        Ok (ns_off st + 1 + length l, Some (put (of_nat (length l) # l) (ns_off st) m))"
      using emit_label_put [of ?m "string_of l" "ns_off st + 1"] True by simp
    then show ?thesis using True dot st by (simp add: at_rest_def)
  next
    case False
    then have "emit_label (length m) (string_of l) (ns_off st + 1) (Some (m[ns_off st := of_nat (length l)])) = Err ErrBuf
        \<or> ns_off st + 1 > length m"
      using emit_label_put [of "m[ns_off st := of_nat (length l)]" "string_of l" "ns_off st + 1"] l
      by (simp add: string_of_def)
    then show ?thesis using False dot by auto
  qed
qed

lemma label_step:
  assumes st: "at_rest p (present_label l @ CHR ''.'' # r) t st" and l: "l \<noteq> []" "length l < 64"
    and b: "ns_begin st = length p" "ns_comp st = None" "ns_msg st = Some m" "ns_off st < length m"
  shows "if ns_off st + 1 + length l \<le> length m then
      \<exists>st' t'. pack_name_loop compress (length m) (length p) st =
          pack_name_loop compress (length m) (length p + length l + 1) st' \<and>
        at_rest (p @ string_of l @ ''.'') r t' st' \<and> ns_off st' = ns_off st + 1 + length l \<and>
        ns_msg st' = Some (put (of_nat (length l) # l) (ns_off st) m) \<and>
        ns_begin st' = length p + length l + 1 \<and> ns_comp st' = None
    else \<exists>e. pack_name_loop compress (length m) (length p) st = Err e"
proof -
  obtain st1 t1 where 1: "pack_name_loop compress (length m) (length p) st =
      pack_name_loop compress (length m) (length p + length l) st1"
    "at_rest (p @ string_of l) (CHR ''.'' # r) t1 st1" "same_but st st1"
    "ns_escapedDot st1 = (last (string_of l) = CHR ''.'')"
    using label_bytes [OF st b(4), of compress] l(1) by auto
  have f: "ns_off st1 = ns_off st" "ns_begin st1 = length p" "ns_comp st1 = None" "ns_msg st1 = Some m"
    using same_but_fields [OF 1(3)] b by simp_all
  have step: "pack_name_loop compress (length m) (length p + length l) st1 =
      obind (pack_dot compress (length m) (length p + length l) st1) (\<lambda>r.
        if snd r \<noteq> None then Ok r
        else pack_name_loop compress (length m) (length p + length l + 1) ((fst r)\<lparr>ns_escapedDot := False\<rparr>))"
    using 1(2) by (subst pack_name_loop.simps) (simp add: at_rest_def nth_append)
  have D: "if ns_off st + 1 + length l \<le> length m then
      \<exists>st' t'. pack_dot compress (length m) (length p + length l) st1 = Ok (st', None) \<and>
        at_rest (p @ string_of l @ ''.'') r t' st' \<and> ns_off st' = ns_off st + 1 + length l \<and>
        ns_msg st' = Some (put (of_nat (length l) # l) (ns_off st) m) \<and>
        ns_begin st' = length p + length l + 1 \<and> ns_comp st' = None
    else \<exists>e. pack_dot compress (length m) (length p + length l) st1 = Err e"
    using pack_dot_label [OF 1(2) l f(2-4) 1(4), of compress] unfolding f(1) .
  show ?thesis
  proof (cases "ns_off st + 1 + length l \<le> length m")
    case True
    with D obtain st' t' where d: "pack_dot compress (length m) (length p + length l) st1 = Ok (st', None)"
      "at_rest (p @ string_of l @ ''.'') r t' st'" "ns_off st' = ns_off st + 1 + length l"
      "ns_msg st' = Some (put (of_nat (length l) # l) (ns_off st) m)"
      "ns_begin st' = length p + length l + 1" "ns_comp st' = None"
      by auto
    then show ?thesis using True 1(1) step
      by (intro iffD2 [OF if_P] exI [of _ "st'\<lparr>ns_escapedDot := False\<rparr>"] exI [of _ t'])
        (simp_all add: at_rest_def)
  next
    case False
    then show ?thesis using D 1(1) step by auto
  qed
qed

text \<open>When the buffer is full the first escape or dot is an error.\<close>

lemma label_full:
  assumes "at_rest p (present_label l @ CHR ''.'' # r) t st" "lenmsg \<le> ns_off st"
  shows "\<exists>e. pack_name_loop compress lenmsg (length p) st = Err e"
  using assms
proof (induction l arbitrary: p st)
  case Nil
  then have "\<exists>e. pack_dot compress lenmsg (length p) st = Err e"
    by (simp add: pack_dot_def)
  with Nil show ?case by (subst pack_name_loop.simps) (auto simp: at_rest_def)
next
  case (Cons b l)
  have escaped: ?case if "fst (escape_byte b) = CHR 0x5C # e" for e
    using Cons.prems that
    by (subst pack_name_loop.simps) (simp add: at_rest_def pack_escape_def Let_def)
  show ?case
  proof (cases rule: escape_byte_cases [of b])
    case plain
    then have "pack_name_loop compress lenmsg (length p) st =
        pack_name_loop compress lenmsg (length (p @ [char_of_byte b])) (st\<lparr>ns_escapedDot := False\<rparr>)"
      using Cons.prems(1) by (subst pack_name_loop.simps) (simp add: at_rest_def)
    moreover have st': "at_rest (p @ [char_of_byte b]) (present_label l @ CHR ''.'' # r) t (st\<lparr>ns_escapedDot := False\<rparr>)"
      using Cons.prems(1) plain by (simp add: at_rest_def)
    ultimately show ?thesis using Cons.IH [OF st'] Cons.prems(2) by simp
  qed (use escaped in simp_all)
qed

lemma label_loop:
  assumes "at_rest p (wire_labels (map present_label ls)) t st" "list_all (\<lambda>l. l \<noteq> [] \<and> length l < 64) ls"
    "ns_begin st = length p" "ns_comp st = None" "ns_msg st = Some m"
    "ns_off st \<le> length m"
  shows "if ns_off st + name_octets ls \<le> length m then
      \<exists>st'. pack_name_loop compress (length m) (length p) st = Ok (st', None) \<and>
        ns_off st' = ns_off st + name_octets ls \<and>
        ns_msg st' = Some (put (wire_of_labels ls) (ns_off st) m) \<and> ns_comp st' = None \<and>
        (\<exists>q. ns_bs st' = p @ q \<and> length q \<ge> name_octets ls)
    else \<exists>e. pack_name_loop compress (length m) (length p) st = Err e"
  using assms
proof (induction ls arbitrary: p t st m)
  case Nil
  then show ?case by (subst pack_name_loop.simps) (auto simp: at_rest_def name_octets_def)
next
  case (Cons l ls)
  have l: "l \<noteq> []" "length l < 64" and ls: "list_all (\<lambda>l. l \<noteq> [] \<and> length l < 64) ls"
    using Cons.prems(2) by simp_all
  let ?r = "wire_labels (map present_label ls)"
  have st: "at_rest p (present_label l @ CHR ''.'' # ?r) t st" using Cons.prems(1) by simp
  show ?case
  proof (cases "ns_off st + 1 + length l \<le> length m")
    case False
    have "\<exists>e. pack_name_loop compress (length m) (length p) st = Err e"
    proof (cases "ns_off st < length m")
      case True
      then show ?thesis using label_step [OF st l Cons.prems(3-5), of compress] False by simp
    next
      case full: False
      then show ?thesis using label_full [OF st] by simp
    qed
    then show ?thesis using False by (simp add: name_octets_def)
  next
    case True
    then obtain st' t' where 1: "pack_name_loop compress (length m) (length p) st =
          pack_name_loop compress (length m) (length p + length l + 1) st'"
        "at_rest (p @ string_of l @ ''.'') ?r t' st'" "ns_off st' = ns_off st + 1 + length l"
        "ns_msg st' = Some (put (of_nat (length l) # l) (ns_off st) m)"
        "ns_begin st' = length p + length l + 1" "ns_comp st' = None"
      using label_step [OF st l Cons.prems(3-5), of compress] by auto
    let ?m = "put (of_nat (length l) # l) (ns_off st) m" and ?p = "p @ string_of l @ ''.''"
    have len: "length ?m = length m" using True by simp
    have "if ns_off st' + name_octets ls \<le> length ?m then
      \<exists>st2. pack_name_loop compress (length ?m) (length ?p) st' = Ok (st2, None) \<and>
        ns_off st2 = ns_off st' + name_octets ls \<and>
        ns_msg st2 = Some (put (wire_of_labels ls) (ns_off st') ?m) \<and> ns_comp st2 = None \<and>
        (\<exists>q. ns_bs st2 = ?p @ q \<and> length q \<ge> name_octets ls)
    else \<exists>e. pack_name_loop compress (length ?m) (length ?p) st' = Err e"
      by (rule Cons.IH [OF 1(2) ls _ 1(6,4)]) (use 1 len True in simp_all)
    moreover have "put (wire_of_labels ls) (ns_off st + 1 + length l) ?m = put (wire_of_labels (l # ls)) (ns_off st) m"
      if "ns_off st + name_octets (l # ls) \<le> length m"
      using put_put [of "ns_off st" "of_nat (length l) # l" "wire_of_labels ls" m] that
      by (simp add: name_octets_def add_ac)
    ultimately show ?thesis
      using 1 len by (auto simp: name_octets_def add_ac split: if_splits)
  qed
qed

lemma last_fqdn: "fqdn ls \<noteq> [] \<and> fqdn ls ! (length (fqdn ls) - 1) = CHR ''.''"
  using last_wire_labels by (auto simp: fqdn_def)

lemma packDomainName_init:
  "packDomainName (fqdn ls) (Some m) off None False =
     obind (pack_name_loop False (length m) 0
         \<lparr>ns_bs = fqdn ls, ns_ls = length (fqdn ls), ns_begin = 0, ns_off = off, ns_labels = 0,
          ns_roBs = fqdn ls, ns_bsFresh = True, ns_escapedDot = False, ns_msg = Some m, ns_comp = None\<rparr>)
       (\<lambda>(st, hit).
         if length (ns_bs st) = 1 \<and> ns_bs st ! 0 = CHR ''.'' then
           Ok (ns_off st, ns_labels st, ns_msg st, ns_comp st)
         else
           (case hit of
              Some (pointer, nameoffset) \<Rightarrow>
                (case ns_msg st of
                   None \<Rightarrow> Panic SliceBoundsOutOfRange
                 | Some m \<Rightarrow>
                     if nameoffset + 2 \<le> length m
                     then Ok (nameoffset + 2, ns_labels st,
                              Some (put (be_bytes 2 ((of_nat pointer :: uint16) XOR 0xC000)) nameoffset m),
                              ns_comp st)
                     else Panic IndexOutOfRange)
            | None \<Rightarrow>
                Ok (ns_off st + 1, ns_labels st,
                    map_option (\<lambda>m. if ns_off st < length m then m[ns_off st := 0] else m) (ns_msg st),
                    ns_comp st)))"
  unfolding packDomainName_def Let_def using last_fqdn [of ls] by simp

lemma root_writes:
  "pcomp b = None \<Longrightarrow> PackDomainName ''.'' False b =
     (if poff b + 1 \<le> length (pmsg b) then Ok (emit [0] b) else Err ErrBuf)"
proof -
  assume c: "pcomp b = None"
  have "put [0] (poff b) (pmsg b) = (pmsg b)[poff b := 0]" if "poff b < length (pmsg b)"
    using that by (simp add: put_def upd_conv_take_nth_drop)
  moreover have "b\<lparr>pmsg := m, poff := n, pcomp := None\<rparr> = b\<lparr>pmsg := m, poff := n\<rparr>" for m n
    using c by (cases b) simp
  ultimately show ?thesis
    using c packDomainName_init [of "[]" "pmsg b" "poff b"]
    by (simp add: PackDomainName_def fqdn_def pack_name_loop.simps [of False "length (pmsg b)" 0]
        pack_name_loop.simps [of False "length (pmsg b)" "Suc 0"] pack_dot_def Let_def
        compress_name_def emit_def)
qed

lemma name_writes:
  assumes "labels_ok ls"
  shows "writes (PackDomainName (present ls) False) (wire_of_labels ls @ [0])"
proof (cases "ls = []")
  case True
  then show ?thesis by (simp add: writes_def fits_def present_def fqdn_def root_writes)
next
  case False
  let ?s = "present ls"
  have s: "?s = wire_labels (map present_label ls)" using False by (simp add: present_def fqdn_def)
  have ok: "list_all (\<lambda>l. l \<noteq> [] \<and> length l < 64) ls" using assms by (simp add: labels_ok_def)
  have two: "2 \<le> name_octets ls"
    using False ok by (cases ls; cases "hd ls") (auto simp: name_octets_def)
  show ?thesis
    unfolding writes_def fits_def
  proof (intro allI impI)
    fix b :: pbuf assume c: "pcomp b = None"
    define st where "st = \<lparr>ns_bs = ?s, ns_ls = length ?s, ns_begin = 0, ns_off = poff b, ns_labels = 0, ns_roBs = ?s,
        ns_bsFresh = True, ns_escapedDot = False, ns_msg = Some (pmsg b), ns_comp = None\<rparr>"
    let ?run = "pack_name_loop False (length (pmsg b)) 0 st"
    have f: "ns_off st = poff b" "ns_msg st = Some (pmsg b)" "ns_begin st = length []" "ns_comp st = None"
      by (simp_all add: st_def)
    have at: "at_rest [] (wire_labels (map present_label ls)) [] st" by (simp add: at_rest_def st_def s)
    have L: "if poff b + name_octets ls \<le> length (pmsg b) then
      \<exists>st'. ?run = Ok (st', None) \<and> ns_off st' = poff b + name_octets ls \<and>
        ns_msg st' = Some (put (wire_of_labels ls) (poff b) (pmsg b)) \<and> ns_comp st' = None \<and>
        name_octets ls \<le> length (ns_bs st')
    else \<exists>e. ?run = Err e"
    proof (cases "poff b \<le> length (pmsg b)")
      case True
      then show ?thesis
        using label_loop [OF at ok f(3,4,2), of False] unfolding f(1) list.size append_Nil by (auto split: if_split_asm)
    next
      case full: False
      obtain l ls' where ls: "ls = l # ls'" using False by (cases ls) auto
      have "\<exists>e. ?run = Err e"
        using label_full [of "[]" l "wire_labels (map present_label ls')" "[]" st] at full f(1) by (simp add: ls)
      then show ?thesis using full by simp
    qed
    have run: "PackDomainName ?s False b =
        obind (obind ?run (\<lambda>(st, hit).
           if length (ns_bs st) = 1 \<and> ns_bs st ! 0 = CHR ''.'' then
             Ok (ns_off st, ns_labels st, ns_msg st, ns_comp st)
           else
             (case hit of
                Some (pointer, nameoffset) \<Rightarrow>
                  (case ns_msg st of
                     None \<Rightarrow> Panic SliceBoundsOutOfRange
                   | Some m \<Rightarrow>
                       if nameoffset + 2 \<le> length m
                       then Ok (nameoffset + 2, ns_labels st,
                                Some (put (be_bytes 2 ((of_nat pointer :: uint16) XOR 0xC000)) nameoffset m),
                                ns_comp st)
                       else Panic IndexOutOfRange)
              | None \<Rightarrow>
                  Ok (ns_off st + 1, ns_labels st,
                      map_option (\<lambda>m. if ns_off st < length m then m[ns_off st := 0] else m) (ns_msg st),
                      ns_comp st))))
          (\<lambda>(off, labels, msg, cmap).
             Ok (b\<lparr>pmsg := (case msg of Some m \<Rightarrow> m | None \<Rightarrow> []), poff := off, pcomp := cmap\<rparr>))"
      unfolding PackDomainName_def c st_def present_def packDomainName_init ..
    show "if poff b + length (wire_of_labels ls @ [0]) \<le> length (pmsg b)
        then PackDomainName ?s False b = Ok (emit (wire_of_labels ls @ [0]) b)
        else \<forall>b'. PackDomainName ?s False b = Ok b' \<longrightarrow> overrun b b'"
    proof (cases "poff b + name_octets ls \<le> length (pmsg b)")
      case False
      with L obtain e where "?run = Err e" by auto
      then show ?thesis using False unfolding run by simp
    next
      case True
      with L obtain st' where st': "?run = Ok (st', None)" "ns_off st' = poff b + name_octets ls"
        "ns_msg st' = Some (put (wire_of_labels ls) (poff b) (pmsg b))" "ns_comp st' = None"
        "length (ns_bs st') \<noteq> 1"
        using two by auto
      let ?m = "put (wire_of_labels ls) (poff b) (pmsg b)"
      have len: "length ?m = length (pmsg b)" using True by simp
      have res: "PackDomainName ?s False b =
          Ok (b\<lparr>pmsg := (if poff b + name_octets ls < length (pmsg b) then ?m[poff b + name_octets ls := 0] else ?m),
                poff := poff b + name_octets ls + 1\<rparr>)"
        using st' len c unfolding run by (cases b) simp
      show ?thesis
      proof (cases "poff b + name_octets ls < length (pmsg b)")
        case True
        have "?m[poff b + name_octets ls := 0] = put [0] (poff b + length (wire_of_labels ls)) ?m"
          using True len by (simp add: put_def [of "[0]"] upd_conv_take_nth_drop)
        also have "\<dots> = put (wire_of_labels ls @ [0]) (poff b) (pmsg b)"
          using True by (intro put_put) simp
        finally show ?thesis using True res by (simp add: emit_def)
      next
        case edge: False
        then show ?thesis using res len c by (simp add: overrun_def)
      qed
    qed
  qed
qed

section \<open>Names as fields\<close>

lemma name_tokens_label: "name_tokens (present_label l @ CHR ''.'' # r) = map Some l @ None # name_tokens r"
proof (induction l)
  case (Cons b l)
  let ?r = "present_label l @ CHR ''.'' # r"
  show ?case
  proof (cases rule: escape_byte_cases [of b])
    case plain
    then show ?thesis using Cons by simp
  next
    case special
    have "\<not> is_ddd (char_of_byte b # ?r) 0 (length (char_of_byte b # ?r))"
      using special(2) by (simp add: is_ddd_def)
    then show ?thesis using Cons special by simp
  next
    case ddd
    obtain x y z where xyz: "ddd b = [x, y, z]" "is_digit x" "is_digit y" "is_digit z"
      and d: "dddToByte (x # y # z # ?r) = b"
      using ddd_digits [of b ?r] by blast
    have "is_ddd (x # y # z # ?r) 0 (length (x # y # z # ?r))"
      using xyz by (simp add: is_ddd_def)
    then show ?thesis using Cons ddd xyz d by simp
  qed
qed simp

lemma token_labels_label: "token_labels k (map Some l @ None # ts) = (k @ l) # token_labels [] ts"
  by (induction l arbitrary: k) auto

lemma name_tokens_labels:
  "token_labels [] (name_tokens (wire_labels (map present_label ls))) = ls"
  by (induction ls) (simp_all add: name_tokens_label token_labels_label)

lemma present_eq_dot: "list_all (\<lambda>l. l \<noteq> [] \<and> length l < 64) ls \<Longrightarrow> present ls = ''.'' \<longleftrightarrow> ls = []"
  by (cases ls; cases "hd ls")
    (auto simp: present_def fqdn_def escape_byte_def split: if_splits)

lemma parse_present: "labels_ok ls \<Longrightarrow> parse_name (present ls) = ls"
  using name_tokens_labels [of ls] present_eq_dot [of ls]
  by (auto simp: parse_name_def labels_ok_def) (auto simp: present_def fqdn_def)

lemma valid_present: "labels_ok ls \<Longrightarrow> valid_name (present ls)"
  by (simp add: valid_name_def parse_present)

lemma valid_name_obtain:
  assumes "valid_name s"
  obtains ls where "labels_ok ls" "s = present ls" "wire_name s = wire_of_labels ls @ [0]"
  using assms that [of "parse_name s"] by (simp add: valid_name_def wire_name_def)

lemma length_present_le: "length (present ls) \<le> 4 * name_octets ls + 1"
proof -
  have "escapes l \<le> 3 * length l" for l
  proof (induction l)
    case (Cons b l)
    have "snd (escape_byte b) \<le> 3" by (simp add: escape_byte_def)
    then show ?case using Cons by (simp add: escapes_def)
  qed (simp add: escapes_def)
  then have "sum_list (map escapes ls) \<le> sum_list (map (\<lambda>l. 3 * length l) ls)"
    by (intro sum_list_mono)
  moreover have "sum_list (map (\<lambda>l. 3 * length l) ls) \<le> 3 * name_octets ls"
    by (induction ls) (auto simp: name_octets_def)
  ultimately show ?thesis
    using length_wire_present [of ls] by (cases "ls = []") (auto simp: present_def fqdn_def)
qed

lemma valid_name_length: "valid_name s \<Longrightarrow> length s < 1100"
proof (elim valid_name_obtain)
  fix ls assume "labels_ok ls" "s = present ls"
  then show ?thesis using length_present_le [of ls] by (simp add: labels_ok_def)
qed

interpretation name: wire_format "\<lambda>s. PackDomainName s False" UnpackDomainName wire_name valid_name
proof
  fix s assume "valid_name s"
  then obtain ls where "labels_ok ls" "s = present ls" "wire_name s = wire_of_labels ls @ [0]"
    by (rule valid_name_obtain)
  then show "writes (PackDomainName s False) (wire_name s)" "reads UnpackDomainName s (wire_name s)"
    using name_writes name_reads by simp_all
qed (rule UnpackDomainName_stays)

section \<open>Properties\<close>

text \<open>C34: \<open>UnpackDomainName\<close> reads exactly the names of RFC 1035: it succeeds with a name and an
  offset if and only if there is a name at the offset that is reached over at most ten compression
  pointers and has less than 255 bytes (or is the root); then it returns the presentation format
  of its labels and the offset behind the place where the name was found first.\<close>

theorem UnpackDomainName_iff:
  "UnpackDomainName msg off = Ok (s, e) \<longleftrightarrow>
     (\<exists>ls n. name_at msg off ls n e \<and> n \<le> 10 \<and> (ls = [] \<or> name_octets ls < 255) \<and> s = present ls)"
proof
  assume ok: "UnpackDomainName msg off = Ok (s, e)"
  then obtain ls n where n: "name_at msg off ls n e" "n \<le> 10" by (rule UnpackDomainName_Ok_name)
  then show "\<exists>ls n. name_at msg off ls n e \<and> n \<le> 10 \<and> (ls = [] \<or> name_octets ls < 255) \<and> s = present ls"
    using ok UnpackDomainName_name_at [OF n]
    by (intro exI [of _ ls] exI [of _ n]) (auto split: if_splits)
next
  assume "\<exists>ls n. name_at msg off ls n e \<and> n \<le> 10 \<and> (ls = [] \<or> name_octets ls < 255) \<and> s = present ls"
  then show "UnpackDomainName msg off = Ok (s, e)"
    using UnpackDomainName_name_at by fastforce
qed

text \<open>C32: A name of labels of 1 to 63 arbitrary bytes and less than 255 bytes in all that is packed
  without compression is unpacked as the same name, at the offset the packer returned, whatever
  is written behind it.\<close>

theorem domain_name_round_trip:
  assumes "labels_ok ls" "pcomp b = None" "PackDomainName (present ls) False b = Ok b'"
    and "poff b' \<le> n" "n + length cs \<le> length (pmsg b')"
  shows "UnpackDomainName (put cs n (pmsg b')) (poff b) = Ok (present ls, poff b') \<and>
    poff b' = poff b + name_octets ls + 1"
proof
  have v: "valid_name (present ls)" using assms(1) by (rule valid_present)
  show "UnpackDomainName (put cs n (pmsg b')) (poff b) = Ok (present ls, poff b')"
    using name.round_trip [OF v] assms(2-5) by simp
  have "b' = emit (wire_name (present ls)) b"
    using name.pack_OkD [OF v] assms(2-5) by simp
  then show "poff b' = poff b + name_octets ls + 1"
    using parse_present [OF assms(1)] by (simp add: wire_name_def)
qed

theorem domain_name_round_trip_witness:
  "UnpackDomainName (put [7] 8 (put [3, 97, 46, 200, 1, 92, 0] 1 (replicate 9 0))) 1 =
     Ok (present [[97, 46, 200], [92]], 8) \<and> present [[97, 46, 200], [92]] = ''a'' @ [CHR 0x5C] @ ''.'' @ [CHR 0x5C] @ ''200.'' @ [CHR 0x5C, CHR 0x5C] @ ''.''"
proof
  define b :: pbuf where "b = \<lparr>pmsg = replicate 9 0, poff = 1, pcomp = None\<rparr>"
  let ?ls = "[[97, 46, 200], [92]] :: byte list list"
  have ok: "labels_ok ?ls" by code_simp
  have v: "valid_name (present ?ls)" using ok by (rule valid_present)
  have w: "wire_name (present ?ls) = [3, 97, 46, 200, 1, 92, 0]"
    using parse_present [OF ok] by (simp add: wire_name_def)
  have p: "PackDomainName (present ?ls) False b = Ok (emit [3, 97, 46, 200, 1, 92, 0] b)"
    using name.pack_fits [OF v, of b] unfolding w by (simp add: b_def fits_def)
  have c: "pcomp b = None" by (simp add: b_def)
  show "UnpackDomainName (put [7] 8 (put [3, 97, 46, 200, 1, 92, 0] 1 (replicate 9 0))) 1 = Ok (present ?ls, 8)"
    using domain_name_round_trip [OF ok c p, of 8 "[7]"] by (simp add: b_def emit_def)
  show "present ?ls = ''a'' @ [CHR 0x5C] @ ''.'' @ [CHR 0x5C] @ ''200.'' @ [CHR 0x5C, CHR 0x5C] @ ''.''"
    by code_simp
qed

end
