(* ===== verification/Go_Encoding.thy ===== *)
theory Go_Encoding
  imports Go_Prelude
begin

text \<open>
  The packages \<open>encoding/hex\<close>, \<open>encoding/base64\<close> (\<open>StdEncoding\<close>) and \<open>encoding/base32\<close>
  (\<open>HexEncoding\<close>) of the standard library, as far as package dns uses them, with the wrappers
  \<open>fromBase32\<close>, \<open>toBase32\<close>, \<open>fromBase64\<close> and \<open>toBase64\<close> of \<open>msg_helpers.go\<close>.

  A group of bytes is read as a big-endian number and written as digits of the target base, and
  back.  The locale \<open>encoding\<close> is what the wire formats need: what is encoded can be decoded.
\<close>

section \<open>Digits\<close>

definition be_val :: "nat \<Rightarrow> nat list \<Rightarrow> nat" where
  "be_val B ds = foldl (\<lambda>n d. n * B + d) 0 ds"

definition be_digits :: "nat \<Rightarrow> nat \<Rightarrow> nat \<Rightarrow> nat list" where
  "be_digits B m n = map (\<lambda>k. n div B ^ (m - 1 - k) mod B) [0 ..< m]"

lemma length_be_digits [simp]: "length (be_digits B m n) = m"
  by (simp add: be_digits_def)

lemma be_digits_0 [simp]: "be_digits B 0 n = []"
  by (simp add: be_digits_def)

lemma be_digits_Suc: "be_digits B (Suc m) n = be_digits B m (n div B) @ [n mod B]"
proof -
  have "n div B ^ (m - k) = n div B div B ^ (m - 1 - k)" if "k < m" for k
  proof -
    have "m - k = Suc (m - 1 - k)" using that by simp
    then show ?thesis by (simp add: div_mult2_eq)
  qed
  then show ?thesis by (simp add: be_digits_def)
qed

lemma be_val_snoc [simp]: "be_val B (ds @ [d]) = be_val B ds * B + d"
  by (simp add: be_val_def)

lemma be_val_Nil [simp]: "be_val B [] = 0"
  by (simp add: be_val_def)

lemma be_val_be_digits: "be_val B (be_digits B m n) = n mod B ^ m"
  by (induction m arbitrary: n) (simp_all add: be_digits_Suc mod_mult2_eq mult.commute)

lemma be_digits_be_val: "list_all (\<lambda>d. d < B) ds \<Longrightarrow> be_digits B (length ds) (be_val B ds) = ds"
  by (induction ds rule: rev_induct) (simp_all add: be_digits_Suc)

lemma be_digits_less: "0 < B \<Longrightarrow> list_all (\<lambda>d. d < B) (be_digits B m n)"
  by (simp add: be_digits_def list_all_iff)

lemma be_digits_shift: "0 < B \<Longrightarrow> be_digits B (m + j) (x * B ^ j) = be_digits B m x @ replicate j 0"
  by (induction j) (simp_all add: be_digits_Suc replicate_append_same [symmetric] mult.assoc [symmetric] mult.commute)

lemma be_val_replicate: "be_val B (ds @ replicate j 0) = be_val B ds * B ^ j"
  by (induction j) (simp_all add: replicate_append_same [symmetric] append_assoc [symmetric] mult.assoc mult.commute
      del: append_assoc)

lemma be_val_less: "list_all (\<lambda>d. d < B) ds \<Longrightarrow> be_val B ds < B ^ length ds"
proof (induction ds rule: rev_induct)
  case (snoc d ds)
  then have "be_val B ds + 1 \<le> B ^ length ds" "d < B" by simp_all
  then have "(be_val B ds + 1) * B \<le> B ^ length ds * B" by (intro mult_le_mono) simp_all
  with \<open>d < B\<close> show ?case by (simp add: mult.commute)
qed simp

text \<open>
  A group of \<open>G\<close> bytes is \<open>D\<close> digits of \<open>k\<close> bits; of a shorter group only the digits with bits
  of its bytes are written.
\<close>

definition encode_group :: "nat \<Rightarrow> nat \<Rightarrow> nat \<Rightarrow> byte list \<Rightarrow> nat list" where
  "encode_group B G D g = be_digits B D (be_val 256 (map unat g @ replicate (G - length g) 0))"

definition decode_group :: "nat \<Rightarrow> nat \<Rightarrow> nat \<Rightarrow> nat \<Rightarrow> nat list \<Rightarrow> byte list" where
  "decode_group B G D n ds = map of_nat (take n (be_digits 256 G (be_val B (ds @ replicate (D - length ds) 0))))"

lemma group_round_trip:
  assumes g: "length g \<le> G" and BD: "256 ^ G = B ^ D" "0 < B"
    and j: "256 ^ (G - length g) = c * B ^ j" "j \<le> D"
  shows "decode_group B G D (length g) (take (D - j) (encode_group B G D g)) = g"
proof -
  let ?ds = "map unat g" and ?r = "G - length g"
  have small: "list_all (\<lambda>d. d < 256) ?ds" by (simp add: list_all_iff)
  have v: "be_val 256 (?ds @ replicate ?r 0) = be_val 256 ?ds * c * B ^ j"
    using j by (simp add: be_val_replicate)
  have digits: "encode_group B G D g = be_digits B (D - j) (be_val 256 ?ds * c) @ replicate j 0"
    using be_digits_shift [OF BD(2), of "D - j" j "be_val 256 ?ds * c"] j(2)
    by (simp add: encode_group_def v)
  have padded: "take (D - j) (encode_group B G D g) @ replicate (D - length (take (D - j) (encode_group B G D g))) 0 =
      encode_group B G D g"
    using j(2) by (simp add: digits)
  have "be_val 256 (?ds @ replicate ?r 0) < 256 ^ length (?ds @ replicate ?r 0)"
    by (rule be_val_less) (auto simp: list_all_iff)
  then have "be_val B (encode_group B G D g) = be_val 256 (?ds @ replicate ?r 0)"
    using g BD by (simp add: encode_group_def be_val_be_digits)
  moreover have "be_digits 256 G (be_val 256 (?ds @ replicate ?r 0)) = ?ds @ replicate ?r 0"
  proof -
    have "list_all (\<lambda>d. d < 256) (?ds @ replicate ?r 0)" by (auto simp: list_all_iff)
    from be_digits_be_val [OF this] show ?thesis using g by simp
  qed
  ultimately show ?thesis
    unfolding decode_group_def padded by (simp add: comp_def)
qed

section \<open>Alphabets\<close>

text \<open>The value of a character: its place in the alphabet.\<close>

fun index_of :: "char \<Rightarrow> string \<Rightarrow> nat option" where
  "index_of c [] = None"
| "index_of c (x # xs) = (if c = x then Some 0 else map_option Suc (index_of c xs))"

lemma index_of_nth: "distinct xs \<Longrightarrow> i < length xs \<Longrightarrow> index_of (xs ! i) xs = Some i"
proof (induction xs arbitrary: i)
  case (Cons x xs)
  then show ?case by (cases i) auto
qed simp

lemma index_of_less: "index_of c xs = Some i \<Longrightarrow> i < length xs \<and> xs ! i = c"
  by (induction xs arbitrary: i) (auto split: if_splits)

definition hexAlphabet :: string where "hexAlphabet = ''0123456789abcdef''"

definition base64Alphabet :: string where
  "base64Alphabet = ''ABCDEFGHIJKLMNOPQRSTUVWXYZabcdefghijklmnopqrstuvwxyz0123456789+/''"

definition base32HexAlphabet :: string where
  "base32HexAlphabet = ''0123456789ABCDEFGHIJKLMNOPQRSTUV''"

lemma distinct_alphabets:
  "distinct hexAlphabet" "distinct base64Alphabet" "distinct base32HexAlphabet"
  "length hexAlphabet = 16" "length base64Alphabet = 64" "length base32HexAlphabet = 32"
  "CHR ''='' \<notin> set base64Alphabet" "CHR ''='' \<notin> set base32HexAlphabet"
  "\<not> list_ex (\<lambda>c. c = CHR 0x0A \<or> c = CHR 0x0D) (CHR ''='' # base64Alphabet)"
  "\<not> list_ex (\<lambda>c. c = CHR 0x0A \<or> c = CHR 0x0D) (CHR ''='' # base32HexAlphabet)"
  by code_simp+

section \<open>Hexadecimal\<close>

definition hex_EncodeToString :: "byte list \<Rightarrow> string" where
  "hex_EncodeToString bs =
     concat (map (\<lambda>b. [hexAlphabet ! (unat b div 16), hexAlphabet ! (unat b mod 16)]) bs)"

text \<open>Upper-case digits are read as well.\<close>

definition fromHexChar :: "char \<Rightarrow> nat option" where
  "fromHexChar c = index_of (if ord CHR ''A'' \<le> ord c \<and> ord c \<le> ord CHR ''F''
     then lower_char c else c) hexAlphabet"

fun hex_DecodeString :: "string \<Rightarrow> byte list outcome" where
  "hex_DecodeString [] = Ok []"
| "hex_DecodeString [c] = Err (Error ''encoding/hex: odd length hex string'')"
| "hex_DecodeString (a # b # s) =
     (case (fromHexChar a, fromHexChar b) of
        (Some x, Some y) \<Rightarrow> map_ok (\<lambda>bs. of_nat (x * 16 + y) # bs) (hex_DecodeString s)
      | _ \<Rightarrow> Err (Error ''encoding/hex: invalid byte''))"

section \<open>Base 64\<close>

text \<open>A group of three bytes is four characters; \<open>=\<close> fills up the last group.\<close>

function base64_EncodeToString :: "byte list \<Rightarrow> string" where
  "base64_EncodeToString src =
     (if src = [] then []
      else
        (let g = take 3 src; n = length g
         in map (\<lambda>d. base64Alphabet ! d) (take (n + 1) (encode_group 64 3 4 g)) @ replicate (3 - n) CHR ''='' @
            base64_EncodeToString (drop 3 src)))"
  by pat_completeness auto
termination
  by (relation "measure length") auto

declare base64_EncodeToString.simps [simp del]

definition not_newline :: "char \<Rightarrow> bool" where
  "not_newline c \<longleftrightarrow> c \<noteq> CHR 0x0A \<and> c \<noteq> CHR 0x0D"

definition corrupt :: "string \<Rightarrow> go_error" where
  "corrupt enc = Error (''illegal '' @ enc @ '' data'')"

text \<open>The values of characters of the alphabet.\<close>

fun indices :: "string \<Rightarrow> string \<Rightarrow> nat list option" where
  "indices alphabet [] = Some []"
| "indices alphabet (c # cs) =
     (case (index_of c alphabet, indices alphabet cs) of (Some d, Some ds) \<Rightarrow> Some (d # ds) | _ \<Rightarrow> None)"

text \<open>
  Decoding skips line breaks.  Padding may only end the text, after two or three characters of a
  group.
\<close>

fun base64_groups :: "string \<Rightarrow> byte list outcome" where
  "base64_groups [] = Ok []"
| "base64_groups (a # b # c # d # s) =
     (if c = CHR ''='' then
        (case indices base64Alphabet [a, b] of
           Some ds \<Rightarrow> if d = CHR ''='' \<and> s = [] then Ok (decode_group 64 3 4 1 ds) else Err (corrupt ''base64'')
         | None \<Rightarrow> Err (corrupt ''base64''))
      else if d = CHR ''='' then
        (case indices base64Alphabet [a, b, c] of
           Some ds \<Rightarrow> if s = [] then Ok (decode_group 64 3 4 2 ds) else Err (corrupt ''base64'')
         | None \<Rightarrow> Err (corrupt ''base64''))
      else
        (case indices base64Alphabet [a, b, c, d] of
           Some ds \<Rightarrow> map_ok (\<lambda>bs. decode_group 64 3 4 3 ds @ bs) (base64_groups s)
         | None \<Rightarrow> Err (corrupt ''base64'')))"
| "base64_groups s = Err (corrupt ''base64'')"

definition base64_Decode :: "string \<Rightarrow> byte list outcome" where
  "base64_Decode s = base64_groups (filter not_newline s)"

section \<open>Base 32\<close>

text \<open>A group of five bytes is eight characters.\<close>

definition base32_digits :: "nat \<Rightarrow> nat" where
  "base32_digits n = (if n = 1 then 2 else if n = 2 then 4 else if n = 3 then 5 else if n = 4 then 7 else 8)"

definition base32_bytes :: "nat \<Rightarrow> nat" where
  "base32_bytes d = (if d = 2 then 1 else if d = 4 then 2 else if d = 5 then 3 else if d = 7 then 4 else 5)"

function base32_EncodeToString :: "byte list \<Rightarrow> string" where
  "base32_EncodeToString src =
     (if src = [] then []
      else
        (let g = take 5 src; n = base32_digits (length g)
         in map (\<lambda>d. base32HexAlphabet ! d) (take n (encode_group 32 5 8 g)) @ replicate (8 - n) CHR ''='' @
            base32_EncodeToString (drop 5 src)))"
  by pat_completeness auto
termination
  by (relation "measure length") auto

declare base32_EncodeToString.simps [simp del]

text \<open>
  A group of the decoder: the values of its characters, what is left of the text, and whether the
  group was padded.  The check of the padding looks at no more characters than the group has.
\<close>

fun base32_quantum :: "string \<Rightarrow> nat list \<Rightarrow> (nat list \<times> string \<times> bool) outcome" where
  "base32_quantum src ds =
     (if length ds \<ge> 8 then Ok (ds, src, False)
      else
        (case src of
           [] \<Rightarrow> Err (corrupt ''base32'')
         | c # rest \<Rightarrow>
             if c = CHR ''='' \<and> length ds \<ge> 2 \<and> length rest < 8 then
               (if length rest + length ds < 7 \<or> \<not> list_all (\<lambda>x. x = CHR ''='') (take (7 - length ds) rest) \<or>
                   length ds \<in> {1, 3, 6}
                then Err (corrupt ''base32'')
                else Ok (ds, rest, True))
             else
               (case index_of c base32HexAlphabet of
                  None \<Rightarrow> Err (corrupt ''base32'')
                | Some d \<Rightarrow> base32_quantum rest (ds @ [d]))))"

lemma base32_quantum_shorter:
  "base32_quantum src ds = Ok (ds', rest, fin) \<Longrightarrow> length ds < 8 \<Longrightarrow> length rest < length src"
proof (induction src ds rule: base32_quantum.induct)
  case (1 src ds)
  from 1(2,3) obtain c r where src: "src = c # r"
    by (subst (asm) base32_quantum.simps) (auto split: list.splits)
  show ?case
  proof (cases "c = CHR ''='' \<and> length ds \<ge> 2 \<and> length r < 8")
    case True
    then show ?thesis using 1(2,3) src by (simp split: if_splits)
  next
    case False
    then obtain d where d: "index_of c base32HexAlphabet = Some d" "base32_quantum r (ds @ [d]) = Ok (ds', rest, fin)"
      using 1(2,3) src by (subst (asm) base32_quantum.simps) (auto split: option.splits)
    show ?thesis
    proof (cases "length (ds @ [d]) < 8")
      case True
      have "length rest < length r"
        using 1(1) [OF _ src False d(1)] d(2) True 1(3) by simp
      then show ?thesis by (simp add: src)
    next
      case full: False
      then have "rest = r" using d(2) by (subst (asm) base32_quantum.simps) simp
      then show ?thesis by (simp add: src)
    qed
  qed
qed

declare base32_quantum.simps [simp del]

function base32_groups :: "string \<Rightarrow> byte list outcome" where
  "base32_groups src =
     (if src = [] then Ok []
      else
        obind (base32_quantum src []) (\<lambda>q.
          let bs = decode_group 32 5 8 (base32_bytes (length (fst q))) (fst q)
          in if snd (snd q) then Ok bs else map_ok (\<lambda>r. bs @ r) (base32_groups (fst (snd q)))))"
  by pat_completeness auto
termination
  by (relation "measure length") (auto dest: base32_quantum_shorter)

declare base32_groups.simps [simp del]

definition base32_Decode :: "string \<Rightarrow> byte list outcome" where
  "base32_Decode s = base32_groups (filter not_newline s)"

section \<open>The wrappers of package dns\<close>

definition fromBase32 :: "string \<Rightarrow> byte list outcome" where
  "fromBase32 s =
     base32_Decode (map (\<lambda>b. if ord CHR ''a'' \<le> ord b \<and> ord b \<le> ord CHR ''z'' then char_of (ord b - 32) else b) s)"

definition toBase32 :: "byte list \<Rightarrow> string" where
  "toBase32 b = base32_EncodeToString b"

definition fromBase64 :: "string \<Rightarrow> byte list outcome" where
  "fromBase64 s = base64_Decode s"

definition toBase64 :: "byte list \<Rightarrow> string" where
  "toBase64 b = base64_EncodeToString b"

section \<open>What is encoded can be decoded\<close>

locale encoding =
  fixes enc :: "byte list \<Rightarrow> string" and dec :: "string \<Rightarrow> byte list outcome"
  assumes dec_enc: "dec (enc bs) = Ok bs"
begin

text \<open>The texts that are written by the encoder, and the bytes of a text.\<close>

definition canonical :: "string \<Rightarrow> bool" where
  "canonical s \<longleftrightarrow> (case dec s of Ok bs \<Rightarrow> enc bs = s | Err e \<Rightarrow> False | Panic p \<Rightarrow> False | Loops \<Rightarrow> False)"

definition bytes :: "string \<Rightarrow> byte list" where
  "bytes s = (case dec s of Ok bs \<Rightarrow> bs | Err e \<Rightarrow> [] | Panic p \<Rightarrow> [] | Loops \<Rightarrow> [])"

lemma canonical_enc: "canonical (enc bs)"
  by (simp add: canonical_def dec_enc)

lemma bytes_enc: "bytes (enc bs) = bs"
  by (simp add: bytes_def dec_enc)

lemma canonicalD: "canonical s \<Longrightarrow> dec s = Ok (bytes s) \<and> enc (bytes s) = s"
  by (auto simp: canonical_def bytes_def split: outcome.splits)

lemma canonical_iff: "canonical s \<longleftrightarrow> (\<exists>bs. s = enc bs)"
  using canonicalD canonical_enc by metis

lemma enc_inject: "enc a = enc b \<longleftrightarrow> a = b"
  by (metis bytes_enc)

end

lemma fromHexChar_digit: "i < 16 \<Longrightarrow> fromHexChar (hexAlphabet ! i) = Some i"
proof -
  have "list_all (\<lambda>i. fromHexChar (hexAlphabet ! i) = Some i) [0 ..< 16]" by code_simp
  then show "i < 16 \<Longrightarrow> fromHexChar (hexAlphabet ! i) = Some i" by (simp add: list_all_iff)
qed

lemma hex_round_trip: "hex_DecodeString (hex_EncodeToString bs) = Ok bs"
proof (induction bs)
  case (Cons b bs)
  have "unat b div 16 < 16" using unat_byte_less [of b] by linarith
  moreover have "unat b div 16 * 16 + unat b mod 16 = unat b" by simp
  ultimately show ?case
    using Cons by (simp add: hex_EncodeToString_def fromHexChar_digit)
qed (simp add: hex_EncodeToString_def)

lemma indices_alphabet:
  "distinct alphabet \<Longrightarrow> list_all (\<lambda>d. d < length alphabet) ds \<Longrightarrow>
   indices alphabet (map (\<lambda>d. alphabet ! d) ds) = Some ds"
  by (induction ds) (simp_all add: index_of_nth)

lemma encode_group_less: "0 < B \<Longrightarrow> list_all (\<lambda>d. d < B) (take n (encode_group B G D g))"
  using be_digits_less [of B D] by (auto simp: encode_group_def list_all_iff dest: in_set_takeD)

lemma length_encode_group [simp]: "length (encode_group B G D g) = D"
  by (simp add: encode_group_def)

lemma list4: "length xs = 4 \<Longrightarrow> xs = [xs ! 0, xs ! 1, xs ! 2, xs ! 3]"
  by (auto simp: numeral_eq_Suc length_Suc_conv)

lemma base64_chars: "set (base64_EncodeToString bs) \<subseteq> set (CHR ''='' # base64Alphabet)"
proof (induction bs rule: base64_EncodeToString.induct)
  case (1 src)
  have f: "set (map (\<lambda>d. base64Alphabet ! d) (take n (encode_group 64 3 4 (take 3 src)))) \<subseteq> set base64Alphabet" for n
    using encode_group_less [of 64 n 3 4 "take 3 src"] by (auto simp: list_all_iff distinct_alphabets)
  have pad: "set (replicate n CHR ''='') \<subseteq> {CHR ''=''}" for n by auto
  show ?case
  proof (cases "src = []")
    case False
    have "set (x @ y @ z) \<subseteq> set (CHR ''='' # base64Alphabet)"
      if "set x \<subseteq> set base64Alphabet" "set y \<subseteq> {CHR ''=''}" "set z \<subseteq> set (CHR ''='' # base64Alphabet)" for x y z
      using that by auto
    then show ?thesis
      using f pad 1 [OF False refl refl] False
      by (subst base64_EncodeToString.simps) (simp only: Let_def if_False)
  qed (simp add: base64_EncodeToString.simps)
qed

lemma base64_no_newline: "filter not_newline (base64_EncodeToString bs) = base64_EncodeToString bs"
proof -
  have "list_all not_newline (CHR ''='' # base64Alphabet)" by code_simp
  then show ?thesis using base64_chars [of bs] by (auto simp: filter_id_conv list_all_iff)
qed

lemma alphabet64_not_pad: "d < 64 \<Longrightarrow> base64Alphabet ! d \<noteq> CHR ''=''"
  using distinct_alphabets(5,7) by (metis nth_mem)

lemma index64: "d < 64 \<Longrightarrow> index_of (base64Alphabet ! d) base64Alphabet = Some d"
  by (simp add: index_of_nth distinct_alphabets)

lemma base64_round_trip_groups: "base64_groups (base64_EncodeToString bs) = Ok bs"
proof (induction bs rule: base64_EncodeToString.induct)
  case (1 src)
  show ?case
  proof (cases "src = []")
    case False
    define g where "g = take 3 src"
    obtain d0 d1 d2 d3 where ds: "encode_group 64 3 4 g = [d0, d1, d2, d3]"
      using list4 [of "encode_group 64 3 4 g"] by simp
    have small: "d0 < 64" "d1 < 64" "d2 < 64" "d3 < 64"
      using encode_group_less [of 64 4 3 4 g] ds by simp_all
    note idx = small [THEN index64] small [THEN alphabet64_not_pad]
    have IH: "base64_groups (base64_EncodeToString (drop 3 src)) = Ok (drop 3 src)"
      using 1 [OF False refl refl] .
    have E: "base64_EncodeToString src =
        map (\<lambda>d. base64Alphabet ! d) (take (length g + 1) [d0, d1, d2, d3]) @
        replicate (3 - length g) CHR ''='' @ base64_EncodeToString (drop 3 src)"
      using False ds by (subst base64_EncodeToString.simps) (simp add: g_def Let_def)
    have rt: "decode_group 64 3 4 (length g) (take (4 - j) [d0, d1, d2, d3]) = g"
      if "256 ^ (3 - length g) = c * 64 ^ j" "j \<le> 4" for c j :: nat
      using group_round_trip [of g 3 64 4 c j] that ds by (simp add: g_def)
    consider "length g = 1" | "length g = 2" | "length g = 3" using False
      by (cases src; cases "tl src"; cases "tl (tl src)") (auto simp: g_def)
    then show ?thesis
    proof cases
      case 1
      then have "drop 3 src = []" "g = src" by (auto simp: g_def)
      then show ?thesis using rt [of 16 2] 1 idx unfolding E
        by (simp add: base64_EncodeToString.simps [of "[]"] numeral_2_eq_2)
    next
      case 2
      then have "drop 3 src = []" "g = src" by (auto simp: g_def)
      then show ?thesis using rt [of 4 1] 2 idx unfolding E
        by (simp add: base64_EncodeToString.simps [of "[]"] numeral_3_eq_3 numeral_2_eq_2)
    next
      case 3
      have "g @ drop 3 src = src" by (simp add: g_def)
      then show ?thesis using rt [of 1 0] 3 idx IH unfolding E by simp
    qed
  qed (simp add: base64_EncodeToString.simps)
qed

lemma base64_round_trip: "base64_Decode (base64_EncodeToString bs) = Ok bs"
  by (simp add: base64_Decode_def base64_no_newline base64_round_trip_groups)

lemma alphabet32_not_pad: "d < 32 \<Longrightarrow> base32HexAlphabet ! d \<noteq> CHR ''=''"
  using distinct_alphabets(6,8) by (metis nth_mem)

lemma index32: "d < 32 \<Longrightarrow> index_of (base32HexAlphabet ! d) base32HexAlphabet = Some d"
  by (simp add: index_of_nth distinct_alphabets)

lemma quantum_chars:
  "list_all (\<lambda>d. d < 32) xs \<Longrightarrow> length ds + length xs \<le> 8 \<Longrightarrow>
   base32_quantum (map (\<lambda>d. base32HexAlphabet ! d) xs @ rest) ds = base32_quantum rest (ds @ xs)"
proof (induction xs arbitrary: ds)
  case (Cons x xs)
  then have "base32_quantum (map (\<lambda>d. base32HexAlphabet ! d) (x # xs) @ rest) ds =
      base32_quantum (map (\<lambda>d. base32HexAlphabet ! d) xs @ rest) (ds @ [x])"
    by (subst base32_quantum.simps) (simp add: alphabet32_not_pad index32)
  with Cons show ?case by simp
qed simp

lemma quantum_padding:
  "length ds \<in> {2, 4, 5, 7} \<Longrightarrow>
   base32_quantum (replicate (8 - length ds) CHR ''='') ds = Ok (ds, replicate (7 - length ds) CHR ''='', True)"
proof -
  assume ds: "length ds \<in> {2, 4, 5, 7}"
  then have "replicate (8 - length ds) CHR ''='' = CHR ''='' # replicate (7 - length ds) CHR ''=''"
    by (auto simp: replicate_Suc [symmetric] Suc_diff_le simp del: replicate_Suc)
  then show ?thesis using ds by (subst base32_quantum.simps) (auto simp: list_all_iff)
qed

lemma base32_chars: "set (base32_EncodeToString bs) \<subseteq> set (CHR ''='' # base32HexAlphabet)"
proof (induction bs rule: base32_EncodeToString.induct)
  case (1 src)
  have f: "set (map (\<lambda>d. base32HexAlphabet ! d) (take n (encode_group 32 5 8 (take 5 src)))) \<subseteq> set base32HexAlphabet" for n
    using encode_group_less [of 32 n 5 8 "take 5 src"] by (auto simp: list_all_iff distinct_alphabets)
  have pad: "set (replicate n CHR ''='') \<subseteq> {CHR ''=''}" for n by auto
  show ?case
  proof (cases "src = []")
    case False
    have "set (x @ y @ z) \<subseteq> set (CHR ''='' # base32HexAlphabet)"
      if "set x \<subseteq> set base32HexAlphabet" "set y \<subseteq> {CHR ''=''}" "set z \<subseteq> set (CHR ''='' # base32HexAlphabet)" for x y z
      using that by auto
    then show ?thesis
      using f pad 1 [OF False refl refl] False
      by (subst base32_EncodeToString.simps) (simp only: Let_def if_False)
  qed (simp add: base32_EncodeToString.simps)
qed

lemma base32_no_newline: "filter not_newline (base32_EncodeToString bs) = base32_EncodeToString bs"
proof -
  have "list_all not_newline (CHR ''='' # base32HexAlphabet)" by code_simp
  then show ?thesis using base32_chars [of bs] by (auto simp: filter_id_conv list_all_iff)
qed

lemma base32_round_trip_groups: "base32_groups (base32_EncodeToString bs) = Ok bs"
proof (induction bs rule: base32_EncodeToString.induct)
  case (1 src)
  show ?case
  proof (cases "src = []")
    case False
    define g where "g = take 5 src"
    define n where "n = base32_digits (length g)"
    let ?ds = "take n (encode_group 32 5 8 g)" and ?rest = "base32_EncodeToString (drop 5 src)"
    have IH: "base32_groups ?rest = Ok (drop 5 src)" using 1 [OF False refl refl] .
    have "1 \<le> length g" "length g \<le> 5" using False by (cases src; simp add: g_def)+
    then have len: "length g \<in> {1, 2, 3, 4, 5}" by auto
    have short: "length g < 5 \<Longrightarrow> drop 5 src = [] \<and> g = src" by (auto simp: g_def)
    have n8: "n \<le> 8" and n: "length ?ds = n" "list_all (\<lambda>d. d < 32) ?ds"
      using len by (auto simp: n_def base32_digits_def encode_group_less)
    have E: "base32_EncodeToString src =
        map (\<lambda>d. base32HexAlphabet ! d) ?ds @ replicate (8 - n) CHR ''='' @ ?rest"
      using False by (subst base32_EncodeToString.simps) (simp add: g_def n_def Let_def)
    have rt: "decode_group 32 5 8 (length g) (take (8 - j) (encode_group 32 5 8 g)) = g"
      if "256 ^ (5 - length g) = c * 32 ^ j" "j \<le> 8" for c j :: nat
      using group_round_trip [of g 5 32 8 c j] that by (simp add: g_def)
    have bs: "decode_group 32 5 8 (base32_bytes n) ?ds = g"
      using len rt [of 4 6] rt [of 16 4] rt [of 2 3] rt [of 8 1] rt [of 1 0]
      by (auto simp: n_def base32_digits_def base32_bytes_def)
    have Q: "base32_quantum (base32_EncodeToString src) [] = base32_quantum (replicate (8 - n) CHR ''='' @ ?rest) ?ds"
      using quantum_chars [OF n(2), of "[]"] n8 unfolding E by simp
    have "encode_group 32 5 8 g \<noteq> []"
      using length_encode_group [of 32 5 8 g] by (metis list.size(3) zero_neq_numeral)
    then have ne: "base32_EncodeToString src \<noteq> []"
      using n(1) len unfolding E by (auto simp: n_def base32_digits_def)
    show ?thesis
    proof (cases "length g = 5")
      case True
      then have "n = 8" by (simp add: n_def base32_digits_def)
      then have "base32_quantum (base32_EncodeToString src) [] = Ok (?ds, ?rest, False)"
        using Q by (simp add: base32_quantum.simps)
      then show ?thesis using ne IH bs n(1)
        by (subst base32_groups.simps) (simp add: g_def)
    next
      case False
      then have four: "length g \<in> {1, 2, 3, 4}" using len by auto
      then have "n \<in> {2, 4, 5, 7}" by (auto simp: n_def base32_digits_def)
      then have "length ?ds \<in> {2, 4, 5, 7}" using n(1) by simp
      moreover have "drop 5 src = []" and src: "g = src" using short four by auto
      then have "?rest = []" by (simp only: base32_EncodeToString.simps [of "[]"] if_P)
      ultimately have "base32_quantum (base32_EncodeToString src) [] = Ok (?ds, replicate (7 - n) CHR ''='', True)"
        using Q quantum_padding [of ?ds] n(1) by simp
      then show ?thesis using ne bs n(1) src
        by (subst base32_groups.simps) simp
    qed
  qed (simp add: base32_EncodeToString.simps base32_groups.simps)
qed

lemma base32_round_trip: "fromBase32 (toBase32 bs) = Ok bs"
proof -
  let ?u = "\<lambda>b. if ord CHR ''a'' \<le> ord b \<and> ord b \<le> ord CHR ''z'' then char_of (ord b - 32) else b"
  have "list_all (\<lambda>c. ?u c = c) (CHR ''='' # base32HexAlphabet)" by code_simp
  then have "map ?u (base32_EncodeToString bs) = base32_EncodeToString bs"
    using base32_chars [of bs] unfolding list_all_iff by (intro map_idI) blast
  then show ?thesis
    by (simp add: fromBase32_def toBase32_def base32_Decode_def base32_no_newline base32_round_trip_groups)
qed

interpretation hex: encoding hex_EncodeToString hex_DecodeString
  by unfold_locales (rule hex_round_trip)

interpretation base64: encoding toBase64 fromBase64
  by unfold_locales (simp add: toBase64_def fromBase64_def base64_round_trip)

interpretation base32: encoding toBase32 fromBase32
  by unfold_locales (rule base32_round_trip)

end
