(* ===== verification/Wire_Text.thy ===== *)
theory Wire_Text
  imports Wire_Name_Pack Go_Encoding
begin

text \<open>
  Text on the wire: character strings with escapes (\<open>packTxtString\<close>, \<open>packOctetString\<close> and their
  unpackers in \<open>msg.go\<close>), encoded octets (hex, base 32, base 64) and lists of names
  (\<open>msg_helpers.go\<close>).

  The contract of a field that extends to the end of the record is \<open>tail_format\<close>: it is read back
  when nothing follows it, and written to a buffer that has room for it and is zero from the offset
  on, as a message buffer fresh from \<open>make\<close> is.  Every \<open>wire_format\<close> is a \<open>tail_format\<close>.
\<close>

section \<open>The contract of the last field\<close>

definition fresh :: "pbuf \<Rightarrow> bool" where
  "fresh b \<longleftrightarrow> list_all (\<lambda>x. x = 0) (drop (poff b) (pmsg b))"

definition writes_fresh :: "(pbuf \<Rightarrow> pbuf outcome) \<Rightarrow> byte list \<Rightarrow> bool" where
  "writes_fresh pack w \<longleftrightarrow>
     (\<forall>b. pcomp b = None \<longrightarrow> fresh b \<longrightarrow> fits w b \<longrightarrow> pack b = Ok (emit w b))"

definition reads_tail :: "(byte list \<Rightarrow> nat \<Rightarrow> ('a \<times> nat) outcome) \<Rightarrow> 'a \<Rightarrow> byte list \<Rightarrow> bool" where
  "reads_tail unpack x w \<longleftrightarrow>
     (\<forall>msg off. bytes_at msg off w \<longrightarrow> length msg = off + length w \<longrightarrow> unpack msg off = Ok (x, length msg))"

lemma writes_writes_fresh: "writes pack w \<Longrightarrow> writes_fresh pack w"
  by (simp add: writes_def writes_fresh_def)

lemma reads_reads_tail: "reads unpack x w \<Longrightarrow> reads_tail unpack x w"
  by (simp add: reads_def reads_tail_def)

lemma fresh_emit [simp]: "fresh b \<Longrightarrow> fits w b \<Longrightarrow> fresh (emit w b)"
proof -
  assume f: "fresh b" and "fits w b"
  then have le: "poff b + length w \<le> length (pmsg b)" by (simp add: fits_def)
  have "drop (poff b + length w) (put w (poff b) (pmsg b)) = drop (poff b + length w) (pmsg b)"
    using le by (simp add: put_def)
  moreover have "set (drop (poff b + length w) (pmsg b)) \<subseteq> set (drop (poff b) (pmsg b))"
    by (rule set_drop_subset_set_drop) simp
  ultimately show ?thesis using f by (auto simp: fresh_def emit_def list_all_iff)
qed

locale tail_format =
  fixes pack :: "'a \<Rightarrow> pbuf \<Rightarrow> pbuf outcome"
    and unpack :: "byte list \<Rightarrow> nat \<Rightarrow> ('a \<times> nat) outcome"
    and image :: "'a \<Rightarrow> byte list"
    and valid :: "'a \<Rightarrow> bool"
  assumes pack_fresh: "valid x \<Longrightarrow> writes_fresh (pack x) (image x)"
    and unpack_tail: "valid x \<Longrightarrow> reads_tail unpack x (image x)"
    and tail_stays: "stays unpack"
begin

lemma tail_inside: "off \<le> length msg \<Longrightarrow> inside msg off (unpack msg off)"
  using tail_stays by (rule stays_inside)

lemma tail_fits:
  "valid x \<Longrightarrow> pcomp b = None \<Longrightarrow> fresh b \<Longrightarrow> fits (image x) b \<Longrightarrow>
   pack x b = Ok (emit (image x) b)"
  using pack_fresh [of x] by (simp add: writes_fresh_def)

lemma read_tail:
  "valid x \<Longrightarrow> bytes_at msg off (image x) \<Longrightarrow> length msg = off + length (image x) \<Longrightarrow>
   unpack msg off = Ok (x, length msg)"
  using unpack_tail [of x] by (simp add: reads_tail_def)

end

sublocale wire_format \<subseteq> tail_format
  by unfold_locales (simp_all add: writes_writes_fresh pack_image reads_reads_tail unpack_image unpack_stays)

section \<open>Character strings\<close>

text \<open>
  The common loop: the bytes of the text with \<open>\X\<close> and \<open>\DDD\<close> resolved; a backslash at the end is
  dropped.
\<close>

fun pack_text_loop :: "string \<Rightarrow> nat \<Rightarrow> byte list \<Rightarrow> (nat \<times> byte list) outcome" where
  "pack_text_loop [] off msg = Ok (off, msg)"
| "pack_text_loop (c # cs) off msg =
     (if length msg \<le> off then Err ErrBuf
      else if c = CHR 0x5C then
        (case cs of
           [] \<Rightarrow> Ok (off, msg)
         | d # ds \<Rightarrow>
             if is_ddd cs 0 (length cs) then pack_text_loop (drop 2 ds) (off + 1) (msg[off := dddToByte cs])
             else pack_text_loop ds (off + 1) (msg[off := byte_of d]))
      else pack_text_loop cs (off + 1) (msg[off := byte_of c]))"

text \<open>The length of \<open>txtTmp\<close>, the scratch buffer.\<close>

abbreviation (input) txtTmp :: nat where "txtTmp \<equiv> 256 * 4 + 1"

definition packTxtString :: "string \<Rightarrow> pbuf \<Rightarrow> pbuf outcome" where
  "packTxtString s b =
     (let lenByteOffset = poff b
      in if poff b \<ge> length (pmsg b) \<or> length s > txtTmp then Err ErrBuf
         else
           obind (pack_text_loop s (poff b + 1) (pmsg b)) (\<lambda>(off, msg).
             let l = off - lenByteOffset - 1
             in if l > 255 then Err (Error ''string exceeded 255 bytes in txt'')
                else Ok (b\<lparr>pmsg := msg[lenByteOffset := of_nat l], poff := off\<rparr>)))"

definition packOctetString :: "string \<Rightarrow> pbuf \<Rightarrow> pbuf outcome" where
  "packOctetString s b =
     (if poff b \<ge> length (pmsg b) \<or> length s > txtTmp then Err ErrBuf
      else
        obind (pack_text_loop s (poff b) (pmsg b)) (\<lambda>(off, msg).
          Ok (b\<lparr>pmsg := msg, poff := off\<rparr>)))"

fun pack_txt_loop :: "string list \<Rightarrow> pbuf \<Rightarrow> pbuf outcome" where
  "pack_txt_loop [] b = Ok b"
| "pack_txt_loop (t # ts) b =
     (if length t > txtTmp then Err ErrBuf
      else obind (packTxtString t b) (\<lambda>b. pack_txt_loop ts b))"

definition packTxt :: "string list \<Rightarrow> pbuf \<Rightarrow> pbuf outcome" where
  "packTxt txt b =
     (if length txt = 0 then
        (if poff b \<ge> length (pmsg b) then Err ErrBuf
         else Ok (b\<lparr>pmsg := (pmsg b)[poff b := 0]\<rparr>))
      else pack_txt_loop txt b)"

text \<open>How a byte of a character string is presented.\<close>

definition text_byte :: "byte \<Rightarrow> string" where
  "text_byte b =
     (if b = byte_of CHR 0x22 \<or> b = byte_of CHR 0x5C then [CHR 0x5C, char_of_byte b]
      else if unat b < 32 \<or> unat b > 127 then CHR 0x5C # ddd b
      else [char_of_byte b])"

definition unpackTxtString :: "byte list \<Rightarrow> nat \<Rightarrow> (string \<times> nat) outcome" where
  "unpackTxtString msg offset =
     (if offset + 1 > length msg then Err (overflow ''unpacking txt'')
      else
        (let l = unat (msg ! offset)
         in if offset + l + 1 > length msg then Err (overflow ''unpacking txt'')
            else Ok (concat (map text_byte (take l (drop (offset + 1) msg))), offset + 1 + l)))"

function unpackTxt :: "byte list \<Rightarrow> nat \<Rightarrow> string list \<Rightarrow> (string list \<times> nat) outcome" where
  "unpackTxt msg off ss =
     (if off < length msg then
        obind (unpackTxtString msg off) (\<lambda>r. unpackTxt msg (snd r) (ss @ [fst r]))
      else Ok (ss, off))"
  by pat_completeness auto
termination
  by (relation "measure (\<lambda>(msg, off, ss). length msg - off)")
    (auto simp: unpackTxtString_def Let_def split: if_splits)

declare unpackTxt.simps [simp del]

text \<open>\<open>unpackString\<close> repeats \<open>unpackTxtString\<close>, text for text.\<close>

definition unpackString :: "byte list \<Rightarrow> nat \<Rightarrow> (string \<times> nat) outcome" where
  "unpackString msg off =
     (if off + 1 > length msg then Err (overflow ''unpacking txt'')
      else
        (let l = unat (msg ! off)
         in if off + l + 1 > length msg then Err (overflow ''unpacking txt'')
            else Ok (concat (map text_byte (take l (drop (off + 1) msg))), off + 1 + l)))"

definition packString :: "string \<Rightarrow> pbuf \<Rightarrow> pbuf outcome" where
  "packString s b = packTxtString s b"

definition unpackStringTxt :: "byte list \<Rightarrow> nat \<Rightarrow> (string list \<times> nat) outcome" where
  "unpackStringTxt msg off = unpackTxt msg off []"

definition packStringTxt :: "string list \<Rightarrow> pbuf \<Rightarrow> pbuf outcome" where
  "packStringTxt s b = packTxt s b"

definition unpackStringOctet :: "byte list \<Rightarrow> nat \<Rightarrow> (string \<times> nat) outcome" where
  "unpackStringOctet msg off = obind (go_slice msg (int off) (int (length msg))) (\<lambda>s. Ok (string_of s, length msg))"

definition packStringOctet :: "string \<Rightarrow> pbuf \<Rightarrow> pbuf outcome" where
  "packStringOctet s b = packOctetString s b"

section \<open>Encoded octets\<close>

text \<open>The common shape: a decoded text is copied to the buffer, a slice is encoded.\<close>

definition pack_octets :: "byte list outcome \<Rightarrow> string \<Rightarrow> pbuf \<Rightarrow> pbuf outcome" where
  "pack_octets octets what b =
     obind octets (\<lambda>h.
       if poff b + length h > length (pmsg b) then Err (overflow what) else Ok (emit h b))"

definition unpack_octets :: "(byte list \<Rightarrow> string) \<Rightarrow> string \<Rightarrow> byte list \<Rightarrow> nat \<Rightarrow> nat \<Rightarrow> (string \<times> nat) outcome" where
  "unpack_octets enc what msg off fin =
     (if fin > length msg then Err (overflow what)
      else obind (go_slice msg (int off) (int fin)) (\<lambda>s. Ok (enc s, fin)))"

definition unpackStringBase32 :: "byte list \<Rightarrow> nat \<Rightarrow> nat \<Rightarrow> (string \<times> nat) outcome" where
  "unpackStringBase32 = unpack_octets toBase32 ''unpacking base32''"

definition packStringBase32 :: "string \<Rightarrow> pbuf \<Rightarrow> pbuf outcome" where
  "packStringBase32 s = pack_octets (fromBase32 s) ''packing base32''"

definition unpackStringBase64 :: "byte list \<Rightarrow> nat \<Rightarrow> nat \<Rightarrow> (string \<times> nat) outcome" where
  "unpackStringBase64 = unpack_octets toBase64 ''unpacking base64''"

definition packStringBase64 :: "string \<Rightarrow> pbuf \<Rightarrow> pbuf outcome" where
  "packStringBase64 s = pack_octets (fromBase64 s) ''packing base64''"

definition unpackStringHex :: "byte list \<Rightarrow> nat \<Rightarrow> nat \<Rightarrow> (string \<times> nat) outcome" where
  "unpackStringHex = unpack_octets hex_EncodeToString ''unpacking hex''"

definition packStringHex :: "string \<Rightarrow> pbuf \<Rightarrow> pbuf outcome" where
  "packStringHex s = pack_octets (hex_DecodeString s) ''packing hex''"

section \<open>Lists of names\<close>

fun packDataDomainNames :: "string list \<Rightarrow> bool \<Rightarrow> pbuf \<Rightarrow> pbuf outcome" where
  "packDataDomainNames [] compress b = Ok b"
| "packDataDomainNames (n # ns) compress b =
     obind (PackDomainName n (False \<and> compress) b) (\<lambda>b. packDataDomainNames ns compress b)"

function unpack_names_loop :: "byte list \<Rightarrow> nat \<Rightarrow> nat \<Rightarrow> string list \<Rightarrow> (string list \<times> nat) outcome" where
  "unpack_names_loop msg off fin servers =
     (if off < fin then
        obind (UnpackDomainName msg off) (\<lambda>r. unpack_names_loop msg (snd r) fin (servers @ [fst r]))
      else Ok (servers, off))"
  by pat_completeness auto
termination
proof (relation "measure (\<lambda>(msg, off, fin, servers). fin - off)")
  fix msg :: "byte list" and off fin :: nat and servers :: "string list" and r
  assume "off < fin" "UnpackDomainName msg off = Ok r"
  then show "((msg, snd r, fin, servers @ [fst r]), msg, off, fin, servers)
      \<in> measure (\<lambda>(msg, off, fin, servers). fin - off)"
    using UnpackDomainName_advances [of msg off "fst r" "snd r"] by (simp add: diff_less_mono2)
qed simp

declare unpack_names_loop.simps [simp del]

definition unpackDataDomainNames :: "byte list \<Rightarrow> nat \<Rightarrow> nat \<Rightarrow> (string list \<times> nat) outcome" where
  "unpackDataDomainNames msg off fin =
     (if fin > length msg then Err (overflow ''unpacking domain names'')
      else unpack_names_loop msg off fin [])"

section \<open>Sequences on fresh buffers\<close>

lemma writes_freshI:
  "(\<And>b. pcomp b = None \<Longrightarrow> fresh b \<Longrightarrow> fits w b \<Longrightarrow> pack b = Ok (emit w b)) \<Longrightarrow> writes_fresh pack w"
  by (simp add: writes_fresh_def)

lemma writes_freshD:
  "writes_fresh pack w \<Longrightarrow> pcomp b = None \<Longrightarrow> fresh b \<Longrightarrow> fits w b \<Longrightarrow> pack b = Ok (emit w b)"
  by (simp add: writes_fresh_def)

lemma writes_seq_fresh:
  assumes f: "writes f v" and g: "writes_fresh g w"
  shows "writes_fresh (\<lambda>b. obind (f b) g) (v @ w)"
proof (rule writes_freshI)
  fix b :: pbuf
  assume c: "pcomp b = None" and fr: "fresh b" and "fits (v @ w) b"
  then have v: "fits v b" and w: "fits w (emit v b)" by (simp_all add: fits_append)
  have "emit w (emit v b) = emit (v @ w) b"
    using v w by (intro emit_emit) (simp add: fits_def)
  then show "obind (f b) g = Ok (emit (v @ w) b)"
    using writes_fits [OF f c v] writes_freshD [OF g, of "emit v b"] c fr v w by simp
qed

lemma writes_all_fresh:
  "list_all2 writes fs ws \<Longrightarrow> writes_fresh g w \<Longrightarrow> writes_fresh (pack_all (fs @ [g])) (concat ws @ w)"
proof (induction fs ws rule: list_all2_induct)
  case Nil
  have "pack_all [g] = g" by (rule ext) simp
  then show ?case using Nil by simp
next
  case (Cons f fs v ws)
  have "pack_all ((f # fs) @ [g]) = (\<lambda>b. obind (f b) (pack_all (fs @ [g])))" by (rule ext) simp
  then show ?case using writes_seq_fresh [OF Cons(1) Cons(3)] Cons(4) by simp
qed

section \<open>Presentation of character strings\<close>

definition text_present :: "byte list \<Rightarrow> string" where
  "text_present bs = concat (map text_byte bs)"

text \<open>The bytes of a text.\<close>

fun text_bytes :: "string \<Rightarrow> byte list" where
  "text_bytes [] = []"
| "text_bytes (c # cs) =
     (if c = CHR 0x5C then
        (case cs of
           [] \<Rightarrow> []
         | d # ds \<Rightarrow>
             if is_ddd cs 0 (length cs) then dddToByte cs # text_bytes (drop 2 ds)
             else byte_of d # text_bytes ds)
      else byte_of c # text_bytes cs)"

definition wire_text :: "string \<Rightarrow> byte list" where
  "wire_text s = of_nat (length (text_bytes s)) # text_bytes s"

definition valid_text :: "string \<Rightarrow> bool" where
  "valid_text s \<longleftrightarrow> text_present (text_bytes s) = s \<and> length (text_bytes s) \<le> 255"

lemma text_present_simps [simp]:
  "text_present [] = []" "text_present (b # bs) = text_byte b @ text_present bs"
  by (simp_all add: text_present_def)

lemma text_byte_cases:
  obtains (plain) "text_byte b = [char_of_byte b]" "char_of_byte b \<noteq> CHR 0x5C"
  | (special) "text_byte b = [CHR 0x5C, char_of_byte b]" "\<not> is_digit (char_of_byte b)"
  | (ddd) "text_byte b = CHR 0x5C # ddd b"
proof -
  have b: "char_of_byte b = c \<longleftrightarrow> b = byte_of c" for c by auto
  have nd: "\<not> is_digit CHR 0x22" "\<not> is_digit CHR 0x5C" by code_simp+
  show thesis
  proof (cases "b = byte_of CHR 0x22 \<or> b = byte_of CHR 0x5C")
    case True
    then show thesis using special nd by (auto simp: text_byte_def)
  next
    case False
    then have "char_of_byte b \<noteq> CHR 0x5C" by (simp add: b)
    then show thesis using False plain ddd
      by (cases "unat b < 32 \<or> unat b > 127") (simp_all add: text_byte_def)
  qed
qed

lemma length_text_byte: "1 \<le> length (text_byte b) \<and> length (text_byte b) \<le> 4"
  by (cases rule: text_byte_cases [of b]) simp_all

lemma length_text_present: "length bs \<le> length (text_present bs) \<and> length (text_present bs) \<le> 4 * length bs"
proof (induction bs)
  case (Cons b bs)
  then show ?case using length_text_byte [of b] by simp
qed simp

lemma text_bytes_byte: "text_bytes (text_byte b @ r) = b # text_bytes r"
proof (cases rule: text_byte_cases [of b])
  case special
  have "\<not> is_ddd (char_of_byte b # r) 0 (length (char_of_byte b # r))"
    using special(2) by (simp add: is_ddd_def)
  then show ?thesis using special by simp
next
  case ddd
  obtain x y z where xyz: "ddd b = [x, y, z]" "is_digit x" "is_digit y" "is_digit z"
    and d: "dddToByte (x # y # z # r) = b"
    using ddd_digits [of b r] by blast
  have "is_ddd (x # y # z # r) 0 (length (x # y # z # r))"
    using xyz by (simp add: is_ddd_def)
  then show ?thesis using ddd xyz d by simp
qed simp

lemma text_bytes_present [simp]: "text_bytes (text_present bs) = bs"
  by (induction bs) (simp_all add: text_bytes_byte)

lemma valid_text_present: "length bs \<le> 255 \<Longrightarrow> valid_text (text_present bs)"
  by (simp add: valid_text_def)

lemma valid_text_obtain:
  assumes "valid_text s"
  obtains bs where "s = text_present bs" "length bs \<le> 255" "wire_text s = of_nat (length bs) # bs"
  using assms that [of "text_bytes s"] by (simp add: valid_text_def wire_text_def)

section \<open>Packing and unpacking texts\<close>

lemma pack_text_byte:
  "off < length msg \<Longrightarrow> pack_text_loop (text_byte b @ r) off msg = pack_text_loop r (off + 1) (msg[off := b])"
proof (cases rule: text_byte_cases [of b])
  case special
  have "\<not> is_ddd (char_of_byte b # r) 0 (length (char_of_byte b # r))"
    using special(2) by (simp add: is_ddd_def)
  then show "off < length msg \<Longrightarrow> ?thesis" using special by simp
next
  case ddd
  obtain x y z where xyz: "ddd b = [x, y, z]" "is_digit x" "is_digit y" "is_digit z"
    and d: "dddToByte (x # y # z # r) = b"
    using ddd_digits [of b r] by blast
  have "is_ddd (x # y # z # r) 0 (length (x # y # z # r))"
    using xyz by (simp add: is_ddd_def)
  then show "off < length msg \<Longrightarrow> ?thesis" using ddd xyz d by simp
qed simp

lemma pack_text_full: "length msg \<le> off \<Longrightarrow> s \<noteq> [] \<Longrightarrow> pack_text_loop s off msg = Err ErrBuf"
  by (cases s) simp_all

lemma put_one: "off < length msg \<Longrightarrow> msg[off := b] = put [b] off msg"
  by (simp add: put_def upd_conv_take_nth_drop)

lemma pack_text_present:
  "off \<le> length msg \<Longrightarrow> pack_text_loop (text_present bs) off msg =
     (if off + length bs \<le> length msg then Ok (off + length bs, put bs off msg) else Err ErrBuf)"
proof (induction bs arbitrary: off msg)
  case (Cons b bs)
  show ?case
  proof (cases "off < length msg")
    case True
    have "put bs (off + 1) (msg[off := b]) = put (b # bs) off msg" if "off + 1 + length bs \<le> length msg"
      using that put_put [of off "[b]" bs msg] by (simp add: put_one True)
    then show ?thesis using True Cons.IH [of "off + 1" "msg[off := b]"] by (simp add: pack_text_byte)
  next
    case False
    then show ?thesis using length_text_byte [of b] Cons.prems
      by (cases "text_byte b @ text_present bs = []") (simp_all add: pack_text_full)
  qed
qed simp

lemma txt_string_writes: "valid_text s \<Longrightarrow> writes (packTxtString s) (wire_text s)"
proof -
  assume "valid_text s"
  then obtain bs where bs: "s = text_present bs" "length bs \<le> 255" "wire_text s = of_nat (length bs) # bs"
    by (rule valid_text_obtain)
  have s: "length s \<le> 1025" using length_text_present [of bs] bs by simp
  show ?thesis
    unfolding bs(3)
  proof (rule writesI)
    fix b :: pbuf assume "fits (of_nat (length bs) # bs) b"
    then have le: "poff b + 1 + length bs \<le> length (pmsg b)" by (simp add: fits_def)
    have "(put bs (poff b + 1) (pmsg b))[poff b := of_nat (length bs)] =
        put (of_nat (length bs) # bs) (poff b) (pmsg b)"
      using le by (simp add: put_def list_update_append upd_conv_take_nth_drop min_def)
    then show "packTxtString s b = Ok (emit (of_nat (length bs) # bs) b)"
      using le s bs pack_text_present [of "poff b + 1" "pmsg b" bs]
      by (simp add: packTxtString_def Let_def emit_def)
  next
    fix b b' :: pbuf assume "\<not> fits (of_nat (length bs) # bs) b" "packTxtString s b = Ok b'"
    then show "overrun b b'"
      using s bs pack_text_present [of "poff b + 1" "pmsg b" bs]
      by (auto simp: packTxtString_def Let_def fits_def split: if_splits)
  qed
qed

lemma unpack_text_inside: "inside msg off (unpackTxtString msg off)"
  by (simp add: unpackTxtString_def Let_def)

lemma unpack_text_reads: "valid_text s \<Longrightarrow> reads unpackTxtString s (wire_text s)"
proof -
  assume "valid_text s"
  then obtain bs where bs: "s = text_present bs" "length bs \<le> 255" "wire_text s = of_nat (length bs) # bs"
    by (rule valid_text_obtain)
  then show ?thesis
    by (auto simp: reads_def bytes_at_Cons unpackTxtString_def text_present_def) (auto simp: bytes_at_def)
qed

lemma unpackString_eq: "unpackString = unpackTxtString"
  by (intro ext) (simp add: unpackString_def unpackTxtString_def)

lemma packString_eq: "packString = packTxtString"
  by (intro ext) (simp add: packString_def)

interpretation str: wire_format packString unpackString wire_text valid_text
  unfolding unpackString_eq packString_eq
  by unfold_locales (simp_all add: txt_string_writes unpack_text_reads stays_def unpack_text_inside)

section \<open>Lists of texts\<close>

lemma wire_text_ne [simp]: "wire_text s \<noteq> []"
  by (simp add: wire_text_def)

definition wire_texts :: "string list \<Rightarrow> byte list" where
  "wire_texts ts = concat (map wire_text ts)"

definition valid_texts :: "string list \<Rightarrow> bool" where
  "valid_texts ts \<longleftrightarrow> ts \<noteq> [] \<and> list_all valid_text ts"

lemma valid_text_length: "valid_text s \<Longrightarrow> length s \<le> txtTmp"
  using length_text_present [of "text_bytes s"] by (simp add: valid_text_def)

lemma pack_txt_loop_all: "list_all valid_text ts \<Longrightarrow> pack_txt_loop ts = pack_all (map packTxtString ts)"
proof (rule ext)
  fix b show "list_all valid_text ts \<Longrightarrow> pack_txt_loop ts b = pack_all (map packTxtString ts) b"
  proof (induction ts arbitrary: b)
    case (Cons t ts)
    then show ?case using valid_text_length [of t] by (cases "packTxtString t b") simp_all
  qed simp
qed

lemma txt_writes: "valid_texts ts \<Longrightarrow> writes (packStringTxt ts) (wire_texts ts)"
proof -
  assume v: "valid_texts ts"
  then have "list_all2 writes (map packTxtString ts) (map wire_text ts)"
    by (auto simp: valid_texts_def list_all2_conv_all_nth list_all_length intro: txt_string_writes)
  then have "writes (pack_txt_loop ts) (wire_texts ts)"
    using v pack_txt_loop_all [of ts] writes_all by (simp add: valid_texts_def wire_texts_def)
  moreover have "packStringTxt ts = pack_txt_loop ts"
    using v by (intro ext) (simp add: packStringTxt_def packTxt_def valid_texts_def)
  ultimately show ?thesis by simp
qed

lemma unpackTxt_reads:
  "list_all valid_text ts \<Longrightarrow> bytes_at msg off (wire_texts ts) \<Longrightarrow> length msg = off + length (wire_texts ts) \<Longrightarrow>
   unpackTxt msg off ss = Ok (ss @ ts, length msg)"
proof (induction ts arbitrary: off ss)
  case Nil
  then show ?case by (subst unpackTxt.simps) (simp add: wire_texts_def)
next
  case (Cons t ts)
  have at: "bytes_at msg off (wire_text t)" "bytes_at msg (off + length (wire_text t)) (wire_texts ts)"
    using Cons.prems(2) by (simp_all add: wire_texts_def bytes_at_append)
  have "unpackTxtString msg off = Ok (t, off + length (wire_text t))"
    using str.read_field [OF _ at(1)] Cons.prems(1) by (simp add: unpackString_eq)
  moreover have "off < length msg"
    using Cons.prems(3) wire_text_ne [of t] by (simp add: wire_texts_def)
  moreover have "unpackTxt msg (off + length (wire_text t)) (ss @ [t]) = Ok ((ss @ [t]) @ ts, length msg)"
    using Cons at(2) by (intro Cons.IH) (simp_all add: wire_texts_def)
  ultimately show ?case by (subst unpackTxt.simps) simp
qed

lemma unpackTxt_inside: "off \<le> length msg \<Longrightarrow> inside msg off (unpackTxt msg off ss)"
proof (induction msg off ss rule: unpackTxt.induct)
  case (1 msg off ss)
  show ?case
  proof (cases "off < length msg")
    case True
    have "inside msg off (obind (unpackTxtString msg off) (\<lambda>r. unpackTxt msg (snd r) (ss @ [fst r])))"
    proof (rule inside_bind [OF unpack_text_inside])
      fix x off' assume "unpackTxtString msg off = Ok (x, off')" "off' \<le> length msg"
      then show "inside msg off' (unpackTxt msg (snd (x, off')) (ss @ [fst (x, off')]))"
        using 1 True by simp
    qed
    then show ?thesis using True by (subst unpackTxt.simps) simp
  qed (use 1 in \<open>subst unpackTxt.simps, simp\<close>)
qed

interpretation txts: tail_format packStringTxt unpackStringTxt wire_texts valid_texts
proof
  fix ts assume v: "valid_texts ts"
  show "writes_fresh (packStringTxt ts) (wire_texts ts)"
    using txt_writes [OF v] by (rule writes_writes_fresh)
  show "reads_tail unpackStringTxt ts (wire_texts ts)"
    using v unpackTxt_reads [of ts _ _ "[]"] by (simp add: reads_tail_def unpackStringTxt_def valid_texts_def)
qed (simp add: stays_def unpackStringTxt_def unpackTxt_inside)

section \<open>Octets up to the end\<close>

text \<open>
  The packer resolves escapes and the unpacker does not write any, so that only texts without a
  backslash survive.
\<close>

definition valid_octets :: "string \<Rightarrow> bool" where
  "valid_octets s \<longleftrightarrow> s \<noteq> [] \<and> CHR 0x5C \<notin> set s \<and> length s \<le> txtTmp"

lemma pack_plain_text:
  "CHR 0x5C \<notin> set s \<Longrightarrow> off \<le> length msg \<Longrightarrow> pack_text_loop s off msg =
     (if off + length s \<le> length msg then Ok (off + length s, put (bytes_of s) off msg) else Err ErrBuf)"
proof (induction s arbitrary: off msg)
  case (Cons c s)
  show ?case
  proof (cases "off < length msg")
    case True
    have "put (bytes_of s) (off + 1) (msg[off := byte_of c]) = put (bytes_of (c # s)) off msg"
      if "off + 1 + length s \<le> length msg"
      using that put_put [of off "[byte_of c]" "bytes_of s" msg] by (simp add: put_one True bytes_of_def)
    then show ?thesis using True Cons.IH [of "off + 1" "msg[off := byte_of c]"] Cons.prems by auto
  qed (use Cons.prems in simp)
qed simp

interpretation octets: tail_format packStringOctet unpackStringOctet bytes_of valid_octets
proof
  fix s assume v: "valid_octets s"
  have "writes (packStringOctet s) (bytes_of s)"
  proof (rule writesI)
    fix b :: pbuf assume "fits (bytes_of s) b"
    then show "packStringOctet s b = Ok (emit (bytes_of s) b)"
      using v pack_plain_text [of s "poff b" "pmsg b"]
      by (cases s) (auto simp: packStringOctet_def packOctetString_def fits_def emit_def valid_octets_def)
  next
    fix b b' :: pbuf assume "\<not> fits (bytes_of s) b" "packStringOctet s b = Ok b'"
    then show "overrun b b'"
      using v pack_plain_text [of s "poff b" "pmsg b"]
      by (auto simp: packStringOctet_def packOctetString_def fits_def valid_octets_def split: if_splits)
  qed
  then show "writes_fresh (packStringOctet s) (bytes_of s)" by (rule writes_writes_fresh)
  show "reads_tail unpackStringOctet s (bytes_of s)"
    by (auto simp: reads_tail_def unpackStringOctet_def go_slice_nat [of _ "_ + _", simplified] bytes_at_def)
qed (auto simp: stays_def unpackStringOctet_def go_slice_nat)

section \<open>Encoded octets as fields\<close>

lemma octets_writes: "writes (pack_octets (Ok h) what) h"
  by (rule writesI) (auto simp: pack_octets_def fits_def)

lemma octets_reads:
  "bytes_at msg off h \<Longrightarrow> unpack_octets enc what msg off (off + length h) = Ok (enc h, off + length h)"
  using go_slice_nat [of off "off + length h" msg] by (simp add: unpack_octets_def bytes_at_def)

lemma octets_inside:
  "off \<le> fin \<Longrightarrow> inside msg off (unpack_octets enc what msg off fin)"
  by (auto simp: unpack_octets_def go_slice_nat)

lemma hex_writes: "hex.canonical s \<Longrightarrow> writes (packStringHex s) (hex.bytes s)"
  using hex.canonicalD [of s] octets_writes by (simp add: packStringHex_def)

lemma hex_reads:
  "hex.canonical s \<Longrightarrow> bytes_at msg off (hex.bytes s) \<Longrightarrow>
   unpackStringHex msg off (off + length (hex.bytes s)) = Ok (s, off + length (hex.bytes s))"
  using hex.canonicalD [of s] octets_reads by (simp add: unpackStringHex_def)

lemma base64_writes: "base64.canonical s \<Longrightarrow> writes (packStringBase64 s) (base64.bytes s)"
  using base64.canonicalD [of s] octets_writes by (simp add: packStringBase64_def)

lemma base64_reads:
  "base64.canonical s \<Longrightarrow> bytes_at msg off (base64.bytes s) \<Longrightarrow>
   unpackStringBase64 msg off (off + length (base64.bytes s)) = Ok (s, off + length (base64.bytes s))"
  using base64.canonicalD [of s] octets_reads by (simp add: unpackStringBase64_def)

lemma base32_writes: "base32.canonical s \<Longrightarrow> writes (packStringBase32 s) (base32.bytes s)"
  using base32.canonicalD [of s] octets_writes by (simp add: packStringBase32_def)

lemma base32_reads:
  "base32.canonical s \<Longrightarrow> bytes_at msg off (base32.bytes s) \<Longrightarrow>
   unpackStringBase32 msg off (off + length (base32.bytes s)) = Ok (s, off + length (base32.bytes s))"
  using base32.canonicalD [of s] octets_reads by (simp add: unpackStringBase32_def)

lemmas encoded_inside [inside_rules] =
  octets_inside [of _ _ _ hex_EncodeToString "''unpacking hex''", folded unpackStringHex_def]
  octets_inside [of _ _ _ toBase64 "''unpacking base64''", folded unpackStringBase64_def]
  octets_inside [of _ _ _ toBase32 "''unpacking base32''", folded unpackStringBase32_def]

section \<open>Lists of names as a field\<close>

definition wire_names :: "string list \<Rightarrow> byte list" where
  "wire_names ns = concat (map wire_name ns)"

lemma names_pack_all: "packDataDomainNames ns compress = pack_all (map (\<lambda>n. PackDomainName n False) ns)"
proof (rule ext)
  fix b show "packDataDomainNames ns compress b = pack_all (map (\<lambda>n. PackDomainName n False) ns) b"
  proof (induction ns arbitrary: b)
    case (Cons n ns)
    then show ?case by (cases "PackDomainName n False b") simp_all
  qed simp
qed

lemma names_writes: "list_all valid_name ns \<Longrightarrow> writes (packDataDomainNames ns compress) (wire_names ns)"
proof -
  assume "list_all valid_name ns"
  then have "list_all2 writes (map (\<lambda>n. PackDomainName n False) ns) (map wire_name ns)"
    by (auto simp: list_all2_conv_all_nth list_all_length intro: name.pack_image)
  then show ?thesis by (simp add: names_pack_all wire_names_def writes_all)
qed

lemma wire_name_ne [simp]: "wire_name s \<noteq> []"
  by (simp add: wire_name_def)

lemma names_loop_reads:
  "list_all valid_name ns \<Longrightarrow> bytes_at msg off (wire_names ns) \<Longrightarrow> fin = off + length (wire_names ns) \<Longrightarrow>
   unpack_names_loop msg off fin ss = Ok (ss @ ns, fin)"
proof (induction ns arbitrary: off ss)
  case Nil
  then show ?case by (subst unpack_names_loop.simps) (simp add: wire_names_def)
next
  case (Cons n ns)
  have at: "bytes_at msg off (wire_name n)" "bytes_at msg (off + length (wire_name n)) (wire_names ns)"
    using Cons.prems(2) by (simp_all add: wire_names_def bytes_at_append)
  have "UnpackDomainName msg off = Ok (n, off + length (wire_name n))"
    using name.read_field [OF _ at(1)] Cons.prems(1) by simp
  moreover have "off < fin"
    using Cons.prems(3) wire_name_ne [of n] by (simp add: wire_names_def)
  moreover have "unpack_names_loop msg (off + length (wire_name n)) fin (ss @ [n]) = Ok ((ss @ [n]) @ ns, fin)"
    using Cons at(2) by (intro Cons.IH) (simp_all add: wire_names_def)
  ultimately show ?case by (subst unpack_names_loop.simps) simp
qed

lemma names_reads:
  "list_all valid_name ns \<Longrightarrow> bytes_at msg off (wire_names ns) \<Longrightarrow>
   unpackDataDomainNames msg off (off + length (wire_names ns)) = Ok (ns, off + length (wire_names ns))"
  using names_loop_reads [of ns msg off "off + length (wire_names ns)" "[]"]
  by (simp add: unpackDataDomainNames_def bytes_at_def)

lemma names_loop_inside:
  "off \<le> length msg \<Longrightarrow> inside msg off (unpack_names_loop msg off fin ss)"
proof (induction msg off fin ss rule: unpack_names_loop.induct)
  case (1 msg off fin ss)
  show ?case
  proof (cases "off < fin")
    case True
    have "inside msg off (obind (UnpackDomainName msg off) (\<lambda>r. unpack_names_loop msg (snd r) fin (ss @ [fst r])))"
    proof (rule inside_bind [OF name.unpack_inside [OF 1(2)]])
      fix x off' assume "UnpackDomainName msg off = Ok (x, off')" "off' \<le> length msg"
      then show "inside msg off' (unpack_names_loop msg (snd (x, off')) fin (ss @ [fst (x, off')]))"
        using 1 True by simp
    qed
    then show ?thesis using True by (subst unpack_names_loop.simps) simp
  qed (use 1 in \<open>subst unpack_names_loop.simps, simp\<close>)
qed

lemma names_inside [inside_rules]: "off \<le> length msg \<Longrightarrow> inside msg off (unpackDataDomainNames msg off fin)"
  by (simp add: unpackDataDomainNames_def names_loop_inside)

end
