(* ===== verification/Wire_Edns.thy ===== *)
theory Wire_Edns
  imports Wire_Text
begin

text \<open>
  EDNS0 (\<open>edns.go\<close>): the options of an \<open>OPT\<close> record, their wire format (\<open>pack\<close>, \<open>unpack\<close> and
  \<open>Option\<close> of every option, \<open>packDataOpt\<close> and \<open>unpackDataOpt\<close> of \<open>msg_helpers.go\<close>), and the fields
  of the record that live in the class and the TTL of its header.
\<close>

section \<open>Options\<close>

abbreviation (input) EDNS0LLQ :: uint16 where "EDNS0LLQ \<equiv> 1"
abbreviation (input) EDNS0UL :: uint16 where "EDNS0UL \<equiv> 2"
abbreviation (input) EDNS0NSID :: uint16 where "EDNS0NSID \<equiv> 3"
abbreviation (input) EDNS0DAU :: uint16 where "EDNS0DAU \<equiv> 5"
abbreviation (input) EDNS0DHU :: uint16 where "EDNS0DHU \<equiv> 6"
abbreviation (input) EDNS0N3U :: uint16 where "EDNS0N3U \<equiv> 7"
abbreviation (input) EDNS0SUBNET :: uint16 where "EDNS0SUBNET \<equiv> 8"
abbreviation (input) EDNS0EXPIRE :: uint16 where "EDNS0EXPIRE \<equiv> 9"
abbreviation (input) EDNS0COOKIE :: uint16 where "EDNS0COOKIE \<equiv> 10"
abbreviation (input) EDNS0TCPKEEPALIVE :: uint16 where "EDNS0TCPKEEPALIVE \<equiv> 11"
abbreviation (input) EDNS0SUBNETDRAFT :: uint16 where "EDNS0SUBNETDRAFT \<equiv> 0x50fa"

text \<open>\<open>Option()\<close>: the option code.\<close>

primrec edns_Option :: "EDNS0 \<Rightarrow> uint16" where
  "edns_Option (EDNS0_NSID code nsid) = EDNS0NSID"
| "edns_Option (EDNS0_SUBNET code family netmask scope addr draft) = (if draft then EDNS0SUBNETDRAFT else EDNS0SUBNET)"
| "edns_Option (EDNS0_COOKIE code cookie) = EDNS0COOKIE"
| "edns_Option (EDNS0_UL code lease) = EDNS0UL"
| "edns_Option (EDNS0_LLQ code ver opcode err llqid leaselife) = EDNS0LLQ"
| "edns_Option (EDNS0_DAU code algs) = EDNS0DAU"
| "edns_Option (EDNS0_DHU code algs) = EDNS0DHU"
| "edns_Option (EDNS0_N3U code algs) = EDNS0N3U"
| "edns_Option (EDNS0_EXPIRE code expire) = EDNS0EXPIRE"
| "edns_Option (EDNS0_LOCAL code data) = code"
| "edns_Option (EDNS0_TCP_KEEPALIVE code len timeout) = EDNS0TCPKEEPALIVE"

text \<open>\<open>net.CIDRMask\<close> and \<open>IP.Mask\<close> for an address and a mask of the same length.\<close>

definition CIDRMask :: "nat \<Rightarrow> nat \<Rightarrow> byte list" where
  "CIDRMask ones bits =
     map (\<lambda>i. if ones \<ge> 8 * (i + 1) then 0xff
              else if ones > 8 * i then NOT (drop_bit (ones - 8 * i) 0xff)
              else 0) [0 ..< bits div 8]"

definition Mask :: "byte list \<Rightarrow> byte list \<Rightarrow> byte list" where
  "Mask ip m = map (\<lambda>(a, b). a AND b) (zip ip m)"

definition SUBNET_pack :: "uint16 \<Rightarrow> byte \<Rightarrow> byte \<Rightarrow> IP \<Rightarrow> byte list outcome" where
  "SUBNET_pack family netmask scope addr =
     (let b = be_bytes 2 family @ [netmask, scope]
      in if family = 1 then
           (if netmask > 32 then Err (Error ''dns: bad netmask'')
            else
              (case To4 addr of
                 None \<Rightarrow> Err (Error ''dns: bad address'')
               | Some a4 \<Rightarrow>
                   if length a4 \<noteq> 4 then Err (Error ''dns: bad address'')
                   else
                     (let ip = Mask a4 (CIDRMask (unat netmask) 32); needLength = (netmask + 8 - 1) div 8
                      in Ok (b @ take (unat needLength) ip))))
         else if family = 2 then
           (if netmask > 128 then Err (Error ''dns: bad netmask'')
            else if length addr \<noteq> 16 then Err (Error ''dns: bad address'')
            else
              (let ip = Mask addr (CIDRMask (unat netmask) 128); needLength = (netmask + 8 - 1) div 8
               in Ok (b @ take (unat needLength) ip)))
         else Err (Error ''dns: bad address family''))"

text \<open>The address of an option is filled up with zeros, or cut off.\<close>

definition pad_to :: "nat \<Rightarrow> byte list \<Rightarrow> byte list" where
  "pad_to n bs = take n bs @ replicate (n - length bs) 0"

definition SUBNET_unpack :: "byte list \<Rightarrow> EDNS0 outcome" where
  "SUBNET_unpack b =
     (if length b < 4 then Err ErrBuf
      else
        (let family = be_word (take 2 b); netmask = b ! 2; scope = b ! 3
         in if family = 1 then
              (if netmask > 32 \<or> scope > 32 then Err (Error ''dns: bad netmask'')
               else
                 (let addr = pad_to 4 (drop 4 b)
                  in Ok (EDNS0_SUBNET 0 family netmask scope (IPv4 (addr ! 0) (addr ! 1) (addr ! 2) (addr ! 3)) False)))
            else if family = 2 then
              (if netmask > 128 \<or> scope > 128 then Err (Error ''dns: bad netmask'')
               else Ok (EDNS0_SUBNET 0 family netmask scope (pad_to 16 (drop 4 b)) False))
            else Err (Error ''dns: bad address family'')))"

definition LLQ_pack :: "uint16 \<Rightarrow> uint16 \<Rightarrow> uint16 \<Rightarrow> uint64 \<Rightarrow> uint32 \<Rightarrow> byte list" where
  "LLQ_pack ver opcode err llqid leaselife =
     be_bytes 2 ver @ be_bytes 2 opcode @ be_bytes 2 err @ be_bytes 8 llqid @ be_bytes 4 leaselife"

definition LLQ_unpack :: "byte list \<Rightarrow> EDNS0 outcome" where
  "LLQ_unpack b =
     (if length b < 18 then Err ErrBuf
      else Ok (EDNS0_LLQ 0 (be_word (take 2 b)) (be_word (take 2 (drop 2 b))) (be_word (take 2 (drop 4 b)))
                 (be_word (take 8 (drop 6 b))) (be_word (take 4 (drop 14 b)))))"

definition UL_unpack :: "byte list \<Rightarrow> EDNS0 outcome" where
  "UL_unpack b = (if length b < 4 then Err ErrBuf else Ok (EDNS0_UL 0 (be_word (take 4 b))))"

definition EXPIRE_unpack :: "byte list \<Rightarrow> EDNS0 outcome" where
  "EXPIRE_unpack b = (if length b < 4 then Err ErrBuf else Ok (EDNS0_EXPIRE 0 (be_word (take 4 b))))"

text \<open>\<open>make([]byte, 4+e.Length)\<close>: the length is computed in 16 bits.\<close>

definition TCP_KEEPALIVE_pack :: "uint16 \<Rightarrow> uint16 \<Rightarrow> uint16 \<Rightarrow> byte list outcome" where
  "TCP_KEEPALIVE_pack code len timeout =
     (if timeout \<noteq> 0 \<and> len \<noteq> 2 then Err (Error ''dns: timeout specified but length is not 2'')
      else if timeout = 0 \<and> len \<noteq> 0 then Err (Error ''dns: timeout not specified but length is not 0'')
      else Ok (be_bytes 2 code @ be_bytes 2 len @ (if len = 2 then be_bytes 2 timeout else [])))"

definition TCP_KEEPALIVE_unpack :: "byte list \<Rightarrow> EDNS0 outcome" where
  "TCP_KEEPALIVE_unpack b =
     (if length b < 4 then Err ErrBuf
      else
        (let len = be_word (take 2 (drop 2 b))
         in if len \<noteq> 0 \<and> len \<noteq> 2 then Err (Error ''dns: length mismatch, want 0/2'')
            else if len = 2 then
              (if length b < 6 then Err ErrBuf
               else Ok (EDNS0_TCP_KEEPALIVE 0 len (be_word (take 2 (drop 4 b)))))
            else Ok (EDNS0_TCP_KEEPALIVE 0 len 0)))"

text \<open>\<open>pack()\<close> of the options.\<close>

primrec edns_pack :: "EDNS0 \<Rightarrow> byte list outcome" where
  "edns_pack (EDNS0_NSID code nsid) = hex_DecodeString nsid"
| "edns_pack (EDNS0_SUBNET code family netmask scope addr draft) = SUBNET_pack family netmask scope addr"
| "edns_pack (EDNS0_COOKIE code cookie) = hex_DecodeString cookie"
| "edns_pack (EDNS0_UL code lease) = Ok (be_bytes 4 lease)"
| "edns_pack (EDNS0_LLQ code ver opcode err llqid leaselife) = Ok (LLQ_pack ver opcode err llqid leaselife)"
| "edns_pack (EDNS0_DAU code algs) = Ok algs"
| "edns_pack (EDNS0_DHU code algs) = Ok algs"
| "edns_pack (EDNS0_N3U code algs) = Ok algs"
| "edns_pack (EDNS0_EXPIRE code expire) = Ok (be_bytes 4 expire)"
| "edns_pack (EDNS0_LOCAL code data) = Ok data"
| "edns_pack (EDNS0_TCP_KEEPALIVE code len timeout) = TCP_KEEPALIVE_pack code len timeout"

section \<open>Lists of options\<close>

text \<open>
  \<open>packDataOpt\<close> checks for three bytes and writes four, so that the second \<open>PutUint16\<close> panics
  when exactly three are left; data that do not fit are cut off without an error.
\<close>

fun packDataOpt :: "EDNS0 list \<Rightarrow> pbuf \<Rightarrow> pbuf outcome" where
  "packDataOpt [] b = Ok b"
| "packDataOpt (el # els) b =
     (case edns_pack el of
        Err e \<Rightarrow> Err (overflow ''packing opt'')
      | Panic p \<Rightarrow> Panic p
      | Loops \<Rightarrow> Loops
      | Ok d \<Rightarrow>
          if poff b + 3 > length (pmsg b) then Err (overflow ''packing opt'')
          else if poff b + 4 > length (pmsg b) then Panic IndexOutOfRange
          else
            (let b = emit (be_bytes 2 (edns_Option el) @ be_bytes 2 (of_nat (length d) :: uint16)) b
             in if poff b + length d > length (pmsg b) then
                  packDataOpt els (b\<lparr>pmsg := put (take (length (pmsg b) - poff b) d) (poff b) (pmsg b),
                                     poff := length (pmsg b)\<rparr>)
                else packDataOpt els (emit d b)))"

text \<open>The option of a code with its data.\<close>

definition unpack_option :: "uint16 \<Rightarrow> byte list \<Rightarrow> EDNS0 outcome" where
  "unpack_option code data =
     (if code = EDNS0NSID then Ok (EDNS0_NSID 0 (hex_EncodeToString data))
      else if code = EDNS0SUBNET \<or> code = EDNS0SUBNETDRAFT then
        map_ok (\<lambda>e. case e of
                  EDNS0_SUBNET c family netmask scope addr draft \<Rightarrow>
                    EDNS0_SUBNET c family netmask scope addr (code = EDNS0SUBNETDRAFT)
                | _ \<Rightarrow> e) (SUBNET_unpack data)
      else if code = EDNS0COOKIE then Ok (EDNS0_COOKIE 0 (hex_EncodeToString data))
      else if code = EDNS0UL then UL_unpack data
      else if code = EDNS0LLQ then LLQ_unpack data
      else if code = EDNS0DAU then Ok (EDNS0_DAU 0 data)
      else if code = EDNS0DHU then Ok (EDNS0_DHU 0 data)
      else if code = EDNS0N3U then Ok (EDNS0_N3U 0 data)
      else Ok (EDNS0_LOCAL code data))"

function unpack_opt_loop :: "byte list \<Rightarrow> nat \<Rightarrow> EDNS0 list \<Rightarrow> (EDNS0 list \<times> nat) outcome" where
  "unpack_opt_loop msg off edns =
     (if off + 4 > length msg then Err (overflow ''unpacking opt'')
      else
        (let code = be_word (take 2 (drop off msg)); optlen = unat (be_word (take 2 (drop (off + 2) msg)) :: uint16)
         in if off + 4 + optlen > length msg then Err (overflow ''unpacking opt'')
            else
              obind (unpack_option code (take optlen (drop (off + 4) msg))) (\<lambda>e.
                if off + 4 + optlen < length msg then unpack_opt_loop msg (off + 4 + optlen) (edns @ [e])
                else Ok (edns @ [e], off + 4 + optlen))))"
  by pat_completeness auto
termination
  by (relation "measure (\<lambda>(msg, off, edns). length msg - off)") auto

declare unpack_opt_loop.simps [simp del]

definition unpackDataOpt :: "byte list \<Rightarrow> nat \<Rightarrow> (EDNS0 list \<times> nat) outcome" where
  "unpackDataOpt msg off = unpack_opt_loop msg off []"

section \<open>The header of an OPT record\<close>

definition OPT_Version :: "RR_Header \<Rightarrow> byte" where
  "OPT_Version h = ucast (drop_bit 16 (Ttl h AND 0x00FF0000))"

definition OPT_SetVersion :: "byte \<Rightarrow> RR_Header \<Rightarrow> RR_Header" where
  "OPT_SetVersion v h = h\<lparr>Ttl := (Ttl h AND 0xFF00FFFF) OR push_bit 16 (ucast v)\<rparr>"

definition OPT_ExtendedRcode :: "RR_Header \<Rightarrow> int" where
  "OPT_ExtendedRcode h = uint (drop_bit 24 (Ttl h AND 0xFF000000)) + 15"

definition OPT_SetExtendedRcode :: "byte \<Rightarrow> RR_Header \<Rightarrow> RR_Header" where
  "OPT_SetExtendedRcode v h =
     (if uint v < RcodeBadVers then h
      else h\<lparr>Ttl := (Ttl h AND 0x00FFFFFF) OR push_bit 24 (ucast (v - 15))\<rparr>)"

definition OPT_UDPSize :: "RR_Header \<Rightarrow> uint16" where
  "OPT_UDPSize h = Class h"

definition OPT_SetUDPSize :: "uint16 \<Rightarrow> RR_Header \<Rightarrow> RR_Header" where
  "OPT_SetUDPSize sz h = h\<lparr>Class := sz\<rparr>"

abbreviation (input) bit_DO :: uint32 where "bit_DO \<equiv> 0x8000"

definition OPT_Do :: "RR_Header \<Rightarrow> bool" where
  "OPT_Do h \<longleftrightarrow> Ttl h AND bit_DO = bit_DO"

text \<open>The variadic argument is a list.\<close>

definition OPT_SetDo :: "bool list \<Rightarrow> RR_Header \<Rightarrow> RR_Header" where
  "OPT_SetDo arg h =
     (if length arg = 1 then
        (if arg ! 0 then h\<lparr>Ttl := Ttl h OR bit_DO\<rparr> else h\<lparr>Ttl := Ttl h AND NOT bit_DO\<rparr>)
      else h\<lparr>Ttl := Ttl h OR bit_DO\<rparr>)"

section \<open>Options survive the wire\<close>

text \<open>
  The options that are read back as they are: the code field, which \<open>unpack\<close> leaves at zero, is
  zero except for local options, hex text is in lower case, the address of a subnet has no bits
  behind its mask, and the type of the option is one that \<open>unpackDataOpt\<close> tells apart by its code.
\<close>

primrec valid_option :: "EDNS0 \<Rightarrow> bool" where
  "valid_option (EDNS0_NSID code nsid) \<longleftrightarrow> code = 0 \<and> hex.canonical nsid \<and> length (hex.bytes nsid) < 65536"
| "valid_option (EDNS0_SUBNET code family netmask scope addr draft) \<longleftrightarrow>
     code = 0 \<and> length addr = 16 \<and>
     (family = 1 \<and> netmask \<le> 32 \<and> scope \<le> 32 \<and> take 12 addr = v4InV6Prefix \<and>
        Mask (drop 12 addr) (CIDRMask (unat netmask) 32) = drop 12 addr \<or>
      family = 2 \<and> netmask \<le> 128 \<and> scope \<le> 128 \<and> Mask addr (CIDRMask (unat netmask) 128) = addr)"
| "valid_option (EDNS0_COOKIE code cookie) \<longleftrightarrow> code = 0 \<and> hex.canonical cookie \<and> length (hex.bytes cookie) < 65536"
| "valid_option (EDNS0_UL code lease) \<longleftrightarrow> code = 0"
| "valid_option (EDNS0_LLQ code ver opcode err llqid leaselife) \<longleftrightarrow> code = 0"
| "valid_option (EDNS0_DAU code algs) \<longleftrightarrow> code = 0 \<and> length algs < 65536"
| "valid_option (EDNS0_DHU code algs) \<longleftrightarrow> code = 0 \<and> length algs < 65536"
| "valid_option (EDNS0_N3U code algs) \<longleftrightarrow> code = 0 \<and> length algs < 65536"
| "valid_option (EDNS0_EXPIRE code expire) \<longleftrightarrow> False"
| "valid_option (EDNS0_LOCAL code data) \<longleftrightarrow> code \<notin> {1, 2, 3, 5, 6, 7, 8, 10, 0x50fa} \<and> length data < 65536"
| "valid_option (EDNS0_TCP_KEEPALIVE code len timeout) \<longleftrightarrow> False"

definition option_bytes :: "EDNS0 \<Rightarrow> byte list" where
  "option_bytes el = (case edns_pack el of Ok d \<Rightarrow> d | Err e \<Rightarrow> [] | Panic p \<Rightarrow> [] | Loops \<Rightarrow> [])"

definition wire_option :: "EDNS0 \<Rightarrow> byte list" where
  "wire_option el =
     be_bytes 2 (edns_Option el) @ be_bytes 2 (of_nat (length (option_bytes el)) :: uint16) @ option_bytes el"

lemma length_CIDRMask [simp]: "length (CIDRMask ones n) = n div 8"
  by (simp add: CIDRMask_def)

lemma length_Mask [simp]: "length (Mask ip m) = min (length ip) (length m)"
  by (simp add: Mask_def)

lemma CIDRMask_zero: "i < n div 8 \<Longrightarrow> (ones + 7) div 8 \<le> i \<Longrightarrow> CIDRMask ones n ! i = 0"
proof -
  assume i: "i < n div 8" and "(ones + 7) div 8 \<le> i"
  then have "ones \<le> 8 * i" by linarith
  with i show ?thesis by (simp add: CIDRMask_def)
qed

lemma masked_pad:
  assumes m: "Mask ip (CIDRMask ones (8 * length ip)) = ip" and "ones \<le> 8 * length ip"
  shows "pad_to (length ip) (take ((ones + 7) div 8) ip) = ip"
proof (rule nth_equalityI)
  let ?k = "(ones + 7) div 8"
  have k: "?k \<le> length ip" using assms(2) by linarith
  then show "length (pad_to (length ip) (take ?k ip)) = length ip" by (simp add: pad_to_def)
  fix i assume "i < length (pad_to (length ip) (take ?k ip))"
  then have i: "i < length ip" using k by (simp add: pad_to_def)
  show "pad_to (length ip) (take ?k ip) ! i = ip ! i"
  proof (cases "i < ?k")
    case True
    then show ?thesis using i k by (simp add: pad_to_def nth_append)
  next
    case False
    have "Mask ip (CIDRMask ones (8 * length ip)) ! i = ip ! i AND CIDRMask ones (8 * length ip) ! i"
      using i by (simp add: Mask_def)
    then have "ip ! i = 0" using m False i CIDRMask_zero [of i "8 * length ip" ones] by simp
    then show ?thesis using i k False by (simp add: pad_to_def nth_append)
  qed
qed

lemma need_length: "netmask \<le> (128 :: byte) \<Longrightarrow> unat ((netmask + 8 - 1) div 8) = (unat netmask + 7) div 8"
proof -
  assume "netmask \<le> 128"
  then have "unat netmask \<le> 128" by (simp add: word_le_nat_alt)
  then have "unat (netmask + 7) = unat netmask + 7" by (subst unat_add_lem [THEN iffD1]) simp_all
  moreover have "netmask + 8 - 1 = netmask + 7" by simp
  ultimately show ?thesis by (simp only: unat_div) simp
qed

lemma take_be [simp]: "take n (be_bytes n x @ r) = be_bytes n x" "drop n (be_bytes n x @ r) = r"
  by simp_all

lemma SUBNET_round_trip:
  assumes v: "valid_option (EDNS0_SUBNET code family netmask scope addr draft)"
  shows "\<exists>d. SUBNET_pack family netmask scope addr = Ok d \<and> length d < 65536 \<and>
    SUBNET_unpack d = Ok (EDNS0_SUBNET 0 family netmask scope addr False)"
proof -
  have len: "length addr = 16" using v by simp
  consider (v4) "family = 1" "\<not> 32 < netmask" "\<not> 32 < scope" "take 12 addr = v4InV6Prefix"
      "Mask (drop 12 addr) (CIDRMask (unat netmask) 32) = drop 12 addr"
    | (v6) "family = 2" "\<not> 128 < netmask" "\<not> 128 < scope" "Mask addr (CIDRMask (unat netmask) 128) = addr"
    using v by (auto simp: not_less)
  then show ?thesis
  proof cases
    case v4
    have n: "netmask \<le> 128" "unat netmask \<le> 32" using v4(2) by (simp_all add: word_less_nat_alt word_le_nat_alt)
    have "To4 addr = Some (drop 12 addr)" using v4(4) len by (simp add: To4_def)
    then have p: "SUBNET_pack family netmask scope addr =
        Ok (be_bytes 2 family @ [netmask, scope] @ take ((unat netmask + 7) div 8) (drop 12 addr))"
      using v4 len n need_length [of netmask] by (simp add: SUBNET_pack_def Let_def)
    have pad: "pad_to 4 (take ((unat netmask + 7) div 8) (drop 12 addr)) = drop 12 addr"
      using masked_pad [of "drop 12 addr" "unat netmask"] v4(5) len n by simp
    have "IPv4 (drop 12 addr ! 0) (drop 12 addr ! 1) (drop 12 addr ! 2) (drop 12 addr ! 3) = addr"
    proof -
      have "drop 12 addr = [drop 12 addr ! 0, drop 12 addr ! 1, drop 12 addr ! 2, drop 12 addr ! 3]"
        by (rule list4) (simp add: len)
      then show ?thesis using v4(4) by (metis IPv4_def append_take_drop_id)
    qed
    then have "SUBNET_unpack (be_bytes 2 family @ [netmask, scope] @ take ((unat netmask + 7) div 8) (drop 12 addr)) =
        Ok (EDNS0_SUBNET 0 family netmask scope addr False)"
      using v4 pad by (simp add: SUBNET_unpack_def Let_def be_word_all nth_append)
    then show ?thesis using p len by simp
  next
    case v6
    have n: "unat netmask \<le> 128" using v6(2) by (simp add: word_less_nat_alt)
    have p: "SUBNET_pack family netmask scope addr =
        Ok (be_bytes 2 family @ [netmask, scope] @ take ((unat netmask + 7) div 8) addr)"
      using v6 len need_length [of netmask, unfolded not_less [symmetric]] by (simp add: SUBNET_pack_def Let_def)
    have pad: "pad_to 16 (take ((unat netmask + 7) div 8) addr) = addr"
      using masked_pad [of addr "unat netmask"] v6(4) len n by simp
    have "SUBNET_unpack (be_bytes 2 family @ [netmask, scope] @ take ((unat netmask + 7) div 8) addr) =
        Ok (EDNS0_SUBNET 0 family netmask scope addr False)"
      using v6 pad by (simp add: SUBNET_unpack_def Let_def be_word_all nth_append)
    then show ?thesis using p len by simp
  qed
qed

lemma option_round_trip:
  "valid_option el \<Longrightarrow>
   edns_pack el = Ok (option_bytes el) \<and> length (option_bytes el) < 65536 \<and>
   unpack_option (edns_Option el) (option_bytes el) = Ok el"
proof (cases el)
  case (EDNS0_SUBNET code family netmask scope addr draft)
  assume "valid_option el"
  then obtain d where "SUBNET_pack family netmask scope addr = Ok d" "length d < 65536"
    "SUBNET_unpack d = Ok (EDNS0_SUBNET 0 family netmask scope addr False)" "code = 0"
    using SUBNET_round_trip [of code family netmask scope addr draft] EDNS0_SUBNET by auto
  then show ?thesis using EDNS0_SUBNET by (simp add: option_bytes_def unpack_option_def)
next
  case (EDNS0_NSID code s)
  assume "valid_option el"
  then show ?thesis using hex.canonicalD [of s] EDNS0_NSID by (simp add: option_bytes_def unpack_option_def)
next
  case (EDNS0_COOKIE code s)
  assume "valid_option el"
  then show ?thesis using hex.canonicalD [of s] EDNS0_COOKIE by (simp add: option_bytes_def unpack_option_def)
qed (auto simp: option_bytes_def unpack_option_def LLQ_pack_def LLQ_unpack_def UL_unpack_def be_word_all
       drop_append take_append)

lemma unpack_option_safe: "safe (unpack_option code data)"
  by (simp add: unpack_option_def SUBNET_unpack_def UL_unpack_def LLQ_unpack_def Let_def)

section \<open>The list of options as a field\<close>

definition wire_options :: "EDNS0 list \<Rightarrow> byte list" where
  "wire_options els = concat (map wire_option els)"

lemma packDataOpt_emit:
  "list_all valid_option els \<Longrightarrow> fits (wire_options els) b \<Longrightarrow> packDataOpt els b = Ok (emit (wire_options els) b)"
proof (induction els arbitrary: b)
  case Nil
  then show ?case by (simp add: wire_options_def fits_def)
next
  case (Cons el els)
  let ?d = "option_bytes el"
  let ?h = "be_bytes 2 (edns_Option el) @ be_bytes 2 (of_nat (length ?d) :: uint16)"
  have p: "edns_pack el = Ok ?d" using option_round_trip [of el] Cons.prems(1) by simp
  have le: "poff b + 4 + length ?d + length (wire_options els) \<le> length (pmsg b)"
    using Cons.prems(2) by (simp add: fits_def wire_options_def wire_option_def)
  have "emit ?d (emit ?h b) = emit (wire_option el) b"
    using emit_emit [of b ?h ?d] le by (simp add: wire_option_def)
  moreover have "packDataOpt els (emit (wire_option el) b) = Ok (emit (wire_options els) (emit (wire_option el) b))"
    using Cons le by (intro Cons.IH) (simp_all add: fits_def wire_option_def)
  moreover have "emit (wire_options els) (emit (wire_option el) b) = emit (wire_options (el # els)) b"
    using emit_emit [of b "wire_option el" "wire_options els"] le by (simp add: wire_options_def wire_option_def)
  ultimately show ?case using p le by (simp add: Let_def)
qed

lemma unpack_opt_step:
  assumes "be_word (take 2 (drop off msg)) = code"
    "unat (be_word (take 2 (drop (off + 2) msg)) :: uint16) = n" "off + 4 + n \<le> length msg"
  shows "unpack_opt_loop msg off es =
    obind (unpack_option code (take n (drop (off + 4) msg))) (\<lambda>e.
      if off + 4 + n < length msg then unpack_opt_loop msg (off + 4 + n) (es @ [e])
      else Ok (es @ [e], off + 4 + n))"
proof -
  have "\<not> off + 4 > length msg" "\<not> off + 4 + n > length msg" using assms(3) by simp_all
  note n = this [THEN if_not_P]
  show ?thesis unfolding unpack_opt_loop.simps [of msg off es] Let_def assms(1,2) n ..
qed

lemma unpack_opt_reads:
  "list_all valid_option els \<Longrightarrow> els \<noteq> [] \<Longrightarrow> bytes_at msg off (wire_options els) \<Longrightarrow>
   length msg = off + length (wire_options els) \<Longrightarrow> unpack_opt_loop msg off es = Ok (es @ els, length msg)"
proof (induction els arbitrary: off es)
  case (Cons el els)
  let ?d = "option_bytes el"
  have el: "valid_option el" and els: "list_all valid_option els" using Cons.prems(1) by simp_all
  have rt: "length ?d < 65536" "unpack_option (edns_Option el) ?d = Ok el"
    using option_round_trip [OF el] by simp_all
  have at: "bytes_at msg off (be_bytes 2 (edns_Option el))"
    "bytes_at msg (off + 2) (be_bytes 2 (of_nat (length ?d) :: uint16))"
    "bytes_at msg (off + 4) ?d" "bytes_at msg (off + 4 + length ?d) (wire_options els)"
    using Cons.prems(3)
    by (simp_all add: wire_options_def wire_option_def bytes_at_append eval_nat_numeral add_ac)
  have code: "be_word (take 2 (drop off msg)) = edns_Option el"
    using at(1) by (simp add: bytes_at_def be_word_all)
  have "be_word (take 2 (drop (off + 2) msg)) = (of_nat (length ?d) :: uint16)"
    using at(2) by (simp add: bytes_at_def be_word_all)
  then have len: "unat (be_word (take 2 (drop (off + 2) msg)) :: uint16) = length ?d"
    using rt(1) by (simp add: unsigned_of_nat take_bit_nat_eq_self)
  have total: "length msg = off + 4 + length ?d + length (wire_options els)"
    using Cons.prems(4) by (simp add: wire_options_def wire_option_def)
  have data: "take (length ?d) (drop (off + 4) msg) = ?d" using at(3) by (simp add: bytes_at_def)
  show ?case
  proof (cases "els = []")
    case True
    then show ?thesis using total unpack_opt_step [OF code len, of es] by (simp add: data rt wire_options_def)
  next
    case False
    then have "0 < length (wire_options els)"
      by (cases els) (simp_all add: wire_options_def wire_option_def)
    moreover have "unpack_opt_loop msg (off + 4 + length ?d) (es @ [el]) = Ok ((es @ [el]) @ els, length msg)"
      using els False at(4) total by (intro Cons.IH) simp_all
    ultimately show ?thesis using total unpack_opt_step [OF code len, of es] by (simp add: data rt)
  qed
qed simp

lemma unpack_opt_inside: "inside msg off (unpack_opt_loop msg off es)"
proof (induction msg off es rule: unpack_opt_loop.induct)
  case (1 msg off es)
  let ?code = "be_word (take 2 (drop off msg)) :: uint16"
  let ?len = "unat (be_word (take 2 (drop (off + 2) msg)) :: uint16)"
  show ?case
  proof (cases "off + 4 + ?len > length msg")
    case True
    then show ?thesis by (subst unpack_opt_loop.simps) (simp add: Let_def)
  next
    case False
    note step = unpack_opt_step [OF refl refl, of off msg es, unfolded not_less [symmetric], OF False]
    show ?thesis
    proof (cases "unpack_option ?code (take ?len (drop (off + 4) msg))")
      case (Ok e)
      show ?thesis
      proof (cases "off + 4 + ?len < length msg")
        case True
        have "inside msg (off + 4 + ?len) (unpack_opt_loop msg (off + 4 + ?len) (es @ [e]))"
          using False by (intro 1 [OF _ refl refl False Ok True]) linarith
        then have "inside msg off (unpack_opt_loop msg (off + 4 + ?len) (es @ [e]))"
          by (cases "unpack_opt_loop msg (off + 4 + ?len) (es @ [e])") simp_all
        then show ?thesis unfolding step Ok obind.simps if_P [OF True] .
      next
        case edge: False
        show ?thesis unfolding step Ok obind.simps if_not_P [OF edge] using False by simp
      qed
    next
      case (Err e)
      show ?thesis unfolding step Err by simp
    next
      case (Panic p)
      then show ?thesis using unpack_option_safe [of ?code "take ?len (drop (off + 4) msg)"] by (simp only: safe_simps)
    next
      case Loops
      then show ?thesis using unpack_option_safe [of ?code "take ?len (drop (off + 4) msg)"] by (simp only: safe_simps)
    qed
  qed
qed

interpretation opts: tail_format packDataOpt unpackDataOpt wire_options
  "\<lambda>els. els \<noteq> [] \<and> list_all valid_option els"
proof
  fix els :: "EDNS0 list" assume "els \<noteq> [] \<and> list_all valid_option els"
  then show "reads_tail unpackDataOpt els (wire_options els)"
    using unpack_opt_reads [of els _ _ "[]"] unfolding reads_tail_def unpackDataOpt_def append_Nil by blast
qed (simp_all add: writes_fresh_def packDataOpt_emit stays_def unpackDataOpt_def unpack_opt_inside)

section \<open>Properties\<close>

text \<open>C39: A non-empty list of valid EDNS0 options that is packed into a buffer with room for it is
  unpacked again as the same list when it ends the record.\<close>

theorem edns_options_round_trip:
  assumes "els \<noteq> []" "list_all valid_option els" "fits (wire_options els) b"
  shows "\<exists>b'. packDataOpt els b = Ok b' \<and>
    unpackDataOpt (take (poff b') (pmsg b')) (poff b) = Ok (els, poff b')"
proof -
  let ?w = "wire_options els" and ?b = "emit (wire_options els) b"
  let ?m = "take (poff ?b) (pmsg ?b)"
  have le: "poff b + length ?w \<le> length (pmsg b)" using assms(3) by (simp add: fits_def)
  have "bytes_at ?m (poff b) ?w"
    using bytes_at_put [OF le] le by (simp add: bytes_at_def emit_def drop_take)
  moreover have "length ?m = poff b + length ?w" using le by simp
  ultimately have "unpackDataOpt ?m (poff b) = Ok (els, length ?m)"
    using opts.read_tail assms(1,2) by blast
  then show ?thesis using packDataOpt_emit [OF assms(2,3)] le by simp
qed

theorem edns_options_round_trip_witness:
  "\<exists>b'. packDataOpt [EDNS0_SUBNET 0 1 20 0 (IPv4 10 1 0x20 0) False, EDNS0_LOCAL 65001 [1, 2]]
        \<lparr>pmsg = replicate 17 0, poff = 0, pcomp = None\<rparr> = Ok b' \<and>
    unpackDataOpt (take (poff b') (pmsg b')) (poff \<lparr>pmsg = replicate 17 0, poff = 0, pcomp = None\<rparr>) =
      Ok ([EDNS0_SUBNET 0 1 20 0 (IPv4 10 1 0x20 0) False, EDNS0_LOCAL 65001 [1, 2]], poff b')"
proof (rule edns_options_round_trip)
  show "list_all valid_option [EDNS0_SUBNET 0 1 20 0 (IPv4 10 1 0x20 0) False, EDNS0_LOCAL 65001 [1, 2]]"
    by code_simp
  show "fits (wire_options [EDNS0_SUBNET 0 1 20 0 (IPv4 10 1 0x20 0) False, EDNS0_LOCAL 65001 [1, 2]])
      \<lparr>pmsg = replicate 17 0, poff = 0, pcomp = None\<rparr>"
    by code_simp
qed simp

text \<open>C40: The fields of the OPT header: the version, the UDP size and the DO bit are read back as
  they were set, and leave each other alone; an extended response code is read back only when the
  byte given to \<open>SetExtendedRcode\<close> is at least 16, smaller bytes are ignored.\<close>

theorem opt_header_fields:
  "OPT_Version (OPT_SetVersion v h) = v \<and> OPT_UDPSize (OPT_SetUDPSize n h) = n \<and>
   OPT_Do (OPT_SetDo [d] h) = d \<and> OPT_Do (OPT_SetDo [] h) \<and>
   OPT_Do (OPT_SetVersion v h) = OPT_Do h \<and> OPT_Version (OPT_SetDo ds h) = OPT_Version h \<and>
   OPT_ExtendedRcode (OPT_SetVersion v h) = OPT_ExtendedRcode h \<and>
   (if 16 \<le> v then OPT_ExtendedRcode (OPT_SetExtendedRcode v h) = uint v
    else OPT_SetExtendedRcode v h = h)"
proof -
  have c: "(0x00FF0000 :: uint32) = push_bit 16 (mask 8)" "(0xFF00FFFF :: uint32) = NOT (push_bit 16 (mask 8))"
    "(0xFF000000 :: uint32) = push_bit 24 (mask 8)" "(0x00FFFFFF :: uint32) = mask 24"
    "(0x8000 :: uint32) = push_bit 15 1"
    by code_simp+
  have do_bit: "t AND push_bit 15 1 = push_bit 15 (1 :: uint32) \<longleftrightarrow> bit t 15" for t
  proof
    assume "t AND push_bit 15 1 = push_bit 15 (1 :: uint32)"
    then have "bit (t AND push_bit 15 1) 15 = bit (push_bit 15 (1 :: uint32)) 15" by simp
    then show "bit t 15" by (simp add: bit_simps)
  next
    assume "bit t 15"
    then show "t AND push_bit 15 1 = push_bit 15 (1 :: uint32)"
      by (intro bit_word_eqI, unfold bit_and_iff bit_push_bit_iff bit_1_iff) auto
  qed
  have 1: "OPT_Version (OPT_SetVersion v h) = v"
    unfolding OPT_Version_def OPT_SetVersion_def c by (rule bit_word_eqI) (auto simp: bit_simps)
  have 2: "OPT_UDPSize (OPT_SetUDPSize n h) = n"
    by (simp add: OPT_UDPSize_def OPT_SetUDPSize_def)
  have 3: "OPT_Do (OPT_SetDo [d] h) = d" "OPT_Do (OPT_SetDo [] h)"
    unfolding OPT_Do_def OPT_SetDo_def c do_bit by (auto simp: bit_simps)
  have 4: "OPT_Do (OPT_SetVersion v h) = OPT_Do h"
    unfolding OPT_Do_def OPT_SetVersion_def c do_bit by (auto simp: bit_simps)
  have 5: "OPT_Version (OPT_SetDo ds h) = OPT_Version h"
  proof -
    define D where "D = (0x8000 :: uint32)"
    have "bit D n \<longleftrightarrow> n = 15" for n unfolding D_def c bit_push_bit_iff bit_1_iff by auto
    then show ?thesis
      unfolding OPT_Version_def OPT_SetDo_def c(1) D_def [symmetric]
      by (intro bit_word_eqI) (auto simp: bit_simps)
  qed
  have "drop_bit 24 (((Ttl h AND NOT (push_bit 16 (mask 8))) OR push_bit 16 (ucast v)) AND push_bit 24 (mask 8)) =
      drop_bit 24 (Ttl h AND push_bit 24 (mask 8))"
    by (rule bit_word_eqI) (auto simp: bit_simps dest: bit_imp_le_length)
  then have 6: "OPT_ExtendedRcode (OPT_SetVersion v h) = OPT_ExtendedRcode h"
    unfolding OPT_ExtendedRcode_def OPT_SetVersion_def c by simp
  have 7: "OPT_ExtendedRcode (OPT_SetExtendedRcode v h) = uint v" if "16 \<le> v"
  proof -
    have "drop_bit 24 (((Ttl h AND mask 24) OR push_bit 24 (ucast (v - 15) :: uint32)) AND push_bit 24 (mask 8)) =
        ucast (v - 15)"
      by (rule bit_word_eqI) (auto simp: bit_simps dest: bit_imp_le_length)
    moreover have "uint (ucast (v - 15) :: uint32) = uint (v - 15)"
      by (rule uint_up_ucast) (simp add: is_up)
    then have "uint (ucast (v - 15) :: uint32) = uint v - 15"
      using that uint_sub_lem [of 15 v] by (simp add: word_le_def)
    moreover have "\<not> uint v < 16" using that by (simp add: word_le_def)
    ultimately show ?thesis
      unfolding OPT_ExtendedRcode_def OPT_SetExtendedRcode_def c by (simp only: if_False RR_Header.simps) simp
  qed
  have 8: "OPT_SetExtendedRcode v h = h" if "\<not> 16 \<le> v"
    using that by (simp add: OPT_SetExtendedRcode_def word_le_def)
  show ?thesis using 1 2 3 4 5 6 7 8 by simp
qed

text \<open>C32: \<open>packDataOpt\<close> panics if and only if the options before some option of the list leave exactly
  three bytes of the buffer: the check lets three bytes pass and four are written.\<close>

theorem packDataOpt_panics:
  assumes "list_all (\<lambda>el. edns_pack el = Ok (option_bytes el)) els" "poff b \<le> length (pmsg b)"
  shows "is_panic (packDataOpt els b) \<longleftrightarrow>
    (\<exists>k < length els. poff b + length (wire_options (take k els)) + 3 = length (pmsg b))"
  using assms
proof (induction els arbitrary: b)
  case (Cons el els)
  let ?d = "option_bytes el" and ?n = "length (pmsg b)"
  have p: "edns_pack el = Ok ?d" using Cons.prems(1) by simp
  have wire: "length (wire_options (take k (el # els))) =
      (if k = 0 then 0 else 4 + length ?d + length (wire_options (take (k - 1) els)))" for k
    by (cases k) (simp_all add: wire_options_def wire_option_def)
  have ex: "(\<exists>k < length (el # els). poff b + length (wire_options (take k (el # els))) + 3 = ?n) \<longleftrightarrow>
      poff b + 3 = ?n \<or> (\<exists>k < length els. poff b + 4 + length ?d + length (wire_options (take k els)) + 3 = ?n)"
    unfolding wire by (auto simp: less_Suc_eq_0_disj)
  let ?b = "emit (be_bytes 2 (edns_Option el) @ be_bytes 2 (of_nat (length ?d) :: uint16)) b"
  consider "poff b + 3 \<ge> ?n" | (cut) "poff b + 4 \<le> ?n" "poff b + 4 + length ?d > ?n"
    | (room) "poff b + 4 + length ?d \<le> ?n" by linarith
  then show ?case
  proof cases
    case 1
    then show ?thesis unfolding ex using p by auto
  next
    case cut
    let ?c = "?b\<lparr>pmsg := put (take (length (pmsg ?b) - poff ?b) ?d) (poff ?b) (pmsg ?b), poff := length (pmsg ?b)\<rparr>"
    have "packDataOpt (el # els) b = packDataOpt els ?c"
      using p cut by (simp add: Let_def)
    moreover have "poff ?c = ?n" "length (pmsg ?c) = ?n" using cut by simp_all
    then have "\<not> is_panic (packDataOpt els ?c)"
      using Cons.prems(1) by (cases els) simp_all
    ultimately show ?thesis unfolding ex using cut by auto
  next
    case room
    have "packDataOpt (el # els) b = packDataOpt els (emit ?d ?b)"
      using p room by (simp add: Let_def)
    moreover have "poff (emit ?d ?b) = poff b + 4 + length ?d" "length (pmsg (emit ?d ?b)) = ?n"
      using room by simp_all
    ultimately show ?thesis unfolding ex using Cons.IH [of "emit ?d ?b"] Cons.prems(1) room by simp
  qed
qed simp

theorem packDataOpt_panics_witness:
  "is_panic (packDataOpt [EDNS0_UL 0 7, EDNS0_LOCAL 65001 []] \<lparr>pmsg = replicate 11 0, poff = 0, pcomp = None\<rparr>)"
proof -
  let ?els = "[EDNS0_UL 0 7, EDNS0_LOCAL 65001 []]" and ?b = "\<lparr>pmsg = replicate 11 0, poff = 0, pcomp = None\<rparr>"
  have "list_all (\<lambda>el. edns_pack el = Ok (option_bytes el)) ?els" by (simp add: option_bytes_def)
  moreover have "poff ?b \<le> length (pmsg ?b)" by simp
  moreover have "1 < length ?els \<and> poff ?b + length (wire_options (take 1 ?els)) + 3 = length (pmsg ?b)"
    by code_simp
  ultimately show ?thesis using packDataOpt_panics [of ?els ?b] by blast
qed

end
