(* ===== verification/Wire_Nsec.thy ===== *)
theory Wire_Nsec
  imports Wire_Text
begin

text \<open>
  The type bitmaps of NSEC and NSEC3 records: \<open>packDataNsec\<close> and \<open>unpackDataNsec\<close>
  (\<open>msg_helpers.go\<close>).

  The wire format (RFC 4034, 4.1.2) is a block per window of 256 types: the window, the number of
  bytes of the bitmap, and the bitmap, most significant bit first; it is specified by \<open>wire_nsec\<close>.
  The packer sets bits in the buffer as it finds it, so that the contract is about fresh buffers.
\<close>

section \<open>The code\<close>

text \<open>The body of the loop: \<open>off\<close> is the offset of the current block.\<close>

record nsec_state =
  nsec_off :: nat
  nsec_lastwindow :: nat
  nsec_lastlength :: nat
  nsec_msg :: "byte list"

definition pack_nsec_type :: "uint16 \<Rightarrow> nsec_state \<Rightarrow> nsec_state outcome" where
  "pack_nsec_type t st =
     (let window = unat t div 256;
          len = (unat t - window * 256) div 8 + 1;
          next = (window > nsec_lastwindow st \<and> nsec_lastlength st \<noteq> 0);
          off = (if next then nsec_off st + nsec_lastlength st + 2 else nsec_off st);
          lastlen = (if next then 0 else nsec_lastlength st);
          msg = nsec_msg st
      in if window < nsec_lastwindow st \<or> len < lastlen then Err (Error ''nsec bits out of order'')
         else if off + 2 + len > length msg then Err (overflow ''packing nsec'')
         else
           (let msg = msg[off := of_nat window, off + 1 := of_nat len];
                msg = msg[off + 1 + len := msg ! (off + 1 + len) OR push_bit (7 - unat t mod 8) 1]
            in Ok \<lparr>nsec_off = off, nsec_lastwindow = window, nsec_lastlength = len, nsec_msg = msg\<rparr>))"

primrec pack_nsec_loop :: "uint16 list \<Rightarrow> nsec_state \<Rightarrow> (nat \<times> byte list) outcome" where
  "pack_nsec_loop [] st = Ok (nsec_off st + nsec_lastlength st + 2, nsec_msg st)"
| "pack_nsec_loop (t # ts) st = obind (pack_nsec_type t st) (pack_nsec_loop ts)"

definition packDataNsec :: "uint16 list \<Rightarrow> pbuf \<Rightarrow> pbuf outcome" where
  "packDataNsec bitmap b =
     (if length bitmap = 0 then Ok b
      else
        obind (pack_nsec_loop bitmap \<lparr>nsec_off = poff b, nsec_lastwindow = 0, nsec_lastlength = 0, nsec_msg = pmsg b\<rparr>)
          (\<lambda>(off, msg). Ok (b\<lparr>pmsg := msg, poff := off\<rparr>)))"

text \<open>\<open>uint16(window*256+j*8+i)\<close>\<close>

definition type_at :: "nat \<Rightarrow> nat \<Rightarrow> nat \<Rightarrow> uint16" where
  "type_at window j i = of_nat (window * 256 + j * 8 + i)"

text \<open>The types of a byte of the bitmap: the bits are tested one by one.\<close>

definition byte_types :: "nat \<Rightarrow> nat \<Rightarrow> byte \<Rightarrow> uint16 list" where
  "byte_types window j b =
     map (type_at window j)
       (filter (\<lambda>i. b AND push_bit (7 - i) 1 = push_bit (7 - i) 1) [0 ..< 8])"

function unpack_nsec_loop :: "byte list \<Rightarrow> nat \<Rightarrow> int \<Rightarrow> uint16 list \<Rightarrow> (uint16 list \<times> nat) outcome" where
  "unpack_nsec_loop msg off lastwindow nsec =
     (if off < length msg then
        (if off + 2 > length msg then Err (overflow ''unpacking nsecx'')
         else
           (let window = unat (msg ! off); len = unat (msg ! (off + 1)); off = off + 2
            in if int window \<le> lastwindow then Err (Error ''out of order NSEC block'')
               else if len = 0 then Err (Error ''empty NSEC block'')
               else if len > 32 then Err (Error ''NSEC block too long'')
               else if off + len > length msg then Err (Error ''overflowing NSEC block'')
               else
                 unpack_nsec_loop msg (off + len) (int window)
                   (nsec @ concat (map (\<lambda>j. byte_types window j (msg ! (off + j))) [0 ..< len]))))
      else Ok (nsec, off))"
  by pat_completeness auto
termination
  by (relation "measure (\<lambda>(msg, off, lastwindow, nsec). length msg - off)") auto

declare unpack_nsec_loop.simps [simp del]

definition unpackDataNsec :: "byte list \<Rightarrow> nat \<Rightarrow> (uint16 list \<times> nat) outcome" where
  "unpackDataNsec msg off = unpack_nsec_loop msg off (- 1) []"

section \<open>The wire format\<close>

definition window_of :: "uint16 \<Rightarrow> nat" where
  "window_of t = unat t div 256"

definition octet_of :: "uint16 \<Rightarrow> nat" where
  "octet_of t = unat t mod 256 div 8"

text \<open>A byte of the bitmap of some types of one window.\<close>

definition bitmap_byte :: "uint16 list \<Rightarrow> nat \<Rightarrow> byte" where
  "bitmap_byte ts j = foldr (\<lambda>t b. push_bit (7 - unat t mod 8) 1 OR b) (filter (\<lambda>t. octet_of t = j) ts) 0"

definition block :: "uint16 list \<Rightarrow> byte list" where
  "block ts =
     (let n = octet_of (last ts) + 1
      in of_nat (window_of (hd ts)) # of_nat n # map (bitmap_byte ts) [0 ..< n])"

function wire_nsec :: "uint16 list \<Rightarrow> byte list" where
  "wire_nsec ts =
     (if ts = [] then []
      else block (takeWhile (\<lambda>t. window_of t = window_of (hd ts)) ts) @
           wire_nsec (dropWhile (\<lambda>t. window_of t = window_of (hd ts)) ts))"
  by pat_completeness auto
termination
  by (relation "measure length") (auto simp: neq_Nil_conv length_dropWhile_le le_imp_less_Suc)

declare wire_nsec.simps [simp del]

definition valid_bitmap :: "uint16 list \<Rightarrow> bool" where
  "valid_bitmap ts \<longleftrightarrow> sorted_wrt (<) ts"

lemma window_less: "window_of t < 256"
proof -
  have "unat t < 65536" using unsigned_less [of t] by simp
  then show ?thesis by (simp add: window_of_def)
qed

lemma octet_less: "octet_of t < 32"
  by (simp add: octet_of_def)

lemma type_parts: "unat t = window_of t * 256 + octet_of t * 8 + unat t mod 8"
proof -
  have "unat t mod 256 mod 8 = unat t mod 8" by (simp add: mod_mod_cancel)
  then have "unat t mod 256 div 8 * 8 + unat t mod 8 = unat t mod 256" by (metis div_mult_mod_eq)
  then show ?thesis using div_mult_mod_eq [of "unat t" 256]
    unfolding window_of_def octet_of_def by linarith
qed

lemma bit_one_at: "bit (push_bit k (1 :: byte)) n \<longleftrightarrow> k = n \<and> n < 8"
  unfolding bit_push_bit_iff bit_1_iff by auto

lemma bit_bitmap_byte:
  "bit (bitmap_byte ts j) n \<longleftrightarrow> n < 8 \<and> (\<exists>t \<in> set ts. octet_of t = j \<and> 7 - unat t mod 8 = n)"
proof (induction ts)
  case Nil
  then show ?case by (simp add: bitmap_byte_def)
next
  case (Cons t ts)
  show ?case
  proof (cases "octet_of t = j")
    case True
    then have "bitmap_byte (t # ts) j = push_bit (7 - unat t mod 8) 1 OR bitmap_byte ts j"
      by (simp add: bitmap_byte_def)
    then show ?thesis using Cons True unfolding \<open>bitmap_byte (t # ts) j = _\<close> bit_or_iff bit_one_at by auto
  next
    case False
    then have "bitmap_byte (t # ts) j = bitmap_byte ts j" by (simp add: bitmap_byte_def)
    then show ?thesis using Cons False by auto
  qed
qed

section \<open>Reading a block\<close>

lemma byte_types_eq:
  "byte_types w j (bitmap_byte ts j) =
     map (type_at w j)
       (filter (\<lambda>i. \<exists>t \<in> set ts. octet_of t = j \<and> unat t mod 8 = i) [0 ..< 8])"
proof -
  have tst: "b AND push_bit k 1 = push_bit k 1 \<longleftrightarrow> bit b k" if "k < 8" for b :: byte and k
  proof
    assume "b AND push_bit k 1 = push_bit k 1"
    then have "bit (b AND push_bit k 1) k = bit (push_bit k 1 :: byte) k" by simp
    then show "bit b k" using that unfolding bit_and_iff bit_one_at by simp
  next
    assume "bit b k"
    then show "b AND push_bit k 1 = push_bit k 1"
      by (intro bit_word_eqI, unfold bit_and_iff bit_one_at) auto
  qed
  have "bitmap_byte ts j AND push_bit (7 - i) 1 = push_bit (7 - i) 1 \<longleftrightarrow>
      (\<exists>t \<in> set ts. octet_of t = j \<and> unat t mod 8 = i)" if "i < 8" for i
  proof -
    have e: "7 - unat t mod 8 = 7 - i \<longleftrightarrow> unat t mod 8 = i" for t :: uint16
      using that mod_less_divisor [of 8 "unat t"] by linarith
    have "7 - i < 8" by simp
    then show ?thesis unfolding tst [OF \<open>7 - i < 8\<close>] bit_bitmap_byte e by blast
  qed
  then show ?thesis unfolding byte_types_def by (intro arg_cong [of _ _ "map _"] filter_cong) auto
qed

lemma unat16: "n < 65536 \<Longrightarrow> unat (of_nat n :: uint16) = n"
  by (simp add: unsigned_of_nat take_bit_nat_eq_self)

text \<open>The types of a window in their order are found again in the bytes of their bitmap.\<close>

lemma block_types:
  assumes ts: "sorted_wrt (<) ts" and w: "\<forall>t \<in> set ts. window_of t = w" and n: "\<forall>t \<in> set ts. octet_of t < n"
    and n32: "n \<le> 32" and w256: "w < 256"
  shows "concat (map (\<lambda>j. byte_types w j (bitmap_byte ts j)) [0 ..< n]) = ts"
proof (rule sorted_distinct_set_unique)
  let ?f = "\<lambda>j. byte_types w j (bitmap_byte ts j)"
  have unat: "unat (type_at w j i) = w * 256 + j * 8 + i" if "j < n" "i < 8" for i j
  proof -
    have "w * 256 + j * 8 + i < 65536" using that n32 w256 by linarith
    then show ?thesis unfolding type_at_def by (rule unat16)
  qed
  have mem: "t \<in> set (?f j) \<longleftrightarrow> t \<in> set ts \<and> octet_of t = j" if "j < n" for t j
  proof -
    have same: "type_at w j (unat t' mod 8) = t'" if "t' \<in> set ts" "octet_of t' = j" for t'
      using type_parts [of t'] w that by (simp add: type_at_def)
    show ?thesis unfolding byte_types_eq
    proof
      assume "t \<in> set (map (type_at w j) (filter (\<lambda>i. \<exists>t \<in> set ts. octet_of t = j \<and> unat t mod 8 = i) [0 ..< 8]))"
      then obtain t' where "t' \<in> set ts" "octet_of t' = j" "t = type_at w j (unat t' mod 8)" by auto
      then show "t \<in> set ts \<and> octet_of t = j" using same by simp
    next
      assume t: "t \<in> set ts \<and> octet_of t = j"
      then have "type_at w j (unat t mod 8) \<in>
          set (map (type_at w j) (filter (\<lambda>i. \<exists>t \<in> set ts. octet_of t = j \<and> unat t mod 8 = i) [0 ..< 8]))"
        by (intro image_set [THEN equalityD1, THEN subsetD] imageI) auto
      then show "t \<in> set (map (type_at w j)
          (filter (\<lambda>i. \<exists>t \<in> set ts. octet_of t = j \<and> unat t mod 8 = i) [0 ..< 8]))"
        using same t by simp
    qed
  qed
  show "set (concat (map ?f [0 ..< n])) = set ts" using mem n by auto
  show "sorted ts" "distinct ts"
    using ts by (simp_all add: strict_sorted_iff)
  have "sorted_wrt (<) (concat (map ?f [0 ..< m]))" if "m \<le> n" for m
    using that
  proof (induction m)
    case (Suc m)
    have s: "sorted_wrt (<) (?f m)"
      unfolding byte_types_eq sorted_wrt_map
      by (rule sorted_wrt_mono_rel [OF _ sorted_wrt_filter [OF sorted_wrt_upt]])
        (use Suc.prems unat in \<open>auto simp: word_less_nat_alt\<close>)
    have "a < b" if a: "a \<in> set (concat (map ?f [0 ..< m]))" and b: "b \<in> set (?f m)" for a b
    proof -
      obtain j where "j < m" "a \<in> set (?f j)" using a by auto
      then have j: "j < m" "a \<in> set ts" "octet_of a = j" using mem [of j a] Suc.prems by simp_all
      have "b \<in> set ts" "octet_of b = m" using b mem [of m b] Suc.prems by simp_all
      then show "a < b"
        using j w type_parts [of a] type_parts [of b] mod_less_divisor [of 8 "unat a"]
        by (simp add: word_less_nat_alt)
    qed
    then show ?case using Suc s by (simp add: sorted_wrt_append)
  qed simp
  then show "sorted (concat (map ?f [0 ..< n]))" "distinct (concat (map ?f [0 ..< n]))"
    by (simp_all add: strict_sorted_iff)
qed

section \<open>The first block of a bitmap\<close>

lemma first_block:
  assumes v: "valid_bitmap ts" and ne: "ts \<noteq> []"
  obtains g r where "ts = g @ r" "g \<noteq> []" "wire_nsec ts = block g @ wire_nsec r" "valid_bitmap g" "valid_bitmap r"
    "\<forall>t \<in> set g. window_of t = window_of (hd g)" "\<forall>t \<in> set r. window_of (hd g) < window_of t"
    "\<forall>t \<in> set g. octet_of t \<le> octet_of (last g)" "length r < length ts"
proof -
  let ?P = "\<lambda>t. window_of t = window_of (hd ts)"
  define g r where "g = takeWhile ?P ts" and "r = dropWhile ?P ts"
  have ts: "ts = g @ r" by (simp add: g_def r_def)
  have g: "g \<noteq> []" "hd g = hd ts" using ne by (cases ts; simp add: g_def)+
  have s: "sorted_wrt (<) g" "sorted_wrt (<) r" "\<forall>a \<in> set g. \<forall>b \<in> set r. a < b"
    using v unfolding valid_bitmap_def ts sorted_wrt_append by auto
  have w: "\<forall>t \<in> set g. window_of t = window_of (hd g)"
    using g by (auto simp: g_def dest: set_takeWhileD)
  have mono: "window_of a \<le> window_of b" if "a \<le> b" for a b
    using that by (simp add: window_of_def word_le_nat_alt div_le_mono)
  have "\<forall>t \<in> set r. window_of (hd g) < window_of t"
  proof (cases "r = []")
    case False
    then have "window_of (hd r) \<noteq> window_of (hd g)" "hd r \<in> set r"
      using hd_dropWhile [of ?P ts] g by (auto simp: r_def)
    moreover have "window_of (hd g) \<le> window_of (hd r)"
      using s(3) g(1) calculation(2) by (intro mono) (auto simp: less_imp_le)
    ultimately have "window_of (hd g) < window_of (hd r)" by simp
    moreover have "window_of (hd r) \<le> window_of t" if "t \<in> set r" for t
      using that s(2) False by (intro mono) (cases r; auto simp: less_imp_le)
    ultimately show ?thesis using less_le_trans by blast
  qed simp
  note r = this
  have o: "\<forall>t \<in> set g. octet_of t \<le> octet_of (last g)"
  proof
    fix t assume t: "t \<in> set g"
    have "sorted g" using s(1) by (simp add: strict_sorted_iff)
    then have "sorted (butlast g @ [last g])" "t \<in> set (butlast g @ [last g])" using g(1) t by simp_all
    then have "t \<le> last g" unfolding sorted_append by auto
    moreover have "window_of t = window_of (last g)" using w t g(1) by (metis last_in_set)
    ultimately show "octet_of t \<le> octet_of (last g)"
      using type_parts [of t] type_parts [of "last g"] mod_less_divisor [of 8 "unat (last g)"]
      by (simp add: word_le_nat_alt)
  qed
  have b: "wire_nsec ts = block g @ wire_nsec r"
    using ne by (subst wire_nsec.simps) (simp add: g_def r_def)
  have l: "length r < length ts" using g(1) by (simp add: ts)
  show thesis
    by (rule that [OF ts g(1) b _ _ w r o l]) (use s in \<open>simp_all add: valid_bitmap_def\<close>)
qed

section \<open>Unpacking\<close>

lemma length_block: "length (block g) = octet_of (last g) + 3"
  by (simp add: block_def Let_def)

lemma nsec_reads:
  "valid_bitmap ts \<Longrightarrow> \<forall>t \<in> set ts. lw < int (window_of t) \<Longrightarrow> bytes_at msg off (wire_nsec ts) \<Longrightarrow>
   length msg = off + length (wire_nsec ts) \<Longrightarrow> unpack_nsec_loop msg off lw ns = Ok (ns @ ts, length msg)"
proof (induction "length ts" arbitrary: ts off lw ns rule: less_induct)
  case less
  show ?case
  proof (cases "ts = []")
    case True
    then show ?thesis using less.prems(4)
      by (subst unpack_nsec_loop.simps) (simp add: wire_nsec.simps [of "[]"])
  next
    case False
    obtain g r where g: "ts = g @ r" "g \<noteq> []" "wire_nsec ts = block g @ wire_nsec r" "valid_bitmap g" "valid_bitmap r"
      "\<forall>t \<in> set g. window_of t = window_of (hd g)" "\<forall>t \<in> set r. window_of (hd g) < window_of t"
      "\<forall>t \<in> set g. octet_of t \<le> octet_of (last g)" "length r < length ts"
      using first_block [OF less.prems(1) False] .
    define n where "n = octet_of (last g) + 1"
    let ?w = "window_of (hd g)" and ?n = n
    let ?bs = "map (bitmap_byte g) [0 ..< ?n]"
    have n: "?n \<le> 32" using octet_less [of "last g"] by (simp add: n_def)
    have w: "?w < 256" by (rule window_less)
    have at: "off < length msg" "msg ! off = of_nat ?w" "off + 1 < length msg" "msg ! (off + 1) = of_nat ?n"
      "bytes_at msg (off + 2) ?bs" "bytes_at msg (off + 2 + ?n) (wire_nsec r)"
      using less.prems(3) unfolding g(3) bytes_at_append length_block
      by (auto simp: block_def Let_def bytes_at_Cons n_def add_ac eval_nat_numeral)
    have u: "unat (msg ! off) = ?w" "unat (msg ! (off + 1)) = ?n" using at n w by simp_all
    have total: "length msg = off + 2 + ?n + length (wire_nsec r)"
      using less.prems(4) by (simp add: g(3) length_block n_def)
    have "?bs ! j = msg ! (off + 2 + j)" if "j < ?n" for j
      using at(5) that unfolding bytes_at_def by (metis length_map length_upt diff_zero nth_take nth_drop
          add_leE le_add1 order_trans)
    then have "concat (map (\<lambda>j. byte_types ?w j (msg ! (off + 2 + j))) [0 ..< ?n]) =
        concat (map (\<lambda>j. byte_types ?w j (bitmap_byte g j)) [0 ..< ?n])"
      by (intro arg_cong [of _ _ concat] map_cong) auto
    also have "\<dots> = g"
      by (rule block_types) (use g(4,6,8) n w in \<open>simp_all add: valid_bitmap_def less_Suc_eq_le n_def\<close>)
    finally have types: "concat (map (\<lambda>j. byte_types ?w j (msg ! (off + 2 + j))) [0 ..< ?n]) = g" .
    have "hd g \<in> set ts" using g(1,2) by simp
    then have lw: "\<not> int ?w \<le> lw" using less.prems(2) by fastforce
    have n0: "n \<noteq> 0" by (simp add: n_def)
    have "unpack_nsec_loop msg off lw ns = unpack_nsec_loop msg (off + 2 + ?n) (int ?w) (ns @ g)"
      using at(1,3) total n n0 lw unfolding unpack_nsec_loop.simps [of msg off] Let_def u types by simp
    also have "\<dots> = Ok ((ns @ g) @ r, length msg)"
      by (rule less.hyps [OF g(9,5) _ at(6)]) (use g(7) total in simp_all)
    finally show ?thesis by (simp add: g(1))
  qed
qed

lemma nsec_inside: "off \<le> length msg \<Longrightarrow> inside msg off (unpack_nsec_loop msg off lw ns)"
proof (induction msg off lw ns rule: unpack_nsec_loop.induct)
  case (1 msg off lw ns)
  show ?case
  proof (cases "off < length msg \<and> \<not> off + 2 > length msg \<and> \<not> int (unat (msg ! off)) \<le> lw \<and>
      unat (msg ! (off + 1)) \<noteq> 0 \<and> \<not> unat (msg ! (off + 1)) > 32 \<and> \<not> off + 2 + unat (msg ! (off + 1)) > length msg")
    case True
    let ?ns = "ns @ concat (map (\<lambda>j. byte_types (unat (msg ! off)) j (msg ! (off + 2 + j))) [0 ..< unat (msg ! (off + 1))])"
    have "unpack_nsec_loop msg off lw ns =
        unpack_nsec_loop msg (off + 2 + unat (msg ! (off + 1))) (int (unat (msg ! off))) ?ns"
      using True unfolding unpack_nsec_loop.simps [of msg off] Let_def by simp
    moreover have "inside msg (off + 2 + unat (msg ! (off + 1)))
        (unpack_nsec_loop msg (off + 2 + unat (msg ! (off + 1))) (int (unat (msg ! off))) ?ns)"
      using True by (intro 1(1) [OF _ _ refl refl refl]) auto
    ultimately show ?thesis
      by (cases "unpack_nsec_loop msg (off + 2 + unat (msg ! (off + 1))) (int (unat (msg ! off))) ?ns") auto
  next
    case False
    then show ?thesis using 1(2) unfolding unpack_nsec_loop.simps [of msg off] Let_def by auto
  qed
qed

section \<open>Packing\<close>

text \<open>
  The buffer \<open>m\<close> after the types \<open>p\<close> of the block at \<open>off\<close> have been packed into the buffer \<open>m0\<close>,
  which is zero from \<open>off\<close> on.
\<close>

definition nsec_inv :: "uint16 list \<Rightarrow> nat \<Rightarrow> byte list \<Rightarrow> byte list \<Rightarrow> bool" where
  "nsec_inv p off m0 m \<longleftrightarrow>
     length m = length m0 \<and> take off m = take off m0 \<and>
     (p \<noteq> [] \<longrightarrow> m ! off = of_nat (window_of (hd p)) \<and> m ! (off + 1) = of_nat (octet_of (last p) + 1)) \<and>
     (\<forall>i. off + 2 \<le> i \<longrightarrow> i < length m \<longrightarrow> m ! i = bitmap_byte p (i - off - 2))"

lemma bitmap_byte_snoc:
  "bitmap_byte (p @ [t]) j =
     (if octet_of t = j then bitmap_byte p j OR push_bit (7 - unat t mod 8) 1 else bitmap_byte p j)"
  by (rule bit_word_eqI) (auto simp only: bit_or_iff bit_one_at bit_bitmap_byte set_append split: if_splits, auto)

lemma bitmap_byte_zero: "\<forall>t \<in> set p. octet_of t < j \<Longrightarrow> bitmap_byte p j = 0"
  by (rule bit_word_eqI) (auto simp only: bit_bitmap_byte bit_0_eq)

lemma octet_code: "(unat t - window_of t * 256) div 8 = octet_of t"
  by (simp add: octet_of_def window_of_def minus_div_mult_eq_mod)

lemma pack_nsec_step:
  assumes inv: "nsec_inv p off m0 m" and w: "\<forall>x \<in> set p. window_of x = window_of t"
    and st: "off = (if nsec_lastwindow st < window_of t \<and> nsec_lastlength st \<noteq> 0
        then nsec_off st + nsec_lastlength st + 2 else nsec_off st)"
      "nsec_lastwindow st \<le> window_of t"
      "(if nsec_lastwindow st < window_of t \<and> nsec_lastlength st \<noteq> 0 then 0 else nsec_lastlength st) \<le> octet_of t + 1"
      "nsec_msg st = m"
    and fit: "off + 3 + octet_of t \<le> length m"
  shows "\<exists>m'. pack_nsec_type t st =
      Ok \<lparr>nsec_off = off, nsec_lastwindow = window_of t, nsec_lastlength = octet_of t + 1, nsec_msg = m'\<rparr> \<and>
    nsec_inv (p @ [t]) off m0 m'"
proof -
  let ?len = "octet_of t + 1"
  define m1 where "m1 = m[off := of_nat (window_of t), off + 1 := of_nat ?len]"
  define m2 where "m2 = m1[off + 1 + ?len := m1 ! (off + 1 + ?len) OR push_bit (7 - unat t mod 8) 1]"
  have "\<not> (window_of t < nsec_lastwindow st \<or>
      ?len < (if nsec_lastwindow st < window_of t \<and> nsec_lastlength st \<noteq> 0 then 0 else nsec_lastlength st))"
    "\<not> off + 2 + ?len > length m"
    using st(2,3) fit by simp_all
  note ok = this [THEN if_not_P]
  have run: "pack_nsec_type t st =
      Ok \<lparr>nsec_off = off, nsec_lastwindow = window_of t, nsec_lastlength = ?len, nsec_msg = m2\<rparr>"
    unfolding pack_nsec_type_def Let_def window_of_def [symmetric] octet_code st(1) [symmetric] st(4) ok
      m1_def m2_def ..
  have len: "length m2 = length m" by (simp add: m1_def m2_def)
  have nth: "m2 ! i = (if i = off then of_nat (window_of t) else if i = off + 1 then of_nat ?len
      else if i = off + 1 + ?len then m ! i OR push_bit (7 - unat t mod 8) 1 else m ! i)"
    if "i < length m" for i
    using that fit by (simp add: m1_def m2_def nth_list_update)
  have "nsec_inv (p @ [t]) off m0 m2"
    unfolding nsec_inv_def
  proof (intro conjI allI impI)
    show "length m2 = length m0" using inv len by (simp add: nsec_inv_def)
    have "take off m2 = take off m" by (simp add: m1_def m2_def)
    then show "take off m2 = take off m0" using inv by (simp add: nsec_inv_def)
    have "window_of (hd (p @ [t])) = window_of t" using w by (cases p) simp_all
    then show "m2 ! off = of_nat (window_of (hd (p @ [t])))" using nth [of off] fit by simp
    show "m2 ! (off + 1) = of_nat (octet_of (last (p @ [t])) + 1)" using nth [of "off + 1"] fit by simp
    fix i assume i: "off + 2 \<le> i" "i < length m2"
    then have old: "m ! i = bitmap_byte p (i - off - 2)" using inv len by (simp add: nsec_inv_def)
    show "m2 ! i = bitmap_byte (p @ [t]) (i - off - 2)"
    proof (cases "i = off + 1 + ?len")
      case True
      then have "i - off - 2 = octet_of t" by simp
      then show ?thesis using nth [of i] i len old True by (simp add: bitmap_byte_snoc)
    next
      case False
      then have "octet_of t \<noteq> i - off - 2" using i(1) by linarith
      then show ?thesis using nth [of i] i len old False by (simp add: bitmap_byte_snoc)
    qed
  qed
  with run show ?thesis by blast
qed

lemma inv_put:
  assumes inv: "nsec_inv g off m0 m" and g: "g \<noteq> []" "\<forall>t \<in> set g. octet_of t \<le> octet_of (last g)"
    and z: "\<forall>i. off \<le> i \<longrightarrow> i < length m0 \<longrightarrow> m0 ! i = 0" and fit: "off + length (block g) \<le> length m0"
  shows "m = put (block g) off m0"
proof (rule nth_equalityI)
  let ?n = "octet_of (last g) + 1"
  show "length m = length (put (block g) off m0)" using inv fit by (simp add: nsec_inv_def)
  fix i assume "i < length m"
  then have i: "i < length m0" "i < length m" using inv by (simp_all add: nsec_inv_def)
  have b: "block g = of_nat (window_of (hd g)) # of_nat ?n # map (bitmap_byte g) [0 ..< ?n]"
    by (simp add: block_def)
  have p: "put (block g) off m0 ! i =
      (if i < off then m0 ! i else if i < off + length (block g) then block g ! (i - off) else m0 ! i)"
    using i fit by (intro nth_put) simp_all
  consider "i < off" | "i = off" | "i = off + 1" | (bits) "off + 2 \<le> i" "i < off + 2 + ?n" | (rest) "off + 2 + ?n \<le> i"
    by linarith
  then show "m ! i = put (block g) off m0 ! i"
  proof cases
    case 1
    then have "take off m ! i = take off m0 ! i" using inv by (simp add: nsec_inv_def)
    then show ?thesis using 1 p by simp
  next
    case 2
    then show ?thesis using p inv g(1) by (simp add: nsec_inv_def b)
  next
    case 3
    then show ?thesis using p inv g(1) by (simp add: nsec_inv_def b)
  next
    case bits
    have "block g ! (i - off) = map (bitmap_byte g) [0 ..< ?n] ! (i - off - 2)"
      using bits by (simp add: b nth_Cons' del: upt_Suc)
    also have "\<dots> = bitmap_byte g (i - off - 2)" using bits by (simp del: upt_Suc)
    finally show ?thesis using p bits i inv by (simp add: nsec_inv_def length_block)
  next
    case rest
    have "m ! i = bitmap_byte g (i - off - 2)" using inv rest i by (simp add: nsec_inv_def)
    also have "\<dots> = 0"
    proof (rule bitmap_byte_zero, intro ballI)
      fix t assume "t \<in> set g"
      then have "octet_of t \<le> octet_of (last g)" using g(2) by blast
      then show "octet_of t < i - off - 2" using rest by linarith
    qed
    finally show ?thesis using p rest z i by (simp add: length_block)
  qed
qed

lemma valid_snocD:
  assumes "valid_bitmap (p @ t # q)" "\<forall>x \<in> set (p @ t # q). window_of x = w"
  shows "p \<noteq> [] \<longrightarrow> octet_of (last p) \<le> octet_of t" "octet_of t \<le> octet_of (last (t # q))"
proof -
  have le: "octet_of a \<le> octet_of b" if "a \<le> b" "window_of a = w" "window_of b = w" for a b
    using that type_parts [of a] type_parts [of b] mod_less_divisor [of 8 "unat b"]
    by (simp add: word_le_nat_alt)
  have s: "\<forall>x \<in> set p. x < t" "\<forall>y \<in> set q. t < y"
    using assms(1) by (simp_all add: valid_bitmap_def sorted_wrt_append)
  show "p \<noteq> [] \<longrightarrow> octet_of (last p) \<le> octet_of t"
    using s(1) assms(2) by (auto intro!: le [OF less_imp_le])
  show "octet_of t \<le> octet_of (last (t # q))"
    using s(2) assms(2) by (cases "q = []") (auto intro!: le [OF less_imp_le])
qed

lemma pack_rest_of_block:
  "nsec_inv p off m0 m \<Longrightarrow> p \<noteq> [] \<Longrightarrow> valid_bitmap (p @ q) \<Longrightarrow> \<forall>x \<in> set (p @ q). window_of x = w \<Longrightarrow>
   off + 3 + octet_of (last (p @ q)) \<le> length m \<Longrightarrow>
   \<exists>m'. pack_nsec_loop (q @ rest)
       \<lparr>nsec_off = off, nsec_lastwindow = w, nsec_lastlength = octet_of (last p) + 1, nsec_msg = m\<rparr> =
     pack_nsec_loop rest
       \<lparr>nsec_off = off, nsec_lastwindow = w, nsec_lastlength = octet_of (last (p @ q)) + 1, nsec_msg = m'\<rparr> \<and>
     nsec_inv (p @ q) off m0 m'"
proof (induction q arbitrary: p m)
  case (Cons t q)
  let ?st = "\<lparr>nsec_off = off, nsec_lastwindow = w, nsec_lastlength = octet_of (last p) + 1, nsec_msg = m\<rparr>"
  have t: "window_of t = w" "octet_of (last p) \<le> octet_of t" "octet_of t \<le> octet_of (last (t # q))"
    using Cons.prems(2,4) valid_snocD [OF Cons.prems(3,4)] by simp_all
  have "\<exists>m'. pack_nsec_type t ?st =
      Ok \<lparr>nsec_off = off, nsec_lastwindow = window_of t, nsec_lastlength = octet_of t + 1, nsec_msg = m'\<rparr> \<and>
      nsec_inv (p @ [t]) off m0 m'"
    by (rule pack_nsec_step [OF Cons.prems(1)]) (use t Cons.prems(4,5) in simp_all)
  then obtain m1 where 1: "pack_nsec_type t ?st =
      Ok \<lparr>nsec_off = off, nsec_lastwindow = w, nsec_lastlength = octet_of t + 1, nsec_msg = m1\<rparr>"
      "nsec_inv (p @ [t]) off m0 m1"
    using t(1) by auto
  have "length m1 = length m" using 1(2) Cons.prems(1) by (simp add: nsec_inv_def)
  then have "\<exists>m'. pack_nsec_loop (q @ rest)
       \<lparr>nsec_off = off, nsec_lastwindow = w, nsec_lastlength = octet_of (last (p @ [t])) + 1, nsec_msg = m1\<rparr> =
     pack_nsec_loop rest
       \<lparr>nsec_off = off, nsec_lastwindow = w, nsec_lastlength = octet_of (last ((p @ [t]) @ q)) + 1, nsec_msg = m'\<rparr> \<and>
     nsec_inv ((p @ [t]) @ q) off m0 m'"
    using Cons.prems by (intro Cons.IH [OF 1(2)]) simp_all
  then show ?case using 1(1) by simp
qed auto

lemma pack_nsec_blocks:
  "valid_bitmap ts \<Longrightarrow> ts \<noteq> [] \<Longrightarrow>
   off = (if nsec_lastlength st \<noteq> 0 then nsec_off st + nsec_lastlength st + 2 else nsec_off st) \<Longrightarrow>
   (if nsec_lastlength st \<noteq> 0 then nsec_lastwindow st < window_of (hd ts) else nsec_lastwindow st = 0) \<Longrightarrow>
   \<forall>i. off \<le> i \<longrightarrow> i < length (nsec_msg st) \<longrightarrow> nsec_msg st ! i = 0 \<Longrightarrow>
   off + length (wire_nsec ts) \<le> length (nsec_msg st) \<Longrightarrow>
   pack_nsec_loop ts st = Ok (off + length (wire_nsec ts), put (wire_nsec ts) off (nsec_msg st))"
proof (induction "length ts" arbitrary: ts st off rule: less_induct)
  case less
  obtain g r where g: "ts = g @ r" "g \<noteq> []" "wire_nsec ts = block g @ wire_nsec r" "valid_bitmap g" "valid_bitmap r"
    "\<forall>t \<in> set g. window_of t = window_of (hd g)" "\<forall>t \<in> set r. window_of (hd g) < window_of t"
    "\<forall>t \<in> set g. octet_of t \<le> octet_of (last g)" "length r < length ts"
    using first_block [OF less.prems(1,2)] .
  obtain t q where tq: "g = t # q" using g(2) by (cases g) auto
  let ?m = "nsec_msg st" and ?w = "window_of t"
  have hd: "hd ts = t" using g(1) tq by simp
  have fit: "off + length (block g) + length (wire_nsec r) \<le> length ?m"
    using less.prems(6) by (simp add: g(3))
  have inv0: "nsec_inv [] off ?m ?m"
    using less.prems(5) by (simp add: nsec_inv_def bitmap_byte_zero)
  have ot: "octet_of t \<le> octet_of (last g)" using g(8) tq by simp
  have "\<exists>m'. pack_nsec_type t st =
      Ok \<lparr>nsec_off = off, nsec_lastwindow = ?w, nsec_lastlength = octet_of t + 1, nsec_msg = m'\<rparr> \<and>
      nsec_inv ([] @ [t]) off ?m m'"
    by (rule pack_nsec_step [OF inv0])
      (use less.prems(3,4) hd fit ot in \<open>simp_all add: length_block split: if_splits\<close>)
  then obtain m1 where 1: "pack_nsec_type t st =
      Ok \<lparr>nsec_off = off, nsec_lastwindow = ?w, nsec_lastlength = octet_of t + 1, nsec_msg = m1\<rparr>"
      "nsec_inv [t] off ?m m1" by auto
  have len1: "length m1 = length ?m" using 1(2) by (simp add: nsec_inv_def)
  have "\<exists>m'. pack_nsec_loop (q @ r)
       \<lparr>nsec_off = off, nsec_lastwindow = ?w, nsec_lastlength = octet_of (last [t]) + 1, nsec_msg = m1\<rparr> =
     pack_nsec_loop r
       \<lparr>nsec_off = off, nsec_lastwindow = ?w, nsec_lastlength = octet_of (last ([t] @ q)) + 1, nsec_msg = m'\<rparr> \<and>
     nsec_inv ([t] @ q) off ?m m'"
    by (rule pack_rest_of_block [OF 1(2)]) (use g(4,6) fit len1 in \<open>simp_all add: tq length_block\<close>)
  then obtain m2 where 2: "pack_nsec_loop ts st = pack_nsec_loop r
      \<lparr>nsec_off = off, nsec_lastwindow = ?w, nsec_lastlength = octet_of (last g) + 1, nsec_msg = m2\<rparr>"
      "nsec_inv g off ?m m2"
    using 1(1) by (auto simp: g(1) tq)
  have m2: "m2 = put (block g) off ?m"
    using fit less.prems(5) by (intro inv_put [OF 2(2) g(2,8)]) simp_all
  show ?case
  proof (cases "r = []")
    case True
    then show ?thesis using 2(1) m2 by (simp add: g(3) length_block wire_nsec.simps [of "[]"])
  next
    case False
    let ?st = "\<lparr>nsec_off = off, nsec_lastwindow = ?w, nsec_lastlength = octet_of (last g) + 1, nsec_msg = m2\<rparr>"
    let ?off = "off + length (block g)"
    have zero: "\<forall>i. ?off \<le> i \<longrightarrow> i < length (nsec_msg ?st) \<longrightarrow> nsec_msg ?st ! i = 0"
      using less.prems(5) fit by (simp add: m2 nth_put)
    have "pack_nsec_loop r ?st = Ok (?off + length (wire_nsec r), put (wire_nsec r) ?off (nsec_msg ?st))"
      by (rule less.hyps [OF g(9,5) False _ _ zero]) (use g(7) tq False fit m2 in \<open>simp_all add: length_block\<close>)
    moreover have "put (wire_nsec r) ?off m2 = put (wire_nsec ts) off ?m"
      using fit by (simp add: m2 put_put g(3))
    ultimately show ?thesis using 2(1) by (simp add: g(3))
  qed
qed

lemma fresh_nth: "fresh b \<longleftrightarrow> (\<forall>i. poff b \<le> i \<longrightarrow> i < length (pmsg b) \<longrightarrow> pmsg b ! i = 0)"
proof
  assume f: "fresh b"
  show "\<forall>i. poff b \<le> i \<longrightarrow> i < length (pmsg b) \<longrightarrow> pmsg b ! i = 0"
  proof (intro allI impI)
    fix i assume i: "poff b \<le> i" "i < length (pmsg b)"
    then have "i - poff b < length (drop (poff b) (pmsg b))" by simp
    then have "drop (poff b) (pmsg b) ! (i - poff b) = 0"
      using f unfolding fresh_def list_all_length by blast
    then show "pmsg b ! i = 0" using i by simp
  qed
qed (simp add: fresh_def list_all_length)

lemma packDataNsec_emit:
  assumes "valid_bitmap ts" "fresh b" "fits (wire_nsec ts) b"
  shows "packDataNsec ts b = Ok (emit (wire_nsec ts) b)"
proof (cases "ts = []")
  case True
  then show ?thesis using assms(3) by (simp add: packDataNsec_def wire_nsec.simps [of "[]"] fits_def)
next
  case False
  let ?st = "\<lparr>nsec_off = poff b, nsec_lastwindow = 0, nsec_lastlength = 0, nsec_msg = pmsg b\<rparr>"
  have "pack_nsec_loop ts ?st = Ok (poff b + length (wire_nsec ts), put (wire_nsec ts) (poff b) (nsec_msg ?st))"
    using assms fresh_nth [of b] False by (intro pack_nsec_blocks) (simp_all add: fits_def)
  then show ?thesis using False by (simp add: packDataNsec_def emit_def)
qed

interpretation nsec: tail_format packDataNsec unpackDataNsec wire_nsec valid_bitmap
proof
  fix ts assume v: "valid_bitmap ts"
  show "writes_fresh (packDataNsec ts) (wire_nsec ts)"
    using packDataNsec_emit [OF v] by (simp add: writes_fresh_def)
  show "reads_tail unpackDataNsec ts (wire_nsec ts)"
    using nsec_reads [OF v, of "-1" _ _ "[]"] unfolding reads_tail_def unpackDataNsec_def by simp
qed (simp add: stays_def unpackDataNsec_def nsec_inside)

section \<open>Properties\<close>

text \<open>C40: The bitmap of a strictly increasing list of types, packed into a buffer that is zero from the
  offset on, takes the RFC 4034 image of the list (one block per window of 256 types, without
  trailing zero bytes) and is unpacked again as the same list.\<close>

theorem nsec_round_trip:
  assumes "valid_bitmap ts" "fresh b" "fits (wire_nsec ts) b"
  shows "packDataNsec ts b = Ok (emit (wire_nsec ts) b) \<and>
    unpackDataNsec (take (poff b + length (wire_nsec ts)) (pmsg (emit (wire_nsec ts) b))) (poff b) =
      Ok (ts, poff b + length (wire_nsec ts))"
proof
  show "packDataNsec ts b = Ok (emit (wire_nsec ts) b)" using assms by (rule packDataNsec_emit)
  let ?m = "take (poff b + length (wire_nsec ts)) (pmsg (emit (wire_nsec ts) b))"
  have le: "poff b + length (wire_nsec ts) \<le> length (pmsg b)" using assms(3) by (simp add: fits_def)
  have "bytes_at ?m (poff b) (wire_nsec ts)"
    using bytes_at_put [OF le] le by (simp add: bytes_at_def emit_def drop_take)
  moreover have "length ?m = poff b + length (wire_nsec ts)" using le by simp
  ultimately show "unpackDataNsec ?m (poff b) = Ok (ts, poff b + length (wire_nsec ts))"
    using nsec.read_tail [OF assms(1), of ?m "poff b"] by simp
qed

theorem nsec_round_trip_witness:
  "packDataNsec [1, 15, 257] \<lparr>pmsg = replicate 8 0, poff = 0, pcomp = None\<rparr> =
     Ok (emit [0, 2, 0x40, 1, 1, 1, 0x40] \<lparr>pmsg = replicate 8 0, poff = 0, pcomp = None\<rparr>) \<and>
   unpackDataNsec [0, 2, 0x40, 1, 1, 1, 0x40] 0 = Ok ([1, 15, 257], 7)"
proof -
  let ?b = "\<lparr>pmsg = replicate 8 0, poff = 0, pcomp = None\<rparr> :: pbuf"
  have v: "valid_bitmap [1, 15, 257]" by code_simp
  have w: "wire_nsec [1, 15, 257] = [0, 2, 0x40, 1, 1, 1, 0x40]" by code_simp
  have f: "fresh ?b" "fits (wire_nsec [1, 15, 257]) ?b" unfolding w by code_simp+
  have t: "take (poff ?b + length (wire_nsec [1, 15, 257])) (pmsg (emit (wire_nsec [1, 15, 257]) ?b)) =
      [0, 2, 0x40, 1, 1, 1, 0x40]"
    unfolding w by code_simp
  show ?thesis
    using nsec_round_trip [OF v f] unfolding t unfolding w by simp
qed

end
