(* ===== verification/Wire_Header.thy ===== *)
theory Wire_Header
  imports Wire_Edns Wire_Nsec
begin

unbundle bit_operations_syntax

text \<open>
  The header of a resource record (\<open>unpackHeader\<close>, \<open>RR_Header.pack\<close> and
  \<open>truncateMsgFromRdlength\<close> of \<open>msg_helpers.go\<close>), the frame all packers of \<open>zmsg.go\<close> share
  (\<open>pack_record\<close>: the header, the fields, the length of the data into the header of the record)
  and \<open>rawSetRdlength\<close> of \<open>rawmsg.go\<close>, which patches the length of the data into the bytes.

  \<open>wire_header\<close> is the image of a header; \<open>pack_record_emit\<close> says what a record with images for
  its fields leaves in the buffer, \<open>raw_patches\<close> that the patched length is the one of the data.
\<close>

section \<open>The code\<close>

definition header_pack :: "RR_Header \<Rightarrow> bool \<Rightarrow> pbuf \<Rightarrow> pbuf outcome" where
  "header_pack hdr compress b =
     (if poff b = length (pmsg b) then Ok b
      else pack_all
        [PackDomainName (Name hdr) compress, packUint16 (Rrtype hdr), packUint16 (Class hdr),
         packUint32 (Ttl hdr), packUint16 (Rdlength hdr)] b)"

definition truncateMsgFromRdlength :: "byte list \<Rightarrow> nat \<Rightarrow> uint16 \<Rightarrow> byte list \<times> go_error option" where
  "truncateMsgFromRdlength msg off rdlength =
     (let lenrd = off + unat rdlength
      in if lenrd > length msg then (msg, Some (Error ''overflowing header size''))
         else (take lenrd msg, None))"

definition zero_header :: RR_Header where
  "zero_header = \<lparr>Name = [], Rrtype = 0, Class = 0, Ttl = 0, Rdlength = 0\<rparr>"

text \<open>The result is the header, the offset behind it and the message cut off behind the record;
  the error of \<open>truncateMsgFromRdlength\<close> is dropped.\<close>

definition unpackHeader :: "byte list \<Rightarrow> nat \<Rightarrow> (RR_Header \<times> nat \<times> byte list) outcome" where
  "unpackHeader msg off =
     (if off = length msg then Ok (zero_header, off, msg)
      else
        obind (UnpackDomainName msg off) (\<lambda>(name, off).
        obind (unpackUint16 msg off) (\<lambda>(rrtype, off).
        obind (unpackUint16 msg off) (\<lambda>(cls, off).
        obind (unpackUint32 msg off) (\<lambda>(ttl, off).
        obind (unpackUint16 msg off) (\<lambda>(rdlength, off).
          Ok (\<lparr>Name = name, Rrtype = rrtype, Class = cls, Ttl = ttl, Rdlength = rdlength\<rparr>, off,
              fst (truncateMsgFromRdlength msg off rdlength))))))))"

definition noRdata :: "RR_Header \<Rightarrow> bool" where
  "noRdata h \<longleftrightarrow> Rdlength h = 0"

text \<open>The frame of the packers: the header, the fields, and \<open>rr.Header().Rdlength\<close> is set.\<close>

definition pack_record ::
    "RR_Header \<Rightarrow> bool \<Rightarrow> (pbuf \<Rightarrow> pbuf outcome) list \<Rightarrow> pbuf \<Rightarrow> (RR_Header \<times> pbuf) outcome" where
  "pack_record hdr compress steps b =
     obind (header_pack hdr compress b) (\<lambda>b1.
     obind (pack_all steps b1) (\<lambda>b2.
       Ok (hdr\<lparr>Rdlength := word_of_int (int (poff b2) - int (poff b1))\<rparr>, b2)))"

text \<open>The loop of \<open>rawSetRdlength\<close> over the labels; \<open>None\<close> is the return of \<open>false\<close>.\<close>

function raw_skip_name :: "byte list \<Rightarrow> nat \<Rightarrow> nat option" where
  "raw_skip_name msg off =
     (if off + 1 > length msg then None
      else
        (let c = unat (msg ! off)
         in if c AND 0xC0 = 0 then
              (if c = 0 then Some (off + 1)
               else if off + 1 + c > length msg then None
               else raw_skip_name msg (off + 1 + c))
            else if c AND 0xC0 = 0xC0 then Some (off + 2)
            else raw_skip_name msg (off + 1)))"
  by pat_completeness auto
termination
  by (relation "measure (\<lambda>(msg, off). length msg - off)") auto

declare raw_skip_name.simps [simp del]

definition rawSetRdlength :: "byte list \<Rightarrow> nat \<Rightarrow> nat \<Rightarrow> byte list option" where
  "rawSetRdlength msg off fin =
     (case raw_skip_name msg off of
        None \<Rightarrow> None
      | Some off \<Rightarrow>
          (let off = off + (2 + 2 + 4)
           in if off + 2 > length msg then None
              else
                (let rdatalen = int fin - (int off + 2)
                 in if rdatalen > 0xFFFF then None
                    else Some (put (be_bytes 2 (word_of_int rdatalen :: uint16)) off msg))))"

section \<open>The image of a header\<close>

definition wire_header :: "RR_Header \<Rightarrow> byte list" where
  "wire_header h =
     wire_name (Name h) @ be_bytes 2 (Rrtype h) @ be_bytes 2 (Class h) @ be_bytes 4 (Ttl h) @
     be_bytes 2 (Rdlength h)"

lemma length_wire_header: "length (wire_header h) = length (wire_name (Name h)) + 10"
  by (simp add: wire_header_def)

lemma wire_header_ne [simp]: "wire_header h \<noteq> []"
  by (simp add: wire_header_def)

text \<open>Rules that follow the steps of a packer and of a message on a fresh buffer.\<close>

named_theorems field_writes "the images of the fields"

lemma writes_fresh_Cons: "writes f v \<Longrightarrow> writes_fresh (pack_all fs) w \<Longrightarrow> writes_fresh (pack_all (f # fs)) (v @ w)"
proof -
  assume "writes f v" "writes_fresh (pack_all fs) w"
  moreover have "pack_all (f # fs) = (\<lambda>b. obind (f b) (pack_all fs))" by (rule ext) simp
  ultimately show ?thesis using writes_seq_fresh by simp
qed

lemma writes_fresh_one: "writes_fresh f w \<Longrightarrow> writes_fresh (pack_all [f]) w"
proof -
  have "pack_all [f] = f" by (rule ext) simp
  then show "writes_fresh f w \<Longrightarrow> ?thesis" by simp
qed

lemma writes_fresh_Nil: "writes_fresh (pack_all []) []"
  by (rule writes_freshI) (simp add: fits_def)

lemmas base_writes [field_writes] =
  u8.pack_image u16.pack_image u32.pack_image u48.pack_image u64.pack_image aaaa.pack_image
  name.pack_image str.pack_image hex_writes base64_writes base32_writes names_writes

lemmas tail_writes [field_writes] =
  txts.pack_fresh octets.pack_fresh nsec.pack_fresh

lemma header_writes:
  "valid_name (Name h) \<Longrightarrow> pcomp b = None \<Longrightarrow> fresh b \<Longrightarrow> fits (wire_header h) b \<Longrightarrow>
   header_pack h False b = Ok (emit (wire_header h) b)"
proof -
  assume v: "valid_name (Name h)" and b: "pcomp b = None" "fresh b" "fits (wire_header h) b"
  have "writes_fresh (pack_all [PackDomainName (Name h) False, packUint16 (Rrtype h), packUint16 (Class h),
      packUint32 (Ttl h), packUint16 (Rdlength h)]) (wire_header h)"
    unfolding wire_header_def
    by (intro writes_fresh_Cons writes_fresh_one writes_writes_fresh) (simp_all add: field_writes v)
  moreover have "poff b \<noteq> length (pmsg b)" using b(3) by (auto simp: fits_def)
  ultimately show ?thesis using b by (simp add: header_pack_def writes_fresh_def)
qed

lemma pack_record_emit:
  assumes "valid_name (Name h)" "writes_fresh (pack_all steps) w"
    and b: "pcomp b = None" "fresh b" "fits (wire_header h @ w) b"
  shows "pack_record h False steps b =
    Ok (h\<lparr>Rdlength := of_nat (length w)\<rparr>, emit (wire_header h @ w) b)"
proof -
  from b(3) have f: "fits (wire_header h) b" "fits w (emit (wire_header h) b)"
    by (simp_all add: fits_append)
  have "pack_all steps (emit (wire_header h) b) = Ok (emit w (emit (wire_header h) b))"
    using writes_freshD [OF assms(2) _ _ f(2)] b f by simp
  moreover have "emit w (emit (wire_header h) b) = emit (wire_header h @ w) b"
    by (rule emit_emit) (use f in \<open>simp add: fits_def\<close>)
  ultimately show ?thesis
    using header_writes [OF assms(1) b(1,2) f(1)] by (simp add: pack_record_def)
qed

section \<open>Reading a header\<close>

named_theorems field_reads "reading a field where its image is"

lemma base_reads [field_reads]:
  "bytes_at msg off (be_bytes 1 i1) \<Longrightarrow> unpackUint8 msg off = Ok (i1, off + 1)"
  "bytes_at msg off (be_bytes 2 i2) \<Longrightarrow> unpackUint16 msg off = Ok (i2, off + 2)"
  "bytes_at msg off (be_bytes 4 i4) \<Longrightarrow> unpackUint32 msg off = Ok (i4, off + 4)"
  "bytes_at msg off (be_bytes 6 i6) \<Longrightarrow> i6 = take_bit 48 i6 \<Longrightarrow> unpackUint48 msg off = Ok (i6, off + 6)"
  "bytes_at msg off (be_bytes 8 i8) \<Longrightarrow> unpackUint64 msg off = Ok (i8, off + 8)"
  "bytes_at msg off p \<Longrightarrow> length p = 4 \<Longrightarrow> unpackDataA msg off = Ok (p, off + 4)"
  "bytes_at msg off p \<Longrightarrow> length p = 16 \<Longrightarrow> unpackDataAAAA msg off = Ok (p, off + 16)"
  "bytes_at msg off (wire_name s) \<Longrightarrow> valid_name s \<Longrightarrow> UnpackDomainName msg off = Ok (s, off + length (wire_name s))"
  "bytes_at msg off (wire_text s) \<Longrightarrow> valid_text s \<Longrightarrow> unpackString msg off = Ok (s, off + length (wire_text s))"
  using u8.read_field [where x = i1 and msg = msg and off = off]
    u16.read_field [where x = i2 and msg = msg and off = off]
    u32.read_field [where x = i4 and msg = msg and off = off]
    u48.read_field [where x = i6 and msg = msg and off = off]
    u64.read_field [where x = i8 and msg = msg and off = off]
    a.read_field [where x = p and msg = msg and off = off]
    aaaa.read_field [where x = p and msg = msg and off = off]
    name.read_field [where x = s and msg = msg and off = off]
    str.read_field [where x = s and msg = msg and off = off]
  by simp_all

lemma header_reads:
  assumes "valid_name (Name h)" "bytes_at msg off (wire_header h)"
  shows "unpackHeader msg off =
    Ok (h, off + length (wire_header h),
        fst (truncateMsgFromRdlength msg (off + length (wire_header h)) (Rdlength h)))"
proof -
  have "off \<noteq> length msg" using assms(2) by (simp add: bytes_at_def length_wire_header)
  then show ?thesis
    using assms by (clarsimp simp: wire_header_def bytes_at_append) (simp add: unpackHeader_def field_reads add_ac)
qed

text \<open>What \<open>unpackHeader\<close> guarantees on arbitrary bytes.\<close>

lemma fixed_inside [inside_rules]:
  "off \<le> length msg \<Longrightarrow> inside msg off (unpackUint8 msg off)"
  "off \<le> length msg \<Longrightarrow> inside msg off (unpackUint16 msg off)"
  "off \<le> length msg \<Longrightarrow> inside msg off (unpackUint32 msg off)"
  "off \<le> length msg \<Longrightarrow> inside msg off (unpackUint48 msg off)"
  "off \<le> length msg \<Longrightarrow> inside msg off (unpackUint64 msg off)"
  "off \<le> length msg \<Longrightarrow> inside msg off (unpackDataA msg off)"
  "off \<le> length msg \<Longrightarrow> inside msg off (unpackDataAAAA msg off)"
  "off \<le> length msg \<Longrightarrow> inside msg off (UnpackDomainName msg off)"
  "off \<le> length msg \<Longrightarrow> inside msg off (unpackString msg off)"
  "off \<le> length msg \<Longrightarrow> inside msg off (unpackStringTxt msg off)"
  "off \<le> length msg \<Longrightarrow> inside msg off (unpackStringOctet msg off)"
  "off \<le> length msg \<Longrightarrow> inside msg off (unpackDataNsec msg off)"
  "off \<le> length msg \<Longrightarrow> inside msg off (unpackDataOpt msg off)"
  by (rule u8.unpack_inside u16.unpack_inside u32.unpack_inside u48.unpack_inside u64.unpack_inside
      a.unpack_inside aaaa.unpack_inside name.unpack_inside str.unpack_inside txts.tail_inside
      octets.tail_inside nsec.tail_inside opts.tail_inside, assumption)+

lemma map_ok_obind: "map_ok f (obind m g) = obind m (\<lambda>x. map_ok f (g x))"
  by (cases m) simp_all

lemma unpackHeader_shape:
  assumes "off \<noteq> length msg"
  shows "unpackHeader msg off =
    map_ok (\<lambda>(h, off). (h, off, fst (truncateMsgFromRdlength msg off (Rdlength h))))
      (obind (UnpackDomainName msg off) (\<lambda>(name, off).
       obind (unpackUint16 msg off) (\<lambda>(rrtype, off).
       obind (unpackUint16 msg off) (\<lambda>(cls, off).
       obind (unpackUint32 msg off) (\<lambda>(ttl, off).
       obind (unpackUint16 msg off) (\<lambda>(rdlength, off).
         Ok (\<lparr>Name = name, Rrtype = rrtype, Class = cls, Ttl = ttl, Rdlength = rdlength\<rparr>, off)))))))"
  using assms by (simp add: unpackHeader_def map_ok_obind split_def)

lemma unpackHeader_cases:
  assumes "off \<le> length msg"
  obtains e where "unpackHeader msg off = Err e"
  | "unpackHeader msg off = Ok (zero_header, off, msg)" "off = length msg"
  | h off' where "unpackHeader msg off = Ok (h, off', fst (truncateMsgFromRdlength msg off' (Rdlength h)))"
      "off < off'" "off' \<le> length msg"
proof (cases "off = length msg")
  case True
  then show thesis using that(2) by (simp add: unpackHeader_def)
next
  case False
  define fixed where "fixed = (\<lambda>(name, off).
       obind (unpackUint16 msg off) (\<lambda>(rrtype, off).
       obind (unpackUint16 msg off) (\<lambda>(cls, off).
       obind (unpackUint32 msg off) (\<lambda>(ttl, off).
       obind (unpackUint16 msg off) (\<lambda>(rdlength, off).
         Ok (\<lparr>Name = name, Rrtype = rrtype, Class = cls, Ttl = ttl, Rdlength = rdlength\<rparr>, off))))))"
  have shape: "unpackHeader msg off =
    map_ok (\<lambda>(h, off). (h, off, fst (truncateMsgFromRdlength msg off (Rdlength h))))
      (obind (UnpackDomainName msg off) fixed)"
    unfolding fixed_def by (rule unpackHeader_shape [OF False])
  have i: "inside msg off' (fixed (s, off'))" if "off' \<le> length msg" for s off'
    unfolding fixed_def using that by (auto intro!: inside_rules)
  show thesis
  proof (cases "UnpackDomainName msg off")
    case (Ok r)
    have adv: "off < snd r" "snd r \<le> length msg"
      using UnpackDomainName_advances [of msg off "fst r" "snd r"] Ok
        name.unpack_inside [OF assms] by simp_all
    show thesis
      using that(1,3) i [OF adv(2), of "fst r"] shape Ok adv(1)
      by (cases "fixed r") fastforce+
  next
    case (Err e) then show thesis using that(1) shape by simp
  qed (use name.unpack_inside [OF assms] in simp_all)
qed

lemma truncate_length:
  "off \<le> length msg \<Longrightarrow> m = fst (truncateMsgFromRdlength msg off n) \<Longrightarrow>
   off \<le> length m \<and> length m \<le> length msg \<and> length m \<le> off + unat n"
  by (simp add: truncateMsgFromRdlength_def Let_def)

lemma truncate_exact:
  "length msg = off + unat n \<Longrightarrow> fst (truncateMsgFromRdlength msg off n) = msg"
  "off + unat n \<le> length msg \<Longrightarrow> fst (truncateMsgFromRdlength msg off n) = take (off + unat n) msg"
  by (simp_all add: truncateMsgFromRdlength_def Let_def)

section \<open>Patching the length\<close>

lemma raw_skip_labels:
  "list_all (\<lambda>l. l \<noteq> [] \<and> length l < 64) ls \<Longrightarrow> bytes_at msg off (wire_of_labels ls @ [0]) \<Longrightarrow>
   raw_skip_name msg off = Some (off + name_octets ls + 1)"
proof (induction ls arbitrary: off)
  case Nil
  then show ?case
    by (subst raw_skip_name.simps) (simp add: bytes_at_Cons name_octets_def)
next
  case (Cons l ls)
  have l: "l \<noteq> []" "length l < 64" using Cons.prems(1) by simp_all
  have at: "off < length msg" "msg ! off = of_nat (length l)" "bytes_at msg (Suc off) l"
    "bytes_at msg (off + 1 + length l) (wire_of_labels ls @ [0])"
    using Cons.prems(2) by (simp_all add: bytes_at_Cons bytes_at_append)
  have c: "unat (msg ! off) = length l" using l(2) by (simp add: at(2) unat_of_nat take_bit_nat_eq_self)
  have "(length l :: nat) AND 0xC0 = 0" using l(2) by (intro top_bits(1) [THEN iffD2]) simp_all
  moreover have "\<not> off + 1 > length msg" "\<not> off + 1 + length l > length msg"
    using at by (simp_all add: bytes_at_def)
  ultimately have "raw_skip_name msg off = raw_skip_name msg (off + 1 + length l)"
    using l(1) by (subst raw_skip_name.simps) (simp add: c)
  then show ?case using Cons.IH [OF _ at(4)] Cons.prems(1) by (simp add: name_octets_def)
qed

lemma raw_patches:
  assumes v: "valid_name (Name h)" and fit: "fits (wire_header h @ w) b" and w: "length w < 65536"
  defines "m \<equiv> pmsg (emit (wire_header h @ w) b)"
  shows "rawSetRdlength m (poff b) (poff b + length (wire_header h @ w)) =
    Some (pmsg (emit (wire_header (h\<lparr>Rdlength := of_nat (length w)\<rparr>) @ w) b))"
proof -
  let ?n = "wire_name (Name h)" and ?len = "be_bytes 2 (of_nat (length w) :: uint16)"
  define pre where "pre = ?n @ be_bytes 2 (Rrtype h) @ be_bytes 2 (Class h) @ be_bytes 4 (Ttl h)"
  have h: "wire_header h = pre @ be_bytes 2 (Rdlength h)"
    and h': "wire_header (h\<lparr>Rdlength := of_nat (length w)\<rparr>) = pre @ ?len"
    by (simp_all add: wire_header_def pre_def)
  have lp: "length pre = length ?n + 8" by (simp add: pre_def)
  have le: "poff b + length pre + 2 + length w \<le> length (pmsg b)"
    using fit by (simp add: fits_def h)
  have lm: "length m = length (pmsg b)" unfolding m_def using fit by (simp add: fits_def)
  have "bytes_at m (poff b) (wire_header h @ w)"
    unfolding m_def using fit by (simp add: emit_def fits_def bytes_at_put)
  then have "bytes_at m (poff b) ?n" by (simp add: h pre_def bytes_at_append)
  then have skip: "raw_skip_name m (poff b) = Some (poff b + length ?n)"
    using v raw_skip_labels [of "parse_name (Name h)" m "poff b"]
    by (simp add: wire_name_def valid_name_def labels_ok_def)
  have "put ?len (poff b + length pre) m = put (pre @ ?len @ w) (poff b) (pmsg b)"
    using le by (simp add: m_def h emit_def put_def)
  then show ?thesis
    using le lm w
    by (simp add: rawSetRdlength_def skip Let_def h h' lp emit_def add_ac)
qed

section \<open>Rules for the records\<close>

text \<open>The four bytes of an IPv4 address in either of its forms.\<close>

definition ip4 :: "IP \<Rightarrow> byte list" where
  "ip4 p = (case To4 p of Some q \<Rightarrow> q | None \<Rightarrow> [])"

lemma a_writes [field_writes]: "To4 p \<noteq> None \<Longrightarrow> writes (packDataA p) (ip4 p)"
  by (auto simp: writes_def packDataA_def ip4_def fits_def To4_def split: if_splits)

lemma length_ip4 [simp]: "To4 p \<noteq> None \<Longrightarrow> length (ip4 p) = 4"
  by (auto simp: ip4_def To4_def split: if_splits)

lemma salt_writes [field_writes]:
  "hex.canonical s \<Longrightarrow> writes (if s = ''-'' then Ok else packStringHex s) (hex.bytes s)"
proof -
  have "hex_DecodeString ''-'' \<noteq> Ok bs" for bs by (simp add: eval_nat_numeral)
  then have "\<not> hex.canonical ''-''" by (auto simp: hex.canonical_def split: outcome.splits)
  then show "hex.canonical s \<Longrightarrow> ?thesis" using hex_writes by auto
qed

lemma opt_writes [field_writes]: "list_all valid_option els \<Longrightarrow> writes_fresh (packDataOpt els) (wire_options els)"
  by (simp add: writes_fresh_def packDataOpt_emit)

lemmas record_writes = writes_fresh_Cons writes_fresh_one writes_fresh_Nil

lemmas last_writes [field_writes] =
  u8.pack_fresh u16.pack_fresh u32.pack_fresh u48.pack_fresh u64.pack_fresh aaaa.pack_fresh
  name.pack_fresh str.pack_fresh
  hex_writes [THEN writes_writes_fresh] base64_writes [THEN writes_writes_fresh]
  base32_writes [THEN writes_writes_fresh] names_writes [THEN writes_writes_fresh]
  a_writes [THEN writes_writes_fresh] salt_writes [THEN writes_writes_fresh]

lemma noRdata_iff: "noRdata h \<longleftrightarrow> unat (Rdlength h) = 0"
  by (simp add: noRdata_def unat_eq_0)

lemma sized_reads [field_reads]:
  "bytes_at msg off (hex.bytes s) \<Longrightarrow> hex.canonical s \<Longrightarrow> fin = off + length (hex.bytes s) \<Longrightarrow>
   unpackStringHex msg off fin = Ok (s, fin)"
  "bytes_at msg off (base64.bytes s) \<Longrightarrow> base64.canonical s \<Longrightarrow> fin = off + length (base64.bytes s) \<Longrightarrow>
   unpackStringBase64 msg off fin = Ok (s, fin)"
  "bytes_at msg off (base32.bytes s) \<Longrightarrow> base32.canonical s \<Longrightarrow> fin = off + length (base32.bytes s) \<Longrightarrow>
   unpackStringBase32 msg off fin = Ok (s, fin)"
  "bytes_at msg off (wire_names ns) \<Longrightarrow> list_all valid_name ns \<Longrightarrow> fin = off + length (wire_names ns) \<Longrightarrow>
   unpackDataDomainNames msg off fin = Ok (ns, fin)"
  using hex_reads base64_reads base32_reads names_reads by simp_all

lemma tail_reads [field_reads]:
  "bytes_at msg off (wire_texts ts) \<Longrightarrow> valid_texts ts \<Longrightarrow> length msg = off + length (wire_texts ts) \<Longrightarrow>
   unpackStringTxt msg off = Ok (ts, length msg)"
  "bytes_at msg off (bytes_of s) \<Longrightarrow> valid_octets s \<Longrightarrow> length msg = off + length (bytes_of s) \<Longrightarrow>
   unpackStringOctet msg off = Ok (s, length msg)"
  "bytes_at msg off (wire_nsec ns) \<Longrightarrow> valid_bitmap ns \<Longrightarrow> length msg = off + length (wire_nsec ns) \<Longrightarrow>
   unpackDataNsec msg off = Ok (ns, length msg)"
  "bytes_at msg off (wire_options els) \<Longrightarrow> list_all valid_option els \<Longrightarrow> els \<noteq> [] \<Longrightarrow>
   length msg = off + length (wire_options els) \<Longrightarrow> unpackDataOpt msg off = Ok (els, length msg)"
  using txts.read_tail octets.read_tail nsec.read_tail opts.read_tail by simp_all

text \<open>Fields without bytes.\<close>

lemma empty_field [simp]:
  "hex.bytes '''' = []" "base64.bytes '''' = []" "base32.bytes '''' = []"
  "hex.canonical s \<Longrightarrow> hex.bytes s = [] \<longleftrightarrow> s = ''''"
  "base64.canonical s \<Longrightarrow> base64.bytes s = [] \<longleftrightarrow> s = ''''"
  "base32.canonical s \<Longrightarrow> base32.bytes s = [] \<longleftrightarrow> s = ''''"
proof -
  have "hex_EncodeToString [] = ''''" "toBase64 [] = ''''" "toBase32 [] = ''''" by code_simp+
  moreover show "hex.bytes '''' = []" "base64.bytes '''' = []" "base32.bytes '''' = []"
    using hex.bytes_enc [of "[]"] base64.bytes_enc [of "[]"] base32.bytes_enc [of "[]"] calculation by simp_all
  ultimately show "hex.canonical s \<Longrightarrow> hex.bytes s = [] \<longleftrightarrow> s = ''''"
    "base64.canonical s \<Longrightarrow> base64.bytes s = [] \<longleftrightarrow> s = ''''"
    "base32.canonical s \<Longrightarrow> base32.bytes s = [] \<longleftrightarrow> s = ''''"
    using hex.canonicalD [of s] base64.canonicalD [of s] base32.canonicalD [of s] by auto
qed

lemma empty_tail [simp]:
  "valid_texts ts \<Longrightarrow> wire_texts ts \<noteq> []"
  "valid_bitmap ns \<Longrightarrow> wire_nsec ns = [] \<longleftrightarrow> ns = []"
  "wire_nsec [] = []"
  "wire_names ss = [] \<longleftrightarrow> ss = []"
  "wire_options els = [] \<longleftrightarrow> els = []"
  "bytes_of s = [] \<longleftrightarrow> s = []"
proof -
  show "valid_texts ts \<Longrightarrow> wire_texts ts \<noteq> []"
    by (cases ts) (simp_all add: valid_texts_def wire_texts_def)
  show "valid_bitmap ns \<Longrightarrow> wire_nsec ns = [] \<longleftrightarrow> ns = []"
    by (subst wire_nsec.simps) (simp add: block_def)
  show "wire_nsec [] = []" by (subst wire_nsec.simps) simp
  show "wire_names ss = [] \<longleftrightarrow> ss = []" by (cases ss) (simp_all add: wire_names_def)
  show "wire_options els = [] \<longleftrightarrow> els = []"
    by (cases els) (simp_all add: wire_options_def wire_option_def be_bytes_def)
qed (simp add: bytes_of_def)

lemma ip4_reads [field_reads]:
  "bytes_at msg off (ip4 p) \<Longrightarrow> To4 p \<noteq> None \<Longrightarrow> unpackDataA msg off = Ok (ip4 p, off + 4)"
  by (simp add: base_reads)

end
