(* ===== verification/Wire_RR_Std.thy ===== *)
theory Wire_RR_Std
  imports Wire_Header
begin

text \<open>
  The packers and unpackers of \<open>zmsg.go\<close> for the records of RFC 1035 and its successors: \<open>pack_T\<close>
        is the method \<open>pack\<close> of
  the struct \<open>T\<close>, \<open>unpackT\<close> the function of that name.  A packer gets the header and the fields of the
  record and returns the header with its new \<open>Rdlength\<close>; an unpacker returns the fields, the fields
  behind the end of the data being zero, and the caller attaches the header \<open>h\<close> to them.

  \<open>std_image\<close> is the wire image of the fields, \<open>std_valid\<close> says which fields have one.  Every packer
  writes the image (\<open>std_pack_emit\<close>), every unpacker reads it back (\<open>std_reads\<close>) and comes back on all
  bytes (\<open>std_inside\<close>).
\<close>

section \<open>Packers\<close>

definition pack_ANY ::
    "RR_Header \<Rightarrow> bool \<Rightarrow> pbuf \<Rightarrow>
    (RR_Header \<times> pbuf) outcome" where
  "pack_ANY hdr compress =
     pack_record hdr compress []"

definition pack_CNAME ::
    "RR_Header \<Rightarrow> string \<Rightarrow> bool \<Rightarrow> pbuf \<Rightarrow>
    (RR_Header \<times> pbuf) outcome" where
  "pack_CNAME hdr target compress =
     pack_record hdr compress
       [PackDomainName target compress]"

definition pack_HINFO ::
    "RR_Header \<Rightarrow> string \<Rightarrow> string \<Rightarrow> bool \<Rightarrow>
    pbuf \<Rightarrow> (RR_Header \<times> pbuf) outcome" where
  "pack_HINFO hdr cpu os compress =
     pack_record hdr compress
       [packString cpu, packString os]"

definition pack_MB ::
    "RR_Header \<Rightarrow> string \<Rightarrow> bool \<Rightarrow> pbuf \<Rightarrow>
    (RR_Header \<times> pbuf) outcome" where
  "pack_MB hdr mb compress =
     pack_record hdr compress
       [PackDomainName mb compress]"

definition pack_MG ::
    "RR_Header \<Rightarrow> string \<Rightarrow> bool \<Rightarrow> pbuf \<Rightarrow>
    (RR_Header \<times> pbuf) outcome" where
  "pack_MG hdr mg compress =
     pack_record hdr compress
       [PackDomainName mg compress]"

definition pack_MINFO ::
    "RR_Header \<Rightarrow> string \<Rightarrow> string \<Rightarrow> bool \<Rightarrow>
    pbuf \<Rightarrow> (RR_Header \<times> pbuf) outcome" where
  "pack_MINFO hdr rmail email compress =
     pack_record hdr compress
       [PackDomainName rmail compress, PackDomainName email compress]"

definition pack_MR ::
    "RR_Header \<Rightarrow> string \<Rightarrow> bool \<Rightarrow> pbuf \<Rightarrow>
    (RR_Header \<times> pbuf) outcome" where
  "pack_MR hdr mr compress =
     pack_record hdr compress
       [PackDomainName mr compress]"

definition pack_MF ::
    "RR_Header \<Rightarrow> string \<Rightarrow> bool \<Rightarrow> pbuf \<Rightarrow>
    (RR_Header \<times> pbuf) outcome" where
  "pack_MF hdr mf compress =
     pack_record hdr compress
       [PackDomainName mf compress]"

definition pack_MD ::
    "RR_Header \<Rightarrow> string \<Rightarrow> bool \<Rightarrow> pbuf \<Rightarrow>
    (RR_Header \<times> pbuf) outcome" where
  "pack_MD hdr md compress =
     pack_record hdr compress
       [PackDomainName md compress]"

definition pack_MX ::
    "RR_Header \<Rightarrow> uint16 \<Rightarrow> string \<Rightarrow> bool \<Rightarrow>
    pbuf \<Rightarrow> (RR_Header \<times> pbuf) outcome" where
  "pack_MX hdr preference mx compress =
     pack_record hdr compress
       [packUint16 preference, PackDomainName mx compress]"

definition pack_AFSDB ::
    "RR_Header \<Rightarrow> uint16 \<Rightarrow> string \<Rightarrow> bool \<Rightarrow>
    pbuf \<Rightarrow> (RR_Header \<times> pbuf) outcome" where
  "pack_AFSDB hdr subtype hostname compress =
     pack_record hdr compress
       [packUint16 subtype, PackDomainName hostname compress]"

definition pack_X25 ::
    "RR_Header \<Rightarrow> string \<Rightarrow> bool \<Rightarrow> pbuf \<Rightarrow>
    (RR_Header \<times> pbuf) outcome" where
  "pack_X25 hdr pSDNAddress compress =
     pack_record hdr compress
       [packString pSDNAddress]"

definition pack_RT ::
    "RR_Header \<Rightarrow> uint16 \<Rightarrow> string \<Rightarrow> bool \<Rightarrow>
    pbuf \<Rightarrow> (RR_Header \<times> pbuf) outcome" where
  "pack_RT hdr preference host compress =
     pack_record hdr compress
       [packUint16 preference, PackDomainName host compress]"

definition pack_NS ::
    "RR_Header \<Rightarrow> string \<Rightarrow> bool \<Rightarrow> pbuf \<Rightarrow>
    (RR_Header \<times> pbuf) outcome" where
  "pack_NS hdr ns compress =
     pack_record hdr compress
       [PackDomainName ns compress]"

definition pack_PTR ::
    "RR_Header \<Rightarrow> string \<Rightarrow> bool \<Rightarrow> pbuf \<Rightarrow>
    (RR_Header \<times> pbuf) outcome" where
  "pack_PTR hdr ptr compress =
     pack_record hdr compress
       [PackDomainName ptr compress]"

definition pack_RP ::
    "RR_Header \<Rightarrow> string \<Rightarrow> string \<Rightarrow> bool \<Rightarrow>
    pbuf \<Rightarrow> (RR_Header \<times> pbuf) outcome" where
  "pack_RP hdr mbox txt compress =
     pack_record hdr compress
       [PackDomainName mbox False, PackDomainName txt False]"

definition pack_SOA ::
    "RR_Header \<Rightarrow> string \<Rightarrow> string \<Rightarrow> uint32 \<Rightarrow>
    uint32 \<Rightarrow> uint32 \<Rightarrow> uint32 \<Rightarrow> uint32 \<Rightarrow>
    bool \<Rightarrow> pbuf \<Rightarrow> (RR_Header \<times> pbuf) outcome" where
  "pack_SOA hdr ns mbox serial refresh retry expire minttl compress =
     pack_record hdr compress
       [PackDomainName ns compress, PackDomainName mbox compress, packUint32 serial,
        packUint32 refresh, packUint32 retry, packUint32 expire, packUint32 minttl]"

definition pack_TXT ::
    "RR_Header \<Rightarrow> string list \<Rightarrow> bool \<Rightarrow> pbuf \<Rightarrow>
    (RR_Header \<times> pbuf) outcome" where
  "pack_TXT hdr txt compress =
     pack_record hdr compress
       [packStringTxt txt]"

definition pack_SPF ::
    "RR_Header \<Rightarrow> string list \<Rightarrow> bool \<Rightarrow> pbuf \<Rightarrow>
    (RR_Header \<times> pbuf) outcome" where
  "pack_SPF hdr txt compress =
     pack_record hdr compress
       [packStringTxt txt]"

definition pack_AVC ::
    "RR_Header \<Rightarrow> string list \<Rightarrow> bool \<Rightarrow> pbuf \<Rightarrow>
    (RR_Header \<times> pbuf) outcome" where
  "pack_AVC hdr txt compress =
     pack_record hdr compress
       [packStringTxt txt]"

definition pack_SRV ::
    "RR_Header \<Rightarrow> uint16 \<Rightarrow> uint16 \<Rightarrow> uint16 \<Rightarrow>
    string \<Rightarrow> bool \<Rightarrow> pbuf \<Rightarrow> (RR_Header \<times> pbuf) outcome" where
  "pack_SRV hdr priority wgt port target compress =
     pack_record hdr compress
       [packUint16 priority, packUint16 wgt, packUint16 port, PackDomainName target False]"

definition pack_NAPTR ::
    "RR_Header \<Rightarrow> uint16 \<Rightarrow> uint16 \<Rightarrow> string \<Rightarrow>
    string \<Rightarrow> string \<Rightarrow> string \<Rightarrow> bool \<Rightarrow>
    pbuf \<Rightarrow> (RR_Header \<times> pbuf) outcome" where
  "pack_NAPTR hdr ordr preference flags service regexp replacement compress =
     pack_record hdr compress
       [packUint16 ordr, packUint16 preference, packString flags, packString service,
        packString regexp, PackDomainName replacement False]"

definition pack_CERT ::
    "RR_Header \<Rightarrow> uint16 \<Rightarrow> uint16 \<Rightarrow> byte \<Rightarrow>
    string \<Rightarrow> bool \<Rightarrow> pbuf \<Rightarrow> (RR_Header \<times> pbuf) outcome" where
  "pack_CERT hdr ty keyTag algorithm certificate compress =
     pack_record hdr compress
       [packUint16 ty, packUint16 keyTag, packUint8 algorithm, packStringBase64 certificate]"

definition pack_DNAME ::
    "RR_Header \<Rightarrow> string \<Rightarrow> bool \<Rightarrow> pbuf \<Rightarrow>
    (RR_Header \<times> pbuf) outcome" where
  "pack_DNAME hdr target compress =
     pack_record hdr compress
       [PackDomainName target False]"

definition pack_A ::
    "RR_Header \<Rightarrow> IP \<Rightarrow> bool \<Rightarrow> pbuf \<Rightarrow>
    (RR_Header \<times> pbuf) outcome" where
  "pack_A hdr a compress =
     pack_record hdr compress
       [packDataA a]"

definition pack_AAAA ::
    "RR_Header \<Rightarrow> IP \<Rightarrow> bool \<Rightarrow> pbuf \<Rightarrow>
    (RR_Header \<times> pbuf) outcome" where
  "pack_AAAA hdr aaaa compress =
     pack_record hdr compress
       [packDataAAAA aaaa]"

text \<open>The method \<open>pack\<close> of the interface \<open>RR\<close>.\<close>

primrec pack_std :: "std_rdata \<Rightarrow> RR_Header \<Rightarrow> bool \<Rightarrow> pbuf \<Rightarrow> (RR_Header \<times> pbuf) outcome" where
    "pack_std RR_ANY h = pack_ANY h"
  | "pack_std (RR_CNAME target) h = pack_CNAME h target"
  | "pack_std (RR_HINFO cpu os) h = pack_HINFO h cpu os"
  | "pack_std (RR_MB mb) h = pack_MB h mb"
  | "pack_std (RR_MG mg) h = pack_MG h mg"
  | "pack_std (RR_MINFO rmail email) h = pack_MINFO h rmail email"
  | "pack_std (RR_MR mr) h = pack_MR h mr"
  | "pack_std (RR_MF mf) h = pack_MF h mf"
  | "pack_std (RR_MD md) h = pack_MD h md"
  | "pack_std (RR_MX preference mx) h = pack_MX h preference mx"
  | "pack_std (RR_AFSDB subtype hostname) h = pack_AFSDB h subtype hostname"
  | "pack_std (RR_X25 pSDNAddress) h = pack_X25 h pSDNAddress"
  | "pack_std (RR_RT preference host) h = pack_RT h preference host"
  | "pack_std (RR_NS ns) h = pack_NS h ns"
  | "pack_std (RR_PTR ptr) h = pack_PTR h ptr"
  | "pack_std (RR_RP mbox txt) h = pack_RP h mbox txt"
  | "pack_std (RR_SOA ns mbox serial refresh retry expire minttl) h =
        pack_SOA h ns mbox serial refresh retry expire minttl"
  | "pack_std (RR_TXT txt) h = pack_TXT h txt"
  | "pack_std (RR_SPF txt) h = pack_SPF h txt"
  | "pack_std (RR_AVC txt) h = pack_AVC h txt"
  | "pack_std (RR_SRV priority wgt port target) h = pack_SRV h priority wgt port target"
  | "pack_std (RR_NAPTR ordr preference flags service regexp replacement) h =
        pack_NAPTR h ordr preference flags service regexp replacement"
  | "pack_std (RR_CERT ty keyTag algorithm certificate) h = pack_CERT h ty keyTag algorithm certificate"
  | "pack_std (RR_DNAME target) h = pack_DNAME h target"
  | "pack_std (RR_A a) h = pack_A h a"
  | "pack_std (RR_AAAA aaaa) h = pack_AAAA h aaaa"

section \<open>Unpackers\<close>

definition unpackANY :: "RR_Header \<Rightarrow> byte list \<Rightarrow> nat \<Rightarrow> (std_rdata \<times> nat) outcome" where
  "unpackANY h msg off =
     (if noRdata h then Ok (RR_ANY, off)
      else
        Ok (RR_ANY, off))"

definition unpackCNAME :: "RR_Header \<Rightarrow> byte list \<Rightarrow> nat \<Rightarrow> (std_rdata \<times> nat) outcome" where
  "unpackCNAME h msg off =
     (if noRdata h then Ok (RR_CNAME '''', off)
      else
        obind (UnpackDomainName msg off) (\<lambda>(target, off).
          Ok (RR_CNAME target, off)))"

definition unpackHINFO :: "RR_Header \<Rightarrow> byte list \<Rightarrow> nat \<Rightarrow> (std_rdata \<times> nat) outcome" where
  "unpackHINFO h msg off =
     (if noRdata h then Ok (RR_HINFO '''' '''', off)
      else
        obind (unpackString msg off) (\<lambda>(cpu, off).
          if off = length msg then Ok (RR_HINFO cpu '''', off) else
        obind (unpackString msg off) (\<lambda>(os, off).
          Ok (RR_HINFO cpu os, off))))"

definition unpackMB :: "RR_Header \<Rightarrow> byte list \<Rightarrow> nat \<Rightarrow> (std_rdata \<times> nat) outcome" where
  "unpackMB h msg off =
     (if noRdata h then Ok (RR_MB '''', off)
      else
        obind (UnpackDomainName msg off) (\<lambda>(mb, off).
          Ok (RR_MB mb, off)))"

definition unpackMG :: "RR_Header \<Rightarrow> byte list \<Rightarrow> nat \<Rightarrow> (std_rdata \<times> nat) outcome" where
  "unpackMG h msg off =
     (if noRdata h then Ok (RR_MG '''', off)
      else
        obind (UnpackDomainName msg off) (\<lambda>(mg, off).
          Ok (RR_MG mg, off)))"

definition unpackMINFO :: "RR_Header \<Rightarrow> byte list \<Rightarrow> nat \<Rightarrow> (std_rdata \<times> nat) outcome" where
  "unpackMINFO h msg off =
     (if noRdata h then Ok (RR_MINFO '''' '''', off)
      else
        obind (UnpackDomainName msg off) (\<lambda>(rmail, off).
          if off = length msg then Ok (RR_MINFO rmail '''', off) else
        obind (UnpackDomainName msg off) (\<lambda>(email, off).
          Ok (RR_MINFO rmail email, off))))"

definition unpackMR :: "RR_Header \<Rightarrow> byte list \<Rightarrow> nat \<Rightarrow> (std_rdata \<times> nat) outcome" where
  "unpackMR h msg off =
     (if noRdata h then Ok (RR_MR '''', off)
      else
        obind (UnpackDomainName msg off) (\<lambda>(mr, off).
          Ok (RR_MR mr, off)))"

definition unpackMF :: "RR_Header \<Rightarrow> byte list \<Rightarrow> nat \<Rightarrow> (std_rdata \<times> nat) outcome" where
  "unpackMF h msg off =
     (if noRdata h then Ok (RR_MF '''', off)
      else
        obind (UnpackDomainName msg off) (\<lambda>(mf, off).
          Ok (RR_MF mf, off)))"

definition unpackMD :: "RR_Header \<Rightarrow> byte list \<Rightarrow> nat \<Rightarrow> (std_rdata \<times> nat) outcome" where
  "unpackMD h msg off =
     (if noRdata h then Ok (RR_MD '''', off)
      else
        obind (UnpackDomainName msg off) (\<lambda>(md, off).
          Ok (RR_MD md, off)))"

definition unpackMX :: "RR_Header \<Rightarrow> byte list \<Rightarrow> nat \<Rightarrow> (std_rdata \<times> nat) outcome" where
  "unpackMX h msg off =
     (if noRdata h then Ok (RR_MX 0 '''', off)
      else
        obind (unpackUint16 msg off) (\<lambda>(preference, off).
          if off = length msg then Ok (RR_MX preference '''', off) else
        obind (UnpackDomainName msg off) (\<lambda>(mx, off).
          Ok (RR_MX preference mx, off))))"

definition unpackAFSDB :: "RR_Header \<Rightarrow> byte list \<Rightarrow> nat \<Rightarrow> (std_rdata \<times> nat) outcome" where
  "unpackAFSDB h msg off =
     (if noRdata h then Ok (RR_AFSDB 0 '''', off)
      else
        obind (unpackUint16 msg off) (\<lambda>(subtype, off).
          if off = length msg then Ok (RR_AFSDB subtype '''', off) else
        obind (UnpackDomainName msg off) (\<lambda>(hostname, off).
          Ok (RR_AFSDB subtype hostname, off))))"

definition unpackX25 :: "RR_Header \<Rightarrow> byte list \<Rightarrow> nat \<Rightarrow> (std_rdata \<times> nat) outcome" where
  "unpackX25 h msg off =
     (if noRdata h then Ok (RR_X25 '''', off)
      else
        obind (unpackString msg off) (\<lambda>(pSDNAddress, off).
          Ok (RR_X25 pSDNAddress, off)))"

definition unpackRT :: "RR_Header \<Rightarrow> byte list \<Rightarrow> nat \<Rightarrow> (std_rdata \<times> nat) outcome" where
  "unpackRT h msg off =
     (if noRdata h then Ok (RR_RT 0 '''', off)
      else
        obind (unpackUint16 msg off) (\<lambda>(preference, off).
          if off = length msg then Ok (RR_RT preference '''', off) else
        obind (UnpackDomainName msg off) (\<lambda>(host, off).
          Ok (RR_RT preference host, off))))"

definition unpackNS :: "RR_Header \<Rightarrow> byte list \<Rightarrow> nat \<Rightarrow> (std_rdata \<times> nat) outcome" where
  "unpackNS h msg off =
     (if noRdata h then Ok (RR_NS '''', off)
      else
        obind (UnpackDomainName msg off) (\<lambda>(ns, off).
          Ok (RR_NS ns, off)))"

definition unpackPTR :: "RR_Header \<Rightarrow> byte list \<Rightarrow> nat \<Rightarrow> (std_rdata \<times> nat) outcome" where
  "unpackPTR h msg off =
     (if noRdata h then Ok (RR_PTR '''', off)
      else
        obind (UnpackDomainName msg off) (\<lambda>(ptr, off).
          Ok (RR_PTR ptr, off)))"

definition unpackRP :: "RR_Header \<Rightarrow> byte list \<Rightarrow> nat \<Rightarrow> (std_rdata \<times> nat) outcome" where
  "unpackRP h msg off =
     (if noRdata h then Ok (RR_RP '''' '''', off)
      else
        obind (UnpackDomainName msg off) (\<lambda>(mbox, off).
          if off = length msg then Ok (RR_RP mbox '''', off) else
        obind (UnpackDomainName msg off) (\<lambda>(txt, off).
          Ok (RR_RP mbox txt, off))))"

definition unpackSOA :: "RR_Header \<Rightarrow> byte list \<Rightarrow> nat \<Rightarrow> (std_rdata \<times> nat) outcome" where
  "unpackSOA h msg off =
     (if noRdata h then Ok (RR_SOA '''' '''' 0 0 0 0 0, off)
      else
        obind (UnpackDomainName msg off) (\<lambda>(ns, off).
          if off = length msg then Ok (RR_SOA ns '''' 0 0 0 0 0, off) else
        obind (UnpackDomainName msg off) (\<lambda>(mbox, off).
          if off = length msg then Ok (RR_SOA ns mbox 0 0 0 0 0, off) else
        obind (unpackUint32 msg off) (\<lambda>(serial, off).
          if off = length msg then Ok (RR_SOA ns mbox serial 0 0 0 0, off) else
        obind (unpackUint32 msg off) (\<lambda>(refresh, off).
          if off = length msg then Ok (RR_SOA ns mbox serial refresh 0 0 0, off) else
        obind (unpackUint32 msg off) (\<lambda>(retry, off).
          if off = length msg then Ok (RR_SOA ns mbox serial refresh retry 0 0, off) else
        obind (unpackUint32 msg off) (\<lambda>(expire, off).
          if off = length msg then Ok (RR_SOA ns mbox serial refresh retry expire 0, off) else
        obind (unpackUint32 msg off) (\<lambda>(minttl, off).
          Ok (RR_SOA ns mbox serial refresh retry expire minttl, off)))))))))"

definition unpackTXT :: "RR_Header \<Rightarrow> byte list \<Rightarrow> nat \<Rightarrow> (std_rdata \<times> nat) outcome" where
  "unpackTXT h msg off =
     (if noRdata h then Ok (RR_TXT [], off)
      else
        obind (unpackStringTxt msg off) (\<lambda>(txt, off).
          Ok (RR_TXT txt, off)))"

definition unpackSPF :: "RR_Header \<Rightarrow> byte list \<Rightarrow> nat \<Rightarrow> (std_rdata \<times> nat) outcome" where
  "unpackSPF h msg off =
     (if noRdata h then Ok (RR_SPF [], off)
      else
        obind (unpackStringTxt msg off) (\<lambda>(txt, off).
          Ok (RR_SPF txt, off)))"

definition unpackAVC :: "RR_Header \<Rightarrow> byte list \<Rightarrow> nat \<Rightarrow> (std_rdata \<times> nat) outcome" where
  "unpackAVC h msg off =
     (if noRdata h then Ok (RR_AVC [], off)
      else
        obind (unpackStringTxt msg off) (\<lambda>(txt, off).
          Ok (RR_AVC txt, off)))"

definition unpackSRV :: "RR_Header \<Rightarrow> byte list \<Rightarrow> nat \<Rightarrow> (std_rdata \<times> nat) outcome" where
  "unpackSRV h msg off =
     (if noRdata h then Ok (RR_SRV 0 0 0 '''', off)
      else
        obind (unpackUint16 msg off) (\<lambda>(priority, off).
          if off = length msg then Ok (RR_SRV priority 0 0 '''', off) else
        obind (unpackUint16 msg off) (\<lambda>(wgt, off).
          if off = length msg then Ok (RR_SRV priority wgt 0 '''', off) else
        obind (unpackUint16 msg off) (\<lambda>(port, off).
          if off = length msg then Ok (RR_SRV priority wgt port '''', off) else
        obind (UnpackDomainName msg off) (\<lambda>(target, off).
          Ok (RR_SRV priority wgt port target, off))))))"

definition unpackNAPTR :: "RR_Header \<Rightarrow> byte list \<Rightarrow> nat \<Rightarrow> (std_rdata \<times> nat) outcome" where
  "unpackNAPTR h msg off =
     (if noRdata h then Ok (RR_NAPTR 0 0 '''' '''' '''' '''', off)
      else
        obind (unpackUint16 msg off) (\<lambda>(ordr, off).
          if off = length msg then Ok (RR_NAPTR ordr 0 '''' '''' '''' '''', off) else
        obind (unpackUint16 msg off) (\<lambda>(preference, off).
          if off = length msg then Ok (RR_NAPTR ordr preference '''' '''' '''' '''', off) else
        obind (unpackString msg off) (\<lambda>(flags, off).
          if off = length msg then Ok (RR_NAPTR ordr preference flags '''' '''' '''', off) else
        obind (unpackString msg off) (\<lambda>(service, off).
          if off = length msg then Ok (RR_NAPTR ordr preference flags service '''' '''', off) else
        obind (unpackString msg off) (\<lambda>(regexp, off).
          if off = length msg then Ok (RR_NAPTR ordr preference flags service regexp '''', off) else
        obind (UnpackDomainName msg off) (\<lambda>(replacement, off).
          Ok (RR_NAPTR ordr preference flags service regexp replacement, off))))))))"

definition unpackCERT :: "RR_Header \<Rightarrow> byte list \<Rightarrow> nat \<Rightarrow> (std_rdata \<times> nat) outcome" where
  "unpackCERT h msg off =
     (if noRdata h then Ok (RR_CERT 0 0 0 '''', off)
      else
        let rdStart = off in
        obind (unpackUint16 msg off) (\<lambda>(ty, off).
          if off = length msg then Ok (RR_CERT ty 0 0 '''', off) else
        obind (unpackUint16 msg off) (\<lambda>(keyTag, off).
          if off = length msg then Ok (RR_CERT ty keyTag 0 '''', off) else
        obind (unpackUint8 msg off) (\<lambda>(algorithm, off).
          if off = length msg then Ok (RR_CERT ty keyTag algorithm '''', off) else
        obind (unpackStringBase64 msg off (rdStart + unat (Rdlength h))) (\<lambda>(certificate, off).
          Ok (RR_CERT ty keyTag algorithm certificate, off))))))"

definition unpackDNAME :: "RR_Header \<Rightarrow> byte list \<Rightarrow> nat \<Rightarrow> (std_rdata \<times> nat) outcome" where
  "unpackDNAME h msg off =
     (if noRdata h then Ok (RR_DNAME '''', off)
      else
        obind (UnpackDomainName msg off) (\<lambda>(target, off).
          Ok (RR_DNAME target, off)))"

definition unpackA :: "RR_Header \<Rightarrow> byte list \<Rightarrow> nat \<Rightarrow> (std_rdata \<times> nat) outcome" where
  "unpackA h msg off =
     (if noRdata h then Ok (RR_A [], off)
      else
        obind (unpackDataA msg off) (\<lambda>(a, off).
          Ok (RR_A a, off)))"

definition unpackAAAA :: "RR_Header \<Rightarrow> byte list \<Rightarrow> nat \<Rightarrow> (std_rdata \<times> nat) outcome" where
  "unpackAAAA h msg off =
     (if noRdata h then Ok (RR_AAAA [], off)
      else
        obind (unpackDataAAAA msg off) (\<lambda>(aaaa, off).
          Ok (RR_AAAA aaaa, off)))"

text \<open>The part of the table \<open>typeToUnpack\<close> for these types.\<close>

definition std_unpackers ::
    "(uint16 \<times> (RR_Header \<Rightarrow> byte list \<Rightarrow> nat \<Rightarrow> (std_rdata \<times> nat) outcome)) list" where
  "std_unpackers =
     [(TypeANY, unpackANY), (TypeCNAME, unpackCNAME), (TypeHINFO, unpackHINFO),
      (TypeMB, unpackMB), (TypeMG, unpackMG), (TypeMINFO, unpackMINFO), (TypeMR, unpackMR),
      (TypeMF, unpackMF), (TypeMD, unpackMD), (TypeMX, unpackMX), (TypeAFSDB, unpackAFSDB),
      (TypeX25, unpackX25), (TypeRT, unpackRT), (TypeNS, unpackNS), (TypePTR, unpackPTR),
      (TypeRP, unpackRP), (TypeSOA, unpackSOA), (TypeTXT, unpackTXT), (TypeSPF, unpackSPF),
      (TypeAVC, unpackAVC), (TypeSRV, unpackSRV), (TypeNAPTR, unpackNAPTR),
      (TypeCERT, unpackCERT), (TypeDNAME, unpackDNAME), (TypeA, unpackA), (TypeAAAA, unpackAAAA)]"

section \<open>Images\<close>

primrec std_type :: "std_rdata \<Rightarrow> uint16" where
    "std_type RR_ANY = TypeANY"
  | "std_type (RR_CNAME target) = TypeCNAME"
  | "std_type (RR_HINFO cpu os) = TypeHINFO"
  | "std_type (RR_MB mb) = TypeMB"
  | "std_type (RR_MG mg) = TypeMG"
  | "std_type (RR_MINFO rmail email) = TypeMINFO"
  | "std_type (RR_MR mr) = TypeMR"
  | "std_type (RR_MF mf) = TypeMF"
  | "std_type (RR_MD md) = TypeMD"
  | "std_type (RR_MX preference mx) = TypeMX"
  | "std_type (RR_AFSDB subtype hostname) = TypeAFSDB"
  | "std_type (RR_X25 pSDNAddress) = TypeX25"
  | "std_type (RR_RT preference host) = TypeRT"
  | "std_type (RR_NS ns) = TypeNS"
  | "std_type (RR_PTR ptr) = TypePTR"
  | "std_type (RR_RP mbox txt) = TypeRP"
  | "std_type (RR_SOA ns mbox serial refresh retry expire minttl) = TypeSOA"
  | "std_type (RR_TXT txt) = TypeTXT"
  | "std_type (RR_SPF txt) = TypeSPF"
  | "std_type (RR_AVC txt) = TypeAVC"
  | "std_type (RR_SRV priority wgt port target) = TypeSRV"
  | "std_type (RR_NAPTR ordr preference flags service regexp replacement) = TypeNAPTR"
  | "std_type (RR_CERT ty keyTag algorithm certificate) = TypeCERT"
  | "std_type (RR_DNAME target) = TypeDNAME"
  | "std_type (RR_A a) = TypeA"
  | "std_type (RR_AAAA aaaa) = TypeAAAA"

primrec std_image :: "std_rdata \<Rightarrow> byte list" where
    "std_image RR_ANY = []"
  | "std_image (RR_CNAME target) = wire_name target"
  | "std_image (RR_HINFO cpu os) = wire_text cpu @ wire_text os"
  | "std_image (RR_MB mb) = wire_name mb"
  | "std_image (RR_MG mg) = wire_name mg"
  | "std_image (RR_MINFO rmail email) = wire_name rmail @ wire_name email"
  | "std_image (RR_MR mr) = wire_name mr"
  | "std_image (RR_MF mf) = wire_name mf"
  | "std_image (RR_MD md) = wire_name md"
  | "std_image (RR_MX preference mx) = be_bytes 2 preference @ wire_name mx"
  | "std_image (RR_AFSDB subtype hostname) = be_bytes 2 subtype @ wire_name hostname"
  | "std_image (RR_X25 pSDNAddress) = wire_text pSDNAddress"
  | "std_image (RR_RT preference host) = be_bytes 2 preference @ wire_name host"
  | "std_image (RR_NS ns) = wire_name ns"
  | "std_image (RR_PTR ptr) = wire_name ptr"
  | "std_image (RR_RP mbox txt) = wire_name mbox @ wire_name txt"
  | "std_image (RR_SOA ns mbox serial refresh retry expire minttl) = wire_name ns @
        wire_name mbox @ be_bytes 4 serial @ be_bytes 4 refresh @ be_bytes 4 retry @
        be_bytes 4 expire @ be_bytes 4 minttl"
  | "std_image (RR_TXT txt) = wire_texts txt"
  | "std_image (RR_SPF txt) = wire_texts txt"
  | "std_image (RR_AVC txt) = wire_texts txt"
  | "std_image (RR_SRV priority wgt port target) = be_bytes 2 priority @ be_bytes 2 wgt @
        be_bytes 2 port @ wire_name target"
  | "std_image (RR_NAPTR ordr preference flags service regexp replacement) = be_bytes 2 ordr @
        be_bytes 2 preference @ wire_text flags @ wire_text service @ wire_text regexp @
        wire_name replacement"
  | "std_image (RR_CERT ty keyTag algorithm certificate) = be_bytes 2 ty @ be_bytes 2 keyTag @
        be_bytes 1 algorithm @ base64.bytes certificate"
  | "std_image (RR_DNAME target) = wire_name target"
  | "std_image (RR_A a) = ip4 a"
  | "std_image (RR_AAAA aaaa) = aaaa"

primrec std_valid :: "std_rdata \<Rightarrow> bool" where
    "std_valid RR_ANY \<longleftrightarrow> True"
  | "std_valid (RR_CNAME target) \<longleftrightarrow> valid_name target"
  | "std_valid (RR_HINFO cpu os) \<longleftrightarrow> valid_text cpu \<and> valid_text os"
  | "std_valid (RR_MB mb) \<longleftrightarrow> valid_name mb"
  | "std_valid (RR_MG mg) \<longleftrightarrow> valid_name mg"
  | "std_valid (RR_MINFO rmail email) \<longleftrightarrow> valid_name rmail \<and> valid_name email"
  | "std_valid (RR_MR mr) \<longleftrightarrow> valid_name mr"
  | "std_valid (RR_MF mf) \<longleftrightarrow> valid_name mf"
  | "std_valid (RR_MD md) \<longleftrightarrow> valid_name md"
  | "std_valid (RR_MX preference mx) \<longleftrightarrow> valid_name mx"
  | "std_valid (RR_AFSDB subtype hostname) \<longleftrightarrow> valid_name hostname"
  | "std_valid (RR_X25 pSDNAddress) \<longleftrightarrow> valid_text pSDNAddress"
  | "std_valid (RR_RT preference host) \<longleftrightarrow> valid_name host"
  | "std_valid (RR_NS ns) \<longleftrightarrow> valid_name ns"
  | "std_valid (RR_PTR ptr) \<longleftrightarrow> valid_name ptr"
  | "std_valid (RR_RP mbox txt) \<longleftrightarrow> valid_name mbox \<and> valid_name txt"
  | "std_valid (RR_SOA ns mbox serial refresh retry expire minttl) \<longleftrightarrow> valid_name ns \<and> valid_name mbox"
  | "std_valid (RR_TXT txt) \<longleftrightarrow> valid_texts txt"
  | "std_valid (RR_SPF txt) \<longleftrightarrow> valid_texts txt"
  | "std_valid (RR_AVC txt) \<longleftrightarrow> valid_texts txt"
  | "std_valid (RR_SRV priority wgt port target) \<longleftrightarrow> valid_name target"
  | "std_valid (RR_NAPTR ordr preference flags service regexp replacement) \<longleftrightarrow> valid_text flags \<and>
        valid_text service \<and> valid_text regexp \<and> valid_name replacement"
  | "std_valid (RR_CERT ty keyTag algorithm certificate) \<longleftrightarrow> base64.canonical certificate"
  | "std_valid (RR_DNAME target) \<longleftrightarrow> valid_name target"
  | "std_valid (RR_A a) \<longleftrightarrow> To4 a \<noteq> None"
  | "std_valid (RR_AAAA aaaa) \<longleftrightarrow> length aaaa = 16"

text \<open>An IPv4 address is read back in its short form.\<close>

primrec std_norm :: "std_rdata \<Rightarrow> std_rdata" where
    "std_norm RR_ANY = RR_ANY"
  | "std_norm (RR_CNAME target) = RR_CNAME target"
  | "std_norm (RR_HINFO cpu os) = RR_HINFO cpu os"
  | "std_norm (RR_MB mb) = RR_MB mb"
  | "std_norm (RR_MG mg) = RR_MG mg"
  | "std_norm (RR_MINFO rmail email) = RR_MINFO rmail email"
  | "std_norm (RR_MR mr) = RR_MR mr"
  | "std_norm (RR_MF mf) = RR_MF mf"
  | "std_norm (RR_MD md) = RR_MD md"
  | "std_norm (RR_MX preference mx) = RR_MX preference mx"
  | "std_norm (RR_AFSDB subtype hostname) = RR_AFSDB subtype hostname"
  | "std_norm (RR_X25 pSDNAddress) = RR_X25 pSDNAddress"
  | "std_norm (RR_RT preference host) = RR_RT preference host"
  | "std_norm (RR_NS ns) = RR_NS ns"
  | "std_norm (RR_PTR ptr) = RR_PTR ptr"
  | "std_norm (RR_RP mbox txt) = RR_RP mbox txt"
  | "std_norm (RR_SOA ns mbox serial refresh retry expire minttl) =
        RR_SOA ns mbox serial refresh retry expire minttl"
  | "std_norm (RR_TXT txt) = RR_TXT txt"
  | "std_norm (RR_SPF txt) = RR_SPF txt"
  | "std_norm (RR_AVC txt) = RR_AVC txt"
  | "std_norm (RR_SRV priority wgt port target) = RR_SRV priority wgt port target"
  | "std_norm (RR_NAPTR ordr preference flags service regexp replacement) =
        RR_NAPTR ordr preference flags service regexp replacement"
  | "std_norm (RR_CERT ty keyTag algorithm certificate) = RR_CERT ty keyTag algorithm certificate"
  | "std_norm (RR_DNAME target) = RR_DNAME target"
  | "std_norm (RR_A a) = RR_A (ip4 a)"
  | "std_norm (RR_AAAA aaaa) = RR_AAAA aaaa"

lemmas std_packers =
    pack_ANY_def pack_CNAME_def pack_HINFO_def pack_MB_def pack_MG_def pack_MINFO_def pack_MR_def
    pack_MF_def pack_MD_def pack_MX_def pack_AFSDB_def pack_X25_def pack_RT_def pack_NS_def
    pack_PTR_def pack_RP_def pack_SOA_def pack_TXT_def pack_SPF_def pack_AVC_def pack_SRV_def
    pack_NAPTR_def pack_CERT_def pack_DNAME_def pack_A_def pack_AAAA_def

lemmas std_unpacks =
    unpackANY_def unpackCNAME_def unpackHINFO_def unpackMB_def unpackMG_def unpackMINFO_def
    unpackMR_def unpackMF_def unpackMD_def unpackMX_def unpackAFSDB_def unpackX25_def unpackRT_def
    unpackNS_def unpackPTR_def unpackRP_def unpackSOA_def unpackTXT_def unpackSPF_def
    unpackAVC_def unpackSRV_def unpackNAPTR_def unpackCERT_def unpackDNAME_def unpackA_def
    unpackAAAA_def

section \<open>Packing\<close>

lemma std_pack_emit:
  "std_valid d \<Longrightarrow> valid_name (Name h) \<Longrightarrow> pcomp b = None \<Longrightarrow> fresh b \<Longrightarrow>
   fits (wire_header h @ std_image d) b \<Longrightarrow>
   pack_std d h False b =
    Ok (h\<lparr>Rdlength := of_nat (length (std_image d))\<rparr>, emit (wire_header h @ std_image d) b)"
  by (cases d; hypsubst; (unfold pack_std.simps std_image.simps std_valid.simps std_packers)?;
      rule pack_record_emit; (assumption | (intro record_writes; simp add: field_writes del:
        One_nat_def)))

section \<open>Unpacking\<close>

text \<open>The unpacker of a struct.\<close>

primrec std_unpack :: "std_rdata \<Rightarrow> RR_Header \<Rightarrow> byte list \<Rightarrow> nat \<Rightarrow> (std_rdata \<times> nat) outcome" where
    "std_unpack RR_ANY = unpackANY"
  | "std_unpack (RR_CNAME target) = unpackCNAME"
  | "std_unpack (RR_HINFO cpu os) = unpackHINFO"
  | "std_unpack (RR_MB mb) = unpackMB"
  | "std_unpack (RR_MG mg) = unpackMG"
  | "std_unpack (RR_MINFO rmail email) = unpackMINFO"
  | "std_unpack (RR_MR mr) = unpackMR"
  | "std_unpack (RR_MF mf) = unpackMF"
  | "std_unpack (RR_MD md) = unpackMD"
  | "std_unpack (RR_MX preference mx) = unpackMX"
  | "std_unpack (RR_AFSDB subtype hostname) = unpackAFSDB"
  | "std_unpack (RR_X25 pSDNAddress) = unpackX25"
  | "std_unpack (RR_RT preference host) = unpackRT"
  | "std_unpack (RR_NS ns) = unpackNS"
  | "std_unpack (RR_PTR ptr) = unpackPTR"
  | "std_unpack (RR_RP mbox txt) = unpackRP"
  | "std_unpack (RR_SOA ns mbox serial refresh retry expire minttl) = unpackSOA"
  | "std_unpack (RR_TXT txt) = unpackTXT"
  | "std_unpack (RR_SPF txt) = unpackSPF"
  | "std_unpack (RR_AVC txt) = unpackAVC"
  | "std_unpack (RR_SRV priority wgt port target) = unpackSRV"
  | "std_unpack (RR_NAPTR ordr preference flags service regexp replacement) = unpackNAPTR"
  | "std_unpack (RR_CERT ty keyTag algorithm certificate) = unpackCERT"
  | "std_unpack (RR_DNAME target) = unpackDNAME"
  | "std_unpack (RR_A a) = unpackA"
  | "std_unpack (RR_AAAA aaaa) = unpackAAAA"

lemma std_reads:
  "std_valid d \<Longrightarrow> bytes_at msg off (std_image d) \<Longrightarrow>
   length msg = off + length (std_image d) \<Longrightarrow>
   unat (Rdlength h) = length (std_image d) \<Longrightarrow>
   std_unpack d h msg off = Ok (std_norm d, length msg)"
  by (cases d; clarsimp simp: bytes_at_append;
     simp add: std_unpackers_def std_unpacks field_reads noRdata_iff Let_def add_ac)

lemma std_listed:
  "std_type d \<noteq> TypeNone \<Longrightarrow> (std_type d, std_unpack d) \<in> set std_unpackers"
  by (cases d) (simp_all add: std_unpackers_def)

lemma std_inside:
  "(t, u) \<in> set std_unpackers \<Longrightarrow> off \<le> length msg \<Longrightarrow>
     length msg \<le> off + unat (Rdlength h) \<Longrightarrow>
     inside msg off (u h msg off)"
  unfolding std_unpackers_def
  by (simp only: set_simps insert_iff empty_iff prod.inject; elim disjE conjE FalseE;
      hypsubst; auto simp: std_unpacks Let_def intro!: inside_rules)

end
