(* ===== verification/Wire_RR_Sec.thy ===== *)
theory Wire_RR_Sec
  imports Wire_Header
begin

text \<open>
  The packers and unpackers of \<open>zmsg.go\<close> for the records of DNSSEC: \<open>pack_T\<close> is the method \<open>pack\<close> of
  the struct \<open>T\<close>, \<open>unpackT\<close> the function of that name.  A packer gets the header and the fields of the
  record and returns the header with its new \<open>Rdlength\<close>; an unpacker returns the fields, the fields
  behind the end of the data being zero, and the caller attaches the header \<open>h\<close> to them.

  \<open>sec_image\<close> is the wire image of the fields, \<open>sec_valid\<close> says which fields have one.  Every packer
  writes the image (\<open>sec_pack_emit\<close>), every unpacker reads it back (\<open>sec_reads\<close>) and comes back on all
  bytes (\<open>sec_inside\<close>).
\<close>

section \<open>Packers\<close>

definition pack_PX ::
    "RR_Header \<Rightarrow> uint16 \<Rightarrow> string \<Rightarrow> string \<Rightarrow>
    bool \<Rightarrow> pbuf \<Rightarrow> (RR_Header \<times> pbuf) outcome" where
  "pack_PX hdr preference map822 mapx400 compress =
     pack_record hdr compress
       [packUint16 preference, PackDomainName map822 False, PackDomainName mapx400 False]"

definition pack_GPOS ::
    "RR_Header \<Rightarrow> string \<Rightarrow> string \<Rightarrow> string \<Rightarrow>
    bool \<Rightarrow> pbuf \<Rightarrow> (RR_Header \<times> pbuf) outcome" where
  "pack_GPOS hdr longitude latitude altitude compress =
     pack_record hdr compress
       [packString longitude, packString latitude, packString altitude]"

definition pack_LOC ::
    "RR_Header \<Rightarrow> byte \<Rightarrow> byte \<Rightarrow> byte \<Rightarrow>
    byte \<Rightarrow> uint32 \<Rightarrow> uint32 \<Rightarrow> uint32 \<Rightarrow>
    bool \<Rightarrow> pbuf \<Rightarrow> (RR_Header \<times> pbuf) outcome" where
  "pack_LOC hdr version siz horizPre vertPre latitude longitude altitude compress =
     pack_record hdr compress
       [packUint8 version, packUint8 siz, packUint8 horizPre, packUint8 vertPre,
        packUint32 latitude, packUint32 longitude, packUint32 altitude]"

definition pack_SIG ::
    "RR_Header \<Rightarrow> uint16 \<Rightarrow> byte \<Rightarrow> byte \<Rightarrow>
    uint32 \<Rightarrow> uint32 \<Rightarrow> uint32 \<Rightarrow> uint16 \<Rightarrow>
    string \<Rightarrow> string \<Rightarrow> bool \<Rightarrow> pbuf \<Rightarrow>
    (RR_Header \<times> pbuf) outcome" where
  "pack_SIG hdr typeCovered algorithm labels origTtl expiration inception keyTag signerName
        signature compress =
     pack_record hdr compress
       [packUint16 typeCovered, packUint8 algorithm, packUint8 labels, packUint32 origTtl,
        packUint32 expiration, packUint32 inception, packUint16 keyTag,
        PackDomainName signerName False, packStringBase64 signature]"

definition pack_RRSIG ::
    "RR_Header \<Rightarrow> uint16 \<Rightarrow> byte \<Rightarrow> byte \<Rightarrow>
    uint32 \<Rightarrow> uint32 \<Rightarrow> uint32 \<Rightarrow> uint16 \<Rightarrow>
    string \<Rightarrow> string \<Rightarrow> bool \<Rightarrow> pbuf \<Rightarrow>
    (RR_Header \<times> pbuf) outcome" where
  "pack_RRSIG hdr typeCovered algorithm labels origTtl expiration inception keyTag signerName
        signature compress =
     pack_record hdr compress
       [packUint16 typeCovered, packUint8 algorithm, packUint8 labels, packUint32 origTtl,
        packUint32 expiration, packUint32 inception, packUint16 keyTag,
        PackDomainName signerName False, packStringBase64 signature]"

definition pack_NSEC ::
    "RR_Header \<Rightarrow> string \<Rightarrow> uint16 list \<Rightarrow> bool \<Rightarrow>
    pbuf \<Rightarrow> (RR_Header \<times> pbuf) outcome" where
  "pack_NSEC hdr nextDomain typeBitMap compress =
     pack_record hdr compress
       [PackDomainName nextDomain False, packDataNsec typeBitMap]"

definition pack_DLV ::
    "RR_Header \<Rightarrow> uint16 \<Rightarrow> byte \<Rightarrow> byte \<Rightarrow>
    string \<Rightarrow> bool \<Rightarrow> pbuf \<Rightarrow> (RR_Header \<times> pbuf) outcome" where
  "pack_DLV hdr keyTag algorithm digestType digest compress =
     pack_record hdr compress
       [packUint16 keyTag, packUint8 algorithm, packUint8 digestType, packStringHex digest]"

definition pack_CDS ::
    "RR_Header \<Rightarrow> uint16 \<Rightarrow> byte \<Rightarrow> byte \<Rightarrow>
    string \<Rightarrow> bool \<Rightarrow> pbuf \<Rightarrow> (RR_Header \<times> pbuf) outcome" where
  "pack_CDS hdr keyTag algorithm digestType digest compress =
     pack_record hdr compress
       [packUint16 keyTag, packUint8 algorithm, packUint8 digestType, packStringHex digest]"

definition pack_DS ::
    "RR_Header \<Rightarrow> uint16 \<Rightarrow> byte \<Rightarrow> byte \<Rightarrow>
    string \<Rightarrow> bool \<Rightarrow> pbuf \<Rightarrow> (RR_Header \<times> pbuf) outcome" where
  "pack_DS hdr keyTag algorithm digestType digest compress =
     pack_record hdr compress
       [packUint16 keyTag, packUint8 algorithm, packUint8 digestType, packStringHex digest]"

definition pack_KX ::
    "RR_Header \<Rightarrow> uint16 \<Rightarrow> string \<Rightarrow> bool \<Rightarrow>
    pbuf \<Rightarrow> (RR_Header \<times> pbuf) outcome" where
  "pack_KX hdr preference exchanger compress =
     pack_record hdr compress
       [packUint16 preference, PackDomainName exchanger False]"

definition pack_TA ::
    "RR_Header \<Rightarrow> uint16 \<Rightarrow> byte \<Rightarrow> byte \<Rightarrow>
    string \<Rightarrow> bool \<Rightarrow> pbuf \<Rightarrow> (RR_Header \<times> pbuf) outcome" where
  "pack_TA hdr keyTag algorithm digestType digest compress =
     pack_record hdr compress
       [packUint16 keyTag, packUint8 algorithm, packUint8 digestType, packStringHex digest]"

definition pack_TALINK ::
    "RR_Header \<Rightarrow> string \<Rightarrow> string \<Rightarrow> bool \<Rightarrow>
    pbuf \<Rightarrow> (RR_Header \<times> pbuf) outcome" where
  "pack_TALINK hdr previousName nextName compress =
     pack_record hdr compress
       [PackDomainName previousName False, PackDomainName nextName False]"

definition pack_SSHFP ::
    "RR_Header \<Rightarrow> byte \<Rightarrow> byte \<Rightarrow> string \<Rightarrow>
    bool \<Rightarrow> pbuf \<Rightarrow> (RR_Header \<times> pbuf) outcome" where
  "pack_SSHFP hdr algorithm ty fingerPrint compress =
     pack_record hdr compress
       [packUint8 algorithm, packUint8 ty, packStringHex fingerPrint]"

definition pack_KEY ::
    "RR_Header \<Rightarrow> uint16 \<Rightarrow> byte \<Rightarrow> byte \<Rightarrow>
    string \<Rightarrow> bool \<Rightarrow> pbuf \<Rightarrow> (RR_Header \<times> pbuf) outcome" where
  "pack_KEY hdr flags protocol algorithm publicKey compress =
     pack_record hdr compress
       [packUint16 flags, packUint8 protocol, packUint8 algorithm, packStringBase64 publicKey]"

definition pack_CDNSKEY ::
    "RR_Header \<Rightarrow> uint16 \<Rightarrow> byte \<Rightarrow> byte \<Rightarrow>
    string \<Rightarrow> bool \<Rightarrow> pbuf \<Rightarrow> (RR_Header \<times> pbuf) outcome" where
  "pack_CDNSKEY hdr flags protocol algorithm publicKey compress =
     pack_record hdr compress
       [packUint16 flags, packUint8 protocol, packUint8 algorithm, packStringBase64 publicKey]"

definition pack_DNSKEY ::
    "RR_Header \<Rightarrow> uint16 \<Rightarrow> byte \<Rightarrow> byte \<Rightarrow>
    string \<Rightarrow> bool \<Rightarrow> pbuf \<Rightarrow> (RR_Header \<times> pbuf) outcome" where
  "pack_DNSKEY hdr flags protocol algorithm publicKey compress =
     pack_record hdr compress
       [packUint16 flags, packUint8 protocol, packUint8 algorithm, packStringBase64 publicKey]"

definition pack_RKEY ::
    "RR_Header \<Rightarrow> uint16 \<Rightarrow> byte \<Rightarrow> byte \<Rightarrow>
    string \<Rightarrow> bool \<Rightarrow> pbuf \<Rightarrow> (RR_Header \<times> pbuf) outcome" where
  "pack_RKEY hdr flags protocol algorithm publicKey compress =
     pack_record hdr compress
       [packUint16 flags, packUint8 protocol, packUint8 algorithm, packStringBase64 publicKey]"

definition pack_NSAPPTR ::
    "RR_Header \<Rightarrow> string \<Rightarrow> bool \<Rightarrow> pbuf \<Rightarrow>
    (RR_Header \<times> pbuf) outcome" where
  "pack_NSAPPTR hdr ptr compress =
     pack_record hdr compress
       [PackDomainName ptr False]"

definition pack_NSEC3 ::
    "RR_Header \<Rightarrow> byte \<Rightarrow> byte \<Rightarrow> uint16 \<Rightarrow>
    byte \<Rightarrow> string \<Rightarrow> byte \<Rightarrow> string \<Rightarrow>
    uint16 list \<Rightarrow> bool \<Rightarrow> pbuf \<Rightarrow>
    (RR_Header \<times> pbuf) outcome" where
  "pack_NSEC3 hdr hsh flags iterations saltLength salt hashLength nextDomain typeBitMap compress =
     pack_record hdr compress
       [packUint8 hsh, packUint8 flags, packUint16 iterations, packUint8 saltLength,
        if salt = ''-'' then Ok else packStringHex salt, packUint8 hashLength,
        packStringBase32 nextDomain, packDataNsec typeBitMap]"

definition pack_NSEC3PARAM ::
    "RR_Header \<Rightarrow> byte \<Rightarrow> byte \<Rightarrow> uint16 \<Rightarrow>
    byte \<Rightarrow> string \<Rightarrow> bool \<Rightarrow> pbuf \<Rightarrow>
    (RR_Header \<times> pbuf) outcome" where
  "pack_NSEC3PARAM hdr hsh flags iterations saltLength salt compress =
     pack_record hdr compress
       [packUint8 hsh, packUint8 flags, packUint16 iterations, packUint8 saltLength,
        if salt = ''-'' then Ok else packStringHex salt]"

text \<open>The method \<open>pack\<close> of the interface \<open>RR\<close>.\<close>

primrec pack_sec :: "sec_rdata \<Rightarrow> RR_Header \<Rightarrow> bool \<Rightarrow> pbuf \<Rightarrow> (RR_Header \<times> pbuf) outcome" where
    "pack_sec (RR_PX preference map822 mapx400) h = pack_PX h preference map822 mapx400"
  | "pack_sec (RR_GPOS longitude latitude altitude) h = pack_GPOS h longitude latitude altitude"
  | "pack_sec (RR_LOC version siz horizPre vertPre latitude longitude altitude) h =
        pack_LOC h version siz horizPre vertPre latitude longitude altitude"
  | "pack_sec (RR_SIG typeCovered algorithm labels origTtl expiration inception keyTag signerName
        signature) h = pack_SIG h typeCovered algorithm labels origTtl expiration inception keyTag
        signerName signature"
  | "pack_sec (RR_RRSIG typeCovered algorithm labels origTtl expiration inception keyTag
        signerName signature) h = pack_RRSIG h typeCovered algorithm labels origTtl expiration
        inception keyTag signerName signature"
  | "pack_sec (RR_NSEC nextDomain typeBitMap) h = pack_NSEC h nextDomain typeBitMap"
  | "pack_sec (RR_DLV keyTag algorithm digestType digest) h =
        pack_DLV h keyTag algorithm digestType digest"
  | "pack_sec (RR_CDS keyTag algorithm digestType digest) h =
        pack_CDS h keyTag algorithm digestType digest"
  | "pack_sec (RR_DS keyTag algorithm digestType digest) h =
        pack_DS h keyTag algorithm digestType digest"
  | "pack_sec (RR_KX preference exchanger) h = pack_KX h preference exchanger"
  | "pack_sec (RR_TA keyTag algorithm digestType digest) h =
        pack_TA h keyTag algorithm digestType digest"
  | "pack_sec (RR_TALINK previousName nextName) h = pack_TALINK h previousName nextName"
  | "pack_sec (RR_SSHFP algorithm ty fingerPrint) h = pack_SSHFP h algorithm ty fingerPrint"
  | "pack_sec (RR_KEY flags protocol algorithm publicKey) h =
        pack_KEY h flags protocol algorithm publicKey"
  | "pack_sec (RR_CDNSKEY flags protocol algorithm publicKey) h =
        pack_CDNSKEY h flags protocol algorithm publicKey"
  | "pack_sec (RR_DNSKEY flags protocol algorithm publicKey) h =
        pack_DNSKEY h flags protocol algorithm publicKey"
  | "pack_sec (RR_RKEY flags protocol algorithm publicKey) h =
        pack_RKEY h flags protocol algorithm publicKey"
  | "pack_sec (RR_NSAPPTR ptr) h = pack_NSAPPTR h ptr"
  | "pack_sec (RR_NSEC3 hsh flags iterations saltLength salt hashLength nextDomain typeBitMap) h =
        pack_NSEC3 h hsh flags iterations saltLength salt hashLength nextDomain typeBitMap"
  | "pack_sec (RR_NSEC3PARAM hsh flags iterations saltLength salt) h =
        pack_NSEC3PARAM h hsh flags iterations saltLength salt"

section \<open>Unpackers\<close>

definition unpackPX :: "RR_Header \<Rightarrow> byte list \<Rightarrow> nat \<Rightarrow> (sec_rdata \<times> nat) outcome" where
  "unpackPX h msg off =
     (if noRdata h then Ok (RR_PX 0 '''' '''', off)
      else
        obind (unpackUint16 msg off) (\<lambda>(preference, off).
          if off = length msg then Ok (RR_PX preference '''' '''', off) else
        obind (UnpackDomainName msg off) (\<lambda>(map822, off).
          if off = length msg then Ok (RR_PX preference map822 '''', off) else
        obind (UnpackDomainName msg off) (\<lambda>(mapx400, off).
          Ok (RR_PX preference map822 mapx400, off)))))"

definition unpackGPOS :: "RR_Header \<Rightarrow> byte list \<Rightarrow> nat \<Rightarrow> (sec_rdata \<times> nat) outcome" where
  "unpackGPOS h msg off =
     (if noRdata h then Ok (RR_GPOS '''' '''' '''', off)
      else
        obind (unpackString msg off) (\<lambda>(longitude, off).
          if off = length msg then Ok (RR_GPOS longitude '''' '''', off) else
        obind (unpackString msg off) (\<lambda>(latitude, off).
          if off = length msg then Ok (RR_GPOS longitude latitude '''', off) else
        obind (unpackString msg off) (\<lambda>(altitude, off).
          Ok (RR_GPOS longitude latitude altitude, off)))))"

definition unpackLOC :: "RR_Header \<Rightarrow> byte list \<Rightarrow> nat \<Rightarrow> (sec_rdata \<times> nat) outcome" where
  "unpackLOC h msg off =
     (if noRdata h then Ok (RR_LOC 0 0 0 0 0 0 0, off)
      else
        obind (unpackUint8 msg off) (\<lambda>(version, off).
          if off = length msg then Ok (RR_LOC version 0 0 0 0 0 0, off) else
        obind (unpackUint8 msg off) (\<lambda>(siz, off).
          if off = length msg then Ok (RR_LOC version siz 0 0 0 0 0, off) else
        obind (unpackUint8 msg off) (\<lambda>(horizPre, off).
          if off = length msg then Ok (RR_LOC version siz horizPre 0 0 0 0, off) else
        obind (unpackUint8 msg off) (\<lambda>(vertPre, off).
          if off = length msg then Ok (RR_LOC version siz horizPre vertPre 0 0 0, off) else
        obind (unpackUint32 msg off) (\<lambda>(latitude, off).
          if off = length msg then Ok (RR_LOC version siz horizPre vertPre latitude 0 0, off) else
        obind (unpackUint32 msg off) (\<lambda>(longitude, off).
          if off = length msg then Ok (RR_LOC version siz horizPre vertPre latitude longitude 0,
        off) else
        obind (unpackUint32 msg off) (\<lambda>(altitude, off).
          Ok (RR_LOC version siz horizPre vertPre latitude longitude altitude, off)))))))))"

definition unpackSIG :: "RR_Header \<Rightarrow> byte list \<Rightarrow> nat \<Rightarrow> (sec_rdata \<times> nat) outcome" where
  "unpackSIG h msg off =
     (if noRdata h then Ok (RR_SIG 0 0 0 0 0 0 0 '''' '''', off)
      else
        let rdStart = off in
        obind (unpackUint16 msg off) (\<lambda>(typeCovered, off).
          if off = length msg then Ok (RR_SIG typeCovered 0 0 0 0 0 0 '''' '''', off) else
        obind (unpackUint8 msg off) (\<lambda>(algorithm, off).
          if off = length msg then Ok (RR_SIG typeCovered algorithm 0 0 0 0 0 '''' '''', off) else
        obind (unpackUint8 msg off) (\<lambda>(labels, off).
          if off = length msg then Ok (RR_SIG typeCovered algorithm labels 0 0 0 0 '''' '''', off) else
        obind (unpackUint32 msg off) (\<lambda>(origTtl, off).
          if off = length msg then Ok (RR_SIG typeCovered algorithm labels origTtl 0 0 0 ''''
        '''', off) else
        obind (unpackUint32 msg off) (\<lambda>(expiration, off).
          if off = length msg then Ok (RR_SIG typeCovered algorithm labels origTtl expiration 0 0
        '''' '''', off) else
        obind (unpackUint32 msg off) (\<lambda>(inception, off).
          if off = length msg then Ok (RR_SIG typeCovered algorithm labels origTtl expiration
        inception 0 '''' '''', off) else
        obind (unpackUint16 msg off) (\<lambda>(keyTag, off).
          if off = length msg then Ok (RR_SIG typeCovered algorithm labels origTtl expiration
        inception keyTag '''' '''', off) else
        obind (UnpackDomainName msg off) (\<lambda>(signerName, off).
          if off = length msg then Ok (RR_SIG typeCovered algorithm labels origTtl expiration
        inception keyTag signerName '''', off) else
        obind (unpackStringBase64 msg off (rdStart + unat (Rdlength h))) (\<lambda>(signature, off).
          Ok (RR_SIG typeCovered algorithm labels origTtl expiration inception keyTag signerName
        signature, off)))))))))))"

definition unpackRRSIG :: "RR_Header \<Rightarrow> byte list \<Rightarrow> nat \<Rightarrow> (sec_rdata \<times> nat) outcome" where
  "unpackRRSIG h msg off =
     (if noRdata h then Ok (RR_RRSIG 0 0 0 0 0 0 0 '''' '''', off)
      else
        let rdStart = off in
        obind (unpackUint16 msg off) (\<lambda>(typeCovered, off).
          if off = length msg then Ok (RR_RRSIG typeCovered 0 0 0 0 0 0 '''' '''', off) else
        obind (unpackUint8 msg off) (\<lambda>(algorithm, off).
          if off = length msg then Ok (RR_RRSIG typeCovered algorithm 0 0 0 0 0 '''' '''', off) else
        obind (unpackUint8 msg off) (\<lambda>(labels, off).
          if off = length msg then Ok (RR_RRSIG typeCovered algorithm labels 0 0 0 0 '''' '''',
        off) else
        obind (unpackUint32 msg off) (\<lambda>(origTtl, off).
          if off = length msg then Ok (RR_RRSIG typeCovered algorithm labels origTtl 0 0 0 ''''
        '''', off) else
        obind (unpackUint32 msg off) (\<lambda>(expiration, off).
          if off = length msg then Ok (RR_RRSIG typeCovered algorithm labels origTtl expiration 0
        0 '''' '''', off) else
        obind (unpackUint32 msg off) (\<lambda>(inception, off).
          if off = length msg then Ok (RR_RRSIG typeCovered algorithm labels origTtl expiration
        inception 0 '''' '''', off) else
        obind (unpackUint16 msg off) (\<lambda>(keyTag, off).
          if off = length msg then Ok (RR_RRSIG typeCovered algorithm labels origTtl expiration
        inception keyTag '''' '''', off) else
        obind (UnpackDomainName msg off) (\<lambda>(signerName, off).
          if off = length msg then Ok (RR_RRSIG typeCovered algorithm labels origTtl expiration
        inception keyTag signerName '''', off) else
        obind (unpackStringBase64 msg off (rdStart + unat (Rdlength h))) (\<lambda>(signature, off).
          Ok (RR_RRSIG typeCovered algorithm labels origTtl expiration inception keyTag signerName
        signature, off)))))))))))"

definition unpackNSEC :: "RR_Header \<Rightarrow> byte list \<Rightarrow> nat \<Rightarrow> (sec_rdata \<times> nat) outcome" where
  "unpackNSEC h msg off =
     (if noRdata h then Ok (RR_NSEC '''' [], off)
      else
        obind (UnpackDomainName msg off) (\<lambda>(nextDomain, off).
          if off = length msg then Ok (RR_NSEC nextDomain [], off) else
        obind (unpackDataNsec msg off) (\<lambda>(typeBitMap, off).
          Ok (RR_NSEC nextDomain typeBitMap, off))))"

definition unpackDLV :: "RR_Header \<Rightarrow> byte list \<Rightarrow> nat \<Rightarrow> (sec_rdata \<times> nat) outcome" where
  "unpackDLV h msg off =
     (if noRdata h then Ok (RR_DLV 0 0 0 '''', off)
      else
        let rdStart = off in
        obind (unpackUint16 msg off) (\<lambda>(keyTag, off).
          if off = length msg then Ok (RR_DLV keyTag 0 0 '''', off) else
        obind (unpackUint8 msg off) (\<lambda>(algorithm, off).
          if off = length msg then Ok (RR_DLV keyTag algorithm 0 '''', off) else
        obind (unpackUint8 msg off) (\<lambda>(digestType, off).
          if off = length msg then Ok (RR_DLV keyTag algorithm digestType '''', off) else
        obind (unpackStringHex msg off (rdStart + unat (Rdlength h))) (\<lambda>(digest, off).
          Ok (RR_DLV keyTag algorithm digestType digest, off))))))"

definition unpackCDS :: "RR_Header \<Rightarrow> byte list \<Rightarrow> nat \<Rightarrow> (sec_rdata \<times> nat) outcome" where
  "unpackCDS h msg off =
     (if noRdata h then Ok (RR_CDS 0 0 0 '''', off)
      else
        let rdStart = off in
        obind (unpackUint16 msg off) (\<lambda>(keyTag, off).
          if off = length msg then Ok (RR_CDS keyTag 0 0 '''', off) else
        obind (unpackUint8 msg off) (\<lambda>(algorithm, off).
          if off = length msg then Ok (RR_CDS keyTag algorithm 0 '''', off) else
        obind (unpackUint8 msg off) (\<lambda>(digestType, off).
          if off = length msg then Ok (RR_CDS keyTag algorithm digestType '''', off) else
        obind (unpackStringHex msg off (rdStart + unat (Rdlength h))) (\<lambda>(digest, off).
          Ok (RR_CDS keyTag algorithm digestType digest, off))))))"

definition unpackDS :: "RR_Header \<Rightarrow> byte list \<Rightarrow> nat \<Rightarrow> (sec_rdata \<times> nat) outcome" where
  "unpackDS h msg off =
     (if noRdata h then Ok (RR_DS 0 0 0 '''', off)
      else
        let rdStart = off in
        obind (unpackUint16 msg off) (\<lambda>(keyTag, off).
          if off = length msg then Ok (RR_DS keyTag 0 0 '''', off) else
        obind (unpackUint8 msg off) (\<lambda>(algorithm, off).
          if off = length msg then Ok (RR_DS keyTag algorithm 0 '''', off) else
        obind (unpackUint8 msg off) (\<lambda>(digestType, off).
          if off = length msg then Ok (RR_DS keyTag algorithm digestType '''', off) else
        obind (unpackStringHex msg off (rdStart + unat (Rdlength h))) (\<lambda>(digest, off).
          Ok (RR_DS keyTag algorithm digestType digest, off))))))"

definition unpackKX :: "RR_Header \<Rightarrow> byte list \<Rightarrow> nat \<Rightarrow> (sec_rdata \<times> nat) outcome" where
  "unpackKX h msg off =
     (if noRdata h then Ok (RR_KX 0 '''', off)
      else
        obind (unpackUint16 msg off) (\<lambda>(preference, off).
          if off = length msg then Ok (RR_KX preference '''', off) else
        obind (UnpackDomainName msg off) (\<lambda>(exchanger, off).
          Ok (RR_KX preference exchanger, off))))"

definition unpackTA :: "RR_Header \<Rightarrow> byte list \<Rightarrow> nat \<Rightarrow> (sec_rdata \<times> nat) outcome" where
  "unpackTA h msg off =
     (if noRdata h then Ok (RR_TA 0 0 0 '''', off)
      else
        let rdStart = off in
        obind (unpackUint16 msg off) (\<lambda>(keyTag, off).
          if off = length msg then Ok (RR_TA keyTag 0 0 '''', off) else
        obind (unpackUint8 msg off) (\<lambda>(algorithm, off).
          if off = length msg then Ok (RR_TA keyTag algorithm 0 '''', off) else
        obind (unpackUint8 msg off) (\<lambda>(digestType, off).
          if off = length msg then Ok (RR_TA keyTag algorithm digestType '''', off) else
        obind (unpackStringHex msg off (rdStart + unat (Rdlength h))) (\<lambda>(digest, off).
          Ok (RR_TA keyTag algorithm digestType digest, off))))))"

definition unpackTALINK :: "RR_Header \<Rightarrow> byte list \<Rightarrow> nat \<Rightarrow> (sec_rdata \<times> nat) outcome" where
  "unpackTALINK h msg off =
     (if noRdata h then Ok (RR_TALINK '''' '''', off)
      else
        obind (UnpackDomainName msg off) (\<lambda>(previousName, off).
          if off = length msg then Ok (RR_TALINK previousName '''', off) else
        obind (UnpackDomainName msg off) (\<lambda>(nextName, off).
          Ok (RR_TALINK previousName nextName, off))))"

definition unpackSSHFP :: "RR_Header \<Rightarrow> byte list \<Rightarrow> nat \<Rightarrow> (sec_rdata \<times> nat) outcome" where
  "unpackSSHFP h msg off =
     (if noRdata h then Ok (RR_SSHFP 0 0 '''', off)
      else
        let rdStart = off in
        obind (unpackUint8 msg off) (\<lambda>(algorithm, off).
          if off = length msg then Ok (RR_SSHFP algorithm 0 '''', off) else
        obind (unpackUint8 msg off) (\<lambda>(ty, off).
          if off = length msg then Ok (RR_SSHFP algorithm ty '''', off) else
        obind (unpackStringHex msg off (rdStart + unat (Rdlength h))) (\<lambda>(fingerPrint, off).
          Ok (RR_SSHFP algorithm ty fingerPrint, off)))))"

definition unpackKEY :: "RR_Header \<Rightarrow> byte list \<Rightarrow> nat \<Rightarrow> (sec_rdata \<times> nat) outcome" where
  "unpackKEY h msg off =
     (if noRdata h then Ok (RR_KEY 0 0 0 '''', off)
      else
        let rdStart = off in
        obind (unpackUint16 msg off) (\<lambda>(flags, off).
          if off = length msg then Ok (RR_KEY flags 0 0 '''', off) else
        obind (unpackUint8 msg off) (\<lambda>(protocol, off).
          if off = length msg then Ok (RR_KEY flags protocol 0 '''', off) else
        obind (unpackUint8 msg off) (\<lambda>(algorithm, off).
          if off = length msg then Ok (RR_KEY flags protocol algorithm '''', off) else
        obind (unpackStringBase64 msg off (rdStart + unat (Rdlength h))) (\<lambda>(publicKey, off).
          Ok (RR_KEY flags protocol algorithm publicKey, off))))))"

definition unpackCDNSKEY :: "RR_Header \<Rightarrow> byte list \<Rightarrow> nat \<Rightarrow> (sec_rdata \<times> nat) outcome" where
  "unpackCDNSKEY h msg off =
     (if noRdata h then Ok (RR_CDNSKEY 0 0 0 '''', off)
      else
        let rdStart = off in
        obind (unpackUint16 msg off) (\<lambda>(flags, off).
          if off = length msg then Ok (RR_CDNSKEY flags 0 0 '''', off) else
        obind (unpackUint8 msg off) (\<lambda>(protocol, off).
          if off = length msg then Ok (RR_CDNSKEY flags protocol 0 '''', off) else
        obind (unpackUint8 msg off) (\<lambda>(algorithm, off).
          if off = length msg then Ok (RR_CDNSKEY flags protocol algorithm '''', off) else
        obind (unpackStringBase64 msg off (rdStart + unat (Rdlength h))) (\<lambda>(publicKey, off).
          Ok (RR_CDNSKEY flags protocol algorithm publicKey, off))))))"

definition unpackDNSKEY :: "RR_Header \<Rightarrow> byte list \<Rightarrow> nat \<Rightarrow> (sec_rdata \<times> nat) outcome" where
  "unpackDNSKEY h msg off =
     (if noRdata h then Ok (RR_DNSKEY 0 0 0 '''', off)
      else
        let rdStart = off in
        obind (unpackUint16 msg off) (\<lambda>(flags, off).
          if off = length msg then Ok (RR_DNSKEY flags 0 0 '''', off) else
        obind (unpackUint8 msg off) (\<lambda>(protocol, off).
          if off = length msg then Ok (RR_DNSKEY flags protocol 0 '''', off) else
        obind (unpackUint8 msg off) (\<lambda>(algorithm, off).
          if off = length msg then Ok (RR_DNSKEY flags protocol algorithm '''', off) else
        obind (unpackStringBase64 msg off (rdStart + unat (Rdlength h))) (\<lambda>(publicKey, off).
          Ok (RR_DNSKEY flags protocol algorithm publicKey, off))))))"

definition unpackRKEY :: "RR_Header \<Rightarrow> byte list \<Rightarrow> nat \<Rightarrow> (sec_rdata \<times> nat) outcome" where
  "unpackRKEY h msg off =
     (if noRdata h then Ok (RR_RKEY 0 0 0 '''', off)
      else
        let rdStart = off in
        obind (unpackUint16 msg off) (\<lambda>(flags, off).
          if off = length msg then Ok (RR_RKEY flags 0 0 '''', off) else
        obind (unpackUint8 msg off) (\<lambda>(protocol, off).
          if off = length msg then Ok (RR_RKEY flags protocol 0 '''', off) else
        obind (unpackUint8 msg off) (\<lambda>(algorithm, off).
          if off = length msg then Ok (RR_RKEY flags protocol algorithm '''', off) else
        obind (unpackStringBase64 msg off (rdStart + unat (Rdlength h))) (\<lambda>(publicKey, off).
          Ok (RR_RKEY flags protocol algorithm publicKey, off))))))"

definition unpackNSAPPTR :: "RR_Header \<Rightarrow> byte list \<Rightarrow> nat \<Rightarrow> (sec_rdata \<times> nat) outcome" where
  "unpackNSAPPTR h msg off =
     (if noRdata h then Ok (RR_NSAPPTR '''', off)
      else
        obind (UnpackDomainName msg off) (\<lambda>(ptr, off).
          Ok (RR_NSAPPTR ptr, off)))"

definition unpackNSEC3 :: "RR_Header \<Rightarrow> byte list \<Rightarrow> nat \<Rightarrow> (sec_rdata \<times> nat) outcome" where
  "unpackNSEC3 h msg off =
     (if noRdata h then Ok (RR_NSEC3 0 0 0 0 '''' 0 '''' [], off)
      else
        obind (unpackUint8 msg off) (\<lambda>(hsh, off).
          if off = length msg then Ok (RR_NSEC3 hsh 0 0 0 '''' 0 '''' [], off) else
        obind (unpackUint8 msg off) (\<lambda>(flags, off).
          if off = length msg then Ok (RR_NSEC3 hsh flags 0 0 '''' 0 '''' [], off) else
        obind (unpackUint16 msg off) (\<lambda>(iterations, off).
          if off = length msg then Ok (RR_NSEC3 hsh flags iterations 0 '''' 0 '''' [], off) else
        obind (unpackUint8 msg off) (\<lambda>(saltLength, off).
          if off = length msg then Ok (RR_NSEC3 hsh flags iterations saltLength '''' 0 '''' [],
        off) else
        obind (unpackStringHex msg off (off + unat saltLength)) (\<lambda>(salt, off).
        obind (unpackUint8 msg off) (\<lambda>(hashLength, off).
          if off = length msg then Ok (RR_NSEC3 hsh flags iterations saltLength salt hashLength
        '''' [], off) else
        obind (unpackStringBase32 msg off (off + unat hashLength)) (\<lambda>(nextDomain, off).
        obind (unpackDataNsec msg off) (\<lambda>(typeBitMap, off).
          Ok (RR_NSEC3 hsh flags iterations saltLength salt hashLength nextDomain typeBitMap,
        off))))))))))"

definition unpackNSEC3PARAM :: "RR_Header \<Rightarrow> byte list \<Rightarrow> nat \<Rightarrow> (sec_rdata \<times> nat) outcome" where
  "unpackNSEC3PARAM h msg off =
     (if noRdata h then Ok (RR_NSEC3PARAM 0 0 0 0 '''', off)
      else
        obind (unpackUint8 msg off) (\<lambda>(hsh, off).
          if off = length msg then Ok (RR_NSEC3PARAM hsh 0 0 0 '''', off) else
        obind (unpackUint8 msg off) (\<lambda>(flags, off).
          if off = length msg then Ok (RR_NSEC3PARAM hsh flags 0 0 '''', off) else
        obind (unpackUint16 msg off) (\<lambda>(iterations, off).
          if off = length msg then Ok (RR_NSEC3PARAM hsh flags iterations 0 '''', off) else
        obind (unpackUint8 msg off) (\<lambda>(saltLength, off).
          if off = length msg then Ok (RR_NSEC3PARAM hsh flags iterations saltLength '''', off) else
        obind (unpackStringHex msg off (off + unat saltLength)) (\<lambda>(salt, off).
          Ok (RR_NSEC3PARAM hsh flags iterations saltLength salt, off)))))))"

text \<open>The part of the table \<open>typeToUnpack\<close> for these types.\<close>

definition sec_unpackers ::
    "(uint16 \<times> (RR_Header \<Rightarrow> byte list \<Rightarrow> nat \<Rightarrow> (sec_rdata \<times> nat) outcome)) list" where
  "sec_unpackers =
     [(TypePX, unpackPX), (TypeGPOS, unpackGPOS), (TypeLOC, unpackLOC), (TypeSIG, unpackSIG),
      (TypeRRSIG, unpackRRSIG), (TypeNSEC, unpackNSEC), (TypeDLV, unpackDLV),
      (TypeCDS, unpackCDS), (TypeDS, unpackDS), (TypeKX, unpackKX), (TypeTA, unpackTA),
      (TypeTALINK, unpackTALINK), (TypeSSHFP, unpackSSHFP), (TypeKEY, unpackKEY),
      (TypeCDNSKEY, unpackCDNSKEY), (TypeDNSKEY, unpackDNSKEY), (TypeRKEY, unpackRKEY),
      (TypeNSAPPTR, unpackNSAPPTR), (TypeNSEC3, unpackNSEC3), (TypeNSEC3PARAM, unpackNSEC3PARAM)]"

section \<open>Images\<close>

primrec sec_type :: "sec_rdata \<Rightarrow> uint16" where
    "sec_type (RR_PX preference map822 mapx400) = TypePX"
  | "sec_type (RR_GPOS longitude latitude altitude) = TypeGPOS"
  | "sec_type (RR_LOC version siz horizPre vertPre latitude longitude altitude) = TypeLOC"
  | "sec_type (RR_SIG typeCovered algorithm labels origTtl expiration inception keyTag signerName
        signature) = TypeSIG"
  | "sec_type (RR_RRSIG typeCovered algorithm labels origTtl expiration inception keyTag
        signerName signature) = TypeRRSIG"
  | "sec_type (RR_NSEC nextDomain typeBitMap) = TypeNSEC"
  | "sec_type (RR_DLV keyTag algorithm digestType digest) = TypeDLV"
  | "sec_type (RR_CDS keyTag algorithm digestType digest) = TypeCDS"
  | "sec_type (RR_DS keyTag algorithm digestType digest) = TypeDS"
  | "sec_type (RR_KX preference exchanger) = TypeKX"
  | "sec_type (RR_TA keyTag algorithm digestType digest) = TypeTA"
  | "sec_type (RR_TALINK previousName nextName) = TypeTALINK"
  | "sec_type (RR_SSHFP algorithm ty fingerPrint) = TypeSSHFP"
  | "sec_type (RR_KEY flags protocol algorithm publicKey) = TypeKEY"
  | "sec_type (RR_CDNSKEY flags protocol algorithm publicKey) = TypeCDNSKEY"
  | "sec_type (RR_DNSKEY flags protocol algorithm publicKey) = TypeDNSKEY"
  | "sec_type (RR_RKEY flags protocol algorithm publicKey) = TypeRKEY"
  | "sec_type (RR_NSAPPTR ptr) = TypeNSAPPTR"
  | "sec_type (RR_NSEC3 hsh flags iterations saltLength salt hashLength nextDomain typeBitMap) =
        TypeNSEC3"
  | "sec_type (RR_NSEC3PARAM hsh flags iterations saltLength salt) = TypeNSEC3PARAM"

primrec sec_image :: "sec_rdata \<Rightarrow> byte list" where
    "sec_image (RR_PX preference map822 mapx400) = be_bytes 2 preference @ wire_name map822 @
        wire_name mapx400"
  | "sec_image (RR_GPOS longitude latitude altitude) = wire_text longitude @ wire_text latitude @
        wire_text altitude"
  | "sec_image (RR_LOC version siz horizPre vertPre latitude longitude altitude) =
        be_bytes 1 version @ be_bytes 1 siz @ be_bytes 1 horizPre @ be_bytes 1 vertPre @
        be_bytes 4 latitude @ be_bytes 4 longitude @ be_bytes 4 altitude"
  | "sec_image (RR_SIG typeCovered algorithm labels origTtl expiration inception keyTag signerName
        signature) = be_bytes 2 typeCovered @ be_bytes 1 algorithm @ be_bytes 1 labels @
        be_bytes 4 origTtl @ be_bytes 4 expiration @ be_bytes 4 inception @ be_bytes 2 keyTag @
        wire_name signerName @ base64.bytes signature"
  | "sec_image (RR_RRSIG typeCovered algorithm labels origTtl expiration inception keyTag
        signerName signature) = be_bytes 2 typeCovered @ be_bytes 1 algorithm @
        be_bytes 1 labels @ be_bytes 4 origTtl @ be_bytes 4 expiration @ be_bytes 4 inception @
        be_bytes 2 keyTag @ wire_name signerName @ base64.bytes signature"
  | "sec_image (RR_NSEC nextDomain typeBitMap) = wire_name nextDomain @ wire_nsec typeBitMap"
  | "sec_image (RR_DLV keyTag algorithm digestType digest) = be_bytes 2 keyTag @
        be_bytes 1 algorithm @ be_bytes 1 digestType @ hex.bytes digest"
  | "sec_image (RR_CDS keyTag algorithm digestType digest) = be_bytes 2 keyTag @
        be_bytes 1 algorithm @ be_bytes 1 digestType @ hex.bytes digest"
  | "sec_image (RR_DS keyTag algorithm digestType digest) = be_bytes 2 keyTag @
        be_bytes 1 algorithm @ be_bytes 1 digestType @ hex.bytes digest"
  | "sec_image (RR_KX preference exchanger) = be_bytes 2 preference @ wire_name exchanger"
  | "sec_image (RR_TA keyTag algorithm digestType digest) = be_bytes 2 keyTag @
        be_bytes 1 algorithm @ be_bytes 1 digestType @ hex.bytes digest"
  | "sec_image (RR_TALINK previousName nextName) = wire_name previousName @ wire_name nextName"
  | "sec_image (RR_SSHFP algorithm ty fingerPrint) = be_bytes 1 algorithm @ be_bytes 1 ty @
        hex.bytes fingerPrint"
  | "sec_image (RR_KEY flags protocol algorithm publicKey) = be_bytes 2 flags @
        be_bytes 1 protocol @ be_bytes 1 algorithm @ base64.bytes publicKey"
  | "sec_image (RR_CDNSKEY flags protocol algorithm publicKey) = be_bytes 2 flags @
        be_bytes 1 protocol @ be_bytes 1 algorithm @ base64.bytes publicKey"
  | "sec_image (RR_DNSKEY flags protocol algorithm publicKey) = be_bytes 2 flags @
        be_bytes 1 protocol @ be_bytes 1 algorithm @ base64.bytes publicKey"
  | "sec_image (RR_RKEY flags protocol algorithm publicKey) = be_bytes 2 flags @
        be_bytes 1 protocol @ be_bytes 1 algorithm @ base64.bytes publicKey"
  | "sec_image (RR_NSAPPTR ptr) = wire_name ptr"
  | "sec_image (RR_NSEC3 hsh flags iterations saltLength salt hashLength nextDomain typeBitMap) =
        be_bytes 1 hsh @ be_bytes 1 flags @ be_bytes 2 iterations @ be_bytes 1 saltLength @
        hex.bytes salt @ be_bytes 1 hashLength @ base32.bytes nextDomain @ wire_nsec typeBitMap"
  | "sec_image (RR_NSEC3PARAM hsh flags iterations saltLength salt) = be_bytes 1 hsh @
        be_bytes 1 flags @ be_bytes 2 iterations @ be_bytes 1 saltLength @ hex.bytes salt"

primrec sec_valid :: "sec_rdata \<Rightarrow> bool" where
    "sec_valid (RR_PX preference map822 mapx400) \<longleftrightarrow> valid_name map822 \<and> valid_name mapx400"
  | "sec_valid (RR_GPOS longitude latitude altitude) \<longleftrightarrow> valid_text longitude \<and>
        valid_text latitude \<and> valid_text altitude"
  | "sec_valid (RR_LOC version siz horizPre vertPre latitude longitude altitude) \<longleftrightarrow> True"
  | "sec_valid (RR_SIG typeCovered algorithm labels origTtl expiration inception keyTag signerName
        signature) \<longleftrightarrow> valid_name signerName \<and> base64.canonical signature"
  | "sec_valid (RR_RRSIG typeCovered algorithm labels origTtl expiration inception keyTag
        signerName signature) \<longleftrightarrow> valid_name signerName \<and> base64.canonical signature"
  | "sec_valid (RR_NSEC nextDomain typeBitMap) \<longleftrightarrow> valid_name nextDomain \<and> valid_bitmap typeBitMap"
  | "sec_valid (RR_DLV keyTag algorithm digestType digest) \<longleftrightarrow> hex.canonical digest"
  | "sec_valid (RR_CDS keyTag algorithm digestType digest) \<longleftrightarrow> hex.canonical digest"
  | "sec_valid (RR_DS keyTag algorithm digestType digest) \<longleftrightarrow> hex.canonical digest"
  | "sec_valid (RR_KX preference exchanger) \<longleftrightarrow> valid_name exchanger"
  | "sec_valid (RR_TA keyTag algorithm digestType digest) \<longleftrightarrow> hex.canonical digest"
  | "sec_valid (RR_TALINK previousName nextName) \<longleftrightarrow> valid_name previousName \<and> valid_name nextName"
  | "sec_valid (RR_SSHFP algorithm ty fingerPrint) \<longleftrightarrow> hex.canonical fingerPrint"
  | "sec_valid (RR_KEY flags protocol algorithm publicKey) \<longleftrightarrow> base64.canonical publicKey"
  | "sec_valid (RR_CDNSKEY flags protocol algorithm publicKey) \<longleftrightarrow> base64.canonical publicKey"
  | "sec_valid (RR_DNSKEY flags protocol algorithm publicKey) \<longleftrightarrow> base64.canonical publicKey"
  | "sec_valid (RR_RKEY flags protocol algorithm publicKey) \<longleftrightarrow> base64.canonical publicKey"
  | "sec_valid (RR_NSAPPTR ptr) \<longleftrightarrow> valid_name ptr"
  | "sec_valid (RR_NSEC3 hsh flags iterations saltLength salt hashLength nextDomain typeBitMap) \<longleftrightarrow>
        hex.canonical salt \<and> unat saltLength = length (hex.bytes salt) \<and>
        base32.canonical nextDomain \<and> unat hashLength = length (base32.bytes nextDomain) \<and>
        valid_bitmap typeBitMap"
  | "sec_valid (RR_NSEC3PARAM hsh flags iterations saltLength salt) \<longleftrightarrow> hex.canonical salt \<and>
        unat saltLength = length (hex.bytes salt)"

lemmas sec_packers =
    pack_PX_def pack_GPOS_def pack_LOC_def pack_SIG_def pack_RRSIG_def pack_NSEC_def pack_DLV_def
    pack_CDS_def pack_DS_def pack_KX_def pack_TA_def pack_TALINK_def pack_SSHFP_def pack_KEY_def
    pack_CDNSKEY_def pack_DNSKEY_def pack_RKEY_def pack_NSAPPTR_def pack_NSEC3_def
    pack_NSEC3PARAM_def

lemmas sec_unpacks =
    unpackPX_def unpackGPOS_def unpackLOC_def unpackSIG_def unpackRRSIG_def unpackNSEC_def
    unpackDLV_def unpackCDS_def unpackDS_def unpackKX_def unpackTA_def unpackTALINK_def
    unpackSSHFP_def unpackKEY_def unpackCDNSKEY_def unpackDNSKEY_def unpackRKEY_def
    unpackNSAPPTR_def unpackNSEC3_def unpackNSEC3PARAM_def

section \<open>Packing\<close>

lemma sec_pack_emit:
  "sec_valid d \<Longrightarrow> valid_name (Name h) \<Longrightarrow> pcomp b = None \<Longrightarrow> fresh b \<Longrightarrow>
   fits (wire_header h @ sec_image d) b \<Longrightarrow>
   pack_sec d h False b =
    Ok (h\<lparr>Rdlength := of_nat (length (sec_image d))\<rparr>, emit (wire_header h @ sec_image d) b)"
  by (cases d; hypsubst; (unfold pack_sec.simps sec_image.simps sec_valid.simps sec_packers)?;
      rule pack_record_emit; (assumption | (intro record_writes; simp add: field_writes del:
        One_nat_def)))

section \<open>Unpacking\<close>

text \<open>The unpacker of a struct.\<close>

primrec sec_unpack :: "sec_rdata \<Rightarrow> RR_Header \<Rightarrow> byte list \<Rightarrow> nat \<Rightarrow> (sec_rdata \<times> nat) outcome" where
    "sec_unpack (RR_PX preference map822 mapx400) = unpackPX"
  | "sec_unpack (RR_GPOS longitude latitude altitude) = unpackGPOS"
  | "sec_unpack (RR_LOC version siz horizPre vertPre latitude longitude altitude) = unpackLOC"
  | "sec_unpack (RR_SIG typeCovered algorithm labels origTtl expiration inception keyTag
        signerName signature) = unpackSIG"
  | "sec_unpack (RR_RRSIG typeCovered algorithm labels origTtl expiration inception keyTag
        signerName signature) = unpackRRSIG"
  | "sec_unpack (RR_NSEC nextDomain typeBitMap) = unpackNSEC"
  | "sec_unpack (RR_DLV keyTag algorithm digestType digest) = unpackDLV"
  | "sec_unpack (RR_CDS keyTag algorithm digestType digest) = unpackCDS"
  | "sec_unpack (RR_DS keyTag algorithm digestType digest) = unpackDS"
  | "sec_unpack (RR_KX preference exchanger) = unpackKX"
  | "sec_unpack (RR_TA keyTag algorithm digestType digest) = unpackTA"
  | "sec_unpack (RR_TALINK previousName nextName) = unpackTALINK"
  | "sec_unpack (RR_SSHFP algorithm ty fingerPrint) = unpackSSHFP"
  | "sec_unpack (RR_KEY flags protocol algorithm publicKey) = unpackKEY"
  | "sec_unpack (RR_CDNSKEY flags protocol algorithm publicKey) = unpackCDNSKEY"
  | "sec_unpack (RR_DNSKEY flags protocol algorithm publicKey) = unpackDNSKEY"
  | "sec_unpack (RR_RKEY flags protocol algorithm publicKey) = unpackRKEY"
  | "sec_unpack (RR_NSAPPTR ptr) = unpackNSAPPTR"
  | "sec_unpack (RR_NSEC3 hsh flags iterations saltLength salt hashLength nextDomain typeBitMap) =
        unpackNSEC3"
  | "sec_unpack (RR_NSEC3PARAM hsh flags iterations saltLength salt) = unpackNSEC3PARAM"

lemma sec_reads:
  "sec_valid d \<Longrightarrow> bytes_at msg off (sec_image d) \<Longrightarrow>
   length msg = off + length (sec_image d) \<Longrightarrow>
   unat (Rdlength h) = length (sec_image d) \<Longrightarrow>
   sec_unpack d h msg off = Ok (d, length msg)"
  by (cases d; clarsimp simp: bytes_at_append;
     simp add: sec_unpackers_def sec_unpacks field_reads noRdata_iff Let_def add_ac)

lemma sec_listed:
  "sec_type d \<noteq> TypeNone \<Longrightarrow> (sec_type d, sec_unpack d) \<in> set sec_unpackers"
  by (cases d) (simp_all add: sec_unpackers_def)

lemma sec_inside:
  "(t, u) \<in> set sec_unpackers \<Longrightarrow> off \<le> length msg \<Longrightarrow>
     length msg \<le> off + unat (Rdlength h) \<Longrightarrow>
     inside msg off (u h msg off)"
  unfolding sec_unpackers_def
  by (simp only: set_simps insert_iff empty_iff prod.inject; elim disjE conjE FalseE;
      hypsubst; auto simp: sec_unpacks Let_def intro!: inside_rules)

end
