(* ===== verification/Wire_RR_Ext.thy ===== *)
theory Wire_RR_Ext
  imports Wire_Header
begin

text \<open>
  The packers and unpackers of \<open>zmsg.go\<close> for the other records: \<open>pack_T\<close> is the method \<open>pack\<close> of
  the struct \<open>T\<close>, \<open>unpackT\<close> the function of that name.  A packer gets the header and the fields of the
  record and returns the header with its new \<open>Rdlength\<close>; an unpacker returns the fields, the fields
  behind the end of the data being zero, and the caller attaches the header \<open>h\<close> to them.

  \<open>ext_image\<close> is the wire image of the fields, \<open>ext_valid\<close> says which fields have one.  Every packer
  writes the image (\<open>ext_pack_emit\<close>), every unpacker reads it back (\<open>ext_reads\<close>) and comes back on all
  bytes (\<open>ext_inside\<close>).
\<close>

section \<open>Packers\<close>

definition pack_TKEY ::
    "RR_Header \<Rightarrow> string \<Rightarrow> uint32 \<Rightarrow> uint32 \<Rightarrow>
    uint16 \<Rightarrow> uint16 \<Rightarrow> uint16 \<Rightarrow> string \<Rightarrow>
    uint16 \<Rightarrow> string \<Rightarrow> bool \<Rightarrow> pbuf \<Rightarrow>
    (RR_Header \<times> pbuf) outcome" where
  "pack_TKEY hdr algorithm inception expiration md err keySize ky otherLen otherData compress =
     pack_record hdr compress
       [PackDomainName algorithm False, packUint32 inception, packUint32 expiration,
        packUint16 md, packUint16 err, packUint16 keySize, packString ky, packUint16 otherLen,
        packString otherData]"

definition pack_RFC3597 ::
    "RR_Header \<Rightarrow> string \<Rightarrow> bool \<Rightarrow> pbuf \<Rightarrow>
    (RR_Header \<times> pbuf) outcome" where
  "pack_RFC3597 hdr rdata compress =
     pack_record hdr compress
       [packStringHex rdata]"

definition pack_URI ::
    "RR_Header \<Rightarrow> uint16 \<Rightarrow> uint16 \<Rightarrow> string \<Rightarrow>
    bool \<Rightarrow> pbuf \<Rightarrow> (RR_Header \<times> pbuf) outcome" where
  "pack_URI hdr priority wgt target compress =
     pack_record hdr compress
       [packUint16 priority, packUint16 wgt, packStringOctet target]"

definition pack_DHCID ::
    "RR_Header \<Rightarrow> string \<Rightarrow> bool \<Rightarrow> pbuf \<Rightarrow>
    (RR_Header \<times> pbuf) outcome" where
  "pack_DHCID hdr digest compress =
     pack_record hdr compress
       [packStringBase64 digest]"

definition pack_TLSA ::
    "RR_Header \<Rightarrow> byte \<Rightarrow> byte \<Rightarrow> byte \<Rightarrow>
    string \<Rightarrow> bool \<Rightarrow> pbuf \<Rightarrow> (RR_Header \<times> pbuf) outcome" where
  "pack_TLSA hdr usage selector matchingType certificate compress =
     pack_record hdr compress
       [packUint8 usage, packUint8 selector, packUint8 matchingType, packStringHex certificate]"

definition pack_SMIMEA ::
    "RR_Header \<Rightarrow> byte \<Rightarrow> byte \<Rightarrow> byte \<Rightarrow>
    string \<Rightarrow> bool \<Rightarrow> pbuf \<Rightarrow> (RR_Header \<times> pbuf) outcome" where
  "pack_SMIMEA hdr usage selector matchingType certificate compress =
     pack_record hdr compress
       [packUint8 usage, packUint8 selector, packUint8 matchingType, packStringHex certificate]"

definition pack_HIP ::
    "RR_Header \<Rightarrow> byte \<Rightarrow> byte \<Rightarrow> uint16 \<Rightarrow>
    string \<Rightarrow> string \<Rightarrow> string list \<Rightarrow> bool \<Rightarrow>
    pbuf \<Rightarrow> (RR_Header \<times> pbuf) outcome" where
  "pack_HIP hdr hitLength publicKeyAlgorithm publicKeyLength hit publicKey rendezvousServers compress =
     pack_record hdr compress
       [packUint8 hitLength, packUint8 publicKeyAlgorithm, packUint16 publicKeyLength,
        packStringHex hit, packStringBase64 publicKey,
        packDataDomainNames rendezvousServers compress]"

definition pack_NINFO ::
    "RR_Header \<Rightarrow> string list \<Rightarrow> bool \<Rightarrow> pbuf \<Rightarrow>
    (RR_Header \<times> pbuf) outcome" where
  "pack_NINFO hdr zSData compress =
     pack_record hdr compress
       [packStringTxt zSData]"

definition pack_NID ::
    "RR_Header \<Rightarrow> uint16 \<Rightarrow> uint64 \<Rightarrow> bool \<Rightarrow>
    pbuf \<Rightarrow> (RR_Header \<times> pbuf) outcome" where
  "pack_NID hdr preference nodeID compress =
     pack_record hdr compress
       [packUint16 preference, packUint64 nodeID]"

definition pack_L32 ::
    "RR_Header \<Rightarrow> uint16 \<Rightarrow> IP \<Rightarrow> bool \<Rightarrow>
    pbuf \<Rightarrow> (RR_Header \<times> pbuf) outcome" where
  "pack_L32 hdr preference locator32 compress =
     pack_record hdr compress
       [packUint16 preference, packDataA locator32]"

definition pack_L64 ::
    "RR_Header \<Rightarrow> uint16 \<Rightarrow> uint64 \<Rightarrow> bool \<Rightarrow>
    pbuf \<Rightarrow> (RR_Header \<times> pbuf) outcome" where
  "pack_L64 hdr preference locator64 compress =
     pack_record hdr compress
       [packUint16 preference, packUint64 locator64]"

definition pack_LP ::
    "RR_Header \<Rightarrow> uint16 \<Rightarrow> string \<Rightarrow> bool \<Rightarrow>
    pbuf \<Rightarrow> (RR_Header \<times> pbuf) outcome" where
  "pack_LP hdr preference fq compress =
     pack_record hdr compress
       [packUint16 preference, PackDomainName fq False]"

definition pack_EUI48 ::
    "RR_Header \<Rightarrow> uint64 \<Rightarrow> bool \<Rightarrow> pbuf \<Rightarrow>
    (RR_Header \<times> pbuf) outcome" where
  "pack_EUI48 hdr address compress =
     pack_record hdr compress
       [packUint48 address]"

definition pack_EUI64 ::
    "RR_Header \<Rightarrow> uint64 \<Rightarrow> bool \<Rightarrow> pbuf \<Rightarrow>
    (RR_Header \<times> pbuf) outcome" where
  "pack_EUI64 hdr address compress =
     pack_record hdr compress
       [packUint64 address]"

definition pack_CAA ::
    "RR_Header \<Rightarrow> byte \<Rightarrow> string \<Rightarrow> string \<Rightarrow>
    bool \<Rightarrow> pbuf \<Rightarrow> (RR_Header \<times> pbuf) outcome" where
  "pack_CAA hdr flag tag val compress =
     pack_record hdr compress
       [packUint8 flag, packString tag, packStringOctet val]"

definition pack_UID ::
    "RR_Header \<Rightarrow> uint32 \<Rightarrow> bool \<Rightarrow> pbuf \<Rightarrow>
    (RR_Header \<times> pbuf) outcome" where
  "pack_UID hdr uid compress =
     pack_record hdr compress
       [packUint32 uid]"

definition pack_GID ::
    "RR_Header \<Rightarrow> uint32 \<Rightarrow> bool \<Rightarrow> pbuf \<Rightarrow>
    (RR_Header \<times> pbuf) outcome" where
  "pack_GID hdr gid compress =
     pack_record hdr compress
       [packUint32 gid]"

definition pack_UINFO ::
    "RR_Header \<Rightarrow> string \<Rightarrow> bool \<Rightarrow> pbuf \<Rightarrow>
    (RR_Header \<times> pbuf) outcome" where
  "pack_UINFO hdr uinfo compress =
     pack_record hdr compress
       [packString uinfo]"

definition pack_EID ::
    "RR_Header \<Rightarrow> string \<Rightarrow> bool \<Rightarrow> pbuf \<Rightarrow>
    (RR_Header \<times> pbuf) outcome" where
  "pack_EID hdr endpoint compress =
     pack_record hdr compress
       [packStringHex endpoint]"

definition pack_NIMLOC ::
    "RR_Header \<Rightarrow> string \<Rightarrow> bool \<Rightarrow> pbuf \<Rightarrow>
    (RR_Header \<times> pbuf) outcome" where
  "pack_NIMLOC hdr locator compress =
     pack_record hdr compress
       [packStringHex locator]"

definition pack_OPENPGPKEY ::
    "RR_Header \<Rightarrow> string \<Rightarrow> bool \<Rightarrow> pbuf \<Rightarrow>
    (RR_Header \<times> pbuf) outcome" where
  "pack_OPENPGPKEY hdr publicKey compress =
     pack_record hdr compress
       [packStringBase64 publicKey]"

definition pack_OPT ::
    "RR_Header \<Rightarrow> EDNS0 list \<Rightarrow> bool \<Rightarrow> pbuf \<Rightarrow>
    (RR_Header \<times> pbuf) outcome" where
  "pack_OPT hdr options compress =
     pack_record hdr compress
       [packDataOpt options]"

definition pack_TSIG ::
    "RR_Header \<Rightarrow> string \<Rightarrow> uint64 \<Rightarrow> uint16 \<Rightarrow>
    uint16 \<Rightarrow> string \<Rightarrow> uint16 \<Rightarrow> uint16 \<Rightarrow>
    uint16 \<Rightarrow> string \<Rightarrow> bool \<Rightarrow> pbuf \<Rightarrow>
    (RR_Header \<times> pbuf) outcome" where
  "pack_TSIG hdr algorithm timeSigned fudge mACSize mac origId err otherLen otherData compress =
     pack_record hdr compress
       [PackDomainName algorithm False, packUint48 timeSigned, packUint16 fudge,
        packUint16 mACSize, packStringHex mac, packUint16 origId, packUint16 err,
        packUint16 otherLen, packStringHex otherData]"

text \<open>The method \<open>pack\<close> of the interface \<open>RR\<close>.\<close>

primrec pack_ext :: "ext_rdata \<Rightarrow> RR_Header \<Rightarrow> bool \<Rightarrow> pbuf \<Rightarrow> (RR_Header \<times> pbuf) outcome" where
    "pack_ext (RR_TKEY algorithm inception expiration md err keySize ky otherLen otherData) h =
        pack_TKEY h algorithm inception expiration md err keySize ky otherLen otherData"
  | "pack_ext (RR_RFC3597 rdata) h = pack_RFC3597 h rdata"
  | "pack_ext (RR_URI priority wgt target) h = pack_URI h priority wgt target"
  | "pack_ext (RR_DHCID digest) h = pack_DHCID h digest"
  | "pack_ext (RR_TLSA usage selector matchingType certificate) h =
        pack_TLSA h usage selector matchingType certificate"
  | "pack_ext (RR_SMIMEA usage selector matchingType certificate) h =
        pack_SMIMEA h usage selector matchingType certificate"
  | "pack_ext (RR_HIP hitLength publicKeyAlgorithm publicKeyLength hit publicKey
        rendezvousServers) h = pack_HIP h hitLength publicKeyAlgorithm publicKeyLength hit
        publicKey rendezvousServers"
  | "pack_ext (RR_NINFO zSData) h = pack_NINFO h zSData"
  | "pack_ext (RR_NID preference nodeID) h = pack_NID h preference nodeID"
  | "pack_ext (RR_L32 preference locator32) h = pack_L32 h preference locator32"
  | "pack_ext (RR_L64 preference locator64) h = pack_L64 h preference locator64"
  | "pack_ext (RR_LP preference fq) h = pack_LP h preference fq"
  | "pack_ext (RR_EUI48 address) h = pack_EUI48 h address"
  | "pack_ext (RR_EUI64 address) h = pack_EUI64 h address"
  | "pack_ext (RR_CAA flag tag val) h = pack_CAA h flag tag val"
  | "pack_ext (RR_UID uid) h = pack_UID h uid"
  | "pack_ext (RR_GID gid) h = pack_GID h gid"
  | "pack_ext (RR_UINFO uinfo) h = pack_UINFO h uinfo"
  | "pack_ext (RR_EID endpoint) h = pack_EID h endpoint"
  | "pack_ext (RR_NIMLOC locator) h = pack_NIMLOC h locator"
  | "pack_ext (RR_OPENPGPKEY publicKey) h = pack_OPENPGPKEY h publicKey"
  | "pack_ext (RR_OPT options) h = pack_OPT h options"
  | "pack_ext (RR_TSIG algorithm timeSigned fudge mACSize mac origId err otherLen otherData) h =
        pack_TSIG h algorithm timeSigned fudge mACSize mac origId err otherLen otherData"

section \<open>Unpackers\<close>

definition unpackTKEY :: "RR_Header \<Rightarrow> byte list \<Rightarrow> nat \<Rightarrow> (ext_rdata \<times> nat) outcome" where
  "unpackTKEY h msg off =
     (if noRdata h then Ok (RR_TKEY '''' 0 0 0 0 0 '''' 0 '''', off)
      else
        obind (UnpackDomainName msg off) (\<lambda>(algorithm, off).
          if off = length msg then Ok (RR_TKEY algorithm 0 0 0 0 0 '''' 0 '''', off) else
        obind (unpackUint32 msg off) (\<lambda>(inception, off).
          if off = length msg then Ok (RR_TKEY algorithm inception 0 0 0 0 '''' 0 '''', off) else
        obind (unpackUint32 msg off) (\<lambda>(expiration, off).
          if off = length msg then Ok (RR_TKEY algorithm inception expiration 0 0 0 '''' 0 '''',
        off) else
        obind (unpackUint16 msg off) (\<lambda>(md, off).
          if off = length msg then Ok (RR_TKEY algorithm inception expiration md 0 0 '''' 0 '''',
        off) else
        obind (unpackUint16 msg off) (\<lambda>(err, off).
          if off = length msg then Ok (RR_TKEY algorithm inception expiration md err 0 '''' 0
        '''', off) else
        obind (unpackUint16 msg off) (\<lambda>(keySize, off).
          if off = length msg then Ok (RR_TKEY algorithm inception expiration md err keySize ''''
        0 '''', off) else
        obind (unpackString msg off) (\<lambda>(ky, off).
          if off = length msg then Ok (RR_TKEY algorithm inception expiration md err keySize ky 0
        '''', off) else
        obind (unpackUint16 msg off) (\<lambda>(otherLen, off).
          if off = length msg then Ok (RR_TKEY algorithm inception expiration md err keySize ky
        otherLen '''', off) else
        obind (unpackString msg off) (\<lambda>(otherData, off).
          Ok (RR_TKEY algorithm inception expiration md err keySize ky otherLen otherData,
        off)))))))))))"

definition unpackRFC3597 :: "RR_Header \<Rightarrow> byte list \<Rightarrow> nat \<Rightarrow> (ext_rdata \<times> nat) outcome" where
  "unpackRFC3597 h msg off =
     (if noRdata h then Ok (RR_RFC3597 '''', off)
      else
        let rdStart = off in
        obind (unpackStringHex msg off (rdStart + unat (Rdlength h))) (\<lambda>(rdata, off).
          Ok (RR_RFC3597 rdata, off)))"

definition unpackURI :: "RR_Header \<Rightarrow> byte list \<Rightarrow> nat \<Rightarrow> (ext_rdata \<times> nat) outcome" where
  "unpackURI h msg off =
     (if noRdata h then Ok (RR_URI 0 0 '''', off)
      else
        obind (unpackUint16 msg off) (\<lambda>(priority, off).
          if off = length msg then Ok (RR_URI priority 0 '''', off) else
        obind (unpackUint16 msg off) (\<lambda>(wgt, off).
          if off = length msg then Ok (RR_URI priority wgt '''', off) else
        obind (unpackStringOctet msg off) (\<lambda>(target, off).
          Ok (RR_URI priority wgt target, off)))))"

definition unpackDHCID :: "RR_Header \<Rightarrow> byte list \<Rightarrow> nat \<Rightarrow> (ext_rdata \<times> nat) outcome" where
  "unpackDHCID h msg off =
     (if noRdata h then Ok (RR_DHCID '''', off)
      else
        let rdStart = off in
        obind (unpackStringBase64 msg off (rdStart + unat (Rdlength h))) (\<lambda>(digest, off).
          Ok (RR_DHCID digest, off)))"

definition unpackTLSA :: "RR_Header \<Rightarrow> byte list \<Rightarrow> nat \<Rightarrow> (ext_rdata \<times> nat) outcome" where
  "unpackTLSA h msg off =
     (if noRdata h then Ok (RR_TLSA 0 0 0 '''', off)
      else
        let rdStart = off in
        obind (unpackUint8 msg off) (\<lambda>(usage, off).
          if off = length msg then Ok (RR_TLSA usage 0 0 '''', off) else
        obind (unpackUint8 msg off) (\<lambda>(selector, off).
          if off = length msg then Ok (RR_TLSA usage selector 0 '''', off) else
        obind (unpackUint8 msg off) (\<lambda>(matchingType, off).
          if off = length msg then Ok (RR_TLSA usage selector matchingType '''', off) else
        obind (unpackStringHex msg off (rdStart + unat (Rdlength h))) (\<lambda>(certificate, off).
          Ok (RR_TLSA usage selector matchingType certificate, off))))))"

definition unpackSMIMEA :: "RR_Header \<Rightarrow> byte list \<Rightarrow> nat \<Rightarrow> (ext_rdata \<times> nat) outcome" where
  "unpackSMIMEA h msg off =
     (if noRdata h then Ok (RR_SMIMEA 0 0 0 '''', off)
      else
        let rdStart = off in
        obind (unpackUint8 msg off) (\<lambda>(usage, off).
          if off = length msg then Ok (RR_SMIMEA usage 0 0 '''', off) else
        obind (unpackUint8 msg off) (\<lambda>(selector, off).
          if off = length msg then Ok (RR_SMIMEA usage selector 0 '''', off) else
        obind (unpackUint8 msg off) (\<lambda>(matchingType, off).
          if off = length msg then Ok (RR_SMIMEA usage selector matchingType '''', off) else
        obind (unpackStringHex msg off (rdStart + unat (Rdlength h))) (\<lambda>(certificate, off).
          Ok (RR_SMIMEA usage selector matchingType certificate, off))))))"

definition unpackHIP :: "RR_Header \<Rightarrow> byte list \<Rightarrow> nat \<Rightarrow> (ext_rdata \<times> nat) outcome" where
  "unpackHIP h msg off =
     (if noRdata h then Ok (RR_HIP 0 0 0 '''' '''' [], off)
      else
        let rdStart = off in
        obind (unpackUint8 msg off) (\<lambda>(hitLength, off).
          if off = length msg then Ok (RR_HIP hitLength 0 0 '''' '''' [], off) else
        obind (unpackUint8 msg off) (\<lambda>(publicKeyAlgorithm, off).
          if off = length msg then Ok (RR_HIP hitLength publicKeyAlgorithm 0 '''' '''' [], off) else
        obind (unpackUint16 msg off) (\<lambda>(publicKeyLength, off).
          if off = length msg then Ok (RR_HIP hitLength publicKeyAlgorithm publicKeyLength ''''
        '''' [], off) else
        obind (unpackStringHex msg off (off + unat hitLength)) (\<lambda>(hit, off).
        obind (unpackStringBase64 msg off (off + unat publicKeyLength)) (\<lambda>(publicKey, off).
        obind (unpackDataDomainNames msg off (rdStart + unat (Rdlength h))) (\<lambda>(rendezvousServers, off).
          Ok (RR_HIP hitLength publicKeyAlgorithm publicKeyLength hit publicKey rendezvousServers,
        off))))))))"

definition unpackNINFO :: "RR_Header \<Rightarrow> byte list \<Rightarrow> nat \<Rightarrow> (ext_rdata \<times> nat) outcome" where
  "unpackNINFO h msg off =
     (if noRdata h then Ok (RR_NINFO [], off)
      else
        obind (unpackStringTxt msg off) (\<lambda>(zSData, off).
          Ok (RR_NINFO zSData, off)))"

definition unpackNID :: "RR_Header \<Rightarrow> byte list \<Rightarrow> nat \<Rightarrow> (ext_rdata \<times> nat) outcome" where
  "unpackNID h msg off =
     (if noRdata h then Ok (RR_NID 0 0, off)
      else
        obind (unpackUint16 msg off) (\<lambda>(preference, off).
          if off = length msg then Ok (RR_NID preference 0, off) else
        obind (unpackUint64 msg off) (\<lambda>(nodeID, off).
          Ok (RR_NID preference nodeID, off))))"

definition unpackL32 :: "RR_Header \<Rightarrow> byte list \<Rightarrow> nat \<Rightarrow> (ext_rdata \<times> nat) outcome" where
  "unpackL32 h msg off =
     (if noRdata h then Ok (RR_L32 0 [], off)
      else
        obind (unpackUint16 msg off) (\<lambda>(preference, off).
          if off = length msg then Ok (RR_L32 preference [], off) else
        obind (unpackDataA msg off) (\<lambda>(locator32, off).
          Ok (RR_L32 preference locator32, off))))"

definition unpackL64 :: "RR_Header \<Rightarrow> byte list \<Rightarrow> nat \<Rightarrow> (ext_rdata \<times> nat) outcome" where
  "unpackL64 h msg off =
     (if noRdata h then Ok (RR_L64 0 0, off)
      else
        obind (unpackUint16 msg off) (\<lambda>(preference, off).
          if off = length msg then Ok (RR_L64 preference 0, off) else
        obind (unpackUint64 msg off) (\<lambda>(locator64, off).
          Ok (RR_L64 preference locator64, off))))"

definition unpackLP :: "RR_Header \<Rightarrow> byte list \<Rightarrow> nat \<Rightarrow> (ext_rdata \<times> nat) outcome" where
  "unpackLP h msg off =
     (if noRdata h then Ok (RR_LP 0 '''', off)
      else
        obind (unpackUint16 msg off) (\<lambda>(preference, off).
          if off = length msg then Ok (RR_LP preference '''', off) else
        obind (UnpackDomainName msg off) (\<lambda>(fq, off).
          Ok (RR_LP preference fq, off))))"

definition unpackEUI48 :: "RR_Header \<Rightarrow> byte list \<Rightarrow> nat \<Rightarrow> (ext_rdata \<times> nat) outcome" where
  "unpackEUI48 h msg off =
     (if noRdata h then Ok (RR_EUI48 0, off)
      else
        obind (unpackUint48 msg off) (\<lambda>(address, off).
          Ok (RR_EUI48 address, off)))"

definition unpackEUI64 :: "RR_Header \<Rightarrow> byte list \<Rightarrow> nat \<Rightarrow> (ext_rdata \<times> nat) outcome" where
  "unpackEUI64 h msg off =
     (if noRdata h then Ok (RR_EUI64 0, off)
      else
        obind (unpackUint64 msg off) (\<lambda>(address, off).
          Ok (RR_EUI64 address, off)))"

definition unpackCAA :: "RR_Header \<Rightarrow> byte list \<Rightarrow> nat \<Rightarrow> (ext_rdata \<times> nat) outcome" where
  "unpackCAA h msg off =
     (if noRdata h then Ok (RR_CAA 0 '''' '''', off)
      else
        obind (unpackUint8 msg off) (\<lambda>(flag, off).
          if off = length msg then Ok (RR_CAA flag '''' '''', off) else
        obind (unpackString msg off) (\<lambda>(tag, off).
          if off = length msg then Ok (RR_CAA flag tag '''', off) else
        obind (unpackStringOctet msg off) (\<lambda>(val, off).
          Ok (RR_CAA flag tag val, off)))))"

definition unpackUID :: "RR_Header \<Rightarrow> byte list \<Rightarrow> nat \<Rightarrow> (ext_rdata \<times> nat) outcome" where
  "unpackUID h msg off =
     (if noRdata h then Ok (RR_UID 0, off)
      else
        obind (unpackUint32 msg off) (\<lambda>(uid, off).
          Ok (RR_UID uid, off)))"

definition unpackGID :: "RR_Header \<Rightarrow> byte list \<Rightarrow> nat \<Rightarrow> (ext_rdata \<times> nat) outcome" where
  "unpackGID h msg off =
     (if noRdata h then Ok (RR_GID 0, off)
      else
        obind (unpackUint32 msg off) (\<lambda>(gid, off).
          Ok (RR_GID gid, off)))"

definition unpackUINFO :: "RR_Header \<Rightarrow> byte list \<Rightarrow> nat \<Rightarrow> (ext_rdata \<times> nat) outcome" where
  "unpackUINFO h msg off =
     (if noRdata h then Ok (RR_UINFO '''', off)
      else
        obind (unpackString msg off) (\<lambda>(uinfo, off).
          Ok (RR_UINFO uinfo, off)))"

definition unpackEID :: "RR_Header \<Rightarrow> byte list \<Rightarrow> nat \<Rightarrow> (ext_rdata \<times> nat) outcome" where
  "unpackEID h msg off =
     (if noRdata h then Ok (RR_EID '''', off)
      else
        let rdStart = off in
        obind (unpackStringHex msg off (rdStart + unat (Rdlength h))) (\<lambda>(endpoint, off).
          Ok (RR_EID endpoint, off)))"

definition unpackNIMLOC :: "RR_Header \<Rightarrow> byte list \<Rightarrow> nat \<Rightarrow> (ext_rdata \<times> nat) outcome" where
  "unpackNIMLOC h msg off =
     (if noRdata h then Ok (RR_NIMLOC '''', off)
      else
        let rdStart = off in
        obind (unpackStringHex msg off (rdStart + unat (Rdlength h))) (\<lambda>(locator, off).
          Ok (RR_NIMLOC locator, off)))"

definition unpackOPENPGPKEY :: "RR_Header \<Rightarrow> byte list \<Rightarrow> nat \<Rightarrow> (ext_rdata \<times> nat) outcome" where
  "unpackOPENPGPKEY h msg off =
     (if noRdata h then Ok (RR_OPENPGPKEY '''', off)
      else
        let rdStart = off in
        obind (unpackStringBase64 msg off (rdStart + unat (Rdlength h))) (\<lambda>(publicKey, off).
          Ok (RR_OPENPGPKEY publicKey, off)))"

definition unpackOPT :: "RR_Header \<Rightarrow> byte list \<Rightarrow> nat \<Rightarrow> (ext_rdata \<times> nat) outcome" where
  "unpackOPT h msg off =
     (if noRdata h then Ok (RR_OPT [], off)
      else
        obind (unpackDataOpt msg off) (\<lambda>(options, off).
          Ok (RR_OPT options, off)))"

definition unpackTSIG :: "RR_Header \<Rightarrow> byte list \<Rightarrow> nat \<Rightarrow> (ext_rdata \<times> nat) outcome" where
  "unpackTSIG h msg off =
     (if noRdata h then Ok (RR_TSIG '''' 0 0 0 '''' 0 0 0 '''', off)
      else
        obind (UnpackDomainName msg off) (\<lambda>(algorithm, off).
          if off = length msg then Ok (RR_TSIG algorithm 0 0 0 '''' 0 0 0 '''', off) else
        obind (unpackUint48 msg off) (\<lambda>(timeSigned, off).
          if off = length msg then Ok (RR_TSIG algorithm timeSigned 0 0 '''' 0 0 0 '''', off) else
        obind (unpackUint16 msg off) (\<lambda>(fudge, off).
          if off = length msg then Ok (RR_TSIG algorithm timeSigned fudge 0 '''' 0 0 0 '''', off) else
        obind (unpackUint16 msg off) (\<lambda>(mACSize, off).
          if off = length msg then Ok (RR_TSIG algorithm timeSigned fudge mACSize '''' 0 0 0 '''',
        off) else
        obind (unpackStringHex msg off (off + unat mACSize)) (\<lambda>(mac, off).
        obind (unpackUint16 msg off) (\<lambda>(origId, off).
          if off = length msg then Ok (RR_TSIG algorithm timeSigned fudge mACSize mac origId 0 0
        '''', off) else
        obind (unpackUint16 msg off) (\<lambda>(err, off).
          if off = length msg then Ok (RR_TSIG algorithm timeSigned fudge mACSize mac origId err 0
        '''', off) else
        obind (unpackUint16 msg off) (\<lambda>(otherLen, off).
          if off = length msg then Ok (RR_TSIG algorithm timeSigned fudge mACSize mac origId err
        otherLen '''', off) else
        obind (unpackStringHex msg off (off + unat otherLen)) (\<lambda>(otherData, off).
          Ok (RR_TSIG algorithm timeSigned fudge mACSize mac origId err otherLen otherData,
        off)))))))))))"

text \<open>The part of the table \<open>typeToUnpack\<close> for these types.\<close>

definition ext_unpackers ::
    "(uint16 \<times> (RR_Header \<Rightarrow> byte list \<Rightarrow> nat \<Rightarrow> (ext_rdata \<times> nat) outcome)) list" where
  "ext_unpackers =
     [(TypeTKEY, unpackTKEY), (TypeURI, unpackURI), (TypeDHCID, unpackDHCID),
      (TypeTLSA, unpackTLSA), (TypeSMIMEA, unpackSMIMEA), (TypeHIP, unpackHIP),
      (TypeNINFO, unpackNINFO), (TypeNID, unpackNID), (TypeL32, unpackL32), (TypeL64, unpackL64),
      (TypeLP, unpackLP), (TypeEUI48, unpackEUI48), (TypeEUI64, unpackEUI64),
      (TypeCAA, unpackCAA), (TypeUID, unpackUID), (TypeGID, unpackGID), (TypeUINFO, unpackUINFO),
      (TypeEID, unpackEID), (TypeNIMLOC, unpackNIMLOC), (TypeOPENPGPKEY, unpackOPENPGPKEY),
      (TypeOPT, unpackOPT), (TypeTSIG, unpackTSIG)]"

section \<open>Images\<close>

primrec ext_type :: "ext_rdata \<Rightarrow> uint16" where
    "ext_type (RR_TKEY algorithm inception expiration md err keySize ky otherLen otherData) = TypeTKEY"
  | "ext_type (RR_RFC3597 rdata) = TypeNone"
  | "ext_type (RR_URI priority wgt target) = TypeURI"
  | "ext_type (RR_DHCID digest) = TypeDHCID"
  | "ext_type (RR_TLSA usage selector matchingType certificate) = TypeTLSA"
  | "ext_type (RR_SMIMEA usage selector matchingType certificate) = TypeSMIMEA"
  | "ext_type (RR_HIP hitLength publicKeyAlgorithm publicKeyLength hit publicKey
        rendezvousServers) = TypeHIP"
  | "ext_type (RR_NINFO zSData) = TypeNINFO"
  | "ext_type (RR_NID preference nodeID) = TypeNID"
  | "ext_type (RR_L32 preference locator32) = TypeL32"
  | "ext_type (RR_L64 preference locator64) = TypeL64"
  | "ext_type (RR_LP preference fq) = TypeLP"
  | "ext_type (RR_EUI48 address) = TypeEUI48"
  | "ext_type (RR_EUI64 address) = TypeEUI64"
  | "ext_type (RR_CAA flag tag val) = TypeCAA"
  | "ext_type (RR_UID uid) = TypeUID"
  | "ext_type (RR_GID gid) = TypeGID"
  | "ext_type (RR_UINFO uinfo) = TypeUINFO"
  | "ext_type (RR_EID endpoint) = TypeEID"
  | "ext_type (RR_NIMLOC locator) = TypeNIMLOC"
  | "ext_type (RR_OPENPGPKEY publicKey) = TypeOPENPGPKEY"
  | "ext_type (RR_OPT options) = TypeOPT"
  | "ext_type (RR_TSIG algorithm timeSigned fudge mACSize mac origId err otherLen otherData) = TypeTSIG"

primrec ext_image :: "ext_rdata \<Rightarrow> byte list" where
    "ext_image (RR_TKEY algorithm inception expiration md err keySize ky otherLen otherData) =
        wire_name algorithm @ be_bytes 4 inception @ be_bytes 4 expiration @ be_bytes 2 md @
        be_bytes 2 err @ be_bytes 2 keySize @ wire_text ky @ be_bytes 2 otherLen @ wire_text otherData"
  | "ext_image (RR_RFC3597 rdata) = hex.bytes rdata"
  | "ext_image (RR_URI priority wgt target) = be_bytes 2 priority @ be_bytes 2 wgt @ bytes_of target"
  | "ext_image (RR_DHCID digest) = base64.bytes digest"
  | "ext_image (RR_TLSA usage selector matchingType certificate) = be_bytes 1 usage @
        be_bytes 1 selector @ be_bytes 1 matchingType @ hex.bytes certificate"
  | "ext_image (RR_SMIMEA usage selector matchingType certificate) = be_bytes 1 usage @
        be_bytes 1 selector @ be_bytes 1 matchingType @ hex.bytes certificate"
  | "ext_image (RR_HIP hitLength publicKeyAlgorithm publicKeyLength hit publicKey
        rendezvousServers) = be_bytes 1 hitLength @ be_bytes 1 publicKeyAlgorithm @
        be_bytes 2 publicKeyLength @ hex.bytes hit @ base64.bytes publicKey @
        wire_names rendezvousServers"
  | "ext_image (RR_NINFO zSData) = wire_texts zSData"
  | "ext_image (RR_NID preference nodeID) = be_bytes 2 preference @ be_bytes 8 nodeID"
  | "ext_image (RR_L32 preference locator32) = be_bytes 2 preference @ ip4 locator32"
  | "ext_image (RR_L64 preference locator64) = be_bytes 2 preference @ be_bytes 8 locator64"
  | "ext_image (RR_LP preference fq) = be_bytes 2 preference @ wire_name fq"
  | "ext_image (RR_EUI48 address) = be_bytes 6 address"
  | "ext_image (RR_EUI64 address) = be_bytes 8 address"
  | "ext_image (RR_CAA flag tag val) = be_bytes 1 flag @ wire_text tag @ bytes_of val"
  | "ext_image (RR_UID uid) = be_bytes 4 uid"
  | "ext_image (RR_GID gid) = be_bytes 4 gid"
  | "ext_image (RR_UINFO uinfo) = wire_text uinfo"
  | "ext_image (RR_EID endpoint) = hex.bytes endpoint"
  | "ext_image (RR_NIMLOC locator) = hex.bytes locator"
  | "ext_image (RR_OPENPGPKEY publicKey) = base64.bytes publicKey"
  | "ext_image (RR_OPT options) = wire_options options"
  | "ext_image (RR_TSIG algorithm timeSigned fudge mACSize mac origId err otherLen otherData) =
        wire_name algorithm @ be_bytes 6 timeSigned @ be_bytes 2 fudge @ be_bytes 2 mACSize @
        hex.bytes mac @ be_bytes 2 origId @ be_bytes 2 err @ be_bytes 2 otherLen @ hex.bytes otherData"

primrec ext_valid :: "ext_rdata \<Rightarrow> bool" where
    "ext_valid (RR_TKEY algorithm inception expiration md err keySize ky otherLen otherData) \<longleftrightarrow>
        valid_name algorithm \<and> valid_text ky \<and> valid_text otherData"
  | "ext_valid (RR_RFC3597 rdata) \<longleftrightarrow> hex.canonical rdata"
  | "ext_valid (RR_URI priority wgt target) \<longleftrightarrow> valid_octets target"
  | "ext_valid (RR_DHCID digest) \<longleftrightarrow> base64.canonical digest"
  | "ext_valid (RR_TLSA usage selector matchingType certificate) \<longleftrightarrow> hex.canonical certificate"
  | "ext_valid (RR_SMIMEA usage selector matchingType certificate) \<longleftrightarrow> hex.canonical certificate"
  | "ext_valid (RR_HIP hitLength publicKeyAlgorithm publicKeyLength hit publicKey
        rendezvousServers) \<longleftrightarrow> hex.canonical hit \<and> unat hitLength = length (hex.bytes hit) \<and>
        base64.canonical publicKey \<and> unat publicKeyLength = length (base64.bytes publicKey) \<and>
        list_all valid_name rendezvousServers"
  | "ext_valid (RR_NINFO zSData) \<longleftrightarrow> valid_texts zSData"
  | "ext_valid (RR_NID preference nodeID) \<longleftrightarrow> True"
  | "ext_valid (RR_L32 preference locator32) \<longleftrightarrow> To4 locator32 \<noteq> None"
  | "ext_valid (RR_L64 preference locator64) \<longleftrightarrow> True"
  | "ext_valid (RR_LP preference fq) \<longleftrightarrow> valid_name fq"
  | "ext_valid (RR_EUI48 address) \<longleftrightarrow> address = take_bit 48 address"
  | "ext_valid (RR_EUI64 address) \<longleftrightarrow> True"
  | "ext_valid (RR_CAA flag tag val) \<longleftrightarrow> valid_text tag \<and> valid_octets val"
  | "ext_valid (RR_UID uid) \<longleftrightarrow> True"
  | "ext_valid (RR_GID gid) \<longleftrightarrow> True"
  | "ext_valid (RR_UINFO uinfo) \<longleftrightarrow> valid_text uinfo"
  | "ext_valid (RR_EID endpoint) \<longleftrightarrow> hex.canonical endpoint"
  | "ext_valid (RR_NIMLOC locator) \<longleftrightarrow> hex.canonical locator"
  | "ext_valid (RR_OPENPGPKEY publicKey) \<longleftrightarrow> base64.canonical publicKey"
  | "ext_valid (RR_OPT options) \<longleftrightarrow> list_all valid_option options"
  | "ext_valid (RR_TSIG algorithm timeSigned fudge mACSize mac origId err otherLen otherData) \<longleftrightarrow>
        valid_name algorithm \<and> timeSigned = take_bit 48 timeSigned \<and> hex.canonical mac \<and>
        unat mACSize = length (hex.bytes mac) \<and> hex.canonical otherData \<and> unat otherLen =
        length (hex.bytes otherData)"

text \<open>An IPv4 address is read back in its short form.\<close>

primrec ext_norm :: "ext_rdata \<Rightarrow> ext_rdata" where
    "ext_norm (RR_TKEY algorithm inception expiration md err keySize ky otherLen otherData) =
        RR_TKEY algorithm inception expiration md err keySize ky otherLen otherData"
  | "ext_norm (RR_RFC3597 rdata) = RR_RFC3597 rdata"
  | "ext_norm (RR_URI priority wgt target) = RR_URI priority wgt target"
  | "ext_norm (RR_DHCID digest) = RR_DHCID digest"
  | "ext_norm (RR_TLSA usage selector matchingType certificate) =
        RR_TLSA usage selector matchingType certificate"
  | "ext_norm (RR_SMIMEA usage selector matchingType certificate) =
        RR_SMIMEA usage selector matchingType certificate"
  | "ext_norm (RR_HIP hitLength publicKeyAlgorithm publicKeyLength hit publicKey
        rendezvousServers) = RR_HIP hitLength publicKeyAlgorithm publicKeyLength hit publicKey
        rendezvousServers"
  | "ext_norm (RR_NINFO zSData) = RR_NINFO zSData"
  | "ext_norm (RR_NID preference nodeID) = RR_NID preference nodeID"
  | "ext_norm (RR_L32 preference locator32) = RR_L32 preference (ip4 locator32)"
  | "ext_norm (RR_L64 preference locator64) = RR_L64 preference locator64"
  | "ext_norm (RR_LP preference fq) = RR_LP preference fq"
  | "ext_norm (RR_EUI48 address) = RR_EUI48 address"
  | "ext_norm (RR_EUI64 address) = RR_EUI64 address"
  | "ext_norm (RR_CAA flag tag val) = RR_CAA flag tag val"
  | "ext_norm (RR_UID uid) = RR_UID uid"
  | "ext_norm (RR_GID gid) = RR_GID gid"
  | "ext_norm (RR_UINFO uinfo) = RR_UINFO uinfo"
  | "ext_norm (RR_EID endpoint) = RR_EID endpoint"
  | "ext_norm (RR_NIMLOC locator) = RR_NIMLOC locator"
  | "ext_norm (RR_OPENPGPKEY publicKey) = RR_OPENPGPKEY publicKey"
  | "ext_norm (RR_OPT options) = RR_OPT options"
  | "ext_norm (RR_TSIG algorithm timeSigned fudge mACSize mac origId err otherLen otherData) =
        RR_TSIG algorithm timeSigned fudge mACSize mac origId err otherLen otherData"

lemmas ext_packers =
    pack_TKEY_def pack_RFC3597_def pack_URI_def pack_DHCID_def pack_TLSA_def pack_SMIMEA_def
    pack_HIP_def pack_NINFO_def pack_NID_def pack_L32_def pack_L64_def pack_LP_def pack_EUI48_def
    pack_EUI64_def pack_CAA_def pack_UID_def pack_GID_def pack_UINFO_def pack_EID_def
    pack_NIMLOC_def pack_OPENPGPKEY_def pack_OPT_def pack_TSIG_def

lemmas ext_unpacks =
    unpackTKEY_def unpackRFC3597_def unpackURI_def unpackDHCID_def unpackTLSA_def unpackSMIMEA_def
    unpackHIP_def unpackNINFO_def unpackNID_def unpackL32_def unpackL64_def unpackLP_def
    unpackEUI48_def unpackEUI64_def unpackCAA_def unpackUID_def unpackGID_def unpackUINFO_def
    unpackEID_def unpackNIMLOC_def unpackOPENPGPKEY_def unpackOPT_def unpackTSIG_def

section \<open>Packing\<close>

lemma ext_pack_emit:
  "ext_valid d \<Longrightarrow> valid_name (Name h) \<Longrightarrow> pcomp b = None \<Longrightarrow> fresh b \<Longrightarrow>
   fits (wire_header h @ ext_image d) b \<Longrightarrow>
   pack_ext d h False b =
    Ok (h\<lparr>Rdlength := of_nat (length (ext_image d))\<rparr>, emit (wire_header h @ ext_image d) b)"
  by (cases d; hypsubst; (unfold pack_ext.simps ext_image.simps ext_valid.simps ext_packers)?;
      rule pack_record_emit; (assumption | (intro record_writes; simp add: field_writes del:
        One_nat_def)))

section \<open>Unpacking\<close>

text \<open>The unpacker of a struct.\<close>

primrec ext_unpack :: "ext_rdata \<Rightarrow> RR_Header \<Rightarrow> byte list \<Rightarrow> nat \<Rightarrow> (ext_rdata \<times> nat) outcome" where
    "ext_unpack (RR_TKEY algorithm inception expiration md err keySize ky otherLen otherData) =
        unpackTKEY"
  | "ext_unpack (RR_RFC3597 rdata) = unpackRFC3597"
  | "ext_unpack (RR_URI priority wgt target) = unpackURI"
  | "ext_unpack (RR_DHCID digest) = unpackDHCID"
  | "ext_unpack (RR_TLSA usage selector matchingType certificate) = unpackTLSA"
  | "ext_unpack (RR_SMIMEA usage selector matchingType certificate) = unpackSMIMEA"
  | "ext_unpack (RR_HIP hitLength publicKeyAlgorithm publicKeyLength hit publicKey
        rendezvousServers) = unpackHIP"
  | "ext_unpack (RR_NINFO zSData) = unpackNINFO"
  | "ext_unpack (RR_NID preference nodeID) = unpackNID"
  | "ext_unpack (RR_L32 preference locator32) = unpackL32"
  | "ext_unpack (RR_L64 preference locator64) = unpackL64"
  | "ext_unpack (RR_LP preference fq) = unpackLP"
  | "ext_unpack (RR_EUI48 address) = unpackEUI48"
  | "ext_unpack (RR_EUI64 address) = unpackEUI64"
  | "ext_unpack (RR_CAA flag tag val) = unpackCAA"
  | "ext_unpack (RR_UID uid) = unpackUID"
  | "ext_unpack (RR_GID gid) = unpackGID"
  | "ext_unpack (RR_UINFO uinfo) = unpackUINFO"
  | "ext_unpack (RR_EID endpoint) = unpackEID"
  | "ext_unpack (RR_NIMLOC locator) = unpackNIMLOC"
  | "ext_unpack (RR_OPENPGPKEY publicKey) = unpackOPENPGPKEY"
  | "ext_unpack (RR_OPT options) = unpackOPT"
  | "ext_unpack (RR_TSIG algorithm timeSigned fudge mACSize mac origId err otherLen otherData) =
        unpackTSIG"

lemma ext_reads:
  "ext_valid d \<Longrightarrow> bytes_at msg off (ext_image d) \<Longrightarrow>
   length msg = off + length (ext_image d) \<Longrightarrow>
   unat (Rdlength h) = length (ext_image d) \<Longrightarrow>
   ext_unpack d h msg off = Ok (ext_norm d, length msg)"
  by (cases d; clarsimp simp: bytes_at_append;
     simp add: ext_unpackers_def ext_unpacks field_reads noRdata_iff Let_def add_ac)

lemma ext_listed:
  "ext_type d \<noteq> TypeNone \<Longrightarrow> (ext_type d, ext_unpack d) \<in> set ext_unpackers"
  by (cases d) (simp_all add: ext_unpackers_def)

lemma ext_inside:
  "(t, u) \<in> set ext_unpackers \<Longrightarrow> off \<le> length msg \<Longrightarrow>
     length msg \<le> off + unat (Rdlength h) \<Longrightarrow>
     inside msg off (u h msg off)"
  unfolding ext_unpackers_def
  by (simp only: set_simps insert_iff empty_iff prod.inject; elim disjE conjE FalseE;
      hypsubst; auto simp: ext_unpacks Let_def intro!: inside_rules)

end
