(* ===== verification/Wire_Record.thy ===== *)
theory Wire_Record
  imports Wire_RR_Std Wire_RR_Sec Wire_RR_Ext
begin

text \<open>
  Resource records on the wire: \<open>PackRR\<close>, \<open>UnpackRR\<close> and \<open>unpackRRslice\<close> of \<open>msg.go\<close> with the
  table \<open>typeToUnpack\<close> of \<open>zmsg.go\<close>, over all 69 structs.

  \<open>wire_record\<close> is the image of a record.  A record whose fields have an image and whose type is
  the one of its struct is packed as its image and unpacked again; what is read back is
  \<open>record_norm\<close>: the length of the data is in the header and an IPv4 address has four bytes.
  \<open>UnpackRR\<close> comes back on all bytes and moves on unless the message has ended.
\<close>

section \<open>The code\<close>

primrec pack_data :: "rdata \<Rightarrow> RR_Header \<Rightarrow> bool \<Rightarrow> pbuf \<Rightarrow> (RR_Header \<times> pbuf) outcome" where
  "pack_data (Std d) = pack_std d"
| "pack_data (Sec d) = pack_sec d"
| "pack_data (Ext d) = pack_ext d"

definition rr_pack :: "RR \<Rightarrow> bool \<Rightarrow> pbuf \<Rightarrow> (RR \<times> pbuf) outcome" where
  "rr_pack rr compress b =
     map_ok (\<lambda>(hdr, b). (rr\<lparr>Hdr := hdr\<rparr>, b)) (pack_data (Rdata rr) (Hdr rr) compress b)"

text \<open>A nil \<open>rr\<close> is not modelled.  The packed record has its \<open>Rdlength\<close> set.\<close>

definition PackRR :: "RR \<Rightarrow> bool \<Rightarrow> pbuf \<Rightarrow> (RR \<times> pbuf) outcome" where
  "PackRR rr compress b =
     obind (rr_pack rr compress b) (\<lambda>(rr, b1).
       case rawSetRdlength (pmsg b1) (poff b) (poff b1) of
         Some m \<Rightarrow> Ok (rr, b1\<lparr>pmsg := m\<rparr>)
       | None \<Rightarrow> Err ErrRdata)"

type_synonym unpacker = "RR_Header \<Rightarrow> byte list \<Rightarrow> nat \<Rightarrow> (rdata \<times> nat) outcome"

definition lift_unpacker ::
    "('d \<Rightarrow> rdata) \<Rightarrow> (RR_Header \<Rightarrow> byte list \<Rightarrow> nat \<Rightarrow> ('d \<times> nat) outcome) \<Rightarrow> unpacker" where
  "lift_unpacker c u = (\<lambda>h msg off. map_ok (\<lambda>(d, off). (c d, off)) (u h msg off))"

definition unpackers :: "(uint16 \<times> unpacker) list" where
  "unpackers =
     map (\<lambda>(t, u). (t, lift_unpacker Std u)) std_unpackers @
     map (\<lambda>(t, u). (t, lift_unpacker Sec u)) sec_unpackers @
     map (\<lambda>(t, u). (t, lift_unpacker Ext u)) ext_unpackers"

definition typeToUnpack :: "uint16 \<Rightarrow> unpacker option" where
  "typeToUnpack = map_of unpackers"

text \<open>
  An error of the unpacker is reported as \<open>bad rdlength\<close> when the offset returned with it is not the
  end of the record; that text is the only difference and not modelled.
\<close>

definition UnpackRR :: "byte list \<Rightarrow> nat \<Rightarrow> (RR \<times> nat) outcome" where
  "UnpackRR msg off =
     obind (unpackHeader msg off) (\<lambda>(h, off, msg).
       let fin = off + unat (Rdlength h)
       in obind
            (case typeToUnpack (Rrtype h) of
               None \<Rightarrow> lift_unpacker Ext unpackRFC3597 h msg off
             | Some fn \<Rightarrow> fn h msg off)
            (\<lambda>(d, off).
              if off \<noteq> fin then Err (Error ''bad rdlength'')
              else Ok (\<lparr>Hdr = h, Rdata = d\<rparr>, off)))"

text \<open>
  The loop of \<open>unpackRRslice\<close>, at most \<open>l\<close> times.  On an error the offset is the end of the message
  and there are no records; a record that does not move the offset ends the loop.
\<close>

primrec unpackRRslice_loop ::
    "nat \<Rightarrow> byte list \<Rightarrow> nat \<Rightarrow> RR list \<Rightarrow> (RR list \<times> nat \<times> go_error option) outcome" where
  "unpackRRslice_loop 0 msg off dst = Ok (dst, off, None)"
| "unpackRRslice_loop (Suc l) msg off dst =
     (case UnpackRR msg off of
        Ok (r, off1) \<Rightarrow>
          if off = off1 then Ok (dst, off, None)
          else unpackRRslice_loop l msg off1 (dst @ [r])
      | Err e \<Rightarrow> Ok ([], length msg, Some e)
      | Panic p \<Rightarrow> Panic p
      | Loops \<Rightarrow> Loops)"

definition unpackRRslice :: "nat \<Rightarrow> byte list \<Rightarrow> nat \<Rightarrow> (RR list \<times> nat \<times> go_error option) outcome" where
  "unpackRRslice l msg off = unpackRRslice_loop l msg off []"

section \<open>The table of unpackers\<close>

lemma types_distinct: "distinct (map fst unpackers)"
proof -
  have "map fst unpackers = map fst std_unpackers @ map fst sec_unpackers @ map fst ext_unpackers"
    by (simp add: unpackers_def comp_def case_prod_beta)
  moreover have "distinct (map uint (map fst std_unpackers @ map fst sec_unpackers @ map fst ext_unpackers))"
    unfolding std_unpackers_def sec_unpackers_def ext_unpackers_def list.map fst_conv append.simps
    by simp
  then have "distinct (map fst std_unpackers @ map fst sec_unpackers @ map fst ext_unpackers)"
    unfolding distinct_map by (rule conjunct1)
  ultimately show ?thesis by simp
qed

lemma typeToUnpack_iff: "typeToUnpack t = Some u \<longleftrightarrow> (t, u) \<in> set unpackers"
  unfolding typeToUnpack_def by (rule map_of_eq_Some_iff [OF types_distinct])

lemma lift_inside [simp]: "inside msg off (lift_unpacker c u h m n) \<longleftrightarrow> inside msg off (u h m n)"
  by (cases "u h m n") (auto simp: lift_unpacker_def)

lemma unpackers_inside:
  assumes "typeToUnpack t = Some u" "off \<le> length msg" "length msg \<le> off + unat (Rdlength h)"
  shows "inside msg off (u h msg off)"
  using assms std_inside [of t _ off msg h] sec_inside [of t _ off msg h] ext_inside [of t _ off msg h]
  unfolding typeToUnpack_iff unpackers_def by auto

lemma unpackRFC3597_inside:
  "off \<le> length msg \<Longrightarrow> length msg \<le> off + unat (Rdlength h) \<Longrightarrow> inside msg off (unpackRFC3597 h msg off)"
  by (auto simp: unpackRFC3597_def Let_def intro!: inside_rules)

lemma UnpackRR_shape:
  "UnpackRR msg off =
     obind (unpackHeader msg off) (\<lambda>(h, off, msg).
       obind
         (case typeToUnpack (Rrtype h) of
            None \<Rightarrow> lift_unpacker Ext unpackRFC3597 h msg off
          | Some fn \<Rightarrow> fn h msg off)
         (\<lambda>(d, off1).
           if off1 \<noteq> off + unat (Rdlength h) then Err (Error ''bad rdlength'')
           else Ok (\<lparr>Hdr = h, Rdata = d\<rparr>, off1)))"
  by (simp add: UnpackRR_def Let_def)

lemma data_inside:
  assumes "off \<le> length msg" "length msg \<le> off + unat (Rdlength h)"
  shows "inside msg off
    (case typeToUnpack (Rrtype h) of
       None \<Rightarrow> lift_unpacker Ext unpackRFC3597 h msg off
     | Some fn \<Rightarrow> fn h msg off)"
  using assms unpackers_inside unpackRFC3597_inside by (auto split: option.splits)

lemma UnpackRR_inside:
  assumes "off \<le> length msg"
  shows "inside msg off (UnpackRR msg off)"
    and "UnpackRR msg off = Ok (r, off) \<Longrightarrow> off = length msg"
proof -
  have all: "inside msg off (UnpackRR msg off) \<and> (UnpackRR msg off = Ok (r, off) \<longrightarrow> off = length msg)"
  proof (rule unpackHeader_cases [OF assms])
    fix e assume "unpackHeader msg off = Err e"
    then show ?thesis by (simp add: UnpackRR_def)
  next
    assume h: "unpackHeader msg off = Ok (zero_header, off, msg)" "off = length msg"
    then have "inside msg off (UnpackRR msg off)"
      using data_inside [of off msg zero_header]
      unfolding UnpackRR_shape by (auto intro!: inside_rules)
    then show ?thesis using h by simp
  next
    fix h :: RR_Header and off'
    let ?m = "fst (truncateMsgFromRdlength msg off' (Rdlength h))"
    assume h: "unpackHeader msg off = Ok (h, off', ?m)" "off < off'" "off' \<le> length msg"
    define d where "d = (case typeToUnpack (Rrtype h) of
       None \<Rightarrow> lift_unpacker Ext unpackRFC3597 h ?m off' | Some fn \<Rightarrow> fn h ?m off')"
    have m: "off' \<le> length ?m" "length ?m \<le> length msg" "length ?m \<le> off' + unat (Rdlength h)"
      using truncate_length [OF h(3) refl] by simp_all
    have d: "inside ?m off' d" unfolding d_def by (rule data_inside [OF m(1,3)])
    have "UnpackRR msg off = obind d (\<lambda>(d, off1).
        if off1 \<noteq> off' + unat (Rdlength h) then Err (Error ''bad rdlength'')
        else Ok (\<lparr>Hdr = h, Rdata = d\<rparr>, off1))"
      by (simp add: UnpackRR_shape h(1) d_def)
    then show ?thesis using d m h(2) by (cases d) (auto split: if_splits)
  qed
  show "inside msg off (UnpackRR msg off)" using all ..
  show "UnpackRR msg off = Ok (r, off) \<Longrightarrow> off = length msg" using all by simp
qed

section \<open>The image of a record\<close>

primrec data_image :: "rdata \<Rightarrow> byte list" where
  "data_image (Std d) = std_image d"
| "data_image (Sec d) = sec_image d"
| "data_image (Ext d) = ext_image d"

primrec data_valid :: "rdata \<Rightarrow> bool" where
  "data_valid (Std d) \<longleftrightarrow> std_valid d"
| "data_valid (Sec d) \<longleftrightarrow> sec_valid d"
| "data_valid (Ext d) \<longleftrightarrow> ext_valid d"

primrec data_norm :: "rdata \<Rightarrow> rdata" where
  "data_norm (Std d) = Std (std_norm d)"
| "data_norm (Sec d) = Sec d"
| "data_norm (Ext d) = Ext (ext_norm d)"

text \<open>The type of a struct; \<open>TypeNone\<close> for \<open>RFC3597\<close>, which stands for every type without struct.\<close>

primrec data_type :: "rdata \<Rightarrow> uint16" where
  "data_type (Std d) = std_type d"
| "data_type (Sec d) = sec_type d"
| "data_type (Ext d) = ext_type d"

definition type_fits :: "RR \<Rightarrow> bool" where
  "type_fits rr \<longleftrightarrow>
     (if data_type (Rdata rr) = TypeNone then typeToUnpack (Rrtype (Hdr rr)) = None
      else Rrtype (Hdr rr) = data_type (Rdata rr))"

definition record_valid :: "RR \<Rightarrow> bool" where
  "record_valid rr \<longleftrightarrow>
     valid_name (Name (Hdr rr)) \<and> data_valid (Rdata rr) \<and> type_fits rr \<and>
     length (data_image (Rdata rr)) < 65536"

definition full_header :: "RR \<Rightarrow> RR_Header" where
  "full_header rr = (Hdr rr)\<lparr>Rdlength := of_nat (length (data_image (Rdata rr)))\<rparr>"

definition record_norm :: "RR \<Rightarrow> RR" where
  "record_norm rr = \<lparr>Hdr = full_header rr, Rdata = data_norm (Rdata rr)\<rparr>"

definition wire_record :: "RR \<Rightarrow> byte list" where
  "wire_record rr = wire_header (full_header rr) @ data_image (Rdata rr)"

lemma pack_data_emit:
  "data_valid d \<Longrightarrow> valid_name (Name h) \<Longrightarrow> pcomp b = None \<Longrightarrow> fresh b \<Longrightarrow>
   fits (wire_header h @ data_image d) b \<Longrightarrow>
   pack_data d h False b =
     Ok (h\<lparr>Rdlength := of_nat (length (data_image d))\<rparr>, emit (wire_header h @ data_image d) b)"
  by (cases d) (simp_all add: std_pack_emit sec_pack_emit ext_pack_emit)

lemma length_full_header [simp]: "length (wire_header (full_header rr)) = length (wire_header (Hdr rr))"
  by (simp add: length_wire_header full_header_def)

lemma PackRR_writes:
  assumes v': "valid_name (Name (Hdr rr))" "data_valid (Rdata rr)" "length (data_image (Rdata rr)) < 65536"
    and b: "pcomp b = None" "fresh b" and f: "fits (wire_record rr) b"
  shows "PackRR rr False b = Ok (rr\<lparr>Hdr := full_header rr\<rparr>, emit (wire_record rr) b)"
proof -
  let ?i = "data_image (Rdata rr)"
  have f': "fits (wire_header (Hdr rr) @ ?i) b" using f by (simp add: fits_def wire_record_def)
  have "rr_pack rr False b = Ok (rr\<lparr>Hdr := full_header rr\<rparr>, emit (wire_header (Hdr rr) @ ?i) b)"
    using pack_data_emit [OF v'(2,1) b f'] by (simp add: rr_pack_def full_header_def)
  moreover have "rawSetRdlength (pmsg (emit (wire_header (Hdr rr) @ ?i) b)) (poff b)
      (poff b + length (wire_header (Hdr rr) @ ?i)) = Some (pmsg (emit (wire_record rr) b))"
    using raw_patches [OF v'(1) f' v'(3)] by (simp add: wire_record_def full_header_def)
  ultimately show ?thesis
    by (simp add: PackRR_def) (simp add: emit_def wire_record_def)
qed

lemma PackRR_emit:
  assumes "record_valid rr" and "pcomp b = None" "fresh b" and "fits (wire_record rr) b"
  shows "PackRR rr False b = Ok (rr\<lparr>Hdr := full_header rr\<rparr>, emit (wire_record rr) b)"
  using assms by (intro PackRR_writes) (simp_all add: record_valid_def)

lemma data_type_norm [simp]: "data_type (data_norm d) = data_type d"
proof -
  have "std_type (std_norm e) = std_type e" for e by (cases e) simp_all
  moreover have "ext_type (ext_norm e) = ext_type e" for e by (cases e) simp_all
  ultimately show ?thesis by (cases d) simp_all
qed

lemma data_reads:
  assumes v: "data_valid d" and t: "if data_type d = TypeNone then typeToUnpack t = None else t = data_type d"
    and at: "bytes_at msg off (data_image d)" "length msg = off + length (data_image d)"
      "unat (Rdlength h) = length (data_image d)"
  shows "(case typeToUnpack t of
      None \<Rightarrow> lift_unpacker Ext unpackRFC3597 h msg off
    | Some fn \<Rightarrow> fn h msg off) = Ok (data_norm d, length msg)"
proof (cases d)
  case (Std e)
  have "std_type e \<noteq> TypeNone" by (cases e) simp_all
  then have "typeToUnpack t = Some (lift_unpacker Std (std_unpack e))"
    using t std_listed [of e] by (auto simp: Std typeToUnpack_iff unpackers_def)
  then show ?thesis
    using std_reads [of e msg off h] v at by (simp add: Std lift_unpacker_def)
next
  case (Sec e)
  have "sec_type e \<noteq> TypeNone" by (cases e) simp_all
  then have "typeToUnpack t = Some (lift_unpacker Sec (sec_unpack e))"
    using t sec_listed [of e] by (auto simp: Sec typeToUnpack_iff unpackers_def)
  then show ?thesis
    using sec_reads [of e msg off h] v at by (simp add: Sec lift_unpacker_def)
next
  case (Ext e)
  show ?thesis
  proof (cases "ext_type e = TypeNone")
    case True
    then obtain s where "e = RR_RFC3597 s" by (cases e) simp_all
    then show ?thesis
      using ext_reads [of e msg off h] v at t True by (simp add: Ext lift_unpacker_def)
  next
    case False
    then have "typeToUnpack t = Some (lift_unpacker Ext (ext_unpack e))"
      using t ext_listed [of e] by (auto simp: Ext typeToUnpack_iff unpackers_def)
    then show ?thesis
      using ext_reads [of e msg off h] v at by (simp add: Ext lift_unpacker_def)
  qed
qed

lemma UnpackRR_reads:
  assumes v: "record_valid rr"
  shows "reads UnpackRR (record_norm rr) (wire_record rr)"
  unfolding reads_def
proof (intro allI impI)
  fix msg off assume at: "bytes_at msg off (wire_record rr)"
  define h where "h = full_header rr"
  define i where "i = data_image (Rdata rr)"
  define n where "n = off + length (wire_header h)"
  define m where "m = take (n + length i) msg"
  have v': "valid_name (Name h)" "data_valid (Rdata rr)" "length i < 65536" "type_fits rr"
    using v by (simp_all add: record_valid_def full_header_def h_def i_def)
  have len: "unat (Rdlength h) = length i"
    using v'(3) by (simp add: h_def i_def full_header_def unat_of_nat take_bit_nat_eq_self)
  have at': "bytes_at msg off (wire_header h)" "bytes_at msg n i"
    using at by (simp_all add: wire_record_def bytes_at_append h_def i_def n_def)
  then have le: "n + length i \<le> length msg" by (simp add: bytes_at_def)
  have u: "unpackHeader msg off = Ok (h, n, m)"
    using header_reads [OF v'(1) at'(1)] truncate_exact(2) [of n "Rdlength h" msg] le len
    by (simp add: n_def m_def)
  have m: "length m = n + length i" using le by (simp add: m_def)
  have "bytes_at m n i" using at'(2) le by (simp add: bytes_at_def drop_take m_def)
  then have "(case typeToUnpack (Rrtype h) of
      None \<Rightarrow> lift_unpacker Ext unpackRFC3597 h m n
    | Some fn \<Rightarrow> fn h m n) = Ok (data_norm (Rdata rr), length m)"
    using v'(4) m len unfolding i_def
    by (intro data_reads [OF v'(2)]) (simp_all add: type_fits_def h_def full_header_def)
  then show "UnpackRR msg off = Ok (record_norm rr, off + length (wire_record rr))"
    by (simp add: UnpackRR_shape u m len) (simp add: n_def h_def i_def record_norm_def wire_record_def)
qed

end
