(* ===== verification/Wire_Len.thy ===== *)
theory Wire_Len
  imports Wire_Record
begin

text \<open>
  The lengths of records: the methods \<open>len\<close> of \<open>ztypes.go\<close>, \<open>types.go\<close> and \<open>edns.go\<close>, which
  \<open>compressedLen\<close> adds up to the size of the buffer a message is packed into, and the methods
  \<open>copy\<close> of \<open>ztypes.go\<close>.  A struct that embeds another has the methods of that one.

  The length is an upper bound of the image (\<open>data_len_bound\<close>), for the type bitmaps under a
  condition: a block of a bitmap is counted with 33 bytes but may have 34, and a list that starts
  in window 35 is not counted at all, because \<open>2 ^ 32 + 1\<close> is 35 in Go.
\<close>

section \<open>The methods len\<close>

definition header_len :: "RR_Header \<Rightarrow> nat" where
  "header_len h = length (Name h) + 1 + 10"

definition base64_DecodedLen :: "nat \<Rightarrow> nat" where
  "base64_DecodedLen n = n div 4 * 3"

text \<open>\<open>for _, x := range xs { l += len(x) + 1 }\<close>\<close>

definition texts_len :: "string list \<Rightarrow> nat" where
  "texts_len xs = sum_list (map (\<lambda>x. length x + 1) xs)"

text \<open>The loop over a type bitmap; \<open>2 ^ 32 + 1\<close> is \<open>(2 XOR 32) + 1\<close>.\<close>

primrec windows_len :: "uint16 list \<Rightarrow> uint32 \<Rightarrow> nat" where
  "windows_len [] lastwindow = 0"
| "windows_len (t # ts) lastwindow =
     (let window = t div 256
      in (if ucast window \<noteq> lastwindow then 1 + 32 else 0) + windows_len ts (ucast window))"

definition bitmap_len :: "uint16 list \<Rightarrow> nat" where
  "bitmap_len ts = windows_len ts 35"

definition len_NSEC :: "RR_Header \<Rightarrow> string \<Rightarrow> uint16 list \<Rightarrow> nat" where
  "len_NSEC hdr nextDomain typeBitMap = header_len hdr + length nextDomain + 1 + bitmap_len typeBitMap"

definition len_NSEC3 ::
    "RR_Header \<Rightarrow> byte \<Rightarrow> byte \<Rightarrow> uint16 \<Rightarrow> byte \<Rightarrow> string \<Rightarrow> byte \<Rightarrow> string \<Rightarrow> uint16 list \<Rightarrow> nat" where
  "len_NSEC3 hdr hsh flags iterations saltLength salt hashLength nextDomain typeBitMap =
     header_len hdr + 6 + length salt div 2 + 1 + length nextDomain + 1 + bitmap_len typeBitMap"

text \<open>An option that cannot be packed counts as its header; one whose \<open>pack\<close> panics panics here.\<close>

primrec len_OPT :: "EDNS0 list \<Rightarrow> RR_Header \<Rightarrow> nat outcome" where
  "len_OPT [] hdr = Ok (header_len hdr)"
| "len_OPT (el # els) hdr =
     obind (case edns_pack el of Err e \<Rightarrow> Ok [] | m \<Rightarrow> m) (\<lambda>lo.
       map_ok (\<lambda>l. l + 4 + length lo) (len_OPT els hdr))"

definition len_ANY :: "RR_Header \<Rightarrow> nat" where
  "len_ANY hdr =
     header_len hdr"

definition len_CNAME :: "RR_Header \<Rightarrow> string \<Rightarrow> nat" where
  "len_CNAME hdr target =
     header_len hdr + (length target + 1)"

definition len_HINFO :: "RR_Header \<Rightarrow> string \<Rightarrow> string \<Rightarrow> nat" where
  "len_HINFO hdr cpu os =
     header_len hdr + (length cpu + 1) + (length os + 1)"

definition len_MB :: "RR_Header \<Rightarrow> string \<Rightarrow> nat" where
  "len_MB hdr mb =
     header_len hdr + (length mb + 1)"

definition len_MG :: "RR_Header \<Rightarrow> string \<Rightarrow> nat" where
  "len_MG hdr mg =
     header_len hdr + (length mg + 1)"

definition len_MINFO :: "RR_Header \<Rightarrow> string \<Rightarrow> string \<Rightarrow> nat" where
  "len_MINFO hdr rmail email =
     header_len hdr + (length rmail + 1) + (length email + 1)"

definition len_MR :: "RR_Header \<Rightarrow> string \<Rightarrow> nat" where
  "len_MR hdr mr =
     header_len hdr + (length mr + 1)"

definition len_MF :: "RR_Header \<Rightarrow> string \<Rightarrow> nat" where
  "len_MF hdr mf =
     header_len hdr + (length mf + 1)"

definition len_MD :: "RR_Header \<Rightarrow> string \<Rightarrow> nat" where
  "len_MD hdr md =
     header_len hdr + (length md + 1)"

definition len_MX :: "RR_Header \<Rightarrow> uint16 \<Rightarrow> string \<Rightarrow> nat" where
  "len_MX hdr preference mx =
     header_len hdr + 2 + (length mx + 1)"

definition len_AFSDB :: "RR_Header \<Rightarrow> uint16 \<Rightarrow> string \<Rightarrow> nat" where
  "len_AFSDB hdr subtype hostname =
     header_len hdr + 2 + (length hostname + 1)"

definition len_X25 :: "RR_Header \<Rightarrow> string \<Rightarrow> nat" where
  "len_X25 hdr pSDNAddress =
     header_len hdr + (length pSDNAddress + 1)"

definition len_RT :: "RR_Header \<Rightarrow> uint16 \<Rightarrow> string \<Rightarrow> nat" where
  "len_RT hdr preference host =
     header_len hdr + 2 + (length host + 1)"

definition len_NS :: "RR_Header \<Rightarrow> string \<Rightarrow> nat" where
  "len_NS hdr ns =
     header_len hdr + (length ns + 1)"

definition len_PTR :: "RR_Header \<Rightarrow> string \<Rightarrow> nat" where
  "len_PTR hdr ptr =
     header_len hdr + (length ptr + 1)"

definition len_RP :: "RR_Header \<Rightarrow> string \<Rightarrow> string \<Rightarrow> nat" where
  "len_RP hdr mbox txt =
     header_len hdr + (length mbox + 1) + (length txt + 1)"

definition len_SOA :: "RR_Header \<Rightarrow> string \<Rightarrow> string \<Rightarrow> uint32 \<Rightarrow> uint32 \<Rightarrow> uint32 \<Rightarrow> uint32 \<Rightarrow> uint32 \<Rightarrow>
        nat" where
  "len_SOA hdr ns mbox serial refresh retry expire minttl =
     header_len hdr + (length ns + 1) + (length mbox + 1) + 4 + 4 + 4 + 4 + 4"

definition len_TXT :: "RR_Header \<Rightarrow> string list \<Rightarrow> nat" where
  "len_TXT hdr txt =
     header_len hdr + texts_len txt"

definition len_SPF :: "RR_Header \<Rightarrow> string list \<Rightarrow> nat" where
  "len_SPF hdr txt =
     header_len hdr + texts_len txt"

definition len_AVC :: "RR_Header \<Rightarrow> string list \<Rightarrow> nat" where
  "len_AVC hdr txt =
     header_len hdr + texts_len txt"

definition len_SRV :: "RR_Header \<Rightarrow> uint16 \<Rightarrow> uint16 \<Rightarrow> uint16 \<Rightarrow> string \<Rightarrow> nat" where
  "len_SRV hdr priority wgt port target =
     header_len hdr + 2 + 2 + 2 + (length target + 1)"

definition len_NAPTR :: "RR_Header \<Rightarrow> uint16 \<Rightarrow> uint16 \<Rightarrow> string \<Rightarrow> string \<Rightarrow> string \<Rightarrow> string \<Rightarrow> nat" where
  "len_NAPTR hdr ordr preference flags service regexp replacement =
     header_len hdr + 2 + 2 + (length flags + 1) + (length service + 1) + (length regexp + 1) +
        (length replacement + 1)"

definition len_CERT :: "RR_Header \<Rightarrow> uint16 \<Rightarrow> uint16 \<Rightarrow> byte \<Rightarrow> string \<Rightarrow> nat" where
  "len_CERT hdr ty keyTag algorithm certificate =
     header_len hdr + 2 + 2 + 1 + base64_DecodedLen (length certificate)"

definition len_DNAME :: "RR_Header \<Rightarrow> string \<Rightarrow> nat" where
  "len_DNAME hdr target =
     header_len hdr + (length target + 1)"

definition len_A :: "RR_Header \<Rightarrow> IP \<Rightarrow> nat" where
  "len_A hdr a =
     header_len hdr + 4"

definition len_AAAA :: "RR_Header \<Rightarrow> IP \<Rightarrow> nat" where
  "len_AAAA hdr aaaa =
     header_len hdr + 16"

definition len_PX :: "RR_Header \<Rightarrow> uint16 \<Rightarrow> string \<Rightarrow> string \<Rightarrow> nat" where
  "len_PX hdr preference map822 mapx400 =
     header_len hdr + 2 + (length map822 + 1) + (length mapx400 + 1)"

definition len_GPOS :: "RR_Header \<Rightarrow> string \<Rightarrow> string \<Rightarrow> string \<Rightarrow> nat" where
  "len_GPOS hdr longitude latitude altitude =
     header_len hdr + (length longitude + 1) + (length latitude + 1) + (length altitude + 1)"

definition len_LOC :: "RR_Header \<Rightarrow> byte \<Rightarrow> byte \<Rightarrow> byte \<Rightarrow> byte \<Rightarrow> uint32 \<Rightarrow> uint32 \<Rightarrow> uint32 \<Rightarrow> nat" where
  "len_LOC hdr version siz horizPre vertPre latitude longitude altitude =
     header_len hdr + 1 + 1 + 1 + 1 + 4 + 4 + 4"

definition len_RRSIG :: "RR_Header \<Rightarrow> uint16 \<Rightarrow> byte \<Rightarrow> byte \<Rightarrow> uint32 \<Rightarrow> uint32 \<Rightarrow> uint32 \<Rightarrow> uint16 \<Rightarrow>
        string \<Rightarrow> string \<Rightarrow> nat" where
  "len_RRSIG hdr typeCovered algorithm labels origTtl expiration inception keyTag signerName signature =
     header_len hdr + 2 + 1 + 1 + 4 + 4 + 4 + 2 + (length signerName + 1) + base64_DecodedLen
        (length signature)"

definition len_DS :: "RR_Header \<Rightarrow> uint16 \<Rightarrow> byte \<Rightarrow> byte \<Rightarrow> string \<Rightarrow> nat" where
  "len_DS hdr keyTag algorithm digestType digest =
     header_len hdr + 2 + 1 + 1 + (length digest div 2 + 1)"

definition len_KX :: "RR_Header \<Rightarrow> uint16 \<Rightarrow> string \<Rightarrow> nat" where
  "len_KX hdr preference exchanger =
     header_len hdr + 2 + (length exchanger + 1)"

definition len_TA :: "RR_Header \<Rightarrow> uint16 \<Rightarrow> byte \<Rightarrow> byte \<Rightarrow> string \<Rightarrow> nat" where
  "len_TA hdr keyTag algorithm digestType digest =
     header_len hdr + 2 + 1 + 1 + (length digest div 2 + 1)"

definition len_TALINK :: "RR_Header \<Rightarrow> string \<Rightarrow> string \<Rightarrow> nat" where
  "len_TALINK hdr previousName nextName =
     header_len hdr + (length previousName + 1) + (length nextName + 1)"

definition len_SSHFP :: "RR_Header \<Rightarrow> byte \<Rightarrow> byte \<Rightarrow> string \<Rightarrow> nat" where
  "len_SSHFP hdr algorithm ty fingerPrint =
     header_len hdr + 1 + 1 + (length fingerPrint div 2 + 1)"

definition len_DNSKEY :: "RR_Header \<Rightarrow> uint16 \<Rightarrow> byte \<Rightarrow> byte \<Rightarrow> string \<Rightarrow> nat" where
  "len_DNSKEY hdr flags protocol algorithm publicKey =
     header_len hdr + 2 + 1 + 1 + base64_DecodedLen (length publicKey)"

definition len_RKEY :: "RR_Header \<Rightarrow> uint16 \<Rightarrow> byte \<Rightarrow> byte \<Rightarrow> string \<Rightarrow> nat" where
  "len_RKEY hdr flags protocol algorithm publicKey =
     header_len hdr + 2 + 1 + 1 + base64_DecodedLen (length publicKey)"

definition len_NSAPPTR :: "RR_Header \<Rightarrow> string \<Rightarrow> nat" where
  "len_NSAPPTR hdr ptr =
     header_len hdr + (length ptr + 1)"

definition len_NSEC3PARAM :: "RR_Header \<Rightarrow> byte \<Rightarrow> byte \<Rightarrow> uint16 \<Rightarrow> byte \<Rightarrow> string \<Rightarrow> nat" where
  "len_NSEC3PARAM hdr hsh flags iterations saltLength salt =
     header_len hdr + 1 + 1 + 2 + 1 + (length salt div 2 + 1)"

definition len_TKEY :: "RR_Header \<Rightarrow> string \<Rightarrow> uint32 \<Rightarrow> uint32 \<Rightarrow> uint16 \<Rightarrow> uint16 \<Rightarrow> uint16 \<Rightarrow> string \<Rightarrow>
        uint16 \<Rightarrow> string \<Rightarrow> nat" where
  "len_TKEY hdr algorithm inception expiration md err keySize ky otherLen otherData =
     header_len hdr + (length algorithm + 1) + 4 + 4 + 2 + 2 + 2 + (length ky + 1) + 2 + (length
        otherData + 1)"

definition len_RFC3597 :: "RR_Header \<Rightarrow> string \<Rightarrow> nat" where
  "len_RFC3597 hdr rdata =
     header_len hdr + (length rdata div 2 + 1)"

definition len_URI :: "RR_Header \<Rightarrow> uint16 \<Rightarrow> uint16 \<Rightarrow> string \<Rightarrow> nat" where
  "len_URI hdr priority wgt target =
     header_len hdr + 2 + 2 + length target"

definition len_DHCID :: "RR_Header \<Rightarrow> string \<Rightarrow> nat" where
  "len_DHCID hdr digest =
     header_len hdr + base64_DecodedLen (length digest)"

definition len_TLSA :: "RR_Header \<Rightarrow> byte \<Rightarrow> byte \<Rightarrow> byte \<Rightarrow> string \<Rightarrow> nat" where
  "len_TLSA hdr usage selector matchingType certificate =
     header_len hdr + 1 + 1 + 1 + (length certificate div 2 + 1)"

definition len_SMIMEA :: "RR_Header \<Rightarrow> byte \<Rightarrow> byte \<Rightarrow> byte \<Rightarrow> string \<Rightarrow> nat" where
  "len_SMIMEA hdr usage selector matchingType certificate =
     header_len hdr + 1 + 1 + 1 + (length certificate div 2 + 1)"

definition len_HIP :: "RR_Header \<Rightarrow> byte \<Rightarrow> byte \<Rightarrow> uint16 \<Rightarrow> string \<Rightarrow> string \<Rightarrow> string list \<Rightarrow> nat" where
  "len_HIP hdr hitLength publicKeyAlgorithm publicKeyLength hit publicKey rendezvousServers =
     header_len hdr + 1 + 1 + 2 + (length hit div 2 + 1) + base64_DecodedLen (length publicKey) +
        texts_len rendezvousServers"

definition len_NINFO :: "RR_Header \<Rightarrow> string list \<Rightarrow> nat" where
  "len_NINFO hdr zSData =
     header_len hdr + texts_len zSData"

definition len_NID :: "RR_Header \<Rightarrow> uint16 \<Rightarrow> uint64 \<Rightarrow> nat" where
  "len_NID hdr preference nodeID =
     header_len hdr + 2 + 8"

definition len_L32 :: "RR_Header \<Rightarrow> uint16 \<Rightarrow> IP \<Rightarrow> nat" where
  "len_L32 hdr preference locator32 =
     header_len hdr + 2 + 4"

definition len_L64 :: "RR_Header \<Rightarrow> uint16 \<Rightarrow> uint64 \<Rightarrow> nat" where
  "len_L64 hdr preference locator64 =
     header_len hdr + 2 + 8"

definition len_LP :: "RR_Header \<Rightarrow> uint16 \<Rightarrow> string \<Rightarrow> nat" where
  "len_LP hdr preference fq =
     header_len hdr + 2 + (length fq + 1)"

definition len_EUI48 :: "RR_Header \<Rightarrow> uint64 \<Rightarrow> nat" where
  "len_EUI48 hdr address =
     header_len hdr + 6"

definition len_EUI64 :: "RR_Header \<Rightarrow> uint64 \<Rightarrow> nat" where
  "len_EUI64 hdr address =
     header_len hdr + 8"

definition len_CAA :: "RR_Header \<Rightarrow> byte \<Rightarrow> string \<Rightarrow> string \<Rightarrow> nat" where
  "len_CAA hdr flag tag val =
     header_len hdr + 1 + (length tag + 1) + length val"

definition len_UID :: "RR_Header \<Rightarrow> uint32 \<Rightarrow> nat" where
  "len_UID hdr uid =
     header_len hdr + 4"

definition len_GID :: "RR_Header \<Rightarrow> uint32 \<Rightarrow> nat" where
  "len_GID hdr gid =
     header_len hdr + 4"

definition len_UINFO :: "RR_Header \<Rightarrow> string \<Rightarrow> nat" where
  "len_UINFO hdr uinfo =
     header_len hdr + (length uinfo + 1)"

definition len_EID :: "RR_Header \<Rightarrow> string \<Rightarrow> nat" where
  "len_EID hdr endpoint =
     header_len hdr + (length endpoint div 2 + 1)"

definition len_NIMLOC :: "RR_Header \<Rightarrow> string \<Rightarrow> nat" where
  "len_NIMLOC hdr locator =
     header_len hdr + (length locator div 2 + 1)"

definition len_OPENPGPKEY :: "RR_Header \<Rightarrow> string \<Rightarrow> nat" where
  "len_OPENPGPKEY hdr publicKey =
     header_len hdr + base64_DecodedLen (length publicKey)"

definition len_TSIG :: "RR_Header \<Rightarrow> string \<Rightarrow> uint64 \<Rightarrow> uint16 \<Rightarrow> uint16 \<Rightarrow> string \<Rightarrow> uint16 \<Rightarrow> uint16 \<Rightarrow>
        uint16 \<Rightarrow> string \<Rightarrow> nat" where
  "len_TSIG hdr algorithm timeSigned fudge mACSize mac origId err otherLen otherData =
     header_len hdr + (length algorithm + 1) + 6 + 2 + 2 + (length mac div 2 + 1) + 2 + 2 + 2 +
        (length otherData div 2 + 1)"

primrec std_len :: "std_rdata \<Rightarrow> RR_Header \<Rightarrow> nat" where
    "std_len RR_ANY h = len_ANY h"
  | "std_len (RR_CNAME target) h = len_CNAME h target"
  | "std_len (RR_HINFO cpu os) h = len_HINFO h cpu os"
  | "std_len (RR_MB mb) h = len_MB h mb"
  | "std_len (RR_MG mg) h = len_MG h mg"
  | "std_len (RR_MINFO rmail email) h = len_MINFO h rmail email"
  | "std_len (RR_MR mr) h = len_MR h mr"
  | "std_len (RR_MF mf) h = len_MF h mf"
  | "std_len (RR_MD md) h = len_MD h md"
  | "std_len (RR_MX preference mx) h = len_MX h preference mx"
  | "std_len (RR_AFSDB subtype hostname) h = len_AFSDB h subtype hostname"
  | "std_len (RR_X25 pSDNAddress) h = len_X25 h pSDNAddress"
  | "std_len (RR_RT preference host) h = len_RT h preference host"
  | "std_len (RR_NS ns) h = len_NS h ns"
  | "std_len (RR_PTR ptr) h = len_PTR h ptr"
  | "std_len (RR_RP mbox txt) h = len_RP h mbox txt"
  | "std_len (RR_SOA ns mbox serial refresh retry expire minttl) h =
        len_SOA h ns mbox serial refresh retry expire minttl"
  | "std_len (RR_TXT txt) h = len_TXT h txt"
  | "std_len (RR_SPF txt) h = len_SPF h txt"
  | "std_len (RR_AVC txt) h = len_AVC h txt"
  | "std_len (RR_SRV priority wgt port target) h = len_SRV h priority wgt port target"
  | "std_len (RR_NAPTR ordr preference flags service regexp replacement) h =
        len_NAPTR h ordr preference flags service regexp replacement"
  | "std_len (RR_CERT ty keyTag algorithm certificate) h = len_CERT h ty keyTag algorithm certificate"
  | "std_len (RR_DNAME target) h = len_DNAME h target"
  | "std_len (RR_A a) h = len_A h a"
  | "std_len (RR_AAAA aaaa) h = len_AAAA h aaaa"

primrec sec_len :: "sec_rdata \<Rightarrow> RR_Header \<Rightarrow> nat" where
    "sec_len (RR_PX preference map822 mapx400) h = len_PX h preference map822 mapx400"
  | "sec_len (RR_GPOS longitude latitude altitude) h = len_GPOS h longitude latitude altitude"
  | "sec_len (RR_LOC version siz horizPre vertPre latitude longitude altitude) h =
        len_LOC h version siz horizPre vertPre latitude longitude altitude"
  | "sec_len (RR_SIG typeCovered algorithm labels origTtl expiration inception keyTag signerName
        signature) h = len_RRSIG h typeCovered algorithm labels origTtl expiration inception
        keyTag signerName signature"
  | "sec_len (RR_RRSIG typeCovered algorithm labels origTtl expiration inception keyTag signerName
        signature) h = len_RRSIG h typeCovered algorithm labels origTtl expiration inception
        keyTag signerName signature"
  | "sec_len (RR_NSEC nextDomain typeBitMap) h = len_NSEC h nextDomain typeBitMap"
  | "sec_len (RR_DLV keyTag algorithm digestType digest) h =
        len_DS h keyTag algorithm digestType digest"
  | "sec_len (RR_CDS keyTag algorithm digestType digest) h =
        len_DS h keyTag algorithm digestType digest"
  | "sec_len (RR_DS keyTag algorithm digestType digest) h = len_DS h keyTag algorithm digestType digest"
  | "sec_len (RR_KX preference exchanger) h = len_KX h preference exchanger"
  | "sec_len (RR_TA keyTag algorithm digestType digest) h = len_TA h keyTag algorithm digestType digest"
  | "sec_len (RR_TALINK previousName nextName) h = len_TALINK h previousName nextName"
  | "sec_len (RR_SSHFP algorithm ty fingerPrint) h = len_SSHFP h algorithm ty fingerPrint"
  | "sec_len (RR_KEY flags protocol algorithm publicKey) h =
        len_DNSKEY h flags protocol algorithm publicKey"
  | "sec_len (RR_CDNSKEY flags protocol algorithm publicKey) h =
        len_DNSKEY h flags protocol algorithm publicKey"
  | "sec_len (RR_DNSKEY flags protocol algorithm publicKey) h =
        len_DNSKEY h flags protocol algorithm publicKey"
  | "sec_len (RR_RKEY flags protocol algorithm publicKey) h =
        len_RKEY h flags protocol algorithm publicKey"
  | "sec_len (RR_NSAPPTR ptr) h = len_NSAPPTR h ptr"
  | "sec_len (RR_NSEC3 hsh flags iterations saltLength salt hashLength nextDomain typeBitMap) h =
        len_NSEC3 h hsh flags iterations saltLength salt hashLength nextDomain typeBitMap"
  | "sec_len (RR_NSEC3PARAM hsh flags iterations saltLength salt) h =
        len_NSEC3PARAM h hsh flags iterations saltLength salt"

primrec ext_len :: "ext_rdata \<Rightarrow> RR_Header \<Rightarrow> nat outcome" where
    "ext_len (RR_TKEY algorithm inception expiration md err keySize ky otherLen otherData) h =
        Ok (len_TKEY h algorithm inception expiration md err keySize ky otherLen otherData)"
  | "ext_len (RR_RFC3597 rdata) h = Ok (len_RFC3597 h rdata)"
  | "ext_len (RR_URI priority wgt target) h = Ok (len_URI h priority wgt target)"
  | "ext_len (RR_DHCID digest) h = Ok (len_DHCID h digest)"
  | "ext_len (RR_TLSA usage selector matchingType certificate) h =
        Ok (len_TLSA h usage selector matchingType certificate)"
  | "ext_len (RR_SMIMEA usage selector matchingType certificate) h =
        Ok (len_SMIMEA h usage selector matchingType certificate)"
  | "ext_len (RR_HIP hitLength publicKeyAlgorithm publicKeyLength hit publicKey rendezvousServers)
        h = Ok (len_HIP h hitLength publicKeyAlgorithm publicKeyLength hit publicKey rendezvousServers)"
  | "ext_len (RR_NINFO zSData) h = Ok (len_NINFO h zSData)"
  | "ext_len (RR_NID preference nodeID) h = Ok (len_NID h preference nodeID)"
  | "ext_len (RR_L32 preference locator32) h = Ok (len_L32 h preference locator32)"
  | "ext_len (RR_L64 preference locator64) h = Ok (len_L64 h preference locator64)"
  | "ext_len (RR_LP preference fq) h = Ok (len_LP h preference fq)"
  | "ext_len (RR_EUI48 address) h = Ok (len_EUI48 h address)"
  | "ext_len (RR_EUI64 address) h = Ok (len_EUI64 h address)"
  | "ext_len (RR_CAA flag tag val) h = Ok (len_CAA h flag tag val)"
  | "ext_len (RR_UID uid) h = Ok (len_UID h uid)"
  | "ext_len (RR_GID gid) h = Ok (len_GID h gid)"
  | "ext_len (RR_UINFO uinfo) h = Ok (len_UINFO h uinfo)"
  | "ext_len (RR_EID endpoint) h = Ok (len_EID h endpoint)"
  | "ext_len (RR_NIMLOC locator) h = Ok (len_NIMLOC h locator)"
  | "ext_len (RR_OPENPGPKEY publicKey) h = Ok (len_OPENPGPKEY h publicKey)"
  | "ext_len (RR_OPT options) h = len_OPT options h"
  | "ext_len (RR_TSIG algorithm timeSigned fudge mACSize mac origId err otherLen otherData) h =
        Ok (len_TSIG h algorithm timeSigned fudge mACSize mac origId err otherLen otherData)"

lemmas len_defs =
    len_ANY_def len_CNAME_def len_HINFO_def len_MB_def len_MG_def len_MINFO_def len_MR_def
    len_MF_def len_MD_def len_MX_def len_AFSDB_def len_X25_def len_RT_def len_NS_def len_PTR_def
    len_RP_def len_SOA_def len_TXT_def len_SPF_def len_AVC_def len_SRV_def len_NAPTR_def
    len_CERT_def len_DNAME_def len_A_def len_AAAA_def len_PX_def len_GPOS_def len_LOC_def
    len_RRSIG_def len_DS_def len_KX_def len_TA_def len_TALINK_def len_SSHFP_def len_DNSKEY_def
    len_RKEY_def len_NSAPPTR_def len_NSEC3PARAM_def len_TKEY_def len_RFC3597_def len_URI_def
    len_DHCID_def len_TLSA_def len_SMIMEA_def len_HIP_def len_NINFO_def len_NID_def len_L32_def
    len_L64_def len_LP_def len_EUI48_def len_EUI64_def len_CAA_def len_UID_def len_GID_def
    len_UINFO_def len_EID_def len_NIMLOC_def len_OPENPGPKEY_def len_TSIG_def len_NSEC_def
    len_NSEC3_def

section \<open>The methods copy\<close>

text \<open>A copy shares nothing with the original; its value is the same, but a struct that embeds another
  is copied as that one.\<close>

primrec std_copy :: "std_rdata \<Rightarrow> std_rdata" where
    "std_copy RR_ANY = RR_ANY"
  | "std_copy (RR_CNAME target) = RR_CNAME target"
  | "std_copy (RR_HINFO cpu os) = RR_HINFO cpu os"
  | "std_copy (RR_MB mb) = RR_MB mb"
  | "std_copy (RR_MG mg) = RR_MG mg"
  | "std_copy (RR_MINFO rmail email) = RR_MINFO rmail email"
  | "std_copy (RR_MR mr) = RR_MR mr"
  | "std_copy (RR_MF mf) = RR_MF mf"
  | "std_copy (RR_MD md) = RR_MD md"
  | "std_copy (RR_MX preference mx) = RR_MX preference mx"
  | "std_copy (RR_AFSDB subtype hostname) = RR_AFSDB subtype hostname"
  | "std_copy (RR_X25 pSDNAddress) = RR_X25 pSDNAddress"
  | "std_copy (RR_RT preference host) = RR_RT preference host"
  | "std_copy (RR_NS ns) = RR_NS ns"
  | "std_copy (RR_PTR ptr) = RR_PTR ptr"
  | "std_copy (RR_RP mbox txt) = RR_RP mbox txt"
  | "std_copy (RR_SOA ns mbox serial refresh retry expire minttl) =
        RR_SOA ns mbox serial refresh retry expire minttl"
  | "std_copy (RR_TXT txt) = RR_TXT txt"
  | "std_copy (RR_SPF txt) = RR_SPF txt"
  | "std_copy (RR_AVC txt) = RR_AVC txt"
  | "std_copy (RR_SRV priority wgt port target) = RR_SRV priority wgt port target"
  | "std_copy (RR_NAPTR ordr preference flags service regexp replacement) =
        RR_NAPTR ordr preference flags service regexp replacement"
  | "std_copy (RR_CERT ty keyTag algorithm certificate) = RR_CERT ty keyTag algorithm certificate"
  | "std_copy (RR_DNAME target) = RR_DNAME target"
  | "std_copy (RR_A a) = RR_A a"
  | "std_copy (RR_AAAA aaaa) = RR_AAAA aaaa"

primrec sec_copy :: "sec_rdata \<Rightarrow> sec_rdata" where
    "sec_copy (RR_PX preference map822 mapx400) = RR_PX preference map822 mapx400"
  | "sec_copy (RR_GPOS longitude latitude altitude) = RR_GPOS longitude latitude altitude"
  | "sec_copy (RR_LOC version siz horizPre vertPre latitude longitude altitude) =
        RR_LOC version siz horizPre vertPre latitude longitude altitude"
  | "sec_copy (RR_SIG typeCovered algorithm labels origTtl expiration inception keyTag signerName
        signature) = RR_RRSIG typeCovered algorithm labels origTtl expiration inception keyTag
        signerName signature"
  | "sec_copy (RR_RRSIG typeCovered algorithm labels origTtl expiration inception keyTag
        signerName signature) = RR_RRSIG typeCovered algorithm labels origTtl expiration inception
        keyTag signerName signature"
  | "sec_copy (RR_NSEC nextDomain typeBitMap) = RR_NSEC nextDomain typeBitMap"
  | "sec_copy (RR_DLV keyTag algorithm digestType digest) = RR_DS keyTag algorithm digestType digest"
  | "sec_copy (RR_CDS keyTag algorithm digestType digest) = RR_DS keyTag algorithm digestType digest"
  | "sec_copy (RR_DS keyTag algorithm digestType digest) = RR_DS keyTag algorithm digestType digest"
  | "sec_copy (RR_KX preference exchanger) = RR_KX preference exchanger"
  | "sec_copy (RR_TA keyTag algorithm digestType digest) = RR_TA keyTag algorithm digestType digest"
  | "sec_copy (RR_TALINK previousName nextName) = RR_TALINK previousName nextName"
  | "sec_copy (RR_SSHFP algorithm ty fingerPrint) = RR_SSHFP algorithm ty fingerPrint"
  | "sec_copy (RR_KEY flags protocol algorithm publicKey) =
        RR_DNSKEY flags protocol algorithm publicKey"
  | "sec_copy (RR_CDNSKEY flags protocol algorithm publicKey) =
        RR_DNSKEY flags protocol algorithm publicKey"
  | "sec_copy (RR_DNSKEY flags protocol algorithm publicKey) =
        RR_DNSKEY flags protocol algorithm publicKey"
  | "sec_copy (RR_RKEY flags protocol algorithm publicKey) = RR_RKEY flags protocol algorithm publicKey"
  | "sec_copy (RR_NSAPPTR ptr) = RR_NSAPPTR ptr"
  | "sec_copy (RR_NSEC3 hsh flags iterations saltLength salt hashLength nextDomain typeBitMap) =
        RR_NSEC3 hsh flags iterations saltLength salt hashLength nextDomain typeBitMap"
  | "sec_copy (RR_NSEC3PARAM hsh flags iterations saltLength salt) =
        RR_NSEC3PARAM hsh flags iterations saltLength salt"

primrec ext_copy :: "ext_rdata \<Rightarrow> ext_rdata" where
    "ext_copy (RR_TKEY algorithm inception expiration md err keySize ky otherLen otherData) =
        RR_TKEY algorithm inception expiration md err keySize ky otherLen otherData"
  | "ext_copy (RR_RFC3597 rdata) = RR_RFC3597 rdata"
  | "ext_copy (RR_URI priority wgt target) = RR_URI priority wgt target"
  | "ext_copy (RR_DHCID digest) = RR_DHCID digest"
  | "ext_copy (RR_TLSA usage selector matchingType certificate) =
        RR_TLSA usage selector matchingType certificate"
  | "ext_copy (RR_SMIMEA usage selector matchingType certificate) =
        RR_SMIMEA usage selector matchingType certificate"
  | "ext_copy (RR_HIP hitLength publicKeyAlgorithm publicKeyLength hit publicKey
        rendezvousServers) = RR_HIP hitLength publicKeyAlgorithm publicKeyLength hit publicKey
        rendezvousServers"
  | "ext_copy (RR_NINFO zSData) = RR_NINFO zSData"
  | "ext_copy (RR_NID preference nodeID) = RR_NID preference nodeID"
  | "ext_copy (RR_L32 preference locator32) = RR_L32 preference locator32"
  | "ext_copy (RR_L64 preference locator64) = RR_L64 preference locator64"
  | "ext_copy (RR_LP preference fq) = RR_LP preference fq"
  | "ext_copy (RR_EUI48 address) = RR_EUI48 address"
  | "ext_copy (RR_EUI64 address) = RR_EUI64 address"
  | "ext_copy (RR_CAA flag tag val) = RR_CAA flag tag val"
  | "ext_copy (RR_UID uid) = RR_UID uid"
  | "ext_copy (RR_GID gid) = RR_GID gid"
  | "ext_copy (RR_UINFO uinfo) = RR_UINFO uinfo"
  | "ext_copy (RR_EID endpoint) = RR_EID endpoint"
  | "ext_copy (RR_NIMLOC locator) = RR_NIMLOC locator"
  | "ext_copy (RR_OPENPGPKEY publicKey) = RR_OPENPGPKEY publicKey"
  | "ext_copy (RR_OPT options) = RR_OPT options"
  | "ext_copy (RR_TSIG algorithm timeSigned fudge mACSize mac origId err otherLen otherData) =
        RR_TSIG algorithm timeSigned fudge mACSize mac origId err otherLen otherData"

primrec data_len :: "rdata \<Rightarrow> RR_Header \<Rightarrow> nat outcome" where
  "data_len (Std d) h = Ok (std_len d h)"
| "data_len (Sec d) h = Ok (sec_len d h)"
| "data_len (Ext d) h = ext_len d h"

definition rr_len :: "RR \<Rightarrow> nat outcome" where
  "rr_len rr = data_len (Rdata rr) (Hdr rr)"

primrec data_copy :: "rdata \<Rightarrow> rdata" where
  "data_copy (Std d) = Std (std_copy d)"
| "data_copy (Sec d) = Sec (sec_copy d)"
| "data_copy (Ext d) = Ext (ext_copy d)"

definition rr_copy :: "RR \<Rightarrow> RR" where
  "rr_copy rr = \<lparr>Hdr = Hdr rr, Rdata = data_copy (Rdata rr)\<rparr>"

section \<open>The lengths of fields\<close>

named_theorems field_bounds "bounds of the images of fields"

lemma wire_name_bound [field_bounds]: "valid_name s \<Longrightarrow> length (wire_name s) \<le> length s + 1"
proof -
  assume "valid_name s"
  then have s: "present (parse_name s) = s" by (simp add: valid_name_def)
  have "name_octets ls \<le> length (present ls)" for ls
    using length_wire_present [of ls] by (cases "ls = []") (simp_all add: name_octets_def present_def fqdn_def)
  from this [of "parse_name s"] s show ?thesis by (simp add: wire_name_def)
qed

lemma wire_text_bound [field_bounds]: "valid_text s \<Longrightarrow> length (wire_text s) \<le> length s + 1"
proof (elim valid_text_obtain)
  fix bs assume "s = text_present bs" "wire_text s = of_nat (length bs) # bs"
  then show ?thesis using length_text_present [of bs] by simp
qed

lemma wire_texts_bound [field_bounds]: "valid_texts ts \<Longrightarrow> length (wire_texts ts) \<le> texts_len ts"
proof -
  assume "valid_texts ts"
  then have "list_all valid_text ts" by (simp add: valid_texts_def)
  then show ?thesis
  proof (induction ts)
    case (Cons t ts)
    then show ?case using wire_text_bound [of t] by (simp add: wire_texts_def texts_len_def)
  qed (simp add: wire_texts_def)
qed

lemma wire_names_bound [field_bounds]: "list_all valid_name ns \<Longrightarrow> length (wire_names ns) \<le> texts_len ns"
proof (induction ns)
  case (Cons n ns)
  then show ?case using wire_name_bound [of n] by (simp add: wire_names_def texts_len_def)
qed (simp add: wire_names_def)

lemma hex_bound [field_bounds]: "hex.canonical s \<Longrightarrow> length (hex.bytes s) \<le> length s div 2 + 1"
proof -
  have "length (hex_EncodeToString bs) = 2 * length bs" for bs
    by (induction bs) (simp_all add: hex_EncodeToString_def)
  from this [of "hex.bytes s"] show "hex.canonical s \<Longrightarrow> ?thesis"
    using hex.canonicalD [of s] by simp
qed

lemma base64_bound [field_bounds]:
  "base64.canonical s \<Longrightarrow> length (base64.bytes s) \<le> base64_DecodedLen (length s)"
proof -
  have "length bs \<le> length (base64_EncodeToString bs) div 4 * 3" for bs
  proof (induction bs rule: base64_EncodeToString.induct)
    case (1 bs)
    show ?case
    proof (cases "bs = []")
      case False
      have n: "length bs \<le> 3 + length (drop 3 bs)" by simp
      have "length (base64_EncodeToString bs) = 4 + length (base64_EncodeToString (drop 3 bs))"
        using False by (subst base64_EncodeToString.simps) (simp add: Let_def)
      moreover have "(4 + k) div 4 = k div 4 + (1 :: nat)" for k by simp
      ultimately show ?thesis using 1 [OF False refl refl] n by (simp del: length_drop)
    qed simp
  qed
  from this [of "base64.bytes s"] show "base64.canonical s \<Longrightarrow> ?thesis"
    using base64.canonicalD [of s] by (simp add: toBase64_def base64_DecodedLen_def)
qed

lemma base32_bound [field_bounds]: "base32.canonical s \<Longrightarrow> length (base32.bytes s) \<le> length s"
proof -
  have "length bs \<le> length (base32_EncodeToString bs)" for bs
  proof (induction bs rule: base32_EncodeToString.induct)
    case (1 bs)
    show ?case
    proof (cases "bs = []")
      case False
      have n: "length bs \<le> 5 + length (drop 5 bs)" by simp
      have "length (base32_EncodeToString bs) = 8 + length (base32_EncodeToString (drop 5 bs))"
        using False by (subst base32_EncodeToString.simps) (simp add: Let_def base32_digits_def)
      then show ?thesis using 1 [OF False refl refl] n by (simp del: length_drop)
    qed simp
  qed
  from this [of "base32.bytes s"] show "base32.canonical s \<Longrightarrow> ?thesis"
    using base32.canonicalD [of s] by (simp add: toBase32_def)
qed

lemma options_len: "list_all valid_option els \<Longrightarrow> len_OPT els h = Ok (header_len h + length (wire_options els))"
proof (induction els)
  case (Cons el els)
  then show ?case using option_round_trip [of el] by (simp add: wire_options_def wire_option_def)
qed (simp add: wire_options_def)

section \<open>Type bitmaps\<close>

lemma window_ucast: "unat (ucast (t div 256) :: uint32) = window_of (t :: uint16)"
proof -
  have "uint (ucast (t div 256) :: uint32) = uint (t div 256)"
    by (rule uint_up_ucast) (simp add: is_up)
  then have "unat (ucast (t div 256) :: uint32) = unat (t div 256)" by (simp flip: nat_uint_eq)
  then show ?thesis by (simp add: window_of_def unat_div)
qed

lemma windows_group:
  "list_all (\<lambda>t. window_of t = unat lw) g \<Longrightarrow> windows_len (g @ r) lw = windows_len r lw"
proof (induction g)
  case (Cons t g)
  have "(ucast (t div 256) :: uint32) = lw"
    using Cons.prems window_ucast [of t] by (simp add: word_unat_eq_iff)
  then show ?case using Cons by (simp add: Let_def)
qed simp

lemma bitmap_bound:
  "valid_bitmap ts \<Longrightarrow> list_all (\<lambda>t. octet_of t < 31 \<and> window_of t \<noteq> unat lw) ts \<Longrightarrow>
   length (wire_nsec ts) \<le> windows_len ts lw"
proof (induction ts arbitrary: lw rule: length_induct)
  case (1 ts)
  show ?case
  proof (cases "ts = []")
    case False
    obtain g r where g: "ts = g @ r" "g \<noteq> []" "wire_nsec ts = block g @ wire_nsec r" "valid_bitmap r"
      "\<forall>t \<in> set g. window_of t = window_of (hd g)" "\<forall>t \<in> set r. window_of (hd g) < window_of t" "length r < length ts"
      by (rule first_block [OF 1(2) False]) blast
    then obtain t g' where tg: "g = t # g'" by (cases g) simp_all
    let ?w = "ucast (t div 256) :: uint32"
    have "windows_len ts lw = 33 + windows_len (g' @ r) ?w"
      using 1(3) window_ucast [of t] by (auto simp: g(1) tg Let_def)
    also have "windows_len (g' @ r) ?w = windows_len r ?w"
      using g(5) by (intro windows_group) (simp add: list_all_iff tg window_ucast)
    finally have w: "windows_len ts lw = 33 + windows_len r ?w" .
    have "list_all (\<lambda>t. octet_of t < 31 \<and> window_of t \<noteq> unat ?w) r"
      using 1(3) g(6) by (auto simp: list_all_iff g(1) tg window_ucast)
    then have "length (wire_nsec r) \<le> windows_len r ?w" using 1(1) g(4,7) by blast
    moreover have "octet_of (last g) < 31" using 1(3) g(1,2) by (simp add: list_all_iff)
    ultimately show ?thesis using w by (simp add: g(3) length_block)
  qed (simp add: wire_nsec.simps [of "[]"])
qed

text \<open>The bitmaps whose length is not underestimated.\<close>

definition roomy_bitmap :: "uint16 list \<Rightarrow> bool" where
  "roomy_bitmap ts \<longleftrightarrow> list_all (\<lambda>t. octet_of t < 31 \<and> window_of t \<noteq> 35) ts"

lemma roomy_bound [field_bounds]:
  "valid_bitmap ts \<Longrightarrow> roomy_bitmap ts \<Longrightarrow> length (wire_nsec ts) \<le> bitmap_len ts"
  using bitmap_bound [of ts 35] by (simp add: roomy_bitmap_def bitmap_len_def)

primrec roomy :: "rdata \<Rightarrow> bool" where
  "roomy (Std d) \<longleftrightarrow> True"
| "roomy (Sec d) \<longleftrightarrow>
     (case d of
        RR_NSEC nextDomain ts \<Rightarrow> roomy_bitmap ts
      | RR_NSEC3 hsh flags iterations saltLength salt hashLength nextDomain ts \<Rightarrow> roomy_bitmap ts
      | _ \<Rightarrow> True)"
| "roomy (Ext d) \<longleftrightarrow> True"

section \<open>The bound\<close>

lemma header_bound: "valid_name (Name h) \<Longrightarrow> length (wire_header h) \<le> header_len h"
  using wire_name_bound [of "Name h"] by (simp add: length_wire_header header_len_def)

lemma std_bound: "std_valid d \<Longrightarrow> length (std_image d) + header_len h \<le> std_len d h"
  by (cases d) (auto simp: len_defs dest!: field_bounds)

lemma sec_bound: "sec_valid d \<Longrightarrow> roomy (Sec d) \<Longrightarrow> length (sec_image d) + header_len h \<le> sec_len d h"
  by (cases d) (auto simp: len_defs dest!: field_bounds roomy_bound)

lemma ext_bound: "ext_valid d \<Longrightarrow> \<exists>n. ext_len d h = Ok n \<and> length (ext_image d) + header_len h \<le> n"
  by (cases d) (auto simp: len_defs options_len valid_octets_def dest!: field_bounds)

lemma data_len_bound:
  "data_valid d \<Longrightarrow> roomy d \<Longrightarrow> \<exists>n. data_len d h = Ok n \<and> length (data_image d) + header_len h \<le> n"
  by (cases d) (simp_all add: std_bound sec_bound ext_bound)

lemma rr_len_bound:
  "record_valid rr \<Longrightarrow> roomy (Rdata rr) \<Longrightarrow> \<exists>n. rr_len rr = Ok n \<and> length (wire_record rr) \<le> n"
  using data_len_bound [of "Rdata rr" "Hdr rr"] header_bound [of "Hdr rr"]
  by (auto simp: record_valid_def rr_len_def wire_record_def)

section \<open>Copies\<close>

lemma copy_pack: "pack_data (data_copy d) = pack_data d"
proof -
  have "pack_std (std_copy e) h c = pack_std e h c" for e h c by (cases e) simp_all
  moreover have "pack_sec (sec_copy e) h c = pack_sec e h c" for e h c
    by (cases e) (simp_all add: sec_packers)
  moreover have "pack_ext (ext_copy e) h c = pack_ext e h c" for e h c by (cases e) simp_all
  ultimately show ?thesis by (cases d) (simp_all add: fun_eq_iff)
qed

lemma copy_len: "data_len (data_copy d) h = data_len d h"
proof -
  have "std_len (std_copy e) h = std_len e h" for e by (cases e) simp_all
  moreover have "sec_len (sec_copy e) h = sec_len e h" for e by (cases e) simp_all
  moreover have "ext_len (ext_copy e) h = ext_len e h" for e by (cases e) simp_all
  ultimately show ?thesis by (cases d) simp_all
qed

text \<open>The structs that embed another one.\<close>

primrec embeds :: "rdata \<Rightarrow> bool" where
  "embeds (Std d) = False"
| "embeds (Sec d) =
     (case d of
        RR_SIG a b c e f g h i j \<Rightarrow> True
      | RR_DLV a b c e \<Rightarrow> True
      | RR_CDS a b c e \<Rightarrow> True
      | RR_KEY a b c e \<Rightarrow> True
      | RR_CDNSKEY a b c e \<Rightarrow> True
      | _ \<Rightarrow> False)"
| "embeds (Ext d) = False"

section \<open>Properties\<close>

text \<open>A copy of a record takes the same bytes on the wire and has the same length; it is the same
  record exactly when its struct does not embed another one: a copy of a SIG is an RRSIG, of a KEY or
  CDNSKEY a DNSKEY, of a DLV or CDS a DS.\<close>

theorem rr_copy_same_wire:
  "map_ok snd (PackRR (rr_copy rr) compress b) = map_ok snd (PackRR rr compress b) \<and>
   rr_len (rr_copy rr) = rr_len rr \<and> (rr_copy rr = rr \<longleftrightarrow> \<not> embeds (Rdata rr))"
proof (intro conjI)
  have "rr_pack (rr_copy rr) compress b =
      map_ok (\<lambda>(r, b). (r\<lparr>Rdata := data_copy (Rdata rr)\<rparr>, b)) (rr_pack rr compress b)"
    by (cases "pack_data (Rdata rr) (Hdr rr) compress b") (auto simp: rr_pack_def rr_copy_def copy_pack)
  then show "map_ok snd (PackRR (rr_copy rr) compress b) = map_ok snd (PackRR rr compress b)"
    by (cases "rr_pack rr compress b") (auto simp: PackRR_def split: option.splits prod.splits)
  show "rr_len (rr_copy rr) = rr_len rr" by (simp add: rr_len_def rr_copy_def copy_len)
  have s: "sec_copy d = d \<longleftrightarrow> \<not> embeds (Sec d)" for d by (cases d) simp_all
  have "data_copy d = d \<longleftrightarrow> \<not> embeds d" for d
  proof (cases d)
    case (Std e) then show ?thesis by (cases e) simp_all
  next
    case (Sec e) then show ?thesis using s by simp
  next
    case (Ext e) then show ?thesis by (cases e) simp_all
  qed
  then show "rr_copy rr = rr \<longleftrightarrow> \<not> embeds (Rdata rr)" by (cases rr) (simp add: rr_copy_def)
qed

end
