(* ===== verification/Wire_Msg.thy ===== *)
theory Wire_Msg
  imports Wire_Len
begin

unbundle bit_operations_syntax

text \<open>
  Whole messages: \<open>Pack\<close>, \<open>PackBuffer\<close>, \<open>Unpack\<close>, \<open>IsEdns0\<close> and the uncompressed length of
  \<open>msg.go\<close>.

  \<open>Unpack\<close> fills the message it is called on, also when it fails; here it gets the message and
  returns the new one with the error, if any.  \<open>PackBuffer\<close> returns the bytes and the message with
  the fields it changed (the response code, the extended part of it in the OPT record, the data
  lengths of the records).  Every length is that of the slice; a buffer has no capacity beyond it.
\<close>

section \<open>The header\<close>

text \<open>\<open>Header\<close> of \<open>types.go\<close>.\<close>

record MsgHeader =
  HdId :: uint16
  Bits :: uint16
  Qdcount :: uint16
  Ancount :: uint16
  Nscount :: uint16
  Arcount :: uint16

definition Header_pack :: "MsgHeader \<Rightarrow> pbuf \<Rightarrow> pbuf outcome" where
  "Header_pack dh =
     pack_all
       [packUint16 (HdId dh), packUint16 (Bits dh), packUint16 (Qdcount dh), packUint16 (Ancount dh),
        packUint16 (Nscount dh), packUint16 (Arcount dh)]"

definition unpackMsgHdr :: "byte list \<Rightarrow> nat \<Rightarrow> (MsgHeader \<times> nat) outcome" where
  "unpackMsgHdr msg off =
     obind (unpackUint16 msg off) (\<lambda>(i, off).
     obind (unpackUint16 msg off) (\<lambda>(bs, off).
     obind (unpackUint16 msg off) (\<lambda>(qd, off).
     obind (unpackUint16 msg off) (\<lambda>(an, off).
     obind (unpackUint16 msg off) (\<lambda>(ns, off).
     obind (unpackUint16 msg off) (\<lambda>(ar, off).
       Ok (\<lparr>HdId = i, Bits = bs, Qdcount = qd, Ancount = an, Nscount = ns, Arcount = ar\<rparr>, off)))))))"

section \<open>Questions\<close>

definition Question_pack :: "Question \<Rightarrow> bool \<Rightarrow> pbuf \<Rightarrow> pbuf outcome" where
  "Question_pack q compress =
     pack_all [PackDomainName (QName q) compress, packUint16 (Qtype q), packUint16 (Qclass q)]"

text \<open>When the class cannot be read the offset is the end of the message, and the error is dropped.\<close>

definition unpackQuestion :: "byte list \<Rightarrow> nat \<Rightarrow> (Question \<times> nat) outcome" where
  "unpackQuestion msg off =
     obind (UnpackDomainName msg off) (\<lambda>(name, off).
       if off = length msg then Ok (\<lparr>QName = name, Qtype = 0, Qclass = 0\<rparr>, off) else
     obind (unpackUint16 msg off) (\<lambda>(qtype, off).
       if off = length msg then Ok (\<lparr>QName = name, Qtype = qtype, Qclass = 0\<rparr>, off) else
     (case unpackUint16 msg off of
        Ok (qclass, off) \<Rightarrow> Ok (\<lparr>QName = name, Qtype = qtype, Qclass = qclass\<rparr>, off)
      | Err e \<Rightarrow> Ok (\<lparr>QName = name, Qtype = qtype, Qclass = 0\<rparr>, length msg)
      | Panic p \<Rightarrow> Panic p
      | Loops \<Rightarrow> Loops)))"

primrec unpack_questions ::
    "nat \<Rightarrow> byte list \<Rightarrow> nat \<Rightarrow> Question list \<Rightarrow> (Question list \<times> nat \<times> go_error option) outcome" where
  "unpack_questions 0 msg off qs = Ok (qs, off, None)"
| "unpack_questions (Suc n) msg off qs =
     (case unpackQuestion msg off of
        Ok (q, off1) \<Rightarrow>
          if off = off1 then Ok (qs, off1, None) else unpack_questions n msg off1 (qs @ [q])
      | Err e \<Rightarrow> Ok (qs, length msg, Some e)
      | Panic p \<Rightarrow> Panic p
      | Loops \<Rightarrow> Loops)"

section \<open>Unpacking a message\<close>

definition ErrTruncated :: go_error where "ErrTruncated = Error ''failed to unpack truncated message''"
definition ErrRcode :: go_error where "ErrRcode = Error ''bad rcode''"
definition ErrExtendedRcode :: go_error where "ErrExtendedRcode = Error ''bad extended rcode''"

text \<open>The fields of the header word.\<close>

definition set_bits :: "MsgHeader \<Rightarrow> Msg \<Rightarrow> Msg" where
  "set_bits dh dns =
     dns\<lparr>MsgId := HdId dh,
         Response := (Bits dh AND bit_QR \<noteq> 0),
         Opcode := uint (drop_bit 11 (Bits dh)) AND 0xF,
         Authoritative := (Bits dh AND bit_AA \<noteq> 0),
         Truncated := (Bits dh AND bit_TC \<noteq> 0),
         RecursionDesired := (Bits dh AND bit_RD \<noteq> 0),
         RecursionAvailable := (Bits dh AND bit_RA \<noteq> 0),
         Zero := (Bits dh AND bit_Z \<noteq> 0),
         AuthenticatedData := (Bits dh AND bit_AD \<noteq> 0),
         CheckingDisabled := (Bits dh AND bit_CD \<noteq> 0),
         Rcode := uint (Bits dh AND 0xF)\<rparr>"

text \<open>The three sections of records; after an error the rest of them stay as they are.\<close>

definition unpack_sections ::
    "MsgHeader \<Rightarrow> byte list \<Rightarrow> nat \<Rightarrow> Msg \<Rightarrow> (Msg \<times> nat \<times> go_error option) outcome" where
  "unpack_sections dh msg off dns =
     obind (unpackRRslice (unat (Ancount dh)) msg off) (\<lambda>(rs, off, err).
     let dns = dns\<lparr>Answer := rs\<rparr> in
     if err \<noteq> None then Ok (dns, off, err) else
     obind (unpackRRslice (unat (Nscount dh)) msg off) (\<lambda>(rs, off, err).
     let dns = dns\<lparr>Ns := rs\<rparr> in
     if err \<noteq> None then Ok (dns, off, err) else
     obind (unpackRRslice (unat (Arcount dh)) msg off) (\<lambda>(rs, off, err).
       Ok (dns\<lparr>Extra := rs\<rparr>, off, err))))"

definition Unpack :: "Msg \<Rightarrow> byte list \<Rightarrow> (Msg \<times> go_error option) outcome" where
  "Unpack dns msg =
     (case unpackMsgHdr msg 0 of
        Err e \<Rightarrow> Ok (dns, Some e)
      | Panic p \<Rightarrow> Panic p
      | Loops \<Rightarrow> Loops
      | Ok (dh, off) \<Rightarrow>
          let dns = set_bits dh dns in
          if off = length msg then Ok (dns, Some ErrTruncated) else
          obind (unpack_questions (unat (Qdcount dh)) msg off []) (\<lambda>(qs, off, err).
          let dns = dns\<lparr>Questions := qs\<rparr> in
          if err \<noteq> None then Ok (dns, err) else
          obind (unpack_sections dh msg off dns) (\<lambda>(dns, off, err).
            if off = length msg \<and> Truncated dns then Ok (dns, Some ErrTruncated)
            else Ok (dns, err))))"

section \<open>Packing a message\<close>

definition Question_len :: "Question \<Rightarrow> nat" where
  "Question_len q = length (QName q) + 1 + 2 + 2"

primrec sum_lens :: "RR list \<Rightarrow> nat outcome" where
  "sum_lens [] = Ok 0"
| "sum_lens (rr # rrs) = obind (rr_len rr) (\<lambda>l. map_ok (\<lambda>n. l + n) (sum_lens rrs))"

text \<open>\<open>compressedLen(dns, false)\<close>.\<close>

definition uncompressedLen :: "Msg \<Rightarrow> nat outcome" where
  "uncompressedLen dns =
     obind (sum_lens (Answer dns)) (\<lambda>an.
     obind (sum_lens (Ns dns)) (\<lambda>ns.
     obind (sum_lens (Extra dns)) (\<lambda>ar.
       Ok (12 + sum_list (map Question_len (Questions dns)) + an + ns + ar))))"

text \<open>
  The index of the last OPT record of the additional section.  The type assertion panics when a
  record with that type is not an \<open>OPT\<close> struct.
\<close>

fun is_opt_struct :: "rdata \<Rightarrow> bool" where
  "is_opt_struct (Ext (RR_OPT els)) = True"
| "is_opt_struct d = False"

fun IsEdns0_loop :: "RR list \<Rightarrow> nat \<Rightarrow> nat option outcome" where
  "IsEdns0_loop extra 0 = Ok None"
| "IsEdns0_loop extra (Suc i) =
     (if Rrtype (Hdr (extra ! i)) = TypeOPT then
        (if is_opt_struct (Rdata (extra ! i)) then Ok (Some i)
         else Panic (ExplicitPanic ''interface conversion''))
      else IsEdns0_loop extra i)"

definition IsEdns0 :: "Msg \<Rightarrow> nat option outcome" where
  "IsEdns0 dns = IsEdns0_loop (Extra dns) (length (Extra dns))"

text \<open>The upper bits of the response code go to the OPT record.\<close>

definition extend_rcode :: "Msg \<Rightarrow> Msg outcome" where
  "extend_rcode dns =
     (if Rcode dns > 0xF then
        obind (IsEdns0 dns) (\<lambda>opt.
          case opt of
            None \<Rightarrow> Err ErrExtendedRcode
          | Some i \<Rightarrow>
              let rr = Extra dns ! i;
                  rr = rr\<lparr>Hdr := OPT_SetExtendedRcode (word_of_int (Rcode dns div 16)) (Hdr rr)\<rparr>
              in Ok (dns\<lparr>Extra := (Extra dns)[i := rr], Rcode := Rcode dns AND 0xF\<rparr>))
      else Ok dns)"

definition header_bits :: "Msg \<Rightarrow> uint16" where
  "header_bits dns =
     push_bit 11 (word_of_int (Opcode dns)) OR word_of_int (Rcode dns) OR
     (if Response dns then bit_QR else 0) OR
     (if Authoritative dns then bit_AA else 0) OR
     (if Truncated dns then bit_TC else 0) OR
     (if RecursionDesired dns then bit_RD else 0) OR
     (if RecursionAvailable dns then bit_RA else 0) OR
     (if Zero dns then bit_Z else 0) OR
     (if AuthenticatedData dns then bit_AD else 0) OR
     (if CheckingDisabled dns then bit_CD else 0)"

definition message_header :: "Msg \<Rightarrow> MsgHeader" where
  "message_header dns =
     \<lparr>HdId = MsgId dns, Bits = header_bits dns,
      Qdcount = of_nat (length (Questions dns)), Ancount = of_nat (length (Answer dns)),
      Nscount = of_nat (length (Ns dns)), Arcount = of_nat (length (Extra dns))\<rparr>"

primrec pack_rrs :: "RR list \<Rightarrow> bool \<Rightarrow> pbuf \<Rightarrow> (RR list \<times> pbuf) outcome" where
  "pack_rrs [] compress b = Ok ([], b)"
| "pack_rrs (rr # rrs) compress b =
     obind (PackRR rr compress b) (\<lambda>(rr, b).
     obind (pack_rrs rrs compress b) (\<lambda>(rrs, b). Ok (rr # rrs, b)))"

text \<open>The sections, written one behind the other.\<close>

definition pack_sections :: "Msg \<Rightarrow> pbuf \<Rightarrow> (Msg \<times> pbuf) outcome" where
  "pack_sections dns b =
     (let c = Compress dns
      in obind (Header_pack (message_header dns) b) (\<lambda>b.
         obind (pack_all (map (\<lambda>q. Question_pack q c) (Questions dns)) b) (\<lambda>b.
         obind (pack_rrs (Answer dns) c b) (\<lambda>(an, b).
         obind (pack_rrs (Ns dns) c b) (\<lambda>(ns, b).
         obind (pack_rrs (Extra dns) c b) (\<lambda>(ar, b).
           Ok (dns\<lparr>Answer := an, Ns := ns, Extra := ar\<rparr>, b)))))))"

definition PackBuffer :: "Msg \<Rightarrow> byte list \<Rightarrow> (byte list \<times> Msg) outcome" where
  "PackBuffer dns buf =
     (if Rcode dns < 0 \<or> Rcode dns > 0xFFF then Err ErrRcode
      else
        obind (extend_rcode dns) (\<lambda>dns.
        obind (uncompressedLen dns) (\<lambda>n.
        let msg = (if length buf < n + 1 then replicate (n + 1) 0 else buf)
        in obind (pack_sections dns
                \<lparr>pmsg = msg, poff = 0, pcomp = (if Compress dns then Some Map.empty else None)\<rparr>) (\<lambda>(dns, b).
             map_ok (\<lambda>out. (out, dns)) (go_slice (pmsg b) 0 (int (poff b)))))))"

definition Pack :: "Msg \<Rightarrow> (byte list \<times> Msg) outcome" where
  "Pack dns = PackBuffer dns []"

section \<open>The header word\<close>

lemma bit_if: "bit (if c then w else (0 :: uint16)) n \<longleftrightarrow> c \<and> bit w n"
  by simp

lemma bit_flags:
  "(bit_QR :: uint16) = push_bit 15 1" "(bit_AA :: uint16) = push_bit 10 1" "(bit_TC :: uint16) = push_bit 9 1"
  "(bit_RD :: uint16) = push_bit 8 1" "(bit_RA :: uint16) = push_bit 7 1" "(bit_Z :: uint16) = push_bit 6 1"
  "(bit_AD :: uint16) = push_bit 5 1" "(bit_CD :: uint16) = push_bit 4 1"
  by simp_all

lemma bit_flag: "bit (push_bit k (1 :: uint16)) n \<longleftrightarrow> n < 16 \<and> n = k"
  unfolding bit_push_bit_iff bit_1_iff by auto

lemma bit_int_word: "bit (word_of_int k :: uint16) n \<longleftrightarrow> n < 16 \<and> bit k n"
  by (simp add: bit_word_of_int_iff)

lemma bit_shifted: "bit (push_bit 11 (word_of_int k :: uint16)) n \<longleftrightarrow> n < 16 \<and> 11 \<le> n \<and> bit k (n - 11)"
  unfolding bit_push_bit_iff bit_int_word by auto

lemma bit_header_bits:
  "bit (header_bits m) n \<longleftrightarrow>
     n < 16 \<and>
     (11 \<le> n \<and> bit (Opcode m) (n - 11) \<or> bit (Rcode m) n \<or> Response m \<and> n = 15 \<or>
      Authoritative m \<and> n = 10 \<or> Truncated m \<and> n = 9 \<or> RecursionDesired m \<and> n = 8 \<or>
      RecursionAvailable m \<and> n = 7 \<or> Zero m \<and> n = 6 \<or> AuthenticatedData m \<and> n = 5 \<or>
      CheckingDisabled m \<and> n = 4)"
  unfolding header_bits_def bit_flags bit_or_iff bit_if bit_flag bit_shifted bit_int_word
  by (cases "n < 16") (simp_all only: disj_assoc simp_thms)

lemma flag_set: "w AND push_bit k 1 \<noteq> 0 \<longleftrightarrow> bit w k" for w :: uint16
  using and_exp_eq_0_iff_not_bit [of w k] by (simp add: push_bit_eq_mult)

lemma set_bits_header:
  assumes "0 \<le> Opcode m" "Opcode m < 16" "0 \<le> Rcode m" "Rcode m < 16"
  shows "set_bits (message_header m) d =
    d\<lparr>MsgId := MsgId m, Response := Response m, Opcode := Opcode m, Authoritative := Authoritative m,
      Truncated := Truncated m, RecursionDesired := RecursionDesired m,
      RecursionAvailable := RecursionAvailable m, Zero := Zero m, AuthenticatedData := AuthenticatedData m,
      CheckingDisabled := CheckingDisabled m, Rcode := Rcode m\<rparr>"
proof -
  have op: "take_bit 4 (Opcode m) = Opcode m" and rc: "take_bit 4 (Rcode m) = Rcode m"
    using assms by (simp_all add: take_bit_int_eq_self)
  have b: "bit (Opcode m) n \<Longrightarrow> n < 4" "bit (Rcode m) n \<Longrightarrow> n < 4" for n
    using bit_take_bit_iff [of 4 "Opcode m" n] bit_take_bit_iff [of 4 "Rcode m" n] op rc by auto
  have F: "(0xF :: int) = mask 4" "(0xF :: uint16) = mask 4" by (simp_all add: mask_eq_exp_minus_1)
  have "uint (drop_bit 11 (header_bits m)) AND 0xF = Opcode m"
  proof (rule bit_eqI)
    fix n
    have "bit (uint (drop_bit 11 (header_bits m)) AND 0xF) n \<longleftrightarrow> n < 4 \<and> bit (header_bits m) (11 + n)"
      unfolding F bit_and_iff bit_mask_iff bit_uint_iff bit_drop_bit_eq by auto
    then show "bit (uint (drop_bit 11 (header_bits m)) AND 0xF) n = bit (Opcode m) n"
      using b(1) [of n] b(2) [of "11 + n"] by (auto simp: bit_header_bits)
  qed
  moreover have "uint (header_bits m AND 0xF) = Rcode m"
  proof (rule bit_eqI)
    fix n
    have "bit (uint (header_bits m AND 0xF)) n \<longleftrightarrow> n < 4 \<and> bit (header_bits m) n"
      unfolding F bit_and_iff bit_mask_iff bit_uint_iff by auto
    then show "bit (uint (header_bits m AND 0xF)) n = bit (Rcode m) n"
      using b(2) [of n] by (auto simp: bit_header_bits)
  qed
  moreover have "bit (header_bits m) 15 = Response m" "bit (header_bits m) 10 = Authoritative m"
    "bit (header_bits m) 9 = Truncated m" "bit (header_bits m) 8 = RecursionDesired m"
    "bit (header_bits m) 7 = RecursionAvailable m" "bit (header_bits m) 6 = Zero m"
    "bit (header_bits m) 5 = AuthenticatedData m" "bit (header_bits m) 4 = CheckingDisabled m"
    using b(1) [of 4] b(2) [of 15] b(2) [of 10] b(2) [of 9] b(2) [of 8] b(2) [of 7] b(2) [of 6] b(2) [of 5] b(2) [of 4]
    by (auto simp: bit_header_bits)
  ultimately show ?thesis
    unfolding set_bits_def message_header_def MsgHeader.simps bit_flags flag_set by simp
qed

section \<open>Images\<close>

definition wire_msg_header :: "MsgHeader \<Rightarrow> byte list" where
  "wire_msg_header dh =
     be_bytes 2 (HdId dh) @ be_bytes 2 (Bits dh) @ be_bytes 2 (Qdcount dh) @ be_bytes 2 (Ancount dh) @
     be_bytes 2 (Nscount dh) @ be_bytes 2 (Arcount dh)"

definition wire_question :: "Question \<Rightarrow> byte list" where
  "wire_question q = wire_name (QName q) @ be_bytes 2 (Qtype q) @ be_bytes 2 (Qclass q)"

definition wire_questions :: "Question list \<Rightarrow> byte list" where
  "wire_questions qs = concat (map wire_question qs)"

definition wire_records :: "RR list \<Rightarrow> byte list" where
  "wire_records rrs = concat (map wire_record rrs)"

definition wire_message :: "Msg \<Rightarrow> byte list" where
  "wire_message m =
     wire_msg_header (message_header m) @ wire_questions (Questions m) @ wire_records (Answer m) @
     wire_records (Ns m) @ wire_records (Extra m)"

text \<open>Messages that have an image: no compression and a response code of four bits.\<close>

definition records_valid :: "RR list \<Rightarrow> bool" where
  "records_valid rrs \<longleftrightarrow> list_all record_valid rrs \<and> length rrs < 65536"

definition message_valid :: "Msg \<Rightarrow> bool" where
  "message_valid m \<longleftrightarrow>
     0 \<le> Opcode m \<and> Opcode m < 16 \<and> 0 \<le> Rcode m \<and> Rcode m < 16 \<and> \<not> Compress m \<and>
     list_all (\<lambda>q. valid_name (QName q)) (Questions m) \<and> length (Questions m) < 65536 \<and>
     records_valid (Answer m) \<and> records_valid (Ns m) \<and> records_valid (Extra m)"

definition message_roomy :: "Msg \<Rightarrow> bool" where
  "message_roomy m \<longleftrightarrow> list_all (\<lambda>rr. roomy (Rdata rr)) (Answer m @ Ns m @ Extra m)"

text \<open>What is read back.\<close>

definition message_norm :: "Msg \<Rightarrow> Msg" where
  "message_norm m =
     m\<lparr>Answer := map record_norm (Answer m), Ns := map record_norm (Ns m), Extra := map record_norm (Extra m)\<rparr>"

definition message_packed :: "Msg \<Rightarrow> Msg" where
  "message_packed m =
     m\<lparr>Answer := map (\<lambda>rr. rr\<lparr>Hdr := full_header rr\<rparr>) (Answer m),
       Ns := map (\<lambda>rr. rr\<lparr>Hdr := full_header rr\<rparr>) (Ns m),
       Extra := map (\<lambda>rr. rr\<lparr>Hdr := full_header rr\<rparr>) (Extra m)\<rparr>"

lemma length_wire_msg_header [simp]: "length (wire_msg_header dh) = 12"
  by (simp add: wire_msg_header_def)

lemma wire_question_ne [simp]: "wire_question q \<noteq> []"
  by (simp add: wire_question_def)

lemma wire_record_ne [simp]: "wire_record rr \<noteq> []"
  by (simp add: wire_record_def)

section \<open>Packing writes the image\<close>

lemma Header_writes: "writes (Header_pack dh) (wire_msg_header dh)"
proof -
  have "list_all2 writes
      [packUint16 (HdId dh), packUint16 (Bits dh), packUint16 (Qdcount dh), packUint16 (Ancount dh),
       packUint16 (Nscount dh), packUint16 (Arcount dh)]
      [be_bytes 2 (HdId dh), be_bytes 2 (Bits dh), be_bytes 2 (Qdcount dh), be_bytes 2 (Ancount dh),
       be_bytes 2 (Nscount dh), be_bytes 2 (Arcount dh)]"
    by (simp add: u16.pack_image)
  from writes_all [OF this] show ?thesis by (simp add: Header_pack_def wire_msg_header_def)
qed

lemma Question_writes: "valid_name (QName q) \<Longrightarrow> writes (Question_pack q False) (wire_question q)"
proof -
  assume "valid_name (QName q)"
  then have "list_all2 writes [PackDomainName (QName q) False, packUint16 (Qtype q), packUint16 (Qclass q)]
      [wire_name (QName q), be_bytes 2 (Qtype q), be_bytes 2 (Qclass q)]"
    by (simp add: u16.pack_image name.pack_image)
  from writes_all [OF this] show ?thesis by (simp add: Question_pack_def wire_question_def)
qed

lemma Questions_writes:
  "list_all (\<lambda>q. valid_name (QName q)) qs \<Longrightarrow>
   writes (pack_all (map (\<lambda>q. Question_pack q False) qs)) (wire_questions qs)"
proof -
  assume "list_all (\<lambda>q. valid_name (QName q)) qs"
  then have "list_all2 writes (map (\<lambda>q. Question_pack q False) qs) (map wire_question qs)"
    by (auto simp: list_all2_conv_all_nth list_all_length intro: Question_writes)
  then show ?thesis unfolding wire_questions_def by (rule writes_all)
qed

lemma pack_rrs_emit:
  "list_all record_valid rrs \<Longrightarrow> pcomp b = None \<Longrightarrow> fresh b \<Longrightarrow> fits (wire_records rrs) b \<Longrightarrow>
   pack_rrs rrs False b = Ok (map (\<lambda>rr. rr\<lparr>Hdr := full_header rr\<rparr>) rrs, emit (wire_records rrs) b)"
proof (induction rrs arbitrary: b)
  case Nil
  then show ?case by (simp add: wire_records_def fits_def)
next
  case (Cons rr rrs)
  have f: "fits (wire_record rr) b" "fits (wire_records rrs) (emit (wire_record rr) b)"
    using Cons.prems(4) by (simp_all add: wire_records_def fits_append)
  have "emit (wire_records rrs) (emit (wire_record rr) b) = emit (wire_records (rr # rrs)) b"
    using f by (simp add: emit_emit fits_def wire_records_def)
  then show ?case
    using PackRR_emit [of rr b] Cons.IH [of "emit (wire_record rr) b"] Cons.prems f by simp
qed

lemma sum_lens_bound:
  "list_all record_valid rrs \<Longrightarrow> list_all (\<lambda>rr. roomy (Rdata rr)) rrs \<Longrightarrow>
   \<exists>n. sum_lens rrs = Ok n \<and> length (wire_records rrs) \<le> n"
proof (induction rrs)
  case (Cons rr rrs)
  then show ?case using rr_len_bound [of rr] by (auto simp: wire_records_def)
qed (simp add: wire_records_def)

lemma question_bound: "valid_name (QName q) \<Longrightarrow> length (wire_question q) \<le> Question_len q"
  using wire_name_bound [of "QName q"] by (simp add: wire_question_def Question_len_def)

lemma questions_bound:
  "list_all (\<lambda>q. valid_name (QName q)) qs \<Longrightarrow> length (wire_questions qs) \<le> sum_list (map Question_len qs)"
proof (induction qs)
  case (Cons q qs)
  then show ?case using question_bound [of q] by (simp add: wire_questions_def)
qed (simp add: wire_questions_def)

lemma message_bound:
  assumes "message_valid m" "message_roomy m"
  shows "\<exists>n. uncompressedLen m = Ok n \<and> length (wire_message m) \<le> n"
proof -
  obtain a n e where "sum_lens (Answer m) = Ok a" "length (wire_records (Answer m)) \<le> a"
    "sum_lens (Ns m) = Ok n" "length (wire_records (Ns m)) \<le> n"
    "sum_lens (Extra m) = Ok e" "length (wire_records (Extra m)) \<le> e"
    using assms sum_lens_bound [of "Answer m"] sum_lens_bound [of "Ns m"] sum_lens_bound [of "Extra m"]
    by (auto simp: message_valid_def message_roomy_def records_valid_def)
  moreover have "length (wire_questions (Questions m)) \<le> sum_list (map Question_len (Questions m))"
    using assms(1) by (intro questions_bound) (simp add: message_valid_def)
  ultimately show ?thesis by (simp add: uncompressedLen_def wire_message_def)
qed

lemma pack_sections_emit:
  assumes v: "message_valid m" and b: "pcomp b = None" "fresh b" and f: "fits (wire_message m) b"
  shows "pack_sections m b = Ok (message_packed m, emit (wire_message m) b)"
proof -
  let ?h = "wire_msg_header (message_header m)" and ?q = "wire_questions (Questions m)"
    and ?a = "wire_records (Answer m)" and ?n = "wire_records (Ns m)" and ?e = "wire_records (Extra m)"
  define b1 where "b1 = emit ?h b"
  define b2 where "b2 = emit ?q b1"
  define b3 where "b3 = emit ?a b2"
  define b4 where "b4 = emit ?n b3"
  define b5 where "b5 = emit ?e b4"
  note bs = b1_def b2_def b3_def b4_def b5_def
  have f: "fits ?h b" "fits ?q b1" "fits ?a b2" "fits ?n b3" "fits ?e b4"
    using f by (simp_all add: wire_message_def fits_append bs)
  have c: "pcomp b1 = None" "pcomp b2 = None" "pcomp b3 = None" "pcomp b4 = None"
    by (simp_all add: bs b(1))
  have fr: "fresh b1" "fresh b2" "fresh b3" "fresh b4"
    using b(2) f unfolding bs by simp_all
  note m = v [unfolded message_valid_def records_valid_def]
  have steps: "Header_pack (message_header m) b = Ok b1"
    "pack_all (map (\<lambda>q. Question_pack q False) (Questions m)) b1 = Ok b2"
    "pack_rrs (Answer m) False b2 = Ok (map (\<lambda>rr. rr\<lparr>Hdr := full_header rr\<rparr>) (Answer m), b3)"
    "pack_rrs (Ns m) False b3 = Ok (map (\<lambda>rr. rr\<lparr>Hdr := full_header rr\<rparr>) (Ns m), b4)"
    "pack_rrs (Extra m) False b4 = Ok (map (\<lambda>rr. rr\<lparr>Hdr := full_header rr\<rparr>) (Extra m), b5)"
    using writes_fits [OF Header_writes b(1) f(1)] writes_fits [OF Questions_writes c(1) f(2)] m
      pack_rrs_emit [OF _ c(2) fr(2) f(3)] pack_rrs_emit [OF _ c(3) fr(3) f(4)] pack_rrs_emit [OF _ c(4) fr(4) f(5)]
    by (simp_all add: bs)
  have "b5 = emit (wire_message m) b"
    using f by (simp add: bs wire_message_def emit_emit fits_def)
  moreover have "Compress m = False" using m by simp
  ultimately show ?thesis by (simp add: pack_sections_def steps message_packed_def)
qed

lemma PackBuffer_image:
  assumes v: "message_valid m" and r: "message_roomy m" and z: "list_all (\<lambda>x. x = 0) buf"
  shows "PackBuffer m buf = Ok (wire_message m, message_packed m)"
proof -
  obtain n where n: "uncompressedLen m = Ok n" "length (wire_message m) \<le> n"
    using message_bound [OF v r] by blast
  define b where "b = \<lparr>pmsg = if length buf < n + 1 then replicate (n + 1) 0 else buf, poff = 0, pcomp = None\<rparr>"
  have b: "pcomp b = None" "fresh b" "fits (wire_message m) b"
    using z n(2) by (auto simp: b_def fresh_def fits_def list_all_iff)
  have "pack_sections m b = Ok (message_packed m, emit (wire_message m) b)"
    by (rule pack_sections_emit [OF v b])
  moreover have "go_slice (pmsg (emit (wire_message m) b)) 0 (int (poff (emit (wire_message m) b))) = Ok (wire_message m)"
    using b(3) by (simp add: b_def fits_def emit_def go_slice_prefix put_def)
  moreover have "Rcode m < 0 \<or> Rcode m > 0xFFF \<longleftrightarrow> False" "extend_rcode m = Ok m" "Compress m = False"
    using v by (simp_all add: extend_rcode_def message_valid_def)
  ultimately show ?thesis by (simp add: PackBuffer_def n(1) Let_def b_def del: replicate.simps)
qed

section \<open>Unpacking reads the image\<close>

lemma Header_reads:
  "bytes_at msg 0 (wire_msg_header dh) \<Longrightarrow> unpackMsgHdr msg 0 = Ok (dh, 12)"
  by (clarsimp simp: wire_msg_header_def bytes_at_append) (simp add: unpackMsgHdr_def field_reads)

lemma Question_reads: "valid_name (QName q) \<Longrightarrow> reads unpackQuestion q (wire_question q)"
  unfolding reads_def
proof (intro allI impI)
  fix msg off assume v: "valid_name (QName q)" and at: "bytes_at msg off (wire_question q)"
  let ?n = "length (wire_name (QName q))"
  from at have "off + ?n + 4 \<le> length msg"
    by (simp add: bytes_at_def wire_question_def)
  then have "off + ?n \<noteq> length msg" "off + ?n + 2 \<noteq> length msg" by simp_all
  moreover have at: "bytes_at msg off (wire_name (QName q))" "bytes_at msg (off + ?n) (be_bytes 2 (Qtype q))"
    "bytes_at msg (off + ?n + 2) (be_bytes 2 (Qclass q))"
    using at by (simp_all add: wire_question_def bytes_at_append)
  note base_reads(8) [OF at(1) v] base_reads(2) [OF at(2)] base_reads(2) [OF at(3)]
  ultimately show "unpackQuestion msg off = Ok (q, off + length (wire_question q))"
    by (simp add: unpackQuestion_def wire_question_def del: add_2_eq_Suc')
qed

lemma questions_reads:
  "list_all (\<lambda>q. valid_name (QName q)) qs \<Longrightarrow> bytes_at msg off (wire_questions qs) \<Longrightarrow>
   unpack_questions (length qs) msg off acc = Ok (acc @ qs, off + length (wire_questions qs), None)"
proof (induction qs arbitrary: off acc)
  case (Cons q qs)
  have at: "bytes_at msg off (wire_question q)" "bytes_at msg (off + length (wire_question q)) (wire_questions qs)"
    using Cons.prems(2) by (simp_all add: wire_questions_def bytes_at_append)
  then have "unpackQuestion msg off = Ok (q, off + length (wire_question q))"
    using Question_reads Cons.prems(1) by (simp add: reads_def)
  then show ?case using Cons.IH [OF _ at(2)] Cons.prems(1) by (simp add: wire_questions_def)
qed (simp add: wire_questions_def)

lemma records_reads_loop:
  "list_all record_valid rrs \<Longrightarrow> bytes_at msg off (wire_records rrs) \<Longrightarrow>
   unpackRRslice_loop (length rrs) msg off acc =
     Ok (acc @ map record_norm rrs, off + length (wire_records rrs), None)"
proof (induction rrs arbitrary: off acc)
  case (Cons rr rrs)
  have at: "bytes_at msg off (wire_record rr)" "bytes_at msg (off + length (wire_record rr)) (wire_records rrs)"
    using Cons.prems(2) by (simp_all add: wire_records_def bytes_at_append)
  then have "UnpackRR msg off = Ok (record_norm rr, off + length (wire_record rr))"
    using UnpackRR_reads Cons.prems(1) by (simp add: reads_def)
  then show ?case using Cons.IH [OF _ at(2)] Cons.prems(1) by (simp add: wire_records_def)
qed (simp add: wire_records_def)

lemma records_reads:
  "records_valid rrs \<Longrightarrow> bytes_at msg off (wire_records rrs) \<Longrightarrow>
   unpackRRslice (unat (of_nat (length rrs) :: uint16)) msg off =
     Ok (map record_norm rrs, off + length (wire_records rrs), None)"
  using records_reads_loop [of rrs msg off "[]"]
  by (simp add: records_valid_def unpackRRslice_def unat_of_nat take_bit_nat_eq_self)

lemma Unpack_image:
  assumes v: "message_valid m" and ne: "Questions m \<noteq> [] \<or> Answer m @ Ns m @ Extra m \<noteq> []"
  shows "Unpack d (wire_message m) =
    Ok ((message_norm m)\<lparr>Compress := Compress d\<rparr>, if Truncated m then Some ErrTruncated else None)"
proof -
  define w where "w = wire_message m"
  let ?h = "message_header m" and ?q = "wire_questions (Questions m)" and ?a = "wire_records (Answer m)"
    and ?n = "wire_records (Ns m)" and ?e = "wire_records (Extra m)"
  have at: "bytes_at w 0 (wire_msg_header ?h)" "bytes_at w 12 ?q" "bytes_at w (12 + length ?q) ?a"
    "bytes_at w (12 + length ?q + length ?a) ?n" "bytes_at w (12 + length ?q + length ?a + length ?n) ?e"
    and len: "length w = 12 + length ?q + length ?a + length ?n + length ?e"
    by (simp_all add: w_def wire_message_def bytes_at_def)
  note m = v [unfolded message_valid_def]
  define d1 where "d1 = set_bits ?h d"
  have d1: "d1 = d\<lparr>MsgId := MsgId m, Response := Response m, Opcode := Opcode m, Authoritative := Authoritative m,
      Truncated := Truncated m, RecursionDesired := RecursionDesired m,
      RecursionAvailable := RecursionAvailable m, Zero := Zero m, AuthenticatedData := AuthenticatedData m,
      CheckingDisabled := CheckingDisabled m, Rcode := Rcode m\<rparr>"
    unfolding d1_def by (rule set_bits_header) (use m in simp_all)
  have q: "unpack_questions (unat (Qdcount ?h)) w 12 [] = Ok (Questions m, 12 + length ?q, None)"
    using questions_reads [OF _ at(2), of "[]"] m
    by (simp add: message_header_def unat_of_nat take_bit_nat_eq_self)
  have s: "unpack_sections ?h w (12 + length ?q) dns =
      Ok (dns\<lparr>Answer := map record_norm (Answer m), Ns := map record_norm (Ns m), Extra := map record_norm (Extra m)\<rparr>,
          length w, None)" for dns
    using records_reads [OF _ at(3)] records_reads [OF _ at(4)] records_reads [OF _ at(5)] m
    by (simp add: unpack_sections_def message_header_def len)
  have ne: "12 \<noteq> length w"
    using ne by (auto simp: len wire_questions_def wire_records_def neq_Nil_conv)
  have "Unpack d w =
    Ok (d1\<lparr>Questions := Questions m, Answer := map record_norm (Answer m), Ns := map record_norm (Ns m),
        Extra := map record_norm (Extra m)\<rparr>, if Truncated m then Some ErrTruncated else None)"
    using ne by (simp add: Unpack_def Header_reads [OF at(1)] Let_def q s flip: d1_def) (simp add: d1)
  then show ?thesis by (simp add: w_def d1 message_norm_def)
qed

section \<open>Unpacking arbitrary bytes\<close>

lemma inside_recover:
  assumes "inside msg off m"
    and "\<And>x off'. off \<le> off' \<Longrightarrow> off' \<le> length msg \<Longrightarrow> inside msg off (f x off')" "\<And>e. inside msg off (g e)"
  shows "inside msg off (case m of Ok (x, off') \<Rightarrow> f x off' | Err e \<Rightarrow> g e | Panic p \<Rightarrow> Panic p | Loops \<Rightarrow> Loops)"
  using assms by (cases m) auto

lemma unpackQuestion_inside: "off \<le> length msg \<Longrightarrow> inside msg off (unpackQuestion msg off)"
  unfolding unpackQuestion_def
  by (auto intro!: inside_rules inside_recover)

lemma questions_inside:
  "off \<le> length msg \<Longrightarrow>
   \<exists>qs off' e. unpack_questions n msg off acc = Ok (qs, off', e) \<and> off \<le> off' \<and> off' \<le> length msg \<and>
     length qs + off \<le> length acc + off'"
proof (induction n arbitrary: off acc)
  case (Suc n)
  have i: "inside msg off (unpackQuestion msg off)" by (rule unpackQuestion_inside [OF Suc.prems])
  show ?case
  proof (cases "unpackQuestion msg off")
    case (Ok r)
    obtain q off1 where r: "r = (q, off1)" by fastforce
    have off1: "off \<le> off1" "off1 \<le> length msg" using i Ok r by simp_all
    show ?thesis
    proof (cases "off = off1")
      case False
      obtain qs off' e where "unpack_questions n msg off1 (acc @ [q]) = Ok (qs, off', e)" "off1 \<le> off'"
        "off' \<le> length msg" "length qs + off1 \<le> length (acc @ [q]) + off'"
        using Suc.IH [OF off1(2)] by blast
      then show ?thesis using Ok r False off1 by auto
    qed (use Ok r off1 in simp)
  qed (use i Suc.prems in simp_all)
qed simp

lemma records_inside:
  "off \<le> length msg \<Longrightarrow>
   \<exists>rs off' e. unpackRRslice_loop n msg off acc = Ok (rs, off', e) \<and> off \<le> off' \<and> off' \<le> length msg \<and>
     length rs + off \<le> length acc + off'"
proof (induction n arbitrary: off acc)
  case (Suc n)
  have i: "inside msg off (UnpackRR msg off)" by (rule UnpackRR_inside(1) [OF Suc.prems])
  show ?case
  proof (cases "UnpackRR msg off")
    case (Ok r)
    obtain q off1 where r: "r = (q, off1)" by fastforce
    have off1: "off \<le> off1" "off1 \<le> length msg" using i Ok r by simp_all
    show ?thesis
    proof (cases "off = off1")
      case False
      obtain qs off' e where "unpackRRslice_loop n msg off1 (acc @ [q]) = Ok (qs, off', e)" "off1 \<le> off'"
        "off' \<le> length msg" "length qs + off1 \<le> length (acc @ [q]) + off'"
        using Suc.IH [OF off1(2)] by blast
      then show ?thesis using Ok r False off1 by auto
    qed (use Ok r off1 in simp)
  qed (use i Suc.prems in simp_all)
qed simp

lemma unpackMsgHdr_inside: "inside msg 0 (unpackMsgHdr msg 0)"
  unfolding unpackMsgHdr_def by (auto intro!: inside_rules)

lemma unpackRRslice_inside:
  assumes "off \<le> length msg"
  obtains rs off' e where "unpackRRslice n msg off = Ok (rs, off', e)" "off \<le> off'" "off' \<le> length msg"
    "length rs + off \<le> off'"
  using records_inside [OF assms, of n "[]"] by (auto simp: unpackRRslice_def)

lemma unpack_sections_inside:
  assumes "off \<le> length msg"
  shows "\<exists>m off' e. unpack_sections dh msg off dns = Ok (m, off', e) \<and> Questions m = Questions dns \<and>
    (Answer dns = [] \<and> Ns dns = [] \<and> Extra dns = [] \<longrightarrow>
      length (Answer m) + length (Ns m) + length (Extra m) + off \<le> length msg)"
proof -
  obtain r1 o1 e1 where 1: "unpackRRslice (unat (Ancount dh)) msg off = Ok (r1, o1, e1)"
    "o1 \<le> length msg" "length r1 + off \<le> o1"
    by (rule unpackRRslice_inside [OF assms])
  obtain r2 o2 e2 where 2: "unpackRRslice (unat (Nscount dh)) msg o1 = Ok (r2, o2, e2)"
    "o2 \<le> length msg" "length r2 + o1 \<le> o2"
    by (rule unpackRRslice_inside [OF 1(2)])
  obtain r3 o3 e3 where 3: "unpackRRslice (unat (Arcount dh)) msg o2 = Ok (r3, o3, e3)"
    "o3 \<le> length msg" "length r3 + o2 \<le> o3"
    by (rule unpackRRslice_inside [OF 2(2)])
  show ?thesis
    using 1 2 3 by (cases e1; cases e2) (simp_all add: unpack_sections_def Let_def)
qed

lemma unpack_sections_id:
  assumes "off \<le> length msg" "unpack_sections dh msg off dns = Ok (m, off', e)"
  shows "MsgId m = MsgId dns"
proof -
  obtain r1 o1 e1 where 1: "unpackRRslice (unat (Ancount dh)) msg off = Ok (r1, o1, e1)" "o1 \<le> length msg"
    by (rule unpackRRslice_inside [OF assms(1)])
  obtain r2 o2 e2 where 2: "unpackRRslice (unat (Nscount dh)) msg o1 = Ok (r2, o2, e2)" "o2 \<le> length msg"
    by (rule unpackRRslice_inside [OF 1(2)])
  obtain r3 o3 e3 where 3: "unpackRRslice (unat (Arcount dh)) msg o2 = Ok (r3, o3, e3)"
    by (rule unpackRRslice_inside [OF 2(2)])
  show ?thesis
    using assms(2) 1 2 3 by (cases e1; cases e2) (auto simp add: unpack_sections_def Let_def)
qed

lemma unpackMsgHdr_moves: "unpackMsgHdr msg 0 = Ok (dh, off) \<Longrightarrow> off = 12"
  by (auto simp: unpackMsgHdr_def unpackUint16_def unpack_uint_def split: if_splits)

section \<open>Properties\<close>

text \<open>C12: \<open>Unpack\<close> comes back on every byte string, whatever message it is called on: there is no
  panic and no endless loop.\<close>

theorem Unpack_safe: "safe (Unpack d msg)"
proof (cases "unpackMsgHdr msg 0")
  case (Ok r)
  obtain dh off where r: "r = (dh, off)" by fastforce
  have off: "off \<le> length msg" using unpackMsgHdr_inside [of msg] Ok r by simp
  obtain qs o1 e1 where q: "unpack_questions (unat (Qdcount dh)) msg off [] = Ok (qs, o1, e1)" "o1 \<le> length msg"
    using questions_inside [OF off] by blast
  obtain m o2 e2 where s: "unpack_sections dh msg o1 ((set_bits dh d)\<lparr>Questions := qs\<rparr>) = Ok (m, o2, e2)"
    using unpack_sections_inside [OF q(2)] by blast
  show ?thesis using Ok r q(1) s by (simp add: Unpack_def Let_def)
qed (use unpackMsgHdr_inside [of msg] in \<open>simp_all add: Unpack_def\<close>)

text \<open>The number of questions and records of a message.\<close>

definition entries :: "Msg \<Rightarrow> nat" where
  "entries m = length (Questions m) + length (Answer m) + length (Ns m) + length (Extra m)"

text \<open>C16: Unpacking a byte string into a new message gives a message with no more entries than the string
  has bytes behind the 12 bytes of the header, whatever counts the header claims: an entry that does not move the offset ends its
  section.\<close>

theorem Unpack_bounded: "\<exists>m e. Unpack new_Msg msg = Ok (m, e) \<and> entries m \<le> length msg - 12"
proof (cases "unpackMsgHdr msg 0")
  case (Ok r)
  obtain dh off where r: "r = (dh, off)" by fastforce
  have off: "off \<le> length msg" "off = 12"
    using unpackMsgHdr_inside [of msg] unpackMsgHdr_moves [of msg dh off] Ok r by simp_all
  obtain qs o1 e1 where q: "unpack_questions (unat (Qdcount dh)) msg off [] = Ok (qs, o1, e1)" "o1 \<le> length msg"
    "length qs + off \<le> o1"
    using questions_inside [OF off(1), of "unat (Qdcount dh)" "[]"] by auto
  let ?d = "(set_bits dh new_Msg)\<lparr>Questions := qs\<rparr>"
  have e: "Answer (set_bits dh new_Msg) = []" "Ns (set_bits dh new_Msg) = []" "Extra (set_bits dh new_Msg) = []"
    "Questions (set_bits dh new_Msg) = []"
    by (simp_all add: set_bits_def new_Msg_def)
  obtain m o2 e2 where s: "unpack_sections dh msg o1 ?d = Ok (m, o2, e2)" "Questions m = qs"
    "length (Answer m) + length (Ns m) + length (Extra m) + o1 \<le> length msg"
    using unpack_sections_inside [OF q(2), of dh ?d] e by auto
  show ?thesis using Ok r q s off e by (auto simp: Unpack_def Let_def entries_def)
next
  case (Err e)
  then show ?thesis by (auto simp: Unpack_def entries_def new_Msg_def)
qed (use unpackMsgHdr_inside [of msg] in simp_all)

definition example_header :: "uint16 \<Rightarrow> RR_Header" where
  "example_header t = \<lparr>Name = ''a.b.'', Rrtype = t, Class = 1, Ttl = 5, Rdlength = 0\<rparr>"

definition example_message :: Msg where
  "example_message = new_Msg\<lparr>MsgId := 77, Response := True, Rcode := 3,
     Questions := [\<lparr>QName = ''a.b.'', Qtype = 1, Qclass = 1\<rparr>],
     Answer := [\<lparr>Hdr = example_header 1, Rdata = Std (RR_A [1, 2, 3, 4])\<rparr>,
                \<lparr>Hdr = example_header 15, Rdata = Std (RR_MX 10 ''m.b.'')\<rparr>]\<rparr>"

lemma example_message_valid: "message_valid example_message" "message_roomy example_message"
  by code_simp+

text \<open>C9: A message is packed as its image and unpacked again: for a message without compression whose
  names, records and codes have an image, \<open>Pack\<close> returns the image, and \<open>Unpack\<close> of it gives back
  every field, with the data lengths filled in and IPv4 addresses in four bytes.  With the truncation
  bit set the message is the same and the error says so.\<close>

theorem message_round_trip:
  assumes "message_valid m" "message_roomy m" "0 < entries m"
  shows "Pack m = Ok (wire_message m, message_packed m) \<and>
    Unpack d (wire_message m) =
      Ok ((message_norm m)\<lparr>Compress := Compress d\<rparr>, if Truncated m then Some ErrTruncated else None)"
proof
  show "Pack m = Ok (wire_message m, message_packed m)"
    unfolding Pack_def by (rule PackBuffer_image [OF assms(1,2)]) simp
  have "Questions m \<noteq> [] \<or> Answer m @ Ns m @ Extra m \<noteq> []" using assms(3) by (auto simp: entries_def)
  then show "Unpack d (wire_message m) =
      Ok ((message_norm m)\<lparr>Compress := Compress d\<rparr>, if Truncated m then Some ErrTruncated else None)"
    by (rule Unpack_image [OF assms(1)])
qed

theorem message_round_trip_witness:
  "Pack example_message = Ok (wire_message example_message, message_packed example_message) \<and>
   Unpack new_Msg (wire_message example_message) =
     Ok ((message_norm example_message)\<lparr>Compress := Compress new_Msg\<rparr>,
         if Truncated example_message then Some ErrTruncated else None)"
  by (rule message_round_trip [OF example_message_valid]) (simp add: entries_def example_message_def)

text \<open>C18: The buffer \<open>PackBuffer\<close> makes is large enough: the length that the methods \<open>len\<close> add up to is
  at least the one of the image, when every name, text and record has an image and no type bitmap is
  underestimated.\<close>

theorem uncompressedLen_bound:
  assumes "message_valid m" "message_roomy m"
  shows "\<exists>n. uncompressedLen m = Ok n \<and> length (wire_message m) \<le> n"
  using assms by (rule message_bound)

theorem uncompressedLen_bound_witness:
  "\<exists>n. uncompressedLen example_message = Ok n \<and> length (wire_message example_message) \<le> n"
  by (rule uncompressedLen_bound [OF example_message_valid])

definition full_nsec :: Msg where
  "full_nsec = new_Msg\<lparr>Answer := [\<lparr>Hdr = example_header 47, Rdata = Sec (RR_NSEC ''b.'' [255, 511])\<rparr>]\<rparr>"

lemma full_nsec_valid: "message_valid full_nsec"
proof -
  have "length (wire_nsec [255, 511]) = 68"
    by (simp add: wire_nsec.simps [of "[255, 511]"] wire_nsec.simps [of "[511]"] length_block window_of_def octet_of_def)
  moreover have "length (wire_name ''b.'') = 3" "valid_name ''b.''" "valid_name ''a.b.''" "valid_bitmap [255, 511]" by code_simp+
  ultimately show ?thesis
    by (simp add: message_valid_def records_valid_def record_valid_def full_nsec_def example_header_def new_Msg_def type_fits_def)
qed

text \<open>A message with the NSEC types 255 and 511 cannot be packed: each block of its bitmap has 34
  bytes and is counted with 33, so that the buffer is one byte too short.\<close>

theorem PackBuffer_nsec_overflow:
  "message_valid full_nsec \<and> Pack full_nsec = Err (overflow ''packing nsec'')"
proof
  show "message_valid full_nsec" by (rule full_nsec_valid)
  show "Pack full_nsec = Err (overflow ''packing nsec'')" by code_simp
qed

text \<open>C40: A response code from 16 to 255 is lost: with an OPT record in the message, it is packed as the
  message with the low four bits of the code, because the extended part of it is below 16 and
  \<open>SetExtendedRcode\<close> ignores it.\<close>

theorem extended_rcode_lost:
  assumes "16 \<le> Rcode m" "Rcode m < 256" "IsEdns0 m = Ok (Some i)"
  shows "Pack m = Pack (m\<lparr>Rcode := Rcode m mod 16\<rparr>)"
proof -
  have F: "(15 :: int) = mask 4" by (simp add: mask_eq_exp_minus_1)
  have r: "Rcode m AND 0xF = Rcode m mod 16"
    unfolding F by (simp flip: take_bit_eq_mask add: take_bit_eq_mod)
  have "uint (word_of_int (Rcode m div 16) :: byte) < 16"
    using assms(1,2) by (simp add: uint_word_of_int)
  then have "OPT_SetExtendedRcode (word_of_int (Rcode m div 16)) h = h" for h
    by (simp add: OPT_SetExtendedRcode_def)
  moreover define n where "n = Rcode m mod 16"
  ultimately have "extend_rcode m = Ok (m\<lparr>Rcode := n\<rparr>)"
    using assms(1,3) by (simp add: extend_rcode_def Let_def r)
  moreover have n: "0 \<le> n" "n < 16" by (simp_all add: n_def)
  then have "extend_rcode (m\<lparr>Rcode := n\<rparr>) = Ok (m\<lparr>Rcode := n\<rparr>)"
    by (simp add: extend_rcode_def)
  ultimately show ?thesis using assms(1,2) n by (simp add: Pack_def PackBuffer_def flip: n_def)
qed

theorem extended_rcode_lost_witness:
  "Pack (new_Msg\<lparr>Rcode := 17, Extra := [\<lparr>Hdr = example_header 41, Rdata = Ext (RR_OPT [])\<rparr>]\<rparr>) =
   Pack (new_Msg\<lparr>Rcode := 17 mod 16, Extra := [\<lparr>Hdr = example_header 41, Rdata = Ext (RR_OPT [])\<rparr>]\<rparr>)"
proof -
  let ?m = "new_Msg\<lparr>Rcode := 17, Extra := [\<lparr>Hdr = example_header 41, Rdata = Ext (RR_OPT [])\<rparr>]\<rparr>"
  have "IsEdns0 ?m = Ok (Some 0)" by code_simp
  then show ?thesis using extended_rcode_lost [of ?m 0] by (simp add: new_Msg_def)
qed

end
