(* ===== verification/Serve_Conn.thy ===== *)
theory Serve_Conn
  imports Wire_Msg Serve_Mux
begin

text \<open>
  One client of a running server: the frames of a TCP connection (\<open>readTCP\<close>), datagrams
  (\<open>readUDP\<close>), the response writer (\<open>Write\<close>, \<open>WriteMsg\<close>) and \<open>serve\<close> of \<open>server.go\<close>.

  A TCP connection is the list of what its reads may deliver: chunks of bytes, as they arrive, and
  errors (a deadline that passed is one); a read takes what is there, at most as much as it asked
  for, and the end of the list is the end of the stream.  A handler is a function from the request
  to the message it hands to \<open>WriteMsg\<close>, as the handlers of the program do exactly once; it does
  not hijack the connection.  The result of writing to a socket is ignored by the code and left
  out.  The servers of the program have no TSIG secrets, so that branch is not modelled.
\<close>

section \<open>Connections\<close>

definition MinMsgSize :: nat where "MinMsgSize = 512"
definition MaxMsgSize :: nat where "MaxMsgSize = 65535"
definition ErrShortRead :: go_error where "ErrShortRead = Error ''short read''"
definition EOF :: go_error where "EOF = Error ''EOF''"

datatype arrival =
    Chunk "byte list"
  | Fails go_error

type_synonym stream = "arrival list"

text \<open>\<open>Read\<close> into a buffer of \<open>n\<close> bytes.\<close>

fun conn_read :: "nat \<Rightarrow> stream \<Rightarrow> byte list outcome \<times> stream" where
  "conn_read n [] = (Err EOF, [])"
| "conn_read n (Fails e # c) = (Err e, c)"
| "conn_read n (Chunk bs # c) =
     (Ok (take n bs), if length bs \<le> n then c else Chunk (drop n bs) # c)"

primrec arrivals :: "stream \<Rightarrow> nat" where
  "arrivals [] = 0"
| "arrivals (a # c) = (case a of Chunk bs \<Rightarrow> 1 + length bs | Fails e \<Rightarrow> 1) + arrivals c"

lemma conn_read_less: "0 < n \<Longrightarrow> conn_read n c = (Ok bs, c') \<Longrightarrow> arrivals c' < arrivals c"
  by (cases "(n, c)" rule: conn_read.cases) (auto split: if_splits)

text \<open>The loop of \<open>readTCP\<close>: read until the message has its length.\<close>

function read_rest :: "nat \<Rightarrow> byte list \<Rightarrow> stream \<Rightarrow> byte list outcome \<times> stream" where
  "read_rest l m c =
     (if length m < l then
        (case conn_read (l - length m) c of
           (Ok bs, c') \<Rightarrow> read_rest l (m @ bs) c'
         | (r, c') \<Rightarrow> (r, c'))
      else (Ok m, c))"
  by pat_completeness auto
termination
  by (relation "measure (\<lambda>(l, m, c). arrivals c)") (auto dest!: conn_read_less [OF _ sym, rotated])

declare read_rest.simps [simp del]

definition readTCP :: "stream \<Rightarrow> byte list outcome \<times> stream" where
  "readTCP c =
     (case conn_read 2 c of
        (Ok l, c) \<Rightarrow>
          if length l \<noteq> 2 then (Err ErrShortRead, c)
          else
            (let n = unat (be_word l :: uint16)
             in if n = 0 then (Err ErrShortRead, c)
                else
                  (case conn_read n c of
                     (Ok m, c) \<Rightarrow> if m = [] then (Err ErrShortRead, c) else read_rest n m c
                   | (r, c) \<Rightarrow> (r, c)))
      | (r, c) \<Rightarrow> (r, c))"

text \<open>\<open>readUDP\<close>: what arrives is a datagram or an error; the rest of a datagram that is longer than
  the buffer is lost.\<close>

definition readUDP :: "nat \<Rightarrow> arrival \<Rightarrow> byte list outcome" where
  "readUDP udpSize a =
     (case a of
        Fails e \<Rightarrow> Err e
      | Chunk d \<Rightarrow> (let m = take udpSize d in if m = [] then Err ErrShortRead else Ok m))"

section \<open>Responses\<close>

datatype transport = UDP | TCP

text \<open>The bytes \<open>Write\<close> hands to the socket.\<close>

definition response_Write :: "transport \<Rightarrow> byte list \<Rightarrow> byte list outcome" where
  "response_Write t m =
     (case t of
        UDP \<Rightarrow> Ok m
      | TCP \<Rightarrow>
          let lm = length m
          in if lm < 2 then Err (Error ''short buffer'')
             else if lm > MaxMsgSize then Err (Error ''message too large'')
             else Ok (be_bytes 2 (of_nat lm :: uint16) @ m))"

definition WriteMsg :: "transport \<Rightarrow> Msg \<Rightarrow> byte list outcome" where
  "WriteMsg t m = obind (Pack m) (\<lambda>(data, m'). response_Write t data)"

text \<open>What the socket gets: nothing when \<open>WriteMsg\<close> returns an error.\<close>

fun sent_bytes :: "byte list outcome \<Rightarrow> byte list list outcome" where
  "sent_bytes (Ok d) = Ok [d]"
| "sent_bytes (Err e) = Ok []"
| "sent_bytes (Panic p) = Panic p"
| "sent_bytes Loops = Loops"

section \<open>Serving a message\<close>

definition maxTCPQueries :: nat where "maxTCPQueries = 128"

text \<open>One pass of \<open>serve\<close>, from the label \<open>Redo\<close> to \<open>Exit\<close>.\<close>

definition serve_request ::
    "bool \<Rightarrow> (Msg \<Rightarrow> Msg outcome) \<Rightarrow> transport \<Rightarrow> byte list \<Rightarrow> byte list list outcome" where
  "serve_request unsafe handler t m =
     obind (Unpack new_Msg m) (\<lambda>(req, err).
       if err \<noteq> None then sent_bytes (WriteMsg t (SetRcodeFormatError new_Msg req))
       else if \<not> unsafe \<and> Response req then Ok []
       else obind (handler req) (\<lambda>x. sent_bytes (WriteMsg t x)))"

text \<open>
  \<open>serve\<close> on a connection: \<open>q\<close> counts the messages read after the first one, and the handler may
  depend on it (the program's one draws random numbers).  It ends by closing the connection.
\<close>

function serve_conn ::
    "bool \<Rightarrow> (nat \<Rightarrow> Msg \<Rightarrow> Msg outcome) \<Rightarrow> nat \<Rightarrow> byte list \<Rightarrow> stream \<Rightarrow> byte list list outcome" where
  "serve_conn unsafe handler q m c =
     obind (serve_request unsafe (handler q) TCP m) (\<lambda>out.
       if q > maxTCPQueries then Ok out
       else
         (case readTCP c of
            (Ok m', c') \<Rightarrow> map_ok (\<lambda>rest. out @ rest) (serve_conn unsafe handler (q + 1) m' c')
          | (r, c') \<Rightarrow> Ok out))"
  by pat_completeness auto
termination
  by (relation "measure (\<lambda>(u, h, q, m, c). Suc maxTCPQueries - q)") auto

declare serve_conn.simps [simp del]

section \<open>Frames\<close>

text \<open>Chunks that hold at least one byte each, as the reads of a stream socket deliver them.\<close>

definition chunks :: "byte list list \<Rightarrow> stream" where
  "chunks ds = map Chunk ds"

definition segments :: "byte list list \<Rightarrow> bool" where
  "segments ds \<longleftrightarrow> [] \<notin> set ds"

lemma segments_simps [simp]: "segments []" "segments (d # ds) \<longleftrightarrow> d \<noteq> [] \<and> segments ds"
  "segments (ds @ es) \<longleftrightarrow> segments ds \<and> segments es"
  by (auto simp: segments_def)

lemma chunks_simps [simp]: "chunks [] = []" "chunks (d # ds) = Chunk d # chunks ds"
  "chunks (ds @ es) = chunks ds @ chunks es"
  by (simp_all add: chunks_def)

lemma conn_read_chunks:
  assumes "segments ds" "ds \<noteq> []" "0 < n"
  obtains bs ds' where "conn_read n (chunks ds @ c) = (Ok bs, chunks ds' @ c)" "bs \<noteq> []" "length bs \<le> n"
    "concat ds = bs @ concat ds'" "segments ds'"
proof (cases ds)
  case (Cons d es)
  show thesis
  proof (cases "length d \<le> n")
    case True
    then show thesis using that [of d es] assms Cons by simp
  next
    case False
    then show thesis using that [of "take n d" "drop n d # es"] assms Cons by simp
  qed
qed (use assms in simp)

lemma read_rest_chunks:
  "segments ds \<Longrightarrow> length m + length (concat ds) \<ge> l \<Longrightarrow> length m \<le> l \<Longrightarrow>
   \<exists>ds'. read_rest l m (chunks ds @ c) = (Ok (m @ take (l - length m) (concat ds)), chunks ds' @ c) \<and>
     concat ds' = drop (l - length m) (concat ds) \<and> segments ds'"
proof (induction "length (concat ds)" arbitrary: ds m rule: less_induct)
  case less
  show ?case
  proof (cases "length m < l")
    case True
    then have "ds \<noteq> []" using less.prems by auto
    then obtain bs ds' where r: "conn_read (l - length m) (chunks ds @ c) = (Ok bs, chunks ds' @ c)" "bs \<noteq> []"
      "length bs \<le> l - length m" "concat ds = bs @ concat ds'" "segments ds'"
      using conn_read_chunks [of ds "l - length m"] less.prems(1) True by (metis zero_less_diff)
    have "length (concat ds') < length (concat ds)" "l \<le> length (m @ bs) + length (concat ds')" "length (m @ bs) \<le> l"
      using r less.prems True by auto
    from less.hyps [OF this(1) r(5) this(2,3)] show ?thesis
      using True r by (subst read_rest.simps) auto
  next
    case False
    then show ?thesis using less.prems by (subst read_rest.simps) auto
  qed
qed

lemma readTCP_chunks:
  assumes "segments ds" "concat ds = be_bytes 2 (of_nat (length m) :: uint16) @ m @ rest"
    "2 \<le> length (hd ds)" "m \<noteq> []" "length m \<le> MaxMsgSize"
  obtains ds' where "readTCP (chunks ds @ c) = (Ok m, chunks ds' @ c)" "concat ds' = rest" "segments ds'"
proof -
  have len: "unat (of_nat (length m) :: uint16) = length m"
    using assms(5) by (simp add: unat_of_nat take_bit_nat_eq_self MaxMsgSize_def)
  obtain d es where ds: "ds = d # es" using assms(2) by (cases ds) (auto simp flip: length_0_conv)
  define e1 where "e1 = (if length d \<le> 2 then es else drop 2 d # es)"
  have "take 2 (concat ds) = take 2 d" "concat e1 = drop 2 (concat ds)"
    using assms(3) ds by (simp_all add: e1_def)
  moreover have "take 2 (concat ds) = be_bytes 2 (of_nat (length m) :: uint16)" "drop 2 (concat ds) = m @ rest"
    by (simp_all add: assms(2))
  ultimately have d: "take 2 d = be_bytes 2 (of_nat (length m) :: uint16)" "concat e1 = m @ rest"
    by simp_all
  have r1: "conn_read 2 (chunks ds @ c) = (Ok (take 2 d), chunks e1 @ c)"
    by (simp add: ds e1_def)
  have s1: "segments e1" "e1 \<noteq> []" using assms(1,4) d(2) by (auto simp: ds e1_def)
  obtain bs e2 where r2: "conn_read (length m) (chunks e1 @ c) = (Ok bs, chunks e2 @ c)" "bs \<noteq> []"
    "length bs \<le> length m" "concat e1 = bs @ concat e2" "segments e2"
    using conn_read_chunks [OF s1, of "length m"] assms(4) by blast
  have bs: "m = bs @ take (length m - length bs) (concat e2)" "rest = drop (length m - length bs) (concat e2)"
    using arg_cong [OF r2(4), of "take (length m)"] arg_cong [OF r2(4), of "drop (length m)"] r2(3)
    by (simp_all add: d(2))
  obtain e3 where "read_rest (length m) bs (chunks e2 @ c) =
      (Ok (bs @ take (length m - length bs) (concat e2)), chunks e3 @ c)"
    "concat e3 = drop (length m - length bs) (concat e2)" "segments e3"
    using read_rest_chunks [OF r2(5), of "length m" bs c] r2(3,4) d(2)
    by (metis length_append le_add1)
  then show thesis
    using that [of e3] bs r1 r2(1,2) assms(4) by (simp add: readTCP_def d(1) be_word_all len Let_def)
qed

section \<open>Many messages on one connection\<close>

definition tcp_frame :: "byte list \<Rightarrow> byte list" where
  "tcp_frame m = be_bytes 2 (of_nat (length m) :: uint16) @ m"

text \<open>The stream of a client that sends the messages, each cut into segments of any size, but with
  the length in the first segment.\<close>

definition frame_segments :: "byte list \<Rightarrow> byte list list \<Rightarrow> bool" where
  "frame_segments m ds \<longleftrightarrow> m \<noteq> [] \<and> length m \<le> MaxMsgSize \<and> concat ds = tcp_frame m \<and> segments ds \<and> 2 \<le> length (hd ds)"

text \<open>The specification: the messages are answered one by one.\<close>

primrec answer_all :: "bool \<Rightarrow> (nat \<Rightarrow> Msg \<Rightarrow> Msg outcome) \<Rightarrow> nat \<Rightarrow> byte list list \<Rightarrow> byte list list outcome" where
  "answer_all unsafe handler q [] = Ok []"
| "answer_all unsafe handler q (m # ms) =
     obind (serve_request unsafe (handler q) TCP m)
       (\<lambda>out. map_ok (\<lambda>rest. out @ rest) (answer_all unsafe handler (q + 1) ms))"

lemma readTCP_frame: "frame_segments m ds \<Longrightarrow> readTCP (chunks ds @ c) = (Ok m, c)"
proof -
  assume f: "frame_segments m ds"
  obtain ds' where r: "readTCP (chunks ds @ c) = (Ok m, chunks ds' @ c)" "concat ds' = []" "segments ds'"
    by (rule readTCP_chunks [of ds m "[]" c]) (use f in \<open>auto simp: frame_segments_def tcp_frame_def\<close>)
  then have "ds' = []" by (cases ds') auto
  then show ?thesis using r by simp
qed

lemma serve_conn_frames:
  "list_all2 frame_segments ms dss \<Longrightarrow> q \<le> maxTCPQueries + 1 \<Longrightarrow>
   serve_conn unsafe handler q m (concat (map chunks dss)) =
     answer_all unsafe handler q (take (maxTCPQueries + 2 - q) (m # ms))"
proof (induction ms arbitrary: dss q m)
  case Nil
  have "readTCP [] = (Err EOF, [])" by (simp add: readTCP_def)
  moreover have "serve_conn unsafe handler q m [] = obind (serve_request unsafe (handler q) TCP m) Ok"
    using calculation by (subst serve_conn.simps) (simp cong: if_cong)
  ultimately show ?case using Nil by (cases "maxTCPQueries + 2 - q") simp_all
next
  case (Cons m' ms)
  obtain ds dss' where d: "dss = ds # dss'" "frame_segments m' ds" "list_all2 frame_segments ms dss'"
    using Cons.prems(1) by (auto simp: list_all2_Cons1)
  show ?case
  proof (cases "q > maxTCPQueries")
    case True
    then have "q = maxTCPQueries + 1" using Cons.prems(2) by simp
    then show ?thesis by (subst serve_conn.simps) simp
  next
    case False
    then have n: "maxTCPQueries + 2 - q = Suc (maxTCPQueries + 2 - (q + 1))" by simp
    have "serve_conn unsafe handler (q + 1) m' (concat (map chunks dss')) =
        answer_all unsafe handler (q + 1) (take (maxTCPQueries + 2 - (q + 1)) (m' # ms))"
      using Cons.IH [OF d(3)] False by simp
    then show ?thesis using False readTCP_frame [OF d(2)] d(1) unfolding n
      by (subst serve_conn.simps) simp
  qed
qed

lemma sent_bytes_one: "sent_bytes r = Ok out \<Longrightarrow> length out \<le> 1"
  by (cases r) auto

lemma serve_request_one: "serve_request unsafe handler t m = Ok out \<Longrightarrow> length out \<le> 1"
  by (auto simp: serve_request_def obind_eq_Ok split: if_splits dest: sent_bytes_one)

lemma serve_conn_length:
  "serve_conn unsafe handler q m c = Ok out \<Longrightarrow> length out \<le> max 1 (maxTCPQueries + 2 - q)"
proof (induction unsafe handler q m c arbitrary: out rule: serve_conn.induct)
  case (1 unsafe handler q m c)
  obtain o1 where o1: "serve_request unsafe (handler q) TCP m = Ok o1"
    using "1.prems" by (subst (asm) serve_conn.simps) auto
  have len: "length o1 \<le> 1" by (rule serve_request_one [OF o1])
  show ?case
  proof (cases "\<exists>m' c'. q \<le> maxTCPQueries \<and> readTCP c = (Ok m', c')")
    case False
    then have "out = o1" using "1.prems" o1
      by (subst (asm) serve_conn.simps) (auto split: if_splits outcome.splits prod.splits)
    then show ?thesis using len by simp
  next
    case True
    then obtain m' c' where t: "\<not> q > maxTCPQueries" "readTCP c = (Ok m', c')" by auto
    obtain o2 where o2: "serve_conn unsafe handler (q + 1) m' c' = Ok o2" "out = o1 @ o2"
      using "1.prems" t o1 by (subst (asm) serve_conn.simps) (auto simp: map_ok_eq_Ok)
    show ?thesis using "1.IH" [OF o1 t(1) t(2) [symmetric] refl o2(1)] o2(2) len t(1) by auto
  qed
qed

section \<open>Malformed messages\<close>

text \<open>The reply to a message that cannot be unpacked: the header with the bit for a response and the
  code 1.\<close>

definition formerr :: "uint16 \<Rightarrow> byte list" where
  "formerr i = be_bytes 2 i @ [0x80, 1, 0, 0, 0, 0, 0, 0, 0, 0]"

lemma be_bytes_formerr:
  "be_bytes 2 (0x8001 :: uint16) = [0x80, 1]" "be_bytes 2 (0 :: uint16) = [0, 0]"
  by code_simp+

lemma formerr_header: "header_bits (SetRcodeFormatError new_Msg r) = 0x8001"
  by (simp add: header_bits_def SetRcodeFormatError_def new_Msg_def)

lemma formerr_message:
  "message_valid (SetRcodeFormatError new_Msg r)" "message_roomy (SetRcodeFormatError new_Msg r)"
  "message_packed (SetRcodeFormatError new_Msg r) = SetRcodeFormatError new_Msg r"
  "Response (SetRcodeFormatError new_Msg r)" "wire_message (SetRcodeFormatError new_Msg r) = formerr (MsgId r)"
proof -
  let ?m = "SetRcodeFormatError new_Msg r"
  have s: "Questions ?m = []" "Answer ?m = []" "Ns ?m = []" "Extra ?m = []" "MsgId ?m = MsgId r"
    by (simp_all add: SetRcodeFormatError_def new_Msg_def)
  show "message_valid ?m" "message_roomy ?m"
    by (simp_all add: message_valid_def message_roomy_def records_valid_def s)
       (simp_all add: SetRcodeFormatError_def new_Msg_def)?
  show "message_packed ?m = ?m" "Response ?m"
    by (simp_all add: message_packed_def SetRcodeFormatError_def new_Msg_def)
  show "wire_message ?m = formerr (MsgId r)"
    by (simp add: wire_message_def wire_msg_header_def message_header_def s formerr_header wire_questions_def
        wire_records_def formerr_def be_bytes_formerr)
qed

lemma Pack_formerr:
  "Pack (SetRcodeFormatError new_Msg r) = Ok (formerr (MsgId r), SetRcodeFormatError new_Msg r)"
  using PackBuffer_image [OF formerr_message(1,2), of "[]"] by (simp add: Pack_def formerr_message)

lemma serve_malformed:
  "Unpack new_Msg m = Ok (req, Some e) \<Longrightarrow> serve_request unsafe handler UDP m = Ok [formerr (MsgId req)]"
  by (simp add: serve_request_def WriteMsg_def Pack_formerr response_Write_def)

lemma Unpack_formerr: "\<exists>r. Unpack d (formerr i) = Ok (r, Some ErrTruncated) \<and> MsgId r = i"
proof -
  let ?m = "new_Msg\<lparr>MsgId := i\<rparr>"
  let ?h = "message_header (SetRcodeFormatError new_Msg ?m)"
  have "formerr i = wire_msg_header ?h"
    by (simp add: wire_msg_header_def message_header_def formerr_header formerr_def be_bytes_formerr)
      (simp add: SetRcodeFormatError_def new_Msg_def be_bytes_formerr)
  moreover have "bytes_at (wire_msg_header ?h) 0 (wire_msg_header ?h)" by (simp add: bytes_at_def)
  ultimately have "unpackMsgHdr (formerr i) 0 = Ok (?h, 12)" using Header_reads [of "formerr i" ?h] by simp
  then show ?thesis
    by (simp add: Unpack_def Let_def formerr_def set_bits_def message_header_def) (simp add: SetRcodeFormatError_def)
qed

section \<open>Properties\<close>

text \<open>C24: A message written by \<open>Write\<close> on a TCP connection is read back by \<open>readTCP\<close>, however the
  network cuts the bytes into segments, as long as the two bytes of the length arrive together, and
  what follows it stays in the connection.\<close>

theorem tcp_frame_round_trip:
  assumes "response_Write TCP m = Ok d" "concat ds = d @ rest" "segments ds" "2 \<le> length (hd ds)"
  shows "\<exists>ds'. readTCP (chunks ds @ c) = (Ok m, chunks ds' @ c) \<and> concat ds' = rest"
proof -
  have m: "m \<noteq> []" "length m \<le> MaxMsgSize" "d = be_bytes 2 (of_nat (length m) :: uint16) @ m"
    using assms(1) by (auto simp: response_Write_def Let_def split: if_splits)
  show ?thesis by (rule readTCP_chunks [of ds m rest c]) (use assms m in auto)
qed

theorem tcp_frame_round_trip_witness:
  "\<exists>ds'. readTCP (chunks [[0, 3, 7], [8], [9, 0]] @ [Fails EOF]) = (Ok [7, 8, 9], chunks ds' @ [Fails EOF]) \<and>
     concat ds' = [0]"
proof (rule tcp_frame_round_trip)
  show "response_Write TCP [7, 8, 9] = Ok [0, 3, 7, 8, 9]" by code_simp
qed simp_all

text \<open>When the two bytes of the length do not arrive together the message is lost: the first read
  returns one byte, which is an error.\<close>

lemma tcp_split_length:
  assumes "response_Write TCP m = Ok (b # d)"
  shows "readTCP (chunks [[b], d] @ c) = (Err ErrShortRead, chunks [d] @ c)"
  by (simp add: readTCP_def)

text \<open>C25: \<open>serve\<close> answers the messages of a connection in order, each like a message of its own, and
  closes the connection after 130 of them: the first message is not counted and the test
  \<open>q > maxTCPQueries\<close> lets one more pass.\<close>

theorem serve_conn_pipeline:
  assumes "list_all2 frame_segments ms dss"
  shows "serve_conn unsafe handler 0 m (concat (map chunks dss)) =
    answer_all unsafe handler 0 (take 130 (m # ms))"
  using serve_conn_frames [OF assms, of 0] by (simp add: maxTCPQueries_def)

theorem serve_conn_pipeline_witness:
  "serve_conn False (\<lambda>q r. Ok (HandleFailed r)) 0 [1, 2] (concat (map chunks [[[0, 2], [5, 6]], [[0, 1, 7]]])) =
   answer_all False (\<lambda>q r. Ok (HandleFailed r)) 0 (take 130 [[1, 2], [5, 6], [7]])"
proof (rule serve_conn_pipeline)
  have "frame_segments [5, 6] [[0, 2], [5, 6]]" "frame_segments [7] [[0, 1, 7]]" by code_simp+
  then show "list_all2 frame_segments [[5, 6], [7]] [[[0, 2], [5, 6]], [[0, 1, 7]]]" by simp
qed

text \<open>A connection gets at most 130 replies, whatever arrives on it.\<close>

theorem serve_conn_bounded:
  assumes "serve_conn unsafe handler 0 m c = Ok out"
  shows "length out \<le> 130"
  using serve_conn_length [OF assms] by (simp add: maxTCPQueries_def)

theorem serve_conn_bounded_witness:
  "\<exists>out. serve_conn False (\<lambda>q r. Ok (HandleFailed r)) 0 [1] [] = Ok out \<and> length out \<le> 130"
proof -
  have "is_ok (serve_conn False (\<lambda>q r. Ok (HandleFailed r)) 0 [1] [])" by code_simp
  then obtain out where "serve_conn False (\<lambda>q r. Ok (HandleFailed r)) 0 [1] [] = Ok out"
    by (cases "serve_conn False (\<lambda>q r. Ok (HandleFailed r)) 0 [1] []") auto
  from serve_conn_bounded [OF this] this show ?thesis by blast
qed

text \<open>C23: Every datagram that \<open>Unpack\<close> rejects is answered with the 12 bytes of a format error that
  carry its id, before the handler is called and before the bit for responses is looked at.  Such a
  reply, a header without questions, is itself rejected by \<open>Unpack\<close>: two servers that get one as a
  query from each other answer it forever.\<close>

theorem malformed_reply:
  assumes "Unpack new_Msg m = Ok (req, Some e)"
  shows "serve_request unsafe handler UDP m = Ok [formerr (MsgId req)] \<and>
    serve_request unsafe' handler' UDP (formerr (MsgId req)) = Ok [formerr (MsgId req)]"
proof
  show "serve_request unsafe handler UDP m = Ok [formerr (MsgId req)]" by (rule serve_malformed [OF assms])
  show "serve_request unsafe' handler' UDP (formerr (MsgId req)) = Ok [formerr (MsgId req)]"
    using Unpack_formerr [of new_Msg "MsgId req"] serve_malformed by metis
qed

theorem malformed_reply_witness:
  "\<exists>req :: Msg. serve_request False (\<lambda>r. Loops) UDP [1, 2, 3] = Ok [formerr (MsgId req)]"
proof -
  have "snd (case Unpack new_Msg [1, 2, 3] of Ok r \<Rightarrow> r | _ \<Rightarrow> (new_Msg, None)) \<noteq> None" by code_simp
  then obtain req e where "Unpack new_Msg [1, 2, 3] = Ok (req, Some e)"
    by (cases "Unpack new_Msg [1, 2, 3]") auto
  from malformed_reply [OF this, of False "\<lambda>r. Loops"] show ?thesis by blast
qed

end
