(* ===== verification/Gyip_Service.thy ===== *)
theory Gyip_Service
  imports Gyip_Config Serve_Conn
begin

text \<open>
  The running program on the bytes it gets: a datagram goes through \<open>readUDP\<close>, \<open>Unpack\<close>, the
  multiplexer, the handlers of \<open>gyip.go\<close>, \<open>Pack\<close> and \<open>Write\<close>, a connection through \<open>readTCP\<close>
  and \<open>serve\<close>.
\<close>

unbundle bit_operations_syntax

section \<open>The model\<close>

text \<open>The servers \<open>serve\<close> of \<open>gyip.go\<close> starts have the default buffer, no \<open>Unsafe\<close> flag and the
  default multiplexer as their handler.\<close>

definition serve_datagram :: "server \<Rightarrow> (nat \<Rightarrow> nat) \<Rightarrow> Addr \<Rightarrow> byte list \<Rightarrow> byte list list outcome" where
  "serve_datagram srv draws addr d =
     (case readUDP MinMsgSize (Chunk d) of
        Ok m \<Rightarrow> serve_request False (server_reply srv draws addr) UDP m
      | r \<Rightarrow> Ok [])"

definition serve_stream :: "server \<Rightarrow> (nat \<Rightarrow> nat \<Rightarrow> nat) \<Rightarrow> Addr \<Rightarrow> stream \<Rightarrow> byte list list outcome" where
  "serve_stream srv draws addr c =
     (case readTCP c of
        (Ok m, c) \<Rightarrow> serve_conn False (\<lambda>q. server_reply srv (draws q) addr) 0 m c
      | (r, c) \<Rightarrow> Ok [])"

section \<open>Names read from the wire\<close>

lemma name_at_labels: "name_at msg off ls n e \<Longrightarrow> list_all (\<lambda>l. l \<noteq> [] \<and> length l < 64) ls"
  by (induction rule: name_at.induct) auto

lemma unpacked_name:
  assumes "UnpackDomainName msg off = Ok (s, e)"
  shows "valid_name s"
proof -
  obtain ls n where n: "name_at msg off ls n e" "n \<le> 10" by (rule UnpackDomainName_Ok_name [OF assms])
  have "\<not> (ls \<noteq> [] \<and> name_octets ls \<ge> 255)" "s = present ls"
    using assms UnpackDomainName_name_at [OF n] by (simp_all split: if_splits)
  moreover have "ls = [] \<Longrightarrow> name_octets ls < 255" by (simp add: name_octets_def)
  ultimately have "labels_ok ls" "s = present ls"
    using name_at_labels [OF n(1)] by (auto simp: labels_ok_def)
  then show ?thesis by (simp add: valid_present)
qed

lemma unpackQuestion_name: "unpackQuestion msg off = Ok (q, e) \<Longrightarrow> valid_name (QName q)"
proof -
  assume r: "unpackQuestion msg off = Ok (q, e)"
  then obtain s o1 where u: "UnpackDomainName msg off = Ok (s, o1)" by (auto simp: unpackQuestion_def)
  have "QName q = s"
  proof (cases "o1 = length msg")
    case False
    then obtain t o2 where t: "unpackUint16 msg o1 = Ok (t, o2)" using r u by (auto simp: unpackQuestion_def)
    then show ?thesis
      using r u False by (cases "unpackUint16 msg o2") (auto simp: unpackQuestion_def split: if_splits)
  qed (use r u in \<open>auto simp: unpackQuestion_def\<close>)
  then show ?thesis using unpacked_name [OF u] by simp
qed

lemma unpack_questions_names:
  "unpack_questions n msg off qs = Ok (qs', e) \<Longrightarrow> list_all (\<lambda>q. valid_name (QName q)) qs \<Longrightarrow>
   list_all (\<lambda>q. valid_name (QName q)) qs'"
proof (induction n arbitrary: off qs)
  case (Suc n)
  then show ?case
    by (auto split: outcome.splits prod.splits if_splits dest: unpackQuestion_name)
qed simp

lemma Unpack_names:
  assumes "Unpack new_Msg msg = Ok (r, e)"
  shows "list_all (\<lambda>q. valid_name (QName q)) (Questions r)"
proof (cases "unpackMsgHdr msg 0")
  case (Ok h)
  obtain dh off where h: "h = (dh, off)" by fastforce
  have off: "off \<le> length msg" using unpackMsgHdr_inside [of msg] Ok h by simp
  obtain qs o1 e1 where q: "unpack_questions (unat (Qdcount dh)) msg off [] = Ok (qs, o1, e1)" "o1 \<le> length msg"
    using questions_inside [OF off] by blast
  obtain m o2 e2 where s: "unpack_sections dh msg o1 ((set_bits dh new_Msg)\<lparr>Questions := qs\<rparr>) = Ok (m, o2, e2)"
    "Questions m = qs"
    using unpack_sections_inside [OF q(2)] by fastforce
  have "list_all (\<lambda>q. valid_name (QName q)) qs" using unpack_questions_names [OF q(1)] by simp
  moreover have "Questions (set_bits dh new_Msg) = []" by (simp add: set_bits_def new_Msg_def)
  ultimately show ?thesis
    using assms Ok h q(1) s by (auto simp: Unpack_def Let_def split: if_splits)
qed (use assms in \<open>auto simp: Unpack_def new_Msg_def\<close>)

text \<open>A name from the wire is the root or begins with a character of a label.\<close>

definition proper_start :: "string \<Rightarrow> bool" where
  "proper_start s \<longleftrightarrow> s = [] \<or> hd s \<noteq> CHR ''.''"

lemma present_start: "labels_ok ls \<Longrightarrow> ls \<noteq> [] \<Longrightarrow> present ls \<noteq> [] \<and> hd (present ls) \<noteq> CHR ''.''"
proof -
  assume ls: "labels_ok ls" "ls \<noteq> []"
  then obtain b l ls' where l: "ls = (b # l) # ls'" by (cases ls; cases "hd ls") (auto simp: labels_ok_def)
  then show ?thesis
    by (cases rule: escape_byte_cases [of b]) (auto simp: present_def fqdn_def)
qed

lemma valid_name_start: "valid_name s \<Longrightarrow> s \<noteq> [] \<and> (s = ''.'' \<or> hd s \<noteq> CHR ''.'')"
proof (elim valid_name_obtain)
  fix ls assume ls: "labels_ok ls" "s = present ls"
  have "present [] = ''.''" by (simp add: present_def fqdn_def)
  then show ?thesis using ls present_start [of ls] by (cases "ls = []") auto
qed

section \<open>The handlers on names from the wire\<close>

text \<open>What a handler may do: return a reply or panic on a slice.\<close>

fun orderly :: "'a outcome \<Rightarrow> bool" where
  "orderly (Ok x) \<longleftrightarrow> True"
| "orderly (Panic p) \<longleftrightarrow> p = SliceBoundsOutOfRange"
| "orderly r \<longleftrightarrow> False"

lemma orderly_obind [intro!]:
  "orderly m \<Longrightarrow> (\<And>x. m = Ok x \<Longrightarrow> orderly (f x)) \<Longrightarrow> orderly (obind m f)"
  by (cases m) auto

lemma orderly_go_slice [simp]: "orderly (go_slice s a b)"
  by (simp add: go_slice_def)

lemma orderly_map_ok [simp]: "orderly (map_ok f m) = orderly m"
  by (cases m) auto

lemma orderly_body: "orderly (parseIPs_body A l r acc)"
  unfolding parseIPs_body_def no_way_on_def Let_def by (auto split: option.splits)

lemma body_size:
  assumes "0 \<le> l" "parseIPs_body A l r acc = Ok (Next l' r' acc')"
  shows "int (length acc') + r' \<le> int (length acc) + r \<and> -1 \<le> r'"
proof -
  obtain w where w: "go_slice A l r = Ok w" using assms(2) by (auto simp: parseIPs_body_def)
  have lr: "l \<le> r" "r \<le> int (length A)" using w by (auto simp: go_slice_Ok_iff)
  show ?thesis
  proof (cases "ParseIP w")
    case (Some ip)
    then have "2 \<le> length w" using ParseIP_short [of w] by (cases "length w \<le> 1") auto
    then have "l + 2 \<le> r" using w lr by (auto simp: go_slice_Ok_iff)
    then show ?thesis using assms w Some by (auto simp: parseIPs_body_def Let_def)
  next
    case None
    then obtain b where b: "go_slice A 0 (r - 1) = Ok b" and way: "no_way_on A l r = Ok False"
      using assms(2) w by (auto simp: parseIPs_body_def no_way_on_def split: if_splits)
    have "int (length b) \<le> r - 1" using b by (auto simp: go_slice_Ok_iff)
    then have "LastIndex b ''.'' \<le> r" "- 1 \<le> LastIndex b ''.''"
      using LastIndex_bounds [of b "CHR ''.''"] by auto
    then show ?thesis using assms w None way b lr
      by (auto simp: parseIPs_body_def Let_def split: if_splits)
  qed
qed

lemma loop_orderly:
  assumes "parseIPs_loop A l r acc = Some res"
  shows "orderly res \<and> (\<forall>ips. res = Ok ips \<longrightarrow> -1 \<le> r \<longrightarrow> int (length ips) \<le> int (length acc) + r + 1)"
  using assms
proof (induction A l r acc res rule: loop_induct)
  case (1 loop A l r acc res)
  show ?case
  proof (cases "0 \<le> l \<and> (\<exists>l' r' acc'. parseIPs_body A l r acc = Ok (Next l' r' acc'))")
    case True
    then obtain l' r' acc' where n: "0 \<le> l" "parseIPs_body A l r acc = Ok (Next l' r' acc')"
      by blast
    then have "loop A l' r' acc' = Some res" using 1(2) by simp
    from 1(1) [OF this] body_size [OF n] show ?thesis by fastforce
  next
    case False
    then show ?thesis using 1(2) orderly_body [of A l r acc]
      by (auto split: if_splits outcome.splits control.splits)
  qed
qed

lemma parseIPs_orderly:
  assumes "proper_start A"
  shows "orderly (parseIPs A)" "parseIPs A = Ok ips \<Longrightarrow> length ips \<le> length A + 1"
proof -
  obtain res where res: "parseIPs_loop A (int (length A) - 1) (int (length A)) [] = Some res"
    using loop_ends [of A "int (length A) - 1" "int (length A)" "[]"] assms by (auto simp: proper_start_def)
  show "orderly (parseIPs A)" using loop_orderly [OF res] by (simp add: parseIPs_def res)
  show "parseIPs A = Ok ips \<Longrightarrow> length ips \<le> length A + 1"
    using loop_orderly [OF res] by (auto simp: parseIPs_def res)
qed

lemma proper_start_take: "proper_start s \<Longrightarrow> proper_start (take n s)"
  by (cases s; cases n) (auto simp: proper_start_def)

lemma go_slice_start: "proper_start s \<Longrightarrow> go_slice s 0 b = Ok t \<Longrightarrow> proper_start t \<and> length t \<le> length s"
  by (auto simp: go_slice_Ok_iff proper_start_take)

lemma find_command_start:
  assumes "proper_start s"
  shows "orderly (find_command s)"
    "find_command s = Ok (cmd, t) \<Longrightarrow> proper_start t \<and> length t \<le> length s"
  using assms unfolding find_command_def
  by (auto simp: Let_def dest: go_slice_start split: if_splits)

lemma Execute_length: "Execute cmd draw ips = Ok (out, ttl) \<Longrightarrow> length out \<le> length ips"
  by (cases cmd) (auto simp: Noop_Execute_def RoundRobin_Execute_def Fail_Execute_def go_slice_def split: if_splits)

lemma address_records_length: "length (address_records qt name ttl ips) \<le> length ips"
proof -
  have "length (concat (map (\<lambda>ip. case f ip of Some p \<Rightarrow> [g p] | None \<Rightarrow> []) ips)) \<le> length ips"
    for f :: "IP \<Rightarrow> IP option" and g :: "IP \<Rightarrow> RR"
    by (induction ips) (auto split: option.splits)
  then show ?thesis by (simp add: address_records_def)
qed

lemma frameResponse_orderly:
  assumes "name = ''.'' \<or> proper_start name"
  shows "orderly (frameResponse ip qt name zone draw) \<and>
    (\<forall>rrs. frameResponse ip qt name zone draw = Ok rrs \<longrightarrow> length rrs \<le> length name + 2)"
proof (cases "name = [] \<or> LastIndex name zone < 0")
  case True
  then show ?thesis by (auto simp: frameResponse_def)
next
  case ne: False
  show ?thesis
  proof (cases "go_slice name 0 (int (length name) - int (length zone) - 1)")
    case (Ok s)
    have s: "proper_start s" "length s \<le> length name"
      using assms Ok go_slice_start [OF _ Ok] by (auto simp: go_slice_Ok_iff proper_start_def)
    show ?thesis
    proof (cases "ToLower s = ''echo'' \<or> ToLower s = ''reflect''")
      case True
      then show ?thesis using ne Ok by (auto simp: frameResponse_def echo_records split: option.splits
          intro: le_trans [OF address_records_length])
    next
      case False
      have f: "frameResponse ip qt name zone draw =
        obind (find_command s) (\<lambda>(cmd, rest). obind (parseIPs rest) (\<lambda>ips.
          if length ips < 1 then Ok [] else obind (Execute cmd draw ips) (\<lambda>(ips, ttl).
          Ok (address_records qt name ttl ips))))"
        unfolding frameResponse_def frame_records_addresses using ne Ok False by simp
      show ?thesis
      proof (cases "find_command s")
        case fc: (Ok c)
        obtain cmd t where c: "c = (cmd, t)" by fastforce
        have t: "proper_start t" "length t \<le> length s" using find_command_start(2) [OF s(1)] fc c by auto
        show ?thesis
        proof (cases "parseIPs t")
          case p: (Ok ips)
          have len: "length ips \<le> length t + 1" by (rule parseIPs_orderly(2) [OF t(1) p])
          obtain out ttl where e: "Execute cmd draw ips = Ok (out, ttl)" using Execute_ok by blast
          have "length (address_records qt name ttl out) \<le> length name + 2"
            using address_records_length [of qt name ttl out] Execute_length [OF e] len t(2) s(2) by linarith
          then show ?thesis unfolding f by (simp add: fc c p e)
        qed (use parseIPs_orderly(1) [OF t(1)] in \<open>simp_all add: f fc c\<close>)
      qed (use find_command_start(1) [OF s(1)] in \<open>simp_all add: f\<close>)
    qed
  qed (use ne orderly_go_slice [of name 0 "int (length name) - int (length zone) - 1"] in
      \<open>simp_all add: frameResponse_def\<close>)
qed

section \<open>Replies\<close>

lemma To4_4: "length p = 4 \<Longrightarrow> To4 p = Some p"
  by (simp add: To4_def)

lemma address_record_valid:
  assumes "rr \<in> set (address_records qt name ttl ips)" "valid_name name"
  shows "record_valid rr" "roomy (Rdata rr)"
    "record_norm rr = rr\<lparr>Hdr := full_header rr\<rparr>"
proof -
  from address_records_shape [OF assms(1)]
  have h: "Name (Hdr rr) = name" "Rrtype (Hdr rr) = qt" and
    d: "(qt = TypeA \<and> (\<exists>p. length p = 4 \<and> Rdata rr = Std (RR_A p))) \<or>
     (qt = TypeAAAA \<and> (\<exists>p. length p = 16 \<and> Rdata rr = Std (RR_AAAA p)))" by auto
  then show "record_valid rr" "roomy (Rdata rr)" "record_norm rr = rr\<lparr>Hdr := full_header rr\<rparr>"
    using assms(2) by (auto simp: record_valid_def type_fits_def record_norm_def To4_4 ip4_def)
qed

text \<open>What the handlers send: a valid message that is no query, with the id and the first question of
  the request and with addresses as answers.\<close>

definition reply_to :: "Msg \<Rightarrow> Msg \<Rightarrow> bool" where
  "reply_to r m \<longleftrightarrow>
     message_valid m \<and> message_roomy m \<and> Response m \<and> \<not> Truncated m \<and> MsgId m = MsgId r \<and>
     Questions m = take 1 (Questions r) \<and> message_norm m = message_packed m"

lemma reply_with_valid:
  assumes "\<And>q. Questions r = q # tl (Questions r) \<Longrightarrow> valid_name (QName q)"
    and "rrs = [] \<or> (\<exists>qt ttl ips q qs. rrs = address_records qt (QName q) ttl ips \<and> Questions r = q # qs)"
    and "length rrs < 65536"
  shows "reply_to r (reply_with False r rrs)"
proof -
  have rr: "record_valid rr \<and> roomy (Rdata rr) \<and> record_norm rr = rr\<lparr>Hdr := full_header rr\<rparr>"
    if "rr \<in> set rrs" for rr
    using that assms(1,2) address_record_valid by fastforce
  have qs: "list_all (\<lambda>q. valid_name (QName q)) (take 1 (Questions r))"
    using assms(1) by (cases "Questions r") auto
  show ?thesis
    using rr qs assms(3)
    by (auto simp: reply_to_def reply_with_def message_valid_def message_roomy_def message_norm_def message_packed_def
        records_valid_def list_all_iff)
qed

lemma SetReply_valid:
  assumes "list_all (\<lambda>q. valid_name (QName q)) (Questions r)" "0 \<le> c" "c < 16"
  shows "reply_to r ((SetReply new_Msg r)\<lparr>Rcode := c, Compress := False\<rparr>)"
  using assms
  by (cases "Questions r")
    (auto simp: reply_to_def SetReply_def new_Msg_def message_valid_def message_roomy_def message_norm_def
      message_packed_def records_valid_def)

lemma failed_valid:
  assumes "list_all (\<lambda>q. valid_name (QName q)) (Questions r)"
  shows "reply_to r (HandleFailed r)"
proof -
  have "HandleFailed r = (SetReply new_Msg r)\<lparr>Rcode := 2, Compress := False\<rparr>"
    by (simp add: HandleFailed_def SetRcode_def SetReply_def new_Msg_def Let_def)
  then show ?thesis using SetReply_valid [OF assms, of 2] by simp
qed

lemma notzone_valid:
  assumes "list_all (\<lambda>q. valid_name (QName q)) (Questions r)"
  shows "reply_to r (notzone_handler False r)"
proof -
  have "notzone_handler False r = (SetReply new_Msg r)\<lparr>Rcode := 10, Compress := False\<rparr>"
    by (simp add: notzone_handler_def SetReply_def new_Msg_def Let_def)
  then show ?thesis using SetReply_valid [OF assms, of 10] by simp
qed

lemma handleQuestions_orderly:
  assumes "list_all (\<lambda>q. valid_name (QName q)) (Questions r)"
  shows "orderly (handleQuestions doms False draws addr r)"
    "handleQuestions doms False draws addr r = Ok m \<Longrightarrow> reply_to r m"
proof -
  have "orderly (handleQuestions doms False draws addr r) \<and>
    (\<forall>m. handleQuestions doms False draws addr r = Ok m \<longrightarrow> reply_to r m)"
  proof (cases "\<exists>q qs. Questions r = q # qs \<and> address_type (Qtype q)")
    case False
    then have "handleQuestions doms False draws addr r = Ok (reply_with False r [])"
      using handleQuestions_none handleQuestions_first by (cases "Questions r") auto
    then show ?thesis using reply_with_valid [of r "[]"] assms by (cases "Questions r") auto
  next
    case True
    then obtain q qs where q: "Questions r = q # qs" "address_type (Qtype q)" by blast
    have v: "valid_name (QName q)" using assms q by simp
    let ?f = "frameResponse (remote_ip addr) (Qtype q) (QName q) (find_domain doms (QName q)) (draws 0)"
    have h: "handleQuestions doms False draws addr r = obind ?f (\<lambda>rrs. Ok (reply_with False r rrs))"
      using handleQuestions_first [OF q(1)] q(2) by simp
    have o: "orderly ?f" and l: "\<And>rrs. ?f = Ok rrs \<Longrightarrow> length rrs \<le> length (QName q) + 2"
      using frameResponse_orderly [of "QName q"] valid_name_start [OF v] by (auto simp: proper_start_def)
    have "reply_to r (reply_with False r rrs)" if f: "?f = Ok rrs" for rrs
    proof (rule reply_with_valid)
      show "length rrs < 65536" using l [OF f] valid_name_length [OF v] by simp
      show "rrs = [] \<or> (\<exists>qt ttl ips q qs. rrs = address_records qt (QName q) ttl ips \<and> Questions r = q # qs)"
        using frameResponse_shape [OF f] q(1) by blast
      show "valid_name (QName q')" if "Questions r = q' # tl (Questions r)" for q'
        using that q v by simp
    qed
    then show ?thesis unfolding h using o by (cases ?f) auto
  qed
  then show "orderly (handleQuestions doms False draws addr r)"
    "handleQuestions doms False draws addr r = Ok m \<Longrightarrow> reply_to r m" by auto
qed

lemma server_reply_orderly:
  assumes "list_all (\<lambda>q. valid_name (QName q)) (Questions r)" "\<not> server_compress srv"
  shows "orderly (server_reply srv draws addr r)"
    "server_reply srv draws addr r = Ok m \<Longrightarrow> reply_to r m"
proof -
  have "orderly (server_reply srv draws addr r) \<and> (\<forall>m. server_reply srv draws addr r = Ok m \<longrightarrow> reply_to r m)"
    using assms handleQuestions_orderly [OF assms(1)] failed_valid [OF assms(1)] notzone_valid [OF assms(1)]
    by (auto simp: server_reply_def split: option.splits handler.splits)
  then show "orderly (server_reply srv draws addr r)"
    "server_reply srv draws addr r = Ok m \<Longrightarrow> reply_to r m" by auto
qed

section \<open>Datagrams\<close>

lemma Pack_reply: "reply_to r m \<Longrightarrow> Pack m = Ok (wire_message m, message_packed m)"
  unfolding Pack_def reply_to_def by (elim conjE) (rule PackBuffer_image; simp)

lemma Unpack_reply:
  assumes "reply_to r m" "Questions r \<noteq> []"
  shows "Unpack new_Msg (wire_message m) = Ok (message_packed m, None)"
proof -
  have "message_valid m" "Questions m \<noteq> []" "\<not> Truncated m" "message_norm m = message_packed m"
    using assms by (auto simp: reply_to_def take_Suc neq_Nil_conv)
  then have "Unpack new_Msg (wire_message m) = Ok ((message_packed m)\<lparr>Compress := False\<rparr>, None)"
    using Unpack_image [of m new_Msg] by (simp add: new_Msg_def)
  moreover have "\<not> Compress m" using \<open>message_valid m\<close> by (simp add: message_valid_def)
  ultimately show ?thesis by (simp add: message_packed_def)
qed

lemma serve_request_reply:
  assumes "Unpack new_Msg d = Ok (r, None)" "\<not> Response r" "\<not> server_compress srv"
  shows "serve_request False (server_reply srv draws addr) UDP d =
    map_ok (\<lambda>m. [wire_message m]) (server_reply srv draws addr r)"
proof -
  have v: "list_all (\<lambda>q. valid_name (QName q)) (Questions r)" by (rule Unpack_names [OF assms(1)])
  show ?thesis
  proof (cases "server_reply srv draws addr r")
    case (Ok m)
    have "Pack m = Ok (wire_message m, message_packed m)"
      by (rule Pack_reply [OF server_reply_orderly(2) [OF v assms(3) Ok]])
    then show ?thesis using assms(1,2) Ok by (simp add: serve_request_def WriteMsg_def response_Write_def)
  qed (use assms in \<open>simp_all add: serve_request_def\<close>)
qed

lemma serve_datagram_small:
  assumes "d \<noteq> []" "length d \<le> 512"
  shows "serve_datagram srv draws addr d = serve_request False (server_reply srv draws addr) UDP d"
  using assms by (simp add: serve_datagram_def readUDP_def MinMsgSize_def)

lemma wire_message_ne [simp]: "wire_message m \<noteq> []"
  using length_wire_msg_header [of "message_header m"] by (auto simp: wire_message_def simp del: length_wire_msg_header)

lemma datagram_of_query:
  assumes "message_valid r" "Questions r \<noteq> []" "\<not> Response r" "\<not> Truncated r"
    and "length (wire_message r) \<le> 512" "\<not> server_compress srv"
  shows "serve_datagram srv draws addr (wire_message r) =
      map_ok (\<lambda>m. [wire_message m]) (server_reply srv draws addr (message_norm r))"
proof -
  have "\<not> Compress r" using assms(1) by (simp add: message_valid_def)
  then have "Unpack new_Msg (wire_message r) = Ok (message_norm r, None)"
    using Unpack_image [OF assms(1), of new_Msg] assms(2,4) by (simp add: new_Msg_def message_norm_def)
  moreover have "\<not> Response (message_norm r)" using assms(3) by (simp add: message_norm_def)
  ultimately show ?thesis
    using serve_datagram_small [of "wire_message r"] assms(5) serve_request_reply [OF _ _ assms(6)] by simp
qed

lemma be_bytes_be_word: "be_bytes 2 (be_word [a, b] :: uint16) = [a, b]"
proof -
  have "(ucast (push_bit 8 (ucast a) OR ucast b :: uint16) :: byte) = b"
    "(ucast (drop_bit 8 (push_bit 8 (ucast a) OR ucast b :: uint16)) :: byte) = a"
    by (rule bit_word_eqI; auto simp: bit_simps dest: bit_imp_le_length)+
  then show ?thesis by (simp add: be_word_def be_bytes_def upt_rec numeral_2_eq_2)
qed

lemma header_id: "unpackMsgHdr msg 0 = Ok (dh, off) \<Longrightarrow> be_bytes 2 (HdId dh) = take 2 msg"
proof -
  assume h: "unpackMsgHdr msg 0 = Ok (dh, off)"
  then have "2 \<le> length msg" "HdId dh = be_word (take 2 msg)"
    by (auto simp: unpackMsgHdr_def unpackUint16_def unpack_uint_def split: if_splits)
  then show ?thesis by (cases msg; cases "tl msg") (simp_all add: be_bytes_be_word)
qed

lemma reply_id: "take 2 (wire_message m) = be_bytes 2 (MsgId m)"
  by (simp add: wire_message_def wire_msg_header_def message_header_def)

lemma Unpack_total:
  "\<exists>r e. Unpack new_Msg msg = Ok (r, e) \<and> (12 \<le> length msg \<longrightarrow> be_bytes 2 (MsgId r) = take 2 msg)"
proof (cases "unpackMsgHdr msg 0")
  case (Ok h)
  obtain dh off where h: "h = (dh, off)" by fastforce
  have off: "off \<le> length msg" using unpackMsgHdr_inside [of msg] Ok h by simp
  obtain qs o1 e1 where q: "unpack_questions (unat (Qdcount dh)) msg off [] = Ok (qs, o1, e1)" "o1 \<le> length msg"
    using questions_inside [OF off] by blast
  obtain m o2 e2 where s: "unpack_sections dh msg o1 ((set_bits dh new_Msg)\<lparr>Questions := qs\<rparr>) = Ok (m, o2, e2)"
    using unpack_sections_inside [OF q(2)] by fastforce
  have "MsgId m = HdId dh" using unpack_sections_id [OF q(2) s] by (simp add: set_bits_def)
  moreover have "MsgId (set_bits dh new_Msg) = HdId dh" by (simp add: set_bits_def)
  moreover have "be_bytes 2 (HdId dh) = take 2 msg" using header_id [of msg dh off] Ok h by simp
  moreover have "Unpack new_Msg msg =
     (if off = length msg then Ok (set_bits dh new_Msg, Some ErrTruncated)
      else if e1 \<noteq> None then Ok ((set_bits dh new_Msg)\<lparr>Questions := qs\<rparr>, e1)
      else if o2 = length msg \<and> Truncated m then Ok (m, Some ErrTruncated) else Ok (m, e2))"
    by (simp add: Unpack_def Let_def Ok h q(1) s)
  ultimately show ?thesis by (cases "off = length msg"; cases e1) simp_all
next
  case (Err e)
  have "length msg < 12"
  proof (rule ccontr)
    assume "\<not> length msg < 12"
    then have "is_ok (unpackMsgHdr msg 0)"
      by (simp add: unpackMsgHdr_def unpackUint16_def unpack_uint_def)
    then show False using Err by simp
  qed
  then show ?thesis using Err by (simp add: Unpack_def)
qed (use unpackMsgHdr_inside [of msg] in simp_all)

end
