(* ===== verification/Serve_Loop.thy ===== *)
theory Serve_Loop
  imports Serve_Conn "HOL-Library.Multiset"
begin

text \<open>
  The life of a \<open>Server\<close> of \<open>server.go\<close>: \<open>ListenAndServe\<close>, \<open>ActivateAndServe\<close>, \<open>Shutdown\<close> and
  the loops \<open>serveUDP\<close> and \<open>serveTCP\<close>, as a step relation between states.  The calls run
  concurrently: a state has the program points of every call of \<open>ListenAndServe\<close> that got as far as
  its loop, of every call of \<open>Shutdown\<close> and of the goroutine it starts, and the messages whose
  goroutine \<open>serve\<close> has not ended.  Each step is one atomic action between two points where another
  goroutine may run: a section under the lock, a read from a socket, the increment of \<open>inFlight\<close>,
  the end of \<open>inFlight.Wait\<close>, the exchange on the channel \<open>fin\<close>.

  Sockets are numbered in the order they are opened.  The step relation has the handlers as a
  parameter: the set of what a handler may do, because the program's one draws random numbers.
  The actions tell the steps of the program, which it makes by itself sooner or later, from those
  the network makes when it likes: \<open>Arrive\<close> (a datagram or a connection) and \<open>Fault\<close> (an error of
  \<open>Accept\<close> on an open listener).  \<open>Accept\<close> has no deadline, so that a loop of \<open>serveTCP\<close> on an open
  listener makes no step by itself; \<open>readUDP\<close> sets a deadline before every read, and a loop of
  \<open>serveUDP\<close> does.  \<open>Wait\<close> ends when the counter is zero, as \<open>sync.WaitGroup\<close> promises; the panic it
  may raise when it sees an \<open>Add\<close> at that very moment is left out.
\<close>

section \<open>The state\<close>

text \<open>What a goroutine \<open>serve\<close> works on: a datagram, or the first message of a connection and what
  is still to arrive on it.\<close>

datatype 'a job =
    Datagram 'a "byte list"
  | Connection 'a "byte list" stream

text \<open>The program points of the loops: at the head of the loop, in \<open>ReadTCP\<close>, before the test of
  \<open>started\<close>, before \<open>inFlight.Add(1)\<close>, and after the return.\<close>

datatype 'a point =
    Head
  | Reading 'a stream
  | Testing "'a job option"
  | Spawning "'a job"
  | Returned "go_error option"

record 'a serve_loop =
  loop_net :: transport
  loop_sock :: nat
  loop_point :: "'a point"

text \<open>The program points of a call of \<open>Shutdown\<close>: before it closes \<open>PacketConn\<close>, before it closes
  \<open>Listener\<close>, in its \<open>select\<close>, and after the return.  Those of the goroutine it starts: not started, in
  \<open>inFlight.Wait()\<close>, before the send on \<open>fin\<close>, and after it.\<close>

datatype shutdown_point =
    Closing
  | Closing_listener
  | Selecting
  | Finished "go_error option"

datatype fin_point =
    Absent
  | In_wait
  | Sending
  | Sent

record 'a Server =
  Net :: string
  PacketConn :: "nat option"
  Listener :: "nat option"
  UDPSize :: nat
  Unsafe :: bool
  inFlight :: nat
  started :: bool
  sockets :: "bool list"
  loops :: "'a serve_loop list"
  shutdowns :: "shutdown_point list"
  waits :: "fin_point list"
  jobs :: "'a job list"
  crashed :: bool
  accepted :: "'a job list"
  answered :: "('a job \<times> byte list list) list"

definition new_Server :: "string \<Rightarrow> 'a Server" where
  "new_Server net =
     \<lparr>Net = net, PacketConn = None, Listener = None, UDPSize = 0, Unsafe = False, inFlight = 0, started = False,
      sockets = [], loops = [], shutdowns = [], waits = [], jobs = [], crashed = False, accepted = [], answered = []\<rparr>"

section \<open>The calls\<close>

text \<open>\<open>Close\<close> of a socket, also where it is deferred.\<close>

definition close_sock :: "nat option \<Rightarrow> 'a Server \<Rightarrow> 'a Server" where
  "close_sock i srv = (case i of None \<Rightarrow> srv | Some i \<Rightarrow> srv\<lparr>sockets := (sockets srv)[i := False]\<rparr>)"

definition default_size :: "'a Server \<Rightarrow> 'a Server" where
  "default_size srv = (if UDPSize srv = 0 then srv\<lparr>UDPSize := MinMsgSize\<rparr> else srv)"

definition enter_loop :: "transport \<Rightarrow> nat \<Rightarrow> 'a Server \<Rightarrow> 'a Server" where
  "enter_loop t i srv =
     srv\<lparr>started := True, loops := loops srv @ [\<lparr>loop_net = t, loop_sock = i, loop_point = Head\<rparr>]\<rparr>"

text \<open>
  \<open>ListenAndServe\<close> up to the unlock: \<open>Some e\<close> is the error it returns at once.  \<open>setup\<close> is the error
  of the network calls that resolve the address, listen and set the socket options.
\<close>

definition ListenAndServe :: "go_error option \<Rightarrow> 'a Server \<Rightarrow> go_error option \<times> 'a Server" where
  "ListenAndServe setup srv =
     (if started srv then (Some (Error ''server already started''), srv)
      else
        (let srv = default_size srv;
             i = length (sockets srv);
             opened = srv\<lparr>sockets := sockets srv @ [True]\<rparr>
         in if Net srv \<in> {''tcp'', ''tcp4'', ''tcp6'', ''tcp-tls'', ''tcp4-tls'', ''tcp6-tls''} then
              (case setup of
                 Some e \<Rightarrow> (Some e, srv)
               | None \<Rightarrow> (None, enter_loop TCP i (opened\<lparr>Listener := Some i\<rparr>)))
            else if Net srv \<in> {''udp'', ''udp4'', ''udp6''} then
              (case setup of
                 Some e \<Rightarrow> (Some e, srv)
               | None \<Rightarrow> (None, enter_loop UDP i (opened\<lparr>PacketConn := Some i\<rparr>)))
            else (Some (Error ''bad network''), srv)))"

text \<open>\<open>ActivateAndServe\<close>: \<open>is_udp\<close> says that the packet connection is a \<open>UDPConn\<close> and not nil.\<close>

definition ActivateAndServe :: "bool \<Rightarrow> go_error option \<Rightarrow> 'a Server \<Rightarrow> go_error option \<times> 'a Server" where
  "ActivateAndServe is_udp setup srv =
     (if started srv then (Some (Error ''server already started''), srv)
      else
        (let pConn = PacketConn srv;
             l = Listener srv;
             srv = (if pConn \<noteq> None then default_size srv else srv)
         in case (if is_udp then pConn else None) of
              Some i \<Rightarrow>
                (case setup of
                   Some e \<Rightarrow> (Some e, srv)
                 | None \<Rightarrow> (None, enter_loop UDP i srv))
            | None \<Rightarrow>
                (case l of
                   Some i \<Rightarrow> (None, enter_loop TCP i srv)
                 | None \<Rightarrow> (Some (Error ''bad listeners''), srv))))"

text \<open>\<open>Shutdown\<close> up to the unlock.\<close>

definition Shutdown :: "'a Server \<Rightarrow> go_error option \<times> 'a Server" where
  "Shutdown srv =
     (if \<not> started srv then (Some (Error ''server not started''), srv)
      else (None, srv\<lparr>started := False, shutdowns := shutdowns srv @ [Closing], waits := waits srv @ [Absent]\<rparr>))"

text \<open>The rest of it, for the call \<open>k\<close>, without the lock: the two \<open>Close\<close> calls, which read the fields of
  the server only now, the goroutine that waits, and the end of the \<open>select\<close>, with what came on
  \<open>fin\<close> or after the time is over.\<close>

definition Shutdown_close :: "nat \<Rightarrow> 'a Server \<Rightarrow> 'a Server" where
  "Shutdown_close k srv = (close_sock (PacketConn srv) srv)\<lparr>shutdowns := (shutdowns srv)[k := Closing_listener]\<rparr>"

definition Shutdown_listener :: "nat \<Rightarrow> 'a Server \<Rightarrow> 'a Server" where
  "Shutdown_listener k srv =
     (close_sock (Listener srv) srv)\<lparr>shutdowns := (shutdowns srv)[k := Selecting], waits := (waits srv)[k := In_wait]\<rparr>"

definition Shutdown_wait :: "nat \<Rightarrow> 'a Server \<Rightarrow> 'a Server" where
  "Shutdown_wait k srv = srv\<lparr>waits := (waits srv)[k := Sending]\<rparr>"

definition Shutdown_return :: "nat \<Rightarrow> bool \<Rightarrow> 'a Server \<Rightarrow> 'a Server" where
  "Shutdown_return k fin srv =
     (if fin then srv\<lparr>shutdowns := (shutdowns srv)[k := Finished None], waits := (waits srv)[k := Sent]\<rparr>
      else srv\<lparr>shutdowns := (shutdowns srv)[k := Finished (Some (Error ''server shutdown is pending''))]\<rparr>)"

section \<open>The loops\<close>

definition goto :: "nat \<Rightarrow> 'a point \<Rightarrow> 'a Server \<Rightarrow> 'a Server" where
  "goto i p srv = srv\<lparr>loops := (loops srv)[i := (loops srv ! i)\<lparr>loop_point := p\<rparr>]\<rparr>"

text \<open>The result of a read, as the loops use it: the job to start, or none after an error.\<close>

definition udp_result :: "nat \<Rightarrow> 'a \<Rightarrow> arrival \<Rightarrow> 'a job option" where
  "udp_result n a x = (case readUDP n x of Ok m \<Rightarrow> Some (Datagram a m) | _ \<Rightarrow> None)"

definition tcp_result :: "'a \<Rightarrow> stream \<Rightarrow> 'a job option" where
  "tcp_result a c = (case readTCP c of (Ok m, c') \<Rightarrow> Some (Connection a m c') | _ \<Rightarrow> None)"

text \<open>The test of \<open>started\<close> after a read; leaving the loop closes its socket.\<close>

definition test_started :: "nat \<Rightarrow> 'a job option \<Rightarrow> 'a Server \<Rightarrow> 'a Server" where
  "test_started i j srv =
     (if \<not> started srv then close_sock (Some (loop_sock (loops srv ! i))) (goto i (Returned None) srv)
      else
        (case j of
           None \<Rightarrow> goto i Head srv
         | Some j \<Rightarrow> goto i (Spawning j) srv))"

definition spawn :: "nat \<Rightarrow> 'a job \<Rightarrow> 'a Server \<Rightarrow> 'a Server" where
  "spawn i j srv =
     (goto i Head srv)\<lparr>inFlight := inFlight srv + 1, jobs := jobs srv @ [j], accepted := accepted srv @ [j]\<rparr>"

text \<open>The goroutine \<open>serve\<close>, with the handler \<open>h\<close> for its client.\<close>

definition serve_job :: "bool \<Rightarrow> ('a \<Rightarrow> nat \<Rightarrow> Msg \<Rightarrow> Msg outcome) \<Rightarrow> 'a job \<Rightarrow> byte list list outcome" where
  "serve_job unsafe h j =
     (case j of
        Datagram a m \<Rightarrow> serve_request unsafe (h a 0) UDP m
      | Connection a m c \<Rightarrow> serve_conn unsafe (h a) 0 m c)"

definition job_done :: "nat \<Rightarrow> byte list list \<Rightarrow> 'a Server \<Rightarrow> 'a Server" where
  "job_done k out srv =
     srv\<lparr>inFlight := inFlight srv - 1, jobs := take k (jobs srv) @ drop (Suc k) (jobs srv),
         answered := answered srv @ [(jobs srv ! k, out)]\<rparr>"

section \<open>Steps\<close>

datatype action =
    Start
  | Stop
  | Close nat
  | Wait nat
  | Return nat
  | Loop nat
  | Arrive nat
  | Fault nat
  | Job nat

text \<open>
  Loop \<open>i\<close> is one of a transport and at some point; its socket is open.  A read of a datagram fails on
  a closed socket, and on an open one when the deadline passes (\<open>no_datagram\<close>).  \<open>Accept\<close> fails on
  a closed listener (\<open>accept_closed\<close>); on an open one it waits, and what it returns is a connection,
  an error that ends the loop, or a temporary one after which it is called again.
\<close>

definition at_point :: "'a Server \<Rightarrow> nat \<Rightarrow> transport \<Rightarrow> 'a point \<Rightarrow> bool" where
  "at_point srv i t p \<longleftrightarrow> i < length (loops srv) \<and> loop_net (loops srv ! i) = t \<and> loop_point (loops srv ! i) = p"

definition sock_open :: "'a Server \<Rightarrow> nat \<Rightarrow> bool" where
  "sock_open srv i \<longleftrightarrow> loop_sock (loops srv ! i) < length (sockets srv) \<and> sockets srv ! loop_sock (loops srv ! i)"

definition leave :: "nat \<Rightarrow> go_error option \<Rightarrow> 'a Server \<Rightarrow> 'a Server" where
  "leave i e srv = close_sock (Some (loop_sock (loops srv ! i))) (goto i (Returned e) srv)"

inductive step ::
    "('a \<Rightarrow> nat \<Rightarrow> Msg \<Rightarrow> Msg outcome) set \<Rightarrow> action \<Rightarrow> 'a Server \<Rightarrow> 'a Server \<Rightarrow> bool" for H where
  listen: "\<not> crashed s \<Longrightarrow> ListenAndServe setup s = (None, s') \<Longrightarrow> step H Start s s'"
| activate: "\<not> crashed s \<Longrightarrow> ActivateAndServe is_udp setup s = (None, s') \<Longrightarrow> step H Start s s'"
| shutdown: "\<not> crashed s \<Longrightarrow> Shutdown s = (None, s') \<Longrightarrow> step H Stop s s'"
| close: "\<not> crashed s \<Longrightarrow> k < length (shutdowns s) \<Longrightarrow> shutdowns s ! k = Closing \<Longrightarrow>
    step H (Close k) s (Shutdown_close k s)"
| close_listener: "\<not> crashed s \<Longrightarrow> k < length (shutdowns s) \<Longrightarrow> shutdowns s ! k = Closing_listener \<Longrightarrow>
    step H (Close k) s (Shutdown_listener k s)"
| wait: "\<not> crashed s \<Longrightarrow> k < length (waits s) \<Longrightarrow> waits s ! k = In_wait \<Longrightarrow> inFlight s = 0 \<Longrightarrow>
    step H (Wait k) s (Shutdown_wait k s)"
| fin: "\<not> crashed s \<Longrightarrow> k < length (shutdowns s) \<Longrightarrow> shutdowns s ! k = Selecting \<Longrightarrow> waits s ! k = Sending \<Longrightarrow>
    step H (Return k) s (Shutdown_return k True s)"
| pending: "\<not> crashed s \<Longrightarrow> k < length (shutdowns s) \<Longrightarrow> shutdowns s ! k = Selecting \<Longrightarrow>
    step H (Return k) s (Shutdown_return k False s)"
| receive: "\<not> crashed s \<Longrightarrow> at_point s i UDP Head \<Longrightarrow> sock_open s i \<Longrightarrow>
    step H (Arrive i) s (goto i (Testing (udp_result (UDPSize s) a x)) s)"
| no_datagram: "\<not> crashed s \<Longrightarrow> at_point s i UDP Head \<Longrightarrow> step H (Loop i) s (goto i (Testing None) s)"
| accept: "\<not> crashed s \<Longrightarrow> at_point s i TCP Head \<Longrightarrow> sock_open s i \<Longrightarrow> step H (Arrive i) s (goto i (Reading a c) s)"
| accept_closed: "\<not> crashed s \<Longrightarrow> at_point s i TCP Head \<Longrightarrow> \<not> sock_open s i \<Longrightarrow> step H (Loop i) s (leave i (Some e) s)"
| accept_error: "\<not> crashed s \<Longrightarrow> at_point s i TCP Head \<Longrightarrow> sock_open s i \<Longrightarrow> step H (Fault i) s (leave i (Some e) s)"
| accept_temporary: "\<not> crashed s \<Longrightarrow> at_point s i TCP Head \<Longrightarrow> sock_open s i \<Longrightarrow> step H (Fault i) s s"
| first_message: "\<not> crashed s \<Longrightarrow> at_point s i t (Reading a c) \<Longrightarrow>
    step H (Loop i) s (goto i (Testing (tcp_result a c)) s)"
| test: "\<not> crashed s \<Longrightarrow> at_point s i t (Testing j) \<Longrightarrow> step H (Loop i) s (test_started i j s)"
| spawn: "\<not> crashed s \<Longrightarrow> at_point s i t (Spawning j) \<Longrightarrow> step H (Loop i) s (spawn i j s)"
| finish: "\<not> crashed s \<Longrightarrow> k < length (jobs s) \<Longrightarrow> h \<in> H \<Longrightarrow> serve_job (Unsafe s) h (jobs s ! k) = Ok out \<Longrightarrow>
    step H (Job k) s (job_done k out s)"
| crash: "\<not> crashed s \<Longrightarrow> k < length (jobs s) \<Longrightarrow> h \<in> H \<Longrightarrow> serve_job (Unsafe s) h (jobs s ! k) = Panic p \<Longrightarrow>
    step H (Job k) s (s\<lparr>crashed := True\<rparr>)"

inductive run ::
    "('a \<Rightarrow> nat \<Rightarrow> Msg \<Rightarrow> Msg outcome) set \<Rightarrow> action list \<Rightarrow> 'a Server \<Rightarrow> 'a Server \<Rightarrow> bool" for H where
  run_Nil: "run H [] s s"
| run_Cons: "step H a s s' \<Longrightarrow> run H as s' s'' \<Longrightarrow> run H (a # as) s s''"

section \<open>What the operations leave alone\<close>

text \<open>The books of the server: what was accepted, what is being served and what has been.\<close>

definition books :: "'a Server \<Rightarrow> bool \<times> nat \<times> 'a job list \<times> 'a job list \<times> ('a job \<times> byte list list) list" where
  "books s = (Unsafe s, inFlight s, jobs s, accepted s, answered s)"

lemma books_kept [simp]:
  "books (goto i p s) = books s" "books (close_sock c s) = books s" "books (default_size s) = books s"
  "books (enter_loop t n s) = books s" "books (test_started i j s) = books s"
  "books (Shutdown_close k s) = books s" "books (Shutdown_return k b s) = books s" "books (Shutdown_wait k s) = books s"
  "books (Shutdown_listener k s) = books s" "books (leave i e s) = books s"
  "books (s\<lparr>crashed := b\<rparr>) = books s"
  by (simp_all add: books_def goto_def close_sock_def default_size_def enter_loop_def test_started_def
      Shutdown_close_def Shutdown_listener_def Shutdown_wait_def Shutdown_return_def leave_def split: option.split)

lemma books_calls:
  "ListenAndServe setup s = (r, s') \<Longrightarrow> books s' = books s"
  "ActivateAndServe u setup s = (r, s') \<Longrightarrow> books s' = books s"
  "Shutdown s = (r, s') \<Longrightarrow> books s' = books s"
proof -
  have k: "books (x\<lparr>Listener := l\<rparr>) = books x" "books (x\<lparr>PacketConn := l\<rparr>) = books x"
    "books (x\<lparr>sockets := ss\<rparr>) = books x" "books (x\<lparr>shutdowns := sh\<rparr>) = books x"
    "books (x\<lparr>started := b\<rparr>) = books x" "books (x\<lparr>waits := w\<rparr>) = books x"
    for x :: "'a Server" and l ss sh b w
    by (simp_all add: books_def)
  show "ListenAndServe setup s = (r, s') \<Longrightarrow> books s' = books s"
    by (auto simp: ListenAndServe_def Let_def k split: if_splits option.splits)
  show "ActivateAndServe u setup s = (r, s') \<Longrightarrow> books s' = books s"
    by (auto simp: ActivateAndServe_def Let_def split: if_splits option.splits)
  show "Shutdown s = (r, s') \<Longrightarrow> books s' = books s"
    by (auto simp: Shutdown_def k split: if_splits)
qed

text \<open>The invariant: \<open>inFlight\<close> counts the goroutines, every accepted message is being served or has
  been, once, and what was sent for it is what \<open>serve\<close> computes with some handler.\<close>

definition tally :: "('a \<Rightarrow> nat \<Rightarrow> Msg \<Rightarrow> Msg outcome) set \<Rightarrow> 'a Server \<Rightarrow> bool" where
  "tally H s \<longleftrightarrow>
     (case books s of (u, n, js, acc, out) \<Rightarrow>
        n = length js \<and> mset acc = mset js + mset (map fst out) \<and>
        (\<forall>(j, sent) \<in> set out. \<exists>h \<in> H. serve_job u h j = Ok sent))"

lemma tally_iff:
  "tally H s \<longleftrightarrow>
     inFlight s = length (jobs s) \<and> mset (accepted s) = mset (jobs s) + mset (map fst (answered s)) \<and>
     (\<forall>(j, out) \<in> set (answered s). \<exists>h \<in> H. serve_job (Unsafe s) h j = Ok out)"
  by (simp add: tally_def books_def)

lemma mset_remove_nth: "k < length xs \<Longrightarrow> add_mset (xs ! k) (mset (take k xs) + mset (drop (Suc k) xs)) = mset xs"
proof -
  assume k: "k < length xs"
  have "mset xs = mset (take k xs @ xs ! k # drop (Suc k) xs)" using id_take_nth_drop [OF k] by simp
  then show ?thesis by simp
qed

lemma step_tally: "step H a s s' \<Longrightarrow> tally H s \<Longrightarrow> tally H s'"
proof (induction rule: step.induct)
  case (spawn s i t j)
  then show ?case by (simp add: tally_iff spawn_def goto_def)
next
  case (finish s k h out)
  then have "inFlight (job_done k out s) = length (jobs (job_done k out s))"
    "mset (accepted (job_done k out s)) = mset (jobs (job_done k out s)) + mset (map fst (answered (job_done k out s)))"
    using mset_remove_nth [of k "jobs s"] by (auto simp: tally_iff job_done_def)
  then show ?case using finish by (auto simp: tally_iff job_done_def)
qed (simp_all only: tally_def books_kept books_calls)

lemma run_tally: "run H as s s' \<Longrightarrow> tally H s \<Longrightarrow> tally H s'"
  by (induction rule: run.induct) (auto dest: step_tally)

text \<open>A server that was not used yet.\<close>

definition fresh_server :: "'a Server \<Rightarrow> bool" where
  "fresh_server s \<longleftrightarrow>
     inFlight s = 0 \<and> \<not> started s \<and> loops s = [] \<and> shutdowns s = [] \<and> waits s = [] \<and> jobs s = [] \<and> \<not> crashed s \<and>
     accepted s = [] \<and> answered s = []"

lemma fresh_tally: "fresh_server s \<Longrightarrow> tally H s"
  by (simp add: fresh_server_def tally_iff)

section \<open>The end of the loops\<close>

fun point_work :: "'a point \<Rightarrow> nat" where
  "point_work Head = 3"
| "point_work (Reading a c) = 2"
| "point_work (Testing j) = 1"
| "point_work (Spawning j) = 5"
| "point_work (Returned r) = 0"

fun shutdown_work :: "shutdown_point \<Rightarrow> nat" where
  "shutdown_work Closing = 4"
| "shutdown_work Closing_listener = 3"
| "shutdown_work Selecting = 1"
| "shutdown_work (Finished r) = 0"

fun fin_work :: "fin_point \<Rightarrow> nat" where
  "fin_work Absent = 1"
| "fin_work In_wait = 1"
| "fin_work Sending = 0"
| "fin_work Sent = 0"

text \<open>How many steps a stopped server can still make, the faults of \<open>Accept\<close> not counted.\<close>

definition work :: "'a Server \<Rightarrow> nat" where
  "work s =
     sum_list (map (\<lambda>l. point_work (loop_point l)) (loops s)) + length (jobs s) +
     sum_list (map shutdown_work (shutdowns s)) + sum_list (map fin_work (waits s)) + (if crashed s then 0 else 1)"

lemma sum_update:
  "i < length xs \<Longrightarrow> sum_list (map f (xs[i := y])) + f (xs ! i) = sum_list (map f xs) + (f y :: nat)"
  by (induction xs arbitrary: i) (auto split: nat.split)

lemma sum_update_le: "sum_list (map f (xs[i := y])) \<le> sum_list (map f xs) + (f y :: nat)"
  using sum_update [of i xs f y] by (cases "i < length xs") (auto simp: list_update_beyond)

lemma work_goto:
  assumes "at_point s i t p"
  shows "work (goto i q s) + point_work p = work s + point_work q"
  using assms sum_update [of i "loops s" "\<lambda>l. point_work (loop_point l)" "(loops s ! i)\<lparr>loop_point := q\<rparr>"]
  by (simp add: work_def goto_def at_point_def)

lemma shutdowns_close [simp]: "shutdowns (close_sock c s) = shutdowns s" "started (close_sock c s) = started s"
  "waits (close_sock c s) = waits s" "loops (close_sock c s) = loops s" "jobs (close_sock c s) = jobs s"
  "crashed (close_sock c s) = crashed s" "Listener (close_sock c s) = Listener s"
  "PacketConn (close_sock c s) = PacketConn s" "started (goto i p s) = started s" "started (leave i e s) = started s"
  by (simp_all add: close_sock_def goto_def leave_def split: option.split)

lemma work_close [simp]: "work (close_sock c s) = work s"
  by (simp add: work_def)

lemma work_leave: "at_point s i t Head \<Longrightarrow> work (leave i e s) < work s"
  using work_goto [of s i t Head "Returned e"] by (simp add: leave_def)

lemma work_Shutdown:
  assumes "k < length (shutdowns s)"
  shows "shutdowns s ! k = Closing \<Longrightarrow> work (Shutdown_close k s) < work s"
    "shutdowns s ! k = Closing_listener \<Longrightarrow> work (Shutdown_listener k s) < work s"
    "shutdowns s ! k = Selecting \<Longrightarrow> work (Shutdown_return k fin s) < work s"
proof -
  note sd = sum_update [OF assms, of shutdown_work] and fw = sum_update_le [of fin_work "waits s" k]
  show "shutdowns s ! k = Closing \<Longrightarrow> work (Shutdown_close k s) < work s"
    using sd [of Closing_listener] by (simp add: work_def Shutdown_close_def)
  show "shutdowns s ! k = Closing_listener \<Longrightarrow> work (Shutdown_listener k s) < work s"
    using sd [of Selecting] fw [of In_wait] by (simp add: work_def Shutdown_listener_def)
  show "shutdowns s ! k = Selecting \<Longrightarrow> work (Shutdown_return k fin s) < work s"
    using sd [of "Finished None"] sd [of "Finished (Some (Error ''server shutdown is pending''))"] fw [of Sent]
    by (auto simp: work_def Shutdown_return_def)
qed

lemma work_wait:
  assumes "k < length (waits s)" "waits s ! k = In_wait"
  shows "work (Shutdown_wait k s) < work s"
  using sum_update [OF assms(1), of fin_work Sending] assms(2) by (simp add: work_def Shutdown_wait_def)

fun fault :: "action \<Rightarrow> bool" where
  "fault (Fault i) = True"
| "fault _ = False"

lemma stopped_step:
  "step H a s s' \<Longrightarrow> \<not> started s \<Longrightarrow> a \<noteq> Start \<Longrightarrow> \<not> started s' \<and> work s' + (if fault a then 0 else 1) \<le> work s"
proof (induction rule: step.induct)
  case (close s k)
  then show ?case using work_Shutdown [of k s] by (simp add: Shutdown_close_def)
next
  case (close_listener s k)
  then show ?case using work_Shutdown [of k s] by (simp add: Shutdown_listener_def)
next
  case (wait s k)
  then show ?case using work_wait [of k s] by (simp add: Shutdown_wait_def)
next
  case (fin s k)
  then show ?case using work_Shutdown(3) [of k s True] by (simp add: Shutdown_return_def)
next
  case (pending s k)
  then show ?case using work_Shutdown(3) [of k s False] by (simp add: Shutdown_return_def)
next
  case (test s i t j)
  then show ?case using work_goto [of s i t "Testing j" "Returned None"] by (simp add: test_started_def)
next
  case (spawn s i t j)
  then show ?case using work_goto [of s i t "Spawning j" Head]
    by (simp add: spawn_def) (simp add: work_def goto_def)
next
  case (finish s k h out)
  then show ?case by (simp add: job_done_def work_def)
next
  case (crash s k h p)
  then show ?case by (simp add: work_def)
next
  case (receive s i a x)
  then show ?case using work_goto [of s i UDP Head "Testing (udp_result (UDPSize s) a x)"] by simp
next
  case (no_datagram s i)
  then show ?case using work_goto [of s i UDP Head "Testing None"] by simp
next
  case (accept s i a c)
  then show ?case using work_goto [of s i TCP Head "Reading a c"] by simp
next
  case (accept_closed s i e)
  then show ?case using work_leave [of s i TCP "Some e"] by simp
next
  case (accept_error s i e)
  then show ?case using work_leave [of s i TCP "Some e"] by simp
next
  case (first_message s i t a c)
  then show ?case using work_goto [of s i t "Reading a c" "Testing (tcp_result a c)"] by simp
qed (simp_all add: Shutdown_def)

lemma stopped_run:
  "run H as s s' \<Longrightarrow> \<not> started s \<Longrightarrow> Start \<notin> set as \<Longrightarrow>
   length (filter (\<lambda>a. \<not> fault a) as) + work s' \<le> work s \<and> \<not> started s'"
proof (induction rule: run.induct)
  case (run_Cons a s s' as s'')
  then show ?case using stopped_step [OF run_Cons.hyps(1)] by (auto split: if_splits)
qed simp

text \<open>The program rests: what may still happen is a new start, or an action of the network.\<close>

fun outside :: "action \<Rightarrow> bool" where
  "outside Start = True"
| "outside (Arrive i) = True"
| "outside (Fault i) = True"
| "outside _ = False"

definition quiet :: "('a \<Rightarrow> nat \<Rightarrow> Msg \<Rightarrow> Msg outcome) set \<Rightarrow> 'a Server \<Rightarrow> bool" where
  "quiet H s \<longleftrightarrow> (\<forall>a s'. step H a s s' \<longrightarrow> outside a)"

lemma loop_can_step:
  assumes "\<not> crashed s" "i < length (loops s)" "\<And>r. loop_point (loops s ! i) \<noteq> Returned r"
    and "loop_net (loops s ! i) = TCP \<Longrightarrow> \<not> sock_open s i"
  shows "\<exists>s'. step H (Loop i) s s'"
proof -
  have at: "at_point s i (loop_net (loops s ! i)) (loop_point (loops s ! i))"
    using assms(2) by (simp add: at_point_def)
  show ?thesis
  proof (cases "loop_point (loops s ! i)")
    case Head
    then show ?thesis
      using at assms(4) step.no_datagram [OF assms(1), of i H] step.accept_closed [OF assms(1), of i]
      by (cases "loop_net (loops s ! i)") auto
  qed (use at assms(1,3) step.first_message [OF assms(1)] step.test [OF assms(1)] step.spawn [OF assms(1)] in fastforce)+
qed

lemma quiet_ended:
  assumes "quiet H s" "\<not> crashed s"
  shows "p \<in> set (shutdowns s) \<Longrightarrow> \<exists>r. p = Finished r"
    and "j \<in> set (jobs s) \<Longrightarrow> h \<in> H \<Longrightarrow> serve_job (Unsafe s) h j = Loops \<or> (\<exists>e. serve_job (Unsafe s) h j = Err e)"
proof -
  show "\<exists>r. p = Finished r" if p: "p \<in> set (shutdowns s)"
  proof -
    obtain k where k: "k < length (shutdowns s)" "shutdowns s ! k = p" using p by (auto simp: in_set_conv_nth)
    show ?thesis
      using step.close [OF assms(2) k(1), of H] step.close_listener [OF assms(2) k(1), of H]
        step.pending [OF assms(2) k(1), of H] assms(1) k(2)
      unfolding quiet_def by (cases p) fastforce+
  qed
  show "serve_job (Unsafe s) h j = Loops \<or> (\<exists>e. serve_job (Unsafe s) h j = Err e)"
    if j: "j \<in> set (jobs s)" "h \<in> H"
  proof -
    obtain k where k: "k < length (jobs s)" "jobs s ! k = j" using j by (auto simp: in_set_conv_nth)
    show ?thesis
      using step.finish [OF assms(2) k(1) j(2)] step.crash [OF assms(2) k(1) j(2)] assms(1) k(2)
      unfolding quiet_def by (cases "serve_job (Unsafe s) h j") fastforce+
  qed
qed

section \<open>Who closes the listeners\<close>

text \<open>
  A call of \<open>Shutdown\<close> that has not closed the sockets yet.  It closes what the fields of the server
  name when it comes to it: in an orderly run nobody starts the server in between.
\<close>

definition closing :: "'a Server \<Rightarrow> bool" where
  "closing s \<longleftrightarrow> Closing \<in> set (shutdowns s) \<or> Closing_listener \<in> set (shutdowns s)"

inductive orderly ::
    "('a \<Rightarrow> nat \<Rightarrow> Msg \<Rightarrow> Msg outcome) set \<Rightarrow> action list \<Rightarrow> 'a Server \<Rightarrow> 'a Server \<Rightarrow> bool" for H where
  orderly_Nil: "orderly H [] s s"
| orderly_Cons: "step H a s s' \<Longrightarrow> a \<noteq> Start \<or> \<not> closing s \<Longrightarrow> orderly H as s' s'' \<Longrightarrow> orderly H (a # as) s s''"

lemma orderly_run: "orderly H as s s' \<Longrightarrow> run H as s s'"
  by (induction rule: orderly.induct) (auto intro: run.intros)

lemma run_orderly: "run H as s s' \<Longrightarrow> Start \<notin> set as \<Longrightarrow> orderly H as s s'"
  by (induction rule: run.induct) (auto intro: orderly.intros)

text \<open>The sockets of the fields exist.\<close>

definition numbered :: "'a Server \<Rightarrow> bool" where
  "numbered s \<longleftrightarrow> (\<forall>i \<in> set_option (PacketConn s) \<union> set_option (Listener s). i < length (sockets s))"

text \<open>The invariant: a loop on an open listener has the listener of the server, and the server is
  started or a \<open>Shutdown\<close> is going to close it.\<close>

definition watched :: "'a Server \<Rightarrow> 'a serve_loop \<Rightarrow> bool" where
  "watched s l \<longleftrightarrow> loop_sock l < length (sockets s) \<and>
     (loop_net l = TCP \<and> (\<forall>r. loop_point l \<noteq> Returned r) \<and> sockets s ! loop_sock l \<longrightarrow>
       Listener s = Some (loop_sock l) \<and> (started s \<or> closing s))"

definition attended :: "'a Server \<Rightarrow> bool" where
  "attended s \<longleftrightarrow> numbered s \<and> (\<forall>l \<in> set (loops s). watched s l)"

lemma attended_same:
  assumes "attended s" "loops s' = loops s" "sockets s' = sockets s" "Listener s' = Listener s"
    "PacketConn s' = PacketConn s" "started s \<longrightarrow> started s' \<or> closing s'" "closing s \<longrightarrow> closing s'"
  shows "attended s'"
  using assms by (auto simp: attended_def numbered_def watched_def)

lemma attended_goto:
  assumes "attended s" "at_point s i t q" "\<And>r. q \<noteq> Returned r"
  shows "attended (goto i p s)"
proof -
  have "watched s (loops s ! i)" "i < length (loops s)" using assms(1,2) by (auto simp: attended_def at_point_def)
  then have "watched s ((loops s ! i)\<lparr>loop_point := p\<rparr>)"
    using assms(2,3) by (auto simp: watched_def at_point_def)
  then have "\<forall>l \<in> set ((loops s)[i := (loops s ! i)\<lparr>loop_point := p\<rparr>]). watched s l"
    using assms(1) set_update_subset_insert [of "loops s" i] by (auto simp: attended_def)
  moreover have "watched (goto i p s) l = watched s l" for l by (simp add: watched_def goto_def closing_def)
  ultimately show ?thesis using assms(1) by (simp add: attended_def numbered_def goto_def)
qed

lemma sockets_close:
  "length (sockets (close_sock c s)) = length (sockets s)"
  "i < length (sockets s) \<Longrightarrow> sockets (close_sock c s) ! i \<longleftrightarrow> sockets s ! i \<and> c \<noteq> Some i"
  by (cases c; cases "c = Some i"; auto simp: close_sock_def nth_list_update)+

lemma attended_close: "attended s \<Longrightarrow> attended (close_sock c s)"
  by (auto simp: attended_def numbered_def watched_def sockets_close closing_def)

lemma attended_leave:
  "attended s \<Longrightarrow> at_point s i t q \<Longrightarrow> (\<And>r. q \<noteq> Returned r) \<Longrightarrow> attended (leave i e s)"
  unfolding leave_def by (blast intro: attended_close attended_goto)

lemma closing_update:
  "closing s \<Longrightarrow> k < length (shutdowns s) \<Longrightarrow> shutdowns s ! k \<noteq> Closing \<Longrightarrow> shutdowns s ! k \<noteq> Closing_listener \<Longrightarrow>
   Closing \<in> set ((shutdowns s)[k := p]) \<or> Closing_listener \<in> set ((shutdowns s)[k := p])"
  unfolding closing_def in_set_conv_nth by (metis length_list_update nth_list_update_neq)

text \<open>After a \<open>Shutdown\<close> has closed the listener of the server, no loop has an open one.\<close>

lemma attended_listener:
  assumes "attended s"
  shows "attended (Shutdown_listener k s)"
proof -
  have "\<not> sockets (close_sock (Listener s) s) ! loop_sock l"
    if "l \<in> set (loops s)" "loop_net l = TCP" "\<forall>r. loop_point l \<noteq> Returned r" for l
    using assms that by (auto simp: attended_def watched_def sockets_close)
  then show ?thesis
    using assms by (auto simp: attended_def numbered_def watched_def sockets_close Shutdown_listener_def)
qed

text \<open>A start that is let through finds no loop on an open listener.\<close>

lemma attended_enter:
  assumes s: "\<And>l. l \<in> set (loops s) \<Longrightarrow> loop_sock l < length (sockets s) \<and>
      \<not> (loop_net l = TCP \<and> (\<forall>r. loop_point l \<noteq> Returned r) \<and> sockets s ! loop_sock l)"
    and "numbered s" "i < length (sockets s)" "t = TCP \<Longrightarrow> Listener s = Some i"
  shows "attended (enter_loop t i s)"
  using assms by (auto simp: attended_def numbered_def watched_def enter_loop_def)

lemma attended_idle:
  "attended s \<Longrightarrow> \<not> started s \<Longrightarrow> \<not> closing s \<Longrightarrow> l \<in> set (loops s) \<Longrightarrow> loop_sock l < length (sockets s) \<and>
   \<not> (loop_net l = TCP \<and> (\<forall>r. loop_point l \<noteq> Returned r) \<and> sockets s ! loop_sock l)"
  by (auto simp: attended_def watched_def)

lemma default_kept [simp]:
  "sockets (default_size s) = sockets s" "Listener (default_size s) = Listener s" "Net (default_size s) = Net s"
  "PacketConn (default_size s) = PacketConn s" "loops (default_size s) = loops s" "started (default_size s) = started s"
  by (simp_all add: default_size_def)

lemma ListenAndServe_starts:
  assumes "ListenAndServe e s = (None, s')"
  shows "\<not> started s" "s' = enter_loop TCP (length (sockets s))
      ((default_size s)\<lparr>sockets := sockets s @ [True], Listener := Some (length (sockets s))\<rparr>) \<or>
    s' = enter_loop UDP (length (sockets s))
      ((default_size s)\<lparr>sockets := sockets s @ [True], PacketConn := Some (length (sockets s))\<rparr>)"
  using assms by (auto simp: ListenAndServe_def Let_def split: if_splits option.splits)

lemma ActivateAndServe_starts:
  assumes "ActivateAndServe u e s = (None, s')"
  shows "\<not> started s" "(\<exists>i s1. s1 \<in> {s, default_size s} \<and> PacketConn s = Some i \<and> s' = enter_loop UDP i s1) \<or>
    (\<exists>i s1. s1 \<in> {s, default_size s} \<and> Listener s = Some i \<and> s' = enter_loop TCP i s1)"
proof -
  show "\<not> started s" using assms by (simp add: ActivateAndServe_def split: if_splits)
  then show "(\<exists>i s1. s1 \<in> {s, default_size s} \<and> PacketConn s = Some i \<and> s' = enter_loop UDP i s1) \<or>
    (\<exists>i s1. s1 \<in> {s, default_size s} \<and> Listener s = Some i \<and> s' = enter_loop TCP i s1)"
    using assms unfolding ActivateAndServe_def Let_def
    by (cases "PacketConn s"; cases "Listener s"; cases u; cases e) auto
qed

lemma attended_start:
  assumes "attended s" "\<not> closing s"
  shows "ListenAndServe e s = (None, s') \<Longrightarrow> attended s'" "ActivateAndServe u e s = (None, s') \<Longrightarrow> attended s'"
proof -
  have n: "numbered s" using assms(1) by (simp add: attended_def)
  then have n1: "numbered (default_size s)" by (simp add: numbered_def)
  show "attended s'" if l: "ListenAndServe e s = (None, s')"
  proof -
    note idle = attended_idle [OF assms(1) ListenAndServe_starts(1) [OF l] assms(2)]
    have new: "numbered ((default_size s)\<lparr>sockets := sockets s @ [True], Listener := Some (length (sockets s))\<rparr>)"
      "numbered ((default_size s)\<lparr>sockets := sockets s @ [True], PacketConn := Some (length (sockets s))\<rparr>)"
      using n by (auto simp: numbered_def)
    from ListenAndServe_starts(2) [OF l] show ?thesis
    proof
      assume s': "s' = enter_loop TCP (length (sockets s))
        ((default_size s)\<lparr>sockets := sockets s @ [True], Listener := Some (length (sockets s))\<rparr>)"
      show ?thesis unfolding s'
        by (rule attended_enter [OF _ new(1)]) (use idle in \<open>auto simp: nth_append less_SucI\<close>)
    next
      assume s': "s' = enter_loop UDP (length (sockets s))
        ((default_size s)\<lparr>sockets := sockets s @ [True], PacketConn := Some (length (sockets s))\<rparr>)"
      show ?thesis unfolding s'
        by (rule attended_enter [OF _ new(2)]) (use idle in \<open>auto simp: nth_append less_SucI\<close>)
    qed
  qed
  show "attended s'" if a: "ActivateAndServe u e s = (None, s')"
  proof -
    note idle = attended_idle [OF assms(1) ActivateAndServe_starts(1) [OF a] assms(2)]
    have "attended (enter_loop t i s1)"
      if "s1 \<in> {s, default_size s}" "i < length (sockets s)" "t = TCP \<Longrightarrow> Listener s = Some i" for t i s1
      by (rule attended_enter) (use idle n n1 that in \<open>auto, blast+\<close>)
    with ActivateAndServe_starts(2) [OF a] n show ?thesis by (fastforce simp: numbered_def)
  qed
qed

lemma attended_step: "step H a s s' \<Longrightarrow> attended s \<Longrightarrow> a \<noteq> Start \<or> \<not> closing s \<Longrightarrow> attended s'"
proof (induction rule: step.induct)
  case (listen s err s')
  then show ?case using attended_start(1) by blast
next
  case (activate s u err s')
  then show ?case using attended_start(2) by blast
next
  case (shutdown s s')
  then show ?case by (auto simp: Shutdown_def closing_def split: if_splits intro: attended_same [of s])
next
  case (close s k)
  then have "Closing_listener \<in> set ((shutdowns s)[k := Closing_listener])" by (simp add: set_update_memI)
  then show ?case using attended_close [OF close.prems(1)] attended_same [of "close_sock (PacketConn s) s"]
    by (simp add: Shutdown_close_def closing_def)
next
  case (wait s k)
  then show ?case by (auto simp: Shutdown_wait_def closing_def intro: attended_same [of s])
next
  case (fin s k)
  then show ?case using closing_update [of s k] attended_same [of s] by (simp add: Shutdown_return_def closing_def)
next
  case (pending s k)
  then show ?case using closing_update [of s k] attended_same [of s] by (simp add: Shutdown_return_def closing_def)
next
  case (test s i t j)
  then have "attended (leave i None s)" "attended (goto i p s)" for p
    by (blast intro: attended_leave attended_goto)+
  then show ?case by (simp add: test_started_def leave_def split: option.split)
next
  case (spawn s i t j)
  then have "attended (goto i Head s)" by (blast intro: attended_goto)
  then show ?case by (auto simp: spawn_def closing_def intro: attended_same [of "goto i Head s"])
next
  case (finish s k h out)
  then show ?case by (auto simp: job_done_def closing_def intro: attended_same [of s])
next
  case (crash s k h p)
  then show ?case by (auto simp: closing_def intro: attended_same [of s])
qed (blast intro: attended_goto attended_leave attended_listener)+

lemma orderly_attended: "orderly H as s s' \<Longrightarrow> attended s \<Longrightarrow> attended s'"
  by (induction rule: orderly.induct) (auto dest: attended_step)

lemma quiet_loops:
  assumes "attended s" "\<not> started s" "quiet H s" "\<not> crashed s" "l \<in> set (loops s)"
  shows "\<exists>r. loop_point l = Returned r"
proof (rule ccontr)
  assume n: "\<not> (\<exists>r. loop_point l = Returned r)"
  obtain i where i: "i < length (loops s)" "loops s ! i = l" using assms(5) by (auto simp: in_set_conv_nth)
  have "\<not> closing s" using quiet_ended(1) [OF assms(3,4)] by (auto simp: closing_def)
  then have "\<not> sock_open s i" if "loop_net l = TCP"
    using attended_idle [OF assms(1,2) _ assms(5)] n that i(2) by (auto simp: sock_open_def)
  then have "\<exists>s'. step H (Loop i) s s'" using loop_can_step [OF assms(4) i(1), of H] n i(2) by auto
  then show False using assms(3) by (auto simp: quiet_def)
qed

section \<open>What a Shutdown has waited for\<close>

lemma step_books:
  "step H a s s' \<Longrightarrow> books s' = books s \<or> (\<exists>i j. s' = spawn i j s) \<or> (\<exists>k out. s' = job_done k out s)"
  by (induction rule: step.induct) (auto simp: books_calls)

lemma step_grows:
  assumes "step H a s s'"
  shows "\<exists>xs ys. accepted s' = accepted s @ xs \<and> answered s' = answered s @ ys"
  using step_books [OF assms] by (auto simp: books_def spawn_def job_done_def goto_def)

text \<open>A goroutine whose wait is not over belongs to a call that has not returned without error.\<close>

definition paired :: "'a Server \<Rightarrow> bool" where
  "paired s \<longleftrightarrow> length (waits s) = length (shutdowns s) \<and>
     (\<forall>k < length (shutdowns s). waits s ! k \<in> {Absent, In_wait} \<longrightarrow> shutdowns s ! k \<noteq> Finished None)"

definition calls :: "'a Server \<Rightarrow> shutdown_point list \<times> fin_point list" where
  "calls s = (shutdowns s, waits s)"

lemma calls_kept [simp]:
  "calls (goto i p s) = calls s" "calls (leave i e s) = calls s" "calls (test_started i r s) = calls s"
  "calls (spawn i j s) = calls s" "calls (job_done k out s) = calls s" "calls (s\<lparr>crashed := b\<rparr>) = calls s"
  by (simp_all add: calls_def goto_def leave_def test_started_def spawn_def job_done_def split: option.split)

lemma calls_start:
  "ListenAndServe e s = (None, s') \<Longrightarrow> calls s' = calls s" "ActivateAndServe u e s = (None, s') \<Longrightarrow> calls s' = calls s"
  by (drule ListenAndServe_starts(2) ActivateAndServe_starts(2),
      auto simp: calls_def enter_loop_def default_size_def split: if_splits)+

text \<open>The steps of the calls of \<open>Shutdown\<close>, one by one.\<close>

lemma step_calls:
  "step H a s s' \<Longrightarrow> calls s' = calls s \<or> calls s' = (shutdowns s @ [Closing], waits s @ [Absent]) \<or>
     (\<exists>k. calls s' = ((shutdowns s)[k := Closing_listener], waits s)) \<or>
     (\<exists>k. calls s' = ((shutdowns s)[k := Selecting], (waits s)[k := In_wait])) \<or>
     (\<exists>k. calls s' = (shutdowns s, (waits s)[k := Sending]) \<and> inFlight s = 0) \<or>
     (\<exists>k. calls s' = ((shutdowns s)[k := Finished None], (waits s)[k := Sent]) \<and> waits s ! k = Sending) \<or>
     (\<exists>k e. calls s' = ((shutdowns s)[k := Finished (Some e)], waits s))"
proof (induction rule: step.induct)
  case (listen s e s')
  then show ?case by (simp add: calls_start(1))
next
  case (activate s u e s')
  then show ?case by (simp add: calls_start(2))
next
  case (shutdown s s')
  then show ?case by (auto simp: Shutdown_def calls_def split: if_splits)
next
  case (close s k)
  have "calls (Shutdown_close k s) = ((shutdowns s)[k := Closing_listener], waits s)"
    by (simp add: calls_def Shutdown_close_def)
  then show ?case by blast
next
  case (close_listener s k)
  have "calls (Shutdown_listener k s) = ((shutdowns s)[k := Selecting], (waits s)[k := In_wait])"
    by (simp add: calls_def Shutdown_listener_def)
  then show ?case by blast
next
  case (wait s k)
  then have "calls (Shutdown_wait k s) = (shutdowns s, (waits s)[k := Sending]) \<and> inFlight s = 0"
    by (simp add: calls_def Shutdown_wait_def)
  then show ?case by blast
next
  case (fin s k)
  then have "calls (Shutdown_return k True s) = ((shutdowns s)[k := Finished None], (waits s)[k := Sent]) \<and>
      waits s ! k = Sending"
    by (simp add: calls_def Shutdown_return_def)
  then show ?case by blast
next
  case (pending s k)
  have "calls (Shutdown_return k False s) =
      ((shutdowns s)[k := Finished (Some (Error ''server shutdown is pending''))], waits s)"
    by (simp add: calls_def Shutdown_return_def)
  then show ?case by blast
qed simp_all

lemma nth_update: "j < length xs \<Longrightarrow> xs[i := x] ! j = (if i = j then x else xs ! j)"
  by (cases "i = j") simp_all

lemma step_paired: "step H a s s' \<Longrightarrow> paired s \<Longrightarrow> paired s'"
  by (drule step_calls) (auto simp: calls_def paired_def nth_append nth_update less_Suc_eq split: if_splits)

lemma run_paired: "run H as s s' \<Longrightarrow> paired s \<Longrightarrow> paired s'"
  by (induction rule: run.induct) (auto dest: step_paired)

text \<open>The messages \<open>acc\<close> were accepted, and call \<open>k\<close> of \<open>Shutdown\<close> still waits or they have been served.\<close>

definition waited :: "'a job multiset \<Rightarrow> nat \<Rightarrow> 'a Server \<Rightarrow> bool" where
  "waited acc k s \<longleftrightarrow> paired s \<and> k < length (shutdowns s) \<and> acc \<subseteq># mset (accepted s) \<and>
     (waits s ! k \<in> {Absent, In_wait} \<or> acc \<subseteq># mset (map fst (answered s)))"

lemma step_waited:
  assumes "step H a s s'" "tally H s" "waited acc k s"
  shows "waited acc k s'"
proof -
  obtain xs ys where g: "accepted s' = accepted s @ xs" "answered s' = answered s @ ys"
    using step_grows [OF assms(1)] by blast
  have p: "paired s" "paired s'" using assms(1,3) step_paired by (auto simp: waited_def)
  have l: "length (waits s) = length (shutdowns s)" "k < length (shutdowns s)"
    using p(1) assms(3) by (simp_all add: paired_def waited_def)
  have acc: "acc \<subseteq># mset (accepted s')" using assms(3) by (simp add: waited_def g subset_mset.add_increasing2)
  have len: "k < length (shutdowns s')"
    using step_calls [OF assms(1)] l(2) by (auto simp: calls_def)
  show ?thesis
  proof (cases "acc \<subseteq># mset (map fst (answered s))")
    case True
    then have "acc \<subseteq># mset (map fst (answered s'))" by (simp add: g subset_mset.add_increasing2)
    then show ?thesis using acc len p(2) by (simp add: waited_def)
  next
    case False
    then have w: "waits s ! k \<in> {Absent, In_wait}" using assms(3) by (simp add: waited_def)
    have "inFlight s \<noteq> 0" using False assms(2,3) by (auto simp: tally_iff waited_def)
    then have "waits s' ! k \<in> {Absent, In_wait}"
      using step_calls [OF assms(1)] w l by (auto simp: calls_def nth_append nth_update split: if_splits)
    then show ?thesis using acc len p(2) by (simp add: waited_def)
  qed
qed

lemma run_waited: "run H as s s' \<Longrightarrow> tally H s \<Longrightarrow> waited acc k s \<Longrightarrow> waited acc k s'"
  by (induction rule: run.induct) (auto dest: step_waited step_tally)

text \<open>The goroutine of a call that ran out of time never gets rid of its message: nobody receives from
  \<open>fin\<close> any more.\<close>

lemma step_fin_stays:
  assumes "step H a s s'" "paired s" "k < length (shutdowns s)" "shutdowns s ! k = Finished (Some e)" "waits s ! k = Sending"
  shows "k < length (shutdowns s') \<and> shutdowns s' ! k = Finished (Some e) \<and> waits s' ! k = Sending"
  using assms
proof (induction rule: step.induct)
  case (listen s err s')
  then show ?case using calls_start(1) by (force simp: calls_def)
next
  case (activate s u err s')
  then show ?case using calls_start(2) by (force simp: calls_def)
next
  case (test s i t j)
  then show ?case using calls_kept(3) [of i j s] by (simp add: calls_def)
qed (auto simp: Shutdown_def Shutdown_close_def Shutdown_listener_def Shutdown_wait_def Shutdown_return_def leave_def
    goto_def spawn_def job_done_def paired_def nth_append nth_update split: if_splits)

lemma fin_stays:
  "run H as s s' \<Longrightarrow> paired s \<Longrightarrow> k < length (shutdowns s) \<Longrightarrow> shutdowns s ! k = Finished (Some e) \<Longrightarrow>
   waits s ! k = Sending \<Longrightarrow> waits s' ! k = Sending"
  by (induction rule: run.induct) (auto dest: step_fin_stays step_paired)

lemma fresh_paired: "fresh_server s \<Longrightarrow> paired s"
  by (simp add: fresh_server_def paired_def)

section \<open>Restarts\<close>

text \<open>Loop 0 is in \<open>serveUDP\<close> of a started server.\<close>

definition looping :: "'a Server \<Rightarrow> bool" where
  "looping s \<longleftrightarrow>
     started s \<and> loops s \<noteq> [] \<and> loop_net (loops s ! 0) = UDP \<and> (\<forall>r. loop_point (loops s ! 0) \<noteq> Returned r)"

lemma loops_default [simp]: "loops (default_size s) = loops s" "started (default_size s) = started s"
  by (simp_all add: default_size_def)

lemma looping_goto: "looping s \<Longrightarrow> (\<And>r. p \<noteq> Returned r) \<Longrightarrow> looping (goto i p s)"
  by (cases "loops s"; cases i) (auto simp: looping_def goto_def)

lemma looping_other: "looping s \<Longrightarrow> i \<noteq> 0 \<Longrightarrow> looping (goto i p s)"
  by (cases "loops s"; cases i) (auto simp: looping_def goto_def)

lemma looping_same: "loops s' = loops s \<Longrightarrow> started s' = started s \<Longrightarrow> looping s' = looping s"
  by (simp add: looping_def)

lemma looping_leave: "looping s \<Longrightarrow> at_point s i TCP p \<Longrightarrow> looping (leave i e s)"
proof -
  assume l: "looping s" and "at_point s i TCP p"
  then have "i \<noteq> 0" by (cases "i = 0") (auto simp: looping_def at_point_def)
  then show ?thesis using looping_other [OF l, of i "Returned e"] by (simp add: looping_def leave_def)
qed

lemma looping_step: "step H a s s' \<Longrightarrow> looping s \<Longrightarrow> a \<noteq> Stop \<Longrightarrow> looping s'"
proof (induction rule: step.induct)
  case (close s k)
  then show ?case by (simp add: looping_def Shutdown_close_def)
next
  case (close_listener s k)
  then show ?case by (simp add: looping_def Shutdown_listener_def)
next
  case (accept_closed s i e)
  then show ?case by (simp add: looping_leave)
next
  case (accept_error s i e)
  then show ?case by (simp add: looping_leave)
next
  case (test s i t j)
  then have "started s" by (simp add: looping_def)
  then show ?case using test by (cases j) (simp_all add: test_started_def looping_goto)
next
  case (spawn s i t j)
  then show ?case using looping_goto [of s Head i] by (simp add: spawn_def looping_def)
next
  case (listen s err s')
  then show ?case by (simp add: looping_def ListenAndServe_def)
next
  case (activate s u err s')
  then show ?case by (simp add: looping_def ActivateAndServe_def)
qed (simp_all add: looping_goto Shutdown_return_def Shutdown_wait_def job_done_def, simp_all add: looping_def)

lemma looping_run: "run H as s s' \<Longrightarrow> looping s \<Longrightarrow> Stop \<notin> set as \<Longrightarrow> looping s'"
  by (induction rule: run.induct) (auto dest: looping_step)

text \<open>A run in which a message slips through a \<open>Shutdown\<close>.\<close>

definition raced_server :: "nat Server" where
  "raced_server =
     (let j = Datagram 7 [1];
          s = goto 0 (Testing (Some j)) (snd (ListenAndServe None (new_Server ''udp'')));
          s = snd (Shutdown (test_started 0 (Some j) s))
      in spawn 0 j (Shutdown_return 0 True (Shutdown_wait 0 (Shutdown_listener 0 (Shutdown_close 0 s)))))"

text \<open>The steps of a \<open>Shutdown\<close> that finds nothing to wait for.\<close>

lemma shutdown_steps:
  assumes "\<not> crashed s" "started s" "inFlight s = 0" "length (waits s) = length (shutdowns s)"
  defines "k \<equiv> length (shutdowns s)"
  shows "run H [Stop, Close k, Close k, Wait k, Return k] s
    (Shutdown_return k True (Shutdown_wait k (Shutdown_listener k (Shutdown_close k (snd (Shutdown s))))))"
proof -
  let ?s1 = "snd (Shutdown s)"
  let ?s2 = "Shutdown_close k ?s1"
  let ?s3 = "Shutdown_listener k ?s2"
  let ?s4 = "Shutdown_wait k ?s3"
  have i: "inFlight (close_sock c x) = inFlight x" for c and x :: "'a Server"
    by (simp add: close_sock_def split: option.split)
  note d = Shutdown_def Shutdown_close_def Shutdown_listener_def Shutdown_wait_def assms i nth_append
  have "step H Stop s ?s1" by (rule step.shutdown) (simp_all add: d)
  moreover have "step H (Close k) ?s1 ?s2" by (rule step.close) (simp_all add: d)
  moreover have "step H (Close k) ?s2 ?s3" by (rule step.close_listener) (simp_all add: d)
  moreover have "step H (Wait k) ?s3 ?s4" by (rule step.wait) (simp_all add: d)
  moreover have "step H (Return k) ?s4 (Shutdown_return k True ?s4)" by (rule step.fin) (simp_all add: d)
  ultimately show ?thesis by (blast intro: run.intros)
qed

lemma run_append: "run H as s s' \<Longrightarrow> run H bs s' s'' \<Longrightarrow> run H (as @ bs) s s''"
  by (induction rule: run.induct) (auto intro: run.intros)

lemma race_run:
  "run H [Start, Arrive 0, Loop 0, Stop, Close 0, Close 0, Wait 0, Return 0, Loop 0] (new_Server ''udp'') raced_server"
proof -
  let ?j = "Datagram (7 :: nat) [1]" and ?s0 = "new_Server ''udp'' :: nat Server"
  let ?s1 = "snd (ListenAndServe None ?s0)"
  let ?s2 = "goto 0 (Testing (Some ?j)) ?s1"
  let ?s3 = "test_started 0 (Some ?j) ?s2"
  let ?s4 = "Shutdown_return 0 True (Shutdown_wait 0 (Shutdown_listener 0 (Shutdown_close 0 (snd (Shutdown ?s3)))))"
  have "udp_result (UDPSize ?s1) 7 (Chunk [1]) = Some ?j" by code_simp
  moreover have "step H (Arrive 0) ?s1 (goto 0 (Testing (udp_result (UDPSize ?s1) 7 (Chunk [1]))) ?s1)"
    by (rule step.receive) code_simp+
  ultimately have "step H (Arrive 0) ?s1 ?s2" by (simp only:)
  moreover have "step H Start ?s0 ?s1" by (rule step.listen [of _ None]) code_simp+
  moreover have "step H (Loop 0) ?s2 ?s3" by (rule step.test [where t = UDP]) code_simp+
  ultimately have "run H [Start, Arrive 0, Loop 0] ?s0 ?s3" by (blast intro: run.intros)
  moreover have "run H [Stop, Close 0, Close 0, Wait 0, Return 0] ?s3 ?s4"
  proof -
    have "\<not> crashed ?s3" "started ?s3" "inFlight ?s3 = 0" "length (waits ?s3) = length (shutdowns ?s3)"
      "length (shutdowns ?s3) = 0" by code_simp+
    then show ?thesis using shutdown_steps [of ?s3 H] by metis
  qed
  moreover have "step H (Loop 0) ?s4 (spawn 0 ?j ?s4)" by (rule step.spawn [where t = UDP]) code_simp+
  then have "run H [Loop 0] ?s4 raced_server" unfolding raced_server_def Let_def by (blast intro: run.intros)
  ultimately have "run H (([Start, Arrive 0, Loop 0] @ [Stop, Close 0, Close 0, Wait 0, Return 0]) @ [Loop 0]) ?s0 raced_server"
    by (intro run_append)
  then show ?thesis by simp
qed

section \<open>Runs that go wrong\<close>

text \<open>What rests: no goroutine, all calls of \<open>Shutdown\<close> over, and loops that have returned or are in
  \<open>Accept\<close> on an open listener.\<close>

definition at_rest :: "'a Server \<Rightarrow> bool" where
  "at_rest s \<longleftrightarrow> started s = False \<and> jobs s = [] \<and> (\<forall>p \<in> set (shutdowns s). p = Finished None) \<and>
     (\<forall>w \<in> set (waits s). w = Sent) \<and>
     (\<forall>i < length (loops s). case loop_point (loops s ! i) of
        Head \<Rightarrow> loop_net (loops s ! i) = TCP \<and> sock_open s i | Returned r \<Rightarrow> True | _ \<Rightarrow> False)"

lemma at_rest_quiet:
  assumes "at_rest s"
  shows "quiet H s"
  unfolding quiet_def
proof (intro allI impI)
  fix a s' assume "step H a s s'"
  then show "outside a" using assms
    by (cases rule: step.cases) (force simp: at_rest_def at_point_def Shutdown_def in_set_conv_nth)+
qed

text \<open>A start between the two halves of a \<open>Shutdown\<close>: the call closes the new listener, and the loop on the
  old one is left in \<open>Accept\<close>, also after the next \<open>Shutdown\<close>.\<close>

definition leaky_server :: "nat Server" where
  "leaky_server =
     (let s = snd (Shutdown (snd (ListenAndServe None (new_Server ''tcp''))));
          s = snd (ListenAndServe None s);
          s = Shutdown_return 0 True (Shutdown_wait 0 (Shutdown_listener 0 (Shutdown_close 0 s)));
          s = leave 1 (Some (Error ''use of closed network connection'')) s
      in Shutdown_return 1 True (Shutdown_wait 1 (Shutdown_listener 1 (Shutdown_close 1 (snd (Shutdown s))))))"

lemma leaky_run:
  "run H ([Start, Stop, Start, Close 0, Close 0, Wait 0, Return 0, Loop 1] @ [Stop, Close 1, Close 1, Wait 1, Return 1])
     (new_Server ''tcp'') leaky_server"
proof -
  let ?s0 = "new_Server ''tcp'' :: nat Server"
  let ?s1 = "snd (ListenAndServe None ?s0)"
  let ?s2 = "snd (Shutdown ?s1)"
  let ?s3 = "snd (ListenAndServe None ?s2)"
  let ?s4 = "Shutdown_close 0 ?s3"
  let ?s5 = "Shutdown_listener 0 ?s4"
  let ?s6 = "Shutdown_wait 0 ?s5"
  let ?s7 = "Shutdown_return 0 True ?s6"
  let ?s8 = "leave 1 (Some (Error ''use of closed network connection'')) ?s7"
  have "step H Start ?s0 ?s1" by (rule step.listen [of _ None]) code_simp+
  moreover have "step H Stop ?s1 ?s2" by (rule step.shutdown) code_simp+
  moreover have "step H Start ?s2 ?s3" by (rule step.listen [of _ None]) code_simp+
  moreover have "step H (Close 0) ?s3 ?s4" by (rule step.close) code_simp+
  moreover have "step H (Close 0) ?s4 ?s5" by (rule step.close_listener) code_simp+
  moreover have "step H (Wait 0) ?s5 ?s6" by (rule step.wait) code_simp+
  moreover have "step H (Return 0) ?s6 ?s7" by (rule step.fin) code_simp+
  moreover have "step H (Loop 1) ?s7 ?s8" by (rule step.accept_closed) code_simp+
  ultimately have "run H [Start, Stop, Start, Close 0, Close 0, Wait 0, Return 0, Loop 1] ?s0 ?s8"
    by (blast intro: run.intros)
  moreover have "\<not> crashed ?s8" "started ?s8" "inFlight ?s8 = 0" "length (waits ?s8) = length (shutdowns ?s8)"
    "length (shutdowns ?s8) = 1" by code_simp+
  then have "run H [Stop, Close 1, Close 1, Wait 1, Return 1] ?s8 leaky_server"
    using shutdown_steps [of ?s8 H] unfolding leaky_server_def Let_def by metis
  ultimately show ?thesis by (rule run_append)
qed

lemma restart_leaks:
  "\<exists>as s. run H as (new_Server ''tcp'' :: nat Server) s \<and> shutdowns s = [Finished None, Finished None] \<and>
     \<not> started s \<and> quiet H s \<and> at_point s 0 TCP Head"
proof -
  have "at_rest leaky_server"
    unfolding at_rest_def by code_simp
  moreover have "shutdowns leaky_server = [Finished None, Finished None]" "\<not> started leaky_server"
    "at_point leaky_server 0 TCP Head" by code_simp+
  ultimately show ?thesis using leaky_run [of H] at_rest_quiet by blast
qed

text \<open>A \<open>Shutdown\<close> that runs out of time leaves its goroutine on the channel for ever.\<close>

lemma shutdown_leaks:
  "\<exists>as s. run H as (new_Server ''udp'' :: nat Server) s \<and> (\<exists>e. shutdowns s = [Finished (Some e)]) \<and>
     (\<forall>as' s'. run H as' s s' \<longrightarrow> waits s' ! 0 = Sending)"
proof -
  let ?s0 = "new_Server ''udp'' :: nat Server"
  let ?s1 = "snd (ListenAndServe None ?s0)"
  let ?s2 = "snd (Shutdown ?s1)"
  let ?s3 = "Shutdown_close 0 ?s2"
  let ?s4 = "Shutdown_listener 0 ?s3"
  let ?s5 = "Shutdown_return 0 False ?s4"
  let ?s6 = "Shutdown_wait 0 ?s5"
  have "step H Start ?s0 ?s1" by (rule step.listen [of _ None]) code_simp+
  moreover have "step H Stop ?s1 ?s2" by (rule step.shutdown) code_simp+
  moreover have "step H (Close 0) ?s2 ?s3" by (rule step.close) code_simp+
  moreover have "step H (Close 0) ?s3 ?s4" by (rule step.close_listener) code_simp+
  moreover have "step H (Return 0) ?s4 ?s5" by (rule step.pending) code_simp+
  moreover have "step H (Wait 0) ?s5 ?s6" by (rule step.wait) code_simp+
  ultimately have "run H [Start, Stop, Close 0, Close 0, Return 0, Wait 0] ?s0 ?s6" by (blast intro: run.intros)
  moreover have "paired ?s6" "0 < length (shutdowns ?s6)"
    "shutdowns ?s6 = [Finished (Some (Error ''server shutdown is pending''))]"
    "shutdowns ?s6 ! 0 = Finished (Some (Error ''server shutdown is pending''))" "waits ?s6 ! 0 = Sending" by code_simp+
  ultimately show ?thesis using fin_stays by blast
qed

section \<open>Properties\<close>

text \<open>C26: The books of a server balance in every state it can reach: \<open>inFlight\<close> is the number of running
  goroutines, every accepted message is being served or has been, exactly once, and what was sent
  for it is what \<open>serve\<close> computes for its bytes.\<close>

theorem accepted_served_once:
  assumes "fresh_server s0" "run H as s0 s"
  shows "inFlight s = length (jobs s) \<and> mset (accepted s) = mset (jobs s) + mset (map fst (answered s)) \<and>
    (\<forall>(j, out) \<in> set (answered s). \<exists>h \<in> H. serve_job (Unsafe s) h j = Ok out)"
  using run_tally [OF assms(2) fresh_tally [OF assms(1)]] by (simp add: tally_iff)

text \<open>C28: \<open>Shutdown\<close> waits for what is in progress: whatever was accepted before the call, or while it closed
  the sockets and its goroutine was in \<open>inFlight.Wait\<close>, has been served when the call returns
  without an error.  (What is accepted after the end of the wait is another matter, see
  \<open>shutdown_race\<close>.)\<close>

theorem shutdown_waits:
  assumes "fresh_server s0" "run H as s0 s" "k < length (shutdowns s)" "waits s ! k \<in> {Absent, In_wait}"
    and "run H bs s s'" "shutdowns s' ! k = Finished None"
  shows "mset (accepted s) \<subseteq># mset (map fst (answered s'))"
proof -
  have "tally H s" "paired s"
    using run_tally [OF assms(2) fresh_tally [OF assms(1)]] run_paired [OF assms(2) fresh_paired [OF assms(1)]] by simp_all
  then have "waited (mset (accepted s)) k s'"
    using assms(3,4) by (intro run_waited [OF assms(5)]) (simp_all add: waited_def)
  then show ?thesis using assms(6) by (auto simp: waited_def paired_def)
qed

text \<open>C27: A stopped server comes to an end, in runs where nobody starts the server between the two halves
  of a \<open>Shutdown\<close> (clearing \<open>started\<close> and closing the sockets).  After \<open>Shutdown\<close> has cleared
  \<open>started\<close>, and as long as nobody starts the server again, only a bounded number of steps is left,
  the faults of \<open>Accept\<close> not counted.  When the program has no step any more, whatever the network
  may still do, every loop and every call of \<open>Shutdown\<close> has returned, and the only goroutines
  left that serve a message are those whose handler never returns.  A loop of \<open>serveTCP\<close> is in
  \<open>Accept\<close>, which has no deadline: it returns because \<open>Shutdown\<close> closes its listener.\<close>

theorem shutdown_ends:
  assumes "fresh_server s0" "numbered s0" "orderly H as s0 s" "\<not> started s" "run H bs s s'" "Start \<notin> set bs"
  shows "length (filter (\<lambda>a. \<not> fault a) bs) \<le> work s \<and>
    (quiet H s' \<and> \<not> crashed s' \<longrightarrow>
      (\<forall>l \<in> set (loops s'). \<exists>r. loop_point l = Returned r) \<and> (\<forall>p \<in> set (shutdowns s'). \<exists>r. p = Finished r) \<and>
      (\<forall>j \<in> set (jobs s'). \<forall>h \<in> H. serve_job (Unsafe s') h j = Loops \<or> (\<exists>e. serve_job (Unsafe s') h j = Err e)))"
proof -
  have "attended s0" using assms(1,2) by (simp add: fresh_server_def attended_def)
  then have "attended s'"
    using orderly_attended [OF assms(3)] orderly_attended [OF run_orderly [OF assms(5,6)]] by blast
  then show ?thesis
    using stopped_run [OF assms(5,4,6)] quiet_ended [of H s'] quiet_loops [of s' H] by auto
qed

text \<open>C29: A message can slip through: between the test of \<open>started\<close> and the increment of \<open>inFlight\<close>
  a whole \<open>Shutdown\<close> can run and return without an error, and the message is served after it.\<close>

theorem shutdown_race:
  "\<exists>as s. run H as (new_Server ''udp'') s \<and> shutdowns s = [Finished None] \<and> jobs s = [Datagram (7 :: nat) [1]]"
  using race_run [of H] by (intro exI conjI) (assumption | code_simp)+

text \<open>C30: A server that is started again right after \<open>Shutdown\<close> keeps its old loop: the loop finds
  \<open>started\<close> set, takes the error of the closed socket for a passing one and reads it again, in a
  busy circle, and it does not return before the next \<open>Shutdown\<close>.\<close>

theorem restart_spins:
  "\<exists>as s. run H as (new_Server ''udp'' :: nat Server) s \<and> shutdowns s = [Finished None] \<and> \<not> sock_open s 0 \<and>
     run H [Loop 0, Loop 0] s s \<and>
     \<not> (\<exists>as' s' r. run H as' s s' \<and> Stop \<notin> set as' \<and> loop_point (loops s' ! 0) = Returned r)"
proof -
  let ?s0 = "new_Server ''udp'' :: nat Server"
  let ?s1 = "snd (ListenAndServe None ?s0)"
  let ?s4 = "Shutdown_return 0 True (Shutdown_wait 0 (Shutdown_listener 0 (Shutdown_close 0 (snd (Shutdown ?s1)))))"
  let ?s5 = "snd (ListenAndServe None ?s4)"
  let ?s6 = "goto 0 (Testing None) ?s5"
  have "\<not> crashed ?s1" "started ?s1" "inFlight ?s1 = 0" "length (waits ?s1) = length (shutdowns ?s1)"
    "length (shutdowns ?s1) = 0" by code_simp+
  then have "run H [Stop, Close 0, Close 0, Wait 0, Return 0] ?s1 ?s4" using shutdown_steps [of ?s1 H] by metis
  moreover have "step H Start ?s0 ?s1" by (rule step.listen [of _ None]) code_simp+
  moreover have "step H Start ?s4 ?s5" by (rule step.listen [of _ None]) code_simp+
  then have "run H [Start] ?s4 ?s5" by (blast intro: run.intros)
  ultimately have run: "run H (Start # [Stop, Close 0, Close 0, Wait 0, Return 0] @ [Start]) ?s0 ?s5"
    by (blast intro: run_append run.run_Cons)
  have "step H (Loop 0) ?s5 ?s6" by (rule step.no_datagram) code_simp+
  moreover have "step H (Loop 0) ?s6 (test_started 0 None ?s6)" by (rule step.test [where t = UDP]) code_simp+
  ultimately have "run H [Loop 0, Loop 0] ?s5 (test_started 0 None ?s6)" by (blast intro: run.intros)
  moreover have "test_started 0 None ?s6 = ?s5" by code_simp
  ultimately have circle: "run H [Loop 0, Loop 0] ?s5 ?s5" by (simp only:)
  have "looping ?s5"
    unfolding looping_def by (intro conjI allI) code_simp+
  then have never: "\<not> (\<exists>as' s' r. run H as' ?s5 s' \<and> Stop \<notin> set as' \<and> loop_point (loops s' ! 0) = Returned r)"
    by (meson looping_def looping_run)
  have "shutdowns ?s5 = [Finished None]" "\<not> sock_open ?s5 0" by code_simp+
  with run circle never show ?thesis by (intro exI conjI)
qed


theorem accepted_served_once_witness:
  "inFlight raced_server = length (jobs raced_server) \<and> jobs raced_server = [Datagram 7 [1]]"
proof -
  have "fresh_server (new_Server ''udp'' :: nat Server)" "jobs raced_server = [Datagram 7 [1]]" by code_simp+
  with accepted_served_once [OF _ race_run] show ?thesis by blast
qed


text \<open>A listener that was started and stopped, and the run to its end.\<close>

definition stopped_server :: "nat Server" where
  "stopped_server = snd (Shutdown (snd (ListenAndServe None (new_Server ''tcp''))))"

definition ended_server :: "nat Server" where
  "ended_server =
     (let s = Shutdown_listener 0 (Shutdown_close 0 stopped_server)
      in Shutdown_return 0 True (Shutdown_wait 0 (leave 0 (Some (Error ''use of closed network connection'')) s)))"

lemma ended_run: "run H [Close 0, Close 0, Loop 0, Wait 0, Return 0] stopped_server ended_server"
proof -
  let ?s1 = "Shutdown_close 0 stopped_server"
  let ?s2 = "Shutdown_listener 0 ?s1"
  let ?s3 = "leave 0 (Some (Error ''use of closed network connection'')) ?s2"
  let ?s4 = "Shutdown_wait 0 ?s3"
  have "step H (Close 0) stopped_server ?s1" by (rule step.close) code_simp+
  moreover have "step H (Close 0) ?s1 ?s2" by (rule step.close_listener) code_simp+
  moreover have "step H (Loop 0) ?s2 ?s3" by (rule step.accept_closed) code_simp+
  moreover have "step H (Wait 0) ?s3 ?s4" by (rule step.wait) code_simp+
  moreover have "step H (Return 0) ?s4 (Shutdown_return 0 True ?s4)" by (rule step.fin) code_simp+
  ultimately show ?thesis unfolding ended_server_def Let_def by (blast intro: run.intros)
qed

theorem shutdown_ends_witness:
  "5 \<le> work stopped_server \<and> quiet {} ended_server \<and> (\<exists>r. loop_point (hd (loops ended_server)) = Returned r)"
proof -
  let ?s0 = "new_Server ''tcp'' :: nat Server"
  let ?s1 = "snd (ListenAndServe None ?s0)"
  have "step {} Start ?s0 ?s1" "Start \<noteq> Start \<or> \<not> closing ?s0" by (rule step.listen [of _ None]) code_simp+
  moreover have "step {} Stop ?s1 stopped_server" "Stop \<noteq> Start \<or> \<not> closing ?s1"
    by (rule step.shutdown) code_simp+
  ultimately have o: "orderly {} [Start, Stop] ?s0 stopped_server" by (blast intro: orderly.intros)
  have "at_rest ended_server" by code_simp
  then have q: "quiet {} ended_server" by (rule at_rest_quiet)
  have "fresh_server ?s0" "numbered ?s0" "\<not> started stopped_server" "\<not> crashed ended_server" by code_simp+
  moreover have "hd (loops ended_server) \<in> set (loops ended_server)" by (rule hd_in_set) code_simp
  ultimately show ?thesis using shutdown_ends [OF _ _ o _ ended_run] q by auto
qed

text \<open>A datagram that is in progress when the server is stopped.\<close>

definition busy_server :: "nat Server" where
  "busy_server =
     (let j = Datagram 7 [1]; s = goto 0 (Testing (Some j)) (snd (ListenAndServe None (new_Server ''udp'')))
      in snd (Shutdown (spawn 0 j (test_started 0 (Some j) s))))"

lemma busy_run: "run H [Start, Arrive 0, Loop 0, Loop 0, Stop] (new_Server ''udp'') busy_server"
proof -
  let ?j = "Datagram (7 :: nat) [1]" and ?s0 = "new_Server ''udp'' :: nat Server"
  let ?s1 = "snd (ListenAndServe None ?s0)"
  let ?s2 = "goto 0 (Testing (Some ?j)) ?s1"
  let ?s3 = "test_started 0 (Some ?j) ?s2"
  let ?s4 = "spawn 0 ?j ?s3"
  have "udp_result (UDPSize ?s1) 7 (Chunk [1]) = Some ?j" by code_simp
  moreover have "step H (Arrive 0) ?s1 (goto 0 (Testing (udp_result (UDPSize ?s1) 7 (Chunk [1]))) ?s1)"
    by (rule step.receive) code_simp+
  ultimately have "step H (Arrive 0) ?s1 ?s2" by (simp only:)
  moreover have "step H Start ?s0 ?s1" by (rule step.listen [of _ None]) code_simp+
  moreover have "step H (Loop 0) ?s2 ?s3" by (rule step.test [where t = UDP]) code_simp+
  moreover have "step H (Loop 0) ?s3 ?s4" by (rule step.spawn [where t = UDP]) code_simp+
  moreover have "step H Stop ?s4 (snd (Shutdown ?s4))" by (rule step.shutdown) code_simp+
  ultimately show ?thesis unfolding busy_server_def Let_def by (blast intro: run.intros)
qed

theorem shutdown_waits_witness:
  "\<exists>s. run {\<lambda>a n m. Ok m} [Close 0, Close 0, Job 0, Wait 0, Return 0] busy_server s \<and>
     shutdowns s = [Finished None] \<and> {#Datagram 7 [1]#} \<subseteq># mset (map fst (answered s))"
proof -
  let ?H = "{\<lambda>a n m. Ok m} :: (nat \<Rightarrow> nat \<Rightarrow> Msg \<Rightarrow> Msg outcome) set"
  have "(case serve_job False (\<lambda>a n m. Ok m) (Datagram (7 :: nat) [1]) of Ok x \<Rightarrow> True | _ \<Rightarrow> False)" by code_simp
  then obtain out where out: "serve_job False (\<lambda>a n m. Ok m) (Datagram (7 :: nat) [1]) = Ok out"
    by (auto split: outcome.splits)
  let ?s1 = "Shutdown_close 0 busy_server"
  let ?s2 = "Shutdown_listener 0 ?s1"
  let ?s3 = "job_done 0 out ?s2"
  let ?s4 = "Shutdown_wait 0 ?s3"
  let ?s5 = "Shutdown_return 0 True ?s4"
  have "step ?H (Close 0) busy_server ?s1" by (rule step.close) code_simp+
  moreover have "step ?H (Close 0) ?s1 ?s2" by (rule step.close_listener) code_simp+
  moreover have "Unsafe ?s2 = False" "jobs ?s2 ! 0 = Datagram 7 [1]" "\<not> crashed ?s2" "0 < length (jobs ?s2)" by code_simp+
  then have "step ?H (Job 0) ?s2 ?s3" using out by (intro step.finish) simp_all
  moreover have "step ?H (Wait 0) ?s3 ?s4" by (rule step.wait) code_simp+
  moreover have "step ?H (Return 0) ?s4 ?s5" by (rule step.fin) code_simp+
  ultimately have r: "run ?H [Close 0, Close 0, Job 0, Wait 0, Return 0] busy_server ?s5" by (blast intro: run.intros)
  have "fresh_server (new_Server ''udp'' :: nat Server)" "0 < length (shutdowns busy_server)"
    "waits busy_server ! 0 = Absent" "shutdowns ?s5 = [Finished None]" "accepted busy_server = [Datagram 7 [1]]" by code_simp+
  then show ?thesis using shutdown_waits [OF _ busy_run _ _ r, of 0] r by auto
qed

end
