(* ===== verification/Wire_Compress.thy ===== *)
theory Wire_Compress
  imports Wire_Msg
begin

unbundle bit_operations_syntax

text \<open>
  Replies packed with compression, for the flag \<open>-compress\<close>: a message with one question and A and
  AAAA records under the name of the question.  The question is written in full, which records where
  it is, and the name of each record is the pointer to it; \<open>Unpack\<close> follows the pointers back.

  Names here have no byte that is written with a backslash.  (With escapes the packer takes its keys
  from a copy of the name it has already shifted, and two names can share one.)
\<close>

section \<open>Buffers with a known beginning\<close>

text \<open>What is behind the offset may be left over from a label that was given up for a pointer.\<close>

definition holds :: "byte list \<Rightarrow> nat \<Rightarrow> pbuf \<Rightarrow> bool" where
  "holds w n b \<longleftrightarrow> length (pmsg b) = n \<and> poff b = length w \<and> length w \<le> n \<and> take (length w) (pmsg b) = w"

lemma holds_emit: "holds w n b \<Longrightarrow> length w + length v \<le> n \<Longrightarrow> holds (w @ v) n (emit v b)"
  by (simp add: holds_def emit_def put_def)

lemma pcomp_emit [simp]: "pcomp (emit v b) = pcomp b"
  by (simp add: emit_def)

section \<open>Plain names\<close>

definition plain_byte :: "byte \<Rightarrow> bool" where
  "plain_byte b \<longleftrightarrow> fst (escape_byte b) = [char_of_byte b]"

definition plain_labels :: "byte list list \<Rightarrow> bool" where
  "plain_labels ls \<longleftrightarrow> ls \<noteq> [] \<and> labels_ok ls \<and> list_all (list_all plain_byte) ls"

lemma plain_byte_char: "plain_byte b \<Longrightarrow> char_of_byte b \<noteq> CHR ''.'' \<and> char_of_byte b \<noteq> CHR 0x5C"
  using length_ddd [of b] by (cases rule: escape_byte_cases [of b]) (auto simp: plain_byte_def)

lemma plain_present: "list_all plain_byte l \<Longrightarrow> present_label l = string_of l"
  by (induction l) (simp_all add: plain_byte_def string_of_def)

lemma plain_present_labels:
  "list_all (list_all plain_byte) ls \<Longrightarrow> map present_label ls = map string_of ls"
  by (induction ls) (simp_all add: plain_present)

lemma plain_label_loop:
  "ns_bs st = p @ string_of l @ r \<Longrightarrow> ns_ls st = length (ns_bs st) \<Longrightarrow> r \<noteq> [] \<Longrightarrow> list_all plain_byte l \<Longrightarrow>
   pack_name_loop c n (length p) st =
     pack_name_loop c n (length p + length l)
       (st\<lparr>ns_escapedDot := (if l = [] then ns_escapedDot st else False)\<rparr>)"
proof (induction l arbitrary: p st)
  case (Cons b l)
  let ?st = "st\<lparr>ns_escapedDot := False\<rparr>" and ?p = "p @ [char_of_byte b]"
  have at: "length p < ns_ls st" "ns_bs st ! length p = char_of_byte b"
    using Cons.prems(1,2) by (simp_all add: string_of_def nth_append)
  have "pack_name_loop c n (length p) st = pack_name_loop c n (length p + 1) ?st"
    using Cons.prems(4) plain_byte_char [of b] at by (subst pack_name_loop.simps) simp
  also have "pack_name_loop c n (length p + 1) ?st = pack_name_loop c n (length ?p + length l) ?st"
  proof -
    have "ns_bs ?st = ?p @ string_of l @ r" "ns_ls ?st = length (ns_bs ?st)" "list_all plain_byte l"
      using Cons.prems(1,2,4) by (simp_all add: string_of_def)
    from Cons.IH [OF this(1,2) Cons.prems(3) this(3)] show ?thesis by (simp cong: if_cong)
  qed
  finally show ?case by simp
qed simp

text \<open>The state at a label: nothing was escaped, so that the copy is the name itself.\<close>

definition plain_state :: "string \<Rightarrow> string \<Rightarrow> nat \<Rightarrow> byte list \<Rightarrow> (string \<Rightarrow> nat option) \<Rightarrow> name_state \<Rightarrow> bool" where
  "plain_state p r off m cm st \<longleftrightarrow>
     ns_bs st = p @ r \<and> ns_roBs st = p @ r \<and> ns_ls st = length (p @ r) \<and> ns_begin st = length p \<and>
     ns_off st = off \<and> ns_bsFresh st \<and> ns_msg st = Some m \<and> ns_comp st = Some cm"

lemma plain_dot:
  assumes st: "plain_state p (string_of l @ CHR ''.'' # r) off m cm st"
    and l: "l \<noteq> []" "length l < 64" "list_all plain_byte l" and room: "off + 1 + length l \<le> length m"
  defines "key \<equiv> string_of l @ CHR ''.'' # r"
    and "m' \<equiv> put (of_nat (length l) # l) off m"
  shows "pack_dot True (length m) (length p + length l) (st\<lparr>ns_escapedDot := False\<rparr>) =
    (case cm key of
       Some q \<Rightarrow> Ok (st\<lparr>ns_escapedDot := False, ns_off := off + 1 + length l, ns_msg := Some m'\<rparr>, Some (q, off))
     | None \<Rightarrow> Ok (st\<lparr>ns_escapedDot := False, ns_off := off + 1 + length l, ns_msg := Some m',
           ns_comp := Some (if off < maxCompressionOffset then cm(key \<mapsto> off) else cm),
           ns_labels := ns_labels st + 1, ns_begin := length p + length l + 1\<rparr>, None))"
proof -
  have last: "(p @ string_of l @ CHR ''.'' # r) ! (length p + length l - 1) \<noteq> CHR ''.''"
  proof -
    have "(p @ string_of l @ CHR ''.'' # r) ! (length p + (length l - 1)) = char_of_byte (l ! (length l - 1))"
      using l(1) by (simp add: nth_append string_of_def)
    moreover have "plain_byte (l ! (length l - 1))" using l(1,3) by (simp add: list_all_length)
    moreover have "length p + length l - 1 = length p + (length l - 1)" using l(1) by (simp add: Suc_leI)
    ultimately show ?thesis using plain_byte_char by simp
  qed
  have "put l (off + 1) (m[off := of_nat (length l)]) = m'"
    using room put_put [of off "[of_nat (length l)]" l m]
    by (simp add: m'_def put_def [of "[of_nat (length l)]"] upd_conv_take_nth_drop)
  then have e: "emit_label (length m) (string_of l) (off + 1) (Some (m[off := of_nat (length l)])) =
      Ok (off + 1 + length l, Some m')"
    using emit_label_put [of "m[off := of_nat (length l)]" "string_of l" "off + 1"] room by simp
  have key: "key \<noteq> ''.''" using l(1) by (cases l) (simp_all add: key_def string_of_def)
  have st': "ns_bs st = p @ key" "ns_roBs st = p @ key" "ns_begin st = length p" "ns_off st = off" "ns_bsFresh st"
    "ns_msg st = Some m" "ns_comp st = Some cm"
    using st by (simp_all add: plain_state_def key_def)
  have tk: "take (length l) key = string_of l" by (simp add: key_def)
  have "emit_label (length m) (take (length l) key) (off + 1) (Some (m[off := of_nat (length l)])) =
      Ok (off + 1 + length l, Some m')"
    using e by (simp add: tk)
  moreover have "(p @ key) ! (length p + length l - 1) \<noteq> CHR ''.''" using last by (simp add: key_def)
  ultimately show ?thesis
    using st' room l(2) key
    by (cases st) (simp add: pack_dot_def Let_def compress_name_def split: option.split)
qed

abbreviation key_of :: "byte list list \<Rightarrow> string" where
  "key_of ls \<equiv> wire_labels (map string_of ls)"

lemma plain_step:
  assumes st: "plain_state p (key_of (l # ls)) off m cm st"
    and l: "l \<noteq> []" "length l < 64" "list_all plain_byte l" and room: "off + 1 + length l \<le> length m"
  defines "m' \<equiv> put (of_nat (length l) # l) off m"
  shows "cm (key_of (l # ls)) = Some q \<Longrightarrow>
      \<exists>st'. pack_name_loop True (length m) (length p) st = Ok (st', Some (q, off)) \<and>
        ns_bs st' = ns_bs st \<and> ns_msg st' = Some m' \<and> ns_comp st' = Some cm"
    and "cm (key_of (l # ls)) = None \<Longrightarrow>
      \<exists>st'. pack_name_loop True (length m) (length p) st =
          pack_name_loop True (length m) (length (p @ string_of l @ ''.'')) st' \<and>
        plain_state (p @ string_of l @ ''.'') (key_of ls) (off + 1 + length l) m'
          (if off < maxCompressionOffset then cm(key_of (l # ls) \<mapsto> off) else cm) st'"
proof -
  have bs: "ns_bs st = p @ string_of l @ CHR ''.'' # key_of ls" "ns_ls st = length (ns_bs st)"
    using st by (simp_all add: plain_state_def)
  have "pack_name_loop True (length m) (length p) st =
      pack_name_loop True (length m) (length p + length l) (st\<lparr>ns_escapedDot := False\<rparr>)"
    using plain_label_loop [OF bs _ l(3), of True "length m"] l(1) by simp
  also have "\<dots> = obind (pack_dot True (length m) (length p + length l) (st\<lparr>ns_escapedDot := False\<rparr>)) (\<lambda>r.
        if snd r \<noteq> None then Ok r
        else pack_name_loop True (length m) (length p + length l + 1) ((fst r)\<lparr>ns_escapedDot := False\<rparr>))"
    using bs by (subst pack_name_loop.simps) (simp add: nth_append)
  finally have step: "pack_name_loop True (length m) (length p) st = \<dots>" .
  have st2: "plain_state p (string_of l @ CHR ''.'' # key_of ls) off m cm st" using st by simp
  note dot = plain_dot [OF st2 l room, folded m'_def]
  show "\<exists>st'. pack_name_loop True (length m) (length p) st = Ok (st', Some (q, off)) \<and>
        ns_bs st' = ns_bs st \<and> ns_msg st' = Some m' \<and> ns_comp st' = Some cm"
    if "cm (key_of (l # ls)) = Some q"
    using that st by (simp add: step dot plain_state_def)
  show "\<exists>st'. pack_name_loop True (length m) (length p) st =
          pack_name_loop True (length m) (length (p @ string_of l @ ''.'')) st' \<and>
        plain_state (p @ string_of l @ ''.'') (key_of ls) (off + 1 + length l) m'
          (if off < maxCompressionOffset then cm(key_of (l # ls) \<mapsto> off) else cm) st'"
    if "cm (key_of (l # ls)) = None"
    using that st
    by (cases "off < maxCompressionOffset")
      (simp_all add: step dot plain_state_def, (rule exI, rule conjI [OF refl], simp)+)
qed

text \<open>A name whose suffixes are not in the map is written in full; longer names in the map stay.\<close>

lemma plain_loop:
  "plain_state p (key_of ls) off m cm st \<Longrightarrow> list_all (\<lambda>l. l \<noteq> [] \<and> length l < 64) ls \<Longrightarrow>
   list_all (list_all plain_byte) ls \<Longrightarrow> off + name_octets ls \<le> length m \<Longrightarrow>
   (\<And>k. length k \<le> length (key_of ls) \<Longrightarrow> cm k = None) \<Longrightarrow>
   \<exists>st' cm'. pack_name_loop True (length m) (length p) st = Ok (st', None) \<and> ns_bs st' = p @ key_of ls \<and>
     ns_off st' = off + name_octets ls \<and> ns_msg st' = Some (put (wire_of_labels ls) off m) \<and>
     ns_comp st' = Some cm' \<and> (\<forall>k. length (key_of ls) < length k \<longrightarrow> cm' k = cm k)"
proof (induction ls arbitrary: p off m cm st)
  case Nil
  then show ?case by (subst pack_name_loop.simps) (auto simp: plain_state_def name_octets_def put_def)
next
  case (Cons l ls)
  have l: "l \<noteq> []" "length l < 64" "list_all plain_byte l" "off + 1 + length l \<le> length m"
    using Cons.prems(2-4) by (simp_all add: name_octets_def)
  have none: "cm (key_of (l # ls)) = None" using Cons.prems(5) by simp
  define m1 where "m1 = put (of_nat (length l) # l) off m"
  define cm1 where "cm1 = (if off < maxCompressionOffset then cm(key_of (l # ls) \<mapsto> off) else cm)"
  let ?p = "p @ string_of l @ ''.''"
  obtain st1 where 1: "pack_name_loop True (length m) (length p) st = pack_name_loop True (length m) (length ?p) st1"
    "plain_state ?p (key_of ls) (off + 1 + length l) m1 cm1 st1"
    using plain_step(2) [OF Cons.prems(1) l none] unfolding m1_def cm1_def by blast
  have len: "length m1 = length m" using l(4) by (simp add: m1_def)
  have "off + 1 + length l + name_octets ls \<le> length m1" "list_all (\<lambda>l. l \<noteq> [] \<and> length l < 64) ls"
    "list_all (list_all plain_byte) ls"
    using Cons.prems(2-4) by (simp_all add: len name_octets_def)
  moreover have "cm1 k = None" if "length k \<le> length (key_of ls)" for k
    using that Cons.prems(5) [of k] by (auto simp: cm1_def)
  ultimately obtain st2 cm2 where 2: "pack_name_loop True (length m1) (length ?p) st1 = Ok (st2, None)"
    "ns_bs st2 = ?p @ key_of ls" "ns_off st2 = off + 1 + length l + name_octets ls"
    "ns_msg st2 = Some (put (wire_of_labels ls) (off + 1 + length l) m1)" "ns_comp st2 = Some cm2"
    "\<forall>k. length (key_of ls) < length k \<longrightarrow> cm2 k = cm1 k"
    using Cons.IH [OF 1(2)] by blast
  have "put (wire_of_labels ls) (off + 1 + length l) m1 = put (wire_of_labels (l # ls)) off m"
    using put_put [of off "of_nat (length l) # l" "wire_of_labels ls" m] Cons.prems(4)
    by (simp add: m1_def name_octets_def add_ac)
  moreover have "cm2 k = cm k" if "length (key_of (l # ls)) < length k" for k
    using that 2(6) by (auto simp: cm1_def)
  ultimately show ?case using 1(1) 2 len by (simp add: name_octets_def add_ac)
qed


lemma plain_key: "plain_labels ls \<Longrightarrow> present ls = key_of ls \<and> 1 < length (key_of ls) \<and> last (key_of ls) = CHR ''.''"
proof -
  assume p: "plain_labels ls"
  then obtain b l ls' where ls: "ls = (b # l) # ls'" by (cases ls; cases "hd ls") (auto simp: plain_labels_def labels_ok_def)
  have "present ls = key_of ls"
    using p plain_present_labels [of ls] by (simp only: plain_labels_def present_def fqdn_def) simp
  moreover have "1 < length (key_of ls)" by (simp add: ls string_of_def)
  moreover have "last (key_of ls) = CHR ''.''"
    using last_wire_labels [of "map string_of ls"] ls by (simp add: last_conv_nth)
  ultimately show ?thesis by simp
qed

text \<open>The pass over a name on a buffer with a compression map.\<close>

definition name_run :: "byte list list \<Rightarrow> pbuf \<Rightarrow> (string \<Rightarrow> nat option) \<Rightarrow> name_state" where
  "name_run ls b cm =
     \<lparr>ns_bs = key_of ls, ns_ls = length (key_of ls), ns_begin = 0, ns_off = poff b, ns_labels = 0,
      ns_roBs = key_of ls, ns_bsFresh = True, ns_escapedDot = False, ns_msg = Some (pmsg b), ns_comp = Some cm\<rparr>"

lemma name_run_plain: "plain_state [] (key_of ls) (poff b) (pmsg b) cm (name_run ls b cm)"
  by (simp add: plain_state_def name_run_def)

lemma PackDomainName_run:
  assumes "plain_labels ls" "pcomp b = Some cm"
    and "pack_name_loop True (length (pmsg b)) 0 (name_run ls b cm) = Ok (st, hit)" "ns_bs st = key_of ls"
    and "ns_msg st = Some m" "ns_comp st = Some cm'" "length m = length (pmsg b)"
  shows "hit = Some (q, off) \<Longrightarrow> off + 2 \<le> length m \<Longrightarrow> PackDomainName (present ls) True b =
      Ok (b\<lparr>pmsg := put (be_bytes 2 ((of_nat q :: uint16) XOR 0xC000)) off m, poff := off + 2, pcomp := Some cm'\<rparr>)"
    and "hit = None \<Longrightarrow> ns_off st < length m \<Longrightarrow> PackDomainName (present ls) True b =
      Ok (b\<lparr>pmsg := m[ns_off st := 0], poff := ns_off st + 1, pcomp := Some cm'\<rparr>)"
proof -
  have k: "present ls = key_of ls" "1 < length (key_of ls)" "last (key_of ls) = CHR ''.''"
    using plain_key [OF assms(1)] by simp_all
  then have ne: "key_of ls \<noteq> []" by (simp only: length_greater_0_conv [symmetric])
  then have last: "key_of ls ! (length (key_of ls) - 1) = CHR ''.''" "key_of ls \<noteq> []"
    using k(3) ne by (simp_all only: last_conv_nth [OF ne] not_False_eq_True)
  have "packDomainName (key_of ls) (Some (pmsg b)) (poff b) (pcomp b) True =
    (case hit of
       Some (pointer, nameoffset) \<Rightarrow>
         if nameoffset + 2 \<le> length m
         then Ok (nameoffset + 2, ns_labels st, Some (put (be_bytes 2 ((of_nat pointer :: uint16) XOR 0xC000)) nameoffset m), Some cm')
         else Panic IndexOutOfRange
     | None \<Rightarrow> Ok (ns_off st + 1, ns_labels st, Some (if ns_off st < length m then m[ns_off st := 0] else m), Some cm'))"
    using assms(3-6) k(2) last
    unfolding packDomainName_def Let_def assms(2) by (simp add: name_run_def split: option.split)
  note run = this
  show "hit = Some (q, off) \<Longrightarrow> off + 2 \<le> length m \<Longrightarrow> PackDomainName (present ls) True b =
      Ok (b\<lparr>pmsg := put (be_bytes 2 ((of_nat q :: uint16) XOR 0xC000)) off m, poff := off + 2, pcomp := Some cm'\<rparr>)"
    by (simp add: PackDomainName_def k(1) run)
  show "hit = None \<Longrightarrow> ns_off st < length m \<Longrightarrow> PackDomainName (present ls) True b =
      Ok (b\<lparr>pmsg := m[ns_off st := 0], poff := ns_off st + 1, pcomp := Some cm'\<rparr>)"
    by (simp add: PackDomainName_def k(1) run)
qed

lemma first_name:
  assumes p: "plain_labels ls" and b: "holds w n b" "pcomp b = Some Map.empty" "length w < maxCompressionOffset"
    and room: "length w + name_octets ls + 1 \<le> n"
  shows "\<exists>b' cm. PackDomainName (present ls) True b = Ok b' \<and> holds (w @ wire_of_labels ls @ [0]) n b' \<and>
    pcomp b' = Some cm \<and> cm (present ls) = Some (length w)"
proof -
  let ?m = "pmsg b" and ?o = "poff b" and ?st = "name_run ls b Map.empty"
  obtain l ls' where ls: "ls = l # ls'" using p by (cases ls) (auto simp: plain_labels_def)
  have ok: "l \<noteq> []" "length l < 64" "list_all plain_byte l" "list_all (\<lambda>l. l \<noteq> [] \<and> length l < 64) ls'"
    "list_all (list_all plain_byte) ls'"
    using p by (auto simp: ls plain_labels_def labels_ok_def)
  have off: "?o = length w" "length ?m = n" using b(1) by (simp_all add: holds_def)
  have room': "?o + 1 + length l \<le> length ?m" "?o + 1 + length l + name_octets ls' \<le> n"
    using room by (simp_all add: off ls name_octets_def)
  define m1 where "m1 = put (of_nat (length l) # l) ?o ?m"
  define cm1 where "cm1 = [key_of ls \<mapsto> ?o]"
  have len: "length m1 = n" using room' off by (simp add: m1_def)
  obtain st1 where 1: "pack_name_loop True n 0 ?st = pack_name_loop True n (length (string_of l @ ''.'')) st1"
    "plain_state (string_of l @ ''.'') (key_of ls') (?o + 1 + length l) m1 cm1 st1"
    using plain_step(2) [OF name_run_plain [of ls b Map.empty, unfolded ls] ok(1-3) room'(1)] b(3)
    by (auto simp: off ls m1_def cm1_def)
  have "cm1 k = None" if "length k \<le> length (key_of ls')" for k
    using that by (auto simp: cm1_def ls)
  then obtain st2 cm2 where 2: "pack_name_loop True n 0 ?st = Ok (st2, None)"
    "ns_bs st2 = key_of ls" "ns_off st2 = ?o + 1 + length l + name_octets ls'"
    "ns_msg st2 = Some (put (wire_of_labels ls') (?o + 1 + length l) m1)" "ns_comp st2 = Some cm2"
    "cm2 (key_of ls) = Some ?o"
    using plain_loop [OF 1(2) ok(4,5)] room'(2) 1(1) unfolding len
    by (auto simp: ls cm1_def)
  define m2 where "m2 = put (wire_of_labels ls') (?o + 1 + length l) m1"
  have m2: "m2 = put (wire_of_labels ls) ?o ?m"
    using put_put [of ?o "of_nat (length l) # l" "wire_of_labels ls'" ?m] room' off
    by (simp add: m2_def m1_def ls name_octets_def add_ac)
  have off2: "ns_off st2 = length w + name_octets ls" using 2(3) by (simp add: off ls name_octets_def)
  have len2: "length m2 = n" using room off by (simp add: m2)
  have "PackDomainName (present ls) True b = Ok (b\<lparr>pmsg := m2[ns_off st2 := 0], poff := ns_off st2 + 1, pcomp := Some cm2\<rparr>)"
    using PackDomainName_run(2) [OF p b(2) _ 2(2,4,5), folded m2_def] 2(1) off(2) len2 room off2 by simp
  moreover have "m2[ns_off st2 := 0] = put (wire_of_labels ls @ [0]) ?o ?m"
    using room off len2 put_put [of ?o "wire_of_labels ls" "[0]" ?m]
    by (simp add: off2 m2 put_def [of "[0]"] upd_conv_take_nth_drop)
  moreover define b2 where "b2 = b\<lparr>pmsg := put (wire_of_labels ls @ [0]) ?o ?m, poff := ns_off st2 + 1, pcomp := Some cm2\<rparr>"
  moreover have "holds (w @ wire_of_labels ls @ [0]) n b2" "pcomp b2 = Some cm2"
    using b(1) room off by (simp_all add: holds_def off2 put_def b2_def)
  ultimately show ?thesis using 2(6) plain_key [OF p] off(1) by simp
qed

lemma known_name:
  assumes p: "plain_labels ls" and b: "holds w n b" "pcomp b = Some cm" "cm (present ls) = Some q"
    and room: "length w + name_octets ls + 1 \<le> n"
  shows "\<exists>b'. PackDomainName (present ls) True b = Ok b' \<and>
    holds (w @ be_bytes 2 ((of_nat q :: uint16) XOR 0xC000)) n b' \<and> pcomp b' = Some cm"
proof -
  let ?m = "pmsg b" and ?o = "poff b"
  obtain l ls' where ls: "ls = l # ls'" using p by (cases ls) (auto simp: plain_labels_def)
  have ok: "l \<noteq> []" "length l < 64" "list_all plain_byte l" using p by (auto simp: ls plain_labels_def labels_ok_def)
  have off: "?o = length w" "length ?m = n" using b(1) by (simp_all add: holds_def)
  have room': "?o + 1 + length l \<le> length ?m" using room by (simp add: off ls name_octets_def)
  define m1 where "m1 = put (of_nat (length l) # l) ?o ?m"
  have q: "cm (key_of (l # ls')) = Some q" using b(3) plain_key [OF p] by (simp add: ls)
  obtain st where st: "pack_name_loop True (length ?m) 0 (name_run ls b cm) = Ok (st, Some (q, ?o))"
    "ns_bs st = key_of ls" "ns_msg st = Some m1" "ns_comp st = Some cm"
    using plain_step(1) [OF name_run_plain [of ls b cm, unfolded ls] ok room' q]
    by (auto simp: ls m1_def name_run_def)
  have len: "length m1 = n" using room' off by (simp add: m1_def)
  have two: "?o + 2 \<le> length m1" using room' ok(1) by (cases l) (simp_all add: len off)
  from PackDomainName_run(1) [OF p b(2) st _ refl two] len off
  have "PackDomainName (present ls) True b =
      Ok (b\<lparr>pmsg := put (be_bytes 2 ((of_nat q :: uint16) XOR 0xC000)) ?o m1, poff := ?o + 2, pcomp := Some cm\<rparr>)"
    by simp
  moreover have "take ?o m1 = w" using b(1) by (simp add: m1_def put_def holds_def)
  ultimately show ?thesis using two len off by (simp add: holds_def put_def)
qed

section \<open>Records\<close>

text \<open>An address record under the name of the question, which stands at offset 12.\<close>

definition address_rr :: "string \<Rightarrow> RR \<Rightarrow> bool" where
  "address_rr name rr \<longleftrightarrow>
     Name (Hdr rr) = name \<and>
     ((Rrtype (Hdr rr) = TypeA \<and> (\<exists>p. length p = 4 \<and> Rdata rr = Std (RR_A p))) \<or>
      (Rrtype (Hdr rr) = TypeAAAA \<and> (\<exists>p. length p = 16 \<and> Rdata rr = Std (RR_AAAA p))))"

definition rest_of_header :: "RR_Header \<Rightarrow> byte list" where
  "rest_of_header h =
     be_bytes 2 (Rrtype h) @ be_bytes 2 (Class h) @ be_bytes 4 (Ttl h) @ be_bytes 2 (Rdlength h)"

definition compressed_record :: "RR \<Rightarrow> byte list" where
  "compressed_record rr = [0xC0, 12] @ rest_of_header (full_header rr) @ data_image (Rdata rr)"

lemma pointer_12: "be_bytes 2 ((of_nat 12 :: uint16) XOR 0xC000) = [0xC0, 12]"
  by code_simp

lemma length_rest [simp]: "length (rest_of_header h) = 10"
  by (simp add: rest_of_header_def)

lemma address_rr_data:
  assumes "address_rr name rr"
  shows "data_image (Rdata rr) \<noteq> []" "length (data_image (Rdata rr)) \<le> 16" "data_valid (Rdata rr)"
    "data_norm (Rdata rr) = Rdata rr" "data_type (Rdata rr) = Rrtype (Hdr rr)" "Rrtype (Hdr rr) \<noteq> TypeNone"
  using assms by (auto simp: address_rr_def ip4_def To4_def)

lemma address_rr_pack:
  assumes "address_rr name rr" "poff b + length (data_image (Rdata rr)) \<le> length (pmsg b)"
  shows "\<exists>step. (\<forall>h c. pack_data (Rdata rr) h c = pack_record h c [step]) \<and>
    step b = Ok (emit (data_image (Rdata rr)) b)"
  using assms
  by (auto simp: address_rr_def pack_A_def pack_AAAA_def packDataA_def packDataAAAA_def ip4_def To4_def fun_eq_iff)

lemma pack_rest:
  assumes "poff b + 10 \<le> length (pmsg b)"
  shows "pack_all [packUint16 (Rrtype h), packUint16 (Class h), packUint32 (Ttl h), packUint16 (Rdlength h)] b =
    Ok (emit (rest_of_header h) b)"
proof -
  have l: "length (pmsg (emit v b)) = length (pmsg b)" "poff (emit v b) = poff b + length v" if "length v \<le> 10" for v
    using that assms by (simp_all add: emit_def)
  show ?thesis
    using assms by (simp add: packUint16_def packUint32_def pack_uint_def l emit_emit rest_of_header_def)
qed

lemma skip_pointer:
  assumes "holds (w @ 0xC0 # v) n b"
  shows "raw_skip_name (pmsg b) (length w) = Some (length w + 2)"
proof -
  have "take (length w + 1 + length v) (pmsg b) = w @ 0xC0 # v" "length w < length (pmsg b)"
    using assms by (simp_all add: holds_def)
  moreover from this have "pmsg b ! length w = 0xC0"
    by (metis (no_types, lifting) nth_append_length nth_take trans_less_add1 less_add_one)
  moreover have "unat (0xC0 :: byte) AND 0xC0 = 0xC0" by code_simp
  ultimately show ?thesis by (subst raw_skip_name.simps) simp
qed

lemma PackRR_compressed:
  assumes p: "plain_labels ls" and rr: "address_rr (present ls) rr"
    and b: "holds w n b" "pcomp b = Some cm" "cm (present ls) = Some 12"
    and room: "length w + name_octets ls + 11 + length (data_image (Rdata rr)) \<le> n"
  shows "\<exists>b'. PackRR rr True b = Ok (rr\<lparr>Hdr := full_header rr\<rparr>, b') \<and>
    holds (w @ compressed_record rr) n b' \<and> pcomp b' = Some cm"
proof -
  let ?d = "data_image (Rdata rr)" and ?h = "Hdr rr"
  have two: "2 \<le> name_octets ls"
    using p by (cases ls; cases "hd ls") (auto simp: plain_labels_def labels_ok_def name_octets_def)
  have name: "Name ?h = present ls" using rr by (simp add: address_rr_def)
  obtain b1 where b1: "PackDomainName (present ls) True b = Ok b1" "holds (w @ [0xC0, 12]) n b1" "pcomp b1 = Some cm"
    using known_name [OF p b] room unfolding pointer_12 by auto
  have at1: "poff b1 = length w + 2" "length (pmsg b1) = n" using b1(2) by (simp_all add: holds_def)
  let ?b2 = "emit (rest_of_header ?h) b1"
  have b2: "poff ?b2 = length w + 12" "length (pmsg ?b2) = n" using at1 room two by (simp_all add: emit_def)
  let ?b3 = "emit ?d ?b2"
  have h: "header_pack ?h True b = Ok ?b2"
    using pack_rest [of b1 ?h] b1(1) at1 room two b(1) by (simp add: header_pack_def name holds_def)
  obtain step where step: "pack_data (Rdata rr) ?h True = pack_record ?h True [step]" "step ?b2 = Ok ?b3"
    using address_rr_pack [OF rr, of ?b2] b2 room two by auto
  have b3: "poff ?b3 = length w + 12 + length ?d" "length (pmsg ?b3) = n" using b2 room two by (simp_all add: emit_def)
  have r: "rr_pack rr True b = Ok (rr\<lparr>Hdr := full_header rr\<rparr>, ?b3)"
    by (simp add: rr_pack_def step pack_record_def h full_header_def b2(1) b3(1))
  have holds3: "holds (w @ [0xC0, 12] @ rest_of_header ?h @ ?d) n ?b3"
    using holds_emit [OF holds_emit [OF b1(2), of "rest_of_header ?h"], of ?d] room two by simp
  define pre where "pre = w @ [0xC0, 12] @ be_bytes 2 (Rrtype ?h) @ be_bytes 2 (Class ?h) @ be_bytes 4 (Ttl ?h)"
  define len where "len = be_bytes 2 (of_nat (length ?d) :: uint16)"
  have pre: "length pre = length w + 10" by (simp add: pre_def)
  have t: "take (length w + 12 + length ?d) (pmsg ?b3) = pre @ be_bytes 2 (Rdlength ?h) @ ?d"
    using holds3 by (simp add: holds_def pre_def rest_of_header_def add.assoc)
  have raw: "rawSetRdlength (pmsg ?b3) (poff b) (poff ?b3) = Some (put len (length pre) (pmsg ?b3))"
    using skip_pointer [of w "12 # rest_of_header ?h @ ?d" n ?b3] holds3 b3 b(1) address_rr_data(2) [OF rr] room two
    by (simp add: rawSetRdlength_def Let_def holds_def pre len_def add.commute)
  have "take (length pre + 2 + length ?d) (put len (length pre) (pmsg ?b3)) = pre @ len @ ?d"
  proof -
    have "take (length pre) (pmsg ?b3) = pre" using arg_cong [OF t, of "take (length pre)"] pre by simp
    moreover have "take (length ?d) (drop (length pre + 2) (pmsg ?b3)) = ?d"
      using arg_cong [OF t, of "drop (length pre + 2)"] pre by (simp add: drop_take)
    ultimately show ?thesis by (simp add: put_def len_def)
  qed
  moreover have "pre @ len @ ?d = w @ compressed_record rr"
    by (simp add: pre_def len_def compressed_record_def rest_of_header_def full_header_def)
  moreover have "length (compressed_record rr) = 12 + length ?d" by (simp add: compressed_record_def)
  ultimately have "holds (w @ compressed_record rr) n (?b3\<lparr>pmsg := put len (length pre) (pmsg ?b3)\<rparr>)"
    using b3 pre room two by (simp add: holds_def len_def add_ac)
  moreover have "pcomp (?b3\<lparr>pmsg := put len (length pre) (pmsg ?b3)\<rparr>) = Some cm" using b1(3) by simp
  ultimately show ?thesis using r raw by (simp add: PackRR_def)
qed

section \<open>Messages\<close>

text \<open>A reply with one question and address records under its name, as compression packs it.\<close>

definition compressed_message :: "Msg \<Rightarrow> byte list" where
  "compressed_message m =
     wire_msg_header (message_header m) @ wire_questions (Questions m) @ concat (map compressed_record (Answer m))"

definition address_reply :: "byte list list \<Rightarrow> Msg \<Rightarrow> bool" where
  "address_reply ls m \<longleftrightarrow>
     plain_labels ls \<and> (\<exists>q. Questions m = [q] \<and> QName q = present ls) \<and> Ns m = [] \<and> Extra m = [] \<and> Compress m \<and>
     list_all (address_rr (present ls)) (Answer m) \<and> length (Answer m) < 65536 \<and>
     0 \<le> Opcode m \<and> Opcode m < 16 \<and> 0 \<le> Rcode m \<and> Rcode m < 16"

lemma plain_wire_name: "plain_labels ls \<Longrightarrow> valid_name (present ls) \<and> wire_name (present ls) = wire_of_labels ls @ [0]"
  using parse_present [of ls] by (simp add: plain_labels_def valid_name_def wire_name_def)

lemma length_compressed_record [simp]: "length (compressed_record rr) = 12 + length (data_image (Rdata rr))"
  by (simp add: compressed_record_def)

lemma address_rr_wire:
  assumes "plain_labels ls" "address_rr (present ls) rr"
  shows "length (wire_record rr) = name_octets ls + 11 + length (data_image (Rdata rr))"
    "length (compressed_record rr) \<le> length (wire_record rr)" "record_valid rr" "roomy (Rdata rr)"
proof -
  have n: "Name (Hdr rr) = present ls" using assms(2) by (simp add: address_rr_def)
  then have "wire_name (Name (Hdr rr)) = wire_of_labels ls @ [0]" "valid_name (Name (Hdr rr))"
    using plain_wire_name [OF assms(1)] by simp_all
  moreover show "length (wire_record rr) = name_octets ls + 11 + length (data_image (Rdata rr))"
    using calculation by (simp add: wire_record_def length_wire_header full_header_def)
  moreover have "2 \<le> name_octets ls"
    using assms(1) by (cases ls; cases "hd ls") (auto simp: plain_labels_def labels_ok_def name_octets_def)
  ultimately show "length (compressed_record rr) \<le> length (wire_record rr)" by simp
  show "record_valid rr" "roomy (Rdata rr)"
    using address_rr_data [OF assms(2)] assms(2) plain_wire_name [OF assms(1)] n
    by (auto simp: record_valid_def type_fits_def address_rr_def)
qed

lemma pack_rrs_compressed:
  "plain_labels ls \<Longrightarrow> list_all (address_rr (present ls)) rrs \<Longrightarrow> holds w n b \<Longrightarrow> pcomp b = Some cm \<Longrightarrow>
   cm (present ls) = Some 12 \<Longrightarrow> length w + length (wire_records rrs) \<le> n \<Longrightarrow>
   \<exists>b'. pack_rrs rrs True b = Ok (map (\<lambda>rr. rr\<lparr>Hdr := full_header rr\<rparr>) rrs, b') \<and>
     holds (w @ concat (map compressed_record rrs)) n b' \<and> pcomp b' = Some cm"
proof (induction rrs arbitrary: w b)
  case (Cons rr rrs)
  have rr: "address_rr (present ls) rr" "list_all (address_rr (present ls)) rrs" using Cons.prems(2) by simp_all
  note l = address_rr_wire [OF Cons.prems(1) rr(1)]
  have n: "length w + length (wire_record rr) + length (wire_records rrs) \<le> n"
    using Cons.prems(6) by (simp add: wire_records_def)
  then have "length w + name_octets ls + 11 + length (data_image (Rdata rr)) \<le> n" using l(1) by simp
  from PackRR_compressed [OF Cons.prems(1) rr(1) Cons.prems(3-5) this]
  obtain b1 where b1: "PackRR rr True b = Ok (rr\<lparr>Hdr := full_header rr\<rparr>, b1)"
    "holds (w @ compressed_record rr) n b1" "pcomp b1 = Some cm" by blast
  have "length (w @ compressed_record rr) + length (wire_records rrs) \<le> n" using n l(2) by simp
  from Cons.IH [OF Cons.prems(1) rr(2) b1(2,3) Cons.prems(5) this] b1(1) show ?case by auto
qed simp

lemma Question_compressed:
  assumes p: "plain_labels ls" and b: "holds w n b" "pcomp b = Some Map.empty" "length w < maxCompressionOffset"
    and q: "QName q = present ls" and room: "length w + name_octets ls + 5 \<le> n"
  shows "\<exists>b' cm. Question_pack q True b = Ok b' \<and> holds (w @ wire_question q) n b' \<and>
    pcomp b' = Some cm \<and> cm (present ls) = Some (length w)"
proof -
  obtain b1 cm where b1: "PackDomainName (present ls) True b = Ok b1" "holds (w @ wire_of_labels ls @ [0]) n b1"
    "pcomp b1 = Some cm" "cm (present ls) = Some (length w)"
    using first_name [OF p b] room by auto
  let ?b2 = "emit (be_bytes 2 (Qtype q)) b1"
  let ?b3 = "emit (be_bytes 2 (Qclass q)) ?b2"
  have h2: "holds ((w @ wire_of_labels ls @ [0]) @ be_bytes 2 (Qtype q)) n ?b2"
    by (rule holds_emit [OF b1(2)]) (use room in simp)
  have h3: "holds (((w @ wire_of_labels ls @ [0]) @ be_bytes 2 (Qtype q)) @ be_bytes 2 (Qclass q)) n ?b3"
    by (rule holds_emit [OF h2]) (use room in simp)
  have "packUint16 (Qtype q) b1 = Ok ?b2" "packUint16 (Qclass q) ?b2 = Ok ?b3"
    using b1(2) h2 room by (auto simp: holds_def packUint16_def pack_uint_def)
  then show ?thesis
    using b1 h3 plain_wire_name [OF p] by (simp add: Question_pack_def q wire_question_def)
qed

lemma uncompressedLen_Compress [simp]: "uncompressedLen (m\<lparr>Compress := c\<rparr>) = uncompressedLen m"
  by (simp add: uncompressedLen_def)

lemma wire_message_Compress [simp]: "wire_message (m\<lparr>Compress := c\<rparr>) = wire_message m"
  by (simp add: wire_message_def message_header_def header_bits_def)

lemma address_reply_valid:
  assumes "address_reply ls m"
  shows "message_valid (m\<lparr>Compress := False\<rparr>)" "message_roomy (m\<lparr>Compress := False\<rparr>)"
proof -
  have p: "plain_labels ls" "list_all (address_rr (present ls)) (Answer m)" using assms by (simp_all add: address_reply_def)
  have "list_all record_valid (Answer m) \<and> list_all (\<lambda>rr. roomy (Rdata rr)) (Answer m)"
    using p(2) address_rr_wire(3,4) [OF p(1)] by (simp add: list_all_iff)
  then show "message_valid (m\<lparr>Compress := False\<rparr>)" "message_roomy (m\<lparr>Compress := False\<rparr>)"
    using assms plain_wire_name [OF p(1)]
    by (auto simp: address_reply_def message_valid_def records_valid_def message_roomy_def)
qed

lemma header_emitted:
  assumes "poff b + 12 \<le> length (pmsg b)"
  shows "Header_pack dh b = Ok (emit (wire_msg_header dh) b)"
proof -
  have l: "length (pmsg (emit v b)) = length (pmsg b)" "poff (emit v b) = poff b + length v" if "length v \<le> 12" for v
    using that assms by (simp_all add: emit_def)
  show ?thesis
    using assms by (simp add: Header_pack_def packUint16_def pack_uint_def l emit_emit wire_msg_header_def)
qed

theorem Pack_compressed:
  assumes a: "address_reply ls m"
  shows "Pack m = Ok (compressed_message m, message_packed m)"
proof -
  obtain q where q: "Questions m = [q]" "QName q = present ls" using a by (auto simp: address_reply_def)
  have m: "plain_labels ls" "Ns m = []" "Extra m = []" "Compress m" "list_all (address_rr (present ls)) (Answer m)"
    "extend_rcode m = Ok m" "\<not> (Rcode m < 0 \<or> Rcode m > 0xFFF)"
    using a by (simp_all add: address_reply_def extend_rcode_def)
  obtain k where k: "uncompressedLen m = Ok k" "length (wire_message m) \<le> k"
    using message_bound [OF address_reply_valid [OF a]] by auto
  have len: "12 + length (wire_question q) + length (wire_records (Answer m)) \<le> k"
    "length (wire_question q) = name_octets ls + 5"
    using k(2) plain_wire_name [OF m(1)] q
    by (simp_all add: wire_message_def wire_questions_def m wire_records_def wire_question_def)
  let ?h = "wire_msg_header (message_header m)"
  define b where "b = \<lparr>pmsg = replicate (k + 1) (0 :: byte), poff = 0, pcomp = Some Map.empty\<rparr>"
  have b: "holds [] (k + 1) b" "pcomp b = Some Map.empty" by (simp_all add: holds_def b_def)
  have h1: "holds ?h (k + 1) (emit ?h b)"
    using holds_emit [OF b(1), of ?h] len by simp
  have s1: "Header_pack (message_header m) b = Ok (emit ?h b)"
    using header_emitted [of b "message_header m"] len by (simp add: b_def)
  obtain b2 cm where s2: "Question_pack q True (emit ?h b) = Ok b2" "holds (?h @ wire_question q) (k + 1) b2"
    "pcomp b2 = Some cm" "cm (present ls) = Some 12"
    using Question_compressed [OF m(1) h1 _ _ q(2)] b(2) len by auto
  have "length (?h @ wire_question q) + length (wire_records (Answer m)) \<le> k + 1" using len by simp
  from pack_rrs_compressed [OF m(1,5) s2(2-4) this]
  obtain b3 where s3: "pack_rrs (Answer m) True b2 = Ok (map (\<lambda>rr. rr\<lparr>Hdr := full_header rr\<rparr>) (Answer m), b3)"
    "holds (compressed_message m) (k + 1) b3"
    by (auto simp: compressed_message_def q(1) wire_questions_def)
  have "pack_sections m b = Ok (message_packed m, b3)"
    by (simp add: pack_sections_def m s1 q s2(1) s3(1) message_packed_def)
  moreover have "go_slice (pmsg b3) 0 (int (poff b3)) = Ok (compressed_message m)"
    using s3(2) by (simp add: holds_def go_slice_prefix)
  ultimately show ?thesis unfolding b_def
    by (simp add: Pack_def PackBuffer_def m(4,6,7) k(1) Let_def del: replicate.simps)
qed

section \<open>Reading it back\<close>

text \<open>The pointer of a record leads to the name of the question.\<close>

lemma UnpackDomainName_pointer:
  assumes p: "plain_labels ls" and at: "bytes_at msg 12 (wire_of_labels ls @ [0])" "bytes_at msg off [0xC0, 12]"
  shows "UnpackDomainName msg off = Ok (present ls, off + 2)"
proof -
  have ok: "labels_ok ls" using p by (simp add: plain_labels_def)
  have "name_at msg 12 ls 0 (12 + name_octets ls + 1)" by (rule name_at_wire [OF ok at(1)])
  moreover have "off + 1 < length msg" "msg ! off = 0xC0" "msg ! (off + 1) = 12"
    using at(2) by (simp_all add: bytes_at_Cons)
  ultimately have "name_at msg off ls (Suc 0) (off + 2)"
    by (intro name_pointer) simp_all
  from UnpackDomainName_name_at [OF this] show ?thesis using ok by (simp add: labels_ok_def)
qed

lemma UnpackRR_compressed:
  assumes p: "plain_labels ls" and rr: "address_rr (present ls) rr"
    and at: "bytes_at msg 12 (wire_of_labels ls @ [0])" "bytes_at msg off (compressed_record rr)"
  shows "UnpackRR msg off = Ok (rr\<lparr>Hdr := full_header rr\<rparr>, off + length (compressed_record rr))"
proof -
  define h where "h = full_header rr"
  define i where "i = data_image (Rdata rr)"
  define n where "n = off + 12"
  define m where "m = take (n + length i) msg"
  have name: "Name h = present ls" using rr by (simp add: h_def full_header_def address_rr_def)
  have len: "unat (Rdlength h) = length i"
    using address_rr_data(2) [OF rr] by (simp add: h_def i_def full_header_def unat_of_nat take_bit_nat_eq_self)
  have at': "bytes_at msg off [0xC0, 12]" "bytes_at msg (off + 2) (be_bytes 2 (Rrtype h))"
    "bytes_at msg (off + 4) (be_bytes 2 (Class h))" "bytes_at msg (off + 6) (be_bytes 4 (Ttl h))"
    "bytes_at msg (off + 10) (be_bytes 2 (Rdlength h))" "bytes_at msg n i"
    using at(2) by (simp_all add: compressed_record_def rest_of_header_def h_def i_def n_def bytes_at_append bytes_at_Cons eval_nat_numeral)
  then have le: "n + length i \<le> length msg" "off \<noteq> length msg" by (simp_all add: bytes_at_def n_def)
  have "unpackHeader msg off = Ok (h, n, fst (truncateMsgFromRdlength msg n (Rdlength h)))"
    using le(2) field_reads(2) [OF at'(2)] field_reads(2) [OF at'(3)] field_reads(3) [OF at'(4)] field_reads(2) [OF at'(5)]
    by (simp add: unpackHeader_def UnpackDomainName_pointer [OF p at(1) at'(1)] n_def eval_nat_numeral)
      (simp flip: name)
  also have "fst (truncateMsgFromRdlength msg n (Rdlength h)) = m"
    using truncate_exact(2) [of n "Rdlength h" msg] le len by (simp add: m_def)
  finally have u: "unpackHeader msg off = Ok (h, n, m)" .
  have m: "length m = n + length i" using le by (simp add: m_def)
  have "bytes_at m n i" using at'(6) le by (simp add: bytes_at_def drop_take m_def)
  then have "(case typeToUnpack (Rrtype h) of
      None \<Rightarrow> lift_unpacker Ext unpackRFC3597 h m n
    | Some fn \<Rightarrow> fn h m n) = Ok (data_norm (Rdata rr), length m)"
    using address_rr_data(3,5,6) [OF rr] m len unfolding i_def
    by (intro data_reads) (simp_all add: h_def full_header_def)
  then show ?thesis
    using address_rr_data(4) [OF rr]
    by (simp add: UnpackRR_shape u m len) (simp add: n_def h_def i_def)
qed

lemma records_compressed:
  "plain_labels ls \<Longrightarrow> list_all (address_rr (present ls)) rrs \<Longrightarrow> bytes_at msg 12 (wire_of_labels ls @ [0]) \<Longrightarrow>
   bytes_at msg off (concat (map compressed_record rrs)) \<Longrightarrow>
   unpackRRslice_loop (length rrs) msg off acc =
     Ok (acc @ map (\<lambda>rr. rr\<lparr>Hdr := full_header rr\<rparr>) rrs, off + length (concat (map compressed_record rrs)), None)"
proof (induction rrs arbitrary: off acc)
  case (Cons rr rrs)
  have at: "bytes_at msg off (compressed_record rr)"
    "bytes_at msg (off + length (compressed_record rr)) (concat (map compressed_record rrs))"
    using Cons.prems(4) by (simp_all add: bytes_at_append)
  have rr: "address_rr (present ls) rr" "list_all (address_rr (present ls)) rrs" using Cons.prems(2) by simp_all
  show ?case
    using UnpackRR_compressed [OF Cons.prems(1) rr(1) Cons.prems(3) at(1)] Cons.IH [OF Cons.prems(1) rr(2) Cons.prems(3) at(2)]
    by simp
qed simp

theorem Unpack_compressed:
  assumes a: "address_reply ls m" and t: "\<not> Truncated m"
  shows "Unpack d (compressed_message m) = Ok ((message_packed m)\<lparr>Compress := Compress d\<rparr>, None)"
proof -
  obtain q where q: "Questions m = [q]" "QName q = present ls" using a by (auto simp: address_reply_def)
  have m: "plain_labels ls" "Ns m = []" "Extra m = []" "list_all (address_rr (present ls)) (Answer m)"
    "length (Answer m) < 65536"
    using a by (simp_all add: address_reply_def)
  define w where "w = compressed_message m"
  let ?h = "message_header m" and ?rs = "concat (map compressed_record (Answer m))"
  have at: "bytes_at w 0 (wire_msg_header ?h)" "bytes_at w 12 (wire_questions (Questions m))"
    "bytes_at w (12 + length (wire_question q)) ?rs"
    and len: "length w = 12 + length (wire_question q) + length ?rs"
    by (simp_all add: w_def compressed_message_def bytes_at_def q wire_questions_def)
  have name: "bytes_at w 12 (wire_of_labels ls @ [0])"
    using at(2) plain_wire_name [OF m(1)] unfolding q wire_questions_def wire_question_def list.map concat.simps
    by (simp only: q(2) bytes_at_append)
  define d1 where "d1 = set_bits ?h d"
  have d1: "d1 = d\<lparr>MsgId := MsgId m, Response := Response m, Opcode := Opcode m, Authoritative := Authoritative m,
      Truncated := Truncated m, RecursionDesired := RecursionDesired m,
      RecursionAvailable := RecursionAvailable m, Zero := Zero m, AuthenticatedData := AuthenticatedData m,
      CheckingDisabled := CheckingDisabled m, Rcode := Rcode m\<rparr>"
    unfolding d1_def by (rule set_bits_header) (use a in \<open>simp_all add: address_reply_def\<close>)
  have qs: "unpack_questions (unat (Qdcount ?h)) w 12 [] = Ok ([q], 12 + length (wire_question q), None)"
    using questions_reads [OF _ at(2), of "[]"] plain_wire_name [OF m(1)] q
    by (simp add: message_header_def wire_questions_def)
  have "unat (Ancount ?h) = length (Answer m)"
    using m(5) by (simp add: message_header_def unat_of_nat take_bit_nat_eq_self)
  then have s: "unpack_sections ?h w (12 + length (wire_question q)) dns =
      Ok (dns\<lparr>Answer := map (\<lambda>rr. rr\<lparr>Hdr := full_header rr\<rparr>) (Answer m), Ns := [], Extra := []\<rparr>, length w, None)" for dns
    using records_compressed [OF m(1,4) name at(3), of "[]"]
    by (simp add: unpack_sections_def unpackRRslice_def len) (simp add: message_header_def m(2,3) unpackRRslice_def)
  have "12 \<noteq> length w" using len by simp
  then have "Unpack d w =
    Ok (d1\<lparr>Questions := [q], Answer := map (\<lambda>rr. rr\<lparr>Hdr := full_header rr\<rparr>) (Answer m), Ns := [], Extra := []\<rparr>, None)"
    using t by (simp add: Unpack_def Header_reads [OF at(1)] Let_def qs s flip: d1_def) (simp add: d1)
  then show ?thesis by (simp add: w_def d1 message_packed_def m q(1))
qed

lemma compressed_length:
  assumes "address_reply bs m"
  shows "length (compressed_message m) + length (Answer m) * (name_octets bs - 1) = length (wire_message m)"
proof -
  have a: "plain_labels bs" "Ns m = []" "Extra m = []" "list_all (address_rr (present bs)) (Answer m)"
    using assms by (simp_all add: address_reply_def)
  have "length (concat (map compressed_record rrs)) + length rrs * (name_octets bs - 1) = length (wire_records rrs)"
    if "list_all (address_rr (present bs)) rrs" for rrs
    using that
  proof (induction rrs)
    case (Cons rr rrs)
    then show ?case
      using address_rr_wire(1) [OF a(1), of rr] address_rr_wire(2) [OF a(1), of rr] by (simp add: wire_records_def)
  qed (simp add: wire_records_def)
  from this [OF a(4)] show ?thesis
    using a(2,3) by (simp add: compressed_message_def wire_message_def wire_records_def)
qed

text \<open>Plain names as lists of labels.\<close>

lemma plain_label_ok: "list_all plain_byte l \<Longrightarrow> label_ok (string_of l)"
  by (induction l) (use plain_byte_char in \<open>auto simp: string_of_def\<close>)

lemma plain_fqdn:
  assumes "plain_labels ls"
  shows "present ls = fqdn (map string_of ls)" "list_all label_ok (map string_of ls)" "[] \<notin> set (map string_of ls)"
proof -
  have p: "list_all (list_all plain_byte) ls" "[] \<notin> set ls"
    using assms by (auto simp: plain_labels_def labels_ok_def list_all_iff)
  show "present ls = fqdn (map string_of ls)" by (simp only: present_def plain_present_labels [OF p(1)])
  show "list_all label_ok (map string_of ls)" using p(1) plain_label_ok
    by (fastforce simp only: list_all_iff set_map)
  show "[] \<notin> set (map string_of ls)" using p(2) by (auto simp: string_of_def)
qed

end
