(* ===== verification/Wire_Clen.thy ===== *)
theory Wire_Clen
  imports Wire_Compress
begin

text \<open>
  The length of a message with compression: \<open>Msg.Len\<close> and \<open>compressedLen\<close> (\<open>msg.go\<close>) with the names
  of the records in \<open>zcompress.go\<close>.  The code replays what the packer would do on a map of its own,
  whose keys are the suffixes of the names met so far.  Without compression this is the length the
  buffer of \<open>PackBuffer\<close> is allocated with; with it, the length of a reply to an address query is
  exactly the number of octets that are sent.
\<close>

type_synonym cmap = "string \<Rightarrow> nat option"

section \<open>Suffixes of a name\<close>

text \<open>The loop goes over the starts of the labels from the last to the first.\<close>

primrec compressionLenHelper_loop :: "string \<Rightarrow> nat list \<Rightarrow> cmap \<Rightarrow> cmap" where
  "compressionLenHelper_loop s [] c = c"
| "compressionLenHelper_loop s (lb # lbs) c =
     (let pref = drop lb s
      in compressionLenHelper_loop s lbs (if c pref = None then c(pref \<mapsto> length pref) else c))"

definition compressionLenHelper :: "cmap \<Rightarrow> string \<Rightarrow> cmap" where
  "compressionLenHelper c s = compressionLenHelper_loop s (rev (Split s)) c"

function compressionLenSearch_loop :: "cmap \<Rightarrow> string \<Rightarrow> nat \<Rightarrow> bool \<Rightarrow> nat \<times> bool" where
  "compressionLenSearch_loop c s off end =
     (if c (drop off s) \<noteq> None then (length (drop off s), True)
      else if end then (0, False)
      else (let (off', end') = NextLabel s off in compressionLenSearch_loop c s off' end'))"
  by pat_completeness auto
termination
  by (relation "measure (\<lambda>(c, s, off, end). if end then 0 else Suc (length s - off))")
    (auto split: prod.split dest!: NextLabel_bounds)

declare compressionLenSearch_loop.simps [simp del]

definition compressionLenSearch :: "cmap \<Rightarrow> string \<Rightarrow> nat \<times> bool" where
  "compressionLenSearch c s = (if s = '''' then (0, False) else compressionLenSearch_loop c s 0 False)"

section \<open>The names of a record\<close>

text \<open>The names that are put into the map.\<close>

fun compressionLenHelperType :: "cmap \<Rightarrow> rdata \<Rightarrow> cmap" where
  "compressionLenHelperType c (Std (RR_PTR ptr)) = compressionLenHelper c ptr"
| "compressionLenHelperType c (Std (RR_SOA ns mbox serial refresh retry expire minttl)) =
     compressionLenHelper (compressionLenHelper c ns) mbox"
| "compressionLenHelperType c (Std (RR_AFSDB subtype hostname)) = compressionLenHelper c hostname"
| "compressionLenHelperType c (Ext (RR_HIP hitLength algorithm keyLength hit key servers)) =
     foldl compressionLenHelper c servers"
| "compressionLenHelperType c (Ext (RR_LP preference target)) = compressionLenHelper c target"
| "compressionLenHelperType c (Std (RR_CNAME target)) = compressionLenHelper c target"
| "compressionLenHelperType c (Std (RR_MB mb)) = compressionLenHelper c mb"
| "compressionLenHelperType c (Std (RR_RP mbox txt)) = compressionLenHelper (compressionLenHelper c mbox) txt"
| "compressionLenHelperType c (Sec (RR_RRSIG covered algorithm labels origTtl expiration inception keyTag signer signature)) =
     compressionLenHelper c signer"
| "compressionLenHelperType c (Std (RR_MF mf)) = compressionLenHelper c mf"
| "compressionLenHelperType c (Std (RR_MINFO rmail email)) = compressionLenHelper (compressionLenHelper c rmail) email"
| "compressionLenHelperType c (Sec (RR_SIG covered algorithm labels origTtl expiration inception keyTag signer signature)) =
     compressionLenHelper c signer"
| "compressionLenHelperType c (Std (RR_SRV priority weight port target)) = compressionLenHelper c target"
| "compressionLenHelperType c (Ext (RR_TSIG algorithm timeSigned fudge macSize mac origId err otherLen otherData)) =
     compressionLenHelper c algorithm"
| "compressionLenHelperType c (Sec (RR_KX preference exchanger)) = compressionLenHelper c exchanger"
| "compressionLenHelperType c (Std (RR_MG mg)) = compressionLenHelper c mg"
| "compressionLenHelperType c (Sec (RR_NSAPPTR ptr)) = compressionLenHelper c ptr"
| "compressionLenHelperType c (Sec (RR_PX preference map822 mapx400)) =
     compressionLenHelper (compressionLenHelper c map822) mapx400"
| "compressionLenHelperType c (Std (RR_DNAME target)) = compressionLenHelper c target"
| "compressionLenHelperType c (Std (RR_MR mr)) = compressionLenHelper c mr"
| "compressionLenHelperType c (Std (RR_MX preference mx)) = compressionLenHelper c mx"
| "compressionLenHelperType c (Ext (RR_TKEY algorithm inception expiration mode err keySize key otherLen otherData)) =
     compressionLenHelper c algorithm"
| "compressionLenHelperType c (Sec (RR_NSEC nextDomain typeBitMap)) = compressionLenHelper c nextDomain"
| "compressionLenHelperType c (Sec (RR_TALINK previousName nextName)) =
     compressionLenHelper (compressionLenHelper c previousName) nextName"
| "compressionLenHelperType c (Std (RR_MD md)) = compressionLenHelper c md"
| "compressionLenHelperType c (Std (RR_NAPTR order preference flags service regexp replacement)) =
     compressionLenHelper c replacement"
| "compressionLenHelperType c (Std (RR_NS ns)) = compressionLenHelper c ns"
| "compressionLenHelperType c (Std (RR_RT preference host)) = compressionLenHelper c host"
| "compressionLenHelperType c d = c"

text \<open>The names that may be compressed; two names count only when both are found.\<close>

definition search2 :: "cmap \<Rightarrow> string \<Rightarrow> string \<Rightarrow> nat \<times> bool" where
  "search2 c s1 s2 =
     (let (k1, ok1) = compressionLenSearch c s1; (k2, ok2) = compressionLenSearch c s2 in (k1 + k2, ok1 \<and> ok2))"

fun compressionLenSearchType :: "cmap \<Rightarrow> rdata \<Rightarrow> nat \<times> bool" where
  "compressionLenSearchType c (Std (RR_MG mg)) = compressionLenSearch c mg"
| "compressionLenSearchType c (Std (RR_PTR ptr)) = compressionLenSearch c ptr"
| "compressionLenSearchType c (Std (RR_AFSDB subtype hostname)) = compressionLenSearch c hostname"
| "compressionLenSearchType c (Std (RR_MB mb)) = compressionLenSearch c mb"
| "compressionLenSearchType c (Std (RR_MD md)) = compressionLenSearch c md"
| "compressionLenSearchType c (Std (RR_MF mf)) = compressionLenSearch c mf"
| "compressionLenSearchType c (Std (RR_NS ns)) = compressionLenSearch c ns"
| "compressionLenSearchType c (Std (RR_RT preference host)) = compressionLenSearch c host"
| "compressionLenSearchType c (Std (RR_SOA ns mbox serial refresh retry expire minttl)) = search2 c ns mbox"
| "compressionLenSearchType c (Std (RR_CNAME target)) = compressionLenSearch c target"
| "compressionLenSearchType c (Std (RR_MINFO rmail email)) = search2 c rmail email"
| "compressionLenSearchType c (Std (RR_MR mr)) = compressionLenSearch c mr"
| "compressionLenSearchType c (Std (RR_MX preference mx)) = compressionLenSearch c mx"
| "compressionLenSearchType c d = (0, False)"

section \<open>The length\<close>

definition saved :: "nat \<times> bool \<Rightarrow> int" where
  "saved r = (if snd r then 1 - int (fst r) else 0)"

text \<open>The loop over the questions and the one over a section.\<close>

primrec len_questions :: "bool \<Rightarrow> Question list \<Rightarrow> int \<Rightarrow> cmap \<Rightarrow> int \<times> cmap" where
  "len_questions compress [] l c = (l, c)"
| "len_questions compress (q # qs) l c =
     len_questions compress qs (l + int (Question_len q)) (if compress then compressionLenHelper c (QName q) else c)"

primrec len_section :: "bool \<Rightarrow> RR list \<Rightarrow> int \<Rightarrow> cmap \<Rightarrow> (int \<times> cmap) outcome" where
  "len_section compress [] l c = Ok (l, c)"
| "len_section compress (rr # rrs) l c =
     obind (rr_len rr) (\<lambda>n.
       if compress then
         let name = Name (Hdr rr);
             l = l + int n + saved (compressionLenSearch c name);
             c = compressionLenHelper c name;
             l = l + saved (compressionLenSearchType c (Rdata rr));
             c = compressionLenHelperType c (Rdata rr)
         in len_section compress rrs l c
       else len_section compress rrs (l + int n) c)"

definition compressedLen :: "Msg \<Rightarrow> bool \<Rightarrow> int outcome" where
  "compressedLen dns compress =
     (let (l, c) = len_questions compress (Questions dns) 12 Map.empty
      in obind (len_section compress (Answer dns) l c) (\<lambda>(l, c).
         obind (len_section compress (Ns dns) l c) (\<lambda>(l, c).
         obind (len_section compress (Extra dns) l c) (\<lambda>(l, c). Ok l))))"

definition Msg_Len :: "Msg \<Rightarrow> int outcome" where
  "Msg_Len dns = compressedLen dns (Compress dns)"

section \<open>Without compression\<close>

lemma len_questions_plain: "len_questions False qs l c = (l + int (sum_list (map Question_len qs)), c)"
  by (induction qs arbitrary: l) (simp_all add: add_ac)

lemma len_section_plain: "len_section False rrs l c = map_ok (\<lambda>n. (l + int n, c)) (sum_lens rrs)"
proof (induction rrs arbitrary: l)
  case (Cons rr rrs)
  then show ?case by (cases "rr_len rr"; cases "sum_lens rrs") (simp_all add: add_ac)
qed simp

text \<open>Without compression the length computed for a message is the size that \<open>PackBuffer\<close> allocates.\<close>

theorem compressedLen_uncompressed: "compressedLen m False = map_ok int (uncompressedLen m)"
  by (cases "sum_lens (Answer m)"; cases "sum_lens (Ns m)"; cases "sum_lens (Extra m)")
    (simp_all add: compressedLen_def uncompressedLen_def len_questions_plain len_section_plain)

section \<open>Replies to address queries\<close>

lemma helper_loop_keeps: "c k \<noteq> None \<Longrightarrow> compressionLenHelper_loop s lbs c k \<noteq> None"
  by (induction lbs arbitrary: c) (auto simp: Let_def)

lemma helper_loop_adds: "lb \<in> set lbs \<Longrightarrow> compressionLenHelper_loop s lbs c (drop lb s) \<noteq> None"
proof (induction lbs arbitrary: c)
  case (Cons l lbs)
  then show ?case
    using helper_loop_keeps [of _ "drop lb s" s lbs] by (cases "lb = l") (auto simp: Let_def)
qed simp

lemma helper_keeps: "c k \<noteq> None \<Longrightarrow> compressionLenHelper c s k \<noteq> None"
  unfolding compressionLenHelper_def by (rule helper_loop_keeps)

lemma helper_adds: "lb \<in> set (Split s) \<Longrightarrow> compressionLenHelper c s (drop lb s) \<noteq> None"
  unfolding compressionLenHelper_def by (rule helper_loop_adds) simp

lemma search_whole: "s \<noteq> '''' \<Longrightarrow> c s \<noteq> None \<Longrightarrow> compressionLenSearch c s = (length s, True)"
  by (simp add: compressionLenSearch_def compressionLenSearch_loop.simps)

lemma plain_length: "plain_labels ls \<Longrightarrow> length (present ls) = name_octets ls"
proof -
  have "length (key_of ls) = name_octets ls" by (induction ls) (simp_all add: name_octets_def string_of_def)
  then show "plain_labels ls \<Longrightarrow> length (present ls) = name_octets ls" using plain_key [of ls] by simp
qed

lemma plain_starts: "plain_labels ls \<Longrightarrow> 0 \<in> set (Split (present ls))"
proof -
  assume p: "plain_labels ls"
  have n: "name_labels (map string_of ls)"
    using plain_fqdn(2,3) [OF p] by (cases ls) (auto simp: name_labels_def)
  obtain l ls' where "ls = l # ls'" using p by (cases ls) (auto simp: plain_labels_def)
  then show ?thesis using Split_fqdn [OF n] plain_fqdn(1) [OF p] by simp
qed

lemma address_rr_len:
  assumes "address_rr name rr"
  shows "rr_len rr = Ok (length name + 11 + length (data_image (Rdata rr)))"
    "compressionLenSearchType c (Rdata rr) = (0, False)" "compressionLenHelperType c (Rdata rr) = c"
  using assms by (auto simp: address_rr_def rr_len_def len_defs header_len_def ip4_def To4_def)

lemma len_section_addresses:
  "name \<noteq> '''' \<Longrightarrow> list_all (address_rr name) rrs \<Longrightarrow> c name \<noteq> None \<Longrightarrow>
   \<exists>c'. len_section True rrs l c = Ok (l + int (length (concat (map compressed_record rrs))), c')"
proof (induction rrs arbitrary: l c)
  case (Cons rr rrs)
  have rr: "address_rr name rr" "list_all (address_rr name) rrs" using Cons.prems(2) by simp_all
  have n: "Name (Hdr rr) = name" using rr(1) by (simp add: address_rr_def)
  let ?n = "int (length (data_image (Rdata rr)))"
  have s: "saved (compressionLenSearch c name) = 1 - int (length name)"
    by (simp add: search_whole [of name c, OF Cons.prems(1,3)] saved_def)
  have step: "len_section True (rr # rrs) l c = len_section True rrs (l + 12 + ?n) (compressionLenHelper c name)"
    by (simp add: address_rr_len [OF rr(1)] n s Let_def) (simp add: saved_def add_ac)
  obtain c' where "len_section True rrs (l + 12 + ?n) (compressionLenHelper c name) =
      Ok (l + 12 + ?n + int (length (concat (map compressed_record rrs))), c')"
    using Cons.IH [of "compressionLenHelper c name" "l + 12 + ?n", OF Cons.prems(1) rr(2) helper_keeps [of c name name, OF Cons.prems(3)]] by blast
  moreover have "l + 12 + ?n + int (length (concat (map compressed_record rrs))) =
      l + int (length (concat (map compressed_record (rr # rrs))))"
    by simp
  ultimately show ?case unfolding step by metis
qed simp

text \<open>For a reply to an address query with compression, under a name without backslash, \<open>Len\<close> is
  exactly the number of octets that \<open>Pack\<close> writes.\<close>

theorem Len_compressed_reply:
  assumes a: "address_reply ls m"
  shows "Msg_Len m = Ok (int (length (compressed_message m)))"
proof -
  obtain q where q: "Questions m = [q]" "QName q = present ls" using a by (auto simp: address_reply_def)
  have m: "plain_labels ls" "Ns m = []" "Extra m = []" "Compress m" "list_all (address_rr (present ls)) (Answer m)"
    using a by (simp_all add: address_reply_def)
  have ne: "present ls \<noteq> ''''" using plain_key [OF m(1)] by auto
  let ?c = "compressionLenHelper Map.empty (present ls)"
  have "?c (present ls) \<noteq> None" using helper_adds [OF plain_starts [OF m(1)], of Map.empty] by simp
  from len_section_addresses [of "present ls" "Answer m" ?c, OF ne m(5) this]
  obtain c' where s: "len_section True (Answer m) (12 + int (Question_len q)) ?c =
      Ok (12 + int (Question_len q) + int (length (concat (map compressed_record (Answer m)))), c')" by blast
  have "Question_len q = length (wire_question q)"
    using plain_wire_name [OF m(1)] plain_length [OF m(1)] by (simp add: Question_len_def wire_question_def q)
  then show ?thesis
    using s by (simp add: Msg_Len_def compressedLen_def m q compressed_message_def wire_questions_def)
qed

end
