(* ===== verification/Dns_Build.thy ===== *)
theory Dns_Build
  imports Wire_Clen
begin

unbundle bit_operations_syntax

text \<open>
  The rest of \<open>defaults.go\<close> and \<open>dns.go\<close>: the builders of messages, the checks of records and
  messages, \<open>ReverseAddr\<close>, \<open>ToRFC3597\<close>, and \<open>Copy\<close> and \<open>CopyTo\<close> of messages (\<open>msg.go\<close>).  The random
  id of a message is an argument.  \<open>ToRFC3597\<close> is shown to keep the wire form of a record,
  \<open>ReverseAddr\<close> to give every address a name of its own, and \<open>CopyTo\<close> to keep the sections of the
  message it copies to when they are empty in the original.
\<close>

section \<open>Builders\<close>

definition SetQuestion :: "uint16 \<Rightarrow> string \<Rightarrow> uint16 \<Rightarrow> Msg \<Rightarrow> Msg" where
  "SetQuestion i z t dns =
     dns\<lparr>MsgId := i, RecursionDesired := True, Questions := [\<lparr>QName = z, Qtype = t, Qclass = ClassINET\<rparr>]\<rparr>"

definition SetNotify :: "uint16 \<Rightarrow> string \<Rightarrow> Msg \<Rightarrow> Msg" where
  "SetNotify i z dns =
     dns\<lparr>Opcode := OpcodeNotify, Authoritative := True, MsgId := i,
         Questions := [\<lparr>QName = z, Qtype = TypeSOA, Qclass = ClassINET\<rparr>]\<rparr>"

definition SetUpdate :: "uint16 \<Rightarrow> string \<Rightarrow> Msg \<Rightarrow> Msg" where
  "SetUpdate i z dns =
     dns\<lparr>MsgId := i, Response := False, Opcode := OpcodeUpdate, Compress := False,
         Questions := [\<lparr>QName = z, Qtype = TypeSOA, Qclass = ClassINET\<rparr>]\<rparr>"

definition defaultTtl :: uint32 where "defaultTtl = 3600"

definition SetIxfr :: "uint16 \<Rightarrow> string \<Rightarrow> uint32 \<Rightarrow> string \<Rightarrow> string \<Rightarrow> Msg \<Rightarrow> Msg" where
  "SetIxfr i z serial ns mbox dns =
     (let s = \<lparr>Hdr = \<lparr>Name = z, Rrtype = TypeSOA, Class = ClassINET, Ttl = defaultTtl, Rdlength = 0\<rparr>,
               Rdata = Std (RR_SOA ns mbox serial 0 0 0 0)\<rparr>
      in dns\<lparr>MsgId := i, Questions := [\<lparr>QName = z, Qtype = TypeIXFR, Qclass = ClassINET\<rparr>], Ns := [s]\<rparr>)"

definition SetAxfr :: "uint16 \<Rightarrow> string \<Rightarrow> Msg \<Rightarrow> Msg" where
  "SetAxfr i z dns =
     dns\<lparr>MsgId := i, Questions := [\<lparr>QName = z, Qtype = TypeAXFR, Qclass = ClassINET\<rparr>]\<rparr>"

definition SetTsig :: "string \<Rightarrow> string \<Rightarrow> uint16 \<Rightarrow> int \<Rightarrow> Msg \<Rightarrow> Msg" where
  "SetTsig z algo fudge timesigned dns =
     (let t = \<lparr>Hdr = \<lparr>Name = z, Rrtype = TypeTSIG, Class = ClassANY, Ttl = 0, Rdlength = 0\<rparr>,
               Rdata = Ext (RR_TSIG algo (word_of_int timesigned) fudge 0 '''' (MsgId dns) 0 0 '''')\<rparr>
      in dns\<lparr>Extra := Extra dns @ [t]\<rparr>)"

definition SetEdns0 :: "uint16 \<Rightarrow> bool \<Rightarrow> Msg \<Rightarrow> Msg" where
  "SetEdns0 udpsize do dns =
     (let h = OPT_SetUDPSize udpsize \<lparr>Name = ''.'', Rrtype = TypeOPT, Class = 0, Ttl = 0, Rdlength = 0\<rparr>;
          h = (if do then OPT_SetDo [] h else h)
      in dns\<lparr>Extra := Extra dns @ [\<lparr>Hdr = h, Rdata = Ext (RR_OPT [])\<rparr>]\<rparr>)"

section \<open>Checks\<close>

text \<open>The TSIG record at the end; the type assertion panics on another struct with that type.\<close>

fun is_tsig_struct :: "rdata \<Rightarrow> bool" where
  "is_tsig_struct (Ext (RR_TSIG algorithm timeSigned fudge macSize mac origId err otherLen otherData)) = True"
| "is_tsig_struct d = False"

definition IsTsig :: "Msg \<Rightarrow> RR option outcome" where
  "IsTsig dns =
     (if length (Extra dns) > 0 then
        let rr = Extra dns ! (length (Extra dns) - 1)
        in if Rrtype (Hdr rr) = TypeTSIG then
             (if is_tsig_struct (Rdata rr) then Ok (Some rr)
              else Panic (ExplicitPanic ''interface conversion''))
           else Ok None
      else Ok None)"

definition IsMsg :: "byte list \<Rightarrow> go_error option" where
  "IsMsg buf = (if length buf < 12 then Some (Error ''dns: bad message header'') else None)"

primrec IsRRset_loop :: "uint16 \<Rightarrow> uint16 \<Rightarrow> string \<Rightarrow> RR list \<Rightarrow> bool" where
  "IsRRset_loop rrType rrClass rrName [] \<longleftrightarrow> True"
| "IsRRset_loop rrType rrClass rrName (rr # rrs) \<longleftrightarrow>
     (if Rrtype (Hdr rr) \<noteq> rrType \<or> Class (Hdr rr) \<noteq> rrClass \<or> Name (Hdr rr) \<noteq> rrName then False
      else IsRRset_loop rrType rrClass rrName rrs)"

definition IsRRset :: "RR list \<Rightarrow> bool" where
  "IsRRset rrset \<longleftrightarrow>
     (if length rrset = 0 then False
      else if length rrset = 1 then True
      else (let h = Hdr (rrset ! 0) in IsRRset_loop (Rrtype h) (Class h) (Name h) (drop 1 rrset)))"

section \<open>Names of addresses\<close>

text \<open>The loop from the last byte to the first; a byte gives its low digit first.\<close>

primrec reverse_nibbles :: "byte list \<Rightarrow> string" where
  "reverse_nibbles [] = ''''"
| "reverse_nibbles (v # vs) =
     hex_digit (unat (v AND 0xF)) # CHR ''.'' # hex_digit (unat (drop_bit 4 v)) # CHR ''.'' # reverse_nibbles vs"

definition ReverseAddr :: "string \<Rightarrow> string outcome" where
  "ReverseAddr addr =
     (case ParseIP addr of
        None \<Rightarrow> Err (Error (''unrecognized address: '' @ addr))
      | Some ip \<Rightarrow>
          if To4 ip \<noteq> None then
            Ok (Itoa (unat (ip ! 15)) @ ''.'' @ Itoa (unat (ip ! 14)) @ ''.'' @ Itoa (unat (ip ! 13)) @ ''.'' @
                Itoa (unat (ip ! 12)) @ ''.in-addr.arpa.'')
          else Ok (reverse_nibbles (rev ip) @ ''ip6.arpa.''))"

section \<open>Unknown records\<close>

text \<open>\<open>rr.ToRFC3597(r)\<close>: the new value of \<open>*rr\<close>.\<close>

definition ToRFC3597 :: "RR \<Rightarrow> RR outcome" where
  "ToRFC3597 r =
     obind (rr_len r) (\<lambda>n.
     obind (PackRR r False \<lparr>pmsg = replicate (n * 2) 0, poff = 0, pcomp = None\<rparr>) (\<lambda>(r, b).
     let off = poff b in
     obind (go_slice (pmsg b) 0 (int off)) (\<lambda>buf.
     if unat (Rdlength (Hdr r)) > off then Err ErrBuf
     else
       obind (unpackRFC3597 (Hdr r) buf (off - unat (Rdlength (Hdr r)))) (\<lambda>(d, off).
         Ok \<lparr>Hdr = Hdr r, Rdata = Ext d\<rparr>))))"

section \<open>Copies\<close>

text \<open>An empty section is not copied, and \<open>r1\<close> keeps its own.\<close>

definition Msg_CopyTo :: "Msg \<Rightarrow> Msg \<Rightarrow> Msg" where
  "Msg_CopyTo dns r1 =
     (let r1 = r1\<lparr>MsgId := MsgId dns, Response := Response dns, Opcode := Opcode dns,
                  Authoritative := Authoritative dns, Truncated := Truncated dns,
                  RecursionDesired := RecursionDesired dns, RecursionAvailable := RecursionAvailable dns,
                  Zero := Zero dns, AuthenticatedData := AuthenticatedData dns,
                  CheckingDisabled := CheckingDisabled dns, Rcode := Rcode dns\<rparr>;
          r1 = r1\<lparr>Compress := Compress dns\<rparr>;
          r1 = (if length (Questions dns) > 0 then r1\<lparr>Questions := Questions dns\<rparr> else r1);
          r1 = (if length (Answer dns) > 0 then r1\<lparr>Answer := map rr_copy (Answer dns)\<rparr> else r1);
          r1 = (if length (Ns dns) > 0 then r1\<lparr>Ns := map rr_copy (Ns dns)\<rparr> else r1);
          r1 = (if length (Extra dns) > 0 then r1\<lparr>Extra := map rr_copy (Extra dns)\<rparr> else r1)
      in r1)"

definition Msg_Copy :: "Msg \<Rightarrow> Msg" where
  "Msg_Copy dns = Msg_CopyTo dns new_Msg"

section \<open>Unknown records keep the wire form\<close>

text \<open>The record with the same header and the data in hexadecimal.\<close>

definition unknown_record :: "RR \<Rightarrow> RR" where
  "unknown_record rr =
     \<lparr>Hdr = full_header rr, Rdata = Ext (RR_RFC3597 (hex_EncodeToString (data_image (Rdata rr))))\<rparr>"

lemma unknown_image: "data_image (Rdata (unknown_record rr)) = data_image (Rdata rr)"
  "data_valid (Rdata (unknown_record rr))" "Name (Hdr (unknown_record rr)) = Name (Hdr rr)"
  "full_header (unknown_record rr) = full_header rr" "wire_record (unknown_record rr) = wire_record rr"
  by (simp_all add: unknown_record_def hex.canonical_enc hex.bytes_enc full_header_def wire_record_def)

lemma ToRFC3597_unknown:
  assumes v: "record_valid rr" and r: "roomy (Rdata rr)"
  shows "ToRFC3597 rr = Ok (unknown_record rr)"
proof -
  let ?i = "data_image (Rdata rr)" and ?w = "wire_record rr"
  define h where "h = full_header rr"
  have v': "valid_name (Name (Hdr rr))" "length ?i < 65536" using v by (simp_all add: record_valid_def)
  obtain n where n: "rr_len rr = Ok n" "length ?w \<le> n" using rr_len_bound [OF v r] by blast
  let ?b = "\<lparr>pmsg = replicate (n * 2) (0 :: byte), poff = 0, pcomp = None\<rparr>"
  have f: "fits ?w ?b" "fresh ?b" using n(2) by (auto simp: fits_def fresh_def list_all_iff)
  have p: "PackRR rr False ?b = Ok (rr\<lparr>Hdr := h\<rparr>, emit ?w ?b)"
    unfolding h_def by (rule PackRR_emit [OF v _ f(2,1)]) simp
  have s: "go_slice (pmsg (emit ?w ?b)) 0 (int (length ?w)) = Ok ?w"
    using n(2) by (simp add: emit_def put_def go_slice_prefix)
  have l: "unat (Rdlength h) = length ?i"
    using v'(2) by (simp add: h_def full_header_def unat_of_nat take_bit_nat_eq_self)
  let ?off = "length (wire_header h)"
  have w: "?w = wire_header h @ ?i" by (simp add: wire_record_def h_def)
  have at: "bytes_at ?w ?off ?i" "length ?w = ?off + length ?i" by (simp_all add: w bytes_at_def)
  have "unpackRFC3597 h ?w ?off = Ok (RR_RFC3597 (hex_EncodeToString ?i), length ?w)"
    using ext_reads [of "RR_RFC3597 (hex_EncodeToString ?i)" ?w ?off h] at l
    by (simp add: hex.canonical_enc hex.bytes_enc)
  then show ?thesis
    using at(2) l s by (simp add: ToRFC3597_def n(1) p unknown_record_def h_def [symmetric] emit_def)
qed

text \<open>C20: \<open>ToRFC3597\<close> accepts every valid record and gives one of the generic form of RFC 3597 that is packed
  into the same bytes.\<close>

theorem ToRFC3597_same_wire:
  assumes "record_valid rr" "roomy (Rdata rr)" "pcomp b = None" "fresh b" "fits (wire_record rr) b"
  shows "\<exists>r s. ToRFC3597 rr = Ok r \<and> Rdata r = Ext (RR_RFC3597 s) \<and>
    map_ok snd (PackRR r False b) = map_ok snd (PackRR rr False b)"
proof -
  have "PackRR (unknown_record rr) False b =
      Ok ((unknown_record rr)\<lparr>Hdr := full_header (unknown_record rr)\<rparr>, emit (wire_record (unknown_record rr)) b)"
    by (rule PackRR_writes) (use assms in \<open>simp_all add: unknown_image record_valid_def\<close>)
  moreover have "PackRR rr False b = Ok (rr\<lparr>Hdr := full_header rr\<rparr>, emit (wire_record rr) b)"
    by (rule PackRR_emit) (use assms in simp_all)
  moreover have "ToRFC3597 rr = Ok (unknown_record rr)" by (rule ToRFC3597_unknown [OF assms(1,2)])
  ultimately show ?thesis by (auto simp: unknown_image) (simp add: unknown_record_def)
qed

definition loopback_record :: RR where
  "loopback_record =
     \<lparr>Hdr = \<lparr>Name = ''a.b.'', Rrtype = TypeAAAA, Class = ClassINET, Ttl = 60, Rdlength = 0\<rparr>,
      Rdata = Std (RR_AAAA (replicate 15 0 @ [1]))\<rparr>"

theorem ToRFC3597_same_wire_witness:
  "\<exists>r s. ToRFC3597 loopback_record = Ok r \<and> Rdata r = Ext (RR_RFC3597 s)"
proof -
  let ?b = "\<lparr>pmsg = replicate 40 (0 :: byte), poff = 0, pcomp = None\<rparr>"
  have "record_valid loopback_record" "roomy (Rdata loopback_record)" "length (wire_record loopback_record) \<le> 40" by code_simp+
  then show ?thesis
    using ToRFC3597_same_wire [of loopback_record ?b] by (auto simp: fresh_def fits_def list_all_iff)
qed

section \<open>Copies are packed as the original\<close>

lemma Msg_Copy_sections:
  "Msg_Copy m = m\<lparr>Answer := map rr_copy (Answer m), Ns := map rr_copy (Ns m), Extra := map rr_copy (Extra m)\<rparr>"
  by (simp add: Msg_Copy_def Msg_CopyTo_def new_Msg_def Let_def)

lemma PackRR_copy: "PackRR (rr_copy rr) c b = map_ok (\<lambda>(r, b). (rr_copy r, b)) (PackRR rr c b)"
proof -
  have "rr_pack (rr_copy rr) c b = map_ok (\<lambda>(r, b). (rr_copy r, b)) (rr_pack rr c b)"
    by (cases "pack_data (Rdata rr) (Hdr rr) c b") (auto simp: rr_pack_def rr_copy_def copy_pack)
  then show ?thesis
    by (cases "rr_pack rr c b") (auto simp: PackRR_def split: option.splits prod.splits)
qed

lemma pack_rrs_copy: "pack_rrs (map rr_copy rrs) c b = map_ok (\<lambda>(rs, b). (map rr_copy rs, b)) (pack_rrs rrs c b)"
proof (induction rrs arbitrary: b)
  case (Cons rr rrs)
  show ?case
  proof (cases "PackRR rr c b")
    case (Ok r)
    obtain r1 b1 where r: "r = (r1, b1)" by fastforce
    show ?thesis
      using Cons.IH [of b1] by (cases "pack_rrs rrs c b1") (auto simp: PackRR_copy Ok r)
  qed (simp_all add: PackRR_copy)
qed simp

lemma sum_lens_copy: "sum_lens (map rr_copy rrs) = sum_lens rrs"
  by (induction rrs) (simp_all add: rr_len_def rr_copy_def copy_len)


lemma IsEdns0_copy: "IsEdns0_loop (map rr_copy extra) i = IsEdns0_loop extra i" if "i \<le> length extra"
proof -
  have "is_opt_struct (data_copy d) = is_opt_struct d" for d
  proof (cases d)
    case (Std e)
    then show ?thesis by simp
  next
    case (Sec e)
    then show ?thesis by simp
  next
    case (Ext e)
    then show ?thesis by (cases e) simp_all
  qed
  then show ?thesis using that by (induction i) (simp_all add: rr_copy_def)
qed

lemma IsEdns0_bound: "IsEdns0_loop extra i = Ok (Some k) \<Longrightarrow> k < i"
  by (induction i) (auto split: if_splits)

lemma extend_rcode_copy: "extend_rcode (Msg_Copy m) = map_ok Msg_Copy (extend_rcode m)"
proof -
  have i: "IsEdns0 (Msg_Copy m) = IsEdns0 m"
    by (simp add: IsEdns0_def Msg_Copy_sections IsEdns0_copy)
  show ?thesis
  proof (cases "IsEdns0 m")
    case (Ok opt)
    have "k < length (Extra m)" if "opt = Some k" for k
      using IsEdns0_bound that Ok by (simp add: IsEdns0_def)
    then show ?thesis unfolding extend_rcode_def i Ok
      by (cases opt; cases m) (auto simp: Msg_Copy_sections Let_def rr_copy_def map_update)
  qed (simp_all only: extend_rcode_def i, simp_all add: Msg_Copy_sections)
qed

lemma obind_map_ok: "obind (map_ok f m) g = obind m (\<lambda>x. g (f x))"
  by (cases m) simp_all

lemma pack_sections_copy:
  "pack_sections (Msg_Copy m) b = map_ok (\<lambda>(m, b). (Msg_Copy m, b)) (pack_sections m b)"
proof -
  have h: "message_header (Msg_Copy m) = message_header m"
    by (simp add: Msg_Copy_sections message_header_def header_bits_def)
  show ?thesis unfolding pack_sections_def h
    by (simp add: Msg_Copy_sections pack_rrs_copy Let_def obind_map_ok map_ok_obind split_def)
qed

text \<open>C19: A copy of a message, whatever it holds, is packed into the same bytes or fails in the same way.\<close>

theorem Pack_Copy: "Pack (Msg_Copy m) = map_ok (\<lambda>(w, m). (w, Msg_Copy m)) (Pack m)"
proof -
  have len: "uncompressedLen (Msg_Copy m) = uncompressedLen m" for m
    by (simp add: uncompressedLen_def Msg_Copy_sections sum_lens_copy)
  have f: "Rcode (Msg_Copy m) = Rcode m" "Compress (Msg_Copy m) = Compress m" for m
    by (simp_all add: Msg_Copy_sections)
  show ?thesis
    by (simp add: Pack_def PackBuffer_def f extend_rcode_copy obind_map_ok map_ok_obind len Let_def
        pack_sections_copy split_def cong: if_cong)
qed

section \<open>Names of addresses\<close>

lemma hex_digit_inj: "a < 16 \<Longrightarrow> b < 16 \<Longrightarrow> hex_digit a = hex_digit b \<Longrightarrow> a = b"
  by (metis hex_val_hex_digit option.inject)

lemma byte_nibbles:
  assumes "v AND 0xF = w AND 0xF" "drop_bit 4 v = drop_bit 4 w"
  shows "v = (w :: byte)"
proof (rule bit_word_eqI)
  fix n assume "n < LENGTH(8)"
  show "bit v n \<longleftrightarrow> bit w n"
  proof (cases "n < 4")
    case True
    then have "bit (0xF :: byte) n" by (auto simp: bit_numeral_rec less_Suc_eq numeral_eq_Suc)
    then show ?thesis using arg_cong [OF assms(1), of "\<lambda>x. bit x n"] by (simp add: bit_and_iff)
  next
    case False
    then show ?thesis using arg_cong [OF assms(2), of "\<lambda>x. bit x (n - 4)"] by (simp add: bit_drop_bit_eq)
  qed
qed

lemma reverse_nibbles_inj:
  "reverse_nibbles vs @ s = reverse_nibbles ws @ s \<Longrightarrow> length vs = length ws \<Longrightarrow> vs = ws"
proof (induction vs ws rule: list_induct2')
  case (4 v vs w ws)
  have lo: "unat (x AND 0xF) < 16" "unat (drop_bit 4 x) < 16" for x :: byte
  proof -
    have "x AND 0xF \<le> 0xF" by (rule word_and_le1)
    then show "unat (x AND 0xF) < 16" by (simp add: word_le_nat_alt)
    have "unat x < 256" by (rule unat_byte_less)
    then show "unat (drop_bit 4 x) < 16" unfolding unat_drop_bit_eq unfolding drop_bit_eq_div by (simp add: less_mult_imp_div_less)
  qed
  from 4(2) have d: "hex_digit (unat (v AND 0xF)) = hex_digit (unat (w AND 0xF))"
    "hex_digit (unat (drop_bit 4 v)) = hex_digit (unat (drop_bit 4 w))" by simp_all
  have "unat (v AND 0xF) = unat (w AND 0xF)" by (rule hex_digit_inj [OF lo(1) lo(1) d(1)])
  moreover have "unat (drop_bit 4 v) = unat (drop_bit 4 w)" by (rule hex_digit_inj [OF lo(2) lo(2) d(2)])
  ultimately have "v = w" by (rule byte_nibbles [OF iffD2 [OF word_unat_eq_iff] iffD2 [OF word_unat_eq_iff]])
  then show ?case using 4 by simp
qed simp_all

definition reverse_dotted :: "byte list \<Rightarrow> string" where
  "reverse_dotted p = join_with CHR ''.'' (map (\<lambda>b. Itoa (unat b)) (rev p))"

lemma reverse_dotted_inj:
  assumes "reverse_dotted p = reverse_dotted q" "length p = length q"
  shows "p = q"
proof -
  have "split_on CHR ''.'' (reverse_dotted x) = map (\<lambda>b. Itoa (unat b)) (rev x)" if "x \<noteq> []" for x :: "byte list"
    unfolding reverse_dotted_def using that by (intro split_join) auto
  then have "map (\<lambda>b. Itoa (unat b)) (rev p) = map (\<lambda>b. Itoa (unat b)) (rev q)"
    using assms by (cases "p = []"; cases "q = []") (simp_all, metis)
  then have "map (dec_val_from 0) (map (\<lambda>b. Itoa (unat b)) (rev p)) = map (dec_val_from 0) (map (\<lambda>b. Itoa (unat b)) (rev q))"
    by (rule arg_cong)
  then have "map unat (rev p) = map unat (rev q)" by (simp add: comp_def)
  then have "rev p = rev q" by (rule map_injective) (simp add: inj_def word_unat_eq_iff)
  then show ?thesis by simp
qed

lemma reverse_dotted_v4:
  assumes "length p = 4"
  shows "reverse_dotted p =
    Itoa (unat (p ! 3)) @ ''.'' @ Itoa (unat (p ! 2)) @ ''.'' @ Itoa (unat (p ! 1)) @ ''.'' @ Itoa (unat (p ! 0))"
proof -
  obtain a b c d where "p = [a, b, c, d]" using assms by (auto simp: length_Suc_conv numeral_eq_Suc)
  then show ?thesis by (simp add: reverse_dotted_def)
qed

lemma ReverseAddr_name:
  assumes "length ip = 16"
  shows "ReverseAddr (IP_String (Some ip)) =
    Ok (case To4 ip of Some p \<Rightarrow> reverse_dotted p @ ''.in-addr.arpa.''
        | None \<Rightarrow> reverse_nibbles (rev ip) @ ''ip6.arpa.'')"
proof (cases "To4 ip")
  case (Some p)
  then have p: "length p = 4" "ip = v4InV6Prefix @ p" using To4_SomeD assms by fastforce+
  have "ip ! 15 = p ! 3" "ip ! 14 = p ! 2" "ip ! 13 = p ! 1" "ip ! 12 = p ! 0"
    by (simp_all add: p(2) nth_append v4InV6Prefix_def)
  then show ?thesis using Some by (simp add: ReverseAddr_def ParseIP_String [OF assms] reverse_dotted_v4 [OF p(1)])
qed (simp add: ReverseAddr_def ParseIP_String [OF assms])

text \<open>Every address has a name of its own: two printed addresses that differ have different names.\<close>

theorem ReverseAddr_inj:
  assumes "length ip = 16" "length ip' = 16" "ip \<noteq> ip'"
  shows "ReverseAddr (IP_String (Some ip)) \<noteq> ReverseAddr (IP_String (Some ip'))"
proof
  assume eq: "ReverseAddr (IP_String (Some ip)) = ReverseAddr (IP_String (Some ip'))"
  have nibbles: "reverse_nibbles vs @ ''ip6.arpa.'' \<noteq> w @ ''.in-addr.arpa.''" for vs w
  proof
    assume "reverse_nibbles vs @ ''ip6.arpa.'' = w @ ''.in-addr.arpa.''"
    from arg_cong [OF this, of rev] show False by simp
  qed
  note names = ReverseAddr_name [OF assms(1)] ReverseAddr_name [OF assms(2)]
  consider (v4) p q where "To4 ip = Some p" "To4 ip' = Some q" | (v6) "To4 ip = None" "To4 ip' = None"
    | (mixed) p where "To4 ip = Some p" "To4 ip' = None" | (mixed') p where "To4 ip = None" "To4 ip' = Some p"
    by (cases "To4 ip"; cases "To4 ip'") auto
  then have "ip = ip'"
  proof cases
    case v4
    have ips: "ip = v4InV6Prefix @ p" "length p = 4" "ip' = v4InV6Prefix @ q" "length q = 4"
      using To4_SomeD [OF v4(1)] To4_SomeD [OF v4(2)] assms(1,2) by auto
    have "reverse_dotted p = reverse_dotted q" using eq names v4 by simp
    then show ?thesis using ips by (simp add: reverse_dotted_inj)
  next
    case v6
    then have "reverse_nibbles (rev ip) = reverse_nibbles (rev ip')" using eq names by simp
    then have "rev ip = rev ip'" using reverse_nibbles_inj [of "rev ip" "[]" "rev ip'"] assms(1,2) by simp
    then show ?thesis by simp
  next
    case mixed
    then show ?thesis using eq names nibbles [of "rev ip'" "reverse_dotted p"] by simp
  next
    case mixed'
    then show ?thesis using eq names nibbles [of "rev ip" "reverse_dotted p"] by simp
  qed
  with assms(3) show False by contradiction
qed

theorem ReverseAddr_inj_witness:
  "ReverseAddr (IP_String (Some (v4InV6Prefix @ [10, 0, 0, 1]))) \<noteq>
   ReverseAddr (IP_String (Some (v4InV6Prefix @ [10, 0, 0, 2])))"
  using ReverseAddr_inj [of "v4InV6Prefix @ [10, 0, 0, 1]" "v4InV6Prefix @ [10, 0, 0, 2]"]
  by (simp add: v4InV6Prefix_def)

end
