(* ===== verification/Dns_Update.thy ===== *)
theory Dns_Update
  imports Dns_Build
begin

text \<open>
  Dynamic updates (\<open>update.go\<close>, RFC 2136).  An \<open>RR\<close> is a pointer, and some of the builders change
  the records they are given, so that a record in two sections changes in both.  Here the records
  are in a store and the sections of an update hold their addresses; a new record is put at the end
  of the store.
\<close>

type_synonym rr_store = "RR list"

record Update =
  UQuestion :: "Question list"
  UAnswer :: "nat list"
  UNs :: "nat list"

section \<open>The builders\<close>

text \<open>\<open>&ANY{Hdr: RR_Header{Name: name, Ttl: 0, Rrtype: t, Class: c}}\<close>\<close>

definition any_rr :: "string \<Rightarrow> uint16 \<Rightarrow> uint16 \<Rightarrow> RR" where
  "any_rr name t c = \<lparr>Hdr = \<lparr>Name = name, Rrtype = t, Class = c, Ttl = 0, Rdlength = 0\<rparr>, Rdata = Std RR_ANY\<rparr>"

text \<open>The loop that appends a new record for each of \<open>rr\<close>, and the one that changes each and appends it.\<close>

primrec append_new :: "(RR_Header \<Rightarrow> RR) \<Rightarrow> nat list \<Rightarrow> rr_store \<Rightarrow> nat list \<Rightarrow> rr_store \<times> nat list" where
  "append_new f [] st sec = (st, sec)"
| "append_new f (r # rr) st sec = append_new f rr (st @ [f (Hdr (st ! r))]) (sec @ [length st])"

primrec append_set :: "(RR_Header \<Rightarrow> RR_Header) \<Rightarrow> nat list \<Rightarrow> rr_store \<Rightarrow> nat list \<Rightarrow> rr_store \<times> nat list" where
  "append_set f [] st sec = (st, sec)"
| "append_set f (r # rr) st sec =
     append_set f rr (st[r := (st ! r)\<lparr>Hdr := f (Hdr (st ! r))\<rparr>]) (sec @ [r])"

definition NameUsed :: "nat list \<Rightarrow> rr_store \<times> Update \<Rightarrow> rr_store \<times> Update" where
  "NameUsed rr = (\<lambda>(st, u).
     let (st, an) = append_new (\<lambda>h. any_rr (Name h) TypeANY ClassANY) rr st (UAnswer u)
     in (st, u\<lparr>UAnswer := an\<rparr>))"

definition NameNotUsed :: "nat list \<Rightarrow> rr_store \<times> Update \<Rightarrow> rr_store \<times> Update" where
  "NameNotUsed rr = (\<lambda>(st, u).
     let (st, an) = append_new (\<lambda>h. any_rr (Name h) TypeANY ClassNONE) rr st (UAnswer u)
     in (st, u\<lparr>UAnswer := an\<rparr>))"

definition Used :: "nat list \<Rightarrow> rr_store \<times> Update \<Rightarrow> (rr_store \<times> Update) outcome" where
  "Used rr = (\<lambda>(st, u).
     if length (UQuestion u) = 0 then Panic (ExplicitPanic ''dns: empty question section'')
     else
       let (st, an) = append_set (\<lambda>h. h\<lparr>Class := Qclass (UQuestion u ! 0)\<rparr>) rr st (UAnswer u)
       in Ok (st, u\<lparr>UAnswer := an\<rparr>))"

definition RRsetUsed :: "nat list \<Rightarrow> rr_store \<times> Update \<Rightarrow> rr_store \<times> Update" where
  "RRsetUsed rr = (\<lambda>(st, u).
     let (st, an) = append_new (\<lambda>h. any_rr (Name h) (Rrtype h) ClassANY) rr st (UAnswer u)
     in (st, u\<lparr>UAnswer := an\<rparr>))"

definition RRsetNotUsed :: "nat list \<Rightarrow> rr_store \<times> Update \<Rightarrow> rr_store \<times> Update" where
  "RRsetNotUsed rr = (\<lambda>(st, u).
     let (st, an) = append_new (\<lambda>h. any_rr (Name h) (Rrtype h) ClassNONE) rr st (UAnswer u)
     in (st, u\<lparr>UAnswer := an\<rparr>))"

definition Insert :: "nat list \<Rightarrow> rr_store \<times> Update \<Rightarrow> (rr_store \<times> Update) outcome" where
  "Insert rr = (\<lambda>(st, u).
     if length (UQuestion u) = 0 then Panic (ExplicitPanic ''dns: empty question section'')
     else
       let (st, ns) = append_set (\<lambda>h. h\<lparr>Class := Qclass (UQuestion u ! 0)\<rparr>) rr st (UNs u)
       in Ok (st, u\<lparr>UNs := ns\<rparr>))"

definition RemoveRRset :: "nat list \<Rightarrow> rr_store \<times> Update \<Rightarrow> rr_store \<times> Update" where
  "RemoveRRset rr = (\<lambda>(st, u).
     let (st, ns) = append_new (\<lambda>h. any_rr (Name h) (Rrtype h) ClassANY) rr st (UNs u)
     in (st, u\<lparr>UNs := ns\<rparr>))"

definition RemoveName :: "nat list \<Rightarrow> rr_store \<times> Update \<Rightarrow> rr_store \<times> Update" where
  "RemoveName rr = (\<lambda>(st, u).
     let (st, ns) = append_new (\<lambda>h. any_rr (Name h) TypeANY ClassANY) rr st (UNs u)
     in (st, u\<lparr>UNs := ns\<rparr>))"

definition Remove :: "nat list \<Rightarrow> rr_store \<times> Update \<Rightarrow> rr_store \<times> Update" where
  "Remove rr = (\<lambda>(st, u).
     let (st, ns) = append_set (\<lambda>h. h\<lparr>Class := ClassNONE, Ttl := 0\<rparr>) rr st (UNs u)
     in (st, u\<lparr>UNs := ns\<rparr>))"

section \<open>What the sections hold\<close>

definition records :: "rr_store \<Rightarrow> nat list \<Rightarrow> RR list" where
  "records st sec = map (\<lambda>a. st ! a) sec"

definition within :: "rr_store \<Rightarrow> nat list \<Rightarrow> bool" where
  "within st sec \<longleftrightarrow> list_all (\<lambda>a. a < length st) sec"

definition set_header :: "(RR_Header \<Rightarrow> RR_Header) \<Rightarrow> RR \<Rightarrow> RR" where
  "set_header f rr = rr\<lparr>Hdr := f (Hdr rr)\<rparr>"

lemma within_append [simp]: "within st (sec @ sec') \<longleftrightarrow> within st sec \<and> within st sec'"
  by (simp add: within_def)

lemma records_append [simp]: "records st (sec @ sec') = records st sec @ records st sec'"
  by (simp add: records_def)

lemma within_grow: "within st sec \<Longrightarrow> within (st @ st') sec \<and> records (st @ st') sec = records st sec"
  by (auto simp: within_def records_def list_all_iff nth_append)

lemma append_new_eq:
  "within st rr \<Longrightarrow>
   append_new f rr st sec =
     (st @ map (\<lambda>r. f (Hdr r)) (records st rr), sec @ [length st ..< length st + length rr])"
proof (induction rr arbitrary: st sec)
  case (Cons r rr)
  have w: "within st rr" "r < length st" using Cons.prems by (simp_all add: within_def)
  have "[length st ..< length st + length (r # rr)] = length st # [Suc (length st) ..< Suc (length st) + length rr]"
    by (simp add: upt_rec)
  then show ?case
    using Cons.IH [of "st @ [f (Hdr (st ! r))]" "sec @ [length st]"] within_grow [OF w(1)]
    by (simp add: records_def)
qed (simp add: records_def)

text \<open>A builder that makes new records changes none of the others.\<close>

lemma append_new_records:
  assumes "within st rr" "within st sec" "append_new f rr st sec = (st', sec')"
  shows "records st' sec' = records st sec @ map (\<lambda>r. f (Hdr r)) (records st rr)"
    "within st other \<Longrightarrow> records st' other = records st other"
proof -
  have st: "st' = st @ map (\<lambda>r. f (Hdr r)) (records st rr)" "sec' = sec @ [length st ..< length st + length rr]"
    using append_new_eq [OF assms(1), of f sec] assms(3) by simp_all
  show "within st other \<Longrightarrow> records st' other = records st other" using within_grow by (simp add: st)
  have "records st' [length st ..< length st + length rr] = map (\<lambda>r. f (Hdr r)) (records st rr)"
    by (intro nth_equalityI) (simp_all add: records_def st nth_append)
  then show "records st' sec' = records st sec @ map (\<lambda>r. f (Hdr r)) (records st rr)"
    using within_grow [OF assms(2)] by (simp add: st)
qed

text \<open>One that changes its records changes them everywhere.\<close>

lemma append_set_eq:
  "within st rr \<Longrightarrow> distinct rr \<Longrightarrow> append_set f rr st sec = (st', sec') \<Longrightarrow>
   sec' = sec @ rr \<and> length st' = length st \<and>
   (\<forall>a < length st. st' ! a = (if a \<in> set rr then set_header f (st ! a) else st ! a))"
proof (induction rr arbitrary: st sec)
  case (Cons r rr)
  have "within (st[r := set_header f (st ! r)]) rr" "r < length st"
    using Cons.prems(1) by (simp_all add: within_def)
  then show ?case
    using Cons.IH [of "st[r := set_header f (st ! r)]" "sec @ [r]"] Cons.prems
    by (auto simp: set_header_def nth_list_update)
qed simp

lemma append_set_records:
  assumes "within st rr" "distinct rr" "within st sec" "append_set f rr st sec = (st', sec')"
  shows "sec' = sec @ rr" "length st' = length st" "within st other \<Longrightarrow> records st' other =
    map (\<lambda>a. if a \<in> set rr then set_header f (st ! a) else st ! a) other"
  using append_set_eq [OF assms(1,2,4)] by (auto simp: records_def within_def list_all_iff)

section \<open>Properties\<close>

text \<open>The table of RFC 2136, sections 2.4 and 2.5: the section a builder writes to, and what the RFC asks for
  in it for a record when the zone has class \<open>z\<close>.  The TTL is zero in all prerequisites, also in the
  one that lists the data of a record set (section 2.4.2); only an addition (section 2.5.1) has one.\<close>

datatype builder = B_NameUsed | B_NameNotUsed | B_Used | B_RRsetUsed | B_RRsetNotUsed
  | B_Insert | B_RemoveRRset | B_RemoveName | B_Remove

primrec build :: "builder \<Rightarrow> nat list \<Rightarrow> rr_store \<times> Update \<Rightarrow> (rr_store \<times> Update) outcome" where
  "build B_NameUsed rr s = Ok (NameUsed rr s)"
| "build B_NameNotUsed rr s = Ok (NameNotUsed rr s)"
| "build B_Used rr s = Used rr s"
| "build B_RRsetUsed rr s = Ok (RRsetUsed rr s)"
| "build B_RRsetNotUsed rr s = Ok (RRsetNotUsed rr s)"
| "build B_Insert rr s = Insert rr s"
| "build B_RemoveRRset rr s = Ok (RemoveRRset rr s)"
| "build B_RemoveName rr s = Ok (RemoveName rr s)"
| "build B_Remove rr s = Ok (Remove rr s)"

definition prerequisite :: "builder \<Rightarrow> bool" where
  "prerequisite b \<longleftrightarrow> b \<in> {B_NameUsed, B_NameNotUsed, B_Used, B_RRsetUsed, B_RRsetNotUsed}"

primrec rfc2136 :: "builder \<Rightarrow> uint16 \<Rightarrow> RR \<Rightarrow> RR" where
  "rfc2136 B_NameUsed z r = any_rr (Name (Hdr r)) TypeANY ClassANY"
| "rfc2136 B_NameNotUsed z r = any_rr (Name (Hdr r)) TypeANY ClassNONE"
| "rfc2136 B_Used z r = r\<lparr>Hdr := (Hdr r)\<lparr>Class := z, Ttl := 0\<rparr>\<rparr>"
| "rfc2136 B_RRsetUsed z r = any_rr (Name (Hdr r)) (Rrtype (Hdr r)) ClassANY"
| "rfc2136 B_RRsetNotUsed z r = any_rr (Name (Hdr r)) (Rrtype (Hdr r)) ClassNONE"
| "rfc2136 B_Insert z r = r\<lparr>Hdr := (Hdr r)\<lparr>Class := z\<rparr>\<rparr>"
| "rfc2136 B_RemoveRRset z r = any_rr (Name (Hdr r)) (Rrtype (Hdr r)) ClassANY"
| "rfc2136 B_RemoveName z r = any_rr (Name (Hdr r)) TypeANY ClassANY"
| "rfc2136 B_Remove z r = r\<lparr>Hdr := (Hdr r)\<lparr>Class := ClassNONE, Ttl := 0\<rparr>\<rparr>"

text \<open>What the builders leave in the message: \<open>Used\<close> sets the class and forgets the TTL, so that its record
  is the RFC's one only where the TTL was zero before.\<close>

definition built :: "builder \<Rightarrow> uint16 \<Rightarrow> RR \<Rightarrow> RR" where
  "built b z r = (if b = B_Used then set_header (\<lambda>h. h\<lparr>Ttl := Ttl (Hdr r)\<rparr>) (rfc2136 b z r) else rfc2136 b z r)"

lemma built_is_rfc: "built b z r = rfc2136 b z r \<longleftrightarrow> b \<noteq> B_Used \<or> Ttl (Hdr r) = 0"
proof -
  obtain h d where "r = \<lparr>Hdr = h, Rdata = d\<rparr>" by (cases r)
  moreover obtain n ty c t l where "h = \<lparr>Name = n, Rrtype = ty, Class = c, Ttl = t, Rdlength = l\<rparr>" by (cases h)
  ultimately show ?thesis by (cases b) (auto simp: built_def set_header_def)
qed

text \<open>A record with a TTL makes a prerequisite that is not the one of the RFC.\<close>

lemma used_keeps_ttl:
  "\<exists>st' u'. Used [0] ([loopback_record], \<lparr>UQuestion = [\<lparr>QName = ''b.'', Qtype = TypeSOA, Qclass = ClassINET\<rparr>],
       UAnswer = [], UNs = []\<rparr>) = Ok (st', u') \<and>
     records st' (UAnswer u') = [loopback_record] \<and> rfc2136 B_Used ClassINET loopback_record \<noteq> loopback_record"
  by (auto simp: Used_def records_def loopback_record_def)

lemma append_set_apart:
  assumes "within st rr" "distinct rr" "within st sec" "append_set f rr st sec = (st', sec')"
    and "set rr \<inter> set sec = {}"
  shows "records st' sec' = records st sec @ map (set_header f) (records st rr)"
    "within st other \<Longrightarrow> set rr \<inter> set other = {} \<Longrightarrow> records st' other = records st other"
    "sec' = sec @ rr"
proof -
  note r = append_set_records [OF assms(1-4)]
  show apart: "within st other \<Longrightarrow> set rr \<inter> set other = {} \<Longrightarrow> records st' other = records st other" for other
    using r(3) [of other] by (auto simp: records_def)
  have "records st' rr = map (set_header f) (records st rr)"
    using r(3) [OF assms(1)] by (simp add: records_def)
  then show "records st' sec' = records st sec @ map (set_header f) (records st rr)"
    using apart [OF assms(3,5)] r(1) by simp
  show "sec' = sec @ rr" by (rule r(1))
qed

text \<open>C21: Each builder of an update appends its records to the section the RFC names and leaves the other
  section as it is, as long as the records it is given are not in the message already.  The records
  are those of the table in RFC 2136, \<open>Used\<close> apart: section 2.4.2 wants a TTL of zero, and \<open>Used\<close> leaves
  the TTL of the record in place, so that it follows the RFC for records whose TTL is zero and
  for no others.\<close>

theorem update_builders:
  assumes "UQuestion u \<noteq> []" "within st rr" "within st (UAnswer u)" "within st (UNs u)"
    and "distinct rr" "set rr \<inter> set (UAnswer u @ UNs u) = {}"
  shows "\<exists>st' u'. build b rr (st, u) = Ok (st', u') \<and> UQuestion u' = UQuestion u \<and>
    records st' (UAnswer u') = records st (UAnswer u) @
      (if prerequisite b then map (built b (Qclass (UQuestion u ! 0))) (records st rr) else []) \<and>
    records st' (UNs u') = records st (UNs u) @
      (if prerequisite b then [] else map (built b (Qclass (UQuestion u ! 0))) (records st rr)) \<and>
    (\<forall>r. built b (Qclass (UQuestion u ! 0)) r = rfc2136 b (Qclass (UQuestion u ! 0)) r \<longleftrightarrow>
      b \<noteq> B_Used \<or> Ttl (Hdr r) = 0)"
proof -
  have apart: "set rr \<inter> set (UAnswer u) = {}" "set rr \<inter> set (UNs u) = {}" using assms(6) by auto
  have new: "records (fst (append_new f rr st sec)) (snd (append_new f rr st sec)) =
      records st sec @ map (\<lambda>r. f (Hdr r)) (records st rr)"
    "within st other \<Longrightarrow> records (fst (append_new f rr st sec)) other = records st other"
    if "within st sec" for f sec other
    using append_new_records [OF assms(2) that, of f "fst (append_new f rr st sec)" "snd (append_new f rr st sec)"]
    by simp_all
  have set: "records (fst (append_set f rr st sec)) (snd (append_set f rr st sec)) =
      records st sec @ map (set_header f) (records st rr)"
    "within st other \<Longrightarrow> set rr \<inter> set other = {} \<Longrightarrow> records (fst (append_set f rr st sec)) other = records st other"
    if "within st sec" "set rr \<inter> set sec = {}" for f sec other
    using append_set_apart [OF assms(2,5) that(1) _ that(2), of f "fst (append_set f rr st sec)" "snd (append_set f rr st sec)"]
    by simp_all
  note rules = new [OF assms(3)] new [OF assms(4)] set [OF assms(3) apart(1)] set [OF assms(4) apart(2)]
  show ?thesis
    unfolding built_is_rfc
    by (cases b) (simp_all add: NameUsed_def NameNotUsed_def Used_def RRsetUsed_def RRsetNotUsed_def Insert_def
        RemoveRRset_def RemoveName_def Remove_def split_def Let_def rules assms(1,3,4) apart prerequisite_def
        set_header_def [abs_def] built_def)
qed

text \<open>C22: A record that is required to exist and then removed: \<open>Used\<close> and \<open>Remove\<close> on the same records spoil
  the prerequisite, because both sections point to the same record.  The record that was to exist
  is listed with class NONE, the class of the prerequisites that something does not exist, and
  with its data, which no prerequisite of class NONE has.\<close>

theorem used_then_removed:
  assumes "UQuestion u \<noteq> []" "within st rr" "within st (UAnswer u)" "within st (UNs u)" "distinct rr"
  shows "\<exists>st1 u1 st2 u2. Used rr (st, u) = Ok (st1, u1) \<and> Remove rr (st1, u1) = (st2, u2) \<and>
    records st2 (drop (length (UAnswer u)) (UAnswer u2)) =
      map (set_header (\<lambda>h. h\<lparr>Class := ClassNONE, Ttl := 0\<rparr>)) (records st rr)"
proof -
  let ?f = "\<lambda>h. h\<lparr>Class := Qclass (UQuestion u ! 0)\<rparr>" and ?g = "\<lambda>h. h\<lparr>Class := ClassNONE, Ttl := 0\<rparr>"
  obtain st1 an where 1: "append_set ?f rr st (UAnswer u) = (st1, an)" by fastforce
  note r1 = append_set_records [OF assms(2,5,3) 1]
  have w1: "within st1 rr" "within st1 (UNs u)" using assms(2,4) r1(2) by (simp_all add: within_def)
  obtain st2 ns where 2: "append_set ?g rr st1 (UNs u) = (st2, ns)" by fastforce
  note r2 = append_set_records [OF w1(1) assms(5) w1(2) 2]
  have "records st1 rr = map (set_header ?f) (records st rr)"
    using r1(3) [OF assms(2)] by (simp add: records_def)
  then have "records st2 rr = map (set_header ?g) (map (set_header ?f) (records st rr))"
    using r2(3) [OF w1(1)] by (simp add: records_def)
  then have "records st2 rr = map (set_header ?g) (records st rr)" by (simp add: set_header_def comp_def)
  moreover have "Used rr (st, u) = Ok (st1, u\<lparr>UAnswer := an\<rparr>)" using 1 assms(1) by (simp add: Used_def)
  moreover have "Remove rr (st1, u\<lparr>UAnswer := an\<rparr>) = (st2, u\<lparr>UAnswer := an, UNs := ns\<rparr>)"
    using 2 by (simp add: Remove_def)
  ultimately show ?thesis using r1(1) by auto
qed


definition example_update :: "rr_store \<times> Update" where
  "example_update = ([loopback_record], \<lparr>UQuestion = [\<lparr>QName = ''b.'', Qtype = TypeSOA, Qclass = ClassINET\<rparr>], UAnswer = [], UNs = []\<rparr>)"

theorem update_builders_witness:
  "\<exists>st' u'. build B_Insert [0] example_update = Ok (st', u') \<and> records st' (UAnswer u') = [] \<and>
    records st' (UNs u') = [loopback_record]"
  using update_builders [of "snd example_update" "fst example_update" "[0]" B_Insert]
  by (auto simp: example_update_def within_def records_def prerequisite_def loopback_record_def built_def)

theorem used_then_removed_witness:
  "\<exists>st1 u1 st2 u2. Used [0] example_update = Ok (st1, u1) \<and> Remove [0] (st1, u1) = (st2, u2) \<and>
    records st2 (UAnswer u2) = [loopback_record\<lparr>Hdr := (Hdr loopback_record)\<lparr>Class := ClassNONE, Ttl := 0\<rparr>\<rparr>]"
  using used_then_removed [of "snd example_update" "fst example_update" "[0]"]
  by (auto simp: example_update_def within_def records_def set_header_def)

end
