(* ===== verification/Zone_Lex.thy ===== *)
theory Zone_Lex
  imports Dns_Types
begin

text \<open>
  The lexer of zone files (\<open>scan.go\<close>, \<open>scanner.go\<close>) and the tables of names it looks words up in
  (\<open>ztypes.go\<close>, \<open>types.go\<close>, \<open>msg.go\<close>, \<open>reverse.go\<close>).

  \<open>zlexer\<close> runs in a goroutine of its own and sends tokens on a channel; what it sends does not
  depend on the parser, so that it is a function from the bytes of the file to the list of tokens.
  (When the parser stops at an error nobody receives the rest, and the goroutine of the lexer stays
  blocked on its channel, which has no buffer; the list shows what it would send.)
  The variable \<open>l\<close> that is sent is never reset, and the tokens carry over what earlier ones set.
  The buffers for a word and for a comment have 2048 bytes: a write behind them would be a panic,
  and \<open>zlexer_safe\<close> shows that there is none.

  Words are upper-cased as ASCII (\<open>strings.ToUpper\<close> also maps a few other letters to ASCII ones).
\<close>

section \<open>Numbers\<close>

text \<open>\<open>strconv.ParseUint(s, 10, bitSize)\<close>: digits only, no sign; \<open>None\<close> is a non-nil error.\<close>

definition ParseUint10 :: "string \<Rightarrow> nat \<Rightarrow> nat option" where
  "ParseUint10 s bitSize =
     (if s = [] \<or> \<not> list_all is_digit s then None
      else let n = dec_val_from 0 s in if n < 2 ^ bitSize then Some n else None)"

definition HasPrefix :: "string \<Rightarrow> string \<Rightarrow> bool" where
  "HasPrefix s p \<longleftrightarrow> length p \<le> length s \<and> take (length p) s = p"

section \<open>Names of types and classes\<close>

definition TypeToString :: "(uint16 \<times> string) list" where
  "TypeToString =
     [(TypeA, ''A''), (TypeAAAA, ''AAAA''), (TypeAFSDB, ''AFSDB''), (TypeANY, ''ANY''), (TypeATMA, ''ATMA''),
      (TypeAVC, ''AVC''), (TypeAXFR, ''AXFR''), (TypeCAA, ''CAA''), (TypeCDNSKEY, ''CDNSKEY''), (TypeCDS, ''CDS''),
      (TypeCERT, ''CERT''), (TypeCNAME, ''CNAME''), (TypeDHCID, ''DHCID''), (TypeDLV, ''DLV''), (TypeDNAME, ''DNAME''),
      (TypeDNSKEY, ''DNSKEY''), (TypeDS, ''DS''), (TypeEID, ''EID''), (TypeEUI48, ''EUI48''), (TypeEUI64, ''EUI64''),
      (TypeGID, ''GID''), (TypeGPOS, ''GPOS''), (TypeHINFO, ''HINFO''), (TypeHIP, ''HIP''), (TypeISDN, ''ISDN''),
      (TypeIXFR, ''IXFR''), (TypeKEY, ''KEY''), (TypeKX, ''KX''), (TypeL32, ''L32''), (TypeL64, ''L64''),
      (TypeLOC, ''LOC''), (TypeLP, ''LP''), (TypeMAILA, ''MAILA''), (TypeMAILB, ''MAILB''), (TypeMB, ''MB''),
      (TypeMD, ''MD''), (TypeMF, ''MF''), (TypeMG, ''MG''), (TypeMINFO, ''MINFO''), (TypeMR, ''MR''), (TypeMX, ''MX''),
      (TypeNAPTR, ''NAPTR''), (TypeNID, ''NID''), (TypeNIMLOC, ''NIMLOC''), (TypeNINFO, ''NINFO''), (TypeNS, ''NS''),
      (TypeNSEC, ''NSEC''), (TypeNSEC3, ''NSEC3''), (TypeNSEC3PARAM, ''NSEC3PARAM''), (TypeNULL, ''NULL''),
      (TypeNXT, ''NXT''), (TypeNone, ''None''), (TypeOPENPGPKEY, ''OPENPGPKEY''), (TypeOPT, ''OPT''), (TypePTR, ''PTR''),
      (TypePX, ''PX''), (TypeRKEY, ''RKEY''), (TypeRP, ''RP''), (TypeRRSIG, ''RRSIG''), (TypeRT, ''RT''),
      (TypeReserved, ''Reserved''), (TypeSIG, ''SIG''), (TypeSMIMEA, ''SMIMEA''), (TypeSOA, ''SOA''), (TypeSPF, ''SPF''),
      (TypeSRV, ''SRV''), (TypeSSHFP, ''SSHFP''), (TypeTA, ''TA''), (TypeTALINK, ''TALINK''), (TypeTKEY, ''TKEY''),
      (TypeTLSA, ''TLSA''), (TypeTSIG, ''TSIG''), (TypeTXT, ''TXT''), (TypeUID, ''UID''), (TypeUINFO, ''UINFO''),
      (TypeUNSPEC, ''UNSPEC''), (TypeURI, ''URI''), (TypeX25, ''X25''), (TypeNSAPPTR, ''NSAP-PTR'')]"

definition ClassToString :: "(uint16 \<times> string) list" where
  "ClassToString =
     [(ClassINET, ''IN''), (ClassCSNET, ''CS''), (ClassCHAOS, ''CH''), (ClassHESIOD, ''HS''), (ClassNONE, ''NONE''),
      (ClassANY, ''ANY'')]"

text \<open>\<open>reverseInt16\<close> and \<open>reverseInt8\<close>: no two keys of the tables have the same name.\<close>

definition reverse_map :: "('k \<times> string) list \<Rightarrow> string \<Rightarrow> 'k option" where
  "reverse_map m = map_of (map (\<lambda>(u, s). (s, u)) m)"

definition StringToType :: "string \<Rightarrow> uint16 option" where
  "StringToType = reverse_map TypeToString"

definition StringToClass :: "string \<Rightarrow> uint16 option" where
  "StringToClass = reverse_map ClassToString"

text \<open>\<open>CLASSxx\<close> and \<open>TYPExxx\<close>\<close>

definition classToInt :: "string \<Rightarrow> uint16 option" where
  "classToInt token = (if length token < 5 + 1 then None else map_option of_nat (ParseUint10 (drop 5 token) 16))"

definition typeToInt :: "string \<Rightarrow> uint16 option" where
  "typeToInt token = (if length token < 4 + 1 then None else map_option of_nat (ParseUint10 (drop 4 token) 16))"

section \<open>Tokens\<close>

datatype zvalue =
    zEOF | zString | zBlank | zQuote | zNewline | zRrtpe | zOwner | zClass
  | zDirOrigin | zDirTtl | zDirInclude | zDirGenerate

record lex =
  token :: string
  tokenUpper :: string
  tok_length :: nat
  tok_err :: bool
  tok_value :: zvalue
  tok_line :: nat
  tok_column :: nat
  torc :: uint16
  tok_comment :: string

definition zero_lex :: lex where
  "zero_lex = \<lparr>token = '''', tokenUpper = '''', tok_length = 0, tok_err = False, tok_value = zEOF,
     tok_line = 0, tok_column = 0, torc = 0, tok_comment = ''''\<rparr>"

section \<open>The lexer\<close>

definition maxTok :: nat where "maxTok = 2048"

text \<open>The variables of \<open>zlexer\<close>, with the position of the scanner.\<close>

record lexer =
  lx_l :: lex
  lx_str :: string
  lx_com :: string
  lx_quote :: bool
  lx_escape :: bool
  lx_space :: bool
  lx_commt :: bool
  lx_rrtype :: bool
  lx_owner :: bool
  lx_brace :: int
  lx_line :: nat
  lx_column :: nat
  lx_eof :: bool

definition lex_init :: lexer where
  "lex_init = \<lparr>lx_l = zero_lex, lx_str = '''', lx_com = '''', lx_quote = False, lx_escape = False,
     lx_space = False, lx_commt = False, lx_rrtype = False, lx_owner = True, lx_brace = 0,
     lx_line = 1, lx_column = 0, lx_eof = False\<rparr>"

text \<open>\<open>tokenText\<close> on the next byte; the line is counted when the byte behind a newline is read.\<close>

definition tokenText :: "char \<Rightarrow> lexer \<Rightarrow> lexer" where
  "tokenText c s =
     (let s = (if lx_eof s then s\<lparr>lx_line := lx_line s + 1, lx_column := 0, lx_eof := False\<rparr> else s)
      in if c = CHR 0x0A then s\<lparr>lx_eof := True\<rparr> else s\<lparr>lx_column := lx_column s + 1\<rparr>)"

text \<open>\<open>str[stri] = x; stri++\<close> and the same for the comment.\<close>

definition put_str :: "char \<Rightarrow> lexer \<Rightarrow> lexer outcome" where
  "put_str x s = (if length (lx_str s) < maxTok then Ok (s\<lparr>lx_str := lx_str s @ [x]\<rparr>) else Panic IndexOutOfRange)"

definition put_com :: "char \<Rightarrow> lexer \<Rightarrow> lexer outcome" where
  "put_com x s = (if length (lx_com s) < maxTok then Ok (s\<lparr>lx_com := lx_com s @ [x]\<rparr>) else Panic IndexOutOfRange)"

text \<open>\<open>l.token = string(str[:stri])\<close> with its upper-case text and its length.\<close>

definition word_token :: "zvalue \<Rightarrow> lexer \<Rightarrow> lex" where
  "word_token v s =
     (lx_l s)\<lparr>tok_value := v, token := lx_str s, tokenUpper := ToUpper (lx_str s), tok_length := length (lx_str s)\<rparr>"

definition owner_value :: "string \<Rightarrow> zvalue" where
  "owner_value up =
     (if up = ''$TTL'' then zDirTtl
      else if up = ''$ORIGIN'' then zDirOrigin
      else if up = ''$INCLUDE'' then zDirInclude
      else if up = ''$GENERATE'' then zDirGenerate
      else zOwner)"

text \<open>
  A word in front of the data: a type, a class or a string.  A word can be both (\<open>ANY\<close>), and then it
  is a class.  The flag \<open>rrtype\<close> stops the search; \<open>TYPExxx\<close> does not set it.
\<close>

definition classify_type :: "lex \<Rightarrow> (lex \<times> bool) outcome" where
  "classify_type l =
     (case StringToType (tokenUpper l) of
        Some t \<Rightarrow> Ok (l\<lparr>tok_value := zRrtpe, torc := t\<rparr>, True)
      | None \<Rightarrow>
          if HasPrefix (tokenUpper l) ''TYPE'' then
            (case typeToInt (token l) of
               None \<Rightarrow> Err (Error ''unknown RR type'')
             | Some t \<Rightarrow> Ok (l\<lparr>tok_value := zRrtpe, torc := t\<rparr>, False))
          else Ok (l, False))"

definition classify_class :: "lex \<Rightarrow> lex outcome" where
  "classify_class l =
     (case StringToClass (tokenUpper l) of
        Some t \<Rightarrow> Ok (l\<lparr>tok_value := zClass, torc := t\<rparr>)
      | None \<Rightarrow>
          if HasPrefix (tokenUpper l) ''CLASS'' then
            (case classToInt (token l) of
               None \<Rightarrow> Err (Error ''unknown class'')
             | Some t \<Rightarrow> Ok (l\<lparr>tok_value := zClass, torc := t\<rparr>))
          else Ok l)"

text \<open>What a step sends, and whether the lexer returns.\<close>

type_synonym lex_step = "(lexer \<times> lex list \<times> bool) outcome"

definition lex_error :: "string \<Rightarrow> lexer \<Rightarrow> lex_step" where
  "lex_error e s = (let l = (lx_l s)\<lparr>token := e, tok_err := True\<rparr> in Ok (s\<lparr>lx_l := l\<rparr>, [l], True))"

definition goes_on :: "lexer \<Rightarrow> lex_step" where
  "goes_on s = Ok (s, [], False)"

text \<open>The word in front of a blank, and the blank.\<close>

definition lex_blank :: "lexer \<Rightarrow> lex list \<Rightarrow> lex_step" where
  "lex_blank s sent =
     (let s = s\<lparr>lx_str := ''''\<rparr>;
          l = (lx_l s)\<lparr>tok_value := zBlank, token := '' '', tok_length := 1\<rparr>;
          (s, sent) = (if \<not> lx_space s \<and> \<not> lx_commt s then (s\<lparr>lx_l := l\<rparr>, sent @ [l]) else (s, sent))
      in Ok (s\<lparr>lx_owner := False, lx_space := True\<rparr>, sent, False))"

definition lex_word :: "lexer \<Rightarrow> lex_step" where
  "lex_word s =
     (if lx_str s = '''' then lex_blank s []
      else if lx_owner s then
        let l = word_token (owner_value (ToUpper (lx_str s))) s in lex_blank (s\<lparr>lx_l := l\<rparr>) [l]
      else
        let l = word_token zString s in
        if lx_rrtype s then lex_blank (s\<lparr>lx_l := l\<rparr>) [l]
        else
          (case classify_type l of
             Err (Error e) \<Rightarrow> lex_error e (s\<lparr>lx_l := l\<rparr>)
           | Err ExternalError \<Rightarrow> Err ExternalError
           | Panic p \<Rightarrow> Panic p
           | Loops \<Rightarrow> Loops
           | Ok (l, rrtype) \<Rightarrow>
               let s = s\<lparr>lx_rrtype := rrtype\<rparr> in
               (case classify_class l of
                  Err (Error e) \<Rightarrow> lex_error e (s\<lparr>lx_l := l\<rparr>)
                | Err ExternalError \<Rightarrow> Err ExternalError
                | Panic p \<Rightarrow> Panic p
                | Loops \<Rightarrow> Loops
                | Ok l \<Rightarrow> lex_blank (s\<lparr>lx_l := l\<rparr>) [l])))"

text \<open>The cases of the switch.\<close>

definition case_blank :: "char \<Rightarrow> lexer \<Rightarrow> lex_step" where
  "case_blank x s =
     (if lx_escape s then obind (put_str x (s\<lparr>lx_escape := False\<rparr>)) goes_on
      else if lx_quote s then obind (put_str x s) goes_on
      else if lx_commt s then obind (put_com x s) goes_on
      else lex_word s)"

definition case_semicolon :: "char \<Rightarrow> lexer \<Rightarrow> lex_step" where
  "case_semicolon x s =
     (if lx_escape s then obind (put_str x (s\<lparr>lx_escape := False\<rparr>)) goes_on
      else if lx_quote s then obind (put_str x s) goes_on
      else
        let l = word_token zString s;
            (s, sent) = (if length (lx_str s) > 0 then (s\<lparr>lx_l := l, lx_str := ''''\<rparr>, [l]) else (s, []))
        in obind (put_com CHR '';'' (s\<lparr>lx_commt := True\<rparr>)) (\<lambda>s. Ok (s, sent, False)))"

definition case_return :: "char \<Rightarrow> lexer \<Rightarrow> lex_step" where
  "case_return x s =
     (let s = s\<lparr>lx_escape := False\<rparr> in if lx_quote s then obind (put_str x s) goes_on else goes_on s)"

definition newline_token :: "lex \<Rightarrow> lex" where
  "newline_token l = l\<lparr>tok_value := zNewline, token := [CHR 0x0A], tokenUpper := [CHR 0x0A], tok_length := 1\<rparr>"

definition case_newline :: "char \<Rightarrow> lexer \<Rightarrow> lex_step" where
  "case_newline x s =
     (let s = s\<lparr>lx_escape := False\<rparr> in
      if lx_quote s then obind (put_str x s) goes_on
      else if lx_commt s then
        let s = s\<lparr>lx_commt := False, lx_rrtype := False, lx_str := ''''\<rparr> in
        if lx_brace s = 0 then
          let l = (newline_token (lx_l s))\<lparr>tok_comment := lx_com s\<rparr>
          in Ok (s\<lparr>lx_owner := True, lx_l := l\<lparr>tok_comment := ''''\<rparr>, lx_com := ''''\<rparr>, [l], False)
        else obind (put_com CHR '' '' s) goes_on
      else if lx_brace s = 0 then
        let (s, sent) =
              (if lx_str s \<noteq> '''' then
                 let l = word_token zString s;
                     (l, rrtype) =
                       (if \<not> lx_rrtype s then
                          (case StringToType (tokenUpper l) of
                             Some t \<Rightarrow> (l\<lparr>tok_value := zRrtpe, torc := t\<rparr>, True)
                           | None \<Rightarrow> (l, False))
                        else (l, True))
                 in (s\<lparr>lx_l := l, lx_rrtype := rrtype\<rparr>, [l])
               else (s, []));
            l = newline_token (lx_l s)
        in Ok (s\<lparr>lx_l := l, lx_str := '''', lx_commt := False, lx_rrtype := False, lx_owner := True, lx_com := ''''\<rparr>,
               sent @ [l], False)
      else goes_on s)"

definition case_backslash :: "char \<Rightarrow> lexer \<Rightarrow> lex_step" where
  "case_backslash x s =
     (if lx_commt s then obind (put_com x s) goes_on
      else if lx_escape s then obind (put_str x s) (\<lambda>s. goes_on (s\<lparr>lx_escape := False\<rparr>))
      else obind (put_str x s) (\<lambda>s. goes_on (s\<lparr>lx_escape := True\<rparr>)))"

definition case_quote :: "char \<Rightarrow> lexer \<Rightarrow> lex_step" where
  "case_quote x s =
     (if lx_commt s then obind (put_com x s) goes_on
      else if lx_escape s then obind (put_str x s) (\<lambda>s. goes_on (s\<lparr>lx_escape := False\<rparr>))
      else
        let s = s\<lparr>lx_space := False\<rparr>;
            l = word_token zString s;
            (s, sent) = (if lx_str s \<noteq> '''' then (s\<lparr>lx_l := l, lx_str := ''''\<rparr>, [l]) else (s, []));
            l = (lx_l s)\<lparr>tok_value := zQuote, token := [CHR 0x22], tokenUpper := [CHR 0x22], tok_length := 1\<rparr>
        in Ok (s\<lparr>lx_l := l, lx_quote := \<not> lx_quote s\<rparr>, sent @ [l], False))"

definition case_brace :: "char \<Rightarrow> lexer \<Rightarrow> lex_step" where
  "case_brace x s =
     (if lx_commt s then obind (put_com x s) goes_on
      else if lx_escape s then obind (put_str x s) (\<lambda>s. goes_on (s\<lparr>lx_escape := False\<rparr>))
      else if lx_quote s then obind (put_str x s) goes_on
      else if x = CHR '')'' then
        let s = s\<lparr>lx_brace := lx_brace s - 1\<rparr> in
        if lx_brace s < 0 then
          let l = (lx_l s)\<lparr>token := ''extra closing brace'', tokenUpper := ''extra closing brace'', tok_err := True\<rparr>
          in Ok (s\<lparr>lx_l := l\<rparr>, [l], True)
        else goes_on s
      else goes_on (s\<lparr>lx_brace := lx_brace s + 1\<rparr>))"

definition case_default :: "char \<Rightarrow> lexer \<Rightarrow> lex_step" where
  "case_default x s =
     (let s = s\<lparr>lx_escape := False\<rparr> in
      if lx_commt s then obind (put_com x s) goes_on
      else obind (put_str x s) (\<lambda>s. goes_on (s\<lparr>lx_space := False\<rparr>)))"

definition lex_char :: "char \<Rightarrow> lexer \<Rightarrow> lex_step" where
  "lex_char x s =
     (let s = s\<lparr>lx_l := (lx_l s)\<lparr>tok_column := lx_column s, tok_line := lx_line s\<rparr>\<rparr> in
      if length (lx_str s) \<ge> maxTok then lex_error ''token length insufficient for parsing'' s
      else if length (lx_com s) \<ge> maxTok then lex_error ''comment length insufficient for parsing'' s
      else if x = CHR '' '' \<or> x = CHR 0x09 then case_blank x s
      else if x = CHR '';'' then case_semicolon x s
      else if x = CHR 0x0D then case_return x s
      else if x = CHR 0x0A then case_newline x s
      else if x = CHR 0x5C then case_backslash x s
      else if x = CHR 0x22 then case_quote x s
      else if x = CHR ''('' \<or> x = CHR '')'' then case_brace x s
      else case_default x s)"

text \<open>The loop over the file; at its end the rest is sent.\<close>

fun lex_loop :: "lexer \<Rightarrow> string \<Rightarrow> lex list outcome" where
  "lex_loop s [] = Ok (if length (lx_str s) > 0 then [word_token zString s] else [])"
| "lex_loop s (c # cs) =
     obind (lex_char c (tokenText c s)) (\<lambda>(s, sent, stop).
       if stop then Ok sent else map_ok (\<lambda>rest. sent @ rest) (lex_loop s cs))"

definition zlexer :: "string \<Rightarrow> lex list outcome" where
  "zlexer file = lex_loop lex_init file"

section \<open>Helpers of the parser\<close>

text \<open>\<open>2w\<close>, \<open>2m\<close> and the like, in seconds; the sums wrap around at 32 bits.\<close>

fun stringToTtl_loop :: "uint32 \<Rightarrow> uint32 \<Rightarrow> string \<Rightarrow> uint32 option" where
  "stringToTtl_loop s i [] = Some (s + i)"
| "stringToTtl_loop s i (c # cs) =
     (if c \<in> set ''sS'' then stringToTtl_loop (s + i) 0 cs
      else if c \<in> set ''mM'' then stringToTtl_loop (s + i * 60) 0 cs
      else if c \<in> set ''hH'' then stringToTtl_loop (s + i * 60 * 60) 0 cs
      else if c \<in> set ''dD'' then stringToTtl_loop (s + i * 60 * 60 * 24) 0 cs
      else if c \<in> set ''wW'' then stringToTtl_loop (s + i * 60 * 60 * 24 * 7) 0 cs
      else if is_digit c then stringToTtl_loop s (i * 10 + of_nat (digit_val c)) cs
      else None)"

definition stringToTtl :: "string \<Rightarrow> uint32 option" where
  "stringToTtl s = stringToTtl_loop 0 0 s"

definition appendOrigin :: "string \<Rightarrow> string \<Rightarrow> string" where
  "appendOrigin name origin = (if origin = ''.'' then name @ origin else name @ ''.'' @ origin)"

section \<open>What the lexer sends\<close>

text \<open>
  The text of a token is not empty; without the error flag it is at most as long as the buffer, and
  its length is the length of the text.  The state of the lexer never holds more than the buffers do.
\<close>

definition good_token :: "lex \<Rightarrow> bool" where
  "good_token l \<longleftrightarrow> token l \<noteq> '''' \<and> (tok_err l \<or> tok_length l = length (token l) \<and> length (token l) \<le> maxTok)"

definition lexer_inv :: "lexer \<Rightarrow> bool" where
  "lexer_inv s \<longleftrightarrow> \<not> tok_err (lx_l s) \<and> length (lx_str s) \<le> maxTok \<and> length (lx_com s) \<le> maxTok"

definition good_step :: "lex_step \<Rightarrow> bool" where
  "good_step r \<longleftrightarrow> (\<exists>s sent stop. r = Ok (s, sent, stop) \<and> list_all good_token sent \<and>
     (if stop then sent \<noteq> [] \<and> tok_err (last sent) \<and> list_all (\<lambda>l. \<not> tok_err l) (butlast sent)
      else lexer_inv s \<and> list_all (\<lambda>l. \<not> tok_err l) sent))"

lemma good_step_simps [simp]:
  "good_step (Ok (s, sent, True)) \<longleftrightarrow>
     list_all good_token sent \<and> sent \<noteq> [] \<and> tok_err (last sent) \<and> list_all (\<lambda>l. \<not> tok_err l) (butlast sent)"
  "good_step (Ok (s, sent, False)) \<longleftrightarrow>
     list_all good_token sent \<and> lexer_inv s \<and> list_all (\<lambda>l. \<not> tok_err l) sent"
  by (auto simp: good_step_def)

lemma put_str_good: "length (lx_str s) < maxTok \<Longrightarrow> put_str x s = Ok (s\<lparr>lx_str := lx_str s @ [x]\<rparr>)"
  by (simp add: put_str_def)

lemma put_com_good: "length (lx_com s) < maxTok \<Longrightarrow> put_com x s = Ok (s\<lparr>lx_com := lx_com s @ [x]\<rparr>)"
  by (simp add: put_com_def)

lemma maxTok_pos [simp]: "0 < maxTok" "Suc 0 \<le> maxTok" "maxTok \<noteq> 0"
  by (simp_all add: maxTok_def)

lemmas lex_step_defs = goes_on_def put_str_good put_com_good lexer_inv_def good_token_def

lemma word_token_simps [simp]:
  "token (word_token v s) = lx_str s" "tok_length (word_token v s) = length (lx_str s)"
  "tok_err (word_token v s) = tok_err (lx_l s)" "tok_value (word_token v s) = v"
  "tokenUpper (word_token v s) = ToUpper (lx_str s)"
  by (simp_all add: word_token_def)

lemma lex_error_good: "e \<noteq> '''' \<Longrightarrow> good_step (lex_error e s)"
  by (simp add: lex_error_def Let_def lex_step_defs)

lemma lex_blank_good:
  assumes "\<not> tok_err (lx_l s)" "length (lx_com s) \<le> maxTok"
    "list_all good_token sent" "list_all (\<lambda>l. \<not> tok_err l) sent"
  shows "good_step (lex_blank s sent)"
  using assms by (simp add: lex_blank_def Let_def lex_step_defs)

lemma lex_same: "\<exists>v t. l = l\<lparr>tok_value := v, torc := t\<rparr>" for l :: lex
  by (rule exI [of _ "tok_value l"], rule exI [of _ "torc l"]) simp

lemma classify_type_cases:
  "(\<exists>e. classify_type l = Err (Error e) \<and> e \<noteq> '''') \<or> (\<exists>v t b. classify_type l = Ok (l\<lparr>tok_value := v, torc := t\<rparr>, b))"
  unfolding classify_type_def
  by (cases "StringToType (tokenUpper l)"; cases "typeToInt (token l)")
     (auto intro: lex_same)

lemma classify_class_cases:
  "(\<exists>e. classify_class l = Err (Error e) \<and> e \<noteq> '''') \<or> (\<exists>v t. classify_class l = Ok (l\<lparr>tok_value := v, torc := t\<rparr>))"
  unfolding classify_class_def
  by (cases "StringToClass (tokenUpper l)"; cases "classToInt (token l)")
     (auto intro: lex_same)

lemma lex_word_good:
  assumes "lexer_inv s"
  shows "good_step (lex_word s)"
proof (cases "lx_str s = '''' \<or> lx_owner s \<or> lx_rrtype s")
  case True
  then show ?thesis using assms
    by (auto simp: lex_word_def Let_def lexer_inv_def good_token_def intro!: lex_blank_good)
next
  case False
  define l where "l = word_token zString s"
  have w: "good_step (lex_blank (s\<lparr>lx_rrtype := b, lx_l := m\<rparr>) [m])"
    if "token m = token l" "tok_length m = tok_length l" "tok_err m = tok_err l" for b m
    using False assms that by (intro lex_blank_good) (auto simp: l_def lexer_inv_def good_token_def)
  show ?thesis
    using classify_type_cases [of l]
  proof (elim disjE exE)
    fix e assume "classify_type l = Err (Error e) \<and> e \<noteq> ''''"
    then show ?thesis using False by (simp add: lex_word_def l_def lex_error_good)
  next
    fix v t b assume t: "classify_type l = Ok (l\<lparr>tok_value := v, torc := t\<rparr>, b)"
    show ?thesis using False t w classify_class_cases [of "l\<lparr>tok_value := v, torc := t\<rparr>"]
      by (auto simp: lex_word_def l_def [symmetric] lex_error_good Let_def)
  qed
qed

lemma lex_char_good:
  assumes "lexer_inv s"
  shows "good_step (lex_char x s)"
proof -
  define s' where "s' = s\<lparr>lx_l := (lx_l s)\<lparr>tok_column := lx_column s, tok_line := lx_line s\<rparr>\<rparr>"
  have inv: "lexer_inv s'" using assms by (simp add: s'_def lexer_inv_def)
  consider "length (lx_str s') \<ge> maxTok \<or> length (lx_com s') \<ge> maxTok"
    | "length (lx_str s') < maxTok" "length (lx_com s') < maxTok" by force
  then show ?thesis
  proof cases
    case 1
    then show ?thesis using lex_error_good by (auto simp: lex_char_def s'_def Let_def)
  next
    case 2
    have "good_step (case_blank x s')" using inv 2 lex_word_good [OF inv]
      by (simp add: case_blank_def lex_step_defs)
    moreover have "good_step (case_semicolon x s')" using inv 2
      by (simp add: case_semicolon_def lex_step_defs Let_def)
    moreover have "good_step (case_return x s')" using inv 2
      by (simp add: case_return_def lex_step_defs Let_def)
    moreover have "good_step (case_newline x s')" using inv 2
      by (simp add: case_newline_def newline_token_def lex_step_defs Let_def split: option.split)
    moreover have "good_step (case_backslash x s')" using inv 2
      by (simp add: case_backslash_def lex_step_defs Let_def)
    moreover have "good_step (case_quote x s')" using inv 2
      by (simp add: case_quote_def lex_step_defs Let_def)
    moreover have "good_step (case_brace x s')" using inv 2
      by (simp add: case_brace_def lex_step_defs Let_def)
    moreover have "good_step (case_default x s')" using inv 2
      by (simp add: case_default_def lex_step_defs Let_def)
    ultimately show ?thesis using 2 by (simp add: lex_char_def s'_def [symmetric] Let_def cong: if_cong) auto
  qed
qed

lemma tokenText_inv: "lexer_inv s \<Longrightarrow> lexer_inv (tokenText c s)"
  by (simp add: tokenText_def Let_def lexer_inv_def)

lemma lex_loop_good:
  "lexer_inv s \<Longrightarrow> \<exists>ls. lex_loop s cs = Ok ls \<and> list_all good_token ls \<and> list_all (\<lambda>l. \<not> tok_err l) (butlast ls)"
proof (induction s cs rule: lex_loop.induct)
  case (1 s)
  then show ?case by (simp add: lexer_inv_def good_token_def)
next
  case (2 s c cs)
  obtain s' sent stop where st: "lex_char c (tokenText c s) = Ok (s', sent, stop)" "list_all good_token sent"
    and e: "if stop then sent \<noteq> [] \<and> tok_err (last sent) \<and> list_all (\<lambda>l. \<not> tok_err l) (butlast sent)
      else lexer_inv s' \<and> list_all (\<lambda>l. \<not> tok_err l) sent"
    using lex_char_good [OF tokenText_inv [OF 2(2)], of c] unfolding good_step_def by blast
  show ?case
  proof (cases stop)
    case True
    then show ?thesis using st e by auto
  next
    case False
    then have "\<exists>ls. lex_loop s' cs = Ok ls \<and> list_all good_token ls \<and> list_all (\<lambda>l. \<not> tok_err l) (butlast ls)"
      using 2(1) [OF st(1) refl refl False] e by simp
    then obtain ls where ls: "lex_loop s' cs = Ok ls" "list_all good_token ls" "list_all (\<lambda>l. \<not> tok_err l) (butlast ls)"
      by blast
    have "list_all (\<lambda>l. \<not> tok_err l) (butlast (sent @ ls))"
      using e False ls by (auto simp: butlast_append list_all_iff dest: in_set_butlastD)
    then show ?thesis using False st ls by (simp add: list_all_iff) blast
  qed
qed

text \<open>
  C14: the lexer of zone files returns for every file, without a panic.  No token it sends is empty,
  and one that is not an error fits the buffer of 2048 bytes and has the length it says, so that the
  parser may look at its last byte; only the last token can be an error.
\<close>

theorem zlexer_safe:
  "\<exists>ls. zlexer file = Ok ls \<and> list_all good_token ls \<and> list_all (\<lambda>l. \<not> tok_err l) (butlast ls)"
  unfolding zlexer_def by (rule lex_loop_good) (simp add: lex_init_def lexer_inv_def zero_lex_def)

end
