(* ===== verification/Zone_Base.thy ===== *)
theory Zone_Base
  imports Zone_Lex Wire_Name Dns_Labels
begin

text \<open>
  What the parsers of the zone file share (\<open>scan.go\<close>, \<open>scan_rr.go\<close>, \<open>types.go\<close>): the channel they
  read tokens from, parse errors, the fields of a record and the rest of its line.

  The channel is the list of the tokens that the lexer still sends; a receive from the closed channel
  gives the zero token.  A parser takes the channel and gives a value and the channel after it, a
  \<open>ParseError\<close>, a run-time panic, or it does not return.
\<close>

section \<open>Parsers\<close>

type_synonym chan = "lex list"

record ParseError =
  pe_file :: string
  pe_err :: string
  pe_lex :: lex

datatype 'a parsed = Parsed 'a chan | Failed ParseError | Crash panic | Hangs

type_synonym 'a parser = "chan \<Rightarrow> 'a parsed"

definition pret :: "'a \<Rightarrow> 'a parser" where
  "pret x = Parsed x"

definition pbind :: "'a parser \<Rightarrow> ('a \<Rightarrow> 'b parser) \<Rightarrow> 'b parser" where
  "pbind m f c = (case m c of Parsed x c \<Rightarrow> f x c | Failed e \<Rightarrow> Failed e | Crash p \<Rightarrow> Crash p | Hangs \<Rightarrow> Hangs)"

text \<open>\<open>return nil, &ParseError{f, err, l}, ""\<close>\<close>

definition pfail :: "string \<Rightarrow> string \<Rightarrow> lex \<Rightarrow> 'a parser" where
  "pfail f err l = (\<lambda>c. Failed \<lparr>pe_file = f, pe_err = err, pe_lex = l\<rparr>)"

text \<open>\<open>l = <-c\<close>, and \<open><-c\<close> alone for the blank between two fields.\<close>

fun recv :: "lex parser" where
  "recv [] = Parsed zero_lex []"
| "recv (l # c) = Parsed l c"

definition skip :: "(unit \<Rightarrow> 'b parser) \<Rightarrow> 'b parser" where
  "skip f = pbind recv (\<lambda>l. f ())"

text \<open>The result of a call; none of the functions called here returns an error or runs forever.\<close>

definition lift :: "'a outcome \<Rightarrow> ('a \<Rightarrow> 'b parser) \<Rightarrow> 'b parser" where
  "lift m g = (\<lambda>c. case m of Ok x \<Rightarrow> g x c | Panic p \<Rightarrow> Crash p | _ \<Rightarrow> Hangs)"

section \<open>Fields\<close>

text \<open>
  A domain name: \<open>@\<close> is the origin, and a name without a final dot is relative to it.  The last byte
  is read at the length the token says.
\<close>

definition name_field :: "string \<Rightarrow> string \<Rightarrow> string \<Rightarrow> lex \<Rightarrow> string parser" where
  "name_field f err org l =
     (if token l = ''@'' then pret org
      else lift (IsDomainName (token l)) (\<lambda>(labels, ok).
        if \<not> ok \<or> tok_length l = 0 \<or> tok_err l then pfail f err l
        else lift (go_index (token l) (int (tok_length l) - 1)) (\<lambda>b.
          if b \<noteq> CHR ''.'' then pret (appendOrigin (token l) org) else pret (token l))))"

text \<open>\<open>strconv.ParseUint(l.token, 10, n)\<close> with the test of \<open>l.err\<close>\<close>

definition uint_field :: "string \<Rightarrow> string \<Rightarrow> nat \<Rightarrow> lex \<Rightarrow> ('a :: len) word parser" where
  "uint_field f err n l =
     (case ParseUint10 (token l) n of
        None \<Rightarrow> pfail f err l
      | Some i \<Rightarrow> if tok_err l then pfail f err l else pret (of_nat i))"

section \<open>The rest of a line\<close>

text \<open>\<open>slurpRemainder\<close>: the comment, or an error when anything but a blank is left.\<close>

definition slurpRemainder :: "string \<Rightarrow> string parser" where
  "slurpRemainder f =
     pbind recv (\<lambda>l.
       case tok_value l of
         zBlank \<Rightarrow>
           pbind recv (\<lambda>l.
             if tok_value l \<noteq> zNewline \<and> tok_value l \<noteq> zEOF then pfail f ''garbage after rdata'' l
             else pret (tok_comment l))
       | zNewline \<Rightarrow> pret (tok_comment l)
       | zEOF \<Rightarrow> pret ''''
       | _ \<Rightarrow> pfail f ''garbage after rdata'' l)"

text \<open>\<open>endingToString\<close>: the strings of the rest of the line without the blanks between them.\<close>

definition line_end :: "lex \<Rightarrow> bool" where
  "line_end l \<longleftrightarrow> tok_value l = zNewline \<or> tok_value l = zEOF"

fun endingToString_loop :: "string \<Rightarrow> string \<Rightarrow> string \<Rightarrow> (string \<times> string) parser" where
  "endingToString_loop errstr f s [] = Parsed (s, tok_comment zero_lex) []"
| "endingToString_loop errstr f s (l # c) =
     (if line_end l then Parsed (s, tok_comment l) c
      else if tok_err l then pfail f errstr l c
      else
        (case tok_value l of
           zString \<Rightarrow> endingToString_loop errstr f (s @ token l) c
         | zBlank \<Rightarrow> endingToString_loop errstr f s c
         | _ \<Rightarrow> pfail f errstr l c))"

definition endingToString :: "string \<Rightarrow> string \<Rightarrow> (string \<times> string) parser" where
  "endingToString errstr f = endingToString_loop errstr f ''''"

text \<open>
  \<open>endingToTxtSlice\<close>: the strings of the rest of the line, those longer than 255 bytes in chunks of
  255 (with an empty chunk at the end when the length is a multiple of 255).  The test of \<open>l.err\<close>
  before the loop is made for a newline, too, the one in the loop is not.
\<close>

function chunks255 :: "string \<Rightarrow> string list" where
  "chunks255 s = (if 255 \<le> length s then take 255 s # chunks255 (drop 255 s) else [s])"
  by auto
termination by (relation "measure length") auto

declare chunks255.simps [simp del]

fun endingToTxtSlice_loop ::
    "string \<Rightarrow> string \<Rightarrow> string list \<Rightarrow> bool \<Rightarrow> bool \<Rightarrow> lex \<Rightarrow> (string list \<times> string) parser" where
  "endingToTxtSlice_loop errstr f s quote emp l c =
     (if line_end l then
        (if quote then pfail f errstr l c else Parsed (s, tok_comment l) c)
      else if tok_err l then pfail f errstr l c
      else
        (let next = (\<lambda>s quote emp.
               (case c of
                  [] \<Rightarrow> if quote then pfail f errstr zero_lex [] else Parsed (s, '''') []
                | l' # c' \<Rightarrow> endingToTxtSlice_loop errstr f s quote emp l' c'))
         in case tok_value l of
           zString \<Rightarrow>
             next (if length (token l) > 255 then s @ chunks255 (token l) else s @ [token l]) quote False
         | zBlank \<Rightarrow> if quote then pfail f errstr l c else next s quote emp
         | zQuote \<Rightarrow> next (if emp \<and> quote then s @ [''''] else s) (\<not> quote) True
         | _ \<Rightarrow> pfail f errstr l c))"

declare endingToTxtSlice_loop.simps [simp del]

definition endingToTxtSlice :: "string \<Rightarrow> string \<Rightarrow> (string list \<times> string) parser" where
  "endingToTxtSlice errstr f =
     pbind recv (\<lambda>l. if tok_err l then pfail f errstr l else endingToTxtSlice_loop errstr f [] False False l)"

section \<open>Numbers, times and words\<close>

text \<open>\<open>strconv.ParseUint(s, 16, n)\<close>\<close>

fun hex_val_from :: "nat \<Rightarrow> string \<Rightarrow> nat option" where
  "hex_val_from n [] = Some n"
| "hex_val_from n (c # cs) = (case hex_val c of Some d \<Rightarrow> hex_val_from (n * 16 + d) cs | None \<Rightarrow> None)"

definition ParseUint16 :: "string \<Rightarrow> nat \<Rightarrow> nat option" where
  "ParseUint16 s n =
     (if s = [] then None
      else (case hex_val_from 0 s of Some v \<Rightarrow> if v < 2 ^ n then Some v else None | None \<Rightarrow> None))"

text \<open>\<open>stringToNodeID\<close>: the error names the token as the file; a colon at one of the three places is enough.\<close>

definition stringToNodeID :: "lex \<Rightarrow> uint64 parser" where
  "stringToNodeID l =
     (let s = token l; err = pfail s ''bad NID/L64 NodeID/Locator64'' l in
      if length s < 19 then err
      else if s ! 4 \<noteq> CHR '':'' \<and> s ! 9 \<noteq> CHR '':'' \<and> s ! 14 \<noteq> CHR '':'' then err
      else
        (case ParseUint16 (take 4 s @ take 4 (drop 5 s) @ take 4 (drop 10 s) @ take 4 (drop 15 s)) 64 of
           None \<Rightarrow> err
         | Some u \<Rightarrow> pret (of_nat u)))"

text \<open>
  \<open>time.Parse("20060102150405", s)\<close> and \<open>Unix()\<close>: fourteen digits of a date that exists, and, as
  the package allows, a fraction of at most nine digits.
\<close>

definition leap_year :: "nat \<Rightarrow> bool" where
  "leap_year y \<longleftrightarrow> y mod 4 = 0 \<and> (y mod 100 \<noteq> 0 \<or> y mod 400 = 0)"

definition days_in_month :: "nat \<Rightarrow> nat \<Rightarrow> nat" where
  "days_in_month y m =
     (if m = 2 then (if leap_year y then 29 else 28) else if m \<in> {4, 6, 9, 11} then 30 else 31)"

text \<open>The days before a year and a month of the years from 1 January of the year 0.\<close>

definition days_before_year :: "nat \<Rightarrow> nat" where
  "days_before_year y = (if y = 0 then 0 else 365 * y + (y - 1) div 4 - (y - 1) div 100 + (y - 1) div 400 + 1)"

definition days_before_month :: "nat \<Rightarrow> nat \<Rightarrow> nat" where
  "days_before_month y m = (\<Sum>k \<leftarrow> [1 ..< m]. days_in_month y k)"

definition date_unix :: "nat \<Rightarrow> nat \<Rightarrow> nat \<Rightarrow> int" where
  "date_unix y m d =
     (int (days_before_year y + days_before_month y m + (d - 1)) - int (days_before_year 1970)) * 86400"

definition time_Parse :: "string \<Rightarrow> int option" where
  "time_Parse s =
     (let num = (\<lambda>i n. dec_val_from 0 (take n (drop i s)));
          y = num 0 4; m = num 4 2; d = num 6 2; H = num 8 2; M = num 10 2; S = num 12 2;
          frac = drop 14 s
      in if length s < 14 \<or> \<not> list_all is_digit (take 14 s) then None
         else if frac \<noteq> '''' \<and> (hd frac \<noteq> CHR ''.'' \<or> tl frac = '''' \<or> length (tl frac) > 9
                \<or> \<not> list_all is_digit (tl frac)) then None
         else if m < 1 \<or> 12 < m \<or> d < 1 \<or> days_in_month y m < d \<or> 24 \<le> H \<or> 60 \<le> M \<or> 60 \<le> S then None
         else Some (date_unix y m d + int (H * 3600 + M * 60 + S)))"

text \<open>\<open>year68\<close> is \<open>1 << 31\<close>; the quotient is rounded towards zero, which the sign test makes irrelevant.\<close>

definition StringToTime :: "string \<Rightarrow> uint32 option" where
  "StringToTime s =
     (case time_Parse s of
        None \<Rightarrow> None
      | Some t \<Rightarrow>
          let m = t div 2 ^ 31 - 1; m = (if m < 0 then 0 else m) in Some (of_int (t - m * 2 ^ 31)))"

text \<open>\<open>strings.Fields\<close>: the ASCII white space and the other white space of Unicode in UTF-8.\<close>

definition white_spaces :: "string list" where
  "white_spaces =
     map (\<lambda>n. [char_of n]) [9, 10, 11, 12, 13, 32 :: nat] @
     map (map char_of)
       ([[0xC2, 0x85 :: nat], [0xC2, 0xA0], [0xE1, 0x9A, 0x80], [0xE2, 0x80, 0xA8], [0xE2, 0x80, 0xA9],
         [0xE2, 0x80, 0xAF], [0xE2, 0x81, 0x9F], [0xE3, 0x80, 0x80]] @
        map (\<lambda>n. [0xE2, 0x80, n]) [0x80 ..< 0x8B :: nat])"

definition white_prefix :: "string \<Rightarrow> nat" where
  "white_prefix s = (case filter (HasPrefix s) white_spaces of [] \<Rightarrow> 0 | w # ws \<Rightarrow> length w)"

function Fields_loop :: "string \<Rightarrow> string \<Rightarrow> string list" where
  "Fields_loop w [] = (if w = [] then [] else [w])"
| "Fields_loop w (c # cs) =
     (let n = white_prefix (c # cs)
      in if n = 0 then Fields_loop (w @ [c]) cs
         else (if w = [] then [] else [w]) @ Fields_loop [] (drop n (c # cs)))"
  by pat_completeness auto
termination by (relation "measure (length \<circ> snd)") auto

declare Fields_loop.simps [simp del]

definition Fields :: "string \<Rightarrow> string list" where
  "Fields s = Fields_loop [] s"

text \<open>\<open>strings.SplitN(s, sep, 3)\<close> and \<open>SplitN(s, sep, 2)\<close>\<close>

fun SplitN :: "nat \<Rightarrow> char \<Rightarrow> string \<Rightarrow> string list" where
  "SplitN 0 c s = []"
| "SplitN (Suc 0) c s = [s]"
| "SplitN (Suc (Suc n)) c s =
     (if c \<in> set s then takeWhile (\<lambda>x. x \<noteq> c) s # SplitN (Suc n) c (tl (dropWhile (\<lambda>x. x \<noteq> c) s)) else [s])"

section \<open>Algorithms and certificates\<close>

definition AlgorithmToString :: "(byte \<times> string) list" where
  "AlgorithmToString =
     [(1, ''RSAMD5''), (2, ''DH''), (3, ''DSA''), (5, ''RSASHA1''), (6, ''DSA-NSEC3-SHA1''),
      (7, ''RSASHA1-NSEC3-SHA1''), (8, ''RSASHA256''), (10, ''RSASHA512''), (12, ''ECC-GOST''),
      (13, ''ECDSAP256SHA256''), (14, ''ECDSAP384SHA384''), (252, ''INDIRECT''), (253, ''PRIVATEDNS''),
      (254, ''PRIVATEOID'')]"

definition StringToAlgorithm :: "string \<Rightarrow> byte option" where
  "StringToAlgorithm = reverse_map AlgorithmToString"

definition CertTypeToString :: "(uint16 \<times> string) list" where
  "CertTypeToString =
     [(1, ''PKIX''), (2, ''SPKI''), (3, ''PGP''), (4, ''IPIX''), (5, ''ISPKI''), (6, ''IPGP''),
      (7, ''ACPKIX''), (8, ''IACPKIX''), (253, ''URI''), (254, ''OID'')]"

definition StringToCertType :: "string \<Rightarrow> uint16 option" where
  "StringToCertType = reverse_map CertTypeToString"

section \<open>Names are checked without a panic\<close>

lemma emit_label_safe: "safe (emit_label lenmsg cs off msg)"
  by (induction lenmsg cs off msg rule: emit_label.induct) auto

lemma pack_dot_no_map:
  assumes "ns_comp st = None" "ns_msg st = None"
  shows "safe (pack_dot compress lenmsg i st)"
    and "pack_dot compress lenmsg i st = Ok r \<Longrightarrow> snd r = None \<and> ns_comp (fst r) = None \<and> ns_msg (fst r) = None"
proof -
  have e: "emit_label lenmsg cs off None = Ok x \<Longrightarrow> snd x = None" for cs off x
    by (induction lenmsg cs off "None :: byte list option" rule: emit_label.induct) (auto split: if_splits)
  show "safe (pack_dot compress lenmsg i st)"
    using assms by (auto simp: pack_dot_def compress_name_def Let_def emit_label_safe intro!: safe_obind)
  show "snd r = None \<and> ns_comp (fst r) = None \<and> ns_msg (fst r) = None" if "pack_dot compress lenmsg i st = Ok r"
    using that assms by (auto simp: pack_dot_def compress_name_def Let_def dest!: e split: if_splits)
qed

lemma pack_escape_no_map:
  "safe (pack_escape lenmsg i st)"
  "pack_escape lenmsg i st = Ok st' \<Longrightarrow> ns_comp st' = ns_comp st \<and> ns_msg st' = ns_msg st"
  by (auto simp: pack_escape_def Let_def split: if_splits)

lemma pack_name_loop_no_map:
  "ns_comp st = None \<Longrightarrow> ns_msg st = None \<Longrightarrow>
   safe (pack_name_loop compress lenmsg i st) \<and>
   (\<forall>r. pack_name_loop compress lenmsg i st = Ok r \<longrightarrow> snd r = None \<and> ns_msg (fst r) = None)"
proof (induction compress lenmsg i st rule: pack_name_loop.induct)
  case (1 compress lenmsg i st)
  show ?case
  proof (cases "i < ns_ls st")
    case i: True
    consider "ns_bs st ! i = CHR 0x5C" | "ns_bs st ! i = CHR ''.''" | "ns_bs st ! i \<noteq> CHR 0x5C" "ns_bs st ! i \<noteq> CHR ''.''"
      by blast
    then show ?thesis
    proof cases
      case 1
      then show ?thesis using i "1.prems" "1.IH"(1) pack_escape_no_map(1) [of lenmsg i st]
        by (subst (1 2) pack_name_loop.simps)
           (cases "pack_escape lenmsg i st"; auto dest: pack_escape_no_map(2))
    next
      case 2
      then show ?thesis using i "1.prems" "1.IH"(2) pack_dot_no_map(1) [of st compress lenmsg i]
        by (subst (1 2) pack_name_loop.simps)
           (cases "pack_dot compress lenmsg i st"; auto dest: pack_dot_no_map(2))
    next
      case 3
      then show ?thesis using i "1.prems" "1.IH"(3) by (subst (1 2) pack_name_loop.simps) auto
    qed
  next
    case False
    then show ?thesis using "1.prems" by (subst (1 2) pack_name_loop.simps) simp
  qed
qed

lemma IsDomainName_ok: "\<exists>n ok. IsDomainName s = Ok (n, ok)"
proof -
  have "safe (packDomainName s None 0 None False)"
    unfolding packDomainName_def Let_def
    by (auto intro!: safe_obind split: option.splits dest: pack_name_loop_no_map [THEN conjunct2, rule_format, rotated 2]
             simp: pack_name_loop_no_map [THEN conjunct1])
  then show ?thesis by (cases "packDomainName s None 0 None False") (auto simp: IsDomainName_def)
qed

end
