(* ===== verification/Go_Float.thy ===== *)
theory Go_Float
  imports Go_Prelude
begin

text \<open>
  The floating-point numbers of Go as far as the location records need them: \<open>strconv.ParseFloat\<close>,
  products and sums of a \<open>float64\<close>, and its conversion to \<open>uint32\<close>.

  A finite number is a fraction with a positive denominator; \<open>round_frac\<close> rounds a fraction to the
  nearest one with \<open>p\<close> binary digits (ties to even) whose last digit is not below \<open>2 ^ emin\<close>.  The
  two zeros are one.  \<open>ParseFloat(s, 32)\<close> gives a \<open>float64\<close> whose value is that of the nearest
  \<open>float32\<close>.  The conversion is the one of amd64: the value is truncated to 64 bits, of which the
  lower half is taken; what does not fit 64 bits, infinities and NaN give 0.
\<close>

section \<open>Rounding\<close>

type_synonym frac = "int \<times> int"

fun bit_len :: "nat \<Rightarrow> nat" where
  "bit_len n = (if n = 0 then 0 else Suc (bit_len (n div 2)))"

declare bit_len.simps [simp del]

text \<open>The exponent of the leading binary digit of the quotient of two positive numbers.\<close>

definition log2_floor :: "nat \<Rightarrow> nat \<Rightarrow> int" where
  "log2_floor a b =
     (let k = int (bit_len a) - int (bit_len b)
      in if b * 2 ^ nat k \<le> a * 2 ^ nat (- k) then k else k - 1)"

definition round_even :: "nat \<Rightarrow> nat \<Rightarrow> nat" where
  "round_even num den =
     (if den < 2 * (num mod den) \<or> den = 2 * (num mod den) \<and> odd (num div den) then num div den + 1
      else num div den)"

text \<open>The digits of \<open>a / b\<close> from the power \<open>k\<close> of two on.\<close>

definition round_at :: "int \<Rightarrow> nat \<Rightarrow> nat \<Rightarrow> nat" where
  "round_at k a b = round_even (a * 2 ^ nat (- k)) (b * 2 ^ nat k)"

definition round_frac :: "nat \<Rightarrow> int \<Rightarrow> frac \<Rightarrow> frac" where
  "round_frac p emin x =
     (let (n, d) = x;
          k = max emin (log2_floor (nat \<bar>n\<bar>) (nat d) - (int p - 1))
      in (sgn n * int (round_at k (nat \<bar>n\<bar>) (nat d) * 2 ^ nat k), 2 ^ nat (- k)))"

definition round32 :: "frac \<Rightarrow> frac" where "round32 = round_frac 24 (- 149)"

definition round64 :: "frac \<Rightarrow> frac" where "round64 = round_frac 53 (- 1074)"

section \<open>Numbers\<close>

datatype go_float = Finite frac | Infinite bool | NotANumber

definition float_mul :: "int \<Rightarrow> go_float \<Rightarrow> go_float" where
  "float_mul c x = (case x of Finite (n, d) \<Rightarrow> Finite (round64 (c * n, d)) | _ \<Rightarrow> x)"

definition float_add :: "frac \<Rightarrow> go_float \<Rightarrow> go_float" where
  "float_add c x = (case x of Finite (n, d) \<Rightarrow> Finite (round64 (n * snd c + fst c * d, d * snd c)) | _ \<Rightarrow> x)"

text \<open>\<open>uint32(x)\<close>; a quotient of integers is rounded to zero.\<close>

definition float_uint32 :: "go_float \<Rightarrow> uint32" where
  "float_uint32 x =
     (case x of
        Finite (n, d) \<Rightarrow>
          let t = sgn n * (\<bar>n\<bar> div d) in if - (2 ^ 63) \<le> t \<and> t < 2 ^ 63 then of_int t else 0
      | _ \<Rightarrow> 0)"

section \<open>Parsing\<close>

definition equalIgnoreCase :: "string \<Rightarrow> string \<Rightarrow> bool" where
  "equalIgnoreCase s t \<longleftrightarrow> ToLower s = t"

definition special_float :: "string \<Rightarrow> go_float option" where
  "special_float s =
     (if equalIgnoreCase s ''+inf'' \<or> equalIgnoreCase s ''+infinity'' \<or>
         equalIgnoreCase s ''inf'' \<or> equalIgnoreCase s ''infinity'' then Some (Infinite False)
      else if equalIgnoreCase s ''-inf'' \<or> equalIgnoreCase s ''-infinity'' then Some (Infinite True)
      else if equalIgnoreCase s ''nan'' then Some NotANumber
      else None)"

text \<open>The digits of an exponent; those behind a value of 10000 are read over.\<close>

fun exponent_from :: "nat \<Rightarrow> string \<Rightarrow> nat" where
  "exponent_from e [] = e"
| "exponent_from e (c # cs) = exponent_from (if e < 10000 then e * 10 + digit_val c else e) cs"

definition read_exponent :: "string \<Rightarrow> int option" where
  "read_exponent s =
     (case s of
        [] \<Rightarrow> Some 0
      | c # t \<Rightarrow>
          if c \<noteq> CHR ''e'' \<and> c \<noteq> CHR ''E'' then None
          else
            let neg = (t \<noteq> [] \<and> hd t = CHR ''-'');
                ds = (if t \<noteq> [] \<and> hd t \<in> {CHR ''+'', CHR ''-''} then tl t else t)
            in if ds = [] \<or> \<not> list_all is_digit ds then None
               else Some ((if neg then - 1 else 1) * int (exponent_from 0 ds)))"

definition scale10 :: "nat \<Rightarrow> int \<Rightarrow> frac" where
  "scale10 m e = (int (m * 10 ^ nat e), 10 ^ nat (- e))"

text \<open>The decimal number of a string: sign, digits with at most one point, exponent.\<close>

definition read_float :: "string \<Rightarrow> frac option" where
  "read_float s =
     (let neg = (s \<noteq> [] \<and> hd s = CHR ''-'');
          t = (if s \<noteq> [] \<and> hd s \<in> {CHR ''+'', CHR ''-''} then tl s else s);
          whole = takeWhile is_digit t; t = dropWhile is_digit t;
          point = (t \<noteq> [] \<and> hd t = CHR ''.'');
          part = (if point then takeWhile is_digit (tl t) else '''');
          t = (if point then dropWhile is_digit (tl t) else t)
      in if whole @ part = '''' then None
         else
           (case read_exponent t of
              None \<Rightarrow> None
            | Some e \<Rightarrow>
                (case scale10 (dec_val_from 0 (whole @ part)) (e - int (length part)) of
                   (n, d) \<Rightarrow> Some (if neg then - n else n, d))))"

text \<open>\<open>None\<close> is an error: the syntax, or a number too large for the size.\<close>

definition ParseFloat :: "string \<Rightarrow> nat \<Rightarrow> go_float option" where
  "ParseFloat s bitSize =
     (case special_float s of
        Some x \<Rightarrow> Some x
      | None \<Rightarrow>
          (case read_float s of
             None \<Rightarrow> None
           | Some x \<Rightarrow>
               let (n, d) = (if bitSize = 32 then round32 x else round64 x)
               in if (if bitSize = 32 then 2 ^ 128 else 2 ^ 1024) * d \<le> \<bar>n\<bar> then None
                  else Some (Finite (n, d))))"

end
