(* ===== verification/Zone_RR.thy ===== *)
theory Zone_RR
  imports Zone_Base Go_Net Go_Float
begin

text \<open>
  The parsers of the data of each type (\<open>scan_rr.go\<close>): one definition per \<open>setX\<close>, built from the
  fields of \<open>Zone_Base\<close>, and \<open>setRR\<close>, which selects one by the table of the types.

  A parser returns a record, or no record, with the comment of the line.
\<close>

section \<open>Common shapes\<close>

type_synonym rr_result = "RR option \<times> string"

type_synonym rr_parser = "RR_Header \<Rightarrow> string \<Rightarrow> string \<Rightarrow> rr_result parser"

definition rr_ok :: "RR_Header \<Rightarrow> rdata \<Rightarrow> string \<Rightarrow> rr_result parser" where
  "rr_ok h d cm = pret (Some \<lparr>Hdr = h, Rdata = d\<rparr>, cm)"

text \<open>\<open>l := <-c; if l.length == 0 { return rr, nil, cm }\<close>\<close>

definition first_field ::
    "RR_Header \<Rightarrow> (lex \<Rightarrow> rdata) \<Rightarrow> (lex \<Rightarrow> string) \<Rightarrow> (lex \<Rightarrow> rr_result parser) \<Rightarrow> rr_result parser" where
  "first_field h zero cm k = pbind recv (\<lambda>l. if tok_length l = 0 then rr_ok h (zero l) (cm l) else k l)"

definition no_comment :: "lex \<Rightarrow> string" where
  "no_comment l = ''''"

text \<open>\<open><-c; l = <-c\<close>\<close>

definition next_field :: "(lex \<Rightarrow> 'a parser) \<Rightarrow> 'a parser" where
  "next_field k = skip (\<lambda>_. pbind recv k)"

text \<open>A record of one name, and one of a preference and a name.\<close>

definition set_name :: "string \<Rightarrow> (string \<Rightarrow> rdata) \<Rightarrow> rr_parser" where
  "set_name err con h org f =
     first_field h (\<lambda>l. con (token l)) no_comment (\<lambda>l.
       pbind (name_field f err org l) (\<lambda>n. rr_ok h (con n) ''''))"

definition set_pref_name :: "string \<Rightarrow> string \<Rightarrow> (uint16 \<Rightarrow> string \<Rightarrow> rdata) \<Rightarrow> rr_parser" where
  "set_pref_name err1 err2 con h org f =
     first_field h (\<lambda>l. con 0 '''') no_comment (\<lambda>l.
       pbind (uint_field f err1 16 l) (\<lambda>i.
       next_field (\<lambda>l.
       pbind (name_field f err2 org l) (\<lambda>n. rr_ok h (con i n) ''''))))"

text \<open>Two names: a length of 0 is tested for the first one only.\<close>

definition set_names :: "string \<Rightarrow> string \<Rightarrow> (string \<Rightarrow> string \<Rightarrow> rdata) \<Rightarrow> rr_parser" where
  "set_names err1 err2 con h org f =
     first_field h (\<lambda>l. con (token l) '''') no_comment (\<lambda>l.
       pbind (name_field f err1 org l) (\<lambda>n.
       next_field (\<lambda>l.
       pbind (name_field f err2 org l) (\<lambda>m. rr_ok h (con n m) ''''))))"

text \<open>A record that is the rest of the line.\<close>

definition set_ending :: "string \<Rightarrow> (string \<Rightarrow> rdata) \<Rightarrow> rr_parser" where
  "set_ending err con h org f = pbind (endingToString err f) (\<lambda>(s, c1). rr_ok h (con s) c1)"

definition set_txt :: "string \<Rightarrow> (string list \<Rightarrow> rdata) \<Rightarrow> rr_parser" where
  "set_txt err con h org f = pbind (endingToTxtSlice err f) (\<lambda>(s, c1). rr_ok h (con s) c1)"

section \<open>Addresses, names and texts\<close>

definition setA :: rr_parser where
  "setA h org f =
     first_field h (\<lambda>l. Std (RR_A [])) no_comment (\<lambda>l.
       case ParseIP (token l) of
         None \<Rightarrow> pfail f ''bad A A'' l
       | Some ip \<Rightarrow> if tok_err l then pfail f ''bad A A'' l else rr_ok h (Std (RR_A ip)) '''')"

definition setAAAA :: rr_parser where
  "setAAAA h org f =
     first_field h (\<lambda>l. Std (RR_AAAA [])) no_comment (\<lambda>l.
       case ParseIP (token l) of
         None \<Rightarrow> pfail f ''bad AAAA AAAA'' l
       | Some ip \<Rightarrow> if tok_err l then pfail f ''bad AAAA AAAA'' l else rr_ok h (Std (RR_AAAA ip)) '''')"

definition setNS :: rr_parser where "setNS = set_name ''bad NS Ns'' (\<lambda>n. Std (RR_NS n))"

definition setPTR :: rr_parser where "setPTR = set_name ''bad PTR Ptr'' (\<lambda>n. Std (RR_PTR n))"

definition setNSAPPTR :: rr_parser where "setNSAPPTR = set_name ''bad NSAP-PTR Ptr'' (\<lambda>n. Sec (RR_NSAPPTR n))"

definition setRP :: rr_parser where "setRP = set_names ''bad RP Mbox'' ''bad RP Txt'' (\<lambda>n m. Std (RR_RP n m))"

definition setMR :: rr_parser where "setMR = set_name ''bad MR Mr'' (\<lambda>n. Std (RR_MR n))"

definition setMB :: rr_parser where "setMB = set_name ''bad MB Mb'' (\<lambda>n. Std (RR_MB n))"

definition setMG :: rr_parser where "setMG = set_name ''bad MG Mg'' (\<lambda>n. Std (RR_MG n))"

definition setHINFO :: rr_parser where
  "setHINFO h org f =
     pbind (endingToTxtSlice ''bad HINFO Fields'' f) (\<lambda>(chunks, c1).
       if chunks = [] then rr_ok h (Std (RR_HINFO '''' '''')) ''''
       else
         let chunks = (if length chunks = 1 then
                         (let out = Fields (hd chunks) in if length out > 1 then out else chunks @ [''''])
                       else chunks)
         in rr_ok h (Std (RR_HINFO (hd chunks) (join_with CHR '' '' (tl chunks)))) '''')"

definition setMINFO :: rr_parser where
  "setMINFO = set_names ''bad MINFO Rmail'' ''bad MINFO Email'' (\<lambda>n m. Std (RR_MINFO n m))"

definition setMF :: rr_parser where "setMF = set_name ''bad MF Mf'' (\<lambda>n. Std (RR_MF n))"

definition setMD :: rr_parser where "setMD = set_name ''bad MD Md'' (\<lambda>n. Std (RR_MD n))"

definition setMX :: rr_parser where "setMX = set_pref_name ''bad MX Pref'' ''bad MX Mx'' (\<lambda>i n. Std (RR_MX i n))"

text \<open>\<open>setRT\<close> does not test \<open>l.err\<close> after its preference.\<close>

definition setRT :: rr_parser where
  "setRT h org f =
     first_field h (\<lambda>l. Std (RR_RT 0 '''')) no_comment (\<lambda>l.
       case ParseUint10 (token l) 16 of
         None \<Rightarrow> pfail f ''bad RT Preference'' l
       | Some i \<Rightarrow>
           next_field (\<lambda>l.
           pbind (name_field f ''bad RT Host'' org l) (\<lambda>n. rr_ok h (Std (RR_RT (of_nat i) n)) '''')))"

definition setAFSDB :: rr_parser where
  "setAFSDB = set_pref_name ''bad AFSDB Subtype'' ''bad AFSDB Hostname'' (\<lambda>i n. Std (RR_AFSDB i n))"

definition setX25 :: rr_parser where
  "setX25 h org f =
     first_field h (\<lambda>l. Std (RR_X25 '''')) no_comment (\<lambda>l.
       if tok_err l then pfail f ''bad X25 PSDNAddress'' l else rr_ok h (Std (RR_X25 (token l))) '''')"

definition setKX :: rr_parser where
  "setKX = set_pref_name ''bad KX Pref'' ''bad KX Exchanger'' (\<lambda>i n. Sec (RR_KX i n))"

definition setCNAME :: rr_parser where "setCNAME = set_name ''bad CNAME Target'' (\<lambda>n. Std (RR_CNAME n))"

definition setDNAME :: rr_parser where "setDNAME = set_name ''bad CNAME Target'' (\<lambda>n. Std (RR_DNAME n))"

text \<open>The serial is a number; the other parameters of the zone can be times.\<close>

definition soa_param :: "nat \<Rightarrow> string \<Rightarrow> uint32 parser" where
  "soa_param i f =
     pbind recv (\<lambda>l.
       let err = pfail f ''bad SOA zone parameter'' l in
       if tok_err l then err
       else
         (case ParseUint10 (token l) 32 of
            Some j \<Rightarrow> pret (of_nat j)
          | None \<Rightarrow>
              if i = 0 then err
              else (case stringToTtl (token l) of None \<Rightarrow> err | Some v \<Rightarrow> pret v)))"

definition setSOA :: rr_parser where
  "setSOA h org f =
     first_field h (\<lambda>l. Std (RR_SOA (token l) '''' 0 0 0 0 0)) no_comment (\<lambda>l.
     skip (\<lambda>_.
     pbind (name_field f ''bad SOA Ns'' org l) (\<lambda>n.
     pbind recv (\<lambda>l.
     pbind (name_field f ''bad SOA Mbox'' org l) (\<lambda>m.
     skip (\<lambda>_.
     pbind (soa_param 0 f) (\<lambda>serial. skip (\<lambda>_.
     pbind (soa_param 1 f) (\<lambda>refresh. skip (\<lambda>_.
     pbind (soa_param 2 f) (\<lambda>retry. skip (\<lambda>_.
     pbind (soa_param 3 f) (\<lambda>expire. skip (\<lambda>_.
     pbind (soa_param 4 f) (\<lambda>minttl.
       rr_ok h (Std (RR_SOA n m serial refresh retry expire minttl)) '''')))))))))))))))"

definition setSRV :: rr_parser where
  "setSRV h org f =
     first_field h (\<lambda>l. Std (RR_SRV 0 0 0 '''')) no_comment (\<lambda>l.
     pbind (uint_field f ''bad SRV Priority'' 16 l) (\<lambda>p. next_field (\<lambda>l.
     pbind (uint_field f ''bad SRV Weight'' 16 l) (\<lambda>w. next_field (\<lambda>l.
     pbind (uint_field f ''bad SRV Port'' 16 l) (\<lambda>q. next_field (\<lambda>l.
     pbind (name_field f ''bad SRV Target'' org l) (\<lambda>n. rr_ok h (Std (RR_SRV p w q n)) ''''))))))))"

text \<open>A string in quotes, which may be empty.\<close>

definition quoted_field :: "string \<Rightarrow> string \<Rightarrow> string parser" where
  "quoted_field f err =
     pbind recv (\<lambda>l.
       if tok_value l \<noteq> zQuote then pfail f err l
       else
         pbind recv (\<lambda>l.
           if tok_value l = zString then
             pbind recv (\<lambda>l'. if tok_value l' \<noteq> zQuote then pfail f err l' else pret (token l))
           else if tok_value l = zQuote then pret ''''
           else pfail f err l))"

definition setNAPTR :: rr_parser where
  "setNAPTR h org f =
     first_field h (\<lambda>l. Std (RR_NAPTR 0 0 '''' '''' '''' '''')) no_comment (\<lambda>l.
     pbind (uint_field f ''bad NAPTR Order'' 16 l) (\<lambda>i. next_field (\<lambda>l.
     pbind (uint_field f ''bad NAPTR Preference'' 16 l) (\<lambda>p. skip (\<lambda>_.
     pbind (quoted_field f ''bad NAPTR Flags'') (\<lambda>fl. skip (\<lambda>_.
     pbind (quoted_field f ''bad NAPTR Service'') (\<lambda>sv. skip (\<lambda>_.
     pbind (quoted_field f ''bad NAPTR Regexp'') (\<lambda>re. next_field (\<lambda>l.
     pbind (name_field f ''bad NAPTR Replacement'' org l) (\<lambda>n.
       rr_ok h (Std (RR_NAPTR i p fl sv re n)) ''''))))))))))))"

definition setTALINK :: rr_parser where
  "setTALINK = set_names ''bad TALINK PreviousName'' ''bad TALINK NextName'' (\<lambda>n m. Sec (RR_TALINK n m))"

section \<open>Keys and certificates\<close>

text \<open>The names of the servers of a host identity, up to the end of the line.\<close>

fun hip_servers :: "string \<Rightarrow> string \<Rightarrow> string list \<Rightarrow> (string list \<times> string) parser" where
  "hip_servers f org xs [] = Parsed (xs, '''') []"
| "hip_servers f org xs (l # c) =
     (if line_end l then Parsed (xs, tok_comment l) c
      else
        (case tok_value l of
           zString \<Rightarrow>
             (case name_field f ''bad HIP RendezvousServers'' org l c of
                Parsed n _ \<Rightarrow> hip_servers f org (xs @ [n]) c
              | Failed e \<Rightarrow> Failed e
              | Crash p \<Rightarrow> Crash p
              | Hangs \<Rightarrow> Hangs)
         | zBlank \<Rightarrow> hip_servers f org xs c
         | _ \<Rightarrow> pfail f ''bad HIP RendezvousServers'' l c))"

definition setHIP :: rr_parser where
  "setHIP h org f =
     first_field h (\<lambda>l. Ext (RR_HIP 0 0 0 '''' '''' [])) tok_comment (\<lambda>l.
     pbind (uint_field f ''bad HIP PublicKeyAlgorithm'' 8 l) (\<lambda>alg. next_field (\<lambda>l.
       if tok_length l = 0 \<or> tok_err l then pfail f ''bad HIP Hit'' l
       else
         let hit = token l in
         next_field (\<lambda>l.
           if tok_length l = 0 \<or> tok_err l then pfail f ''bad HIP PublicKey'' l
           else
             let key = token l in
             pbind (hip_servers f org []) (\<lambda>(xs, c1).
               rr_ok h (Ext (RR_HIP (of_nat (length hit) div 2) alg (of_nat (length key div 4 * 3)) hit key xs)) c1)))))"

definition setCERT :: rr_parser where
  "setCERT h org f =
     first_field h (\<lambda>l. Std (RR_CERT 0 0 0 '''')) tok_comment (\<lambda>l.
     pbind (case StringToCertType (token l) of
              Some v \<Rightarrow> pret v
            | None \<Rightarrow> (case ParseUint10 (token l) 16 of
                         None \<Rightarrow> pfail f ''bad CERT Type'' l
                       | Some i \<Rightarrow> pret (of_nat i))) (\<lambda>typ. next_field (\<lambda>l.
     pbind (uint_field f ''bad CERT KeyTag'' 16 l) (\<lambda>tag. next_field (\<lambda>l.
     pbind (case StringToAlgorithm (token l) of
              Some v \<Rightarrow> pret v
            | None \<Rightarrow> (case ParseUint10 (token l) 8 of
                         None \<Rightarrow> pfail f ''bad CERT Algorithm'' l
                       | Some i \<Rightarrow> pret (of_nat i))) (\<lambda>alg.
     pbind (endingToString ''bad CERT Certificate'' f) (\<lambda>(s, c1).
       rr_ok h (Std (RR_CERT typ tag alg s)) c1)))))))"

definition setOPENPGPKEY :: rr_parser where
  "setOPENPGPKEY = set_ending ''bad OPENPGPKEY PublicKey'' (\<lambda>s. Ext (RR_OPENPGPKEY s))"

text \<open>\<open>setRRSIG\<close>, with the constructor of the record, which \<open>setSIG\<close> changes.\<close>

definition sig_type :: "string \<Rightarrow> lex \<Rightarrow> uint16 parser" where
  "sig_type f l =
     (case StringToType (tokenUpper l) of
        Some t \<Rightarrow> pret t
      | None \<Rightarrow>
          if HasPrefix (tokenUpper l) ''TYPE'' then
            (case typeToInt (tokenUpper l) of
               None \<Rightarrow> pfail f ''bad RRSIG Typecovered'' l
             | Some t \<Rightarrow> pret t)
          else pfail f ''bad RRSIG Typecovered'' l)"

definition sig_time :: "string \<Rightarrow> string \<Rightarrow> lex \<Rightarrow> uint32 parser" where
  "sig_time f err l =
     (case StringToTime (token l) of
        Some i \<Rightarrow> pret i
      | None \<Rightarrow>
          (case ParseInt10 (token l) 64 of
             Some i \<Rightarrow> pret (of_int i)
           | None \<Rightarrow> pfail f err l))"

definition set_sig ::
    "(uint16 \<Rightarrow> byte \<Rightarrow> byte \<Rightarrow> uint32 \<Rightarrow> uint32 \<Rightarrow> uint32 \<Rightarrow> uint16 \<Rightarrow> string \<Rightarrow> string \<Rightarrow> sec_rdata) \<Rightarrow> rr_parser" where
  "set_sig con h org f =
     first_field h (\<lambda>l. Sec (con 0 0 0 0 0 0 0 '''' '''')) tok_comment (\<lambda>l.
     pbind (sig_type f l) (\<lambda>t. next_field (\<lambda>l.
     pbind (uint_field f ''bad RRSIG Algorithm'' 8 l) (\<lambda>alg. next_field (\<lambda>l.
     pbind (uint_field f ''bad RRSIG Labels'' 8 l) (\<lambda>lab. next_field (\<lambda>l.
     pbind (uint_field f ''bad RRSIG OrigTtl'' 32 l) (\<lambda>ttl. next_field (\<lambda>l.
     pbind (sig_time f ''bad RRSIG Expiration'' l) (\<lambda>exp. next_field (\<lambda>l.
     pbind (sig_time f ''bad RRSIG Inception'' l) (\<lambda>inc. next_field (\<lambda>l.
     pbind (uint_field f ''bad RRSIG KeyTag'' 16 l) (\<lambda>tag. next_field (\<lambda>l.
     pbind (name_field f ''bad RRSIG SignerName'' org l) (\<lambda>n.
     pbind (endingToString ''bad RRSIG Signature'' f) (\<lambda>(s, c1).
       rr_ok h (Sec (con t alg lab ttl exp inc tag n s)) c1)))))))))))))))))"

definition setRRSIG :: rr_parser where "setRRSIG = set_sig RR_RRSIG"

definition setSIG :: rr_parser where "setSIG = set_sig RR_SIG"

text \<open>The types of a bitmap; the flag of an error is not looked at.\<close>

fun bitmap_types :: "string \<Rightarrow> string \<Rightarrow> uint16 list \<Rightarrow> (uint16 list \<times> string) parser" where
  "bitmap_types err f ks [] = Parsed (ks, '''') []"
| "bitmap_types err f ks (l # c) =
     (if line_end l then Parsed (ks, tok_comment l) c
      else
        (case tok_value l of
           zBlank \<Rightarrow> bitmap_types err f ks c
         | zString \<Rightarrow>
             (case StringToType (tokenUpper l) of
                Some k \<Rightarrow> bitmap_types err f (ks @ [k]) c
              | None \<Rightarrow>
                  (case typeToInt (tokenUpper l) of
                     Some k \<Rightarrow> bitmap_types err f (ks @ [k]) c
                   | None \<Rightarrow> pfail f err l c))
         | _ \<Rightarrow> pfail f err l c))"

definition setNSEC :: rr_parser where
  "setNSEC h org f =
     first_field h (\<lambda>l. Sec (RR_NSEC (token l) [])) tok_comment (\<lambda>l.
     pbind (name_field f ''bad NSEC NextDomain'' org l) (\<lambda>n.
     pbind (bitmap_types ''bad NSEC TypeBitMap'' f []) (\<lambda>(ks, c1). rr_ok h (Sec (RR_NSEC n ks)) c1)))"

definition setNSEC3 :: rr_parser where
  "setNSEC3 h org f =
     first_field h (\<lambda>l. Sec (RR_NSEC3 0 0 0 0 '''' 0 '''' [])) tok_comment (\<lambda>l.
     pbind (uint_field f ''bad NSEC3 Hash'' 8 l) (\<lambda>hash. next_field (\<lambda>l.
     pbind (uint_field f ''bad NSEC3 Flags'' 8 l) (\<lambda>flags. next_field (\<lambda>l.
     pbind (uint_field f ''bad NSEC3 Iterations'' 16 l) (\<lambda>iter. next_field (\<lambda>l.
       if length (token l) = 0 \<or> tok_err l then pfail f ''bad NSEC3 Salt'' l
       else
         let salt = token l in
         next_field (\<lambda>l.
           if length (token l) = 0 \<or> tok_err l then pfail f ''bad NSEC3 NextDomain'' l
           else
             pbind (bitmap_types ''bad NSEC3 TypeBitMap'' f []) (\<lambda>(ks, c1).
               rr_ok h (Sec (RR_NSEC3 hash flags iter (of_nat (length salt) div 2) salt 20 (token l) ks)) c1)))))))))"

definition setNSEC3PARAM :: rr_parser where
  "setNSEC3PARAM h org f =
     first_field h (\<lambda>l. Sec (RR_NSEC3PARAM 0 0 0 0 '''')) no_comment (\<lambda>l.
     pbind (uint_field f ''bad NSEC3PARAM Hash'' 8 l) (\<lambda>hash. next_field (\<lambda>l.
     pbind (uint_field f ''bad NSEC3PARAM Flags'' 8 l) (\<lambda>flags. next_field (\<lambda>l.
     pbind (uint_field f ''bad NSEC3PARAM Iterations'' 16 l) (\<lambda>iter. next_field (\<lambda>l.
       rr_ok h (Sec (RR_NSEC3PARAM hash flags iter (of_nat (length (token l))) (token l))) '''')))))))"

section \<open>Numbers and fingerprints\<close>

text \<open>
  The pairs of digits of an address and the dashes between them: \<open>l.token[i+dash]\<close>,
  \<open>l.token[i+1+dash]\<close> and the dash behind them, where \<open>i\<close> is twice \<open>dash\<close>.
\<close>

fun eui_digits :: "nat \<Rightarrow> nat \<Rightarrow> string \<Rightarrow> string option outcome" where
  "eui_digits 0 j s = Ok (Some '''')"
| "eui_digits (Suc n) j s =
     obind (go_index s (int (3 * j))) (\<lambda>a.
     obind (go_index s (int (3 * j + 1))) (\<lambda>b.
     obind (go_index s (int (3 * j + 2))) (\<lambda>d.
       if d \<noteq> CHR ''-'' then Ok None
       else map_ok (map_option (\<lambda>rest. a # b # rest)) (eui_digits n (Suc j) s))))"

text \<open>\<open>n\<close> pairs with a dash behind them and a last one, with the error of a bad value of its own.\<close>

definition set_eui :: "nat \<Rightarrow> string \<Rightarrow> string \<Rightarrow> (uint64 \<Rightarrow> rdata) \<Rightarrow> rr_parser" where
  "set_eui n err1 err2 con h org f =
     first_field h (\<lambda>l. con 0) no_comment (\<lambda>l.
       if tok_length l \<noteq> 3 * n + 2 \<or> tok_err l then pfail f err1 l
       else
         lift (eui_digits n 0 (token l)) (\<lambda>addr.
           case addr of
             None \<Rightarrow> pfail f err1 l
           | Some addr \<Rightarrow>
               lift (go_index (token l) (int (3 * n))) (\<lambda>a.
               lift (go_index (token l) (int (3 * n + 1))) (\<lambda>b.
                 case ParseUint16 (addr @ [a, b]) (8 * (n + 1)) of
                   None \<Rightarrow> pfail f err2 l
                 | Some i \<Rightarrow> rr_ok h (con (of_nat i)) ''''))))"

definition setEUI48 :: rr_parser where
  "setEUI48 = set_eui 5 ''bad EUI48 Address'' ''bad EUI48 Address'' (\<lambda>i. Ext (RR_EUI48 i))"

definition setEUI64 :: rr_parser where
  "setEUI64 = set_eui 7 ''bad EUI64 Address'' ''bad EUI68 Address'' (\<lambda>i. Ext (RR_EUI64 i))"

definition setSSHFP :: rr_parser where
  "setSSHFP h org f =
     first_field h (\<lambda>l. Sec (RR_SSHFP 0 0 '''')) no_comment (\<lambda>l.
     pbind (uint_field f ''bad SSHFP Algorithm'' 8 l) (\<lambda>alg. next_field (\<lambda>l.
     pbind (uint_field f ''bad SSHFP Type'' 8 l) (\<lambda>typ. skip (\<lambda>_.
     pbind (endingToString ''bad SSHFP Fingerprint'' f) (\<lambda>(s, c1).
       rr_ok h (Sec (RR_SSHFP alg typ s)) ''''))))))"

text \<open>\<open>setDNSKEYs\<close>, with the constructor of the record, which its callers change.\<close>

definition setDNSKEYs :: "(uint16 \<Rightarrow> byte \<Rightarrow> byte \<Rightarrow> string \<Rightarrow> sec_rdata) \<Rightarrow> string \<Rightarrow> rr_parser" where
  "setDNSKEYs con typ h org f =
     first_field h (\<lambda>l. Sec (con 0 0 0 '''')) tok_comment (\<lambda>l.
     pbind (uint_field f (''bad '' @ typ @ '' Flags'') 16 l) (\<lambda>flags. next_field (\<lambda>l.
     pbind (uint_field f (''bad '' @ typ @ '' Protocol'') 8 l) (\<lambda>proto. next_field (\<lambda>l.
     pbind (uint_field f (''bad '' @ typ @ '' Algorithm'') 8 l) (\<lambda>alg.
     pbind (endingToString (''bad '' @ typ @ '' PublicKey'') f) (\<lambda>(s, c1).
       rr_ok h (Sec (con flags proto alg s)) c1)))))))"

definition setKEY :: rr_parser where "setKEY = setDNSKEYs RR_KEY ''KEY''"

definition setDNSKEY :: rr_parser where "setDNSKEY = setDNSKEYs RR_DNSKEY ''DNSKEY''"

definition setCDNSKEY :: rr_parser where "setCDNSKEY = setDNSKEYs RR_CDNSKEY ''CDNSKEY''"

definition setRKEY :: rr_parser where
  "setRKEY h org f =
     first_field h (\<lambda>l. Sec (RR_RKEY 0 0 0 '''')) tok_comment (\<lambda>l.
     pbind (uint_field f ''bad RKEY Flags'' 16 l) (\<lambda>flags. next_field (\<lambda>l.
     pbind (uint_field f ''bad RKEY Protocol'' 8 l) (\<lambda>proto. next_field (\<lambda>l.
     pbind (uint_field f ''bad RKEY Algorithm'' 8 l) (\<lambda>alg.
     pbind (endingToString ''bad RKEY PublicKey'' f) (\<lambda>(s, c1).
       rr_ok h (Sec (RR_RKEY flags proto alg s)) c1)))))))"

definition setEID :: rr_parser where
  "setEID = set_ending ''bad EID Endpoint'' (\<lambda>s. Ext (RR_EID s))"

definition setNIMLOC :: rr_parser where
  "setNIMLOC = set_ending ''bad NIMLOC Locator'' (\<lambda>s. Ext (RR_NIMLOC s))"

text \<open>The algorithm of a digest is a number or a name.\<close>

definition algorithm_field :: "string \<Rightarrow> string \<Rightarrow> lex \<Rightarrow> byte parser" where
  "algorithm_field f err l =
     (case ParseUint10 (token l) 8 of
        Some i \<Rightarrow> pret (of_nat i)
      | None \<Rightarrow>
          (case StringToAlgorithm (tokenUpper l) of
             None \<Rightarrow> pfail f err l
           | Some i \<Rightarrow> if tok_err l then pfail f err l else pret i))"

definition setDSs :: "(uint16 \<Rightarrow> byte \<Rightarrow> byte \<Rightarrow> string \<Rightarrow> sec_rdata) \<Rightarrow> string \<Rightarrow> rr_parser" where
  "setDSs con typ h org f =
     first_field h (\<lambda>l. Sec (con 0 0 0 '''')) tok_comment (\<lambda>l.
     pbind (uint_field f (''bad '' @ typ @ '' KeyTag'') 16 l) (\<lambda>tag. next_field (\<lambda>l.
     pbind (algorithm_field f (''bad '' @ typ @ '' Algorithm'') l) (\<lambda>alg. next_field (\<lambda>l.
     pbind (uint_field f (''bad '' @ typ @ '' DigestType'') 8 l) (\<lambda>dt.
     pbind (endingToString (''bad '' @ typ @ '' Digest'') f) (\<lambda>(s, c1).
       rr_ok h (Sec (con tag alg dt s)) c1)))))))"

definition setDS :: rr_parser where "setDS = setDSs RR_DS ''DS''"

definition setDLV :: rr_parser where "setDLV = setDSs RR_DLV ''DLV''"

definition setCDS :: rr_parser where "setCDS = setDSs RR_CDS ''CDS''"

text \<open>
  \<open>setTA\<close>: the error of \<open>endingToString\<close> goes into the variable \<open>e\<close> of type \<open>error\<close>, which is not
  \<open>nil\<close> then even when the pointer in it is; the record is dropped, with no error.
\<close>

definition setTA :: rr_parser where
  "setTA h org f =
     first_field h (\<lambda>l. Sec (RR_TA 0 0 0 '''')) tok_comment (\<lambda>l.
     pbind (uint_field f ''bad TA KeyTag'' 16 l) (\<lambda>tag :: uint16. next_field (\<lambda>l.
     pbind (algorithm_field f ''bad TA Algorithm'' l) (\<lambda>alg. next_field (\<lambda>l.
     pbind (uint_field f ''bad TA DigestType'' 8 l) (\<lambda>dt :: byte.
     pbind (endingToString ''bad TA Digest'' f) (\<lambda>(s, c1). pret (None, c1))))))))"

definition setTLSA :: rr_parser where
  "setTLSA h org f =
     first_field h (\<lambda>l. Ext (RR_TLSA 0 0 0 '''')) tok_comment (\<lambda>l.
     pbind (uint_field f ''bad TLSA Usage'' 8 l) (\<lambda>usage. next_field (\<lambda>l.
     pbind (uint_field f ''bad TLSA Selector'' 8 l) (\<lambda>sel. next_field (\<lambda>l.
     pbind (uint_field f ''bad TLSA MatchingType'' 8 l) (\<lambda>mt.
     pbind (endingToString ''bad TLSA Certificate'' f) (\<lambda>(s, c1).
       rr_ok h (Ext (RR_TLSA usage sel mt s)) c1)))))))"

definition setSMIMEA :: rr_parser where
  "setSMIMEA h org f =
     first_field h (\<lambda>l. Ext (RR_SMIMEA 0 0 0 '''')) tok_comment (\<lambda>l.
     pbind (uint_field f ''bad SMIMEA Usage'' 8 l) (\<lambda>usage. next_field (\<lambda>l.
     pbind (uint_field f ''bad SMIMEA Selector'' 8 l) (\<lambda>sel. next_field (\<lambda>l.
     pbind (uint_field f ''bad SMIMEA MatchingType'' 8 l) (\<lambda>mt.
     pbind (endingToString ''bad SMIMEA Certificate'' f) (\<lambda>(s, c1).
       rr_ok h (Ext (RR_SMIMEA usage sel mt s)) c1)))))))"

text \<open>The length of unknown data; twice the length wraps around at 64 bits.\<close>

definition setRFC3597 :: rr_parser where
  "setRFC3597 h org f =
     pbind recv (\<lambda>l.
       if token l \<noteq> [CHR 0x5C, CHR ''#''] then pfail f ''bad RFC3597 Rdata'' l
       else
         next_field (\<lambda>l.
           case ParseInt10 (token l) 64 of
             None \<Rightarrow> pfail f ''bad RFC3597 Rdata '' l
           | Some rdlength \<Rightarrow>
               if tok_err l then pfail f ''bad RFC3597 Rdata '' l
               else
                 pbind (endingToString ''bad RFC3597 Rdata'' f) (\<lambda>(s, c1).
                   if (of_int (rdlength * 2) :: 64 word) \<noteq> of_nat (length s) then pfail f ''bad RFC3597 Rdata'' l
                   else rr_ok h (Ext (RR_RFC3597 s)) c1)))"

definition setSPF :: rr_parser where "setSPF = set_txt ''bad SPF Txt'' (\<lambda>s. Std (RR_SPF s))"

definition setAVC :: rr_parser where "setAVC = set_txt ''bad AVC Txt'' (\<lambda>s. Std (RR_AVC s))"

definition setTXT :: rr_parser where "setTXT = set_txt ''bad TXT Txt'' (\<lambda>s. Std (RR_TXT s))"

definition setNINFO :: rr_parser where "setNINFO = set_txt ''bad NINFO ZSData'' (\<lambda>s. Ext (RR_NINFO s))"

text \<open>\<open>s[0]\<close> of the one text that may be there: there is none when the line ends before it.\<close>

definition one_text :: "string \<Rightarrow> string \<Rightarrow> lex \<Rightarrow> (string \<Rightarrow> string \<Rightarrow> rr_result parser) \<Rightarrow> rr_result parser" where
  "one_text err f l k =
     pbind (endingToTxtSlice err f) (\<lambda>(s, c1).
       if length s > 1 then pfail f err l else lift (go_index s 0) (\<lambda>x. k x c1))"

definition setURI :: rr_parser where
  "setURI h org f =
     first_field h (\<lambda>l. Ext (RR_URI 0 0 '''')) no_comment (\<lambda>l.
     pbind (uint_field f ''bad URI Priority'' 16 l) (\<lambda>p. next_field (\<lambda>l.
     pbind (uint_field f ''bad URI Weight'' 16 l) (\<lambda>w. skip (\<lambda>_.
     one_text ''bad URI Target'' f l (\<lambda>x c1. rr_ok h (Ext (RR_URI p w x)) c1))))))"

definition setDHCID :: rr_parser where
  "setDHCID = set_ending ''bad DHCID Digest'' (\<lambda>s. Ext (RR_DHCID s))"

definition setNID :: rr_parser where
  "setNID h org f =
     first_field h (\<lambda>l. Ext (RR_NID 0 0)) no_comment (\<lambda>l.
     pbind (uint_field f ''bad NID Preference'' 16 l) (\<lambda>i. next_field (\<lambda>l.
     pbind (stringToNodeID l) (\<lambda>u.
       if tok_err l then pret (None, '''') else rr_ok h (Ext (RR_NID i u)) ''''))))"

definition setL32 :: rr_parser where
  "setL32 h org f =
     first_field h (\<lambda>l. Ext (RR_L32 0 [])) no_comment (\<lambda>l.
     pbind (uint_field f ''bad L32 Preference'' 16 l) (\<lambda>i. next_field (\<lambda>l.
       case ParseIP (token l) of
         None \<Rightarrow> pfail f ''bad L32 Locator'' l
       | Some ip \<Rightarrow> if tok_err l then pfail f ''bad L32 Locator'' l else rr_ok h (Ext (RR_L32 i ip)) '''')))"

definition setLP :: rr_parser where
  "setLP h org f =
     first_field h (\<lambda>l. Ext (RR_LP 0 '''')) no_comment (\<lambda>l.
     pbind (uint_field f ''bad LP Preference'' 16 l) (\<lambda>i. next_field (\<lambda>l.
       if tok_length l = 0 then rr_ok h (Ext (RR_LP i (token l))) ''''
       else pbind (name_field f ''bad LP Fqdn'' org l) (\<lambda>n. rr_ok h (Ext (RR_LP i n)) ''''))))"

definition setL64 :: rr_parser where
  "setL64 h org f =
     first_field h (\<lambda>l. Ext (RR_L64 0 0)) no_comment (\<lambda>l.
     pbind (uint_field f ''bad L64 Preference'' 16 l) (\<lambda>i. next_field (\<lambda>l.
     pbind (stringToNodeID l) (\<lambda>u.
       if tok_err l then pret (None, '''') else rr_ok h (Ext (RR_L64 i u)) ''''))))"

definition setUID :: rr_parser where
  "setUID h org f =
     first_field h (\<lambda>l. Ext (RR_UID 0)) no_comment (\<lambda>l.
     pbind (uint_field f ''bad UID Uid'' 32 l) (\<lambda>i. rr_ok h (Ext (RR_UID i)) ''''))"

definition setGID :: rr_parser where
  "setGID h org f =
     first_field h (\<lambda>l. Ext (RR_GID 0)) no_comment (\<lambda>l.
     pbind (uint_field f ''bad GID Gid'' 32 l) (\<lambda>i. rr_ok h (Ext (RR_GID i)) ''''))"

definition setUINFO :: rr_parser where
  "setUINFO h org f =
     pbind (endingToTxtSlice ''bad UINFO Uinfo'' f) (\<lambda>(s, c1).
       rr_ok h (Ext (RR_UINFO (if s = [] then '''' else hd s))) c1)"

text \<open>\<open>setPX\<close> returns when the first name is \<open>@\<close>.\<close>

definition setPX :: rr_parser where
  "setPX h org f =
     first_field h (\<lambda>l. Sec (RR_PX 0 '''' '''')) no_comment (\<lambda>l.
     pbind (uint_field f ''bad PX Preference'' 16 l) (\<lambda>i. next_field (\<lambda>l.
       if tok_length l = 0 then rr_ok h (Sec (RR_PX i (token l) '''')) ''''
       else if token l = ''@'' then rr_ok h (Sec (RR_PX i org '''')) ''''
       else
         pbind (name_field f ''bad PX Map822'' org l) (\<lambda>n. next_field (\<lambda>l.
         pbind (name_field f ''bad PX Mapx400'' org l) (\<lambda>m. rr_ok h (Sec (RR_PX i n m)) ''''))))))"

definition setCAA :: rr_parser where
  "setCAA h org f =
     first_field h (\<lambda>l. Ext (RR_CAA 0 '''' '''')) tok_comment (\<lambda>l.
     pbind (uint_field f ''bad CAA Flag'' 8 l) (\<lambda>flag. next_field (\<lambda>l.
       if tok_value l \<noteq> zString then pfail f ''bad CAA Tag'' l
       else
         let tag = token l in
         skip (\<lambda>_. one_text ''bad CAA Value'' f l (\<lambda>x c1. rr_ok h (Ext (RR_CAA flag tag x)) c1)))))"

section \<open>Locations\<close>

definition setGPOS :: rr_parser where
  "setGPOS h org f =
     first_field h (\<lambda>l. Sec (RR_GPOS '''' '''' '''')) no_comment (\<lambda>l.
       if ParseFloat (token l) 64 = None \<or> tok_err l then pfail f ''bad GPOS Longitude'' l
       else
         let lon = token l in
         next_field (\<lambda>l.
           if ParseFloat (token l) 64 = None \<or> tok_err l then pfail f ''bad GPOS Latitude'' l
           else
             let lat = token l in
             next_field (\<lambda>l.
               if ParseFloat (token l) 64 = None \<or> tok_err l then pfail f ''bad GPOS Altitude'' l
               else rr_ok h (Sec (RR_GPOS lon lat (token l))) '''')))"

text \<open>\<open>locCheckNorth\<close>, \<open>locCheckEast\<close>: the offset to the equator or the prime meridian\<close>

definition locCheckNorth :: "string \<Rightarrow> uint32 \<Rightarrow> uint32 \<times> bool" where
  "locCheckNorth s lat =
     (if s = ''n'' \<or> s = ''N'' then (2 ^ 31 + lat, True)
      else if s = ''s'' \<or> s = ''S'' then (2 ^ 31 - lat, True)
      else (lat, False))"

definition locCheckEast :: "string \<Rightarrow> uint32 \<Rightarrow> uint32 \<times> bool" where
  "locCheckEast s lon =
     (if s = ''e'' \<or> s = ''E'' then (2 ^ 31 + lon, True)
      else if s = ''w'' \<or> s = ''W'' then (2 ^ 31 - lon, True)
      else (lon, False))"

text \<open>
  \<open>stringToCm\<close>: a length in metres as a mantissa and a power of ten, in centimetres.  The digits
  behind the point count only when there are no whole metres.
\<close>

function cm_loop :: "byte \<Rightarrow> int \<Rightarrow> byte \<times> int" where
  "cm_loop e v = (if 10 < v then cm_loop (e + 1) (v div 10) else (e, v))"
  by auto
termination by (relation "measure (nat \<circ> snd)") auto

declare cm_loop.simps [simp del]

definition stringToCm :: "string \<Rightarrow> (byte \<times> byte \<times> bool) outcome" where
  "stringToCm s =
     obind (go_index s (int (length s) - 1)) (\<lambda>b.
       let s = (if b = CHR ''M'' \<or> b = CHR ''m'' then butlast s else s);
           parts = SplitN 2 CHR ''.'' s;
           cm = (if length parts = 2 then ParseInt10 (parts ! 1) 64 else Some 0);
           meters = ParseInt10 (parts ! 0) 64
       in case (cm, meters) of
            (Some cm, Some meters) \<Rightarrow>
              (case (if 0 < meters then cm_loop 2 meters else cm_loop 0 cm) of
                 (e, v) \<Rightarrow> Ok (e, of_int v, \<not> 9 < e))
          | _ \<Rightarrow> Ok (0, 0, False))"

text \<open>
  Degrees, minutes and seconds up to the direction, which may come after any of them.  The seconds
  are parsed to the precision of a \<open>float32\<close>.
\<close>

definition loc_angle_field ::
    "string \<Rightarrow> string \<Rightarrow> string \<Rightarrow> (string \<Rightarrow> uint32 \<Rightarrow> uint32 \<times> bool) \<Rightarrow> lex \<Rightarrow>
     (uint32 \<Rightarrow> rr_result parser) \<Rightarrow> rr_result parser" where
  "loc_angle_field f err dirs check l k =
     pbind (uint_field f err 32 l) (\<lambda>i. next_field (\<lambda>l.
       case check (token l) (1000 * 60 * 60 * i) of
         (v, True) \<Rightarrow> k v
       | (v, False) \<Rightarrow>
           pbind (uint_field f (err @ '' minutes'') 32 l) (\<lambda>i. next_field (\<lambda>l.
             case ParseFloat (token l) 32 of
               None \<Rightarrow> pfail f (err @ '' seconds'') l
             | Some x \<Rightarrow>
                 if tok_err l then pfail f (err @ '' seconds'') l
                 else next_field (\<lambda>l.
                   case check (token l) (v + 1000 * 60 * i + float_uint32 (float_mul 1000 x)) of
                     (v, True) \<Rightarrow> k v
                   | (v, False) \<Rightarrow> pfail f (err @ dirs) l)))))"

text \<open>The size and the two precisions; further words are read over.\<close>

fun loc_sizes :: "string \<Rightarrow> nat \<Rightarrow> byte list \<Rightarrow> (byte list) parser" where
  "loc_sizes f n sizes [] = Parsed sizes []"
| "loc_sizes f n sizes (l # c) =
     (if line_end l then Parsed sizes c
      else
        (case tok_value l of
           zString \<Rightarrow>
             if n < 3 then
               (case stringToCm (token l) of
                  Ok (e, m, ok) \<Rightarrow>
                    if \<not> ok then pfail f ([''bad LOC Size'', ''bad LOC HorizPre'', ''bad LOC VertPre''] ! n) l c
                    else loc_sizes f (n + 1) (sizes[n := (e AND 0x0F) OR (push_bit 4 m AND 0xF0)]) c
                | Panic p \<Rightarrow> Crash p
                | _ \<Rightarrow> Hangs)
             else loc_sizes f (n + 1) sizes c
         | zBlank \<Rightarrow> loc_sizes f n sizes c
         | _ \<Rightarrow> pfail f ''bad LOC Size, HorizPre or VertPre'' l c))"

definition loc_altitude_field :: "string \<Rightarrow> lex \<Rightarrow> (uint32 \<Rightarrow> rr_result parser) \<Rightarrow> rr_result parser" where
  "loc_altitude_field f l k =
     (if tok_length l = 0 \<or> tok_err l then pfail f ''bad LOC Altitude'' l
      else lift (go_index (token l) (int (length (token l)) - 1)) (\<lambda>b.
        let l = (if b = CHR ''M'' \<or> b = CHR ''m'' then l\<lparr>token := butlast (token l)\<rparr> else l)
        in case ParseFloat (token l) 32 of
             None \<Rightarrow> pfail f ''bad LOC Altitude'' l
           | Some x \<Rightarrow> k (float_uint32 (float_add (1, 2) (float_add (10000000, 1) (float_mul 100 x))))))"

definition setLOC :: rr_parser where
  "setLOC h org f =
     first_field h (\<lambda>l. Sec (RR_LOC 0 18 165 162 0 0 0)) no_comment (\<lambda>l.
       loc_angle_field f ''bad LOC Latitude'' '' North/South'' locCheckNorth l (\<lambda>lat. next_field (\<lambda>l.
       loc_angle_field f ''bad LOC Longitude'' '' East/West'' locCheckEast l (\<lambda>lon. next_field (\<lambda>l.
       loc_altitude_field f l (\<lambda>alt.
       pbind (loc_sizes f 0 [18, 165, 162]) (\<lambda>sizes.
         rr_ok h (Sec (RR_LOC 0 (sizes ! 0) (sizes ! 1) (sizes ! 2) lat lon alt)) '''')))))))"

section \<open>The table of the types\<close>

text \<open>The second component of an entry is \<open>Variable\<close>: the parser reads up to the end of the line.\<close>

definition typeToparserFunc :: "(uint16 \<times> rr_parser \<times> bool) list" where
  "typeToparserFunc =
     [(TypeAAAA, setAAAA, False), (TypeAFSDB, setAFSDB, False), (TypeA, setA, False), (TypeCAA, setCAA, True),
      (TypeCDS, setCDS, True), (TypeCDNSKEY, setCDNSKEY, True), (TypeCERT, setCERT, True),
      (TypeCNAME, setCNAME, False), (TypeDHCID, setDHCID, True), (TypeDLV, setDLV, True),
      (TypeDNAME, setDNAME, False), (TypeKEY, setKEY, True), (TypeDNSKEY, setDNSKEY, True), (TypeDS, setDS, True),
      (TypeEID, setEID, True), (TypeEUI48, setEUI48, False), (TypeEUI64, setEUI64, False), (TypeGID, setGID, False),
      (TypeGPOS, setGPOS, False), (TypeHINFO, setHINFO, True), (TypeHIP, setHIP, True), (TypeKX, setKX, False),
      (TypeL32, setL32, False), (TypeL64, setL64, False), (TypeLOC, setLOC, True), (TypeLP, setLP, False),
      (TypeMB, setMB, False), (TypeMD, setMD, False), (TypeMF, setMF, False), (TypeMG, setMG, False),
      (TypeMINFO, setMINFO, False), (TypeMR, setMR, False), (TypeMX, setMX, False), (TypeNAPTR, setNAPTR, False),
      (TypeNID, setNID, False), (TypeNIMLOC, setNIMLOC, True), (TypeNINFO, setNINFO, True),
      (TypeNSAPPTR, setNSAPPTR, False), (TypeNSEC3PARAM, setNSEC3PARAM, False), (TypeNSEC3, setNSEC3, True),
      (TypeNSEC, setNSEC, True), (TypeNS, setNS, False), (TypeOPENPGPKEY, setOPENPGPKEY, True),
      (TypePTR, setPTR, False), (TypePX, setPX, False), (TypeSIG, setSIG, True), (TypeRKEY, setRKEY, True),
      (TypeRP, setRP, False), (TypeRRSIG, setRRSIG, True), (TypeRT, setRT, False), (TypeSMIMEA, setSMIMEA, True),
      (TypeSOA, setSOA, False), (TypeSPF, setSPF, True), (TypeAVC, setAVC, True), (TypeSRV, setSRV, False),
      (TypeSSHFP, setSSHFP, True), (TypeTALINK, setTALINK, False), (TypeTA, setTA, True), (TypeTLSA, setTLSA, True),
      (TypeTXT, setTXT, True), (TypeUID, setUID, False), (TypeUINFO, setUINFO, True), (TypeURI, setURI, True),
      (TypeX25, setX25, False)]"

text \<open>
  \<open>setRR\<close>: a parser of fixed length is followed by the rest of the line; an unknown type has data of
  the form of RFC 3597.
\<close>

definition setRR :: rr_parser where
  "setRR h org f =
     (case map_of (typeToparserFunc) (Rrtype h) of
        Some (fn, var) \<Rightarrow>
          if var then fn h org f
          else pbind (fn h org f) (\<lambda>(r, cm). pbind (slurpRemainder f) (\<lambda>cm. pret (r, cm)))
      | None \<Rightarrow> setRFC3597 h org f)"

section \<open>Parsers only read on\<close>

text \<open>What a parser leaves of the channel is the end of what it was given.\<close>

definition shrinks :: "'a parser \<Rightarrow> bool" where
  "shrinks p \<longleftrightarrow> (\<forall>c x c'. p c = Parsed x c' \<longrightarrow> suffix c' c)"

named_theorems shrink_rules "introduction rules for parsers that only read on"

lemma shrinksI: "(\<And>c x c'. p c = Parsed x c' \<Longrightarrow> suffix c' c) \<Longrightarrow> shrinks p"
  by (simp add: shrinks_def)

lemma shrinksD: "shrinks p \<Longrightarrow> p c = Parsed x c' \<Longrightarrow> suffix c' c"
  by (simp add: shrinks_def)

lemma shrinks_pret [shrink_rules]: "shrinks (pret x)"
  by (simp add: shrinks_def pret_def)

lemma shrinks_pfail [shrink_rules]: "shrinks (pfail f err l)"
  by (simp add: shrinks_def pfail_def)

lemma shrinks_recv [shrink_rules]: "shrinks recv"
  by (rule shrinksI) (erule recv.elims, auto intro: suffix_ConsI)

lemma shrinks_pbind [shrink_rules]:
  assumes "shrinks m" "\<And>x. shrinks (f x)"
  shows "shrinks (pbind m f)"
proof (rule shrinksI)
  fix c y c' assume "pbind m f c = Parsed y c'"
  then obtain x c1 where "m c = Parsed x c1" "f x c1 = Parsed y c'"
    by (cases "m c") (auto simp: pbind_def)
  then show "suffix c' c" using shrinksD [OF assms(1)] shrinksD [OF assms(2)] suffix_order.trans by blast
qed

lemma shrinks_skip [shrink_rules]: "shrinks (f ()) \<Longrightarrow> shrinks (skip f)"
  unfolding skip_def by (intro shrink_rules)

lemma shrinks_lift [shrink_rules]: "(\<And>x. shrinks (g x)) \<Longrightarrow> shrinks (lift m g)"
  by (cases m) (auto simp: lift_def shrinks_def)

lemma shrinks_if [shrink_rules]: "(b \<Longrightarrow> shrinks p) \<Longrightarrow> (\<not> b \<Longrightarrow> shrinks q) \<Longrightarrow> shrinks (if b then p else q)"
  by simp

lemma shrinks_option [shrink_rules]:
  "shrinks p \<Longrightarrow> (\<And>x. shrinks (q x)) \<Longrightarrow> shrinks (case m of None \<Rightarrow> p | Some x \<Rightarrow> q x)"
  by (cases m) auto

lemma shrinks_prod [shrink_rules]: "(\<And>a b. shrinks (p a b)) \<Longrightarrow> shrinks (case x of (a, b) \<Rightarrow> p a b)"
  by (cases x) auto

lemma shrinks_Let [shrink_rules]: "shrinks (p x) \<Longrightarrow> shrinks (let y = x in p y)"
  by simp

lemma shrinks_rr_ok [shrink_rules]: "shrinks (rr_ok h d cm)"
  unfolding rr_ok_def by (rule shrink_rules)

lemma shrinks_first_field [shrink_rules]: "(\<And>l. shrinks (k l)) \<Longrightarrow> shrinks (first_field h zero cm k)"
  unfolding first_field_def by (intro shrink_rules)

lemma shrinks_next_field [shrink_rules]: "(\<And>l. shrinks (k l)) \<Longrightarrow> shrinks (next_field k)"
  unfolding next_field_def by (intro shrink_rules)

lemma shrinks_name_field [shrink_rules]: "shrinks (name_field f err org l)"
  unfolding name_field_def by (intro shrink_rules)

lemma shrinks_uint_field [shrink_rules]: "shrinks (uint_field f err n l)"
  unfolding uint_field_def by (intro shrink_rules)

lemma shrinks_slurpRemainder [shrink_rules]: "shrinks (slurpRemainder f)"
  unfolding slurpRemainder_def by (intro shrink_rules) (auto split: zvalue.split intro!: shrink_rules)

lemma shrinks_ending_loop: "shrinks (endingToString_loop errstr f s)"
proof (rule shrinksI)
  show "suffix c' c" if "endingToString_loop errstr f s c = Parsed x c'" for c x c'
    using that
    by (induction errstr f s c rule: endingToString_loop.induct)
       (auto simp: pfail_def split: if_splits zvalue.splits intro: suffix_ConsI)
qed

lemma shrinks_endingToString [shrink_rules]: "shrinks (endingToString errstr f)"
  unfolding endingToString_def by (rule shrinks_ending_loop)

lemma shrinks_txt_loop: "shrinks (endingToTxtSlice_loop errstr f s quote emp l)"
proof (rule shrinksI)
  show "suffix c' c" if "endingToTxtSlice_loop errstr f s quote emp l c = Parsed x c'" for c x c'
    using that
  proof (induction errstr f s quote emp l c rule: endingToTxtSlice_loop.induct)
    case (1 errstr f s quote emp l c)
    show ?case
    proof (cases "line_end l \<or> tok_err l")
      case True
      then show ?thesis using "1.prems"
        by (subst (asm) endingToTxtSlice_loop.simps) (auto simp: pfail_def split: if_splits)
    next
      case more: False
      show ?thesis
      proof (cases c)
        case Nil
        then show ?thesis using "1.prems" more
          by (subst (asm) endingToTxtSlice_loop.simps) (auto simp: pfail_def Let_def split: if_splits zvalue.splits)
      next
        case (Cons l' c1)
        obtain s' q' e' where "endingToTxtSlice_loop errstr f s' q' e' l' c1 = Parsed x c'"
          using "1.prems" more Cons
          by (subst (asm) endingToTxtSlice_loop.simps) (auto simp: pfail_def Let_def split: if_splits zvalue.splits)
        then have "suffix c' c1" using "1.IH" [OF _ _ Cons] more by blast
        then show ?thesis using Cons by (auto intro: suffix_ConsI)
      qed
    qed
  qed
qed

lemma shrinks_endingToTxtSlice [shrink_rules]: "shrinks (endingToTxtSlice errstr f)"
  unfolding endingToTxtSlice_def by (intro shrink_rules shrinks_txt_loop)

lemma shrinks_stringToNodeID [shrink_rules]: "shrinks (stringToNodeID l)"
  unfolding stringToNodeID_def Let_def by (intro shrink_rules)

lemma shrinks_hip_servers [shrink_rules]: "shrinks (hip_servers f org xs)"
proof (rule shrinksI)
  show "suffix c' c" if "hip_servers f org xs c = Parsed x c'" for c x c'
    using that
    by (induction f org xs c rule: hip_servers.induct)
       (auto simp: pfail_def split: if_splits zvalue.splits parsed.splits intro: suffix_ConsI)
qed

lemma shrinks_bitmap_types [shrink_rules]: "shrinks (bitmap_types err f ks)"
proof (rule shrinksI)
  show "suffix c' c" if "bitmap_types err f ks c = Parsed x c'" for c x c'
    using that
    by (induction err f ks c rule: bitmap_types.induct)
       (auto simp: pfail_def split: if_splits zvalue.splits option.splits intro: suffix_ConsI)
qed

lemma shrinks_loc_sizes [shrink_rules]: "shrinks (loc_sizes f n sizes)"
proof (rule shrinksI)
  show "suffix c' c" if "loc_sizes f n sizes c = Parsed x c'" for c x c'
    using that
    by (induction f n sizes c rule: loc_sizes.induct)
       (auto simp: pfail_def split: if_splits zvalue.splits outcome.splits prod.splits intro: suffix_ConsI)
qed

lemma shrinks_checked [shrink_rules]:
  "(\<And>v. shrinks (p v)) \<Longrightarrow> (\<And>v. shrinks (q v)) \<Longrightarrow> shrinks (case x of (v, True) \<Rightarrow> p v | (v, False) \<Rightarrow> q v)"
  by (cases x) (auto split: bool.split)

lemma shrinks_loc_angle [shrink_rules]:
  "(\<And>v. shrinks (k v)) \<Longrightarrow> shrinks (loc_angle_field f err dirs check l k)"
  unfolding loc_angle_field_def by (intro shrink_rules)

lemma shrinks_loc_altitude [shrink_rules]: "(\<And>v. shrinks (k v)) \<Longrightarrow> shrinks (loc_altitude_field f l k)"
  unfolding loc_altitude_field_def Let_def by (intro shrink_rules)

lemma shrinks_eui [shrink_rules]: "shrinks (set_eui n err1 err2 con h org f)"
  unfolding set_eui_def by (intro shrink_rules)

lemmas set_shape_defs = set_name_def set_pref_name_def set_names_def set_ending_def set_txt_def set_sig_def
  soa_param_def quoted_field_def sig_type_def sig_time_def algorithm_field_def one_text_def

lemmas set_defs = setA_def setAAAA_def setNS_def setPTR_def setNSAPPTR_def setRP_def setMR_def setMB_def
  setMG_def setHINFO_def setMINFO_def setMF_def setMD_def setMX_def setRT_def setAFSDB_def setX25_def
  setKX_def setCNAME_def setDNAME_def setSOA_def setSRV_def setNAPTR_def setTALINK_def setHIP_def
  setCERT_def setOPENPGPKEY_def setRRSIG_def setSIG_def setNSEC_def setNSEC3_def setNSEC3PARAM_def
  setEUI48_def setEUI64_def setSSHFP_def setDNSKEYs_def setKEY_def setDNSKEY_def setCDNSKEY_def
  setRKEY_def setEID_def setNIMLOC_def setDSs_def setDS_def setDLV_def setCDS_def setTA_def setTLSA_def
  setSMIMEA_def setRFC3597_def setSPF_def setAVC_def setTXT_def setNINFO_def setURI_def setDHCID_def
  setNID_def setL32_def setLP_def setL64_def setUID_def setGID_def setGPOS_def setLOC_def setUINFO_def setPX_def setCAA_def

lemma shrinks_table:
  "(t, fn, var) \<in> set (typeToparserFunc) \<Longrightarrow> shrinks (fn h org f)"
  unfolding typeToparserFunc_def
  by (simp only: list.set insert_iff empty_iff prod.inject, elim disjE conjE; hypsubst?)
     (unfold set_defs set_shape_defs Let_def, (intro shrink_rules | simp)+)

lemma shrinks_setRFC3597 [shrink_rules]: "shrinks (setRFC3597 h org f)"
  unfolding setRFC3597_def by (intro shrink_rules)

lemma shrinks_setRR: "shrinks (setRR h org f)"
proof (cases "map_of (typeToparserFunc) (Rrtype h)")
  case None
  then show ?thesis by (simp add: setRR_def shrink_rules)
next
  case (Some fv)
  obtain fn var where fv: "fv = (fn, var)" by (cases fv)
  have "shrinks (fn h org f)" using shrinks_table map_of_SomeD [OF Some] fv by blast
  then show ?thesis using Some fv by (simp add: setRR_def) (intro shrink_rules conjI impI)
qed

section \<open>Parsers do not panic\<close>

text \<open>
  On the tokens of the lexer, a parser returns a value or a parse error and leaves the end of the
  channel.  \<open>fine_token\<close> holds of the zero token, too.
\<close>

definition fine_token :: "lex \<Rightarrow> bool" where
  "fine_token l \<longleftrightarrow> (token l = '''' \<longrightarrow> tok_value l = zEOF) \<and> (tok_err l \<or> tok_length l = length (token l))"

definition safe_parser :: "'a parser \<Rightarrow> bool" where
  "safe_parser p \<longleftrightarrow>
     (\<forall>c. list_all fine_token c \<longrightarrow> (\<exists>x c'. p c = Parsed x c' \<and> suffix c' c) \<or> (\<exists>e. p c = Failed e))"

named_theorems safe_parsers "introduction rules for parsers that do not panic"

lemma good_fine: "good_token l \<Longrightarrow> fine_token l"
  by (auto simp: good_token_def fine_token_def)

lemma fine_zero [simp]: "fine_token zero_lex"
  by (simp add: fine_token_def zero_lex_def)

lemma fine_suffix: "list_all fine_token c \<Longrightarrow> suffix c' c \<Longrightarrow> list_all fine_token c'"
  by (auto simp: suffix_def)

lemma safe_parserI:
  "(\<And>c. list_all fine_token c \<Longrightarrow> (\<exists>x c'. p c = Parsed x c') \<or> (\<exists>e. p c = Failed e)) \<Longrightarrow> shrinks p \<Longrightarrow> safe_parser p"
  unfolding safe_parser_def by (metis shrinksD)

lemma safe_parserE:
  assumes "safe_parser p" "list_all fine_token c"
  obtains x c' where "p c = Parsed x c'" "suffix c' c" | e where "p c = Failed e"
  using assms unfolding safe_parser_def by blast

lemma safe_pret [safe_parsers]: "safe_parser (pret x)"
  by (simp add: safe_parser_def pret_def)

lemma safe_pfail [safe_parsers]: "safe_parser (pfail f err l)"
  by (simp add: safe_parser_def pfail_def)

lemma safe_pbind [safe_parsers]:
  assumes "safe_parser m" "\<And>x. safe_parser (f x)"
  shows "safe_parser (pbind m f)"
  unfolding safe_parser_def
proof (intro allI impI)
  fix c assume c: "list_all fine_token c"
  show "(\<exists>y c'. pbind m f c = Parsed y c' \<and> suffix c' c) \<or> (\<exists>e. pbind m f c = Failed e)"
  proof (rule safe_parserE [OF assms(1) c])
    fix x c1 assume m: "m c = Parsed x c1" "suffix c1 c"
    show ?thesis
      by (rule safe_parserE [OF assms(2) fine_suffix [OF c m(2)], of x])
         (use m in \<open>auto simp: pbind_def intro: suffix_order.trans\<close>)
  qed (simp add: pbind_def)
qed

lemma safe_on_token:
  assumes "\<And>l. fine_token l \<Longrightarrow> safe_parser (k l)"
  shows "safe_parser (pbind recv k)"
  unfolding safe_parser_def
proof (intro allI impI)
  fix c assume c: "list_all fine_token c"
  show "(\<exists>y c'. pbind recv k c = Parsed y c' \<and> suffix c' c) \<or> (\<exists>e. pbind recv k c = Failed e)"
  proof (cases c)
    case Nil
    show ?thesis
      by (rule safe_parserE [OF assms [OF fine_zero], of "[]"]) (use Nil in \<open>simp_all add: pbind_def\<close>)
  next
    case (Cons l c1)
    then have k: "safe_parser (k l)" "list_all fine_token c1" using assms c by simp_all
    show ?thesis
      by (rule safe_parserE [OF k]) (use Cons in \<open>auto simp: pbind_def intro: suffix_ConsI\<close>)
  qed
qed

lemma safe_skip [safe_parsers]: "safe_parser (f ()) \<Longrightarrow> safe_parser (skip f)"
  unfolding skip_def by (rule safe_on_token)

lemma safe_Ok [safe_parsers]: "safe_parser (g x) \<Longrightarrow> safe_parser (lift (Ok x) g)"
  by (simp add: lift_def)

lemma safe_index: "0 \<le> i \<Longrightarrow> i < int (length s) \<Longrightarrow> (\<And>b. safe_parser (g b)) \<Longrightarrow> safe_parser (lift (go_index s i) g)"
  by (simp add: lift_def go_index_def)

lemma safe_p_if [safe_parsers]:
  "(b \<Longrightarrow> safe_parser p) \<Longrightarrow> (\<not> b \<Longrightarrow> safe_parser q) \<Longrightarrow> safe_parser (if b then p else q)"
  by simp

lemma safe_option [safe_parsers]:
  "safe_parser p \<Longrightarrow> (\<And>x. safe_parser (q x)) \<Longrightarrow> safe_parser (case m of None \<Rightarrow> p | Some x \<Rightarrow> q x)"
  by (cases m) auto

lemma safe_prod [safe_parsers]: "(\<And>a b. safe_parser (p a b)) \<Longrightarrow> safe_parser (case x of (a, b) \<Rightarrow> p a b)"
  by (cases x) auto

lemma safe_rr_ok [safe_parsers]: "safe_parser (rr_ok h d cm)"
  unfolding rr_ok_def by (rule safe_parsers)

lemma safe_first_field [safe_parsers]:
  "(\<And>l. fine_token l \<Longrightarrow> safe_parser (k l)) \<Longrightarrow> safe_parser (first_field h zero cm k)"
  unfolding first_field_def by (rule safe_on_token, rule safe_p_if) (auto intro: safe_parsers)

lemma safe_next_field [safe_parsers]: "(\<And>l. fine_token l \<Longrightarrow> safe_parser (k l)) \<Longrightarrow> safe_parser (next_field k)"
  unfolding next_field_def by (rule safe_skip, rule safe_on_token)

lemma safe_name_field [safe_parsers]:
  assumes "fine_token l"
  shows "safe_parser (name_field f err org l)"
proof -
  obtain n ok where d: "IsDomainName (token l) = Ok (n, ok)" using IsDomainName_ok by blast
  have "safe_parser (lift (go_index (token l) (int (tok_length l) - 1)) g)"
    if "tok_length l \<noteq> 0" "\<not> tok_err l" "\<And>b. safe_parser (g b)" for g :: "char \<Rightarrow> string parser"
    by (rule safe_index) (use that assms in \<open>auto simp: fine_token_def\<close>)
  then show ?thesis unfolding name_field_def d
    by (intro safe_p_if safe_pret safe_Ok) (simp add: safe_parsers)
qed

lemma safe_uint_field [safe_parsers]: "safe_parser (uint_field f err n l)"
  unfolding uint_field_def by (intro safe_parsers)

lemma safe_slurpRemainder [safe_parsers]: "safe_parser (slurpRemainder f)"
  unfolding slurpRemainder_def
  by (rule safe_on_token) (auto split: zvalue.split intro!: safe_parsers safe_on_token)

lemma safe_endingToString [safe_parsers]: "safe_parser (endingToString errstr f)"
proof (rule safe_parserI [OF _ shrinks_endingToString])
  have "(\<exists>x c'. endingToString_loop errstr f s c = Parsed x c') \<or> (\<exists>e. endingToString_loop errstr f s c = Failed e)"
    for s c
    by (induction errstr f s c rule: endingToString_loop.induct) (auto simp: pfail_def split: zvalue.split)
  then show "(\<exists>x c'. endingToString errstr f c = Parsed x c') \<or> (\<exists>e. endingToString errstr f c = Failed e)" for c
    unfolding endingToString_def .
qed

lemma txt_loop_total:
  "(\<exists>x c'. endingToTxtSlice_loop errstr f s quote emp l c = Parsed x c') \<or>
   (\<exists>e. endingToTxtSlice_loop errstr f s quote emp l c = Failed e)"
proof (induction errstr f s quote emp l c rule: endingToTxtSlice_loop.induct)
  case (1 errstr f s quote emp l c)
  show ?case
  proof (cases "line_end l \<or> tok_err l")
    case True
    then show ?thesis
      by (subst (1 2) endingToTxtSlice_loop.simps, cases "line_end l") (simp_all add: pfail_def)
  next
    case more: False
    show ?thesis
    proof (cases c)
      case Nil
      then show ?thesis using more
        by (subst (1 2) endingToTxtSlice_loop.simps) (simp add: pfail_def Let_def split: zvalue.split)
    next
      case (Cons l' c1)
      have "(\<exists>x c'. endingToTxtSlice_loop errstr f s q e l' c1 = Parsed x c') \<or>
            (\<exists>x. endingToTxtSlice_loop errstr f s q e l' c1 = Failed x)" for s q e
        using "1.IH" [OF _ _ Cons] more by blast
      then show ?thesis using Cons more
        by (subst (1 2) endingToTxtSlice_loop.simps) (simp add: pfail_def Let_def split: zvalue.split)
    qed
  qed
qed

lemma safe_endingToTxtSlice [safe_parsers]: "safe_parser (endingToTxtSlice errstr f)"
proof -
  have "safe_parser (endingToTxtSlice_loop errstr f [] False False l)" for l
    by (rule safe_parserI [OF txt_loop_total shrinks_txt_loop])
  then show ?thesis unfolding endingToTxtSlice_def by (auto intro!: safe_on_token safe_parsers)
qed

lemma safe_stringToNodeID [safe_parsers]: "safe_parser (stringToNodeID l)"
  unfolding stringToNodeID_def Let_def by (intro safe_parsers)

lemma safe_hip_servers [safe_parsers]: "safe_parser (hip_servers f org xs)"
proof (rule safe_parserI [OF _ shrinks_hip_servers])
  show "(\<exists>x c'. hip_servers f org xs c = Parsed x c') \<or> (\<exists>e. hip_servers f org xs c = Failed e)"
    if "list_all fine_token c" for c
    using that
  proof (induction f org xs c rule: hip_servers.induct)
    case (2 f org xs l c)
    have ok: "safe_parser (name_field f ''bad HIP RendezvousServers'' org l)" "list_all fine_token c"
      using safe_name_field "2.prems" by simp_all
    show ?case
      by (rule safe_parserE [OF ok]) (use "2.IH" ok(2) in \<open>auto simp: pfail_def split: zvalue.split\<close>)
  qed simp
qed

lemma safe_bitmap_types [safe_parsers]: "safe_parser (bitmap_types err f ks)"
proof (rule safe_parserI [OF _ shrinks_bitmap_types])
  show "(\<exists>x c'. bitmap_types err f ks c = Parsed x c') \<or> (\<exists>e. bitmap_types err f ks c = Failed e)" for c
    by (induction err f ks c rule: bitmap_types.induct) (auto simp: pfail_def split: zvalue.split option.split)
qed

lemma eui_digits_ok: "3 * (j + n) \<le> length s \<Longrightarrow> \<exists>r. eui_digits n j s = Ok r"
proof (induction n arbitrary: j)
  case (Suc n)
  then obtain r where "eui_digits n (Suc j) s = Ok r" by fastforce
  then show ?case using Suc.prems by (simp add: go_index_def)
qed simp

lemma safe_eui [safe_parsers]: "safe_parser (set_eui n err1 err2 con h org f)"
  unfolding set_eui_def
proof (intro safe_first_field safe_p_if safe_pfail)
  fix l assume l: "fine_token l" "\<not> (tok_length l \<noteq> 3 * n + 2 \<or> tok_err l)"
  then have len: "length (token l) = 3 * n + 2" by (simp add: fine_token_def)
  then obtain r where "eui_digits n 0 (token l) = Ok r" using eui_digits_ok [of 0 n "token l"] by auto
  then show "safe_parser (lift (eui_digits n 0 (token l)) (\<lambda>addr. case addr of
      None \<Rightarrow> pfail f err1 l
    | Some addr \<Rightarrow>
        lift (go_index (token l) (int (3 * n))) (\<lambda>a.
        lift (go_index (token l) (int (3 * n + 1))) (\<lambda>b.
          case ParseUint16 (addr @ [a, b]) (8 * (n + 1)) of
            None \<Rightarrow> pfail f err2 l
          | Some i \<Rightarrow> rr_ok h (con (of_nat i)) ''''))))"
    using len by (simp only:) (intro safe_Ok safe_option safe_pfail safe_rr_ok safe_index, simp_all)
qed

text \<open>The two parsers that can panic are those of \<open>URI\<close> and \<open>CAA\<close>.\<close>

lemma safe_checked [safe_parsers]:
  "(\<And>v. safe_parser (p v)) \<Longrightarrow> (\<And>v. safe_parser (q v)) \<Longrightarrow> safe_parser (case x of (v, True) \<Rightarrow> p v | (v, False) \<Rightarrow> q v)"
  by (cases x) (auto split: bool.split)

lemma safe_loc_angle [safe_parsers]:
  "(\<And>v. safe_parser (k v)) \<Longrightarrow> safe_parser (loc_angle_field f err dirs check l k)"
  unfolding loc_angle_field_def by (intro safe_parsers)

lemma safe_loc_altitude [safe_parsers]:
  assumes "fine_token l" "\<And>v. safe_parser (k v)"
  shows "safe_parser (loc_altitude_field f l k)"
proof -
  have idx: "safe_parser (lift (go_index (token l) (int (length (token l)) - 1)) g)"
    if "\<not> (tok_length l = 0 \<or> tok_err l)" "\<And>b. safe_parser (g b)" for g
    by (rule safe_index) (use that assms in \<open>auto simp: fine_token_def Suc_le_eq\<close>)
  show ?thesis unfolding loc_altitude_field_def Let_def
    by (intro safe_p_if safe_pfail idx safe_option assms(2))
qed

lemma stringToCm_ok: "s \<noteq> '''' \<Longrightarrow> \<exists>e m ok. stringToCm s = Ok (e, m, ok)"
  by (auto simp: stringToCm_def go_index_def Let_def Suc_le_eq split: option.split prod.split)

lemma safe_loc_sizes [safe_parsers]: "safe_parser (loc_sizes f n sizes)"
proof (rule safe_parserI [OF _ shrinks_loc_sizes])
  show "(\<exists>x c'. loc_sizes f n sizes c = Parsed x c') \<or> (\<exists>e. loc_sizes f n sizes c = Failed e)"
    if "list_all fine_token c" for c
    using that
  proof (induction f n sizes c rule: loc_sizes.induct)
    case (2 f n sizes l c)
    show ?case
    proof (cases "tok_value l = zString")
      case True
      then have "token l \<noteq> ''''" using "2.prems" by (auto simp: fine_token_def)
      then obtain e m ok where "stringToCm (token l) = Ok (e, m, ok)" using stringToCm_ok by blast
      then show ?thesis using "2.IH" "2.prems" True by (auto simp: pfail_def)
    next
      case False
      then show ?thesis using "2.IH" "2.prems" by (auto simp: pfail_def split: zvalue.split)
    qed
  qed simp
qed

lemma safe_table:
  assumes "(t, fn, var) \<in> set (typeToparserFunc)" "t \<noteq> TypeURI" "t \<noteq> TypeCAA"
  shows "safe_parser (fn h org f)"
  using assms(1)
  unfolding typeToparserFunc_def list.set insert_iff empty_iff prod.inject
  by (elim disjE conjE FalseE; insert assms(2,3); hypsubst)
     ((unfold set_defs set_shape_defs Let_def)?, (rule safe_on_token safe_parsers | assumption | simp; fail)+)+

lemma safe_setRR:
  assumes "Rrtype h \<noteq> TypeURI" "Rrtype h \<noteq> TypeCAA"
  shows "safe_parser (setRR h org f)"
proof (cases "map_of (typeToparserFunc) (Rrtype h)")
  case None
  have "safe_parser (setRFC3597 h org f)"
    unfolding setRFC3597_def by (rule safe_on_token safe_parsers | assumption)+
  then show ?thesis using None by (simp add: setRR_def)
next
  case (Some fv)
  obtain fn var where fv: "fv = (fn, var)" by (cases fv)
  have "safe_parser (fn h org f)" using safe_table map_of_SomeD [OF Some] fv assms by blast
  then show ?thesis using Some fv by (simp add: setRR_def) (intro safe_parsers conjI impI)
qed

end
