(* ===== verification/Zone_Parse.thy ===== *)
theory Zone_Parse
  imports Zone_RR Dns_Build
begin

text \<open>
  The parser of zone files (\<open>scan.go\<close>, \<open>generate.go\<close>): the state machine \<open>parseZone\<close> over the tokens
  of the lexer, the directives, and \<open>NewRR\<close>.

  A run is the list of the tokens sent on the channel and how the goroutine ends.  The parser calls
  itself for \<open>$INCLUDE\<close> and, through \<open>NewRR\<close>, for every line of a \<open>$GENERATE\<close>; the first argument of
  \<open>parseZone\<close> bounds the depth of these calls and the rounds of \<open>$GENERATE\<close>, and a run that exceeds it
  \<open>RunsOn\<close>.  Files are the argument \<open>open_file\<close>.
\<close>

section \<open>Tokens and errors\<close>

record Token =
  tk_rr :: "RR option"
  tk_error :: "ParseError option"
  tk_comment :: string

datatype zone_end = Returns | Dies panic | RunsOn

type_synonym zone_run = "Token list \<times> zone_end"

definition error_token :: "ParseError \<Rightarrow> Token" where
  "error_token e = \<lparr>tk_rr = None, tk_error = Some e, tk_comment = ''''\<rparr>"

definition rr_token :: "RR option \<Rightarrow> string \<Rightarrow> Token" where
  "rr_token r cm = \<lparr>tk_rr = r, tk_error = None, tk_comment = cm\<rparr>"

text \<open>The rune at the head of a string and its width; an invalid byte is a rune of its own (\<open>None\<close>).\<close>

definition rune_at :: "string \<Rightarrow> nat option \<times> nat" where
  "rune_at s =
     (let b = (\<lambda>i. ord (s ! i)); cont = (\<lambda>i. i < length s \<and> 0x80 \<le> b i \<and> b i < 0xC0) in
      if b 0 < 0x80 then (Some (b 0), 1)
      else if 0xC2 \<le> b 0 \<and> b 0 < 0xE0 \<and> cont 1 then (Some (b 0 mod 32 * 64 + b 1 mod 64), 2)
      else if 0xE0 \<le> b 0 \<and> b 0 < 0xF0 \<and> cont 1 \<and> cont 2 \<and> (b 0 = 0xE0 \<longrightarrow> 0xA0 \<le> b 1)
        \<and> (b 0 = 0xED \<longrightarrow> b 1 < 0xA0) then (Some (b 0 mod 16 * 4096 + b 1 mod 64 * 64 + b 2 mod 64), 3)
      else if 0xF0 \<le> b 0 \<and> b 0 < 0xF5 \<and> cont 1 \<and> cont 2 \<and> cont 3 \<and> (b 0 = 0xF0 \<longrightarrow> 0x90 \<le> b 1)
        \<and> (b 0 = 0xF4 \<longrightarrow> b 1 < 0x90)
        then (Some (b 0 mod 8 * 262144 + b 1 mod 64 * 4096 + b 2 mod 64 * 64 + b 3 mod 64), 4)
      else (None, 1))"

lemma rune_at_width: "0 < snd (rune_at s)"
  by (simp add: rune_at_def Let_def)

text \<open>\<open>strconv.QuoteToASCII\<close>\<close>

fun hex_pad :: "nat \<Rightarrow> nat \<Rightarrow> string" where
  "hex_pad 0 n = ''''"
| "hex_pad (Suc k) n = hex_pad k (n div 16) @ [hex_digit (n mod 16)]"

definition quote_rune :: "nat \<Rightarrow> string" where
  "quote_rune r =
     (case map_of [(7, CHR ''a''), (8, CHR ''b''), (12, CHR ''f''), (10, CHR ''n''), (13, CHR ''r''),
                   (9, CHR ''t''), (11, CHR ''v''), (34, CHR 0x22), (92, CHR 0x5C)] r of
        Some c \<Rightarrow> [CHR 0x5C, c]
      | None \<Rightarrow>
          if 32 \<le> r \<and> r < 127 then [char_of r]
          else if r < 128 then [CHR 0x5C, CHR ''x''] @ hex_pad 2 r
          else if r < 65536 then [CHR 0x5C, CHR ''u''] @ hex_pad 4 r
          else [CHR 0x5C, CHR ''U''] @ hex_pad 8 r)"

function quote_runes :: "string \<Rightarrow> string" where
  "quote_runes s =
     (if s = [] then []
      else (case rune_at s of
              (None, n) \<Rightarrow> [CHR 0x5C, CHR ''x''] @ hex_pad 2 (ord (hd s))
            | (Some r, n) \<Rightarrow> quote_rune r) @ quote_runes (drop (snd (rune_at s)) s))"
  by auto
termination by (relation "measure length") (auto simp: rune_at_width)

declare quote_runes.simps [simp del]

definition QuoteToASCII :: "string \<Rightarrow> string" where
  "QuoteToASCII s = [CHR 0x22] @ quote_runes s @ [CHR 0x22]"

definition ParseError_Error :: "ParseError \<Rightarrow> string" where
  "ParseError_Error e =
     (if pe_file e \<noteq> '''' then pe_file e @ '': '' else '''') @ ''dns: '' @ pe_err e @ '': '' @
     QuoteToASCII (token (pe_lex e)) @ '' at line: '' @ Itoa (tok_line (pe_lex e)) @ '':'' @ Itoa (tok_column (pe_lex e))"

section \<open>$GENERATE\<close>

text \<open>
  A modifier: the offset, whether the width has a plus sign, which is a flag of the format, the width
  and the base.
\<close>

record modifier =
  mod_offset :: int
  mod_plus :: bool
  mod_width :: nat
  mod_base :: char

definition plain_modifier :: modifier where
  "plain_modifier = \<lparr>mod_offset = 0, mod_plus = False, mod_width = 0, mod_base = CHR ''d''\<rparr>"

definition modToPrintf :: "string \<Rightarrow> string + modifier" where
  "modToPrintf s =
     (case SplitN 3 CHR '','' s of
        [x0, x1, x2] \<Rightarrow>
          if x2 \<notin> {''o'', ''d'', ''x'', ''X''} then Inl ''bad base in $GENERATE''
          else
            (case ParseInt10 x0 64 of
               None \<Rightarrow> Inl ''bad offset in $GENERATE''
             | Some offset \<Rightarrow>
                 if offset > 255 then Inl ''bad offset in $GENERATE''
                 else
                   (case ParseInt10 x1 64 of
                      None \<Rightarrow> Inl ''bad width in $GENERATE''
                    | Some width \<Rightarrow>
                        if width > 255 \<or> width < 0 then Inl ''bad width in $GENERATE''
                        else Inr \<lparr>mod_offset = offset, mod_plus = (hd x1 = CHR ''+''), mod_width = nat width,
                                  mod_base = hd x2\<rparr>))
      | _ \<Rightarrow> Inl ''bad modifier in $GENERATE'')"

text \<open>\<open>fmt.Sprintf\<close> of an integer with such a format\<close>

function digits_in :: "nat \<Rightarrow> nat \<Rightarrow> string" where
  "digits_in b n = (if n < b \<or> b < 2 then [hex_digit n] else digits_in b (n div b) @ [hex_digit (n mod b)])"
  by auto
termination by (relation "measure snd") auto

declare digits_in.simps [simp del]

definition Sprintf :: "modifier \<Rightarrow> int \<Rightarrow> string" where
  "Sprintf m n =
     (let sign = (if n < 0 then ''-'' else if mod_plus m then ''+'' else '''');
          ds = (if mod_base m = CHR ''d'' then digits_in 10 (nat \<bar>n\<bar>)
                else if mod_base m = CHR ''o'' then digits_in 8 (nat \<bar>n\<bar>)
                else if mod_base m = CHR ''x'' then digits_in 16 (nat \<bar>n\<bar>)
                else ToUpper (digits_in 16 (nat \<bar>n\<bar>)))
      in sign @ replicate (mod_width m - length sign - length ds) CHR ''0'' @ ds)"

text \<open>An \<open>int\<close> after an addition that may overflow\<close>

definition wrap64 :: "int \<Rightarrow> int" where
  "wrap64 i = (i + 2 ^ 63) mod 2 ^ 64 - 2 ^ 63"

lemma behind_brace: "length (dropWhile P ys) - Suc 0 < Suc (Suc (length ys))"
  using length_dropWhile_le [of P ys] by simp

text \<open>
  The line of one round: every \<open>$\<close> is the counter, a backslash escapes a dollar or a backslash and
  swallows any other byte.
\<close>

function gen_line :: "int \<Rightarrow> bool \<Rightarrow> string \<Rightarrow> string \<Rightarrow> string + string" where
  "gen_line i escape out [] = Inr out"
| "gen_line i escape out (x # xs) =
     (if x = CHR 0x5C then
        (if escape then gen_line i False (out @ [CHR 0x5C]) xs else gen_line i True out xs)
      else if x = CHR ''$'' then
        (if escape then gen_line i False (out @ ''$'') xs
         else
           (case xs of
              [] \<Rightarrow> gen_line i False (out @ Sprintf plain_modifier i) []
            | y # ys \<Rightarrow>
                if y = CHR ''$'' then gen_line i False (out @ ''$'') ys
                else if y = CHR ''{'' then
                  (if CHR ''}'' \<notin> set ys then Inl ''bad modifier in $GENERATE''
                   else
                     (case modToPrintf (takeWhile (\<lambda>z. z \<noteq> CHR ''}'') ys) of
                        Inl e \<Rightarrow> Inl e
                      | Inr m \<Rightarrow>
                          gen_line i False (out @ Sprintf m (wrap64 (i + mod_offset m)))
                            (tl (dropWhile (\<lambda>z. z \<noteq> CHR ''}'') ys))))
                else gen_line i False (out @ Sprintf plain_modifier i) xs))
      else if escape then gen_line i False out xs
      else gen_line i False (out @ [x]) xs)"
  by pat_completeness auto
termination
  by (relation "measure (\<lambda>(i, e, out, s). length s)") (auto simp: behind_brace)

declare gen_line.simps [simp del]

text \<open>The result of \<open>NewRR\<close>\<close>

datatype rr_read = ReadOk "RR option" | ReadErr ParseError | ReadCrash panic | ReadHangs

text \<open>What \<open>generate\<close> sends and returns: an error message, empty for none, or it does not return.\<close>

datatype gen_end = GenMsg string | GenDies panic | GenRunsOn

fun gen_loop ::
    "nat \<Rightarrow> (string \<Rightarrow> rr_read) \<Rightarrow> string \<Rightarrow> string \<Rightarrow> int \<Rightarrow> int \<Rightarrow> int \<Rightarrow> Token list \<times> gen_end" where
  "gen_loop 0 newRR org s i stop step = ([], GenRunsOn)"
| "gen_loop (Suc n) newRR org s i stop step =
     (if stop < i then ([], GenMsg '''')
      else
        (case gen_line i False '''' s of
           Inl e \<Rightarrow> ([], GenMsg e)
         | Inr line \<Rightarrow>
             (case newRR (''$ORIGIN '' @ org @ [CHR 0x0A] @ line) of
                ReadErr e \<Rightarrow> ([], GenMsg (ParseError_Error e))
              | ReadCrash p \<Rightarrow> ([], GenDies p)
              | ReadHangs \<Rightarrow> ([], GenRunsOn)
              | ReadOk rx \<Rightarrow>
                  (case gen_loop n newRR org s (wrap64 (i + step)) stop step of
                     (ts, e) \<Rightarrow> (rr_token rx '''' # ts, e)))))"

text \<open>The words of the line, put together\<close>

fun gen_words :: "string \<Rightarrow> chan \<Rightarrow> string \<times> chan" where
  "gen_words s [] = (s, [])"
| "gen_words s (l # c) = (if line_end l then (s, c) else gen_words (s @ token l) c)"

definition gen_range :: "string \<Rightarrow> string + int \<times> int \<times> int" where
  "gen_range s =
     (let bad = (\<lambda>w. Inl (''bad '' @ w @ '' in $GENERATE range''));
          slash = (CHR ''/'' \<in> set s);
          rng = takeWhile (\<lambda>x. x \<noteq> CHR ''/'') s;
          stp = tl (dropWhile (\<lambda>x. x \<noteq> CHR ''/'') s);
          step = (if \<not> slash then Some 1 else if stp = '''' then None else ParseInt10 stp 64)
      in
      case step of
        None \<Rightarrow> bad ''step''
      | Some step \<Rightarrow>
          if step < 0 then bad ''step''
          else
            (case SplitN 2 CHR ''-'' rng of
               [x0, x1] \<Rightarrow>
                 (case ParseInt10 x0 64 of
                    None \<Rightarrow> bad ''start''
                  | Some start \<Rightarrow>
                      (case ParseInt10 x1 64 of
                         None \<Rightarrow> bad ''stop''
                       | Some stop \<Rightarrow>
                           if stop < 0 \<or> start < 0 \<or> stop < start then bad ''range''
                           else Inr (start, stop, step)))
             | _ \<Rightarrow> bad ''start-stop''))"

definition generate ::
    "nat \<Rightarrow> (string \<Rightarrow> rr_read) \<Rightarrow> lex \<Rightarrow> string \<Rightarrow> chan \<Rightarrow> Token list \<times> gen_end \<times> chan" where
  "generate n newRR l org c =
     (case gen_range (token l) of
        Inl e \<Rightarrow> ([], GenMsg e, c)
      | Inr (start, stop, step) \<Rightarrow>
          (case gen_words '''' (drop 1 c) of
             (s, c) \<Rightarrow>
               (case gen_loop n newRR org s start stop step of (ts, e) \<Rightarrow> (ts, e, c))))"

section \<open>The state machine\<close>

datatype zstate =
    zExpectOwnerDir | zExpectOwnerBl | zExpectAny | zExpectAnyNoClass | zExpectAnyNoClassBl
  | zExpectAnyNoTtl | zExpectAnyNoTtlBl | zExpectRrtype | zExpectRrtypeBl | zExpectRdata
  | zExpectDirTtlBl | zExpectDirTtl | zExpectDirOriginBl | zExpectDirOrigin
  | zExpectDirIncludeBl | zExpectDirInclude | zExpectDirGenerateBl | zExpectDirGenerate

record zone =
  z_st :: zstate
  z_h :: RR_Header
  z_defttl :: uint32
  z_prevName :: string
  z_origin :: string

text \<open>What a parser needs from outside: the file name and depth, files, and its own recursive calls.\<close>

record zone_env =
  e_file :: string
  e_depth :: nat
  e_open :: "string \<Rightarrow> string option"
  e_parseZone :: "string \<Rightarrow> string \<Rightarrow> string \<Rightarrow> nat \<Rightarrow> zone_run"
  e_newRR :: "string \<Rightarrow> rr_read"
  e_rounds :: nat

text \<open>A step goes on with the rest of the channel, or the goroutine ends.\<close>

datatype zone_next = ZGo "Token list" zone chan | ZStop "Token list" zone_end

definition zfail :: "zone_env \<Rightarrow> string \<Rightarrow> lex \<Rightarrow> zone_next" where
  "zfail env err l = ZStop [error_token \<lparr>pe_file = e_file env, pe_err = err, pe_lex = l\<rparr>] Returns"

definition zlift :: "'a outcome \<Rightarrow> ('a \<Rightarrow> zone_next) \<Rightarrow> zone_next" where
  "zlift m k = (case m of Ok x \<Rightarrow> k x | Panic p \<Rightarrow> ZStop [] (Dies p) | _ \<Rightarrow> ZStop [] RunsOn)"

definition blank_to :: "zone_env \<Rightarrow> string \<Rightarrow> zstate \<Rightarrow> zone \<Rightarrow> lex \<Rightarrow> chan \<Rightarrow> zone_next" where
  "blank_to env err st z l c =
     (if tok_value l \<noteq> zBlank then zfail env err l else ZGo [] (z\<lparr>z_st := st\<rparr>) c)"

text \<open>A time to live\<close>

definition ttl_to :: "zone_env \<Rightarrow> zstate \<Rightarrow> zone \<Rightarrow> lex \<Rightarrow> chan \<Rightarrow> zone_next" where
  "ttl_to env st z l c =
     (case stringToTtl (token l) of
        None \<Rightarrow> zfail env ''not a TTL'' l
      | Some ttl \<Rightarrow> ZGo [] (z\<lparr>z_h := (z_h z)\<lparr>Ttl := ttl\<rparr>, z_st := st\<rparr>) c)"

definition rrtype_to :: "zone \<Rightarrow> lex \<Rightarrow> chan \<Rightarrow> zone_next" where
  "rrtype_to z l c = ZGo [] (z\<lparr>z_h := (z_h z)\<lparr>Rrtype := torc l\<rparr>, z_st := zExpectRdata\<rparr>) c"

definition class_to :: "zstate \<Rightarrow> zone \<Rightarrow> lex \<Rightarrow> chan \<Rightarrow> zone_next" where
  "class_to st z l c = ZGo [] (z\<lparr>z_h := (z_h z)\<lparr>Class := torc l\<rparr>, z_st := st\<rparr>) c"

text \<open>\<open>zExpectOwnerDir\<close>: an owner, a directive, or the first word of a record without an owner\<close>

definition owner_name :: "zone_env \<Rightarrow> zone \<Rightarrow> lex \<Rightarrow> chan \<Rightarrow> zone_next" where
  "owner_name env z l c =
     zlift (go_index (token l) 0) (\<lambda>b.
       let owner = (\<lambda>n. z\<lparr>z_h := (z_h z)\<lparr>Name := n\<rparr>, z_prevName := n, z_st := zExpectOwnerBl\<rparr>) in
       if b = CHR ''@'' then ZGo [] (owner (z_origin z)) c
       else
         zlift (go_index (token l) (int (tok_length l) - 1)) (\<lambda>b.
           let n = (if b \<noteq> CHR ''.'' then appendOrigin (token l) (z_origin z) else token l) in
           zlift (IsDomainName (token l)) (\<lambda>(labels, ok).
             if \<not> ok then zfail env ''bad owner name'' l else ZGo [] (owner n) c)))"

definition at_begin :: "zone_env \<Rightarrow> zone \<Rightarrow> lex \<Rightarrow> chan \<Rightarrow> zone_next" where
  "at_begin env z l c =
     (let z = z\<lparr>z_h := (z_h z)\<lparr>Ttl := z_defttl z, Class := ClassINET\<rparr>\<rparr>;
          no_owner = z\<lparr>z_h := (z_h z)\<lparr>Name := z_prevName z\<rparr>\<rparr>
      in case tok_value l of
           zNewline \<Rightarrow> ZGo [] (z\<lparr>z_st := zExpectOwnerDir\<rparr>) c
         | zOwner \<Rightarrow> owner_name env z l c
         | zDirTtl \<Rightarrow> ZGo [] (z\<lparr>z_st := zExpectDirTtlBl\<rparr>) c
         | zDirOrigin \<Rightarrow> ZGo [] (z\<lparr>z_st := zExpectDirOriginBl\<rparr>) c
         | zDirInclude \<Rightarrow> ZGo [] (z\<lparr>z_st := zExpectDirIncludeBl\<rparr>) c
         | zDirGenerate \<Rightarrow> ZGo [] (z\<lparr>z_st := zExpectDirGenerateBl\<rparr>) c
         | zRrtpe \<Rightarrow> rrtype_to no_owner l c
         | zClass \<Rightarrow> class_to zExpectAnyNoClassBl no_owner l c
         | zBlank \<Rightarrow> ZGo [] z c
         | zString \<Rightarrow> ttl_to env zExpectAnyNoTtlBl z l c
         | _ \<Rightarrow> zfail env ''syntax error at beginning'' l)"

text \<open>
  \<open>$INCLUDE\<close>: the variable \<open>l\<close> of the file name is shadowed by the token behind it, which is the name
  that is opened; the nested parser gets that name as its origin and the origin as its file name.
\<close>

definition include_origin :: "zone_env \<Rightarrow> zone \<Rightarrow> chan \<Rightarrow> (string \<Rightarrow> chan \<Rightarrow> zone_next) \<Rightarrow> zone_next" where
  "include_origin env z c k =
     (case c of
        [] \<Rightarrow> k (z_origin z) []
      | l # c \<Rightarrow>
          if tok_value l = zString then
            zlift (IsDomainName (token l)) (\<lambda>(labels, ok).
              if \<not> ok \<or> tok_length l = 0 \<or> tok_err l then zfail env ''bad origin name'' l
              else
                zlift (go_index (token l) (int (tok_length l) - 1)) (\<lambda>b.
                  k (if b \<noteq> CHR ''.'' then
                       (if z_origin z \<noteq> ''.'' then token l @ ''.'' @ z_origin z else token l @ z_origin z)
                     else token l) c))
          else k (z_origin z) c)"

definition include_file :: "zone_env \<Rightarrow> zone \<Rightarrow> lex \<Rightarrow> string \<Rightarrow> chan \<Rightarrow> zone_next" where
  "include_file env z l neworigin c =
     (case e_open env (token l) of
        None \<Rightarrow> zfail env (''failed to open `'' @ token l @ [CHR 0x27]) l
      | Some r1 \<Rightarrow>
          if e_depth env + 1 > 7 then zfail env ''too deeply nested $INCLUDE'' l
          else
            (case e_parseZone env r1 (token l) neworigin (e_depth env + 1) of
               (ts, Returns) \<Rightarrow> ZGo ts (z\<lparr>z_st := zExpectOwnerDir\<rparr>) c
             | (ts, e) \<Rightarrow> ZStop ts e))"

definition dir_include :: "zone_env \<Rightarrow> zone \<Rightarrow> lex \<Rightarrow> chan \<Rightarrow> zone_next" where
  "dir_include env z l c =
     (if tok_value l \<noteq> zString then zfail env ''expecting $INCLUDE value, not this...'' l
      else
        let (l, c) = (case c of [] \<Rightarrow> (zero_lex, []) | l # c \<Rightarrow> (l, c)) in
        case tok_value l of
          zBlank \<Rightarrow> include_origin env z c (include_file env z l)
        | zNewline \<Rightarrow> include_file env z l (z_origin z) c
        | zEOF \<Rightarrow> include_file env z l (z_origin z) c
        | _ \<Rightarrow> zfail env ''garbage after $INCLUDE'' l)"

definition dir_ttl :: "zone_env \<Rightarrow> zone \<Rightarrow> lex \<Rightarrow> chan \<Rightarrow> zone_next" where
  "dir_ttl env z l c =
     (if tok_value l \<noteq> zString then zfail env ''expecting $TTL value, not this...'' l
      else
        (case slurpRemainder (e_file env) c of
           Parsed _ c \<Rightarrow>
             (case stringToTtl (token l) of
                None \<Rightarrow> zfail env ''expecting $TTL value, not this...'' l
              | Some ttl \<Rightarrow> ZGo [] (z\<lparr>z_defttl := ttl, z_st := zExpectOwnerDir\<rparr>) c)
         | Failed e \<Rightarrow> ZStop [error_token e] Returns
         | Crash p \<Rightarrow> ZStop [] (Dies p)
         | Hangs \<Rightarrow> ZStop [] RunsOn))"

text \<open>The tokens that \<open>slurpRemainder\<close> has read when it fails.\<close>

definition slurped :: "chan \<Rightarrow> nat" where
  "slurped c = (if c \<noteq> [] \<and> tok_value (hd c) = zBlank then 2 else 1)"

text \<open>\<open>$ORIGIN\<close>: garbage behind the name is reported, and the parser goes on.\<close>

definition dir_origin :: "zone_env \<Rightarrow> zone \<Rightarrow> lex \<Rightarrow> chan \<Rightarrow> zone_next" where
  "dir_origin env z l c =
     (if tok_value l \<noteq> zString then zfail env ''expecting $ORIGIN value, not this...'' l
      else
        let (ts, c') = (case slurpRemainder (e_file env) c of
                          Parsed _ c' \<Rightarrow> ([], c')
                        | Failed e \<Rightarrow> ([error_token e], drop (slurped c) c)
                        | _ \<Rightarrow> ([], c))
        in case IsDomainName (token l) of
             Ok (labels, ok) \<Rightarrow>
               if \<not> ok then
                 ZStop (ts @ [error_token \<lparr>pe_file = e_file env, pe_err = ''bad origin name'', pe_lex = l\<rparr>]) Returns
               else
                 (case go_index (token l) (int (tok_length l) - 1) of
                    Ok b \<Rightarrow>
                      ZGo ts (z\<lparr>z_origin :=
                                 (if b \<noteq> CHR ''.'' then
                                    (if z_origin z \<noteq> ''.'' then token l @ ''.'' @ z_origin z else token l @ z_origin z)
                                  else token l),
                               z_st := zExpectOwnerDir\<rparr>) c'
                  | Panic p \<Rightarrow> ZStop ts (Dies p)
                  | _ \<Rightarrow> ZStop ts RunsOn)
           | Panic p \<Rightarrow> ZStop ts (Dies p)
           | _ \<Rightarrow> ZStop ts RunsOn)"

definition dir_generate :: "zone_env \<Rightarrow> zone \<Rightarrow> lex \<Rightarrow> chan \<Rightarrow> zone_next" where
  "dir_generate env z l c =
     (if tok_value l \<noteq> zString then zfail env ''expecting $GENERATE value, not this...'' l
      else
        (case generate (e_rounds env) (e_newRR env) l (z_origin z) c of
           (ts, GenMsg e, c) \<Rightarrow>
             if e \<noteq> '''' then
               ZStop (ts @ [error_token \<lparr>pe_file = e_file env, pe_err = e, pe_lex = l\<rparr>]) Returns
             else ZGo ts (z\<lparr>z_st := zExpectOwnerDir\<rparr>) c
         | (ts, GenDies p, c) \<Rightarrow> ZStop ts (Dies p)
         | (ts, GenRunsOn, c) \<Rightarrow> ZStop ts RunsOn))"

text \<open>\<open>zExpectRdata\<close>; an error that names no token gets the one in front of the data.\<close>

definition at_rdata :: "zone_env \<Rightarrow> zone \<Rightarrow> lex \<Rightarrow> chan \<Rightarrow> zone_next" where
  "at_rdata env z l c =
     (case setRR (z_h z) (z_origin z) (e_file env) c of
        Parsed (r, c1) c \<Rightarrow> ZGo [rr_token r c1] (z\<lparr>z_st := zExpectOwnerDir\<rparr>) c
      | Failed e \<Rightarrow>
          ZStop [error_token (if token (pe_lex e) = '''' \<and> tok_value (pe_lex e) = zEOF then e\<lparr>pe_lex := l\<rparr> else e)]
            Returns
      | Crash p \<Rightarrow> ZStop [] (Dies p)
      | Hangs \<Rightarrow> ZStop [] RunsOn)"

definition at_any :: "zone_env \<Rightarrow> zone \<Rightarrow> lex \<Rightarrow> chan \<Rightarrow> zone_next" where
  "at_any env z l c =
     (case tok_value l of
        zRrtpe \<Rightarrow> rrtype_to z l c
      | zClass \<Rightarrow> class_to zExpectAnyNoClassBl z l c
      | zString \<Rightarrow> ttl_to env zExpectAnyNoTtlBl z l c
      | _ \<Rightarrow> zfail env ''expecting RR type, TTL or class, not this...'' l)"

definition at_any_no_ttl :: "zone_env \<Rightarrow> zone \<Rightarrow> lex \<Rightarrow> chan \<Rightarrow> zone_next" where
  "at_any_no_ttl env z l c =
     (case tok_value l of
        zClass \<Rightarrow> class_to zExpectRrtypeBl z l c
      | zRrtpe \<Rightarrow> rrtype_to z l c
      | _ \<Rightarrow> zfail env ''expecting RR type or class, not this...'' l)"

definition at_any_no_class :: "zone_env \<Rightarrow> zone \<Rightarrow> lex \<Rightarrow> chan \<Rightarrow> zone_next" where
  "at_any_no_class env z l c =
     (case tok_value l of
        zString \<Rightarrow> ttl_to env zExpectRrtypeBl z l c
      | zRrtpe \<Rightarrow> rrtype_to z l c
      | _ \<Rightarrow> zfail env ''expecting RR type or TTL, not this...'' l)"

definition zone_step :: "zone_env \<Rightarrow> zone \<Rightarrow> lex \<Rightarrow> chan \<Rightarrow> zone_next" where
  "zone_step env z l c =
     (if tok_err l then zfail env (token l) l
      else
        case z_st z of
          zExpectOwnerDir \<Rightarrow> at_begin env z l c
        | zExpectDirIncludeBl \<Rightarrow> blank_to env ''no blank after $INCLUDE-directive'' zExpectDirInclude z l c
        | zExpectDirInclude \<Rightarrow> dir_include env z l c
        | zExpectDirTtlBl \<Rightarrow> blank_to env ''no blank after $TTL-directive'' zExpectDirTtl z l c
        | zExpectDirTtl \<Rightarrow> dir_ttl env z l c
        | zExpectDirOriginBl \<Rightarrow> blank_to env ''no blank after $ORIGIN-directive'' zExpectDirOrigin z l c
        | zExpectDirOrigin \<Rightarrow> dir_origin env z l c
        | zExpectDirGenerateBl \<Rightarrow> blank_to env ''no blank after $GENERATE-directive'' zExpectDirGenerate z l c
        | zExpectDirGenerate \<Rightarrow> dir_generate env z l c
        | zExpectOwnerBl \<Rightarrow> blank_to env ''no blank after owner'' zExpectAny z l c
        | zExpectAny \<Rightarrow> at_any env z l c
        | zExpectAnyNoClassBl \<Rightarrow> blank_to env ''no blank before class'' zExpectAnyNoClass z l c
        | zExpectAnyNoTtlBl \<Rightarrow> blank_to env ''no blank before TTL'' zExpectAnyNoTtl z l c
        | zExpectAnyNoTtl \<Rightarrow> at_any_no_ttl env z l c
        | zExpectAnyNoClass \<Rightarrow> at_any_no_class env z l c
        | zExpectRrtypeBl \<Rightarrow> blank_to env ''no blank before RR type'' zExpectRrtype z l c
        | zExpectRrtype \<Rightarrow> if tok_value l \<noteq> zRrtpe then zfail env ''unknown RR type'' l else rrtype_to z l c
        | zExpectRdata \<Rightarrow> at_rdata env z l c)"

section \<open>The run of a parser\<close>

lemma zfail_not_go [simp]: "zfail env err l \<noteq> ZGo ts z c"
  by (simp add: zfail_def)

lemma zlift_go: "zlift m k = ZGo ts z c \<Longrightarrow> \<exists>x. m = Ok x \<and> k x = ZGo ts z c"
  by (cases m) (auto simp: zlift_def)

lemma gen_words_shrinks: "gen_words s c = (s', c') \<Longrightarrow> suffix c' c"
  by (induction s c rule: gen_words.induct) (auto split: if_splits intro: suffix_ConsI)

lemma generate_shrinks: "generate n newRR l org c = (ts, e, c') \<Longrightarrow> suffix c' c"
  by (auto simp: generate_def split: sum.splits prod.splits dest!: gen_words_shrinks
      intro: suffix_order.trans [OF _ suffix_drop])

lemma include_file_shrinks: "include_file env z l n c = ZGo ts z' c' \<Longrightarrow> c' = c"
  by (auto simp: include_file_def split: option.splits if_splits prod.splits zone_end.splits)

lemma include_origin_shrinks:
  "include_origin env z c (include_file env z l) = ZGo ts z' c' \<Longrightarrow> suffix c' c"
  by (auto simp: include_origin_def split: list.splits if_splits prod.splits
      dest!: zlift_go include_file_shrinks intro: suffix_ConsI)

lemma zone_step_shrinks:
  assumes "zone_step env z l c = ZGo ts z' c'"
  shows "suffix c' c"
proof -
  have same: "ttl_to env st z l c = ZGo ts z' c' \<Longrightarrow> c' = c" "blank_to env err st z l c = ZGo ts z' c' \<Longrightarrow> c' = c"
    "rrtype_to z l c = ZGo ts z' c' \<Longrightarrow> c' = c" "class_to st z l c = ZGo ts z' c' \<Longrightarrow> c' = c" for st z err
    by (auto simp: ttl_to_def blank_to_def rrtype_to_def class_to_def split: option.splits if_splits)
  have owner: "owner_name env z l c = ZGo ts z' c' \<Longrightarrow> c' = c" for z
    by (auto simp: owner_name_def Let_def split: if_splits prod.splits dest!: zlift_go)
  have start: "at_begin env z l c = ZGo ts z' c' \<Longrightarrow> c' = c"
    by (auto simp: at_begin_def Let_def split: zvalue.splits dest: same owner)
  have incl: "dir_include env z l c = ZGo ts z' c' \<Longrightarrow> suffix c' c"
    by (auto simp: dir_include_def Let_def split: if_splits list.splits zvalue.splits
        dest!: include_origin_shrinks include_file_shrinks intro: suffix_ConsI)
  have ttl: "dir_ttl env z l c = ZGo ts z' c' \<Longrightarrow> suffix c' c"
    by (auto simp: dir_ttl_def split: if_splits parsed.splits option.splits dest!: shrinksD [OF shrinks_slurpRemainder])
  have org: "dir_origin env z l c = ZGo ts z' c' \<Longrightarrow> suffix c' c"
    by (auto simp: dir_origin_def Let_def suffix_drop split: if_splits parsed.splits outcome.splits prod.splits
        dest!: shrinksD [OF shrinks_slurpRemainder])
  have gen: "dir_generate env z l c = ZGo ts z' c' \<Longrightarrow> suffix c' c"
    by (auto simp: dir_generate_def split: if_splits prod.splits gen_end.splits dest!: generate_shrinks)
  have rdata: "at_rdata env z l c = ZGo ts z' c' \<Longrightarrow> suffix c' c"
    by (auto simp: at_rdata_def split: if_splits prod.splits parsed.splits dest!: shrinksD [OF shrinks_setRR])
  have any: "at_any env z l c = ZGo ts z' c' \<Longrightarrow> c' = c" "at_any_no_ttl env z l c = ZGo ts z' c' \<Longrightarrow> c' = c"
    "at_any_no_class env z l c = ZGo ts z' c' \<Longrightarrow> c' = c"
    by (auto simp: at_any_def at_any_no_ttl_def at_any_no_class_def split: zvalue.splits dest: same)
  show ?thesis using assms
    by (auto simp: zone_step_def split: if_splits zstate.splits dest: same start incl ttl org gen rdata any)
qed

text \<open>The loop over the tokens; the channel only shrinks.\<close>

function zone_loop :: "zone_env \<Rightarrow> zone \<Rightarrow> chan \<Rightarrow> zone_run" where
  "zone_loop env z [] = ([], Returns)"
| "zone_loop env z (l # c) =
     (case zone_step env z l c of
        ZStop ts e \<Rightarrow> (ts, e)
      | ZGo ts z c \<Rightarrow> (case zone_loop env z c of (us, e) \<Rightarrow> (ts @ us, e)))"
  by pat_completeness auto
termination
  by (relation "measure (\<lambda>(env, z, c). length c)")
     (auto dest!: zone_step_shrinks suffix_length_le)

definition zone_init :: "string \<Rightarrow> zone" where
  "zone_init origin =
     \<lparr>z_st = zExpectOwnerDir, z_h = \<lparr>Name = '''', Rrtype = 0, Class = 0, Ttl = 0, Rdlength = 0\<rparr>,
      z_defttl = defaultTtl, z_prevName = '''', z_origin = origin\<rparr>"

definition run_parser :: "zone_env \<Rightarrow> string \<Rightarrow> string \<Rightarrow> zone_run" where
  "run_parser env origin file =
     (let origin = Fqdn (if origin = '''' then ''.'' else origin)
      in case IsDomainName origin of
           Ok (labels, ok) \<Rightarrow>
             if \<not> ok then
               ([error_token \<lparr>pe_file = e_file env, pe_err = ''bad initial origin name'', pe_lex = zero_lex\<rparr>], Returns)
             else
               (case zlexer file of
                  Ok c \<Rightarrow> zone_loop env (zone_init origin) c
                | Panic p \<Rightarrow> ([], Dies p)
                | _ \<Rightarrow> ([], RunsOn))
         | Panic p \<Rightarrow> ([], Dies p)
         | _ \<Rightarrow> ([], RunsOn))"

text \<open>
  \<open>ReadRR\<close> takes the first token that the parser sends, and \<open>nil\<close> when it ends without one.  The
  parser goes on until it sends a second one; what it does then is not seen by the caller.
\<close>

definition first_token :: "zone_run \<Rightarrow> rr_read" where
  "first_token r =
     (case r of
        (t # ts, e) \<Rightarrow> (case tk_error t of Some err \<Rightarrow> ReadErr err | None \<Rightarrow> ReadOk (tk_rr t))
      | ([], Returns) \<Rightarrow> ReadOk None
      | ([], Dies p) \<Rightarrow> ReadCrash p
      | ([], RunsOn) \<Rightarrow> ReadHangs)"

definition with_newline :: "string \<Rightarrow> string" where
  "with_newline s = (if s \<noteq> '''' \<and> last s \<noteq> CHR 0x0A then s @ [CHR 0x0A] else s)"

text \<open>
  \<open>parseZone\<close>, with the calls it makes of itself; \<open>file\<close> is the text of the file and \<open>f\<close> its name.
\<close>

fun parseZone ::
    "nat \<Rightarrow> (string \<Rightarrow> string option) \<Rightarrow> string \<Rightarrow> string \<Rightarrow> string \<Rightarrow> nat \<Rightarrow> zone_run"
where
  "parseZone 0 open_file file origin f include = ([], RunsOn)"
| "parseZone (Suc n) open_file file origin f include =
     run_parser
       \<lparr>e_file = f, e_depth = include,  e_open = open_file,
        e_parseZone = parseZone n open_file,
        e_newRR = (\<lambda>s. first_token (parseZone n open_file (with_newline s) ''.'' '''' 0)), e_rounds = n\<rparr>
       origin file"

definition ReadRR ::
    "nat \<Rightarrow> (string \<Rightarrow> string option) \<Rightarrow> string \<Rightarrow> string \<Rightarrow> rr_read" where
  "ReadRR n open_file q filename = first_token (parseZone n open_file q ''.'' filename 0)"

definition NewRR ::
    "nat \<Rightarrow> (string \<Rightarrow> string option) \<Rightarrow> string \<Rightarrow> rr_read" where
  "NewRR n open_file s = ReadRR n open_file (with_newline s) ''''"

definition ParseZone ::
    "nat \<Rightarrow> (string \<Rightarrow> string option) \<Rightarrow> string \<Rightarrow> string \<Rightarrow> string \<Rightarrow> zone_run" where
  "ParseZone n open_file r origin file = parseZone n open_file r origin file 0"

end
