(* ===== verification/Dns_Print.thy ===== *)
theory Dns_Print
  imports Zone_Parse
begin

text \<open>
  How the library prints names, texts, records and messages (\<open>types.go\<close>, \<open>edns.go\<close>, \<open>tsig.go\<close>,
  \<open>dns.go\<close>, \<open>defaults.go\<close>, \<open>msg.go\<close>), and what it does with the printed form: \<open>Dedup\<close> (\<open>sanitize.go\<close>).
  One definition \<open>String_X\<close> per type; \<open>RR_String\<close> selects.

  The time of day, which \<open>TimeToString\<close> reads, is an argument.  \<open>fmt\<close> prints the seconds and the
  altitude of a location from floating-point quotients of integers by 100 and by 1000; with two and
  three decimals these are the exact decimal digits, which the model prints.
\<close>

unbundle bit_operations_syntax

section \<open>Names and texts\<close>

text \<open>The byte at the head of a string with its escape, and how many bytes it takes; 0 at the end.\<close>

definition nextByte :: "string \<Rightarrow> byte \<times> nat" where
  "nextByte b =
     (if b = [] then (0, 0)
      else if hd b \<noteq> CHR 0x5C then (byte_of (hd b), 1)
      else if length b = 1 then (0, 0)
      else if length b \<ge> 4 \<and> is_digit (b ! 1) \<and> is_digit (b ! 2) \<and> is_digit (b ! 3) then (dddToByte (tl b), 4)
      else (byte_of (b ! 1), 2))"

lemma nextByte_width: "snd (nextByte b) = 0 \<or> 0 < snd (nextByte b)"
  by auto

definition appendByte :: "byte \<Rightarrow> string" where
  "appendByte b = (let bufs = Itoa (unat b) in CHR 0x5C # replicate (3 - length bufs) CHR ''0'' @ bufs)"

definition appendTXTStringByte :: "byte \<Rightarrow> string" where
  "appendTXTStringByte b =
     (if b = 0x22 \<or> b = 0x5C then [CHR 0x5C, char_of_byte b]
      else if b < 32 \<or> b > 126 then appendByte b
      else [char_of_byte b])"

definition appendDomainNameByte :: "byte \<Rightarrow> string" where
  "appendDomainNameByte b =
     (if b \<in> set (bytes_of (''. @;()'' @ [CHR 0x27])) then [CHR 0x5C, char_of_byte b] else appendTXTStringByte b)"

text \<open>An escaped dot is copied; a dot that comes from \<open>\DDD\<close> is not escaped.\<close>

definition name_piece :: "string \<Rightarrow> string \<times> nat" where
  "name_piece s =
     (if take 2 s = [CHR 0x5C, CHR ''.''] then (take 2 s, 2)
      else
        (let (b, n) = nextByte s in
         if n = 0 then ('''', 1)
         else (if b = 0x2E then ''.'' else appendDomainNameByte b, n)))"

lemma nextByte_pos: "(b, n) = nextByte s \<Longrightarrow> n \<noteq> 0 \<Longrightarrow> 0 < n"
  by simp

function sprintName :: "string \<Rightarrow> string" where
  "sprintName s = (if s = [] then [] else fst (name_piece s) @ sprintName (drop (snd (name_piece s)) s))"
  by auto
termination
  by (relation "measure length") (auto simp: name_piece_def split: prod.split)

declare sprintName.simps [simp del]

text \<open>The same for an octet string: quotes and backslashes that were escaped are not escaped again.\<close>

definition octet_piece :: "string \<Rightarrow> string \<times> nat" where
  "octet_piece s =
     (if take 2 s = [CHR 0x5C, CHR ''.''] then (take 2 s, 2)
      else
        (let (b, n) = nextByte s in
         if n = 0 then ('''', 1)
         else (if b = 0x2E then ''.'' else if b < 32 \<or> b > 126 then appendByte b else [char_of_byte b], n)))"

function octet_pieces :: "string \<Rightarrow> string" where
  "octet_pieces s = (if s = [] then [] else fst (octet_piece s) @ octet_pieces (drop (snd (octet_piece s)) s))"
  by auto
termination
  by (relation "measure length") (auto simp: octet_piece_def split: prod.split)

declare octet_pieces.simps [simp del]

definition sprintTxtOctet :: "string \<Rightarrow> string" where
  "sprintTxtOctet s = [CHR 0x22] @ octet_pieces s @ [CHR 0x22]"

function txt_pieces :: "string \<Rightarrow> string" where
  "txt_pieces s =
     (let (b, n) = nextByte s in if n = 0 then [] else appendTXTStringByte b @ txt_pieces (drop n s))"
  by auto
termination
  by (relation "measure length") (auto simp: nextByte_def split: if_splits)

declare txt_pieces.simps [simp del]

definition sprintTxt :: "string list \<Rightarrow> string" where
  "sprintTxt txt = join_with CHR '' '' (map (\<lambda>s. [CHR 0x22] @ txt_pieces s @ [CHR 0x22]) txt)"

definition Type_String :: "uint16 \<Rightarrow> string" where
  "Type_String t = (case map_of TypeToString t of Some s \<Rightarrow> s | None \<Rightarrow> ''TYPE'' @ Itoa (unat t))"

definition Class_String :: "uint16 \<Rightarrow> string" where
  "Class_String c = (case map_of ClassToString c of Some s \<Rightarrow> s | None \<Rightarrow> ''CLASS'' @ Itoa (unat c))"

definition Name_String :: "string \<Rightarrow> string" where
  "Name_String n = sprintName n"

definition Hdr_String :: "RR_Header \<Rightarrow> string" where
  "Hdr_String h =
     (if Rrtype h = TypeOPT then '';'' else '''') @ sprintName (Name h) @ [CHR 0x09] @ Itoa (unat (Ttl h)) @ [CHR 0x09] @
     Class_String (Class h) @ [CHR 0x09] @ Type_String (Rrtype h) @ [CHR 0x09]"

section \<open>Times, addresses and numbers\<close>

text \<open>The date of a day, counted from 1 January of the year 0, and \<open>Format("20060102150405")\<close>.\<close>

lemma days_before_year_ge: "365 * y \<le> days_before_year y"
proof -
  have "(y - 1) div 100 \<le> (y - 1) div 4" by (rule div_le_mono2) simp_all
  then show ?thesis by (simp add: days_before_year_def) arith
qed

function year_from :: "nat \<Rightarrow> nat \<Rightarrow> nat" where
  "year_from y d = (if days_before_year (y + 1) \<le> d then year_from (y + 1) d else y)"
  by auto
termination
proof (relation "measure (\<lambda>(y, d). d - y)")
  fix y d assume "days_before_year (y + 1) \<le> d"
  then have "365 * (y + 1) \<le> d" using days_before_year_ge [of "y + 1"] by linarith
  then show "((y + 1, d), (y, d)) \<in> measure (\<lambda>(y, d). d - y)" by simp
qed simp

declare year_from.simps [simp del]

function month_from :: "nat \<Rightarrow> nat \<Rightarrow> nat \<Rightarrow> nat" where
  "month_from y m d = (if m < 12 \<and> days_before_month y (m + 1) \<le> d then month_from y (m + 1) d else m)"
  by auto
termination by (relation "measure (\<lambda>(y, m, d). 12 - m)") auto

declare month_from.simps [simp del]

definition pad :: "nat \<Rightarrow> nat \<Rightarrow> string" where
  "pad k n = replicate (k - length (Itoa n)) CHR ''0'' @ Itoa n"

definition time_Format :: "nat \<Rightarrow> string" where
  "time_Format t =
     (let days = t div 86400 + days_before_year 1970; s = t mod 86400;
          y = year_from (days div 366) days; d = days - days_before_year y;
          m = month_from y 1 d
      in pad 4 y @ pad 2 m @ pad 2 (d - days_before_month y m + 1) @
         pad 2 (s div 3600) @ pad 2 (s mod 3600 div 60) @ pad 2 (s mod 60))"

definition TimeToString :: "int \<Rightarrow> uint32 \<Rightarrow> string" where
  "TimeToString now t =
     (let t = uint t;
          m = (if t < now then 0 else (t - now) div 2 ^ 31 - 1);
          m = (if m < 0 then 0 else m)
      in time_Format (nat (t - m * 2 ^ 31)))"

definition saltToString :: "string \<Rightarrow> string" where
  "saltToString s = (if s = '''' then ''-'' else ToUpper s)"

definition hex_min :: "nat \<Rightarrow> nat \<Rightarrow> string" where
  "hex_min k n = (let ds = digits_in 16 n in replicate (k - length ds) CHR ''0'' @ ds)"

fun groups_of :: "nat \<Rightarrow> nat \<Rightarrow> string \<Rightarrow> string list" where
  "groups_of k 0 s = []"
| "groups_of k (Suc n) s = take k s # groups_of k n (drop k s)"

definition euiToString :: "uint64 \<Rightarrow> nat \<Rightarrow> string" where
  "euiToString eui n =
     (if n = 64 then join_with CHR ''-'' (groups_of 2 8 (hex_min 16 (unat eui)))
      else if n = 48 then join_with CHR ''-'' (groups_of 2 6 (hex_min 12 (unat eui)))
      else '''')"

definition node_String :: "string \<Rightarrow> string" where
  "node_String node = join_with CHR '':'' (groups_of 4 4 node)"

text \<open>\<open>splitN\<close>: a string whose length is a multiple of \<open>n\<close> gets an empty chunk at the end.\<close>

function chunks_of :: "nat \<Rightarrow> string \<Rightarrow> string list" where
  "chunks_of n s = (if 0 < n \<and> n \<le> length s then take n s # chunks_of n (drop n s) else [s])"
  by auto
termination by (relation "measure (\<lambda>(n, s). length s)") auto

declare chunks_of.simps [simp del]

definition splitN :: "string \<Rightarrow> nat \<Rightarrow> string list" where
  "splitN s n = (if length s < n then [s] else chunks_of n s)"

definition num :: "('a :: len) word \<Rightarrow> string" where
  "num w = Itoa (unat w)"

definition spaced :: "string list \<Rightarrow> string" where
  "spaced ws = join_with CHR '' '' ws"

definition cmToM :: "byte \<Rightarrow> byte \<Rightarrow> string" where
  "cmToM m e =
     (if e < 2 then ''0.'' @ pad 2 (unat (if e = 1 then m * 10 else m))
      else num m @ replicate (unat e - 2) CHR ''0'')"

section \<open>Records\<close>

definition String_ANY :: "RR_Header \<Rightarrow> string" where
  "String_ANY h =
     Hdr_String h"

definition String_CNAME :: "RR_Header \<Rightarrow> string \<Rightarrow> string" where
  "String_CNAME h n =
     Hdr_String h @ sprintName n"

definition String_MB :: "RR_Header \<Rightarrow> string \<Rightarrow> string" where
  "String_MB h n =
     Hdr_String h @ sprintName n"

definition String_MG :: "RR_Header \<Rightarrow> string \<Rightarrow> string" where
  "String_MG h n =
     Hdr_String h @ sprintName n"

definition String_HINFO :: "RR_Header \<Rightarrow> string \<Rightarrow> string \<Rightarrow> string" where
  "String_HINFO h cpu os =
     Hdr_String h @ sprintTxt [cpu, os]"

definition String_MINFO :: "RR_Header \<Rightarrow> string \<Rightarrow> string \<Rightarrow> string" where
  "String_MINFO h n m =
     Hdr_String h @ spaced [sprintName n, sprintName m]"

definition String_MR :: "RR_Header \<Rightarrow> string \<Rightarrow> string" where
  "String_MR h n =
     Hdr_String h @ sprintName n"

definition String_MF :: "RR_Header \<Rightarrow> string \<Rightarrow> string" where
  "String_MF h n =
     Hdr_String h @ sprintName n"

definition String_MD :: "RR_Header \<Rightarrow> string \<Rightarrow> string" where
  "String_MD h n =
     Hdr_String h @ sprintName n"

definition String_MX :: "RR_Header \<Rightarrow> uint16 \<Rightarrow> string \<Rightarrow> string" where
  "String_MX h p n =
     Hdr_String h @ spaced [num p, sprintName n]"

definition String_AFSDB :: "RR_Header \<Rightarrow> uint16 \<Rightarrow> string \<Rightarrow> string" where
  "String_AFSDB h p n =
     Hdr_String h @ spaced [num p, sprintName n]"

definition String_X25 :: "RR_Header \<Rightarrow> string \<Rightarrow> string" where
  "String_X25 h a =
     Hdr_String h @ a"

definition String_RT :: "RR_Header \<Rightarrow> uint16 \<Rightarrow> string \<Rightarrow> string" where
  "String_RT h p n =
     Hdr_String h @ spaced [num p, sprintName n]"

definition String_NS :: "RR_Header \<Rightarrow> string \<Rightarrow> string" where
  "String_NS h n =
     Hdr_String h @ sprintName n"

definition String_PTR :: "RR_Header \<Rightarrow> string \<Rightarrow> string" where
  "String_PTR h n =
     Hdr_String h @ sprintName n"

text \<open>The name of the text is printed as a text.\<close>

definition String_RP :: "RR_Header \<Rightarrow> string \<Rightarrow> string \<Rightarrow> string" where
  "String_RP h mbox tx =
     Hdr_String h @ spaced [mbox, sprintTxt [tx]]"

definition String_SOA :: "RR_Header \<Rightarrow> string \<Rightarrow> string \<Rightarrow> uint32 \<Rightarrow> uint32 \<Rightarrow> uint32 \<Rightarrow> uint32 \<Rightarrow> uint32 \<Rightarrow> string" where
  "String_SOA h n m serial refresh retry expire minttl =
     Hdr_String h @ spaced [sprintName n, sprintName m, num serial, num refresh, num retry, num expire, num minttl]"

definition String_TXT :: "RR_Header \<Rightarrow> string list \<Rightarrow> string" where
  "String_TXT h txt =
     Hdr_String h @ sprintTxt txt"

definition String_SPF :: "RR_Header \<Rightarrow> string list \<Rightarrow> string" where
  "String_SPF h txt =
     Hdr_String h @ sprintTxt txt"

definition String_AVC :: "RR_Header \<Rightarrow> string list \<Rightarrow> string" where
  "String_AVC h txt =
     Hdr_String h @ sprintTxt txt"

definition String_SRV :: "RR_Header \<Rightarrow> uint16 \<Rightarrow> uint16 \<Rightarrow> uint16 \<Rightarrow> string \<Rightarrow> string" where
  "String_SRV h p w q n =
     Hdr_String h @ spaced [num p, num w, num q, sprintName n]"

definition String_NAPTR :: "RR_Header \<Rightarrow> uint16 \<Rightarrow> uint16 \<Rightarrow> string \<Rightarrow> string \<Rightarrow> string \<Rightarrow> string \<Rightarrow> string" where
  "String_NAPTR h i p fl sv re n =
     Hdr_String h @ spaced [num i, num p, [CHR 0x22] @ fl @ [CHR 0x22], [CHR 0x22] @ sv @ [CHR 0x22],
       [CHR 0x22] @ re @ [CHR 0x22], n]"

definition String_CERT :: "RR_Header \<Rightarrow> uint16 \<Rightarrow> uint16 \<Rightarrow> byte \<Rightarrow> string \<Rightarrow> string" where
  "String_CERT h typ tag alg c =
     Hdr_String h @ spaced [case map_of CertTypeToString typ of Some s \<Rightarrow> s | None \<Rightarrow> num typ, num tag,
       case map_of AlgorithmToString alg of Some s \<Rightarrow> s | None \<Rightarrow> num alg, c]"

definition String_DNAME :: "RR_Header \<Rightarrow> string \<Rightarrow> string" where
  "String_DNAME h n =
     Hdr_String h @ sprintName n"

definition String_A :: "RR_Header \<Rightarrow> IP \<Rightarrow> string" where
  "String_A h ip =
     (if ip = [] then Hdr_String h else Hdr_String h @ IP_String (Some ip))"

definition String_AAAA :: "RR_Header \<Rightarrow> IP \<Rightarrow> string" where
  "String_AAAA h ip =
     (if ip = [] then Hdr_String h else Hdr_String h @ IP_String (Some ip))"

definition String_PX :: "RR_Header \<Rightarrow> uint16 \<Rightarrow> string \<Rightarrow> string \<Rightarrow> string" where
  "String_PX h p n m =
     Hdr_String h @ spaced [num p, sprintName n, sprintName m]"

definition String_GPOS :: "RR_Header \<Rightarrow> string \<Rightarrow> string \<Rightarrow> string \<Rightarrow> string" where
  "String_GPOS h lon lat alt =
     Hdr_String h @ spaced [lon, lat, alt]"

definition loc_angle :: "string \<Rightarrow> string \<Rightarrow> uint32 \<Rightarrow> string list" where
  "loc_angle pos neg l =
     (let (l, dir) = (if l > 0x80000000 then (l - 0x80000000, pos) else (0x80000000 - l, neg));
          deg = unat l div 3600000; l = unat l mod 3600000; m = l div 60000; l = l mod 60000
      in [pad 2 deg, pad 2 m, Itoa (l div 1000) @ ''.'' @ pad 3 (l mod 1000), dir])"

definition loc_altitude :: "uint32 \<Rightarrow> string" where
  "loc_altitude alt =
     (let a = uint alt - 10000000; c = nat \<bar>a\<bar>
      in (if a < 0 then ''-'' else '''') @ Itoa (c div 100) @
         (if uint alt mod 100 \<noteq> 0 then ''.'' @ pad 2 (c mod 100) else '''') @ ''m'')"

definition loc_size :: "byte \<Rightarrow> string" where
  "loc_size b = cmToM (b div 16) (b mod 16) @ ''m''"

definition String_LOC :: "RR_Header \<Rightarrow> byte \<Rightarrow> byte \<Rightarrow> byte \<Rightarrow> byte \<Rightarrow> uint32 \<Rightarrow> uint32 \<Rightarrow> uint32 \<Rightarrow> string" where
  "String_LOC h ver sz hp vp lat lon alt =
     Hdr_String h @ spaced (loc_angle ''N'' ''S'' lat @ loc_angle ''E'' ''W'' lon @
       [loc_altitude alt, loc_size sz, loc_size hp, loc_size vp])"

definition String_RRSIG ::
    "int \<Rightarrow> RR_Header \<Rightarrow> uint16 \<Rightarrow> byte \<Rightarrow> byte \<Rightarrow> uint32 \<Rightarrow> uint32 \<Rightarrow> uint32 \<Rightarrow> uint16 \<Rightarrow> string \<Rightarrow> string \<Rightarrow> string" where
  "String_RRSIG now h t alg lab ttl exp inc tag n sig =
     Hdr_String h @ spaced [Type_String t, num alg, num lab, num ttl, TimeToString now exp, TimeToString now inc,
       num tag, sprintName n, sig]"

definition String_NSEC :: "RR_Header \<Rightarrow> string \<Rightarrow> uint16 list \<Rightarrow> string" where
  "String_NSEC h n ks =
     Hdr_String h @ spaced (sprintName n # map Type_String ks)"

definition String_DS :: "RR_Header \<Rightarrow> uint16 \<Rightarrow> byte \<Rightarrow> byte \<Rightarrow> string \<Rightarrow> string" where
  "String_DS h tag alg dt dig =
     Hdr_String h @ spaced [num tag, num alg, num dt, ToUpper dig]"

definition String_KX :: "RR_Header \<Rightarrow> uint16 \<Rightarrow> string \<Rightarrow> string" where
  "String_KX h p n =
     Hdr_String h @ spaced [num p, sprintName n]"

definition String_TA :: "RR_Header \<Rightarrow> uint16 \<Rightarrow> byte \<Rightarrow> byte \<Rightarrow> string \<Rightarrow> string" where
  "String_TA h tag alg dt dig =
     Hdr_String h @ spaced [num tag, num alg, num dt, ToUpper dig]"

definition String_TALINK :: "RR_Header \<Rightarrow> string \<Rightarrow> string \<Rightarrow> string" where
  "String_TALINK h n m =
     Hdr_String h @ spaced [sprintName n, sprintName m]"

definition String_SSHFP :: "RR_Header \<Rightarrow> byte \<Rightarrow> byte \<Rightarrow> string \<Rightarrow> string" where
  "String_SSHFP h alg typ fp =
     Hdr_String h @ spaced [num alg, num typ, ToUpper fp]"

definition String_DNSKEY :: "RR_Header \<Rightarrow> uint16 \<Rightarrow> byte \<Rightarrow> byte \<Rightarrow> string \<Rightarrow> string" where
  "String_DNSKEY h flags proto alg key =
     Hdr_String h @ spaced [num flags, num proto, num alg, key]"

definition String_RKEY :: "RR_Header \<Rightarrow> uint16 \<Rightarrow> byte \<Rightarrow> byte \<Rightarrow> string \<Rightarrow> string" where
  "String_RKEY h flags proto alg key =
     Hdr_String h @ spaced [num flags, num proto, num alg, key]"

definition String_NSAPPTR :: "RR_Header \<Rightarrow> string \<Rightarrow> string" where
  "String_NSAPPTR h n =
     Hdr_String h @ sprintName n"

definition String_NSEC3 :: "RR_Header \<Rightarrow> byte \<Rightarrow> byte \<Rightarrow> uint16 \<Rightarrow> string \<Rightarrow> string \<Rightarrow> uint16 list \<Rightarrow> string" where
  "String_NSEC3 h hash flags iter salt nd ks =
     Hdr_String h @ spaced ([num hash, num flags, num iter, saltToString salt, nd] @ map Type_String ks)"

definition String_NSEC3PARAM :: "RR_Header \<Rightarrow> byte \<Rightarrow> byte \<Rightarrow> uint16 \<Rightarrow> string \<Rightarrow> string" where
  "String_NSEC3PARAM h hash flags iter salt =
     Hdr_String h @ spaced [num hash, num flags, num iter, saltToString salt]"

definition rfc3597Header :: "RR_Header \<Rightarrow> string" where
  "rfc3597Header h =
     sprintName (Name h) @ [CHR 0x09] @ num (Ttl h) @ [CHR 0x09] @ ''CLASS'' @ num (Class h) @ [CHR 0x09] @
     ''TYPE'' @ num (Rrtype h) @ [CHR 0x09]"

definition String_RFC3597 :: "RR_Header \<Rightarrow> string \<Rightarrow> string" where
  "String_RFC3597 h rd =
     rfc3597Header h @ spaced [[CHR 0x5C, CHR ''#''], Itoa (length rd div 2), rd]"

definition String_URI :: "RR_Header \<Rightarrow> uint16 \<Rightarrow> uint16 \<Rightarrow> string \<Rightarrow> string" where
  "String_URI h p w t =
     Hdr_String h @ spaced [num p, num w, sprintTxtOctet t]"

definition String_DHCID :: "RR_Header \<Rightarrow> string \<Rightarrow> string" where
  "String_DHCID h dig =
     Hdr_String h @ dig"

definition String_TLSA :: "RR_Header \<Rightarrow> byte \<Rightarrow> byte \<Rightarrow> byte \<Rightarrow> string \<Rightarrow> string" where
  "String_TLSA h u s m c =
     Hdr_String h @ spaced [num u, num s, num m, c]"

definition String_SMIMEA :: "RR_Header \<Rightarrow> byte \<Rightarrow> byte \<Rightarrow> byte \<Rightarrow> string \<Rightarrow> string" where
  "String_SMIMEA h u s m c =
     Hdr_String h @ spaced ([num u, num s, num m] @ splitN c 1024)"

definition String_HIP :: "RR_Header \<Rightarrow> byte \<Rightarrow> string \<Rightarrow> string \<Rightarrow> string list \<Rightarrow> string" where
  "String_HIP h alg hit key xs =
     Hdr_String h @ spaced ([num alg, hit, key] @ map sprintName xs)"

definition String_NINFO :: "RR_Header \<Rightarrow> string list \<Rightarrow> string" where
  "String_NINFO h txt =
     Hdr_String h @ sprintTxt txt"

definition String_NID :: "RR_Header \<Rightarrow> uint16 \<Rightarrow> uint64 \<Rightarrow> string" where
  "String_NID h p u =
     Hdr_String h @ spaced [num p, node_String (hex_min 16 (unat u))]"

definition String_L32 :: "RR_Header \<Rightarrow> uint16 \<Rightarrow> IP \<Rightarrow> string" where
  "String_L32 h p ip =
     Hdr_String h @ (if ip = [] then num p else spaced [num p, IP_String (Some ip)])"

definition String_L64 :: "RR_Header \<Rightarrow> uint16 \<Rightarrow> uint64 \<Rightarrow> string" where
  "String_L64 h p u =
     Hdr_String h @ spaced [num p, node_String (ToUpper (hex_min 16 (unat u)))]"

definition String_LP :: "RR_Header \<Rightarrow> uint16 \<Rightarrow> string \<Rightarrow> string" where
  "String_LP h p n =
     Hdr_String h @ spaced [num p, sprintName n]"

definition String_EUI48 :: "RR_Header \<Rightarrow> uint64 \<Rightarrow> string" where
  "String_EUI48 h a =
     Hdr_String h @ euiToString a 48"

definition String_EUI64 :: "RR_Header \<Rightarrow> uint64 \<Rightarrow> string" where
  "String_EUI64 h a =
     Hdr_String h @ euiToString a 64"

definition String_CAA :: "RR_Header \<Rightarrow> byte \<Rightarrow> string \<Rightarrow> string \<Rightarrow> string" where
  "String_CAA h fl tag v =
     Hdr_String h @ spaced [num fl, tag, sprintTxtOctet v]"

definition String_UID :: "RR_Header \<Rightarrow> uint32 \<Rightarrow> string" where
  "String_UID h i =
     Hdr_String h @ num i"

definition String_GID :: "RR_Header \<Rightarrow> uint32 \<Rightarrow> string" where
  "String_GID h i =
     Hdr_String h @ num i"

definition String_UINFO :: "RR_Header \<Rightarrow> string \<Rightarrow> string" where
  "String_UINFO h u =
     Hdr_String h @ sprintTxt [u]"

definition String_EID :: "RR_Header \<Rightarrow> string \<Rightarrow> string" where
  "String_EID h s =
     Hdr_String h @ ToUpper s"

definition String_NIMLOC :: "RR_Header \<Rightarrow> string \<Rightarrow> string" where
  "String_NIMLOC h s =
     Hdr_String h @ ToUpper s"

definition String_OPENPGPKEY :: "RR_Header \<Rightarrow> string \<Rightarrow> string" where
  "String_OPENPGPKEY h key =
     Hdr_String h @ key"

definition tsigTimeToString :: "uint64 \<Rightarrow> string" where
  "tsigTimeToString t = time_Format (unat t)"

definition String_TSIG ::
    "RR_Header \<Rightarrow> string \<Rightarrow> uint64 \<Rightarrow> uint16 \<Rightarrow> uint16 \<Rightarrow> string \<Rightarrow> uint16 \<Rightarrow> uint16 \<Rightarrow> uint16 \<Rightarrow> string \<Rightarrow> string" where
  "String_TSIG h alg ts fudge macsize mac oid err olen od =
     [CHR 0x0A] @ '';; TSIG PSEUDOSECTION:'' @ [CHR 0x0A] @ Hdr_String h @ '' '' @
     spaced [alg, tsigTimeToString ts, num fudge, num macsize, ToUpper mac, num oid, num err, num olen, od]"

section \<open>Options\<close>

definition HashToString :: "(byte \<times> string) list" where
  "HashToString = [(1, ''SHA1''), (2, ''SHA256''), (3, ''GOST94''), (4, ''SHA384''), (5, ''SHA512'')]"

text \<open>\<open>string(c)\<close> of a byte is the UTF-8 form of that code point.\<close>

definition rune_String :: "byte \<Rightarrow> string" where
  "rune_String c =
     (if c < 128 then [char_of_byte c]
      else [char_of (0xC0 + unat c div 64), char_of (0x80 + unat c mod 64)])"

definition NSID_runes :: "string \<Rightarrow> string" where
  "NSID_runes nsid =
     (case hex_DecodeString nsid of
        Ok h \<Rightarrow> ''  '' @ concat (map (\<lambda>c. ''('' @ rune_String c @ '')'') h)
      | _ \<Rightarrow> '''')"

definition SUBNET_String :: "byte \<Rightarrow> byte \<Rightarrow> IP \<Rightarrow> string" where
  "SUBNET_String netmask scope ip =
     (if ip = [] then ''<nil>''
      else if To4 ip \<noteq> None then IP_String (Some ip)
      else ''['' @ IP_String (Some ip) @ '']'') @ ''/'' @ num netmask @ ''/'' @ num scope"

definition LLQ_String :: "uint16 \<Rightarrow> uint16 \<Rightarrow> uint16 \<Rightarrow> uint64 \<Rightarrow> uint32 \<Rightarrow> string" where
  "LLQ_String ver op err ident life = spaced [num ver, num op, num err, num ident, num life]"

definition codes_String :: "(byte \<times> string) list \<Rightarrow> byte list \<Rightarrow> string" where
  "codes_String names codes =
     concat (map (\<lambda>c. '' '' @ (case map_of names c of Some s \<Rightarrow> s | None \<Rightarrow> num c)) codes)"

definition DAU_String :: "byte list \<Rightarrow> string" where "DAU_String = codes_String AlgorithmToString"

definition DHU_String :: "byte list \<Rightarrow> string" where "DHU_String = codes_String HashToString"

definition N3U_String :: "byte list \<Rightarrow> string" where "N3U_String = codes_String HashToString"

definition LOCAL_String :: "uint16 \<Rightarrow> byte list \<Rightarrow> string" where
  "LOCAL_String code dat = num code @ '':0x'' @ hex_EncodeToString dat"

text \<open>The timeout, in units of 100 ms, is multiplied at its 16 bits.\<close>

definition TCP_KEEPALIVE_String :: "uint16 \<Rightarrow> uint16 \<Rightarrow> string" where
  "TCP_KEEPALIVE_String len timeout =
     ''use tcp keep-alive'' @
     (if len = 0 then '', timeout omitted'' else '', timeout '' @ num (timeout * 100) @ ''ms'')"

text \<open>The line of an option in the printed \<open>OPT\<close> record; two kinds of options are not printed.\<close>

fun option_line :: "EDNS0 \<Rightarrow> string" where
  "option_line (EDNS0_NSID code nsid) = [CHR 0x0A] @ ''; NSID: '' @ nsid @ NSID_runes nsid"
| "option_line (EDNS0_SUBNET code family netmask scope ip draft) =
     [CHR 0x0A] @ ''; SUBNET: '' @ SUBNET_String netmask scope ip @ (if draft then '' (draft)'' else '''')"
| "option_line (EDNS0_COOKIE code cookie) = [CHR 0x0A] @ ''; COOKIE: '' @ cookie"
| "option_line (EDNS0_UL code lease) = [CHR 0x0A] @ ''; UPDATE LEASE: '' @ num lease"
| "option_line (EDNS0_LLQ code ver op err ident life) =
     [CHR 0x0A] @ ''; LONG LIVED QUERIES: '' @ LLQ_String ver op err ident life"
| "option_line (EDNS0_DAU code codes) = [CHR 0x0A] @ ''; DNSSEC ALGORITHM UNDERSTOOD: '' @ DAU_String codes"
| "option_line (EDNS0_DHU code codes) = [CHR 0x0A] @ ''; DS HASH UNDERSTOOD: '' @ DHU_String codes"
| "option_line (EDNS0_N3U code codes) = [CHR 0x0A] @ ''; NSEC3 HASH UNDERSTOOD: '' @ N3U_String codes"
| "option_line (EDNS0_LOCAL code dat) = [CHR 0x0A] @ ''; LOCAL OPT: '' @ LOCAL_String code dat"
| "option_line (EDNS0_EXPIRE code expire) = ''''"
| "option_line (EDNS0_TCP_KEEPALIVE code len timeout) = ''''"

definition String_OPT :: "RR_Header \<Rightarrow> EDNS0 list \<Rightarrow> string" where
  "String_OPT h options =
     [CHR 0x0A] @ '';; OPT PSEUDOSECTION:'' @ [CHR 0x0A] @ ''; EDNS: version '' @ num (OPT_Version h) @ ''; '' @
     (if OPT_Do h then ''flags: do; '' else ''flags: ; '') @
     ''udp: '' @ num (OPT_UDPSize h) @ concat (map option_line options)"

section \<open>The records\<close>

fun std_String :: "RR_Header \<Rightarrow> std_rdata \<Rightarrow> string" where
  "std_String h RR_ANY = String_ANY h"
| "std_String h (RR_CNAME n) = String_CNAME h n"
| "std_String h (RR_HINFO c os) = String_HINFO h c os"
| "std_String h (RR_MB n) = String_MB h n"
| "std_String h (RR_MG n) = String_MG h n"
| "std_String h (RR_MINFO n m) = String_MINFO h n m"
| "std_String h (RR_MR n) = String_MR h n"
| "std_String h (RR_MF n) = String_MF h n"
| "std_String h (RR_MD n) = String_MD h n"
| "std_String h (RR_MX p n) = String_MX h p n"
| "std_String h (RR_AFSDB p n) = String_AFSDB h p n"
| "std_String h (RR_X25 a) = String_X25 h a"
| "std_String h (RR_RT p n) = String_RT h p n"
| "std_String h (RR_NS n) = String_NS h n"
| "std_String h (RR_PTR n) = String_PTR h n"
| "std_String h (RR_RP n m) = String_RP h n m"
| "std_String h (RR_SOA n m se rf rt ex mi) = String_SOA h n m se rf rt ex mi"
| "std_String h (RR_TXT tx) = String_TXT h tx"
| "std_String h (RR_SPF tx) = String_SPF h tx"
| "std_String h (RR_AVC tx) = String_AVC h tx"
| "std_String h (RR_SRV p w q n) = String_SRV h p w q n"
| "std_String h (RR_NAPTR i p fl sv re n) = String_NAPTR h i p fl sv re n"
| "std_String h (RR_CERT typ tag alg c) = String_CERT h typ tag alg c"
| "std_String h (RR_DNAME n) = String_DNAME h n"
| "std_String h (RR_A ip) = String_A h ip"
| "std_String h (RR_AAAA ip) = String_AAAA h ip"

fun sec_String :: "int \<Rightarrow> RR_Header \<Rightarrow> sec_rdata \<Rightarrow> string" where
  "sec_String now h (RR_PX p n m) = String_PX h p n m"
| "sec_String now h (RR_GPOS lon lat alt) = String_GPOS h lon lat alt"
| "sec_String now h (RR_LOC ver sz hp vp lat lon alt) = String_LOC h ver sz hp vp lat lon alt"
| "sec_String now h (RR_SIG t alg lab ttl ex inc tag n s) = String_RRSIG now h t alg lab ttl ex inc tag n s"
| "sec_String now h (RR_RRSIG t alg lab ttl ex inc tag n s) = String_RRSIG now h t alg lab ttl ex inc tag n s"
| "sec_String now h (RR_NSEC n ks) = String_NSEC h n ks"
| "sec_String now h (RR_DLV tag alg dt d) = String_DS h tag alg dt d"
| "sec_String now h (RR_CDS tag alg dt d) = String_DS h tag alg dt d"
| "sec_String now h (RR_DS tag alg dt d) = String_DS h tag alg dt d"
| "sec_String now h (RR_KX p n) = String_KX h p n"
| "sec_String now h (RR_TA tag alg dt d) = String_TA h tag alg dt d"
| "sec_String now h (RR_TALINK n m) = String_TALINK h n m"
| "sec_String now h (RR_SSHFP alg typ fp) = String_SSHFP h alg typ fp"
| "sec_String now h (RR_KEY fl pr alg key) = String_DNSKEY h fl pr alg key"
| "sec_String now h (RR_CDNSKEY fl pr alg key) = String_DNSKEY h fl pr alg key"
| "sec_String now h (RR_DNSKEY fl pr alg key) = String_DNSKEY h fl pr alg key"
| "sec_String now h (RR_RKEY fl pr alg key) = String_RKEY h fl pr alg key"
| "sec_String now h (RR_NSAPPTR n) = String_NSAPPTR h n"
| "sec_String now h (RR_NSEC3 ha fl it sl salt hl nd ks) = String_NSEC3 h ha fl it salt nd ks"
| "sec_String now h (RR_NSEC3PARAM ha fl it sl salt) = String_NSEC3PARAM h ha fl it salt"

fun ext_String :: "RR_Header \<Rightarrow> ext_rdata \<Rightarrow> string" where
  "ext_String h (RR_TKEY alg inc ex mode err ks key ol od) = ''''"
| "ext_String h (RR_RFC3597 rd) = String_RFC3597 h rd"
| "ext_String h (RR_URI p w t) = String_URI h p w t"
| "ext_String h (RR_DHCID d) = String_DHCID h d"
| "ext_String h (RR_TLSA u s m c) = String_TLSA h u s m c"
| "ext_String h (RR_SMIMEA u s m c) = String_SMIMEA h u s m c"
| "ext_String h (RR_HIP hl alg pl hit key xs) = String_HIP h alg hit key xs"
| "ext_String h (RR_NINFO tx) = String_NINFO h tx"
| "ext_String h (RR_NID p u) = String_NID h p u"
| "ext_String h (RR_L32 p ip) = String_L32 h p ip"
| "ext_String h (RR_L64 p u) = String_L64 h p u"
| "ext_String h (RR_LP p n) = String_LP h p n"
| "ext_String h (RR_EUI48 a) = String_EUI48 h a"
| "ext_String h (RR_EUI64 a) = String_EUI64 h a"
| "ext_String h (RR_CAA fl tag v) = String_CAA h fl tag v"
| "ext_String h (RR_UID i) = String_UID h i"
| "ext_String h (RR_GID i) = String_GID h i"
| "ext_String h (RR_UINFO u) = String_UINFO h u"
| "ext_String h (RR_EID s) = String_EID h s"
| "ext_String h (RR_NIMLOC s) = String_NIMLOC h s"
| "ext_String h (RR_OPENPGPKEY key) = String_OPENPGPKEY h key"
| "ext_String h (RR_OPT options) = String_OPT h options"
| "ext_String h (RR_TSIG alg ts fudge ms mac oid err ol od) = String_TSIG h alg ts fudge ms mac oid err ol od"

definition RR_String :: "int \<Rightarrow> RR \<Rightarrow> string" where
  "RR_String now r =
     (case Rdata r of
        Std d \<Rightarrow> std_String (Hdr r) d
      | Sec d \<Rightarrow> sec_String now (Hdr r) d
      | Ext d \<Rightarrow> ext_String (Hdr r) d)"

section \<open>Messages\<close>

definition OpcodeToString :: "(int \<times> string) list" where
  "OpcodeToString =
     [(OpcodeQuery, ''QUERY''), (OpcodeIQuery, ''IQUERY''), (OpcodeStatus, ''STATUS''), (OpcodeNotify, ''NOTIFY''),
      (OpcodeUpdate, ''UPDATE'')]"

definition RcodeToString :: "(int \<times> string) list" where
  "RcodeToString =
     [(RcodeSuccess, ''NOERROR''), (RcodeFormatError, ''FORMERR''), (RcodeServerFailure, ''SERVFAIL''),
      (RcodeNameError, ''NXDOMAIN''), (RcodeNotImplemented, ''NOTIMPL''), (RcodeRefused, ''REFUSED''),
      (RcodeYXDomain, ''YXDOMAIN''), (RcodeYXRrset, ''YXRRSET''), (RcodeNXRrset, ''NXRRSET''),
      (RcodeNotAuth, ''NOTAUTH''), (RcodeNotZone, ''NOTZONE''), (RcodeBadSig, ''BADSIG''), (RcodeBadKey, ''BADKEY''),
      (RcodeBadTime, ''BADTIME''), (RcodeBadMode, ''BADMODE''), (RcodeBadName, ''BADNAME''), (RcodeBadAlg, ''BADALG''),
      (RcodeBadTrunc, ''BADTRUNC''), (RcodeBadCookie, ''BADCOOKIE'')]"

text \<open>A key that a map does not have gives the empty string.\<close>

definition lookup_name :: "(int \<times> string) list \<Rightarrow> int \<Rightarrow> string" where
  "lookup_name m k = (case map_of m k of Some s \<Rightarrow> s | None \<Rightarrow> '''')"

definition MsgHdr_String :: "'a MsgHdr_scheme \<Rightarrow> string" where
  "MsgHdr_String h =
     '';; opcode: '' @ lookup_name OpcodeToString (Opcode h) @ '', status: '' @ lookup_name RcodeToString (Rcode h) @
     '', id: '' @ num (MsgId h) @ [CHR 0x0A] @ '';; flags:'' @
     (if Response h then '' qr'' else '''') @ (if Authoritative h then '' aa'' else '''') @
     (if Truncated h then '' tc'' else '''') @ (if RecursionDesired h then '' rd'' else '''') @
     (if RecursionAvailable h then '' ra'' else '''') @ (if Zero h then '' z'' else '''') @
     (if AuthenticatedData h then '' ad'' else '''') @ (if CheckingDisabled h then '' cd'' else '''') @ '';''"

definition Question_String :: "Question \<Rightarrow> string" where
  "Question_String q =
     '';'' @ sprintName (QName q) @ [CHR 0x09] @ Class_String (Qclass q) @ [CHR 0x09] @ '' '' @ Type_String (Qtype q)"

definition section_String :: "string \<Rightarrow> string list \<Rightarrow> string" where
  "section_String title lines =
     (if lines = [] then ''''
      else [CHR 0x0A] @ '';; '' @ title @ '' SECTION:'' @ [CHR 0x0A] @ concat (map (\<lambda>l. l @ [CHR 0x0A]) lines))"

definition Msg_String :: "int \<Rightarrow> Msg \<Rightarrow> string" where
  "Msg_String now m =
     MsgHdr_String m @ '' '' @
     ''QUERY: '' @ Itoa (length (Questions m)) @ '', ANSWER: '' @ Itoa (length (Answer m)) @
     '', AUTHORITY: '' @ Itoa (length (Ns m)) @ '', ADDITIONAL: '' @ Itoa (length (Extra m)) @ [CHR 0x0A] @
     section_String ''QUESTION'' (map Question_String (Questions m)) @
     section_String ''ANSWER'' (map (RR_String now) (Answer m)) @
     section_String ''AUTHORITY'' (map (RR_String now) (Ns m)) @
     section_String ''ADDITIONAL'' (map (RR_String now) (Extra m))"

section \<open>Duplicates\<close>

text \<open>
  The bytes of the printed record up to its second tab: letters that are not escaped become lower
  case, and the places of the first two tabs are found; the first one is searched for again while it
  is at 0.
\<close>

fun norm_loop :: "nat \<Rightarrow> bool \<Rightarrow> nat \<Rightarrow> nat \<Rightarrow> string \<Rightarrow> string \<times> nat \<times> nat" where
  "norm_loop i esc ts te [] = ([], ts, te)"
| "norm_loop i esc ts te (c # cs) =
     (if te \<noteq> 0 then (c # cs, ts, te)
      else if c = CHR 0x5C then apfst ((#) c) (norm_loop (i + 1) (\<not> esc) ts te cs)
      else if c = CHR 0x09 \<and> \<not> esc then
        (if ts = 0 then apfst ((#) c) (norm_loop (i + 1) esc i te cs)
         else apfst ((#) c) (norm_loop (i + 1) esc ts i cs))
      else if ord CHR ''A'' \<le> ord c \<and> ord c \<le> ord CHR ''Z'' \<and> \<not> esc then
        apfst ((#) (lower_char c)) (norm_loop (i + 1) esc ts te cs)
      else apfst ((#) c) (norm_loop (i + 1) False ts te cs))"

text \<open>Every printed record has both tabs or none, so that the cut is never negative.\<close>

definition normalizedString :: "int \<Rightarrow> RR \<Rightarrow> string" where
  "normalizedString now r =
     (case norm_loop 0 False 0 0 (RR_String now r) of (b, ts, te) \<Rightarrow> take ts b @ drop te b)"

text \<open>
  \<open>Dedup\<close> on pointers into a store of records; the map \<open>m\<close> is the caller's or a new one.
\<close>

type_synonym rr_store = "nat \<Rightarrow> RR"

definition key_map_put :: "string \<Rightarrow> nat \<Rightarrow> (string \<times> nat) list \<Rightarrow> (string \<times> nat) list" where
  "key_map_put k r m = (k, r) # m"

definition set_ttl :: "nat \<Rightarrow> uint32 \<Rightarrow> rr_store \<Rightarrow> rr_store" where
  "set_ttl p ttl st = st(p := (st p)\<lparr>Hdr := (Hdr (st p))\<lparr>Ttl := ttl\<rparr>\<rparr>)"

fun dedup_scan ::
    "int \<Rightarrow> rr_store \<Rightarrow> nat list \<Rightarrow> (string \<times> nat) list \<Rightarrow> rr_store \<times> string list \<times> (string \<times> nat) list" where
  "dedup_scan now st [] m = (st, [], m)"
| "dedup_scan now st (r # rs) m =
     (let key = normalizedString now (st r) in
      case map_of m key of
        Some p \<Rightarrow>
          (let st = (if Ttl (Hdr (st p)) > Ttl (Hdr (st r)) then set_ttl p (Ttl (Hdr (st r))) st else st)
           in case dedup_scan now st rs m of (st, keys, m) \<Rightarrow> (st, key # keys, m))
      | None \<Rightarrow> (case dedup_scan now st rs (key_map_put key r m) of (st, keys, m) \<Rightarrow> (st, key # keys, m)))"

fun dedup_keep :: "(string \<times> nat) list \<Rightarrow> nat list \<Rightarrow> string list \<Rightarrow> nat list" where
  "dedup_keep m (r # rs) (k # ks) =
     (let found = (map_of m k \<noteq> None);
          m = (if found then filter (\<lambda>(k', p). k' \<noteq> k) m else m)
      in (if found then [r] else []) @ (if m = [] then [] else dedup_keep m rs ks))"
| "dedup_keep m rs ks = []"

definition Dedup :: "int \<Rightarrow> rr_store \<Rightarrow> nat list \<Rightarrow> (string \<times> nat) list \<Rightarrow> rr_store \<times> nat list" where
  "Dedup now st rrs m =
     (case dedup_scan now st rrs m of
        (st, keys, m) \<Rightarrow> (st, if length m = length rrs then rrs else dedup_keep m rrs keys))"

end
