(* ===== verification/Zone_Text.thy ===== *)
theory Zone_Text
  imports Dns_Print
begin

text \<open>
  Printing a record and parsing it again: the printer of \<open>Dns_Print\<close>, the lexer of \<open>Zone_Lex\<close> and
  the parser of \<open>Zone_Parse\<close> put together.  A printed name is one word of the lexer with its escapes,
  and a printed record of the common types is read back by \<open>NewRR\<close> as it was.
\<close>

section \<open>Names are domain names\<close>

text \<open>\<open>IsDomainName\<close> packs the name into no buffer at all; it accepts every name of labels that fit.\<close>

lemma emit_label_none:
  "off + length cs \<le> lenmsg \<Longrightarrow> emit_label lenmsg cs off None = Ok (off + length cs, None)"
  by (induction lenmsg cs off "None :: byte list option" rule: emit_label.induct) auto

lemma check_dot:
  assumes st: "at_rest (p @ string_of l) (CHR ''.'' # r) t st" and l: "l \<noteq> []" "length l < 64"
    and b: "ns_begin st = length p" "ns_comp st = None" "ns_msg st = None"
    and ed: "ns_escapedDot st = (last (string_of l) = CHR ''.'')"
    and room: "ns_off st + 1 + length l \<le> lenmsg"
  shows "\<exists>st' t'. pack_dot False lenmsg (length p + length l) st = Ok (st', None) \<and>
        at_rest (p @ string_of l @ ''.'') r t' st' \<and> ns_off st' = ns_off st + 1 + length l \<and>
        ns_msg st' = None \<and> ns_begin st' = length p + length l + 1 \<and> ns_comp st' = None"
proof -
  have last: "ns_bs st ! (length p + length l - 1) = last (string_of l)"
  proof -
    have "ns_bs st ! (length p + (length l - 1)) = string_of l ! (length l - 1)"
      using st l by (simp add: at_rest_def nth_append)
    moreover have "string_of l \<noteq> []" "length p + length l - 1 = length p + (length l - 1)"
      using l by (simp_all add: string_of_def Suc_leI)
    ultimately show ?thesis by (simp add: last_conv_nth)
  qed
  have tk: "take (length l) (drop (length p) (ns_bs st)) = string_of l"
    using st by (simp add: at_rest_def)
  have nodot: "\<not> (length p + length l > 0 \<and> ns_bs st ! (length p + length l - 1) = CHR ''.'' \<and> \<not> ns_escapedDot st)"
    using ed last by simp
  have e: "emit_label lenmsg (string_of l) (ns_off st + 1) None = Ok (ns_off st + 1 + length l, None)"
    using emit_label_none [of "ns_off st + 1" "string_of l" lenmsg] room by simp
  show ?thesis unfolding pack_dot_def if_not_P [OF nodot] using l(2) b tk e room st
    by (simp add: Let_def compress_name_def at_rest_def)
qed

lemma check_loop:
  assumes "at_rest p (wire_labels (map present_label ls)) t st" "list_all (\<lambda>l. l \<noteq> [] \<and> length l < 64) ls"
    "ns_begin st = length p" "ns_comp st = None" "ns_msg st = None" "ns_off st + name_octets ls \<le> lenmsg"
  shows "\<exists>st'. pack_name_loop False lenmsg (length p) st = Ok (st', None) \<and> ns_msg st' = None"
  using assms
proof (induction ls arbitrary: p t st)
  case Nil
  then show ?case by (subst pack_name_loop.simps) (simp add: at_rest_def)
next
  case (Cons l ls)
  have l: "l \<noteq> []" "length l < 64" and ls: "list_all (\<lambda>l. l \<noteq> [] \<and> length l < 64) ls"
    using Cons.prems(2) by simp_all
  let ?r = "wire_labels (map present_label ls)"
  have st: "at_rest p (present_label l @ CHR ''.'' # ?r) t st" using Cons.prems(1) by simp
  have room: "ns_off st < lenmsg" "ns_off st + 1 + length l \<le> lenmsg"
    using Cons.prems(6) by (simp_all add: name_octets_def)
  obtain st1 t1 where 1: "pack_name_loop False lenmsg (length p) st = pack_name_loop False lenmsg (length p + length l) st1"
    "at_rest (p @ string_of l) (CHR ''.'' # ?r) t1 st1" "same_but st st1"
    "ns_escapedDot st1 = (last (string_of l) = CHR ''.'')"
    using label_bytes [OF st room(1), of False] l(1) by auto
  have f: "ns_off st1 = ns_off st" "ns_begin st1 = length p" "ns_comp st1 = None" "ns_msg st1 = None"
    using same_but_fields [OF 1(3)] Cons.prems by simp_all
  obtain st2 t2 where 2: "pack_dot False lenmsg (length p + length l) st1 = Ok (st2, None)"
    "at_rest (p @ string_of l @ ''.'') ?r t2 st2" "ns_off st2 = ns_off st + 1 + length l"
    "ns_msg st2 = None" "ns_begin st2 = length p + length l + 1" "ns_comp st2 = None"
    using check_dot [OF 1(2) l f(2-4) 1(4), of lenmsg] room(2) f(1) by auto
  let ?st = "st2\<lparr>ns_escapedDot := False\<rparr>" and ?p = "p @ string_of l @ ''.''"
  have "pack_name_loop False lenmsg (length p + length l) st1 = pack_name_loop False lenmsg (length ?p) ?st"
    using 1(2) 2(1) by (subst pack_name_loop.simps) (simp add: at_rest_def nth_append)
  moreover have "\<exists>st'. pack_name_loop False lenmsg (length ?p) ?st = Ok (st', None) \<and> ns_msg st' = None"
  proof (rule Cons.IH [OF _ ls])
    show "at_rest ?p ?r t2 ?st" using 2(2) by (simp add: at_rest_def)
    show "ns_off ?st + name_octets ls \<le> lenmsg" using 2(3) Cons.prems(6) by (simp add: name_octets_def)
  qed (use 2 in simp_all)
  ultimately show ?case using 1(1) by simp
qed

lemma IsDomainName_present:
  assumes "labels_ok ls"
  shows "\<exists>n. IsDomainName (present ls) = Ok (n, True)"
proof (cases "ls = []")
  case True
  have "\<exists>n. IsDomainName ''.'' = Ok (n, True)"
    unfolding IsDomainName_def packDomainName_def Let_def
    by (subst pack_name_loop.simps, simp add: pack_dot_def compress_name_def Let_def)
       (subst pack_name_loop.simps, simp)
  then show ?thesis using True by (simp add: present_def fqdn_def)
next
  case False
  let ?s = "wire_labels (map present_label ls)"
  let ?st = "\<lparr>ns_bs = ?s, ns_ls = length ?s, ns_begin = 0, ns_off = 0, ns_labels = 0, ns_roBs = ?s,
                  ns_bsFresh = True, ns_escapedDot = False, ns_msg = None, ns_comp = None\<rparr>"
  have p: "present ls = ?s" using False by (simp add: present_def fqdn_def)
  have dot: "?s \<noteq> []" "?s ! (length ?s - 1) = CHR ''.''"
    using last_fqdn [of "map present_label ls"] False by (simp_all add: fqdn_def)
  have ok: "list_all (\<lambda>l. l \<noteq> [] \<and> length l < 64) ls" "name_octets ls < 255"
    using assms by (simp_all add: labels_ok_def)
  obtain st' where "pack_name_loop False 256 (length []) ?st = Ok (st', None)" "ns_msg st' = None"
    using check_loop [of "[]" ls "[]" ?st 256] ok by (auto simp: at_rest_def)
  then show ?thesis using dot unfolding p IsDomainName_def packDomainName_def Let_def
    by (simp split: if_splits)
qed

section \<open>Names are printed as they are\<close>

text \<open>
  The presentation of a name that \<open>UnpackDomainName\<close> makes is printed unchanged, unless it has an
  apostrophe, which the printer escapes.
\<close>

lemma byte_codes: "byte_of CHR ''.'' = 46" "byte_of CHR 0x5C = 92" "byte_of CHR 0x27 = 39"
  by code_simp+

lemma char_of_byte_eq: "char_of_byte b = c \<longleftrightarrow> b = byte_of c"
  by auto

lemma special_bytes: "special_byte b \<longleftrightarrow> b \<in> {46, 40, 41, 59, 32, 64, 34, 92}"
proof -
  have "set (bytes_of (''.();'' @ '' @'' @ [CHR 0x22, CHR 0x5C])) = {46, 40, 41, 59, 32, 64, 34, 92}" by code_simp
  then show ?thesis by (simp add: special_byte_def)
qed

lemma domain_specials: "set (bytes_of (''. @;()'' @ [CHR 0x27])) = {46, 32, 64, 59, 40, 41, 39}"
  by code_simp

lemma appendByte_ddd: "appendByte b = CHR 0x5C # ddd b"
  by (simp add: appendByte_def ddd_def Let_def)

lemma escape_byte_printed:
  assumes "b \<noteq> 39"
  shows "appendDomainNameByte b = (if b = 46 then [CHR 0x5C, CHR ''.''] else fst (escape_byte b))"
proof -
  have range: "unat b < 32 \<longleftrightarrow> b < 32" "127 \<le> unat b \<longleftrightarrow> 126 < b"
    by (auto simp: word_less_nat_alt)
  have dot: "char_of_byte 46 = CHR ''.''" by code_simp
  have sp: "\<not> special_byte b \<Longrightarrow> b \<noteq> 46 \<and> b \<notin> {46, 32, 64, 59, 40, 41, 39} \<and> b \<noteq> 34 \<and> b \<noteq> 92"
    using assms by (simp add: special_bytes)
  show ?thesis
  proof (cases "special_byte b")
    case True
    then have "appendDomainNameByte b = [CHR 0x5C, char_of_byte b]"
      unfolding appendDomainNameByte_def domain_specials using assms
      by (auto simp: appendTXTStringByte_def special_bytes)
    then show ?thesis using True by (simp add: escape_byte_def dot)
  next
    case False
    then show ?thesis unfolding appendDomainNameByte_def domain_specials using sp
      by (simp add: appendTXTStringByte_def escape_byte_def range appendByte_ddd)
  qed
qed

lemma sprintName_byte:
  assumes "b \<noteq> 39"
  shows "sprintName (fst (escape_byte b) @ r) = fst (escape_byte b) @ sprintName r"
proof (cases rule: escape_byte_cases [of b])
  case plain
  then have "b \<noteq> 46" by (simp add: char_of_byte_eq byte_codes)
  then have "name_piece (fst (escape_byte b) @ r) = (fst (escape_byte b), 1)"
    using plain escape_byte_printed [OF assms] by (simp add: name_piece_def nextByte_def take_Cons')
  then show ?thesis using plain by (subst sprintName.simps) simp
next
  case special
  have "name_piece (fst (escape_byte b) @ r) = (fst (escape_byte b), 2)"
    using special escape_byte_printed [OF assms] char_of_byte_eq [of b "CHR ''.''"]
    by (auto simp: name_piece_def nextByte_def byte_codes)
  then show ?thesis using special by (subst sprintName.simps) simp
next
  case ddd
  obtain x y z where xyz: "ddd b = [x, y, z]" "is_digit x" "is_digit y" "is_digit z"
    and d: "dddToByte (x # y # z # r) = b"
    using ddd_digits [of b r] by metis
  have "x \<noteq> CHR ''.''" using xyz(2) by (auto simp: is_digit_def ord_def)
  moreover have "b \<noteq> 46" using ddd(2) by (simp add: char_of_byte_eq byte_codes)
  ultimately have "name_piece (fst (escape_byte b) @ r) = (fst (escape_byte b), 4)"
    using ddd xyz d escape_byte_printed [OF assms] by (simp add: name_piece_def nextByte_def)
  then show ?thesis using ddd xyz by (subst sprintName.simps) simp
qed

lemma sprintName_dot: "sprintName (CHR ''.'' # r) = CHR ''.'' # sprintName r"
  by (subst sprintName.simps) (simp add: name_piece_def nextByte_def byte_codes take_Cons')

lemma sprintName_label: "39 \<notin> set l \<Longrightarrow> sprintName (present_label l @ r) = present_label l @ sprintName r"
  by (induction l) (simp_all add: sprintName_byte)

lemma sprintName_labels:
  "\<forall>l \<in> set ls. 39 \<notin> set l \<Longrightarrow>
   sprintName (wire_labels (map present_label ls)) = wire_labels (map present_label ls)"
proof (induction ls)
  case Nil
  show ?case by (subst sprintName.simps) simp
next
  case (Cons l ls)
  then show ?case by (simp add: sprintName_label sprintName_dot)
qed

lemma sprintName_present: "\<forall>l \<in> set ls. 39 \<notin> set l \<Longrightarrow> sprintName (present ls) = present ls"
  using sprintName_labels [of ls] sprintName_dot [of "[]"] sprintName.simps [of "[]"]
  by (auto simp: present_def fqdn_def)

section \<open>Words of the lexer\<close>

text \<open>A text that the lexer takes as a word, with escapes.\<close>

definition lex_special :: "char \<Rightarrow> bool" where
  "lex_special c \<longleftrightarrow> c \<in> set ('' ;()'' @ [CHR 0x09, CHR 0x0A, CHR 0x0D, CHR 0x22, CHR 0x5C])"

fun word_text :: "bool \<Rightarrow> string \<Rightarrow> bool" where
  "word_text esc [] = (\<not> esc)"
| "word_text esc (c # cs) =
     (if esc then c \<noteq> CHR 0x0A \<and> c \<noteq> CHR 0x0D \<and> word_text False cs
      else if c = CHR 0x5C then word_text True cs
      else \<not> lex_special c \<and> word_text False cs)"

lemma digit_not_special: "is_digit c \<Longrightarrow> \<not> lex_special c"
  by (auto simp: lex_special_def is_digit_def ord_def)

lemma word_text_byte: "word_text False (fst (escape_byte b) @ r) \<longleftrightarrow> word_text False r"
proof (cases rule: escape_byte_cases [of b])
  case plain
  have "\<not> lex_special (char_of_byte b)"
  proof -
    have codes: "map byte_of ('' ;()'' @ [CHR 0x09, CHR 0x0A, CHR 0x0D, CHR 0x22, CHR 0x5C]) =
        [32, 59, 40, 41, 9, 10, 13, 34, 92]" by code_simp
    have esc: "list_all (\<lambda>b. fst (escape_byte b) \<noteq> [char_of_byte b]) [32, 59, 40, 41, 9, 10, 13, 34, 92 :: byte]"
      by code_simp
    show ?thesis
    proof
      assume "lex_special (char_of_byte b)"
      then have "b \<in> set (map byte_of ('' ;()'' @ [CHR 0x09, CHR 0x0A, CHR 0x0D, CHR 0x22, CHR 0x5C]))"
        unfolding lex_special_def set_map by (metis byte_of_char_of_byte imageI)
      then show False using esc plain(1) unfolding codes list_all_iff by blast
    qed
  qed
  then show ?thesis using plain by simp
next
  case special
  have "char_of_byte b \<noteq> CHR 0x0A \<and> char_of_byte b \<noteq> CHR 0x0D"
  proof -
    have "byte_of CHR 0x0A = 10" "byte_of CHR 0x0D = 13" "length (fst (escape_byte 10)) = 4" "length (fst (escape_byte 13)) = 4"
      by code_simp+
    then show ?thesis using special(1) by (auto simp: char_of_byte_eq)
  qed
  then show ?thesis using special by simp
next
  case ddd
  obtain x y z where "ddd b = [x, y, z]" "is_digit x" "is_digit y" "is_digit z"
    using ddd_digits [of b r] by metis
  moreover have "x \<noteq> CHR 0x0A \<and> x \<noteq> CHR 0x0D" "y \<noteq> CHR 0x5C" "z \<noteq> CHR 0x5C"
    using calculation by (auto simp: is_digit_def ord_def)
  ultimately show ?thesis using ddd digit_not_special by simp
qed

lemma word_text_label: "word_text False (present_label l @ r) \<longleftrightarrow> word_text False r"
  by (induction l) (simp_all add: word_text_byte)

lemma word_text_present: "word_text False (present ls)"
proof -
  have "word_text False (wire_labels (map present_label ls))"
    by (induction ls) (simp_all add: word_text_label lex_special_def)
  then show ?thesis by (simp add: present_def fqdn_def lex_special_def)
qed

section \<open>The lexer on a line\<close>

text \<open>
  The state of the lexer inside a line without comments, quotes and braces: \<open>w\<close> is the word so far.
  The tokens are determined up to their places in the file.
\<close>

definition at_place :: "string \<Rightarrow> bool \<Rightarrow> bool \<Rightarrow> bool \<Rightarrow> lexer \<Rightarrow> bool" where
  "at_place w esc own rrt s \<longleftrightarrow>
     lx_str s = w \<and> lx_com s = '''' \<and> \<not> lx_quote s \<and> lx_escape s = esc \<and> \<not> lx_commt s \<and>
     lx_rrtype s = rrt \<and> lx_owner s = own \<and> lx_brace s = 0 \<and> \<not> tok_err (lx_l s) \<and> tok_comment (lx_l s) = ''''"

definition is_word :: "zvalue \<Rightarrow> string \<Rightarrow> lex \<Rightarrow> bool" where
  "is_word v w t \<longleftrightarrow>
     tok_value t = v \<and> token t = w \<and> tokenUpper t = ToUpper w \<and> tok_length t = length w \<and> \<not> tok_err t \<and>
     tok_comment t = ''''"

definition is_blank :: "lex \<Rightarrow> bool" where
  "is_blank t \<longleftrightarrow> tok_value t = zBlank \<and> token t = '' '' \<and> tok_length t = 1 \<and> \<not> tok_err t \<and> tok_comment t = ''''"

definition is_newline :: "lex \<Rightarrow> bool" where
  "is_newline t \<longleftrightarrow> tok_value t = zNewline \<and> token t = [CHR 0x0A] \<and> tok_length t = 1 \<and> \<not> tok_err t \<and> tok_comment t = ''''"

text \<open>The state in which the cases of \<open>lex_char\<close> run.\<close>

definition placed :: "char \<Rightarrow> lexer \<Rightarrow> lexer" where
  "placed c s = (let s = tokenText c s in s\<lparr>lx_l := (lx_l s)\<lparr>tok_column := lx_column s, tok_line := lx_line s\<rparr>\<rparr>)"

lemma placed_at: "at_place w esc own rrt s \<Longrightarrow> at_place w esc own rrt (placed c s)"
  by (simp add: placed_def tokenText_def at_place_def Let_def)

lemma placed_space [simp]: "lx_space (placed c s) = lx_space s"
  by (simp add: placed_def tokenText_def Let_def)

lemma lex_char_placed:
  assumes "at_place w esc own rrt s" "length w < maxTok"
  shows "lex_char c (tokenText c s) =
     (let s = placed c s in
      if c = CHR '' '' \<or> c = CHR 0x09 then case_blank c s
      else if c = CHR '';'' then case_semicolon c s
      else if c = CHR 0x0D then case_return c s
      else if c = CHR 0x0A then case_newline c s
      else if c = CHR 0x5C then case_backslash c s
      else if c = CHR 0x22 then case_quote c s
      else if c = CHR ''('' \<or> c = CHR '')'' then case_brace c s
      else case_default c s)"
proof -
  have "at_place w esc own rrt (placed c s)" by (rule placed_at [OF assms(1)])
  then have "\<not> maxTok \<le> length (lx_str (placed c s))" "\<not> maxTok \<le> length (lx_com (placed c s))"
    using assms(2) by (simp_all add: at_place_def)
  then show ?thesis unfolding lex_char_def Let_def placed_def by (simp only: if_False)
qed

lemma append_none [simp]: "map_ok ((@) []) m = m"
  by (cases m) auto

lemma append_two: "(@) [t, b] = (\<lambda>ls. t # b # ls)"
  by (rule ext) simp

text \<open>A byte of a word\<close>

lemma lex_word_byte:
  assumes s: "at_place w esc own rrt s" and len: "length w < maxTok"
    and c: "esc \<longrightarrow> c \<noteq> CHR 0x0A \<and> c \<noteq> CHR 0x0D" "\<not> esc \<longrightarrow> c = CHR 0x5C \<or> \<not> lex_special c"
  shows "\<exists>s'. lex_loop s (c # r) = lex_loop s' r \<and> at_place (w @ [c]) (\<not> esc \<and> c = CHR 0x5C) own rrt s' \<and>
    (\<not> lex_special c \<longrightarrow> \<not> lx_space s') \<and> (lx_space s' \<longrightarrow> lx_space s)"
proof -
  let ?s = "placed c s"
  have p: "at_place w esc own rrt ?s" by (rule placed_at [OF s])
  have put: "put_str c (?s\<lparr>lx_escape := e\<rparr>) = Ok (?s\<lparr>lx_escape := e, lx_str := w @ [c]\<rparr>)"
    "put_str c ?s = Ok (?s\<lparr>lx_str := w @ [c]\<rparr>)" for e
    using p len by (simp_all add: at_place_def put_str_def)
  have "\<exists>s'. lex_char c (tokenText c s) = Ok (s', [], False) \<and> at_place (w @ [c]) (\<not> esc \<and> c = CHR 0x5C) own rrt s' \<and>
    (\<not> lex_special c \<longrightarrow> \<not> lx_space s') \<and> (lx_space s' \<longrightarrow> lx_space s)"
  proof (cases "c = CHR 0x5C \<or> lex_special c")
    case False
    then have "lex_char c (tokenText c s) = case_default c ?s"
      unfolding lex_char_placed [OF s len] Let_def by (simp add: lex_special_def)
    then show ?thesis using False p put by (simp add: case_default_def goes_on_def at_place_def Let_def)
  next
    case True
    show ?thesis
    proof (cases esc)
      case False
      then have "c = CHR 0x5C" using True c by blast
      then show ?thesis unfolding lex_char_placed [OF s len] Let_def using False p put
        by (simp add: case_backslash_def goes_on_def at_place_def lex_special_def)
    next
      case esc: True
      have "c \<in> {CHR '' '', CHR 0x09, CHR '';'', CHR ''('', CHR '')'', CHR 0x22, CHR 0x5C}"
        using True c(1) esc by (auto simp: lex_special_def)
      then show ?thesis unfolding lex_char_placed [OF s len] Let_def using esc p put
        by (elim insertE emptyE)
           (simp_all add: case_blank_def case_semicolon_def case_backslash_def case_quote_def case_brace_def
              goes_on_def at_place_def lex_special_def)
    qed
  qed
  then obtain s' where s': "lex_char c (tokenText c s) = Ok (s', [], False)"
    "at_place (w @ [c]) (\<not> esc \<and> c = CHR 0x5C) own rrt s'" "(\<not> lex_special c \<longrightarrow> \<not> lx_space s')"
    "lx_space s' \<longrightarrow> lx_space s" by blast
  then have "lex_loop s (c # r) = lex_loop s' r" by simp
  then show ?thesis using s' by blast
qed

lemma lex_word_loop:
  assumes "at_place w esc own rrt s" "word_text esc x" "length w + length x \<le> maxTok"
  shows "\<exists>s'. lex_loop s (x @ r) = lex_loop s' r \<and> at_place (w @ x) False own rrt s' \<and>
    (x \<noteq> [] \<and> \<not> lex_special (last x) \<longrightarrow> \<not> lx_space s')"
  using assms
proof (induction x arbitrary: w esc s)
  case Nil
  then show ?case by auto
next
  case (Cons c x)
  have "length w < maxTok" "esc \<longrightarrow> c \<noteq> CHR 0x0A \<and> c \<noteq> CHR 0x0D" "\<not> esc \<longrightarrow> c = CHR 0x5C \<or> \<not> lex_special c"
    using Cons.prems by (auto split: if_splits)
  then obtain s1 where 1: "lex_loop s (c # x @ r) = lex_loop s1 (x @ r)"
    "at_place (w @ [c]) (\<not> esc \<and> c = CHR 0x5C) own rrt s1" "\<not> lex_special c \<longrightarrow> \<not> lx_space s1"
    using lex_word_byte [OF Cons.prems(1), of c "x @ r"] by auto
  have "word_text (\<not> esc \<and> c = CHR 0x5C) x" using Cons.prems(2) by (auto split: if_splits)
  then obtain s2 where 2: "lex_loop s1 (x @ r) = lex_loop s2 r" "at_place ((w @ [c]) @ x) False own rrt s2"
    "x \<noteq> [] \<and> \<not> lex_special (last x) \<longrightarrow> \<not> lx_space s2"
    using Cons.IH [OF 1(2)] Cons.prems(3) by auto
  show ?case
  proof (cases "x = []")
    case True
    then show ?thesis using 1 Cons.prems by (intro exI [of _ s1]) (auto split: if_splits)
  next
    case False
    then show ?thesis using 1 2 by (intro exI [of _ s2]) simp
  qed
qed

lemma blank_char: "c = CHR '' '' \<or> c = CHR 0x09 \<Longrightarrow>
  at_place w False own rrt s \<Longrightarrow> length w < maxTok \<Longrightarrow> lex_char c (tokenText c s) = lex_word (placed c s)"
  using placed_at [of w False own rrt s c] lex_char_placed [of w False own rrt s c]
  by (simp add: case_blank_def at_place_def Let_def)

lemma lex_loop_two:
  assumes "\<exists>s' t b. lex_char c (tokenText c s) = Ok (s', [t, b], False) \<and> P s' t b"
  shows "\<exists>s' t b. lex_loop s (c # r) = map_ok (\<lambda>ls. t # b # ls) (lex_loop s' r) \<and> P s' t b"
proof -
  obtain s' t b where 1: "lex_char c (tokenText c s) = Ok (s', [t, b], False)" "P s' t b" using assms by blast
  have "lex_loop s (c # r) = map_ok (\<lambda>ls. t # b # ls) (lex_loop s' r)" by (simp add: 1(1) append_two)
  then show ?thesis using 1(2) by blast
qed

text \<open>The blank behind the owner\<close>

lemma lex_owner_blank:
  assumes s: "at_place w False True False s" and w: "w \<noteq> ''''" "length w < maxTok" "owner_value (ToUpper w) = zOwner"
    and sp: "\<not> lx_space s" and c: "c = CHR '' '' \<or> c = CHR 0x09"
  shows "\<exists>s' t b. lex_loop s (c # r) = map_ok (\<lambda>ls. t # b # ls) (lex_loop s' r) \<and>
    is_word zOwner w t \<and> is_blank b \<and> at_place '''' False False False s'"
proof -
  have p: "at_place w False True False (placed c s)" by (rule placed_at [OF s])
  then show ?thesis using w sp blank_char [OF c s w(2)]
    by (intro lex_loop_two)
       (simp add: lex_word_def lex_blank_def at_place_def Let_def is_word_def is_blank_def word_token_def)
qed

text \<open>The blank behind a word in front of the type\<close>

lemma lex_class_blank:
  assumes s: "at_place w False False False s" and w: "w \<noteq> ''''" "length w < maxTok"
    and sp: "\<not> lx_space s" and c: "c = CHR '' '' \<or> c = CHR 0x09"
    and ty: "\<And>l. tokenUpper l = ToUpper w \<Longrightarrow> token l = w \<Longrightarrow> tok_value l = zString \<Longrightarrow>
      \<exists>l'. classify_type l = Ok (l', rrt) \<and> classify_class l' = Ok (l\<lparr>tok_value := v, torc := f (torc l)\<rparr>)"
  shows "\<exists>s' t b. lex_loop s (c # r) = map_ok (\<lambda>ls. t # b # ls) (lex_loop s' r) \<and>
    is_word v w t \<and> (\<exists>k. torc t = f k) \<and> is_blank b \<and> at_place '''' False False rrt s'"
proof -
  have p: "at_place w False False False (placed c s)" by (rule placed_at [OF s])
  let ?l = "word_token zString (placed c s)"
  obtain l' where l': "classify_type ?l = Ok (l', rrt)" "classify_class l' = Ok (?l\<lparr>tok_value := v, torc := f (torc ?l)\<rparr>)"
    using ty [of ?l] p by (auto simp: at_place_def)
  show ?thesis using w sp blank_char [OF c s w(2)] p l'
    by (intro lex_loop_two)
       (auto simp: lex_word_def lex_blank_def at_place_def Let_def is_word_def is_blank_def word_token_def)
qed

text \<open>The blank behind a word of the data\<close>

lemma lex_data_blank:
  assumes s: "at_place w False False True s" and w: "w \<noteq> ''''" "length w < maxTok"
    and sp: "\<not> lx_space s" and c: "c = CHR '' '' \<or> c = CHR 0x09"
  shows "\<exists>s' t b. lex_loop s (c # r) = map_ok (\<lambda>ls. t # b # ls) (lex_loop s' r) \<and>
    is_word zString w t \<and> is_blank b \<and> at_place '''' False False True s'"
proof -
  have p: "at_place w False False True (placed c s)" by (rule placed_at [OF s])
  then show ?thesis using w sp blank_char [OF c s w(2)]
    by (intro lex_loop_two)
       (simp add: lex_word_def lex_blank_def at_place_def Let_def is_word_def is_blank_def word_token_def)
qed

text \<open>The end of the line and of the file\<close>

lemma lex_data_end:
  assumes s: "at_place w False False True s" and w: "w \<noteq> ''''" "length w < maxTok"
  shows "\<exists>t n. lex_loop s [CHR 0x0A] = Ok [t, n] \<and> is_word zString w t \<and> is_newline n"
proof -
  have p: "at_place w False False True (placed CHR 0x0A s)" by (rule placed_at [OF s])
  then show ?thesis using w lex_char_placed [OF s w(2), of "CHR 0x0A"]
    by (simp add: case_newline_def at_place_def Let_def is_word_def is_newline_def newline_token_def word_token_def)
qed

end
