(* ===== verification/Zone_Round.thy ===== *)
theory Zone_Round
  imports Zone_Text
begin

text \<open>
  The round trip of records through their text: what \<open>RR_String\<close> prints for an address, a record of
  one or two names, a preference and a name, a service or a start of authority, \<open>NewRR\<close> reads back.
\<close>

section \<open>Words\<close>

definition line_word :: "string \<Rightarrow> bool" where
  "line_word w \<longleftrightarrow> w \<noteq> '''' \<and> length w < maxTok \<and> word_text False w \<and> \<not> lex_special (last w)"

lemma word_text_plain: "list_all (\<lambda>c. \<not> lex_special c) w \<Longrightarrow> word_text False w"
  by (induction w) (auto simp: lex_special_def)

lemma line_word_plain:
  "w \<noteq> '''' \<Longrightarrow> length w < maxTok \<Longrightarrow> list_all (\<lambda>c. \<not> lex_special c) w \<Longrightarrow> line_word w"
  by (simp add: line_word_def word_text_plain list_all_iff)

text \<open>A word from its start: the lexer has it when it comes to the byte behind it.\<close>

lemma lex_line_word:
  assumes "at_place '''' False own rrt s" "line_word w"
  shows "\<exists>s'. lex_loop s (w @ r) = lex_loop s' r \<and> at_place w False own rrt s' \<and> \<not> lx_space s'"
  using lex_word_loop [of "''''" False own rrt s w r] assms by (auto simp: line_word_def)

text \<open>The tokens of the data of a record.\<close>

fun data_line :: "string list \<Rightarrow> lex list \<Rightarrow> bool" where
  "data_line [] ts = False"
| "data_line [w] ts = (\<exists>t n. ts = [t, n] \<and> is_word zString w t \<and> is_newline n)"
| "data_line (w # v # ws) ts = (\<exists>t b us. ts = t # b # us \<and> is_word zString w t \<and> is_blank b \<and> data_line (v # ws) us)"

lemma lex_data_line:
  assumes "at_place '''' False False True s" "list_all line_word ws" "ws \<noteq> []"
  shows "\<exists>ts. lex_loop s (spaced ws @ [CHR 0x0A]) = Ok ts \<and> data_line ws ts"
  using assms
proof (induction ws arbitrary: s rule: induct_list012)
  case (2 w)
  have len: "w \<noteq> ''''" "length w < maxTok" using 2 by (simp_all add: line_word_def)
  obtain s' where s': "lex_loop s (w @ [CHR 0x0A]) = lex_loop s' [CHR 0x0A]" "at_place w False False True s'"
    using lex_line_word [OF 2(1)] 2(2) by fastforce
  obtain t n where "lex_loop s' [CHR 0x0A] = Ok [t, n]" "is_word zString w t" "is_newline n"
    using lex_data_end [OF s'(2) len] by blast
  then show ?case using s'(1) by (intro exI [of _ "[t, n]"]) (simp add: spaced_def)
next
  case (3 w v ws)
  let ?rest = "spaced (v # ws) @ [CHR 0x0A]"
  have len: "w \<noteq> ''''" "length w < maxTok" using 3 by (simp_all add: line_word_def)
  obtain s1 where 1: "lex_loop s (w @ CHR '' '' # ?rest) = lex_loop s1 (CHR '' '' # ?rest)"
    "at_place w False False True s1" "\<not> lx_space s1"
    using lex_line_word [OF "3.prems"(1), of w] "3.prems"(2) by fastforce
  obtain s2 t b where 2: "lex_loop s1 (CHR '' '' # ?rest) = map_ok (\<lambda>ls. t # b # ls) (lex_loop s2 ?rest)"
    "is_word zString w t" "is_blank b" "at_place '''' False False True s2"
    using lex_data_blank [OF 1(2) len 1(3), of "CHR '' ''" ?rest] by auto
  obtain ts where ts: "lex_loop s2 ?rest = Ok ts" "data_line (v # ws) ts"
    using "3.IH"(2) [OF 2(4)] "3.prems" by auto
  have "spaced (w # v # ws) @ [CHR 0x0A] = w @ CHR '' '' # ?rest" by (simp add: spaced_def)
  then have "lex_loop s (spaced (w # v # ws) @ [CHR 0x0A]) = Ok (t # b # ts)"
    using 1(1) 2(1) ts(1) by (simp del: lex_loop.simps)
  then show ?case using 2 ts(2) by (intro exI [of _ "t # b # ts"]) simp
qed simp

section \<open>Times to live, classes and types\<close>

lemma reverse_map_None:
  assumes "list_all (\<lambda>(u, s). \<not> P s) m" "P w"
  shows "reverse_map m w = None"
proof (rule ccontr)
  assume "reverse_map m w \<noteq> None"
  then obtain u where "map_of (map (\<lambda>(u, s). (s, u)) m) w = Some u" by (auto simp: reverse_map_def)
  then have "(u, w) \<in> set m" by (auto dest!: map_of_SomeD)
  then show False using assms by (auto simp: list_all_iff)
qed

definition starts_digit :: "string \<Rightarrow> bool" where
  "starts_digit w \<longleftrightarrow> w \<noteq> [] \<and> is_digit (hd w)"

lemma tables_words:
  "list_all (\<lambda>(u, s). \<not> starts_digit s) TypeToString" "list_all (\<lambda>(u, s). \<not> HasPrefix s ''CLASS'') TypeToString"
  "list_all (\<lambda>(u, s). \<not> starts_digit s) ClassToString" "list_all (\<lambda>(u, s). \<not> HasPrefix s ''CLASS'') ClassToString"
  by code_simp+

lemma upper_of_digits: "list_all is_digit w \<Longrightarrow> ToUpper w = w"
  by (induction w) (auto simp: ToUpper_def upper_char_def is_digit_def ord_def)

lemma digit_no_prefix: "starts_digit w \<Longrightarrow> \<not> is_digit c \<Longrightarrow> \<not> HasPrefix w (c # cs)"
  by (cases w) (auto simp: starts_digit_def HasPrefix_def)

lemma Itoa_upper [simp]: "ToUpper (Itoa n) = Itoa n"
  by (rule upper_of_digits [OF Itoa_digits])

lemma Itoa_starts: "starts_digit (Itoa n)"
  using Itoa_digits [of n] by (cases "Itoa n") (auto simp: starts_digit_def)

lemma length_Itoa_le: "n < 10 ^ k \<Longrightarrow> 0 < k \<Longrightarrow> length (Itoa n) \<le> k"
proof (induction n arbitrary: k rule: Itoa.induct)
  case (1 n)
  show ?case
  proof (cases "n < 10")
    case True
    then show ?thesis using "1.prems" by (subst Itoa.simps) simp
  next
    case False
    have k: "1 < k" using "1.prems" False by (cases "k = 1") auto
    then have "n div 10 < 10 ^ (k - 1)" using "1.prems" by (cases k) auto
    then show ?thesis using "1.IH" [OF False, of "k - 1"] k False by (subst Itoa.simps) simp
  qed
qed

lemma line_word_Itoa: "n < 10 ^ 20 \<Longrightarrow> line_word (Itoa n)"
  using length_Itoa_le [of n 20] Itoa_digits [of n]
  by (intro line_word_plain) (auto simp: maxTok_def list_all_iff digit_not_special)

lemma line_word_num [simp]:
  "line_word (num (w :: 8 word))" "line_word (num (v :: 16 word))" "line_word (num (u :: 32 word))"
proof -
  have "unat w < 10 ^ 20" "unat v < 10 ^ 20" "unat u < 10 ^ 20"
    by (rule less_le_trans [OF unsigned_less], simp)+
  then show "line_word (num w)" "line_word (num v)" "line_word (num u)"
    by (simp_all add: num_def line_word_Itoa)
qed

lemma ParseUint10_Itoa: "n < 2 ^ k \<Longrightarrow> ParseUint10 (Itoa n) k = Some n"
  by (simp add: ParseUint10_def Itoa_digits)

section \<open>The line of a record\<close>

lemma classify_digits:
  assumes "starts_digit w" "tokenUpper l = w" "token l = w" "tok_value l = zString"
  shows "classify_type l = Ok (l, False)" "classify_class l = Ok l"
proof -
  have "StringToType w = None" "StringToClass w = None"
    unfolding StringToType_def StringToClass_def
    by (rule reverse_map_None [OF tables_words(1) assms(1)], rule reverse_map_None [OF tables_words(3) assms(1)])
  moreover have "\<not> HasPrefix w ''TYPE''" "\<not> HasPrefix w ''CLASS''"
    by (rule digit_no_prefix [OF assms(1)], simp add: is_digit_def ord_def)+
  ultimately show "classify_type l = Ok (l, False)" "classify_class l = Ok l"
    using assms by (simp_all add: classify_type_def classify_class_def)
qed

text \<open>A class but \<open>ANY\<close>, which the lexer takes for a type, too.\<close>

lemma class_known:
  assumes "(c, s) \<in> set ClassToString" "c \<noteq> ClassANY"
  shows "StringToType (ToUpper s) = None \<and> \<not> HasPrefix (ToUpper s) ''TYPE'' \<and>
    StringToClass (ToUpper s) = Some c \<and> line_word s"
proof -
  have "list_all (\<lambda>(c, s). c = ClassANY \<or> StringToType (ToUpper s) = None \<and> \<not> HasPrefix (ToUpper s) ''TYPE'' \<and>
      StringToClass (ToUpper s) = Some c \<and> line_word s) ClassToString"
    by code_simp
  then show ?thesis using assms by (auto simp: list_all_iff)
qed

lemma class_letters: "c \<in> set ''CLASS'' \<Longrightarrow> \<not> lex_special c"
  by (auto simp: lex_special_def)

lemma class_word:
  assumes "c \<noteq> ClassANY"
  shows "line_word (Class_String c)"
    and "tokenUpper l = ToUpper (Class_String c) \<Longrightarrow> token l = Class_String c \<Longrightarrow>
      classify_type l = Ok (l, False) \<and> classify_class l = Ok (l\<lparr>tok_value := zClass, torc := c\<rparr>)"
proof -
  let ?w = "Class_String c"
  have "line_word ?w \<and> (tokenUpper l = ToUpper ?w \<longrightarrow> token l = ?w \<longrightarrow>
      classify_type l = Ok (l, False) \<and> classify_class l = Ok (l\<lparr>tok_value := zClass, torc := c\<rparr>))"
  proof (cases "map_of ClassToString c")
    case (Some s)
    then show ?thesis using class_known [OF map_of_SomeD [OF Some] assms]
      by (simp add: Class_String_def classify_type_def classify_class_def)
  next
    case None
    define w where "w = ''CLASS'' @ Itoa (unat c)"
    have w: "?w = w" using None by (simp add: Class_String_def w_def)
    have c: "unat c < 2 ^ 16" using unsigned_less [of c, where 'a = nat] by simp
    have up: "ToUpper w = w"
      by (simp add: w_def ToUpper_def upper_char_def ord_def Itoa_upper [unfolded ToUpper_def])
    have pre: "HasPrefix w ''CLASS''" "\<not> HasPrefix w ''TYPE''" by (simp_all add: HasPrefix_def w_def)
    have "StringToType w = None" "StringToClass w = None"
      unfolding StringToType_def StringToClass_def
      by (rule reverse_map_None [OF tables_words(2) pre(1)], rule reverse_map_None [OF tables_words(4) pre(1)])
    moreover have "length (Itoa (unat c)) < 20"
      using length_Itoa_le [of "unat c" 5] c by simp
    then have "line_word w" unfolding w_def
      using Itoa_digits [of "unat c"]
      by (intro line_word_plain) (auto simp: maxTok_def list_all_iff digit_not_special class_letters)
    moreover have "classToInt w = Some c"
      using ParseUint10_Itoa [OF c] by (simp add: w_def classToInt_def Suc_le_eq)
    ultimately show ?thesis using pre
      by (simp add: w classify_type_def classify_class_def up)
  qed
  then show "line_word ?w"
    and "tokenUpper l = ToUpper ?w \<Longrightarrow> token l = ?w \<Longrightarrow>
      classify_type l = Ok (l, False) \<and> classify_class l = Ok (l\<lparr>tok_value := zClass, torc := c\<rparr>)"
    by blast+
qed

text \<open>The types whose records are read back.\<close>

definition plain_names :: "(uint16 \<times> string) list" where
  "plain_names =
     [(TypeA, ''A''), (TypeAAAA, ''AAAA''), (TypeNS, ''NS''), (TypePTR, ''PTR''), (TypeCNAME, ''CNAME''),
      (TypeDNAME, ''DNAME''), (TypeMB, ''MB''), (TypeMG, ''MG''), (TypeMR, ''MR''), (TypeMF, ''MF''), (TypeMD, ''MD''),
      (TypeNSAPPTR, ''NSAP-PTR''), (TypeMX, ''MX''), (TypeAFSDB, ''AFSDB''), (TypeRT, ''RT''), (TypeKX, ''KX''),
      (TypeLP, ''LP''), (TypeMINFO, ''MINFO''), (TypeTALINK, ''TALINK''), (TypeSRV, ''SRV''), (TypeSOA, ''SOA''),
      (TypeUID, ''UID''), (TypeGID, ''GID''), (TypePX, ''PX'')]"

definition plain_types :: "uint16 list" where
  "plain_types = map fst plain_names"

lemma type_table:
  assumes "(t, s) \<in> set TypeToString"
  shows "map_of TypeToString t = Some s" "StringToType s = Some t"
proof -
  have "distinct (map (\<lambda>p. uint (fst p)) TypeToString)" by (simp add: TypeToString_def)
  then have "distinct (map uint (map fst TypeToString))" by (simp add: comp_def)
  then show "map_of TypeToString t = Some s" using assms by (intro map_of_is_SomeI) (simp_all only: distinct_map)
  have "distinct (map snd TypeToString)" by (simp add: TypeToString_def)
  then show "StringToType s = Some t" unfolding StringToType_def reverse_map_def
    using assms by (intro map_of_is_SomeI) (force simp: comp_def case_prod_unfold)+
qed

lemma map_of_codes: "map_of (map (\<lambda>(u, s). (uint u, s)) m) (uint t) = map_of m t"
  by (induction m) (auto simp: word_uint_eq_iff)

lemma plain_codes:
  "list_all (\<lambda>(t, s). map_of (map (\<lambda>(u, s). (uint u, s)) TypeToString) (uint t) = Some s) plain_names"
  by code_simp

lemma plain_words:
  "list_all (\<lambda>(t, s). line_word s \<and> ToUpper s = s \<and> StringToClass s = None \<and> \<not> HasPrefix s ''CLASS'') plain_names"
  by code_simp

lemma plain_type_table:
  assumes "t \<in> set plain_types"
  shows "\<exists>s. (t, s) \<in> set TypeToString \<and> line_word s \<and> ToUpper s = s \<and> StringToClass s = None \<and> \<not> HasPrefix s ''CLASS''"
proof -
  obtain s where s: "(t, s) \<in> set plain_names" using assms by (auto simp: plain_types_def)
  then have "map_of TypeToString t = Some s"
    using plain_codes unfolding map_of_codes by (auto simp: list_all_iff)
  then show ?thesis using s plain_words by (auto simp: list_all_iff dest: map_of_SomeD)
qed

lemma type_word:
  assumes "t \<in> set plain_types"
  shows "line_word (Type_String t)"
    and "tokenUpper l = ToUpper (Type_String t) \<Longrightarrow> token l = Type_String t \<Longrightarrow>
      classify_type l = Ok (l\<lparr>tok_value := zRrtpe, torc := t\<rparr>, True) \<and>
      classify_class (l\<lparr>tok_value := zRrtpe, torc := t\<rparr>) = Ok (l\<lparr>tok_value := zRrtpe, torc := t\<rparr>)"
proof -
  obtain s where "(t, s) \<in> set TypeToString" "line_word s" "ToUpper s = s" "StringToClass s = None"
    "\<not> HasPrefix s ''CLASS''" using plain_type_table [OF assms] by blast
  moreover note type_table [OF this(1)]
  ultimately show "line_word (Type_String t)"
    and "tokenUpper l = ToUpper (Type_String t) \<Longrightarrow> token l = Type_String t \<Longrightarrow>
      classify_type l = Ok (l\<lparr>tok_value := zRrtpe, torc := t\<rparr>, True) \<and>
      classify_class (l\<lparr>tok_value := zRrtpe, torc := t\<rparr>) = Ok (l\<lparr>tok_value := zRrtpe, torc := t\<rparr>)"
    by (simp_all add: Type_String_def classify_type_def classify_class_def)
qed

section \<open>The tokens of a record\<close>

lemma owner_value_dot:
  assumes "w \<noteq> ''''" "last w = CHR ''.''"
  shows "owner_value (ToUpper w) = zOwner"
proof -
  have "last (ToUpper w) = CHR ''.''" using assms by (simp add: ToUpper_def last_map upper_char_def ord_def)
  then show ?thesis by (auto simp: owner_value_def)
qed

lemma start_at_place: "at_place '''' False True False lex_init"
  by (simp add: at_place_def lex_init_def zero_lex_def)

text \<open>A word in front of the type, with the tab behind it\<close>

lemma lex_class_word:
  assumes s: "at_place '''' False False False s" and w: "line_word w"
    and ty: "\<And>l. tokenUpper l = ToUpper w \<Longrightarrow> token l = w \<Longrightarrow> tok_value l = zString \<Longrightarrow>
      \<exists>l'. classify_type l = Ok (l', rrt) \<and> classify_class l' = Ok (l\<lparr>tok_value := v, torc := f (torc l)\<rparr>)"
  shows "\<exists>s' t b. lex_loop s (w @ CHR 0x09 # r) = map_ok (\<lambda>ls. t # b # ls) (lex_loop s' r) \<and>
    is_word v w t \<and> (\<exists>k. torc t = f k) \<and> is_blank b \<and> at_place '''' False False rrt s'"
proof -
  have len: "w \<noteq> ''''" "length w < maxTok" using w by (simp_all add: line_word_def)
  obtain s1 where 1: "lex_loop s (w @ CHR 0x09 # r) = lex_loop s1 (CHR 0x09 # r)"
    "at_place w False False False s1" "\<not> lx_space s1"
    using lex_line_word [OF s w] by blast
  show ?thesis unfolding 1(1) by (rule lex_class_blank [OF 1(2) len 1(3) _ ty]) simp_all
qed

definition record_line :: "string \<Rightarrow> string \<Rightarrow> string \<Rightarrow> string \<Rightarrow> string list \<Rightarrow> string" where
  "record_line n ttl cl ty ws =
     n @ CHR 0x09 # ttl @ CHR 0x09 # cl @ CHR 0x09 # ty @ CHR 0x09 # spaced ws @ [CHR 0x0A]"

lemma lex_record_line:
  assumes n: "line_word n" "last n = CHR ''.''" and c: "c \<noteq> ClassANY" and t: "t \<in> set plain_types"
    and ttl: "k < 2 ^ 32" and ws: "list_all line_word ws" "ws \<noteq> []"
  shows "\<exists>t1 b1 t2 b2 t3 b3 t4 b4 ts.
    zlexer (record_line n (Itoa k) (Class_String c) (Type_String t) ws) = Ok (t1 # b1 # t2 # b2 # t3 # b3 # t4 # b4 # ts) \<and>
    is_word zOwner n t1 \<and> is_word zString (Itoa k) t2 \<and> is_word zClass (Class_String c) t3 \<and> torc t3 = c \<and>
    is_word zRrtpe (Type_String t) t4 \<and> torc t4 = t \<and> data_line ws ts \<and> list_all is_blank [b1, b2, b3, b4]"
proof -
  let ?r4 = "spaced ws @ [CHR 0x0A]"
  let ?r3 = "Type_String t @ CHR 0x09 # ?r4"
  let ?r2 = "Class_String c @ CHR 0x09 # ?r3"
  let ?r1 = "Itoa k @ CHR 0x09 # ?r2"
  have len: "n \<noteq> ''''" "length n < maxTok" using n by (simp_all add: line_word_def)
  have own: "owner_value (ToUpper n) = zOwner" by (rule owner_value_dot [OF len(1) n(2)])
  obtain s0 where 0: "lex_loop lex_init (n @ CHR 0x09 # ?r1) = lex_loop s0 (CHR 0x09 # ?r1)"
    "at_place n False True False s0" "\<not> lx_space s0"
    using lex_line_word [OF start_at_place n(1)] by blast
  obtain s1 t1 b1 where 1: "lex_loop s0 (CHR 0x09 # ?r1) = map_ok (\<lambda>ls. t1 # b1 # ls) (lex_loop s1 ?r1)"
    "is_word zOwner n t1" "is_blank b1" "at_place '''' False False False s1"
    using lex_owner_blank [OF 0(2) len own 0(3), of "CHR 0x09" ?r1] by auto
  have lw: "line_word (Itoa k)" using ttl by (intro line_word_Itoa) simp
  obtain s2 t2 b2 where 2: "lex_loop s1 ?r1 = map_ok (\<lambda>ls. t2 # b2 # ls) (lex_loop s2 ?r2)"
    "is_word zString (Itoa k) t2" "is_blank b2" "at_place '''' False False False s2"
  proof -
    have "\<exists>l'. classify_type l = Ok (l', False) \<and> classify_class l' = Ok (l\<lparr>tok_value := zString, torc := torc l\<rparr>)"
      if "tokenUpper l = ToUpper (Itoa k)" "token l = Itoa k" "tok_value l = zString" for l
      using classify_digits [OF Itoa_starts, of l k] that by auto
    from lex_class_word [OF 1(4) lw, where rrt = False and v = zString and f = "\<lambda>k. k" and r = ?r2] this that show thesis by blast
  qed
  obtain s3 t3 b3 where 3: "lex_loop s2 ?r2 = map_ok (\<lambda>ls. t3 # b3 # ls) (lex_loop s3 ?r3)"
    "is_word zClass (Class_String c) t3" "torc t3 = c" "is_blank b3" "at_place '''' False False False s3"
  proof -
    have "\<exists>l'. classify_type l = Ok (l', False) \<and> classify_class l' = Ok (l\<lparr>tok_value := zClass, torc := c\<rparr>)"
      if "tokenUpper l = ToUpper (Class_String c)" "token l = Class_String c" for l
      using class_word(2) [OF c, of l] that by blast
    from lex_class_word [OF 2(4) class_word(1) [OF c], where rrt = False and v = zClass and f = "\<lambda>k. c" and r = ?r3] this that show thesis by blast
  qed
  obtain s4 t4 b4 where 4: "lex_loop s3 ?r3 = map_ok (\<lambda>ls. t4 # b4 # ls) (lex_loop s4 ?r4)"
    "is_word zRrtpe (Type_String t) t4" "torc t4 = t" "is_blank b4" "at_place '''' False False True s4"
  proof -
    have "\<exists>l'. classify_type l = Ok (l', True) \<and> classify_class l' = Ok (l\<lparr>tok_value := zRrtpe, torc := t\<rparr>)"
      if "tokenUpper l = ToUpper (Type_String t)" "token l = Type_String t" for l
      using type_word(2) [OF t, of l] that by blast
    from lex_class_word [OF 3(5) type_word(1) [OF t], where rrt = True and v = zRrtpe and f = "\<lambda>k. t" and r = ?r4] this that show thesis by blast
  qed
  obtain ts where ts: "lex_loop s4 ?r4 = Ok ts" "data_line ws ts"
    using lex_data_line [OF 4(5) ws] by blast
  have "zlexer (record_line n (Itoa k) (Class_String c) (Type_String t) ws) =
      Ok (t1 # b1 # t2 # b2 # t3 # b3 # t4 # b4 # ts)"
    using 0(1) 1(1) 2(1) 3(1) 4(1) ts(1) unfolding zlexer_def record_line_def by (simp del: lex_loop.simps)
  then show ?thesis using 1 2 3 4 ts by auto
qed

section \<open>Names in records\<close>

text \<open>A valid name without an apostrophe, which the printer would escape.\<close>

definition text_name :: "string \<Rightarrow> bool" where
  "text_name n \<longleftrightarrow> valid_name n \<and> CHR 0x27 \<notin> set n"

lemma present_apostrophe:
  assumes "CHR 0x27 \<notin> set (present ls)" "l \<in> set ls"
  shows "39 \<notin> set l"
proof
  assume "39 \<in> set l"
  moreover have "fst (escape_byte 39) = [CHR 0x27]" by code_simp
  moreover have "b \<in> set l \<Longrightarrow> set (fst (escape_byte b)) \<subseteq> set (present_label l)" for b
    by (induction l) auto
  ultimately have "CHR 0x27 \<in> set (present_label l)" by fastforce
  moreover have "l \<in> set ls \<Longrightarrow> set (present_label l) \<subseteq> set (wire_labels (map present_label ls))"
    by (induction ls) auto
  ultimately show False using assms by (auto simp: present_def fqdn_def split: if_splits)
qed

lemma present_first:
  "hd (present ls) \<noteq> CHR ''@''"
proof (cases "ls = [] \<or> hd ls = []")
  case False
  then obtain b l ls' where ls: "ls = (b # l) # ls'" by (metis list.exhaust_sel)
  have "fst (escape_byte b) \<noteq> [] \<and> hd (fst (escape_byte b)) \<noteq> CHR ''@''"
  proof (cases rule: escape_byte_cases [of b])
    case plain
    have "fst (escape_byte 64) \<noteq> [CHR ''@'']" "byte_of CHR ''@'' = 64" by code_simp+
    then show ?thesis using plain(1) by (auto simp: char_of_byte_eq)
  qed simp_all
  then show ?thesis by (simp add: ls present_def fqdn_def hd_append)
next
  case True
  then show ?thesis by (cases ls) (auto simp: present_def fqdn_def)
qed

lemma text_name_facts:
  assumes "text_name n"
  shows "sprintName n = n" "line_word n" "last n = CHR ''.''" "n \<noteq> ''''" "hd n \<noteq> CHR ''@''"
    "\<exists>k. IsDomainName n = Ok (k, True)"
proof -
  obtain ls where ls: "labels_ok ls" "n = present ls"
    using assms by (auto simp: text_name_def elim: valid_name_obtain)
  show "sprintName n = n" unfolding ls(2)
    by (rule sprintName_present) (use assms ls(2) present_apostrophe in \<open>auto simp: text_name_def\<close>)
  show l: "last n = CHR ''.''" "n \<noteq> ''''"
    using last_fqdn [of "map present_label ls"] by (auto simp: ls(2) present_def last_conv_nth)
  have "length n < 1100" using assms by (simp add: text_name_def valid_name_length)
  then show "line_word n" using l word_text_present [of ls]
    by (simp add: line_word_def ls(2) maxTok_def lex_special_def)
  show "hd n \<noteq> CHR ''@''" unfolding ls(2) by (rule present_first)
  show "\<exists>k. IsDomainName n = Ok (k, True)" unfolding ls(2) by (rule IsDomainName_present [OF ls(1)])
qed

lemma index_last: "s \<noteq> [] \<Longrightarrow> go_index s (int (length s) - 1) = Ok (last s)"
  by (simp add: go_index_def last_conv_nth Suc_le_eq nat_diff_distrib')

lemma name_field_text:
  assumes "text_name n" "is_word zString n l"
  shows "name_field f err org l c = Parsed n c"
proof -
  obtain k where "IsDomainName n = Ok (k, True)" using text_name_facts(6) [OF assms(1)] by blast
  moreover have "n \<noteq> ''@''" using text_name_facts(5) [OF assms(1)] by auto
  ultimately show ?thesis using text_name_facts [OF assms(1)] assms(2)
    by (simp add: name_field_def is_word_def lift_def index_last pret_def)
qed

lemma uint_field_num:
  fixes w :: "('a :: len) word"
  assumes "is_word zString (num w) l" "LENGTH('a) = k"
  shows "uint_field f err k l c = Parsed w c"
proof -
  have "unat w < 2 ^ k" using assms(2) unsigned_less [of w] by auto
  then show ?thesis using assms by (simp add: uint_field_def is_word_def num_def ParseUint10_Itoa pret_def)
qed

section \<open>The parser on a line\<close>

lemma ttl_digits:
  "list_all is_digit ds \<Longrightarrow> stringToTtl_loop s (of_nat m) ds = Some (s + of_nat (dec_val_from m ds))"
proof (induction ds arbitrary: m)
  case (Cons d ds)
  have "d \<notin> set ''sSmMhHdDwW''" using Cons.prems by (auto simp: is_digit_def ord_def)
  then show ?case using Cons.IH [of "m * 10 + digit_val d"] Cons.prems by simp
qed simp

lemma stringToTtl_Itoa: "stringToTtl (Itoa k) = Some (of_nat k)"
  using ttl_digits [OF Itoa_digits, of 0 0 k] by (simp add: stringToTtl_def)

lemma zone_loop_record:
  assumes n: "text_name n"
    and w: "is_word zOwner n t1" "is_word zString (Itoa k) t2" "is_word zClass cw t3" "is_word zRrtpe tw t4"
    and b: "list_all is_blank [b1, b2, b3, b4]"
    and r: "setRR \<lparr>Name = n, Rrtype = torc t4, Class = torc t3, Ttl = of_nat k, Rdlength = 0\<rparr> org (e_file env) ts
      = Parsed (Some r, '''') []"
  shows "zone_loop env (zone_init org) (t1 # b1 # t2 # b2 # t3 # b3 # t4 # b4 # ts) = ([rr_token (Some r) ''''], Returns)"
proof -
  obtain m where m: "IsDomainName n = Ok (m, True)" using text_name_facts(6) [OF n] by blast
  note nf = text_name_facts [OF n]
  have i0: "go_index n 0 = Ok (hd n)" using nf(4) by (simp add: go_index_def hd_conv_nth)
  have own: "owner_name env z t1 c = ZGo [] (z\<lparr>z_h := (z_h z)\<lparr>Name := n\<rparr>, z_prevName := n, z_st := zExpectOwnerBl\<rparr>) c" for z c
    using w(1) nf i0 m by (simp add: owner_name_def is_word_def zlift_def index_last)
  show ?thesis using w b r
    by (simp add: zone_init_def zone_step_def at_begin_def own blank_to_def at_any_def at_any_no_ttl_def ttl_to_def
        class_to_def rrtype_to_def at_rdata_def is_word_def is_blank_def stringToTtl_Itoa)
qed


section \<open>Records that are read back\<close>

text \<open>
  A type, the data of a record and the words it is printed as: the words are words of the lexer, the
  printer prints them behind the header, and the parser of the type makes the data from their tokens.
\<close>

definition reads_back :: "uint16 \<Rightarrow> rdata \<Rightarrow> string list \<Rightarrow> bool" where
  "reads_back t d ws \<longleftrightarrow>
     t \<in> set plain_types \<and> ws \<noteq> [] \<and> list_all line_word ws \<and>
     (\<forall>now h. RR_String now \<lparr>Hdr = h, Rdata = d\<rparr> = Hdr_String h @ spaced ws) \<and>
     (\<forall>h org f ts. Rrtype h = t \<longrightarrow> data_line ws ts \<longrightarrow>
        setRR h org f ts = Parsed (Some \<lparr>Hdr = h, Rdata = d\<rparr>, '''') [])"

lemma setRR_fixed:
  assumes "map_of typeToparserFunc (Rrtype h) = Some (fn, False)" "fn h org f ts = Parsed (r, cm) [n]" "is_newline n"
  shows "setRR h org f ts = Parsed (r, '''') []"
  using assms by (simp add: setRR_def pbind_def slurpRemainder_def is_newline_def pret_def)

lemma reads_backI:
  assumes "t \<in> set plain_types" "ws \<noteq> []" "list_all line_word ws"
    "\<And>now h. RR_String now \<lparr>Hdr = h, Rdata = d\<rparr> = Hdr_String h @ spaced ws"
    "map_of typeToparserFunc t = Some (fn, False)"
    "\<And>h org f ts. data_line ws ts \<Longrightarrow> \<exists>n. fn h org f ts = Parsed (Some \<lparr>Hdr = h, Rdata = d\<rparr>, '''') [n] \<and> is_newline n"
  shows "reads_back t d ws"
  unfolding reads_back_def
proof (intro conjI allI impI)
  show "setRR h org f ts = Parsed (Some \<lparr>Hdr = h, Rdata = d\<rparr>, '''') []" if "Rrtype h = t" "data_line ws ts" for h org f ts
    using assms(6) [OF that(2), of h org f] setRR_fixed [of h fn] assms(5) that(1) by auto
qed (use assms in auto)

lemma num_nonempty [simp]: "num w \<noteq> ''''"
  by (simp add: num_def)

lemma first_field_word:
  "is_word v w l \<Longrightarrow> w \<noteq> '''' \<Longrightarrow> first_field h zero cm k (l # c) = k l c"
  by (simp add: first_field_def is_word_def pbind_def)

lemmas read_defs = next_field_def skip_def pbind_def rr_ok_def pret_def

lemma set_name_reads:
  assumes "text_name n" "data_line [n] ts"
  shows "\<exists>e. set_name err con h org f ts = Parsed (Some \<lparr>Hdr = h, Rdata = con n\<rparr>, '''') [e] \<and> is_newline e"
  using assms text_name_facts(4) [OF assms(1)]
  by (auto simp: set_name_def read_defs first_field_word name_field_text)

lemma set_pref_name_reads:
  assumes "text_name n" "data_line [num p, n] ts"
  shows "\<exists>e. set_pref_name err1 err2 con h org f ts = Parsed (Some \<lparr>Hdr = h, Rdata = con p n\<rparr>, '''') [e] \<and> is_newline e"
  using assms
  by (auto simp: set_pref_name_def read_defs first_field_word name_field_text uint_field_num)

lemma set_names_reads:
  assumes "text_name n" "text_name m" "data_line [n, m] ts"
  shows "\<exists>e. set_names err1 err2 con h org f ts = Parsed (Some \<lparr>Hdr = h, Rdata = con n m\<rparr>, '''') [e] \<and> is_newline e"
  using assms text_name_facts(4) [OF assms(1)]
  by (auto simp: set_names_def read_defs first_field_word name_field_text)

section \<open>Addresses are words\<close>

definition address_char :: "char \<Rightarrow> bool" where
  "address_char c \<longleftrightarrow> is_hex c \<or> c = CHR ''.'' \<or> c = CHR '':''"

lemma address_char_plain: "address_char c \<Longrightarrow> \<not> lex_special c"
  by (auto simp: address_char_def lex_special_def is_hex_def hex_val_def is_digit_def ord_def split: if_splits)

lemma length_appendHex: "n < 16 ^ k \<Longrightarrow> 0 < k \<Longrightarrow> length (appendHex n) \<le> k"
proof (induction n arbitrary: k rule: appendHex.induct)
  case (1 n)
  show ?case
  proof (cases "n < 16")
    case True
    then show ?thesis using "1.prems" by (subst appendHex.simps) simp
  next
    case False
    have k: "1 < k" using "1.prems" False by (cases "k = 1") auto
    then have "n div 16 < 16 ^ (k - 1)" using "1.prems" by (cases k) auto
    then show ?thesis using "1.IH" [OF False, of "k - 1"] k False by (subst appendHex.simps) simp
  qed
qed

lemma length_join_le: "(\<And>x. x \<in> set xs \<Longrightarrow> length x \<le> k) \<Longrightarrow> length (join_with c xs) \<le> (k + 1) * length xs"
proof (induction c xs rule: join_with.induct)
  case (3 c x y xs)
  then have "length (join_with c (y # xs)) \<le> (k + 1) * length (y # xs)" "length x \<le> k" by simp_all
  then show ?case by simp
qed simp_all

lemma list_all_join: "P c \<Longrightarrow> (\<And>x. x \<in> set xs \<Longrightarrow> list_all P x) \<Longrightarrow> list_all P (join_with c xs)"
  by (induction c xs rule: join_with.induct) auto

lemma hex_groups_word:
  assumes "list_all (\<lambda>g. g \<le> 0xFFFF) gs"
  shows "list_all address_char (hex_groups gs)" "length (hex_groups gs) \<le> 5 * length gs"
proof -
  show "list_all address_char (hex_groups gs)" unfolding hex_groups_def
    using appendHex_hex by (intro list_all_join) (auto simp: address_char_def list_all_iff)
  have "length (appendHex g) \<le> 4" if "g \<in> set gs" for g
    using assms that by (intro length_appendHex) (auto simp: list_all_iff)
  then show "length (hex_groups gs) \<le> 5 * length gs" unfolding hex_groups_def
    using length_join_le [of "map appendHex gs" 4 "CHR '':''"] by auto
qed

lemma line_word_IP:
  assumes "length ip = 16"
  shows "line_word (IP_String (Some ip))"
proof -
  have "list_all address_char (IP_String (Some ip)) \<and> length (IP_String (Some ip)) < maxTok"
  proof (cases "To4 ip")
    case (Some p)
    then have p: "length p = 4" using To4_SomeD [OF Some] by simp
    have "length (Itoa (unat b)) \<le> 3" for b :: byte
      using unsigned_less [of b, where 'a = nat] by (intro length_Itoa_le) (rule less_trans, assumption, simp_all)
    then have "length (dotted p) \<le> 16" unfolding dotted_def
      using length_join_le [of "map (\<lambda>b. Itoa (unat b)) p" 3 "CHR ''.''"] p by auto
    moreover have "list_all address_char (dotted p)" unfolding dotted_def
      using Itoa_digits by (intro list_all_join) (auto simp: address_char_def list_all_iff is_hex_def hex_val_def is_digit_def)
    ultimately show ?thesis using Some by (simp add: IP_String_def maxTok_def)
  next
    case None
    let ?gs = "ip_groups ip"
    obtain e0 e1 where z: "zero_run ?gs = (e0, e1)" by (cases "zero_run ?gs")
    have g: "list_all (\<lambda>g. g \<le> 0xFFFF) gs'" if "set gs' \<subseteq> set ?gs" for gs'
      using ip_groups_bound [of ip] that by (auto simp: list_all_iff)
    have len: "length ?gs = 8" using assms by (simp add: ip_groups_length)
    have "length (hex_groups (take e0 ?gs)) \<le> 40" "length (hex_groups (drop e1 ?gs)) \<le> 40" "length (hex_groups ?gs) \<le> 40"
      using hex_groups_word(2) [OF g [OF set_take_subset], of e0] hex_groups_word(2) [OF g [OF set_drop_subset], of e1]
        hex_groups_word(2) [OF g, of ?gs] len by auto
    moreover have "list_all address_char (hex_groups (take e0 ?gs))" "list_all address_char (hex_groups (drop e1 ?gs))"
      "list_all address_char (hex_groups ?gs)"
      by (rule hex_groups_word(1), rule g, auto dest: in_set_takeD in_set_dropD)+
    ultimately show ?thesis using None z assms
      by (simp add: IP_String_def IP_String6_def maxTok_def Let_def address_char_def [of "CHR '':''"])
  qed
  moreover have "IP_String (Some ip) \<noteq> ''''"
    using ParseIP_String [OF assms] by (auto simp: ParseIP_def)
  ultimately show ?thesis using address_char_plain by (intro line_word_plain) (auto simp: list_all_iff)
qed

section \<open>The types\<close>

lemma reads_A: "length ip = 16 \<Longrightarrow> reads_back TypeA (Std (RR_A ip)) [IP_String (Some ip)]"
  by (rule reads_backI [where fn = setA])
     (auto simp: plain_types_def plain_names_def RR_String_def String_A_def spaced_def line_word_IP typeToparserFunc_def
       setA_def read_defs first_field_def is_word_def ParseIP_String line_word_IP [unfolded line_word_def])


lemma plain_type_mem: "t \<in> fst ` set plain_names \<Longrightarrow> t \<in> set plain_types"
  by (simp add: plain_types_def)

lemmas type_facts = plain_type_mem plain_names_def RR_String_def spaced_def typeToparserFunc_def text_name_facts(1,2)

lemma reads_AAAA: "length ip = 16 \<Longrightarrow> reads_back TypeAAAA (Std (RR_AAAA ip)) [IP_String (Some ip)]"
  by (rule reads_backI [where fn = setAAAA])
     (auto simp: plain_types_def plain_names_def RR_String_def String_AAAA_def spaced_def line_word_IP typeToparserFunc_def
       setAAAA_def read_defs first_field_def is_word_def ParseIP_String line_word_IP [unfolded line_word_def])

lemma reads_name:
  assumes "text_name n"
  shows "reads_back TypeNS (Std (RR_NS n)) [n]" "reads_back TypePTR (Std (RR_PTR n)) [n]"
    "reads_back TypeCNAME (Std (RR_CNAME n)) [n]" "reads_back TypeDNAME (Std (RR_DNAME n)) [n]"
    "reads_back TypeMB (Std (RR_MB n)) [n]" "reads_back TypeMG (Std (RR_MG n)) [n]"
    "reads_back TypeMR (Std (RR_MR n)) [n]" "reads_back TypeMF (Std (RR_MF n)) [n]"
    "reads_back TypeMD (Std (RR_MD n)) [n]" "reads_back TypeNSAPPTR (Sec (RR_NSAPPTR n)) [n]"
  by (rule reads_backI [OF _ _ _ _ _ set_name_reads [OF assms]];
      (simp add: typeToparserFunc_def setNS_def setPTR_def setCNAME_def setDNAME_def setMB_def setMG_def
        setMR_def setMF_def setMD_def setNSAPPTR_def; fail)?;
      simp add: type_facts assms String_NS_def String_PTR_def String_CNAME_def String_DNAME_def
        String_MB_def String_MG_def String_MR_def String_MF_def String_MD_def String_NSAPPTR_def)+

lemma reads_pref_name:
  assumes "text_name n"
  shows "reads_back TypeMX (Std (RR_MX p n)) [num p, n]" "reads_back TypeAFSDB (Std (RR_AFSDB p n)) [num p, n]"
    "reads_back TypeKX (Sec (RR_KX p n)) [num p, n]"
  by (rule reads_backI [OF _ _ _ _ _ set_pref_name_reads [OF assms]];
      (simp add: typeToparserFunc_def setMX_def setAFSDB_def setKX_def; fail)?;
      simp add: type_facts assms String_MX_def String_AFSDB_def String_KX_def)+

lemma reads_names:
  assumes "text_name n" "text_name m"
  shows "reads_back TypeMINFO (Std (RR_MINFO n m)) [n, m]" "reads_back TypeTALINK (Sec (RR_TALINK n m)) [n, m]"
  by (rule reads_backI [OF _ _ _ _ _ set_names_reads [OF assms]];
      (simp add: typeToparserFunc_def setMINFO_def setTALINK_def; fail)?;
      simp add: type_facts assms String_MINFO_def String_TALINK_def)+

lemma uint_num: "is_word zString (num w) l \<Longrightarrow> ParseUint10 (token l) LENGTH('a) = Some (unat w) \<and> \<not> tok_err l"
  for w :: "('a :: len) word"
  using unsigned_less [of w] by (simp add: is_word_def num_def ParseUint10_Itoa)

lemma uint16_num: "is_word zString (num w) l \<Longrightarrow> ParseUint10 (token l) 16 = Some (unat w)" for w :: uint16
  using uint_num [of w l] by simp

lemma uint32_num: "is_word zString (num w) l \<Longrightarrow> ParseUint10 (token l) 32 = Some (unat w)" for w :: uint32
  using uint_num [of w l] by simp

lemma soa_param_num: "is_word zString (num w) l \<Longrightarrow> soa_param i f (l # c) = Parsed w c"
  using uint_num [of w l] by (simp add: soa_param_def pbind_def pret_def)

lemma reads_RT: "text_name n \<Longrightarrow> reads_back TypeRT (Std (RR_RT p n)) [num p, n]"
  by (rule reads_backI [where fn = setRT])
     (auto simp: type_facts String_RT_def setRT_def read_defs first_field_word name_field_text uint16_num)

lemma word_tok_length: "is_word v n l \<Longrightarrow> text_name n \<Longrightarrow> tok_length l \<noteq> 0"
  by (auto simp: is_word_def dest: text_name_facts(4))

lemma reads_LP: "text_name n \<Longrightarrow> reads_back TypeLP (Ext (RR_LP p n)) [num p, n]"
  by (rule reads_backI [where fn = setLP])
     (auto simp: type_facts String_LP_def setLP_def read_defs first_field_word name_field_text uint_field_num
       dest: word_tok_length)

lemma reads_SRV: "text_name n \<Longrightarrow> reads_back TypeSRV (Std (RR_SRV p w q n)) [num p, num w, num q, n]"
  by (rule reads_backI [where fn = setSRV])
     (auto simp: type_facts String_SRV_def setSRV_def read_defs first_field_word name_field_text uint_field_num)

lemma reads_id:
  "reads_back TypeUID (Ext (RR_UID i)) [num i]" "reads_back TypeGID (Ext (RR_GID i)) [num i]"
  by (rule reads_backI [where fn = setUID],
      auto simp: type_facts String_UID_def setUID_def read_defs first_field_word uint_field_num)
     (rule reads_backI [where fn = setGID],
      auto simp: type_facts String_GID_def setGID_def read_defs first_field_word uint_field_num)

lemma reads_SOA:
  "text_name n \<Longrightarrow> text_name m \<Longrightarrow>
   reads_back TypeSOA (Std (RR_SOA n m a b c d e)) [n, m, num a, num b, num c, num d, num e]"
  by (rule reads_backI [where fn = setSOA])
     (auto simp: type_facts String_SOA_def setSOA_def read_defs first_field_word text_name_facts(4) name_field_text soa_param_num)

lemma reads_PX:
  assumes "text_name n" "text_name m"
  shows "reads_back TypePX (Sec (RR_PX p n m)) [num p, n, m]"
proof (rule reads_backI [where fn = setPX])
  show "\<exists>e. setPX h org f ts = Parsed (Some \<lparr>Hdr = h, Rdata = Sec (RR_PX p n m)\<rparr>, '''') [e] \<and> is_newline e"
    if line: "data_line [num p, n, m] ts" for h org f ts
  proof -
    obtain l1 b1 l2 b2 l3 e where ts: "ts = [l1, b1, l2, b2, l3, e]"
      and w: "is_word zString (num p) l1" "is_word zString n l2" "is_word zString m l3" "is_newline e"
      using line by auto
    have "tok_length l2 \<noteq> 0" "token l2 \<noteq> ''@''"
      using w(2) text_name_facts(4,5) [OF assms(1)] by (auto simp: is_word_def)
    then show ?thesis using assms w
      by (simp add: ts setPX_def read_defs first_field_word name_field_text uint_field_num)
  qed
qed (simp_all add: type_facts assms String_PX_def)

text \<open>The records that are read back.\<close>

definition plain_data :: "uint16 \<Rightarrow> rdata \<Rightarrow> bool" where
  "plain_data t d \<longleftrightarrow>
     (case d of
        Std (RR_A ip) \<Rightarrow> t = TypeA \<and> length ip = 16
      | Std (RR_AAAA ip) \<Rightarrow> t = TypeAAAA \<and> length ip = 16
      | Std (RR_NS n) \<Rightarrow> t = TypeNS \<and> text_name n
      | Std (RR_PTR n) \<Rightarrow> t = TypePTR \<and> text_name n
      | Std (RR_CNAME n) \<Rightarrow> t = TypeCNAME \<and> text_name n
      | Std (RR_DNAME n) \<Rightarrow> t = TypeDNAME \<and> text_name n
      | Std (RR_MB n) \<Rightarrow> t = TypeMB \<and> text_name n
      | Std (RR_MG n) \<Rightarrow> t = TypeMG \<and> text_name n
      | Std (RR_MR n) \<Rightarrow> t = TypeMR \<and> text_name n
      | Std (RR_MF n) \<Rightarrow> t = TypeMF \<and> text_name n
      | Std (RR_MD n) \<Rightarrow> t = TypeMD \<and> text_name n
      | Std (RR_MX p n) \<Rightarrow> t = TypeMX \<and> text_name n
      | Std (RR_AFSDB p n) \<Rightarrow> t = TypeAFSDB \<and> text_name n
      | Std (RR_RT p n) \<Rightarrow> t = TypeRT \<and> text_name n
      | Std (RR_MINFO n m) \<Rightarrow> t = TypeMINFO \<and> text_name n \<and> text_name m
      | Std (RR_SRV p w q n) \<Rightarrow> t = TypeSRV \<and> text_name n
      | Std (RR_SOA n m a b c d' e) \<Rightarrow> t = TypeSOA \<and> text_name n \<and> text_name m
      | Sec (RR_NSAPPTR n) \<Rightarrow> t = TypeNSAPPTR \<and> text_name n
      | Sec (RR_KX p n) \<Rightarrow> t = TypeKX \<and> text_name n
      | Sec (RR_TALINK n m) \<Rightarrow> t = TypeTALINK \<and> text_name n \<and> text_name m
      | Sec (RR_PX p n m) \<Rightarrow> t = TypePX \<and> text_name n \<and> text_name m
      | Ext (RR_LP p n) \<Rightarrow> t = TypeLP \<and> text_name n
      | Ext (RR_UID i) \<Rightarrow> t = TypeUID
      | Ext (RR_GID i) \<Rightarrow> t = TypeGID
      | _ \<Rightarrow> False)"

lemma plain_reads: "plain_data t d \<Longrightarrow> \<exists>ws. reads_back t d ws"
  unfolding plain_data_def
  by (auto split: rdata.splits std_rdata.splits sec_rdata.splits ext_rdata.splits
      intro: reads_A reads_AAAA reads_name reads_pref_name reads_names reads_RT reads_LP reads_SRV reads_id reads_SOA reads_PX)

section \<open>The round trip\<close>

lemma last_spaced:
  "ws \<noteq> [] \<Longrightarrow> list_all line_word ws \<Longrightarrow> spaced ws \<noteq> '''' \<and> last (spaced ws) \<noteq> CHR 0x0A"
proof (induction ws rule: induct_list012)
  case (2 w)
  then show ?case by (auto simp: spaced_def line_word_def lex_special_def)
next
  case (3 w v ws)
  then show ?case by (simp add: spaced_def)
qed simp

lemma header_line:
  assumes "text_name (Name h)" "Rrtype h \<in> set plain_types"
  shows "Hdr_String h @ spaced ws @ [CHR 0x0A] =
    record_line (Name h) (Itoa (unat (Ttl h))) (Class_String (Class h)) (Type_String (Rrtype h)) ws"
proof -
  have "TypeOPT \<notin> set plain_types" by (simp add: plain_types_def plain_names_def)
  then have "Rrtype h \<noteq> TypeOPT" using assms(2) by metis
  then show ?thesis using text_name_facts(1) [OF assms(1)] by (simp add: Hdr_String_def record_line_def)
qed

text \<open>
  C10: a record of an address, of one or two names, of a preference and a name, of a service or of a
  start of authority is read back by \<open>NewRR\<close> from the text that its \<open>String\<close> method prints: the same
  owner, time to live, class, type and data.  The names are valid names without an apostrophe, the
  class is not \<open>ANY\<close>, which the lexer takes for a type, and the length of the data is 0, as it is in
  every record that the parser makes.  Addresses have the 16 bytes that \<open>net.ParseIP\<close> returns.
\<close>

theorem NewRR_String:
  assumes "plain_data (Rrtype (Hdr r)) (Rdata r)" "text_name (Name (Hdr r))" "Class (Hdr r) \<noteq> ClassANY"
    "Rdlength (Hdr r) = 0"
  shows "NewRR (Suc n) open_file (RR_String now r) = ReadOk (Some r)"
proof -
  obtain h d where r: "r = \<lparr>Hdr = h, Rdata = d\<rparr>" by (cases r)
  have n: "text_name (Name h)" and rl: "Rdlength h = 0" using assms r by simp_all
  obtain ws where ws: "reads_back (Rrtype h) d ws" using plain_reads assms(1) r by auto
  then have t: "Rrtype h \<in> set plain_types" and w: "list_all line_word ws" "ws \<noteq> []"
    and pr: "RR_String now r = Hdr_String h @ spaced ws"
    and rd: "data_line ws ts \<Longrightarrow> setRR h org f ts = Parsed (Some r, '''') []" for org f ts
    by (auto simp: reads_back_def r)
  have k: "unat (Ttl h) < 2 ^ 32" using unsigned_less [of "Ttl h", where 'a = nat] by simp
  obtain t1 b1 t2 b2 t3 b3 t4 b4 ts where lx:
    "zlexer (Hdr_String h @ spaced ws @ [CHR 0x0A]) = Ok (t1 # b1 # t2 # b2 # t3 # b3 # t4 # b4 # ts)"
    and tk: "is_word zOwner (Name h) t1" "is_word zString (Itoa (unat (Ttl h))) t2"
      "is_word zClass (Class_String (Class h)) t3" "is_word zRrtpe (Type_String (Rrtype h)) t4"
    and c: "torc t3 = Class h" "torc t4 = Rrtype h" "data_line ws ts" "list_all is_blank [b1, b2, b3, b4]"
    using lex_record_line [OF text_name_facts(2,3) [OF n] _ t k w, of "Class h"] assms(3) r
    unfolding header_line [OF n t] by auto
  have h: "\<lparr>Name = Name h, Rrtype = torc t4, Class = torc t3, Ttl = of_nat (unat (Ttl h)), Rdlength = 0\<rparr> = h"
    using rl c by simp
  have run: "zone_loop env (zone_init org) (t1 # b1 # t2 # b2 # t3 # b3 # t4 # b4 # ts) = ([rr_token (Some r) ''''], Returns)"
    for env org
    by (rule zone_loop_record [OF n tk c(4)]) (simp only: h rd [OF c(3)])
  have line: "with_newline (RR_String now r) = Hdr_String h @ spaced ws @ [CHR 0x0A]"
    using last_spaced [OF w(2,1)] unfolding pr by (auto simp: with_newline_def)
  have "IsDomainName ''.'' = Ok (1, True)" "Fqdn ''.'' = ''.''" by code_simp+
  then show ?thesis using lx run
    by (simp add: NewRR_def ReadRR_def line run_parser_def first_token_def rr_token_def)
qed

definition sample_mx :: RR where
  "sample_mx = \<lparr>Hdr = \<lparr>Name = ''mail'' @ [CHR 0x5C] @ ''.box.example.org.'', Rrtype = TypeMX, Class = 4660, Ttl = 86400, Rdlength = 0\<rparr>,
     Rdata = Std (RR_MX 10 ''mx.example.org.'')\<rparr>"

theorem NewRR_String_witness: "NewRR (Suc 0) (\<lambda>name. None) (RR_String 0 sample_mx) = ReadOk (Some sample_mx)"
proof (rule NewRR_String)
  have "text_name (''mail'' @ [CHR 0x5C] @ ''.box.example.org.'')" "text_name ''mx.example.org.''" by code_simp+
  then show "plain_data (Rrtype (Hdr sample_mx)) (Rdata sample_mx)" "text_name (Name (Hdr sample_mx))"
    by (simp_all add: sample_mx_def plain_data_def)
qed (simp_all add: sample_mx_def)

end
