(* ===== verification/Zone_Safe.thy ===== *)
theory Zone_Safe
  imports Zone_Parse
begin

text \<open>
  The parser of zone files comes to an end: from the tokens of the lexer every step of the state
  machine goes on with fewer tokens or returns, as long as no \<open>URI\<close> and no \<open>CAA\<close> record is read
  (their parsers panic when the value is missing) and there is no \<open>$GENERATE\<close> directive (which need
  not end).  Nested files are read through \<open>$INCLUDE\<close> to a depth of seven.  The records that do
  panic, and those that are never returned, are shown on lines.
\<close>

section \<open>Every step is safe\<close>

definition plain_token :: "lex \<Rightarrow> bool" where
  "plain_token l \<longleftrightarrow> tok_value l \<noteq> zDirGenerate \<and> torc l \<noteq> TypeURI \<and> torc l \<noteq> TypeCAA"

definition plain_file :: "string \<Rightarrow> bool" where
  "plain_file file = (case zlexer file of Ok ls \<Rightarrow> list_all plain_token ls | _ \<Rightarrow> True)"

definition zone_ok :: "zone \<Rightarrow> bool" where
  "zone_ok z \<longleftrightarrow> z_st z \<noteq> zExpectDirGenerateBl \<and> z_st z \<noteq> zExpectDirGenerate \<and>
     (z_st z = zExpectRdata \<longrightarrow> Rrtype (z_h z) \<noteq> TypeURI \<and> Rrtype (z_h z) \<noteq> TypeCAA)"

definition env_ok :: "zone_env \<Rightarrow> bool" where
  "env_ok env \<longleftrightarrow> (\<forall>name r org. e_open env name = Some r \<longrightarrow> e_depth env < 7 \<longrightarrow>
     snd (e_parseZone env r name org (e_depth env + 1)) = Returns)"

definition safe_step :: "zone_next \<Rightarrow> bool" where
  "safe_step r = (case r of ZGo ts z c \<Rightarrow> zone_ok z | ZStop ts e \<Rightarrow> e = Returns)"

named_theorems safe_steps "steps that go on or return"

lemma safe_step_simps [simp]:
  "safe_step (ZGo ts z c) = zone_ok z" "safe_step (ZStop ts e) \<longleftrightarrow> e = Returns" "safe_step (zfail env err l)"
  by (simp_all add: safe_step_def zfail_def)

lemma safe_blank_to [safe_steps]:
  "st \<notin> {zExpectDirGenerateBl, zExpectDirGenerate, zExpectRdata} \<Longrightarrow> safe_step (blank_to env err st z l c)"
  by (simp add: blank_to_def zone_ok_def)

lemma safe_ttl_to [safe_steps]:
  "st \<notin> {zExpectDirGenerateBl, zExpectDirGenerate, zExpectRdata} \<Longrightarrow> safe_step (ttl_to env st z l c)"
  by (simp add: ttl_to_def zone_ok_def split: option.split)

lemma safe_class_to [safe_steps]:
  "st \<notin> {zExpectDirGenerateBl, zExpectDirGenerate, zExpectRdata} \<Longrightarrow> safe_step (class_to st z l c)"
  by (simp add: class_to_def zone_ok_def)

lemma safe_rrtype_to [safe_steps]: "plain_token l \<Longrightarrow> safe_step (rrtype_to z l c)"
  by (simp add: rrtype_to_def zone_ok_def plain_token_def)

lemma safe_zlift_Ok [safe_steps]: "safe_step (k x) \<Longrightarrow> safe_step (zlift (Ok x) k)"
  by (simp add: zlift_def)

lemma safe_zlift_index [safe_steps]:
  "0 \<le> i \<Longrightarrow> i < int (length s) \<Longrightarrow> (\<And>b. safe_step (k b)) \<Longrightarrow> safe_step (zlift (go_index s i) k)"
  by (simp add: zlift_def go_index_def)

lemma safe_zlift_name [safe_steps]: "(\<And>n ok. safe_step (k (n, ok))) \<Longrightarrow> safe_step (zlift (IsDomainName s) k)"
  using IsDomainName_ok [of s] by (auto simp: zlift_def)

lemma good_token_last:
  "good_token l \<Longrightarrow> \<not> tok_err l \<Longrightarrow> 0 \<le> int (tok_length l) - 1 \<and> int (tok_length l) - 1 < int (length (token l))"
  by (auto simp: good_token_def Suc_le_eq)

lemma safe_owner_name [safe_steps]:
  assumes "good_token l" "\<not> tok_err l"
  shows "safe_step (owner_name env z l c)"
proof -
  have "0 < length (token l)" using assms by (simp add: good_token_def)
  then show ?thesis using good_token_last [OF assms]
    by (auto simp: owner_name_def Let_def zone_ok_def split: prod.split intro!: safe_steps)
qed

lemma safe_at_begin [safe_steps]:
  assumes "good_token l" "\<not> tok_err l" "plain_token l" "zone_ok z"
  shows "safe_step (at_begin env z l c)"
  using assms
  by (auto simp: at_begin_def Let_def split: zvalue.split intro!: safe_steps) (auto simp: zone_ok_def plain_token_def)

lemma safe_include_file [safe_steps]:
  assumes "env_ok env"
  shows "safe_step (include_file env z l n c)"
proof (cases "e_open env (token l)")
  case (Some r)
  obtain ts e where run: "e_parseZone env r (token l) n (e_depth env + 1) = (ts, e)" by fastforce
  have "e = Returns" if "e_depth env < 7"
    using assms Some that run unfolding env_ok_def by (metis snd_conv)
  then show ?thesis using Some run by (auto simp: include_file_def zone_ok_def split: zone_end.split)
qed (simp add: include_file_def)

lemma safe_include_origin [safe_steps]:
  assumes "list_all fine_token c" "\<And>n c'. safe_step (k n c')"
  shows "safe_step (include_origin env z c k)"
proof (cases c)
  case (Cons l c')
  have "safe_step (zlift (go_index (token l) (int (tok_length l) - 1)) g)"
    if "tok_length l \<noteq> 0" "\<not> tok_err l" "\<And>b. safe_step (g b)" for g
    by (rule safe_zlift_index) (use that assms(1) Cons in \<open>auto simp: fine_token_def\<close>)
  then show ?thesis using assms(2) Cons
    by (auto simp: include_origin_def split: prod.split intro!: safe_zlift_name)
qed (simp add: include_origin_def assms)

lemma safe_dir_include [safe_steps]:
  assumes "list_all fine_token c" "env_ok env"
  shows "safe_step (dir_include env z l c)"
  using assms
  by (auto simp: dir_include_def Let_def split: list.split zvalue.split intro!: safe_steps)

lemma safe_dir_ttl [safe_steps]:
  assumes "list_all fine_token c"
  shows "safe_step (dir_ttl env z l c)"
  by (rule safe_parserE [OF safe_slurpRemainder assms, of "e_file env"])
     (auto simp: dir_ttl_def zone_ok_def split: option.split)

lemma safe_dir_origin [safe_steps]:
  assumes "good_token l" "\<not> tok_err l"
  shows "safe_step (dir_origin env z l c)"
proof -
  obtain n ok where "IsDomainName (token l) = Ok (n, ok)" using IsDomainName_ok by blast
  then show ?thesis using good_token_last [OF assms]
    by (auto simp: dir_origin_def Let_def go_index_def zone_ok_def split: prod.split)
qed

lemma safe_at_rdata [safe_steps]:
  assumes "list_all fine_token c" "zone_ok z" "z_st z = zExpectRdata"
  shows "safe_step (at_rdata env z l c)"
proof -
  have "safe_parser (setRR (z_h z) (z_origin z) (e_file env))"
    using assms by (intro safe_setRR) (auto simp: zone_ok_def)
  then show ?thesis
    by (rule safe_parserE [OF _ assms(1)]) (auto simp: at_rdata_def zone_ok_def split: prod.split)
qed

lemma safe_zone_step:
  assumes "good_token l" "plain_token l" "list_all fine_token c" "zone_ok z" "env_ok env"
  shows "safe_step (zone_step env z l c)"
proof (cases "tok_err l")
  case False
  have any: "safe_step (at_any env z l c)" "safe_step (at_any_no_ttl env z l c)" "safe_step (at_any_no_class env z l c)"
    using assms
    by (auto simp: at_any_def at_any_no_ttl_def at_any_no_class_def split: zvalue.split intro!: safe_steps)
  show ?thesis using assms False any
    by (cases "z_st z") (auto simp: zone_step_def intro!: safe_steps, auto simp: zone_ok_def)
qed (simp add: zone_step_def)

lemma zone_loop_returns:
  "list_all good_token c \<Longrightarrow> list_all plain_token c \<Longrightarrow> zone_ok z \<Longrightarrow> env_ok env \<Longrightarrow> snd (zone_loop env z c) = Returns"
proof (induction env z c rule: zone_loop.induct)
  case (2 env z l c)
  have safe: "safe_step (zone_step env z l c)"
    using "2.prems" good_fine by (intro safe_zone_step) (auto simp: list_all_iff)
  show ?case
  proof (cases "zone_step env z l c")
    case (ZGo ts z' c')
    have "suffix c' c" by (rule zone_step_shrinks [OF ZGo])
    then have "list_all good_token c'" "list_all plain_token c'"
      using "2.prems" by (auto simp: list_all_iff dest: set_mono_suffix)
    then have "snd (zone_loop env z' c') = Returns" using "2.IH" [OF ZGo] safe ZGo "2.prems" by simp
    then show ?thesis using ZGo by (cases "zone_loop env z' c'") simp
  qed (use safe in simp)
qed simp

lemma run_parser_returns:
  assumes "plain_file r" "env_ok env"
  shows "snd (run_parser env origin r) = Returns"
proof -
  obtain ls where ls: "zlexer r = Ok ls" "list_all good_token ls"
    using lex_loop_good [of lex_init r] by (auto simp: zlexer_def lex_init_def lexer_inv_def zero_lex_def)
  obtain n ok where "IsDomainName (Fqdn (if origin = '''' then ''.'' else origin)) = Ok (n, ok)"
    using IsDomainName_ok by blast
  moreover have "zone_ok (zone_init org)" for org by (simp add: zone_init_def zone_ok_def)
  ultimately show ?thesis using ls assms
    by (auto simp: run_parser_def Let_def plain_file_def zone_loop_returns)
qed

lemma parseZone_returns:
  assumes "\<And>name r. open_file name = Some r \<Longrightarrow> plain_file r"
  shows "plain_file r \<Longrightarrow> 8 \<le> n + depth \<Longrightarrow> 0 < n \<Longrightarrow>
    snd (parseZone n open_file r origin f depth) = Returns"
proof (induction n arbitrary: r origin f depth)
  case (Suc n)
  then show ?case using assms by (simp, intro run_parser_returns) (auto simp: env_ok_def)
qed simp

text \<open>
  C13: a zone file without a \<open>$GENERATE\<close> directive and without the types \<open>URI\<close> and \<open>CAA\<close>, whose
  included files are like that, too, is read to an end: \<open>ParseZone\<close> sends records and errors and
  returns, whatever the file holds.  It does not panic and does not run forever.  A fuel of 8, one
  for each level of \<open>$INCLUDE\<close>, is enough.
\<close>

theorem ParseZone_returns:
  assumes "plain_file r" "\<And>name s. open_file name = Some s \<Longrightarrow> plain_file s" "8 \<le> n"
  shows "snd (ParseZone n open_file r origin file) = Returns"
  unfolding ParseZone_def using assms by (intro parseZone_returns) auto

definition sample_zone :: string where
  "sample_zone = ''$INCLUDE x'' @ [CHR 0x0A] @ ''a A 10.0.0.1'' @ [CHR 0x0A]"

lemma sample_plain: "plain_file sample_zone" "plain_file ''@ NS b''"
  by code_simp+

theorem ParseZone_returns_witness:
  "snd (ParseZone 8 (\<lambda>name. if name = [CHR 0x0A] then Some ''@ NS b'' else None) sample_zone ''org.'' ''db'') = Returns"
  by (rule ParseZone_returns) (auto simp: sample_plain split: if_splits)

section \<open>Records that are lost or fatal\<close>

text \<open>\<open>setTA\<close> never returns a record that it has parsed.\<close>

lemma setTA_never:
  assumes "setTA h org f (l # c) = Parsed (r, cm) c'" "tok_length l \<noteq> 0"
  shows "r = None"
  using assms
  by (auto simp: setTA_def first_field_def pbind_def uint_field_def next_field_def skip_def pret_def pfail_def
      algorithm_field_def split: option.splits if_splits parsed.splits prod.splits)

text \<open>A missing target of a \<open>URI\<close> record and a missing value of a \<open>CAA\<close> record stop the program.\<close>

lemma setURI_panics: "NewRR 1 open_file ''u. URI 1 2'' = ReadCrash IndexOutOfRange"
  by code_simp

lemma setCAA_panics: "NewRR 1 open_file ''u. CAA 0 issue'' = ReadCrash IndexOutOfRange"
  by code_simp

lemma TA_is_nothing: "NewRR 1 open_file ''u. TA 1 2 3 AA'' = ReadOk None"
  by code_simp

text \<open>A bracket that closes nothing is an error, but not behind the types of an \<open>NSEC\<close> record.\<close>

lemma NSEC_ignores_error:
  "case NewRR 1 open_file ''u. NSEC v. A )'' of ReadOk (Some r) \<Rightarrow> Rdata r = Sec (RR_NSEC ''v.'' [1]) | _ \<Rightarrow> False"
  by code_simp

lemma NSEC_any_prefix:
  "case NewRR 1 open_file ''u. NSEC v. XXXX12'' of ReadOk (Some r) \<Rightarrow> Rdata r = Sec (RR_NSEC ''v.'' [12]) | _ \<Rightarrow> False"
  by code_simp
section \<open>A loop without an end\<close>

text \<open>With the step 0 every round is the first one: a line that is read sends its record again and again.\<close>

lemma gen_loop_stands:
  assumes "i \<le> stop" "wrap64 i = i"
  shows "gen_loop (Suc n) newRR org s i stop 0 =
    (case gen_line i False '''' s of
       Inl e \<Rightarrow> ([], GenMsg e)
     | Inr line \<Rightarrow>
         (case newRR (''$ORIGIN '' @ org @ [CHR 0x0A] @ line) of
            ReadErr e \<Rightarrow> ([], GenMsg (ParseError_Error e))
          | ReadCrash p \<Rightarrow> ([], GenDies p)
          | ReadHangs \<Rightarrow> ([], GenRunsOn)
          | ReadOk rx \<Rightarrow> (replicate (Suc n) (rr_token rx ''''), GenRunsOn)))"
proof (induction n)
  case (Suc n)
  show ?case
    using assms by (subst gen_loop.simps, simp only: Suc add_0_right) (auto split: sum.split rr_read.split)
qed (use assms in \<open>auto split: sum.split rr_read.split\<close>)

lemma modToPrintf_error: "modToPrintf s = Inl e \<Longrightarrow> e \<noteq> ''''"
  by (auto simp: modToPrintf_def split: list.splits if_splits option.splits)

lemma gen_line_error: "gen_line i escape out s \<noteq> Inl ''''"
proof (induction "length s" arbitrary: escape out s rule: less_induct)
  case less
  show ?case
  proof (cases s)
    case (Cons x xs)
    have IH: "length t < length s \<Longrightarrow> gen_line i b u t \<noteq> Inl ''''" for b u t by (rule less)
    have "gen_line i b u xs \<noteq> Inl ''''" "xs = y # ys \<Longrightarrow> gen_line i b u ys \<noteq> Inl ''''"
      "xs = y # ys \<Longrightarrow> gen_line i b u (tl (dropWhile P ys)) \<noteq> Inl ''''" "gen_line i b u [] \<noteq> Inl ''''" for b u y ys P
      using behind_brace [of P ys] by (auto intro!: IH simp: Cons)
    then show ?thesis
      unfolding Cons by (subst gen_line.simps) (auto split: list.split sum.split dest: modToPrintf_error)
  qed (simp add: gen_line.simps)
qed

lemma gen_range_ok:
  assumes "gen_range s = Inr (start, stop, step)"
  shows "start \<le> stop" "wrap64 start = start"
proof -
  have r: "ParseInt10 x 64 = Some i \<Longrightarrow> 0 \<le> i \<Longrightarrow> wrap64 i = i" for x i
    by (auto simp: ParseInt10_def Let_def wrap64_def split: if_splits)
  show "start \<le> stop" "wrap64 start = start"
    using assms by (auto simp: gen_range_def Let_def r split: if_splits option.splits list.splits)
qed

definition endless_zone :: string where
  "endless_zone = ''$GENERATE 1-1/0 a A 10.0.0.1'' @ [CHR 0x0A]"

lemma endless_tokens:
  "\<exists>l0 l1 l2 c. zlexer endless_zone = Ok (l0 # l1 # l2 # c) \<and>
    tok_value l0 = zDirGenerate \<and> tok_value l1 = zBlank \<and> tok_value l2 = zString \<and>
    \<not> tok_err l0 \<and> \<not> tok_err l1 \<and> \<not> tok_err l2 \<and> token l2 = ''1-1/0'' \<and>
    fst (gen_words '''' (drop 1 c)) = ''a A 10.0.0.1''"
proof -
  have "(case zlexer endless_zone of
      Ok (l0 # l1 # l2 # c) \<Rightarrow>
        tok_value l0 = zDirGenerate \<and> tok_value l1 = zBlank \<and> tok_value l2 = zString \<and>
        \<not> tok_err l0 \<and> \<not> tok_err l1 \<and> \<not> tok_err l2 \<and> token l2 = ''1-1/0'' \<and>
        fst (gen_words '''' (drop 1 c)) = ''a A 10.0.0.1''
    | _ \<Rightarrow> False)"
    by code_simp
  then show ?thesis by (auto split: outcome.splits list.splits)
qed

lemma read_okE: "(case r of ReadOk rx \<Rightarrow> True | _ \<Rightarrow> False) \<Longrightarrow> \<exists>rx. r = ReadOk rx"
  by (cases r) auto

lemma endless_line:
  "\<exists>rx. first_token (parseZone (Suc n) open_file (with_newline (''$ORIGIN '' @ ''.'' @ [CHR 0x0A] @ ''a A 10.0.0.1'')) ''.'' '''' 0)
     = ReadOk rx"
proof -
  have "(case first_token (run_parser
         \<lparr>e_file = f, e_depth = 0, e_open = open_file, e_parseZone = pz, e_newRR = nr, e_rounds = k\<rparr>
         ''.'' (with_newline (''$ORIGIN '' @ ''.'' @ [CHR 0x0A] @ ''a A 10.0.0.1'')))
     of ReadOk rx \<Rightarrow> True | _ \<Rightarrow> False)" for f pz nr k
    by code_simp
  then show ?thesis unfolding parseZone.simps by (rule read_okE)
qed

text \<open>
  C31: A \<open>$GENERATE\<close> directive whose range has the step 0 does in its first round all it ever does.  An error
  in the line (a bad modifier) or in the record that is made of it ends the parser with that
  error, and a panic of \<open>NewRR\<close> is one of the parser; otherwise the directive does not end, whatever
  the number of rounds: it sends the same record once for every round.  The test of the step only
  refuses negative ones.
\<close>

theorem generate_runs_on:
  assumes "z_st z = zExpectDirGenerate" "\<not> tok_err l" "tok_value l = zString"
    and "gen_range (token l) = Inr (start, stop, 0)" "e_rounds env = Suc n"
  shows "zone_step env z l c =
    (let failed = (\<lambda>e. ZStop [error_token \<lparr>pe_file = e_file env, pe_err = e, pe_lex = l\<rparr>] Returns)
     in case gen_line start False '''' (fst (gen_words '''' (drop 1 c))) of
          Inl e \<Rightarrow> failed e
        | Inr line \<Rightarrow>
            (case e_newRR env (''$ORIGIN '' @ z_origin z @ [CHR 0x0A] @ line) of
               ReadErr e \<Rightarrow> failed (ParseError_Error e)
             | ReadCrash p \<Rightarrow> ZStop [] (Dies p)
             | ReadHangs \<Rightarrow> ZStop [] RunsOn
             | ReadOk rx \<Rightarrow> ZStop (replicate (Suc n) (rr_token rx '''')) RunsOn))"
proof -
  obtain s c' where w: "gen_words '''' (drop 1 c) = (s, c')" by fastforce
  have e: "ParseError_Error e \<noteq> ''''" for e by (simp add: ParseError_Error_def)
  show ?thesis
    unfolding zone_step_def dir_generate_def generate_def assms(5) w [unfolded One_nat_def] w
    using assms(1-4) w gen_line_error [of start False "''''" s] e
    by (simp add: gen_loop_stands [OF gen_range_ok [OF assms(4)]] Let_def del: gen_loop.simps split: sum.split rr_read.split)
qed

text \<open>So the parser of the file is not done with it, whatever the fuel.\<close>

theorem generate_runs_on_witness: "\<forall>n. snd (ParseZone n (\<lambda>f. None) endless_zone ''.'' ''z'') = RunsOn"
proof
  fix n show "snd (ParseZone n (\<lambda>f. None) endless_zone ''.'' ''z'') = RunsOn"
  proof (cases n)
    case (Suc m)
    define env where "env = \<lparr>e_file = ''z'', e_depth = 0, e_open = (\<lambda>f. None), e_parseZone = parseZone m (\<lambda>f. None),
      e_newRR = (\<lambda>s. first_token (parseZone m (\<lambda>f. None) (with_newline s) ''.'' '''' 0)), e_rounds = m\<rparr>"
    obtain l0 l1 l2 c c' where lx: "zlexer endless_zone = Ok (l0 # l1 # l2 # c)"
      and v: "tok_value l0 = zDirGenerate" "tok_value l1 = zBlank" "tok_value l2 = zString"
      and e: "\<not> tok_err l0" "\<not> tok_err l1" "\<not> tok_err l2"
      and t: "token l2 = ''1-1/0''" and w: "gen_words '''' (drop 1 c) = (''a A 10.0.0.1'', c')"
      using endless_tokens by (metis fst_conv prod.exhaust)
    have line: "gen_line 1 False '''' ''a A 10.0.0.1'' = Inr ''a A 10.0.0.1''" by code_simp
    have range: "gen_range (token l2) = Inr (1, 1, 0)" unfolding t by code_simp
    have dot: "IsDomainName ''.'' = Ok (1, True)" "Fqdn ''.'' = ''.''" by code_simp+
    define z where "z = (zone_init ''.'')\<lparr>z_h := (z_h (zone_init ''.''))\<lparr>Ttl := defaultTtl, Class := ClassINET\<rparr>, z_st := zExpectDirGenerate\<rparr>"
    have stop: "\<exists>ts. zone_step env z l2 c = ZStop ts RunsOn"
    proof (cases m)
      case 0
      then show ?thesis
        using v e range w by (simp add: zone_step_def z_def env_def zone_init_def dir_generate_def generate_def)
    next
      case (Suc k)
      obtain rx where "e_newRR env (''$ORIGIN '' @ ''.'' @ [CHR 0x0A] @ ''a A 10.0.0.1'') = ReadOk rx"
        using endless_line [of k "\<lambda>f. None"] by (auto simp: env_def Suc)
      then show ?thesis
        using generate_runs_on [OF _ e(3) v(3) range, of z env k c] line w Suc
        by (simp add: z_def zone_init_def env_def)
    qed
    show ?thesis
      using stop by (auto simp: ParseZone_def Suc run_parser_def Let_def lx dot zone_step_def zone_init_def at_begin_def
          blank_to_def v e z_def env_def)
  qed (simp add: ParseZone_def)
qed

section \<open>Locations lose digits\<close>

text \<open>The seconds \<open>0.009\<close> of a location become 8 thousandths, as the nearest \<open>float32\<close> is less.\<close>

lemma bit_len_numeral:
  "bit_len 0 = 0" "bit_len (Suc 0) = 1" "bit_len (numeral Num.One) = 1"
  "bit_len (numeral (Num.Bit0 n)) = Suc (bit_len (numeral n))" "bit_len (numeral (Num.Bit1 n)) = Suc (bit_len (numeral n))"
  by (subst bit_len.simps; simp)+

lemma round_seconds: "round32 (9, 1000) = (9663676, 1073741824)"
proof -
  have "log2_floor 9 1000 = - 7" by (simp add: log2_floor_def bit_len_numeral)
  moreover have "round_at (- 30) 9 1000 = 9663676" by (simp add: round_at_def round_even_def)
  ultimately show ?thesis by (simp add: round32_def round_frac_def)
qed

lemma seconds_lost: "map_option (\<lambda>x. float_uint32 (float_mul 1000 x)) (ParseFloat ''0.009'' 32) = Some 8"
proof -
  have "special_float ''0.009'' = None" "read_float ''0.009'' = Some (9, 1000)" by code_simp+
  then have "ParseFloat ''0.009'' 32 = Some (Finite (9663676, 1073741824))"
    by (simp add: ParseFloat_def round_seconds)
  moreover have "round64 (9663676000, 1073741824) = (5066549362688000, 562949953421312)"
  proof -
    have "log2_floor 9663676000 1073741824 = 3" by (simp add: log2_floor_def bit_len_numeral)
    moreover have "round_at (- 49) 9663676000 1073741824 = 5066549362688000" by (simp add: round_at_def round_even_def)
    ultimately show ?thesis by (simp add: round64_def round_frac_def)
  qed
  ultimately show ?thesis by (simp add: float_mul_def float_uint32_def)
qed

text \<open>The size of ten metres gets the mantissa 10, one more than a digit.\<close>

lemma cm_mantissa: "stringToCm ''10m'' = Ok (2, 10, True)"
  by code_simp

end
