(* ===== verification/Spec2Isabelle.thy ===== *)
theory Spec2Isabelle
  imports Gyip_Tests Gyip_Service Serve_Loop Dns_Update Zone_Round Zone_Safe
begin

text \<open>
  gyip is a DNS server that answers a query for an address with the addresses written in the
  queried name: \<open>10.0.0.1.gyip.io\<close> is answered with 10.0.0.1.  A label behind the addresses may be
  a command (\<open>rr\<close> picks one of them, \<open>f25\<close> fails a quarter of the queries), and \<open>echo\<close> is answered
  with the address of the client.  The program is \<open>src/gyip.go\<close> and \<open>src/command/\<close>; everything
  between the socket and the handler is the vendored library
  \<open>src/Godeps/_workspace/src/github.com/miekg/dns\<close>, called \<open>dns/\<close> here, and is modelled too.

  Conventions.  A Go call returns an \<open>outcome\<close> (\<open>Go_Prelude\<close>): \<open>Ok\<close>, an error value, a run-time panic,
  or \<open>Loops\<close> when it never returns.  Strings are byte strings (\<open>string\<close>), byte slices are lists of
  8-bit words, Go's \<open>int\<close> is \<open>int\<close> or \<open>nat\<close> (no offset or length in the code reaches 2 ^ 63), the
  sized integers are words.  Slices have no capacity beyond their length.  What the code reads
  from its environment is an argument: the draws of \<open>math/rand\<close>, \<open>net.LookupIP\<close>, the address of
  the client, what arrives on a connection, the errors of the network calls.

  The theories, from the bottom to the top:

  \<^item> \<open>Go_Prelude\<close>, \<open>Go_Net\<close>, \<open>Go_Encoding\<close>: what the code uses of Go and its library: slices and
    the functions of \<open>strings\<close> and \<open>strconv\<close>; \<open>net.ParseIP\<close>, \<open>IP.String\<close>, \<open>To4\<close>, \<open>To16\<close>; the
    packages \<open>hex\<close>, \<open>base32\<close> and \<open>base64\<close>, with the lemma that parsing inverts printing for each.
  \<^item> \<open>Gyip_Command\<close> (\<open>src/command/\<close>): the factory \<open>New\<close> and the commands; the contract of a command
    is a locale, interpreted for each of them.
  \<^item> \<open>Gyip_ParseIPs\<close> (\<open>parseIPs\<close>, \<open>reverse\<close>): the index loop, as a partial function, refines a
    scanner over labels; termination, soundness, and exactly when it panics or never returns.
  \<^item> \<open>Dns_Labels\<close> (\<open>dns/labels.go\<close>, parts of \<open>dns/defaults.go\<close>), \<open>Dns_Types\<close> (\<open>dns/types.go\<close>,
    \<open>dns/ztypes.go\<close>): labels of a name, suffixes and counts; the structs of all 69 record types,
    messages, questions, and the functions that build replies.
  \<^item> \<open>Gyip_Frame\<close> (\<open>frameResponse\<close>, \<open>respondToQuestion\<close>, \<open>handleQuestions\<close>): the handler, for every
    kind of request, with its shape, its safety and its panics.
  \<^item> \<open>Serve_Mux\<close> (\<open>ServeMux\<close> of \<open>dns/server.go\<close>): the registry of handlers is a locale; the match
    finds the most specific registered parent.
  \<^item> \<open>Gyip_Config\<close> (\<open>main\<close>, \<open>serve\<close>, \<open>checkDomain\<close>, \<open>splitDomains\<close>, \<open>splitHosts\<close>): start-up; the
    regular expression is a term of type \<open>rx\<close> and \<open>checkDomain\<close> is shown to accept the host names.
    \<open>Gyip_Tests\<close> evaluates the model on the inputs of \<open>src/gyip_test.go\<close> and
    \<open>src/command/*_test.go\<close>.
  \<^item> \<open>Wire_Fields\<close>, \<open>Wire_Name\<close>, \<open>Wire_Name_Pack\<close>, \<open>Wire_Text\<close>, \<open>Wire_Edns\<close>, \<open>Wire_Nsec\<close>
    (\<open>dns/msg_helpers.go\<close>, the names of \<open>dns/msg.go\<close>, \<open>dns/edns.go\<close>): a field is packed by a
    function on a buffer and unpacked by one on a message and an offset.  The locale \<open>wire_format\<close>
    says that packing writes the image of a value and that unpacking where the image stands reads
    the value back; it is interpreted for every kind of field.  The wire format of names is the
    relation \<open>name_at\<close>, with pointers.
  \<^item> \<open>Wire_Header\<close>, \<open>Wire_RR_Std\<close>, \<open>Wire_RR_Sec\<close>, \<open>Wire_RR_Ext\<close>, \<open>Wire_Record\<close>, \<open>Wire_Len\<close>
    (\<open>dns/zmsg.go\<close>, \<open>dns/ztypes.go\<close>, \<open>dns/rawmsg.go\<close>): the header of a record, the packer and the
    unpacker of every struct, \<open>PackRR\<close>, \<open>UnpackRR\<close>, and the methods \<open>len\<close> and \<open>copy\<close>.
  \<^item> \<open>Wire_Msg\<close> (\<open>dns/msg.go\<close>): \<open>Pack\<close> and \<open>Unpack\<close> of messages: a round trip on valid messages, no
    panic, no endless loop and a bounded result on arbitrary bytes, and a buffer that is long enough.
  \<^item> \<open>Wire_Compress\<close>: the same for replies with compression, on names without a backslash: what the
    names of their records are replaced by, and that \<open>Unpack\<close> follows the pointers back.
  \<^item> \<open>Wire_Clen\<close> (\<open>compressedLen\<close> of \<open>dns/msg.go\<close>, \<open>dns/zcompress.go\<close>): the length of a compressed
    message; it is exact for the replies of the program and is the size \<open>PackBuffer\<close> allocates when
    there is no compression.
  \<^item> \<open>Dns_Build\<close> (\<open>dns/defaults.go\<close>, \<open>ToRFC3597\<close>, \<open>Copy\<close>): the functions that build and classify
    messages; a copy and a record turned into its generic form are packed into the same bytes.
    \<open>Dns_Update\<close> (\<open>dns/update.go\<close>): updates on a store of records, since some of the functions
    change the records they are given; each appends what RFC 2136 says, but that \<open>Used\<close> leaves the
    TTL of the record, which the RFC wants to be zero.
  \<^item> \<open>Zone_Lex\<close> (\<open>zlexer\<close> of \<open>dns/scan.go\<close>, \<open>dns/scanner.go\<close>, the tables of \<open>dns/reverse.go\<close>): the lexer
    of zone files as a function from the bytes of a file to its tokens, with the invariant that the
    buffers are never overrun.  \<open>Zone_Base\<close>, \<open>Go_Float\<close>, \<open>Zone_RR\<close> (\<open>dns/scan_rr.go\<close>): parsers on
    the channel of the tokens, and one for the data of each type; they only read on, and all but two
    are shown never to panic.  \<open>Zone_Parse\<close> (\<open>parseZone\<close>, \<open>dns/generate.go\<close>, \<open>NewRR\<close>): the state
    machine over the tokens, one definition for each group of its states.
  \<^item> \<open>Dns_Print\<close> (the String methods of \<open>dns/types.go\<close>, \<open>dns/edns.go\<close>, \<open>dns/msg.go\<close>,
    \<open>dns/dns.go\<close>, and \<open>dns/sanitize.go\<close>): the presentation of records, options and messages, and the
    removal of duplicates, which compares it.
  \<^item> \<open>Zone_Safe\<close>: the parser of zone files ends without a panic, and the lines on which it does not.
    \<open>Zone_Text\<close>, \<open>Zone_Round\<close>: a printed name is printed as it is and is one word of the lexer; the
    tokens of a printed record; \<open>NewRR\<close> reads back what \<open>RR_String\<close> prints for 24 types.
  \<^item> \<open>Serve_Conn\<close> (\<open>readTCP\<close>, \<open>readUDP\<close>, \<open>serve\<close>, \<open>Write\<close>, \<open>WriteMsg\<close> of \<open>dns/server.go\<close>): one
    client; a connection is the list of what its reads deliver.  \<open>serve\<close> refines the specification
    that answers one message after the other.
  \<^item> \<open>Serve_Loop\<close> (\<open>ListenAndServe\<close>, \<open>ActivateAndServe\<close>, \<open>Shutdown\<close>, \<open>serveUDP\<close>, \<open>serveTCP\<close>): the
    life of a server as a step relation with one step for each atomic action, those of the program
    told apart from those of the network; its invariant, what \<open>Shutdown\<close> waits for, how a stopped
    server comes to its end, and the races between \<open>Shutdown\<close>, a loop and a restart.
  \<^item> \<open>Gyip_Service\<close> and this theory: the program on bytes.  A datagram goes through \<open>readUDP\<close>,
    \<open>Unpack\<close>, the multiplexer, the handlers, \<open>Pack\<close> and \<open>Write\<close>; the properties below say what comes
    back.

  Bounds.  The loop of \<open>parseIPs\<close> is a \<open>partial_function\<close>.  \<open>parseZone\<close>, which calls itself for an
  included file and for each line that \<open>$GENERATE\<close> makes, has fuel, one unit for a call or a round; 8
  is enough for the files of \<open>ParseZone_returns\<close>, since seven levels of \<open>$INCLUDE\<close> are allowed, and no
  fuel is enough for a \<open>$GENERATE\<close> with the step 0 whose first line is read (\<open>generate_runs_on\<close>).  Every other loop of the code is a function
  that is shown to terminate: at most ten pointers in a name, the counts of the header (16 bits) in
  the sections, 130 messages on a connection, the tokens of a zone file.  A stopped server has
  \<open>work s\<close> steps left, errors of \<open>Accept\<close> on an open listener not counted.

  Not modelled: DNSSEC, SIG(0) and TSIG, which need cryptography that is not under \<open>src/\<close> (the
  servers of the program have no TSIG secrets); private records, whose data is an interface that the
  application implements (\<open>dns/privaterr.go\<close>); the fields of a record by reflection
  (\<open>dns/format.go\<close>); the client and zone transfers (\<open>dns/client.go\<close>, \<open>dns/xfr.go\<close>); the socket options
  and the source address of datagrams (\<open>dns/udp*.go\<close>); the programs that generate \<open>dns/z*.go\<close>; the
  messages printed by the program, the flags and the seed of the random numbers.  Deadlines are not
  timed: a read that has one may fail at any point, and \<open>Accept\<close>, which has none, only waits.  The
  panic by which a \<open>WaitGroup\<close> may report its misuse is left out.  A parser of a zone file that returns early leaves the
  goroutine of its lexer behind, which the model, where the lexer is a function, does not show.
\<close>

section \<open>The program on the wire\<close>

text \<open>A query with one question, as a resolver sends it.\<close>

definition question_message :: "uint16 \<Rightarrow> bool \<Rightarrow> string \<Rightarrow> uint16 \<Rightarrow> Msg" where
  "question_message i rd name t =
     new_Msg\<lparr>MsgId := i, RecursionDesired := rd, Questions := [\<lparr>QName = name, Qtype = t, Qclass = ClassINET\<rparr>]\<rparr>"

lemma question_message_simps [simp]:
  "Questions (question_message i rd name t) = [\<lparr>QName = name, Qtype = t, Qclass = ClassINET\<rparr>]"
  "\<not> Response (question_message i rd name t)" "\<not> Truncated (question_message i rd name t)"
  "message_norm (question_message i rd name t) = question_message i rd name t"
  by (simp_all add: question_message_def new_Msg_def message_norm_def)

lemma question_message_valid: "valid_name name \<Longrightarrow> message_valid (question_message i rd name t)"
  by (simp add: question_message_def new_Msg_def message_valid_def records_valid_def)

lemma question_message_small: "valid_name name \<Longrightarrow> length (wire_message (question_message i rd name t)) \<le> 512"
proof (elim valid_name_obtain)
  fix ls assume "labels_ok ls" "wire_name name = wire_of_labels ls @ [0]"
  then show ?thesis
    by (simp add: wire_message_def wire_questions_def wire_records_def wire_question_def labels_ok_def)
      (simp add: question_message_def new_Msg_def)
qed

lemma serve_question:
  assumes "valid_name name" "\<not> server_compress srv"
  shows "serve_datagram srv draws addr (wire_message (question_message i rd name t)) =
    map_ok (\<lambda>m. [wire_message m]) (server_reply srv draws addr (question_message i rd name t))"
  using datagram_of_query [of "question_message i rd name t" srv draws addr] assms
    question_message_valid [OF assms(1)] question_message_small [OF assms(1)] by simp

lemma served_question:
  assumes "main lookup opts = Ok (Inr srv)" "name = fqdn ls" "list_all label_ok ls" "[] \<notin> set ls"
    and "served (splitDomains (opt_domain opts)) ls" "t \<noteq> TypeDS"
  shows "server_reply srv draws addr (question_message i rd name t) =
    handleQuestions (splitDomains (opt_domain opts)) (opt_compress opts) draws addr (question_message i rd name t)"
proof -
  have so: "server_of lookup opts srv" by (rule main_server_of [OF assms(1)])
  then show ?thesis
    using server_dispatch [OF so, of "question_message i rd name t" _ "[]" ls] assms(2-)
    by (simp add: server_reply_def server_of_def)
qed

lemma question_read:
  "valid_name name \<Longrightarrow> Unpack new_Msg (wire_message (question_message i rd name t)) = Ok (question_message i rd name t, None)"
  using Unpack_image [OF question_message_valid, of name i rd t new_Msg]
  by (simp add: question_message_def new_Msg_def message_norm_def)

lemma address_records_reply:
  assumes p: "plain_labels bs" and n: "length (address_records t (present bs) ttl out) < 65536"
  shows "address_reply bs (reply_with True (question_message i rd (present bs) t) (address_records t (present bs) ttl out))"
  using address_records_shape [of _ t "present bs" ttl out] n p
  by (fastforce simp: address_reply_def reply_with_def address_rr_def list_all_iff)

section \<open>Properties\<close>

text \<open>C1: From the bytes of a query to the bytes of the answer: a server started without compression
  that gets a datagram with a query for the A or AAAA records of a request (words and printed
  addresses, then possibly a command) below a served domain sends back one datagram, and a
  resolver that unpacks it finds exactly the addresses the command keeps, as records under the name
  it asked for, with the id of the query.\<close>

theorem query_answered:
  assumes "main lookup opts = Ok (Inr srv)" "\<not> opt_compress opts"
    and "valid_request its c" "scan_result its = Ok ips" "ips \<noteq> []"
    and "Execute (command_of c) (draws 0) ips = Ok (out, ttl)" "address_type t"
    and "name = request its c @ CHR ''.'' # zone" "valid_name name"
    and "find_domain (splitDomains (opt_domain opts)) name = zone"
    and "name = fqdn ls" "list_all label_ok ls" "[] \<notin> set ls" "served (splitDomains (opt_domain opts)) ls"
  shows "let m = reply_with False (question_message i rd name t) (address_records t name ttl out)
    in serve_datagram srv draws addr (wire_message (question_message i rd name t)) = Ok [wire_message m] \<and>
       Unpack new_Msg (wire_message m) = Ok (message_packed m, None) \<and>
       MsgId (message_packed m) = i \<and>
       map Rdata (Answer (message_packed m)) = map Rdata (address_records t name ttl out)"
proof -
  let ?r = "question_message i rd name t"
  let ?m = "reply_with False ?r (address_records t name ttl out)"
  have c: "\<not> server_compress srv"
    using main_server_of [OF assms(1)] assms(2) by (simp add: server_of_def)
  have "frameResponse (remote_ip addr) t name zone (draws 0) = Ok (address_records t name ttl out)"
    using frameResponse_request [OF assms(3), of "remote_ip addr" t zone "draws 0"] assms(4,5,6,8) by simp
  then have "handleQuestions (splitDomains (opt_domain opts)) False draws addr ?r = Ok ?m"
    using handleQuestions_first [of ?r _ "[]"] assms(7,10) by simp
  then have s: "server_reply srv draws addr ?r = Ok ?m"
    using served_question [OF assms(1,11-14), of t draws addr i rd] assms(2,7)
    by (auto simp: address_type_def)
  have "reply_to ?r ?m"
    using server_reply_orderly(2) [OF _ c s] assms(9) by simp
  from Unpack_reply [OF this] have u: "Unpack new_Msg (wire_message ?m) = Ok (message_packed ?m, None)" by simp
  have "MsgId (message_packed ?m) = i"
    by (simp add: message_packed_def reply_with_def) (simp add: question_message_def)
  then show ?thesis using serve_question [OF assms(9) c] s u
    unfolding Let_def by (simp add: message_packed_def) (simp add: reply_with_def)
qed

definition example_options :: options where
  "example_options = \<lparr>opt_hosts = '''', opt_domain = ''gyip.io'', opt_port = ''53'',
     opt_tcpOff = False, opt_udpOff = False, opt_compress = False\<rparr>"

lemma example_domains: "splitDomains (opt_domain example_options) = [''gyip.io.'']"
  by code_simp

lemma example_started: "\<exists>srv. main (\<lambda>h. None) example_options = Ok (Inr srv)"
  using main_serves [of example_options "\<lambda>h. None"] example_domains
  by (auto simp: example_options_def)

lemma example_served: "suffix [''gyip'', ''io''] (map ToLower ls) \<Longrightarrow> served [''gyip.io.''] ls"
proof -
  assume "suffix [''gyip'', ''io''] (map ToLower ls)"
  moreover have "fqdn [''gyip'', ''io''] = ''gyip.io.''" "name_labels [''gyip'', ''io'']" by code_simp+
  ultimately show ?thesis unfolding served_def by (intro exI [of _ "[''gyip'', ''io'']"]) simp
qed

theorem query_answered_witness:
  "\<exists>srv. main (\<lambda>h. None) example_options = Ok (Inr srv) \<and>
    (let m = reply_with False (question_message 7 True ''10.0.0.1.gyip.io.'' TypeA)
        (address_records TypeA ''10.0.0.1.gyip.io.'' defaultTTL [v4InV6Prefix @ [10, 0, 0, 1]])
     in serve_datagram srv (\<lambda>_. 0) OtherAddr (wire_message (question_message 7 True ''10.0.0.1.gyip.io.'' TypeA)) =
        Ok [wire_message m])"
proof -
  let ?its = "[Addr (v4InV6Prefix @ [10, 0, 0, 1])]" and ?name = "''10.0.0.1.gyip.io.''"
  let ?ls = "[''10'', ''0'', ''0'', ''1'', ''gyip'', ''io'']"
  obtain srv where srv: "main (\<lambda>h. None) example_options = Ok (Inr srv)" using example_started ..
  have "valid_request ?its None" "scan_result ?its = Ok [v4InV6Prefix @ [10, 0, 0, 1]]"
    "Execute (command_of None) ((\<lambda>_. 0) 0) [v4InV6Prefix @ [10, 0, 0, 1]] = Ok ([v4InV6Prefix @ [10, 0, 0, 1]], defaultTTL)"
    "address_type TypeA" "?name = request ?its None @ CHR ''.'' # ''gyip.io.''" "valid_name ?name"
    "find_domain [''gyip.io.''] ?name = ''gyip.io.''" "?name = fqdn ?ls" "list_all label_ok ?ls" "[] \<notin> set ?ls"
    "\<not> opt_compress example_options"
    by code_simp+
  moreover have "suffix [''gyip'', ''io''] (map ToLower ?ls)"
    unfolding suffix_def by (rule exI [of _ "[''10'', ''0'', ''0'', ''1'']"]) code_simp
  then have "served [''gyip.io.''] ?ls" by (rule example_served)
  ultimately show ?thesis
    using query_answered [OF srv, of ?its None "[v4InV6Prefix @ [10, 0, 0, 1]]" "\<lambda>_. 0"
        "[v4InV6Prefix @ [10, 0, 0, 1]]" defaultTTL TypeA ?name "''gyip.io.''" ?ls 7 True OtherAddr] srv
    unfolding example_domains Let_def by blast
qed

text \<open>C3: The same with compression: when the name asked for needs no backslash, the names of the
  records are pointers to the question, every record is as many octets shorter as that saves, and a
  resolver that follows the pointers finds the same message.\<close>

theorem query_answered_compressed:
  assumes "main lookup opts = Ok (Inr srv)" "opt_compress opts"
    and "valid_request its c" "scan_result its = Ok ips" "ips \<noteq> []"
    and "Execute (command_of c) (draws 0) ips = Ok (out, ttl)" "address_type t"
    and "name = request its c @ CHR ''.'' # zone" "name = present bs" "plain_labels bs"
    and "find_domain (splitDomains (opt_domain opts)) name = zone"
    and "served (splitDomains (opt_domain opts)) (map string_of bs)"
  shows "let m = reply_with True (question_message i rd name t) (address_records t name ttl out)
    in serve_datagram srv draws addr (wire_message (question_message i rd name t)) = Ok [compressed_message m] \<and>
       length (compressed_message m) + length (Answer m) * (name_octets bs - 1) = length (wire_message m) \<and>
       Unpack new_Msg (compressed_message m) = Ok ((message_packed m)\<lparr>Compress := False\<rparr>, None)"
proof -
  let ?r = "question_message i rd name t"
  let ?m = "reply_with True ?r (address_records t name ttl out)"
  have v: "valid_name name" using plain_wire_name [OF assms(10)] assms(9) by simp
  have ls: "name = fqdn (map string_of bs)" "list_all label_ok (map string_of bs)" "[] \<notin> set (map string_of bs)"
    using plain_fqdn [OF assms(10)] assms(9) by simp_all
  have f: "frameResponse (remote_ip addr) t name zone (draws 0) = Ok (address_records t name ttl out)"
    using frameResponse_request [OF assms(3), of "remote_ip addr" t zone "draws 0"] assms(4,5,6,8) by simp
  then have "handleQuestions (splitDomains (opt_domain opts)) True draws addr ?r = Ok ?m"
    using handleQuestions_first [of ?r _ "[]"] assms(7,11) by simp
  then have s: "server_reply srv draws addr ?r = Ok ?m"
    using served_question [OF assms(1) ls assms(12), of t draws addr i rd] assms(2,7)
    by (auto simp: address_type_def)
  have "length (address_records t name ttl out) \<le> length name + 2"
    using frameResponse_orderly [of name] valid_name_start [OF v] f by (auto simp: proper_start_def)
  then have "length (address_records t name ttl out) < 65536" using valid_name_length [OF v] by simp
  then have a: "address_reply bs ?m" using address_records_reply [OF assms(10)] unfolding assms(9) by simp
  have "serve_datagram srv draws addr (wire_message ?r) = Ok [compressed_message ?m]"
    using serve_datagram_small [of "wire_message ?r"] question_message_small [OF v] s Pack_compressed [OF a]
    by (simp add: serve_request_def question_read [OF v] WriteMsg_def response_Write_def)
  then show ?thesis
    using Unpack_compressed [OF a, of new_Msg] compressed_length [OF a]
    by (simp add: Let_def reply_with_def) (simp add: new_Msg_def)
qed

theorem query_answered_compressed_witness:
  "\<exists>srv. main (\<lambda>h. None) (example_options\<lparr>opt_compress := True\<rparr>) = Ok (Inr srv) \<and>
    (let m = reply_with True (question_message 7 True ''1.1.1.1.2.2.2.2.gyip.io.'' TypeA)
        (address_records TypeA ''1.1.1.1.2.2.2.2.gyip.io.'' defaultTTL [v4InV6Prefix @ [1, 1, 1, 1], v4InV6Prefix @ [2, 2, 2, 2]])
     in serve_datagram srv (\<lambda>_. 0) OtherAddr (wire_message (question_message 7 True ''1.1.1.1.2.2.2.2.gyip.io.'' TypeA)) =
        Ok [compressed_message m])"
proof -
  let ?opts = "example_options\<lparr>opt_compress := True\<rparr>"
  let ?ips = "[v4InV6Prefix @ [1, 1, 1, 1], v4InV6Prefix @ [2, 2, 2, 2]]"
  let ?its = "map Addr ?ips" and ?name = "''1.1.1.1.2.2.2.2.gyip.io.''"
  let ?bs = "[[49], [49], [49], [49], [50], [50], [50], [50], [103, 121, 105, 112], [105, 111]] :: byte list list"
  have d: "splitDomains (opt_domain ?opts) = [''gyip.io.'']" by code_simp
  obtain srv where srv: "main (\<lambda>h. None) ?opts = Ok (Inr srv)"
    using main_serves [of ?opts "\<lambda>h. None"] d by (auto simp: example_options_def)
  have "valid_request ?its None" "scan_result ?its = Ok ?ips"
    "Execute (command_of None) ((\<lambda>_. 0) 0) ?ips = Ok (?ips, defaultTTL)"
    "address_type TypeA" "?name = request ?its None @ CHR ''.'' # ''gyip.io.''" "?name = present ?bs"
    "plain_labels ?bs" "find_domain [''gyip.io.''] ?name = ''gyip.io.''" "opt_compress ?opts"
    by code_simp+
  moreover have "suffix [''gyip'', ''io''] (map ToLower (map string_of ?bs))"
    unfolding suffix_def by (rule exI [of _ "[''1'', ''1'', ''1'', ''1'', ''2'', ''2'', ''2'', ''2'']"]) code_simp
  then have "served [''gyip.io.''] (map string_of ?bs)" by (rule example_served)
  ultimately show ?thesis
    using query_answered_compressed [OF srv, of ?its None ?ips "\<lambda>_. 0" ?ips defaultTTL TypeA ?name "''gyip.io.''" ?bs 7 True OtherAddr] srv
    unfolding d Let_def by blast
qed

text \<open>C5: Whatever bytes arrive, a server started without compression sends at most one datagram back
  or panics on a slice; it never runs forever.  What it sends is the image of a valid message with
  the bit for responses, and it begins with the id of the bytes it answers.\<close>

theorem datagram_reply_type:
  assumes "main lookup opts = Ok (Inr srv)" "\<not> opt_compress opts"
  shows "serve_datagram srv draws addr d = Panic SliceBoundsOutOfRange \<or>
    (\<exists>out. serve_datagram srv draws addr d = Ok out \<and> length out \<le> 1 \<and>
      (\<forall>x \<in> set out. \<exists>m. x = wire_message m \<and> message_valid m \<and> Response m \<and>
        (12 \<le> length d \<longrightarrow> take 2 x = take 2 d)))"
proof (cases "d = []")
  case False
  have c: "\<not> server_compress srv"
    using main_server_of [OF assms(1)] assms(2) by (simp add: server_of_def)
  let ?m = "take 512 d"
  have s: "serve_datagram srv draws addr d = serve_request False (server_reply srv draws addr) UDP ?m"
    using False by (simp add: serve_datagram_def readUDP_def MinMsgSize_def)
  obtain r e where u: "Unpack new_Msg ?m = Ok (r, e)" "12 \<le> length ?m \<longrightarrow> be_bytes 2 (MsgId r) = take 2 ?m"
    using Unpack_total by blast
  show ?thesis
  proof (cases e)
    case (Some e')
    then show ?thesis using serve_malformed [of ?m r e'] u formerr_message [of r]
      unfolding s by (auto simp: formerr_def intro!: exI [of _ "SetRcodeFormatError new_Msg r"])
  next
    case None
    show ?thesis
    proof (cases "Response r")
      case True
      then show ?thesis using u(1) None unfolding s by (simp add: serve_request_def)
    next
      case False
      have q: "serve_request False (server_reply srv draws addr) UDP ?m =
          map_ok (\<lambda>m. [wire_message m]) (server_reply srv draws addr r)"
        by (rule serve_request_reply [OF _ False c]) (use u(1) None in simp)
      have v: "list_all (\<lambda>q. valid_name (QName q)) (Questions r)" by (rule Unpack_names [OF u(1)])
      show ?thesis
        using server_reply_orderly [OF v c, of draws addr] u(2) reply_id unfolding s q
        by (cases "server_reply srv draws addr r") (auto simp: reply_to_def)
    qed
  qed
qed (simp add: serve_datagram_def readUDP_def)

theorem datagram_reply_type_witness:
  "\<exists>srv. main (\<lambda>h. None) example_options = Ok (Inr srv) \<and>
    (\<exists>out. serve_datagram srv (\<lambda>_. 0) OtherAddr [1, 2, 3] = Ok out \<or>
       serve_datagram srv (\<lambda>_. 0) OtherAddr [1, 2, 3] = Panic SliceBoundsOutOfRange)"
proof -
  obtain srv where srv: "main (\<lambda>h. None) example_options = Ok (Inr srv)" using example_started ..
  have "\<not> opt_compress example_options" by code_simp
  from datagram_reply_type [OF srv this, of "\<lambda>_. 0" OtherAddr "[1, 2, 3]"] srv show ?thesis by blast
qed

text \<open>C7: Every server can be stopped with one datagram: when the first domain it serves is written in
  lower case and fits on the wire, a query for the addresses of that very name makes the handler
  panic, and nothing in the program recovers.\<close>

theorem served_domain_query_panics:
  assumes "main lookup opts = Ok (Inr srv)" "\<not> opt_compress opts"
    and "d = hd (splitDomains (opt_domain opts))" "ToLower d = d" "valid_name d" "address_type t"
  shows "serve_datagram srv draws addr (wire_message (question_message i rd d t)) = Panic SliceBoundsOutOfRange"
proof -
  have so: "server_of lookup opts srv" by (rule main_server_of [OF assms(1)])
  then have c: "\<not> server_compress srv" using assms(2) by (simp add: server_of_def)
  have ne: "splitDomains (opt_domain opts) \<noteq> []"
    using assms(1) by (auto simp: main_def Let_def split: if_splits)
  then obtain ds where ds: "splitDomains (opt_domain opts) = d # ds" using assms(3) by (cases "splitDomains (opt_domain opts)") auto
  then obtain ls where ls: "ls \<noteq> []" "list_all host_label ls" "d = fqdn ls"
    using splitDomains_host [of d "opt_domain opts"] by auto
  have l: "list_all label_ok ls" "[] \<notin> set ls" "name_labels ls"
    using ls(2) host_label_ok host_name_labels by (auto simp: list_all_iff)
  have "map ToLower ls = ls"
    using assms(4) ls(3) l(3) by (metis fqdn_ToLower fqdn_inj name_labels_ToLower)
  then have "served (splitDomains (opt_domain opts)) ls"
    unfolding served_def using ls l(3) ds by (intro exI [of _ ls]) (auto simp: suffix_def)
  then have "server_reply srv draws addr (question_message i rd d t) =
      handleQuestions (d # ds) False draws addr (question_message i rd d t)"
    using served_question [OF assms(1) ls(3) l(1,2)] assms(2,6) ds by (auto simp: address_type_def)
  moreover have "d \<noteq> ''''" using ls by (simp add: fqdn_def)
  moreover have "find_domain (d # ds) d = d" by (simp add: HasSuffix_def)
  ultimately have "server_reply srv draws addr (question_message i rd d t) = Panic SliceBoundsOutOfRange"
    using handleQuestions_first [of "question_message i rd d t" _ "[]"] assms(6)
    by (simp add: frameResponse_apex)
  then show ?thesis using serve_question [OF assms(5) c] by simp
qed

theorem served_domain_query_panics_witness:
  "\<exists>srv. main (\<lambda>h. None) example_options = Ok (Inr srv) \<and>
    serve_datagram srv (\<lambda>_. 0) OtherAddr (wire_message (question_message 7 True ''gyip.io.'' TypeA)) =
      Panic SliceBoundsOutOfRange"
proof -
  obtain srv where srv: "main (\<lambda>h. None) example_options = Ok (Inr srv)" using example_started ..
  have "''gyip.io.'' = hd (splitDomains (opt_domain example_options))" "\<not> opt_compress example_options"
    "ToLower ''gyip.io.'' = ''gyip.io.''" "valid_name ''gyip.io.''" "address_type TypeA" by code_simp+
  then show ?thesis using served_domain_query_panics [OF srv] srv by blast
qed

end
